(* ===== verification/Legacy_Prelude.thy ===== *)
theory Legacy_Prelude
  imports Main "HOL-Library.Word" "HOL-Library.Monad_Syntax"
begin

unbundle bit_operations_syntax

text \<open>
  The shared vocabulary of the development: C objects as lists with bounds-checked
  access, the byte order of multi-byte loads and stores, allocation, and the generic
  lemmas the components use about them.

  A C object (an array, a buffer, an allocated block) is the list of its elements; a
  pointer into it is an index.  Every access is checked: \<open>None\<close> is an access outside
  the object, which C leaves undefined.  A theorem that a routine returns \<open>Some\<close> is
  therefore also a proof that it stays inside its objects.
\<close>

type_synonym byte = "8 word"
type_synonym u16 = "16 word"
type_synonym u32 = "32 word"
type_synonym u64 = "64 word"
type_synonym size_t = "64 word"

named_theorems mem_simps \<open>computation rules of the bounds-checked accesses\<close>
named_theorems mem_len \<open>lengths of the objects the accesses return\<close>

section \<open>Bounds-checked access to a C object\<close>

definition mread :: "'a list \<Rightarrow> nat \<Rightarrow> 'a option" where
  "mread m i = (if i < length m then Some (m ! i) else None)"

definition mwrite :: "'a list \<Rightarrow> nat \<Rightarrow> 'a \<Rightarrow> 'a list option" where
  "mwrite m i v = (if i < length m then Some (m[i := v]) else None)"

definition mslice :: "'a list \<Rightarrow> nat \<Rightarrow> nat \<Rightarrow> 'a list option" where
  "mslice m i n = (if i + n \<le> length m then Some (take n (drop i m)) else None)"

definition mblit :: "'a list \<Rightarrow> nat \<Rightarrow> 'a list \<Rightarrow> 'a list option" where
  "mblit m i xs =
     (if i + length xs \<le> length m
      then Some (take i m @ xs @ drop (i + length xs) m) else None)"

definition mfill :: "'a list \<Rightarrow> nat \<Rightarrow> nat \<Rightarrow> 'a \<Rightarrow> 'a list option" where
  "mfill m i n v = mblit m i (replicate n v)"

lemma mread_ok [mem_simps]: "i < length m \<Longrightarrow> mread m i = Some (m ! i)"
  by (simp add: mread_def)

lemma mread_SomeD: "mread m i = Some v \<Longrightarrow> i < length m \<and> v = m ! i"
  by (auto simp: mread_def split: if_splits)

lemma mwrite_ok [mem_simps]: "i < length m \<Longrightarrow> mwrite m i v = Some (m[i := v])"
  by (simp add: mwrite_def)

lemma mwrite_SomeD: "mwrite m i v = Some m' \<Longrightarrow> i < length m \<and> m' = m[i := v]"
  by (auto simp: mwrite_def split: if_splits)

lemma mslice_ok [mem_simps]:
  "i + n \<le> length m \<Longrightarrow> mslice m i n = Some (take n (drop i m))"
  by (simp add: mslice_def)

lemma mslice_SomeD:
  "mslice m i n = Some xs \<Longrightarrow> i + n \<le> length m \<and> xs = take n (drop i m) \<and> length xs = n"
  by (auto simp: mslice_def split: if_splits)

lemma mblit_ok [mem_simps]:
  "i + length xs \<le> length m \<Longrightarrow>
     mblit m i xs = Some (take i m @ xs @ drop (i + length xs) m)"
  by (simp add: mblit_def)

lemma mblit_SomeD:
  "mblit m i xs = Some m' \<Longrightarrow>
     i + length xs \<le> length m \<and> m' = take i m @ xs @ drop (i + length xs) m"
  by (auto simp: mblit_def split: if_splits)

lemma mblit_length [mem_len]: "mblit m i xs = Some m' \<Longrightarrow> length m' = length m"
  by (auto dest: mblit_SomeD)

lemma mwrite_length [mem_len]: "mwrite m i v = Some m' \<Longrightarrow> length m' = length m"
  by (auto dest: mwrite_SomeD)

lemma mblit_nth_inside:
  "mblit m i xs = Some m' \<Longrightarrow> k < length xs \<Longrightarrow> m' ! (i + k) = xs ! k"
  by (auto dest!: mblit_SomeD simp: nth_append)

lemma mblit_nth_outside:
  "mblit m i xs = Some m' \<Longrightarrow> k < length m \<Longrightarrow> k < i \<or> i + length xs \<le> k \<Longrightarrow> m' ! k = m ! k"
  by (auto dest!: mblit_SomeD simp: nth_append min_def)

lemma mblit_empty [simp]: "i \<le> length m \<Longrightarrow> mblit m i [] = Some m"
  by (simp add: mblit_def)

text \<open>Reading back what was just stored.\<close>

lemma mslice_mblit_same:
  "mblit m i xs = Some m' \<Longrightarrow> mslice m' i (length xs) = Some xs"
  by (auto dest!: mblit_SomeD simp: mslice_def)

lemma mblit_mblit_adjacent:
  assumes "mblit m i xs = Some m1" and "mblit m1 (i + length xs) ys = Some m2"
  shows "mblit m i (xs @ ys) = Some m2"
proof -
  from assms(1) have l: "i + length xs \<le> length m"
    and m1: "m1 = take i m @ xs @ drop (i + length xs) m" by (auto dest: mblit_SomeD)
  from assms(2) have l2: "i + length xs + length ys \<le> length m1"
    and m2: "m2 = take (i + length xs) m1 @ ys @ drop (i + length xs + length ys) m1"
    by (auto dest: mblit_SomeD)
  have len: "length m1 = length m" using l m1 by simp
  have t: "take (i + length xs) m1 = take i m @ xs"
    using l by (simp add: m1)
  have d: "drop (i + length xs + length ys) m1 = drop (i + length xs + length ys) m"
    using l by (simp add: m1 add.commute)
  show ?thesis
    using l l2 len by (simp add: mblit_def m2 t d add.assoc [symmetric])
qed

section \<open>Allocation\<close>

text \<open>
  \<open>malloc\<close> is a parameter of the routines that allocate: a request for \<open>n\<close> elements
  yields either nothing (the null pointer) or an object of exactly \<open>n\<close> elements with
  unspecified contents.
\<close>

definition allocator :: "(nat \<Rightarrow> 'a list option) \<Rightarrow> bool" where
  "allocator al \<longleftrightarrow> (\<forall>n b. al n = Some b \<longrightarrow> length b = n)"

lemma allocatorD: "allocator al \<Longrightarrow> al n = Some b \<Longrightarrow> length b = n"
  by (simp add: allocator_def)

text \<open>Two concrete allocators, for the instances: one that zeroes and one that fails.\<close>

definition calloc_list :: "nat \<Rightarrow> 'a::zero list option" where
  "calloc_list n = Some (replicate n 0)"

lemma allocator_calloc_list: "allocator calloc_list"
  by (simp add: allocator_def calloc_list_def)

section \<open>Error numbers\<close>

text \<open>The error numbers the library itself sets or tests; any other is a number of the system.\<close>

datatype errno =
  EINVAL | ENOMEM | ENOTDIR | ENOTSUP | ENXIO | EFAULT | EBADF | ENOENT | EINTR | EPERM | EACCES | EMFILE | ENOSPC
| EEXIST | ENOATTR | EAGAIN | ECANCELED | EISDIR | Errno nat

section \<open>Signed integers\<close>

text \<open>
  C leaves the overflow of a signed \<open>int\<close> undefined; \<open>s32\<close> is the check.  The conversions
  between \<open>int\<close> and \<open>size_t\<close> that C makes implicitly are written out as sign extension and
  truncation.
\<close>

definition s32 :: "int \<Rightarrow> int option" where
  "s32 x = (if - (2 ^ 31) \<le> x \<and> x < 2 ^ 31 then Some x else None)"

lemma s32_ok [mem_simps]: "- 2147483648 \<le> x \<Longrightarrow> x < 2147483648 \<Longrightarrow> s32 x = Some x"
  by (simp add: s32_def)

lemma s32_SomeD: "s32 x = Some y \<Longrightarrow> y = x \<and> - 2147483648 \<le> x \<and> x < 2147483648"
  by (auto simp: s32_def split: if_splits)

definition s64 :: "int \<Rightarrow> int option" where
  "s64 x = (if - (2 ^ 63) \<le> x \<and> x < 2 ^ 63 then Some x else None)"

lemma s64_ok [mem_simps]: "- 9223372036854775808 \<le> x \<Longrightarrow> x < 9223372036854775808 \<Longrightarrow> s64 x = Some x"
  by (simp add: s64_def)

text \<open>The conversion of a wider signed integer to \<open>int\<close>.\<close>

definition to_int32 :: "int \<Rightarrow> int" where
  "to_int32 x = sint (word_of_int x :: u32)"

lemma to_int32_ok: "- 2147483648 \<le> x \<Longrightarrow> x < 2147483648 \<Longrightarrow> to_int32 x = x"
  unfolding to_int32_def by (simp add: int_word_sint)

lemma sint_small:
  assumes "unat (a :: u32) < 2 ^ 31"
  shows "sint a = int (unat a)"
proof -
  have "signed_take_bit 31 (int (unat a)) = int (unat a)"
    by (rule signed_take_bit_int_eq_self) (use assms in \<open>simp_all del: of_nat_unat\<close>)
  then show ?thesis by (simp add: sint_uint)
qed

lemma sint_diff_small:
  assumes "unat (a :: u32) < 2 ^ 31" and "unat (b :: u32) < 2 ^ 31"
  shows "sint (a - b) = int (unat a) - int (unat b)"
proof -
  have "signed_take_bit 31 (int (unat a) - int (unat b)) = int (unat a) - int (unat b)"
    by (rule signed_take_bit_int_eq_self) (use assms in \<open>simp_all del: of_nat_unat\<close>)
  then show ?thesis using assms by (simp add: sint_word_ariths sint_small)
qed

lemma sint_diff_neg:
  "unat (a :: u32) < 2 ^ 31 \<Longrightarrow> unat (b :: u32) < 2 ^ 31 \<Longrightarrow> sint (a - b) < 0 \<longleftrightarrow> unat a < unat b"
  by (simp add: sint_diff_small del: of_nat_unat)

text \<open>A non-negative \<open>int\<close> keeps its value when it is converted to \<open>size_t\<close>.\<close>

lemma unat_scast_small:
  assumes "unat (a :: u32) < 2 ^ 31"
  shows "unat (scast a :: size_t) = unat a"
proof -
  have "(scast a :: size_t) = word_of_int (int (unat a))"
    using sint_small [OF assms] by (metis scast_eq)
  then have "(scast a :: size_t) = word_of_nat (unat a)" by (metis of_int_of_nat_eq)
  moreover have "unat (word_of_nat n :: size_t) = n mod 2 ^ 64" for n
    by (simp add: unat_of_nat take_bit_eq_mod)
  ultimately have "unat (scast a :: size_t) = unat a mod 2 ^ 64" by (simp only:)
  also have "\<dots> = unat a" using assms by simp
  finally show ?thesis .
qed

lemma unat_ucast_small:
  assumes "unat (a :: size_t) < 2 ^ 32"
  shows "unat (ucast a :: u32) = unat a"
proof -
  have "take_bit 32 (unat a) = unat a" using assms by (rule take_bit_nat_eq_self)
  moreover have "unat (ucast a :: u32) = take_bit LENGTH(32) (unat a)" by (rule unsigned_ucast_eq)
  ultimately show ?thesis by simp
qed

lemma unat_less_64: "unat (a :: 64 word) < 2 ^ 64"
  using unsigned_less [of a, where ?'a = nat] by simp

lemma unat_less_32: "unat (a :: 32 word) < 2 ^ 32"
  using unsigned_less [of a, where ?'a = nat] by simp

lemma uint_of_int64: "uint (word_of_int k :: 64 word) = k mod 2 ^ 64"
  by (simp add: uint_word_of_int)

lemma uint_add_sint:
  fixes b x :: "64 word"
  assumes "uint b < 2 ^ 63"
  shows "uint (b + x) = (if 0 \<le> uint b + sint x then uint b + sint x else uint b + sint x + 2 ^ 64)"
proof -
  have r: "- (2 ^ 63) \<le> sint x" "sint x < 2 ^ 63"
    using sint_ge [of x] sint_lt [of x] by simp_all
  have "b + x = word_of_int (uint b + sint x)" by simp
  then have "uint (b + x) = (uint b + sint x) mod 2 ^ 64" by (simp only: uint_of_int64)
  also have "\<dots> = (if 0 \<le> uint b + sint x then uint b + sint x else uint b + sint x + 2 ^ 64)"
  proof (cases "0 \<le> uint b + sint x")
    case True
    then show ?thesis using r assms by (simp add: mod_pos_pos_trivial)
  next
    case False
    have "(uint b + sint x + 2 ^ 64) mod 2 ^ 64 = uint b + sint x + 2 ^ 64"
      using False r assms
      by (intro mod_pos_pos_trivial; simp; insert uint_ge_0 [of b]; linarith)
    then show ?thesis using False by simp
  qed
  finally show ?thesis .
qed

lemma sint_nonneg_uint: "0 \<le> sint (a :: 64 word) \<Longrightarrow> uint a = sint a"
  using uint_add_sint [of 0 a] by simp

lemma sint_negative_uint: "sint (a :: 64 word) < 0 \<Longrightarrow> 2 ^ 63 \<le> uint a"
  using uint_add_sint [of 0 a] sint_ge [of a] by simp

lemma sint_nonneg_unat:
  assumes "0 \<le> sint (a :: 64 word)"
  shows "unat a < 2 ^ 63"
proof -
  have "int (unat a) < int (2 ^ 63)" using sint_nonneg_uint [OF assms] sint_lt [of a] by simp
  then show ?thesis by (simp only: of_nat_less_iff)
qed

section \<open>Lists\<close>

lemma takeWhile_take_le: "length (takeWhile P (take n xs)) \<le> n"
  by (metis le_trans length_take length_takeWhile_le min.cobounded2)

lemma length_takeWhile_drop_step:
  "p < length m \<Longrightarrow> P (m ! p) \<Longrightarrow> 0 < n \<Longrightarrow>
     length (takeWhile P (take n (drop p m))) =
     Suc (length (takeWhile P (take (n - 1) (drop (Suc p) m))))"
  by (cases n) (auto simp: Cons_nth_drop_Suc [symmetric])

lemma length_takeWhile_drop_stop:
  "p < length m \<Longrightarrow> \<not> P (m ! p) \<Longrightarrow> takeWhile P (take n (drop p m)) = []"
  by (cases n) (auto simp: Cons_nth_drop_Suc [symmetric])

text \<open>File types in a mode.\<close>

definition S_IFMT :: u16 where "S_IFMT = 0xF000"
definition S_IFLNK :: u16 where "S_IFLNK = 0xA000"
definition S_IFREG :: u16 where "S_IFREG = 0x8000"
definition S_IFDIR :: u16 where "S_IFDIR = 0x4000"

text \<open>The size of a path buffer.\<close>

definition PATH_MAX :: nat where "PATH_MAX = 1024"

end
