(* ===== verification/Bit_Search.thy ===== *)
theory Bit_Search
  imports Legacy_Prelude
begin

text \<open>
  Model of \<open>src/strings.c\<close>: the find-first-set and find-last-set family.  Each loop is
  the C loop over a machine word; it is partial (it would not return on a zero word),
  and the callers' test for zero is what makes it return.  The loops are the same for
  every integer width, so they are stated once for a word of any length; \<open>long\<close> and
  \<open>long long\<close> are 64 bits in the data model used here (LP64) and \<open>int\<close> is 32.
\<close>

partial_function (option) ffs_loop :: "'a::len word \<Rightarrow> nat \<Rightarrow> nat option" where
  "ffs_loop w b = (if w AND 1 \<noteq> 0 then Some b else ffs_loop (drop_bit 1 w) (b + 1))"

partial_function (option) fls_loop :: "'a::len word \<Rightarrow> nat \<Rightarrow> nat option" where
  "fls_loop w b = (if w = 1 then Some b else fls_loop (drop_bit 1 w) (b + 1))"

definition ffs_word :: "'a::len word \<Rightarrow> nat option" where
  "ffs_word w = (if w \<noteq> 0 then ffs_loop w 1 else Some 0)"

definition fls_word :: "'a::len word \<Rightarrow> nat option" where
  "fls_word w = (if w \<noteq> 0 then fls_loop w 1 else Some 0)"

definition ffsl :: "64 word \<Rightarrow> nat option" where
  "ffsl w = (if w \<noteq> 0 then ffs_loop w 1 else Some 0)"

definition ffsll :: "64 word \<Rightarrow> nat option" where
  "ffsll w = (if w \<noteq> 0 then ffs_loop w 1 else Some 0)"

definition fls :: "32 word \<Rightarrow> nat option" where
  "fls w = (if w \<noteq> 0 then fls_loop w 1 else Some 0)"

definition flsl :: "64 word \<Rightarrow> nat option" where
  "flsl w = (if w \<noteq> 0 then fls_loop w 1 else Some 0)"

definition flsll :: "64 word \<Rightarrow> nat option" where
  "flsll w = (if w \<noteq> 0 then fls_loop w 1 else Some 0)"

lemma and_one_nonzero_iff: "(w AND 1 \<noteq> 0) = bit (w :: 'a::len word) 0"
  by (simp add: bit_0 and_one_eq mod_2_eq_odd)

lemma bit_drop_bit_one: "bit (drop_bit 1 (w :: 'a::len word)) j = bit w (Suc j)"
  by (simp add: bit_drop_bit_eq)

lemma ffs_loop_eq:
  "bit w k \<Longrightarrow> (\<And>j. j < k \<Longrightarrow> \<not> bit w j) \<Longrightarrow> ffs_loop w b = Some (b + k)"
proof (induction k arbitrary: w b)
  case 0
  then show ?case by (simp add: ffs_loop.simps [of w b] and_one_nonzero_iff del: One_nat_def)
next
  case (Suc k)
  have low: "\<not> bit w 0" using Suc.prems(2) by blast
  have "ffs_loop (drop_bit 1 w) (b + 1) = Some (b + 1 + k)"
    by (rule Suc.IH) (use Suc.prems in \<open>simp_all add: bit_drop_bit_one del: One_nat_def\<close>)
  then show ?case
    by (subst ffs_loop.simps) (simp add: low and_one_nonzero_iff del: One_nat_def)
qed

lemma fls_loop_eq:
  "bit w k \<Longrightarrow> (\<And>j. k < j \<Longrightarrow> \<not> bit w j) \<Longrightarrow> fls_loop w b = Some (b + k)"
proof (induction k arbitrary: w b)
  case 0
  have "w = 1"
    by (rule bit_word_eqI) (use 0 in \<open>auto simp: bit_1_iff intro: gr0I\<close>)
  then show ?case by (simp add: fls_loop.simps [of 1 b])
next
  case (Suc k)
  have not1: "w \<noteq> 1" using Suc.prems(1) by (auto simp: bit_1_iff)
  have "fls_loop (drop_bit 1 w) (b + 1) = Some (b + 1 + k)"
    by (rule Suc.IH) (use Suc.prems in \<open>simp_all add: bit_drop_bit_one del: One_nat_def\<close>)
  then show ?case by (subst fls_loop.simps) (simp add: not1)
qed

lemma lowest_bit:
  assumes "(w :: 'a::len word) \<noteq> 0"
  obtains k where "k < LENGTH('a)" "bit w k" "\<And>j. j < k \<Longrightarrow> \<not> bit w j"
proof -
  have ex: "\<exists>n. bit w n" using assms by (metis bit_word_eqI bit_0_eq bot_apply bot_bool_def)
  define k where "k = (LEAST n. bit w n)"
  have b: "bit w k" unfolding k_def using ex by (rule LeastI_ex)
  have l: "\<not> bit w j" if "j < k" for j using that unfolding k_def by (rule not_less_Least)
  from b have "k < LENGTH('a)" by (rule bit_imp_le_length)
  with b l show thesis using that by blast
qed

lemma highest_bit:
  assumes "(w :: 'a::len word) \<noteq> 0"
  obtains k where "k < LENGTH('a)" "bit w k" "\<And>j. k < j \<Longrightarrow> \<not> bit w j"
proof -
  have ex: "\<exists>n. bit w n" using assms by (metis bit_word_eqI bit_0_eq bot_apply bot_bool_def)
  have bd: "\<forall>n. bit w n \<longrightarrow> n \<le> LENGTH('a)" using bit_imp_le_length by (metis less_imp_le)
  define k where "k = (GREATEST n. bit w n)"
  have b: "bit w k" unfolding k_def using ex bd by (metis GreatestI_nat)
  have l: "\<not> bit w j" if "k < j" for j
    using that bd unfolding k_def by (metis Greatest_le_nat leD)
  from b have "k < LENGTH('a)" by (rule bit_imp_le_length)
  with b l show thesis using that by blast
qed

text \<open>What the family promises: the one-based position of the lowest or highest set bit.\<close>

definition first_set :: "'a::len word \<Rightarrow> nat \<Rightarrow> bool" where
  "first_set w n \<longleftrightarrow> 
     (if w = 0 then n = 0
      else 0 < n \<and> n \<le> LENGTH('a) \<and> bit w (n - 1) \<and> (\<forall>j < n - 1. \<not> bit w j))"

definition last_set :: "'a::len word \<Rightarrow> nat \<Rightarrow> bool" where
  "last_set w n \<longleftrightarrow> 
     (if w = 0 then n = 0
      else 0 < n \<and> n \<le> LENGTH('a) \<and> bit w (n - 1) \<and> (\<forall>j > n - 1. \<not> bit w j))"

lemma first_set_unique: "first_set w n \<Longrightarrow> first_set w k \<Longrightarrow> n = k"
  unfolding first_set_def
  by (cases "n - 1" "k - 1" rule: linorder_cases) (auto split: if_splits)

lemma last_set_unique: "last_set w n \<Longrightarrow> last_set w k \<Longrightarrow> n = k"
  unfolding last_set_def
  by (cases "n - 1" "k - 1" rule: linorder_cases) (auto split: if_splits)

lemma ffs_word_first_set: "\<exists>n. ffs_word w = Some n \<and> first_set w n"
proof (cases "w = 0")
  case False
  then obtain k where k: "k < LENGTH('a)" "bit w k" "\<And>j. j < k \<Longrightarrow> \<not> bit w j"
    by (rule lowest_bit) blast
  then have "ffs_loop w 1 = Some (1 + k)" by (intro ffs_loop_eq)
  with k False show ?thesis by (auto simp: ffs_word_def first_set_def)
qed (simp add: ffs_word_def first_set_def)

lemma fls_word_last_set: "\<exists>n. fls_word w = Some n \<and> last_set w n"
proof (cases "w = 0")
  case False
  then obtain k where k: "k < LENGTH('a)" "bit w k" "\<And>j. k < j \<Longrightarrow> \<not> bit w j"
    by (rule highest_bit) blast
  then have "fls_loop w 1 = Some (1 + k)" by (intro fls_loop_eq)
  with k False show ?thesis by (auto simp: fls_word_def last_set_def)
qed (simp add: fls_word_def last_set_def)

lemmas bit_search_words =
  ffsl_def [folded ffs_word_def] ffsll_def [folded ffs_word_def]
  fls_def [folded fls_word_def] flsl_def [folded fls_word_def] flsll_def [folded fls_word_def]

text \<open>C36: on every argument all five searches return, \<open>ffsl\<close> and \<open>ffsll\<close> with the
  one-based position of the lowest set bit and \<open>fls\<close>, \<open>flsl\<close> and \<open>flsll\<close> with that of
  the highest, zero on zero.\<close>

theorem bit_search_correct:
  "(\<exists>n. ffsl x = Some n \<and> first_set x n) \<and> (\<exists>n. ffsll x = Some n \<and> first_set x n)
   \<and> (\<exists>n. fls y = Some n \<and> last_set y n) \<and> (\<exists>n. flsl x = Some n \<and> last_set x n)
   \<and> (\<exists>n. flsll x = Some n \<and> last_set x n)"
  unfolding bit_search_words by (simp only: ffs_word_first_set fls_word_last_set simp_thms)

end
