(* ===== verification/C_Strings.thy ===== *)
theory C_Strings
  imports Legacy_Prelude
begin

text \<open>
  Model of the string routines: \<open>src/strnlen.c\<close>, \<open>src/strndup.c\<close>, \<open>src/stpncpy.c\<close>,
  \<open>src/stpncpy_chk.c\<close>, \<open>src/memmem.c\<close> and the wide-character files \<open>src/wcsnlen.c\<close>,
  \<open>src/wcsdup.c\<close>, \<open>src/wcpcpy_family.c\<close>, \<open>src/wcscasecmp_family.c\<close>.

  A string argument is an object and an offset into it.  A \<open>char\<close> is a byte and a
  \<open>wchar_t\<close> a 32-bit word.  A result is \<open>None\<close> where the C code would access memory
  outside an object.  The scanning loops are stated for any element type with a zero,
  since the byte and the wide versions are the same loop.
\<close>

section \<open>Bounded length\<close>

function strnlen_loop :: "'a::zero list \<Rightarrow> nat \<Rightarrow> nat \<Rightarrow> nat \<Rightarrow> nat option" where
  "strnlen_loop m s len i =
     (if i < len
      then do { c \<leftarrow> mread m (s + i);
                if c \<noteq> 0 then strnlen_loop m s len (i + 1) else Some i }
      else Some i)"
  by pat_completeness auto
termination by (relation "measure (\<lambda>(m, s, len, i). len - i)") auto

declare strnlen_loop.simps [simp del]

definition strnlen :: "byte list \<Rightarrow> nat \<Rightarrow> nat \<Rightarrow> nat option" where
  "strnlen m s len = strnlen_loop m s len 0"

text \<open>The library's \<open>wmemchr\<close>: the index of the first element equal to \<open>c\<close>, if any of
  the first \<open>n\<close> is; elements after it are not read.\<close>

function wmemchr_loop :: "'a list \<Rightarrow> nat \<Rightarrow> 'a \<Rightarrow> nat \<Rightarrow> nat \<Rightarrow> nat option option" where
  "wmemchr_loop m s c n i =
     (if i < n
      then do { x \<leftarrow> mread m (s + i);
                if x = c then Some (Some (s + i)) else wmemchr_loop m s c n (i + 1) }
      else Some None)"
  by pat_completeness auto
termination by (relation "measure (\<lambda>(m, s, c, n, i). n - i)") auto

declare wmemchr_loop.simps [simp del]

definition wcsnlen :: "u32 list \<Rightarrow> nat \<Rightarrow> nat \<Rightarrow> nat option" where
  "wcsnlen m s n =
     do { z \<leftarrow> wmemchr_loop m s 0 n 0;
          Some (case z of Some z \<Rightarrow> z - s | None \<Rightarrow> n) }"

text \<open>A bounded scan from \<open>s\<close> is safe when it meets a terminator or its bound first.\<close>

definition scannable :: "'a::zero list \<Rightarrow> nat \<Rightarrow> nat \<Rightarrow> bool" where
  "scannable m s n \<longleftrightarrow> s + n \<le> length m \<or> (\<exists>k. s \<le> k \<and> k < length m \<and> m ! k = 0)"

definition scan_length :: "'a::zero list \<Rightarrow> nat \<Rightarrow> nat \<Rightarrow> nat" where
  "scan_length m s n = length (takeWhile (\<lambda>c. c \<noteq> 0) (take n (drop s m)))"

lemma scan_length_le: "scan_length m s n \<le> n"
  by (simp add: scan_length_def takeWhile_take_le)

lemma scan_length_zero [simp]: "scan_length m s 0 = 0"
  by (simp add: scan_length_def)

lemma scan_length_step:
  "s < length m \<Longrightarrow> m ! s \<noteq> 0 \<Longrightarrow> 0 < n \<Longrightarrow>
     scan_length m s n = Suc (scan_length m (Suc s) (n - 1))"
  by (simp add: scan_length_def length_takeWhile_drop_step)

lemma scan_length_stop: "s < length m \<Longrightarrow> m ! s = 0 \<Longrightarrow> scan_length m s n = 0"
  by (simp add: scan_length_def length_takeWhile_drop_stop)

lemma scannable_in: "scannable m s n \<Longrightarrow> 0 < n \<Longrightarrow> s < length m"
  by (auto simp: scannable_def)

lemma scannable_next:
  "scannable m s n \<Longrightarrow> 0 < n \<Longrightarrow> m ! s \<noteq> 0 \<Longrightarrow> scannable m (Suc s) (n - 1)"
  by (auto simp: scannable_def le_Suc_eq Suc_le_eq intro: le_neq_implies_less)

lemma scan_length_fits: "scannable m s n \<Longrightarrow> n = 0 \<longrightarrow> s \<le> length m \<Longrightarrow> s + scan_length m s n \<le> length m"
proof (induction n arbitrary: s)
  case 0
  then show ?case by simp
next
  case (Suc n)
  have s: "s < length m" using scannable_in [OF Suc.prems(1)] by simp
  show ?case
  proof (cases "m ! s = 0")
    case True
    with s show ?thesis by (simp add: scan_length_stop)
  next
    case False
    have "Suc s + scan_length m (Suc s) n \<le> length m"
      using Suc.IH [of "Suc s"] scannable_next [OF Suc.prems(1) _ False] s by simp
    with s False show ?thesis by (simp add: scan_length_step)
  qed
qed

lemma scan_length_elements:
  "k < scan_length m s n \<Longrightarrow> s + k < length m \<and> m ! (s + k) \<noteq> 0"
proof (induction n arbitrary: s k)
  case 0
  then show ?case by simp
next
  case (Suc n)
  have s: "s < length m"
    using Suc.prems by (cases "s < length m") (simp_all add: scan_length_def)
  have nz: "m ! s \<noteq> 0" using Suc.prems s by (auto simp: scan_length_stop)
  show ?case
  proof (cases k)
    case 0
    with s nz show ?thesis by simp
  next
    case (Suc k')
    with Suc.prems s nz have "k' < scan_length m (Suc s) n" by (simp add: scan_length_step)
    from Suc.IH [OF this] Suc show ?thesis by simp
  qed
qed

lemma scan_length_terminator:
  "scannable m s n \<Longrightarrow> scan_length m s n < n \<Longrightarrow>
     s + scan_length m s n < length m \<and> m ! (s + scan_length m s n) = 0"
proof (induction n arbitrary: s)
  case 0
  then show ?case by simp
next
  case (Suc n)
  have s: "s < length m" using scannable_in [OF Suc.prems(1)] by simp
  show ?case
  proof (cases "m ! s = 0")
    case True
    with s show ?thesis by (simp add: scan_length_stop)
  next
    case False
    with Suc.prems(2) s have "scan_length m (Suc s) n < n" by (simp add: scan_length_step)
    from Suc.IH [OF _ this] scannable_next [OF Suc.prems(1) _ False] s False
    show ?thesis by (simp add: scan_length_step)
  qed
qed

text \<open>The string at \<open>s\<close>, read up to a bound, without its terminator.\<close>

definition str_upto :: "'a::zero list \<Rightarrow> nat \<Rightarrow> nat \<Rightarrow> 'a list" where
  "str_upto m s n = takeWhile (\<lambda>c. c \<noteq> 0) (take n (drop s m))"

lemma length_str_upto: "length (str_upto m s n) = scan_length m s n"
  by (simp add: str_upto_def scan_length_def)

lemma str_upto_slice:
  assumes "scannable m s n" and "s \<le> length m"
  shows "mslice m s (scan_length m s n) = Some (str_upto m s n)"
proof -
  have fits: "s + scan_length m s n \<le> length m" by (rule scan_length_fits) (use assms in auto)
  have "str_upto m s n = take (length (str_upto m s n)) (take n (drop s m))"
    unfolding str_upto_def by (rule takeWhile_eq_take)
  also have "\<dots> = take (scan_length m s n) (drop s m)"
    using scan_length_le [of m s n] by (simp add: length_str_upto min_absorb1)
  finally show ?thesis using fits by (simp add: mem_simps)
qed

lemma str_upto_step:
  "s < length m \<Longrightarrow> m ! s \<noteq> 0 \<Longrightarrow> 0 < n \<Longrightarrow> str_upto m s n = m ! s # str_upto m (Suc s) (n - 1)"
  by (cases n) (simp_all add: str_upto_def Cons_nth_drop_Suc [symmetric])

lemma str_upto_stop: "s < length m \<Longrightarrow> m ! s = 0 \<Longrightarrow> str_upto m s n = []"
  by (cases n) (simp_all add: str_upto_def Cons_nth_drop_Suc [symmetric])

lemma str_upto_zero [simp]: "str_upto m s 0 = []"
  by (simp add: str_upto_def)

lemma str_upto_nonzero: "0 \<notin> set (str_upto m s n)"
  by (auto simp: str_upto_def dest: set_takeWhileD)

lemma strnlen_loop_eq:
  "scannable m (s + i) (len - i) \<Longrightarrow> i \<le> len \<Longrightarrow>
     strnlen_loop m s len i = Some (i + scan_length m (s + i) (len - i))"
proof (induction m s len i rule: strnlen_loop.induct)
  case (1 m s len i)
  show ?case
  proof (cases "i < len")
    case True
    with "1.prems" have s: "s + i < length m" by (intro scannable_in) auto
    show ?thesis
    proof (cases "m ! (s + i) = 0")
      case True
      with s \<open>i < len\<close> show ?thesis
        by (simp add: strnlen_loop.simps [of m s len i] mem_simps scan_length_stop)
    next
      case nz: False
      have "scannable m (Suc (s + i)) (len - i - 1)"
        using "1.prems" True nz by (intro scannable_next) auto
      with "1.IH" [OF True mread_ok [OF s] nz] True s nz show ?thesis
        by (simp add: strnlen_loop.simps [of m s len i] mem_simps scan_length_step)
    qed
  next
    case False
    with "1.prems" show ?thesis by (simp add: strnlen_loop.simps [of m s len len])
  qed
qed

lemma strnlen_spec: "scannable m s n \<Longrightarrow> strnlen m s n = Some (scan_length m s n)"
  using strnlen_loop_eq [of m s 0 n] by (simp add: strnlen_def)

lemma wmemchr_loop_eq:
  fixes m :: "'a::zero list"
  shows "scannable m (s + i) (n - i) \<Longrightarrow> i \<le> n \<Longrightarrow>
     wmemchr_loop m s 0 n i =
       Some (let k = i + scan_length m (s + i) (n - i) in if k < n then Some (s + k) else None)"
proof (induction m s "0::'a" n i rule: wmemchr_loop.induct)
  case (1 m s n i)
  show ?case
  proof (cases "i < n")
    case True
    with "1.prems" have s: "s + i < length m" by (intro scannable_in) auto
    show ?thesis
    proof (cases "m ! (s + i) = 0")
      case True
      with s \<open>i < n\<close> show ?thesis
        by (simp add: wmemchr_loop.simps [of m s 0 n i] mem_simps scan_length_stop)
    next
      case nz: False
      have "scannable m (Suc (s + i)) (n - i - 1)"
        using "1.prems" True nz by (intro scannable_next) auto
      with "1.hyps" [OF True mread_ok [OF s] nz] True s nz show ?thesis
        by (simp add: wmemchr_loop.simps [of m s 0 n i] mem_simps scan_length_step Let_def)
    qed
  next
    case False
    with "1.prems" show ?thesis by (simp add: wmemchr_loop.simps [of m s 0 n n])
  qed
qed

lemma wcsnlen_spec: "scannable m s n \<Longrightarrow> wcsnlen m s n = Some (scan_length m s n)"
  using wmemchr_loop_eq [of m s 0 n] scan_length_le [of m s n]
  by (auto simp: wcsnlen_def Let_def)

text \<open>
  The interface the clients of a bounded length rely on: \<open>strndup\<close>, \<open>stpncpy\<close> and
  (in the memory-stream theory) \<open>fmemopen\<close>.
\<close>

locale bounded_length =
  fixes nlen :: "'a::zero list \<Rightarrow> nat \<Rightarrow> nat \<Rightarrow> nat option"
  assumes nlen_spec: "scannable m s n \<Longrightarrow> nlen m s n = Some (scan_length m s n)"
begin

lemma nlen_total: "scannable m s n \<Longrightarrow> \<exists>k \<le> n. nlen m s n = Some k"
  by (simp add: nlen_spec scan_length_le)

lemma nlen_slice:
  "scannable m s n \<Longrightarrow> s \<le> length m \<Longrightarrow>
     do { k \<leftarrow> nlen m s n; mslice m s k } = Some (str_upto m s n)"
  by (simp add: nlen_spec str_upto_slice)

lemma nlen_terminated:
  "scannable m s n \<Longrightarrow> nlen m s n = Some k \<Longrightarrow> k < n \<Longrightarrow> s + k < length m \<and> m ! (s + k) = 0"
  by (auto simp: nlen_spec dest: scan_length_terminator)

end

interpretation str: bounded_length strnlen
  by unfold_locales (rule strnlen_spec)

interpretation wcs: bounded_length wcsnlen
  by unfold_locales (rule wcsnlen_spec)

section \<open>Duplication and padded copy\<close>

definition strndup :: "(nat \<Rightarrow> byte list option) \<Rightarrow> byte list \<Rightarrow> nat \<Rightarrow> nat \<Rightarrow> byte list option option" where
  "strndup malloc m old sz =
     do { len \<leftarrow> strnlen m old sz;
          case malloc (len + 1) of
            None \<Rightarrow> Some None
          | Some t \<Rightarrow>
              do { src \<leftarrow> mslice m old len;
                   t \<leftarrow> mblit t 0 src;
                   t \<leftarrow> mwrite t len 0;
                   Some (Some t) } }"

definition stpncpy :: "byte list \<Rightarrow> nat \<Rightarrow> byte list \<Rightarrow> nat \<Rightarrow> nat \<Rightarrow> (byte list \<times> nat) option" where
  "stpncpy dstm dst m src maxlen =
     do { srclen \<leftarrow> strnlen m src maxlen;
          if srclen < maxlen
          then do { xs \<leftarrow> mslice m src srclen;
                    d \<leftarrow> mblit dstm dst xs;
                    d \<leftarrow> mfill d (dst + srclen) (maxlen - srclen) 0;
                    Some (d, dst + srclen) }
          else do { xs \<leftarrow> mslice m src maxlen;
                    d \<leftarrow> mblit dstm dst xs;
                    Some (d, dst + maxlen) } }"

text \<open>The checked entry point does not return when the object is known to be too small:
  it calls the system's failure routine if there is one, and otherwise aborts.\<close>

datatype no_return = Chk_fail | Abort

definition stpncpy_chk ::
  "bool \<Rightarrow> byte list \<Rightarrow> nat \<Rightarrow> byte list \<Rightarrow> nat \<Rightarrow> nat \<Rightarrow> nat \<Rightarrow> no_return + (byte list \<times> nat) option" where
  "stpncpy_chk has_chk_fail dstm dest m src len dstlen =
     (if dstlen < len then Inl (if has_chk_fail then Chk_fail else Abort)
      else Inr (stpncpy dstm dest m src len))"

text \<open>The wide counterparts copy element by element.\<close>

fun wcpncpy :: "u32 list \<Rightarrow> nat \<Rightarrow> u32 list \<Rightarrow> nat \<Rightarrow> nat \<Rightarrow> (u32 list \<times> nat) option" where
  "wcpncpy dm d m s n =
     (if n \<noteq> 0
      then do { c \<leftarrow> mread m s;
                if c \<noteq> 0
                then do { dm \<leftarrow> mwrite dm d c; wcpncpy dm (d + 1) m (s + 1) (n - 1) }
                else do { dm \<leftarrow> mfill dm d n 0; Some (dm, d) } }
      else do { dm \<leftarrow> mfill dm d n 0; Some (dm, d) })"

declare wcpncpy.simps [simp del]

function wcpcpy :: "u32 list \<Rightarrow> nat \<Rightarrow> u32 list \<Rightarrow> nat \<Rightarrow> (u32 list \<times> nat) option" where
  "wcpcpy dm d m s =
     do { c \<leftarrow> mread m s;
          dm \<leftarrow> mwrite dm d c;
          if c \<noteq> 0 then wcpcpy dm (d + 1) m (s + 1) else Some (dm, d) }"
  by pat_completeness auto
termination
  by (relation "measure (\<lambda>(dm, d, m, s). length m - s)") (auto dest!: mread_SomeD)

declare wcpcpy.simps [simp del]

function wcslen_loop :: "u32 list \<Rightarrow> nat \<Rightarrow> nat \<Rightarrow> nat option" where
  "wcslen_loop m s i =
     do { c \<leftarrow> mread m (s + i); if c = 0 then Some i else wcslen_loop m s (i + 1) }"
  by pat_completeness auto
termination
  by (relation "measure (\<lambda>(m, s, i). length m - (s + i))") (auto dest!: mread_SomeD)

declare wcslen_loop.simps [simp del]

definition wcsdup :: "(nat \<Rightarrow> u32 list option) \<Rightarrow> u32 list \<Rightarrow> nat \<Rightarrow> u32 list option option" where
  "wcsdup malloc m s =
     do { n \<leftarrow> wcslen_loop m s 0;
          case malloc (n + 1) of
            None \<Rightarrow> Some None
          | Some copy \<Rightarrow>
              do { src \<leftarrow> mslice m s (n + 1); copy \<leftarrow> mblit copy 0 src; Some (Some copy) } }"

text \<open>The object a padded copy of \<open>xs\<close> into \<open>n\<close> elements at \<open>d\<close> leaves.\<close>

definition padded :: "'a::zero list \<Rightarrow> nat \<Rightarrow> 'a list \<Rightarrow> nat \<Rightarrow> 'a list" where
  "padded dm d xs n = take d dm @ xs @ replicate (n - length xs) 0 @ drop (d + n) dm"

lemma mblit_mfill_padded:
  assumes "d + n \<le> length dm" and "length xs \<le> n"
  shows "do { dm \<leftarrow> mblit dm d xs; mfill dm (d + length xs) (n - length xs) 0 } = Some (padded dm d xs n)"
proof -
  have b: "mblit dm d xs = Some (take d dm @ xs @ drop (d + length xs) dm)"
    using assms by (intro mblit_ok) simp
  have "mblit dm d (xs @ replicate (n - length xs) 0) = Some (padded dm d xs n)"
    using assms by (simp add: mblit_def padded_def)
  moreover obtain m2 where m2: "mfill (take d dm @ xs @ drop (d + length xs) dm) (d + length xs) (n - length xs) 0 = Some m2"
    using assms by (simp add: mfill_def mblit_def)
  moreover have "mblit dm d (xs @ replicate (n - length xs) 0) = Some m2"
    by (rule mblit_mblit_adjacent [OF b]) (use m2 in \<open>simp add: mfill_def\<close>)
  ultimately show ?thesis using b by simp
qed

lemma stpncpy_padded:
  assumes "scannable m src n" and "src \<le> length m" and "dst + n \<le> length dm"
  shows "stpncpy dm dst m src n =
           Some (padded dm dst (str_upto m src n) n, dst + scan_length m src n)"
proof (cases "scan_length m src n < n")
  case True
  let ?xs = "str_upto m src n"
  obtain d1 where d1: "mblit dm dst ?xs = Some d1"
    using assms True by (simp add: mblit_def length_str_upto)
  have "mfill d1 (dst + scan_length m src n) (n - scan_length m src n) 0 = Some (padded dm dst ?xs n)"
    using mblit_mfill_padded [of dst n dm ?xs] assms d1 True by (simp add: length_str_upto)
  with d1 True assms show ?thesis
    by (simp add: stpncpy_def str.nlen_spec str_upto_slice)
next
  case False
  then have n: "scan_length m src n = n" using scan_length_le [of m src n] by simp
  with assms show ?thesis
    using str_upto_slice [of m src n] length_str_upto [of m src n]
    by (simp add: stpncpy_def str.nlen_spec padded_def mem_simps)
qed

lemma wcpncpy_padded:
  "scannable m s n \<Longrightarrow> d + n \<le> length dm \<Longrightarrow>
     wcpncpy dm d m s n = Some (padded dm d (str_upto m s n) n, d + scan_length m s n)"
proof (induction n arbitrary: dm d s)
  case 0
  then show ?case by (simp add: wcpncpy.simps [of dm d m s 0] mfill_def mem_simps padded_def)
next
  case (Suc n)
  have s: "s < length m" using scannable_in [OF Suc.prems(1)] by simp
  show ?case
  proof (cases "m ! s = 0")
    case True
    with s Suc.prems show ?thesis
      by (simp add: wcpncpy.simps [of dm d m s "Suc n"] mem_simps mfill_def str_upto_stop
          scan_length_stop padded_def)
  next
    case False
    have "wcpncpy (dm[d := m ! s]) (d + 1) m (s + 1) n =
            Some (padded (dm[d := m ! s]) (d + 1) (str_upto m (Suc s) n) n, Suc d + scan_length m (Suc s) n)"
      using Suc.IH [of "Suc s" "Suc d" "dm[d := m ! s]"] scannable_next [OF Suc.prems(1) _ False] Suc.prems(2)
      by simp
    moreover have "padded (dm[d := m ! s]) (d + 1) (str_upto m (Suc s) n) n =
        padded dm d (str_upto m s (Suc n)) (Suc n)"
      using s False Suc.prems(2) by (simp add: padded_def str_upto_step take_Suc_conv_app_nth)
    ultimately show ?thesis
      using s False Suc.prems(2)
      by (simp add: wcpncpy.simps [of dm d m s "Suc n"] mem_simps scan_length_step)
  qed
qed

lemma padded_inside: "d + n \<le> length dm \<Longrightarrow> length xs \<le> n \<Longrightarrow> length (padded dm d xs n) = length dm"
  by (simp add: padded_def)

text \<open>\<open>stpncpy\<close> writes exactly \<open>maxlen\<close> bytes of the destination: the source string up to
  its terminator or \<open>maxlen\<close>, then zeros; it touches nothing else, stays inside both objects,
  and returns the position of the first padding byte (or the end).\<close>

theorem stpncpy_correct:
  assumes "scannable m src n" and "src \<le> length m" and "dst + n \<le> length dm"
  shows "\<exists>dm'. stpncpy dm dst m src n = Some (dm', dst + length (str_upto m src n))
     \<and> length dm' = length dm
     \<and> take n (drop dst dm') = str_upto m src n @ replicate (n - length (str_upto m src n)) 0
     \<and> take dst dm' = take dst dm \<and> drop (dst + n) dm' = drop (dst + n) dm"
proof -
  have l: "length (str_upto m src n) \<le> n" by (simp add: length_str_upto scan_length_le)
  with assms(3) show ?thesis
    unfolding stpncpy_padded [OF assms] by (simp add: padded_def length_str_upto [symmetric])
qed

theorem stpncpy_correct_witness:
  "\<exists>dm'. stpncpy [9, 9, 9, 9, 9] 1 [65, 66, 0] 0 3 = Some (dm', 1 + length (str_upto [65, 66, 0::byte] 0 3))
     \<and> length dm' = length [9, 9, 9, 9, 9::byte]
     \<and> take 3 (drop 1 dm') = str_upto [65, 66, 0] 0 3 @ replicate (3 - length (str_upto [65, 66, 0::byte] 0 3)) 0
     \<and> take 1 dm' = take 1 [9, 9, 9, 9, 9] \<and> drop (1 + 3) dm' = drop (1 + 3) [9, 9, 9, 9, 9]"
  by (rule stpncpy_correct) (simp_all add: scannable_def)

text \<open>the checked entry point never lets a copy past the object size it was given: it returns
  only when the whole destination range lies within \<open>dstlen\<close>, and then does what \<open>stpncpy\<close> does.\<close>

theorem stpncpy_chk_guards:
  "stpncpy_chk hc dm d m s len dstlen = Inr r \<longleftrightarrow> len \<le> dstlen \<and> r = stpncpy dm d m s len"
  by (auto simp: stpncpy_chk_def not_less)

text \<open>\<open>strndup\<close> returns null exactly when the allocation fails, and otherwise a fresh object
  holding the string up to its bound and its terminator, of exactly that size.\<close>

theorem strndup_correct:
  assumes "allocator malloc" and "scannable m old sz" and "old \<le> length m"
  shows "strndup malloc m old sz =
     Some (if malloc (length (str_upto m old sz) + 1) = None then None
           else Some (str_upto m old sz @ [0]))"
proof (cases "malloc (scan_length m old sz + 1)")
  case None
  with assms(2) show ?thesis by (simp add: strndup_def str.nlen_spec length_str_upto)
next
  case (Some t)
  have lt: "length t = length (str_upto m old sz) + 1"
    using allocatorD [OF assms(1) Some] by (simp add: length_str_upto)
  then obtain z where "drop (length (str_upto m old sz)) t = [z]"
    by (metis (no_types, lifting) add_diff_cancel_left' length_0_conv length_Suc_conv length_drop One_nat_def)
  moreover have "mslice m old (length (str_upto m old sz)) = Some (str_upto m old sz)"
    using assms(2,3) by (simp add: str_upto_slice length_str_upto)
  ultimately show ?thesis using Some lt assms(2,3)
    by (simp add: strndup_def str.nlen_spec mem_simps length_str_upto [symmetric])
qed

theorem strndup_correct_witness:
  "strndup calloc_list [65, 66, 67, 0] 1 2 =
     Some (if calloc_list (length (str_upto [65, 66, 67, 0::byte] 1 2) + 1) = (None :: byte list option) then None
           else Some (str_upto [65, 66, 67, 0] 1 2 @ [0]))"
  by (rule strndup_correct) (simp_all add: scannable_def allocator_calloc_list)

text \<open>The byte and the wide padded copy are the same function of their arguments.\<close>

text \<open>\<open>wcpncpy\<close>, written as an element loop, leaves the same object and pointer as the
  block copy and fill of \<open>stpncpy\<close>: both are the padded copy.\<close>

theorem wcpncpy_correct:
  assumes "scannable m s n" and "d + n \<le> length dm"
  shows "wcpncpy dm d m s n =
    Some (take d dm @ str_upto m s n @ replicate (n - length (str_upto m s n)) 0 @ drop (d + n) dm,
          d + length (str_upto m s n))"
  using wcpncpy_padded [OF assms] by (simp add: padded_def length_str_upto)

theorem wcpncpy_correct_witness:
  "wcpncpy [7, 7, 7] 0 [65, 0] 0 2 =
    Some (take 0 [7, 7, 7] @ str_upto [65, 0] 0 2 @ replicate (2 - length (str_upto [65, 0::u32] 0 2)) 0
            @ drop (0 + 2) [7, 7, 7],
          0 + length (str_upto [65, 0::u32] 0 2))"
  by (rule wcpncpy_correct) (simp_all add: scannable_def)

section \<open>Substring search\<close>

text \<open>\<open>memchr\<close> is the scan of the library; \<open>memcmp\<close> compares two slices.\<close>

function memmem_loop :: "byte list \<Rightarrow> byte list \<Rightarrow> nat \<Rightarrow> nat \<Rightarrow> nat \<Rightarrow> nat \<Rightarrow> nat option option" where
  "memmem_loop lm sm cs s_len cur lastp =
     (if cur \<le> lastp
      then do { a \<leftarrow> mread lm cur;
                b \<leftarrow> mread sm cs;
                eq \<leftarrow> (if a = b then do { x \<leftarrow> mslice lm cur s_len; y \<leftarrow> mslice sm cs s_len; Some (x = y) }
                      else Some False);
                if eq then Some (Some cur) else memmem_loop lm sm cs s_len (cur + 1) lastp }
      else Some None)"
  by pat_completeness auto
termination by (relation "measure (\<lambda>(lm, sm, cs, s_len, cur, lastp). Suc lastp - cur)") auto

declare memmem_loop.simps [simp del]

definition memmem ::
  "byte list \<Rightarrow> nat \<Rightarrow> nat \<Rightarrow> byte list \<Rightarrow> nat \<Rightarrow> nat \<Rightarrow> nat option option" where
  "memmem lm l l_len sm s s_len =
     (if l_len = 0 \<or> s_len = 0 then Some None
      else if l_len < s_len then Some None
      else if s_len = 1 then do { c \<leftarrow> mread sm s; wmemchr_loop lm l c l_len 0 }
      else memmem_loop lm sm s s_len l (l + l_len - s_len))"

definition occurs_at :: "byte list \<Rightarrow> nat \<Rightarrow> byte list \<Rightarrow> nat \<Rightarrow> nat \<Rightarrow> bool" where
  "occurs_at lm i sm s n \<longleftrightarrow> take n (drop i lm) = take n (drop s sm)"

lemma occurs_at_hd:
  "occurs_at lm i sm s n \<Longrightarrow> 0 < n \<Longrightarrow> i + n \<le> length lm \<Longrightarrow> s + n \<le> length sm \<Longrightarrow> lm ! i = sm ! s"
  by (cases n) (auto simp: occurs_at_def Cons_nth_drop_Suc [symmetric])

lemma occurs_at_one:
  "i < length lm \<Longrightarrow> s < length sm \<Longrightarrow> occurs_at lm i sm s (Suc 0) \<longleftrightarrow> lm ! i = sm ! s"
  by (simp add: occurs_at_def Cons_nth_drop_Suc [symmetric])

text \<open>The contract of a search for the first position in a range with a property.\<close>

definition first_in :: "(nat \<Rightarrow> bool) \<Rightarrow> nat \<Rightarrow> nat \<Rightarrow> nat option \<Rightarrow> bool" where
  "first_in P lo hi r \<longleftrightarrow>
     (case r of None \<Rightarrow> \<forall>i \<ge> lo. i < hi \<longrightarrow> \<not> P i
      | Some k \<Rightarrow> lo \<le> k \<and> k < hi \<and> P k \<and> (\<forall>i \<ge> lo. i < k \<longrightarrow> \<not> P i))"

lemma first_in_empty: "hi \<le> lo \<Longrightarrow> first_in P lo hi None"
  by (simp add: first_in_def)

lemma first_in_hit: "P lo \<Longrightarrow> lo < hi \<Longrightarrow> first_in P lo hi (Some lo)"
  by (simp add: first_in_def)

lemma first_in_miss: "\<not> P lo \<Longrightarrow> first_in P (Suc lo) hi r \<Longrightarrow> first_in P lo hi r"
  unfolding first_in_def by (auto split: option.splits) (metis Suc_leI le_neq_implies_less)+

lemma first_in_cong: "(\<And>i. lo \<le> i \<Longrightarrow> i < hi \<Longrightarrow> P i = Q i) \<Longrightarrow> first_in P lo hi r = first_in Q lo hi r"
  by (auto simp: first_in_def split: option.splits)

lemma wmemchr_loop_first:
  "s + n \<le> length m \<Longrightarrow> \<exists>r. wmemchr_loop m s c n i = Some r \<and> first_in (\<lambda>k. m ! k = c) (s + i) (s + n) r"
proof (induction m s c n i rule: wmemchr_loop.induct)
  case (1 m s c n i)
  show ?case
  proof (cases "i < n")
    case True
    with "1.prems" have s: "s + i < length m" by simp
    show ?thesis
    proof (cases "m ! (s + i) = c")
      case True
      with s \<open>i < n\<close> show ?thesis
        by (simp add: wmemchr_loop.simps [of m s c n i] mem_simps first_in_hit)
    next
      case ne: False
      with "1.IH" [OF True mread_ok [OF s] ne "1.prems"] True s show ?thesis
        by (auto simp: wmemchr_loop.simps [of m s c n i] mem_simps intro: first_in_miss)
    qed
  next
    case False
    then show ?thesis by (simp add: wmemchr_loop.simps [of m s c n i] first_in_empty)
  qed
qed

lemma memmem_loop_first:
  "lastp + s_len \<le> length lm \<Longrightarrow> s + s_len \<le> length sm \<Longrightarrow> 0 < s_len \<Longrightarrow>
     \<exists>r. memmem_loop lm sm s s_len cur lastp = Some r
        \<and> first_in (\<lambda>k. occurs_at lm k sm s s_len) cur (Suc lastp) r"
proof (induction lm sm s s_len cur lastp rule: memmem_loop.induct)
  case (1 lm sm s s_len cur lastp)
  show ?case
  proof (cases "cur \<le> lastp")
    case False
    then show ?thesis by (simp add: memmem_loop.simps [of lm sm s s_len cur lastp] first_in_empty)
  next
    case True
    with "1.prems" have c: "cur < length lm" and s: "s < length sm" by auto
    have sl: "mslice lm cur s_len = Some (take s_len (drop cur lm))"
        "mslice sm s s_len = Some (take s_len (drop s sm))"
      using True "1.prems" by (simp_all add: mem_simps)
    let ?eq = "lm ! cur = sm ! s \<and> occurs_at lm cur sm s s_len"
    have step: "memmem_loop lm sm s s_len cur lastp =
        (if ?eq then Some (Some cur) else memmem_loop lm sm s s_len (cur + 1) lastp)"
      using True c s sl
      by (simp add: memmem_loop.simps [of lm sm s s_len cur lastp] mem_simps occurs_at_def)
    show ?thesis
    proof (cases ?eq)
      case True
      with step \<open>cur \<le> lastp\<close> show ?thesis by (simp add: first_in_hit)
    next
      case no: False
      have "\<not> occurs_at lm cur sm s s_len"
        using no occurs_at_hd [of lm cur sm s s_len] True "1.prems" by auto
      moreover have "\<exists>r. memmem_loop lm sm s s_len (cur + 1) lastp = Some r
          \<and> first_in (\<lambda>k. occurs_at lm k sm s s_len) (Suc cur) (Suc lastp) r"
        using "1.IH" [OF True mread_ok [OF c] mread_ok [OF s], of False] no sl "1.prems"
        by (auto simp: occurs_at_def split: if_splits)
      ultimately show ?thesis using step no by (auto intro: first_in_miss)
    qed
  qed
qed

lemma memmem_first:
  assumes "l + l_len \<le> length lm" and "s + s_len \<le> length sm" and "0 < s_len"
  shows "\<exists>r. memmem lm l l_len sm s s_len = Some r
     \<and> first_in (\<lambda>i. i + s_len \<le> l + l_len \<and> occurs_at lm i sm s s_len) l (l + l_len) r"
proof (cases "l_len < s_len")
  case True
  then show ?thesis by (auto simp: memmem_def first_in_def)
next
  case fits: False
  show ?thesis
  proof (cases "s_len = 1")
    case True
    then obtain r where r: "wmemchr_loop lm l (sm ! s) l_len 0 = Some r"
      and f: "first_in (\<lambda>k. lm ! k = sm ! s) l (l + l_len) r"
      using wmemchr_loop_first [OF assms(1), of "sm ! s" 0] by auto
    have "first_in (\<lambda>i. i + s_len \<le> l + l_len \<and> occurs_at lm i sm s s_len) l (l + l_len) r"
      using f assms True by (subst first_in_cong [where Q = "\<lambda>k. lm ! k = sm ! s"]) (auto simp: occurs_at_one)
    with True fits r assms show ?thesis by (simp add: memmem_def mem_simps)
  next
    case False
    let ?lastp = "l + l_len - s_len"
    obtain r where r: "memmem_loop lm sm s s_len l ?lastp = Some r"
      and f: "first_in (\<lambda>k. occurs_at lm k sm s s_len) l (Suc ?lastp) r"
      using memmem_loop_first [of ?lastp s_len lm s sm l] fits assms by auto
    have "first_in (\<lambda>i. i + s_len \<le> l + l_len \<and> occurs_at lm i sm s s_len) l (l + l_len) r"
      using f fits assms(3) by (auto simp: first_in_def split: option.splits)
    with False fits r assms show ?thesis by (simp add: memmem_def)
  qed
qed

text \<open>C19: \<open>memmem\<close> returns the first position of the searched region where the sought bytes occur completely inside it, or null
  when there is none; where one of the lengths is zero it returns null.  The single-byte shortcut and the general loop agree
  on that, and neither reads outside the two regions.\<close>

theorem memmem_correct:
  assumes "l + l_len \<le> length lm" and "s + s_len \<le> length sm"
  shows "\<exists>r. memmem lm l l_len sm s s_len = Some r
     \<and> (if l_len = 0 \<or> s_len = 0 then r = None
        else first_in (\<lambda>i. i + s_len \<le> l + l_len \<and> occurs_at lm i sm s s_len) l (l + l_len) r)"
proof (cases "l_len = 0 \<or> s_len = 0")
  case True
  then show ?thesis by (auto simp: memmem_def)
next
  case False
  then show ?thesis using memmem_first [OF assms] by simp
qed

theorem memmem_correct_witness:
  "\<exists>r. memmem [1, 2, 1, 2, 3] 0 5 [1, 2, 3] 0 3 = Some r
     \<and> first_in (\<lambda>i. i + 3 \<le> 0 + 5 \<and> occurs_at [1, 2, 1, 2, 3] i [1, 2, 3] 0 3) 0 (0 + 5) r"
  using memmem_correct [of 0 5 "[1, 2, 1, 2, 3]" 0 3 "[1, 2, 3]"] by simp

end
