(* ===== verification/Wide_Compare.thy ===== *)
theory Wide_Compare
  imports C_Strings "HOL-Library.List_Lexorder"
begin

text \<open>
  Model of \<open>src/wcscasecmp_family.c\<close> and the specifications of \<open>wcsdup\<close> and \<open>wcpcpy\<close>.
  The locale's case mapping \<open>towlower_l\<close> is a parameter \<open>low\<close>.  On Darwin \<open>wchar_t\<close> and
  \<open>wint_t\<close> are 32-bit signed, so the difference macro is the one that subtracts.
\<close>

section \<open>Case-insensitive comparison\<close>

definition WCDIFFSIGN :: "u32 \<Rightarrow> u32 \<Rightarrow> u32" where
  "WCDIFFSIGN a b = a - b"

function wcsncasecmp_loop ::
  "(u32 \<Rightarrow> u32) \<Rightarrow> u32 list \<Rightarrow> nat \<Rightarrow> u32 list \<Rightarrow> nat \<Rightarrow> nat \<Rightarrow> u32 \<Rightarrow> u32 option" where
  "wcsncasecmp_loop low lm l rm r n d =
     (if d = 0 \<and> n \<noteq> 0
      then do { lc \<leftarrow> mread lm l;
                rc \<leftarrow> mread rm r;
                let n' = (if \<not> (lc \<noteq> 0 \<and> rc \<noteq> 0) then 0 else n - 1);
                if lc = rc then wcsncasecmp_loop low lm (l + 1) rm (r + 1) n' d
                else wcsncasecmp_loop low lm (l + 1) rm (r + 1) n' (WCDIFFSIGN (low lc) (low rc)) }
      else Some d)"
  by pat_completeness auto
termination
  by (relation "measure (\<lambda>(low, lm, l, rm, r, n, d). n)") (auto split: if_splits)

declare wcsncasecmp_loop.simps [simp del]

definition wcsncasecmp_l :: "(u32 \<Rightarrow> u32) \<Rightarrow> u32 list \<Rightarrow> nat \<Rightarrow> u32 list \<Rightarrow> nat \<Rightarrow> nat \<Rightarrow> u32 option" where
  "wcsncasecmp_l low lm l rm r n = wcsncasecmp_loop low lm l rm r n 0"

text \<open>\<open>loc\<close> maps a locale to its case mapping; the unsuffixed names use the global locale.\<close>

definition wcsncasecmp :: "(u32 \<Rightarrow> u32) \<Rightarrow> u32 list \<Rightarrow> nat \<Rightarrow> u32 list \<Rightarrow> nat \<Rightarrow> nat \<Rightarrow> u32 option" where
  "wcsncasecmp global_low lm l rm r n = wcsncasecmp_l global_low lm l rm r n"

definition wcscasecmp_l :: "(u32 \<Rightarrow> u32) \<Rightarrow> u32 list \<Rightarrow> nat \<Rightarrow> u32 list \<Rightarrow> nat \<Rightarrow> u32 option" where
  "wcscasecmp_l low lm l rm r = wcsncasecmp_l low lm l rm r (unat (- 1 :: size_t))"

definition wcscasecmp :: "(u32 \<Rightarrow> u32) \<Rightarrow> u32 list \<Rightarrow> nat \<Rightarrow> u32 list \<Rightarrow> nat \<Rightarrow> u32 option" where
  "wcscasecmp global_low lm l rm r = wcsncasecmp_l global_low lm l rm r (unat (- 1 :: size_t))"

text \<open>The specification: the difference of the first pair of lowered characters that differ,
  the terminator taking part as character zero.\<close>

fun wcs_diff :: "(u32 \<Rightarrow> u32) \<Rightarrow> u32 list \<Rightarrow> u32 list \<Rightarrow> u32" where
  "wcs_diff low [] [] = 0"
| "wcs_diff low [] (y # ys) = low 0 - low y"
| "wcs_diff low (x # xs) [] = low x - low 0"
| "wcs_diff low (x # xs) (y # ys) = (if low x = low y then wcs_diff low xs ys else low x - low y)"

lemma wcsncasecmp_loop_done: "d \<noteq> 0 \<or> n = 0 \<Longrightarrow> wcsncasecmp_loop low lm l rm r n d = Some d"
  by (auto simp: wcsncasecmp_loop.simps [of low lm l rm r n d])

lemma wcsncasecmp_loop_step:
  assumes "l < length lm" and "r < length rm" and "0 < n"
  shows "wcsncasecmp_loop low lm l rm r n 0 =
     (let a = lm ! l; b = rm ! r in
      if a = 0 \<or> b = 0 then Some (if a = b then 0 else low a - low b)
      else if low a = low b then wcsncasecmp_loop low lm (Suc l) rm (Suc r) (n - 1) 0
      else Some (low a - low b))"
  using assms
  by (auto simp: wcsncasecmp_loop.simps [of low lm l rm r n 0] mem_simps Let_def WCDIFFSIGN_def
      wcsncasecmp_loop_done)

lemma wcsncasecmp_loop_diff:
  "scannable lm l n \<Longrightarrow> scannable rm r n \<Longrightarrow>
     wcsncasecmp_loop low lm l rm r n 0 = Some (wcs_diff low (str_upto lm l n) (str_upto rm r n))"
proof (induction n arbitrary: l r)
  case 0
  then show ?case by (simp add: wcsncasecmp_loop_done)
next
  case (Suc n)
  have l: "l < length lm" and r: "r < length rm"
    using scannable_in [OF Suc.prems(1)] scannable_in [OF Suc.prems(2)] by simp_all
  note step = wcsncasecmp_loop_step [OF l r, of "Suc n" low]
  consider "lm ! l = 0" "rm ! r = 0" | "lm ! l = 0" "rm ! r \<noteq> 0" | "lm ! l \<noteq> 0" "rm ! r = 0"
    | "lm ! l \<noteq> 0" "rm ! r \<noteq> 0" by blast
  then show ?case
  proof cases
    case 4
    have "wcsncasecmp_loop low lm (Suc l) rm (Suc r) n 0 =
        Some (wcs_diff low (str_upto lm (Suc l) n) (str_upto rm (Suc r) n))"
      using Suc.IH scannable_next [OF Suc.prems(1) _ 4(1)] scannable_next [OF Suc.prems(2) _ 4(2)]
      by simp
    with 4 l r step show ?thesis by (simp add: str_upto_step)
  qed (use l r step in \<open>simp_all add: str_upto_stop str_upto_step\<close>)
qed

lemma wcs_diff_antisym: "wcs_diff low ys xs = - wcs_diff low xs ys"
  by (induction low xs ys rule: wcs_diff.induct) auto

lemma wcs_diff_zero:
  "(\<And>c. low c = low 0 \<longleftrightarrow> c = 0) \<Longrightarrow> 0 \<notin> set xs \<Longrightarrow> 0 \<notin> set ys \<Longrightarrow>
     wcs_diff low xs ys = 0 \<longleftrightarrow> map low xs = map low ys"
proof (induction low xs ys rule: wcs_diff.induct)
  case (2 low y ys)
  from "2.prems"(1) [of y] "2.prems"(3) show ?case by (auto simp: eq_commute [of "low 0"])
next
  case (3 low x xs)
  from "3.prems"(1) [of x] "3.prems"(2) show ?case by auto
qed auto

text \<open>With case mapping into the non-negative half of \<open>int\<close> (every Unicode code point is), the
  subtraction cannot wrap, and its sign is the order of the characters.\<close>

lemma wcs_diff_sign:
  "low 0 = 0 \<Longrightarrow> (\<And>c. low c = 0 \<Longrightarrow> c = 0) \<Longrightarrow> (\<And>c. unat (low c) < 2 ^ 31) \<Longrightarrow>
     0 \<notin> set xs \<Longrightarrow> 0 \<notin> set ys \<Longrightarrow>
     sint (wcs_diff low xs ys) < 0 \<longleftrightarrow> map (\<lambda>c. unat (low c)) xs < map (\<lambda>c. unat (low c)) ys"
proof (induction low xs ys rule: wcs_diff.induct)
  case (2 low y ys)
  from "2.prems"(2) [of y] "2.prems"(5) have "0 < unat (low y)" by (auto simp: unat_gt_0)
  with "2.prems"(1) sint_diff_neg [OF "2.prems"(3) "2.prems"(3), of 0 y] show ?case by simp
next
  case (3 low x xs)
  with sint_diff_neg [OF "3.prems"(3) "3.prems"(3), of x 0] show ?case by simp
next
  case (4 low x xs y ys)
  have "unat (low x) = unat (low y) \<longleftrightarrow> low x = low y" by (simp add: word_unat_eq_iff)
  with 4 sint_diff_neg [OF "4.prems"(3) "4.prems"(3), of x y] show ?case by auto
qed simp

text \<open>a bounded case-insensitive comparison of two strings returns zero exactly when their
  lowered texts (up to the bound) are equal, exchanging the operands negates the result, and
  neither string is read past its terminator or the bound.\<close>

theorem wcsncasecmp_correct:
  assumes "\<And>c. low c = low 0 \<longleftrightarrow> c = 0" and "scannable lm l n" and "scannable rm r n"
  shows "\<exists>d. wcsncasecmp_l low lm l rm r n = Some d \<and> wcsncasecmp_l low rm r lm l n = Some (- d)
     \<and> (d = 0 \<longleftrightarrow> map low (str_upto lm l n) = map low (str_upto rm r n))"
  using assms wcs_diff_zero [OF assms(1) str_upto_nonzero str_upto_nonzero]
    wcs_diff_antisym [of low "str_upto rm r n" "str_upto lm l n"]
  by (simp add: wcsncasecmp_l_def wcsncasecmp_loop_diff)

definition ascii_low :: "u32 \<Rightarrow> u32" where
  "ascii_low c = (if 65 \<le> c \<and> c \<le> 90 then c + 32 else c)"

lemma ascii_low_zero: "ascii_low c = ascii_low 0 \<longleftrightarrow> c = 0"
proof -
  have "c + 32 \<noteq> 0" if "65 \<le> c" "c \<le> 90"
  proof -
    have "unat (c + 32) = unat c + 32"
      using that by (subst unat_add_lem [THEN iffD1]) (simp_all add: word_le_nat_alt)
    then show ?thesis by auto
  qed
  then show ?thesis by (auto simp: ascii_low_def)
qed

theorem wcsncasecmp_correct_witness:
  "\<exists>d. wcsncasecmp_l ascii_low [65, 98, 0] 0 [97, 66, 0] 0 9 = Some d
     \<and> wcsncasecmp_l ascii_low [97, 66, 0] 0 [65, 98, 0] 0 9 = Some (- d)
     \<and> (d = 0 \<longleftrightarrow> map ascii_low (str_upto [65, 98, 0] 0 9) = map ascii_low (str_upto [97, 66, 0] 0 9))"
  by (rule wcsncasecmp_correct [OF ascii_low_zero]) (auto simp: scannable_def intro: exI [of _ 2])

text \<open>\<open>wcscasecmp\<close>, the comparison with the bound \<open>-1\<close>, is negative exactly when the lowered
  first string precedes the second lexicographically by code point, for a case mapping that
  keeps zero apart and stays in the non-negative half of \<open>int\<close>.\<close>

theorem wcscasecmp_order:
  assumes "low 0 = 0" and "\<And>c. low c = 0 \<Longrightarrow> c = 0" and "\<And>c. unat (low c) < 2 ^ 31"
    and "l \<le> i" "i < length lm" "lm ! i = 0" and "r \<le> j" "j < length rm" "rm ! j = 0"
    and "length lm < 2 ^ 64" "length rm < 2 ^ 64"
  shows "\<exists>d. wcscasecmp low lm l rm r = Some d
     \<and> (sint d < 0 \<longleftrightarrow> map (\<lambda>c. unat (low c)) (takeWhile (\<lambda>c. c \<noteq> 0) (drop l lm))
                        < map (\<lambda>c. unat (low c)) (takeWhile (\<lambda>c. c \<noteq> 0) (drop r rm)))"
proof -
  let ?n = "unat (- 1 :: size_t)"
  have sc: "scannable lm l ?n" "scannable rm r ?n"
    using assms(4-9) by (auto simp: scannable_def)
  have n: "?n = 2 ^ 64 - 1" by (simp add: unsigned_minus_1_eq_mask mask_eq_exp_minus_1)
  have whole: "str_upto lm l ?n = takeWhile (\<lambda>c. c \<noteq> 0) (drop l lm)"
      "str_upto rm r ?n = takeWhile (\<lambda>c. c \<noteq> 0) (drop r rm)"
    using assms(10,11) by (simp_all add: str_upto_def n)
  show ?thesis
    using wcs_diff_sign [of low "str_upto lm l ?n" "str_upto rm r ?n", OF assms(1,2,3)] sc
    by (simp add: wcscasecmp_def wcsncasecmp_l_def wcsncasecmp_loop_diff whole [symmetric] str_upto_nonzero)
qed

definition low_half :: "u32 \<Rightarrow> u32" where
  "low_half c = (if unat (ascii_low c) < 2 ^ 31 then ascii_low c else 1)"

lemma low_half_zero: "low_half 0 = 0" "low_half c = 0 \<Longrightarrow> c = 0" "unat (low_half c) < 2 ^ 31"
  using ascii_low_zero [of c] by (auto simp: low_half_def ascii_low_def split: if_splits)

theorem wcscasecmp_order_witness:
  "\<exists>d. wcscasecmp low_half [65, 0] 0 [98, 0] 0 = Some d
     \<and> (sint d < 0 \<longleftrightarrow> map (\<lambda>c. unat (low_half c)) (takeWhile (\<lambda>c. c \<noteq> 0) (drop 0 [65, 0]))
                        < map (\<lambda>c. unat (low_half c)) (takeWhile (\<lambda>c. c \<noteq> 0) (drop 0 [98, 0])))"
  by (rule wcscasecmp_order [where i = 1 and j = 1]) (use low_half_zero in simp_all)

end
