(* ===== verification/Line_Input.thy ===== *)
theory Line_Input
  imports Legacy_Prelude
begin

text \<open>
  Model of \<open>src/getdelim.c\<close> and \<open>src/getline.c\<close>.  The stream is the bytes still to come and
  whether, once they are used up, it reports an error rather than the end of the file.  The
  caller's buffer is an object or null, with the size the caller declares for it; \<open>malloc\<close>
  and \<open>realloc\<close> are parameters.  The result carries the caller's two variables as the call
  leaves them, the rest of the stream and the returned value.
\<close>

record stream =
  input :: "byte list"
  at_error :: bool

record line_result =
  lr_buf :: "byte list option"
  lr_bufsiz :: nat
  lr_stream :: stream
  lr_ret :: int

definition BUFSIZ :: nat where
  "BUFSIZ = 1024"

text \<open>The loop from the character at \<open>ptr\<close> on; the last argument is what the stream still has.  Sizes are natural numbers: a
  buffer whose doubled size would not fit \<open>size_t\<close> fills half of the address space.\<close>

fun getdelim_loop ::
  "(byte list \<Rightarrow> nat \<Rightarrow> byte list option) \<Rightarrow> int \<Rightarrow> bool \<Rightarrow> byte list \<Rightarrow> nat \<Rightarrow> nat \<Rightarrow> byte list
     \<Rightarrow> line_result option" where
  "getdelim_loop realloc delim err buf bufsiz ptr [] =
     Some \<lparr>lr_buf = Some buf, lr_bufsiz = bufsiz, lr_stream = \<lparr>input = [], at_error = err\<rparr>,
           lr_ret = (if \<not> err then if ptr = 0 then -1 else int ptr else -1)\<rparr>"
| "getdelim_loop realloc delim err buf bufsiz ptr (c # cs) =
     do { buf \<leftarrow> mwrite buf ptr c;
          let ptr = ptr + 1;
          if uint c = delim
          then do { buf \<leftarrow> mwrite buf ptr 0;
                    Some \<lparr>lr_buf = Some buf, lr_bufsiz = bufsiz,
                          lr_stream = \<lparr>input = cs, at_error = err\<rparr>, lr_ret = int ptr\<rparr> }
          else if ptr + 2 \<ge> bufsiz
          then (case realloc buf (bufsiz * 2) of
                  None \<Rightarrow> Some \<lparr>lr_buf = Some buf, lr_bufsiz = bufsiz,
                                 lr_stream = \<lparr>input = cs, at_error = err\<rparr>, lr_ret = -1\<rparr>
                | Some nbuf \<Rightarrow> getdelim_loop realloc delim err nbuf (bufsiz * 2) ptr cs)
          else getdelim_loop realloc delim err buf bufsiz ptr cs }"

definition getdelim ::
  "(nat \<Rightarrow> byte list option) \<Rightarrow> (byte list \<Rightarrow> nat \<Rightarrow> byte list option) \<Rightarrow> byte list option \<Rightarrow> nat \<Rightarrow> int
     \<Rightarrow> stream \<Rightarrow> line_result option" where
  "getdelim malloc realloc buf bufsiz delimiter fp =
     (if buf = None \<or> bufsiz = 0
      then (case malloc BUFSIZ of
              None \<Rightarrow> Some \<lparr>lr_buf = None, lr_bufsiz = BUFSIZ, lr_stream = fp, lr_ret = -1\<rparr>
            | Some b \<Rightarrow> getdelim_loop realloc delimiter (at_error fp) b BUFSIZ 0 (input fp))
      else getdelim_loop realloc delimiter (at_error fp) (the buf) bufsiz 0 (input fp))"

definition getline ::
  "(nat \<Rightarrow> byte list option) \<Rightarrow> (byte list \<Rightarrow> nat \<Rightarrow> byte list option) \<Rightarrow> byte list option \<Rightarrow> nat
     \<Rightarrow> stream \<Rightarrow> line_result option" where
  "getline malloc realloc buf bufsiz fp = getdelim malloc realloc buf bufsiz 10 fp"


definition ends_in :: "int \<Rightarrow> byte list \<Rightarrow> bool" where
  "ends_in delim cs \<longleftrightarrow> (\<exists>c \<in> set cs. uint c = delim)"



lemma ends_in_Cons: "ends_in delim (c # cs) \<longleftrightarrow> uint c = delim \<or> ends_in delim cs"
  by (auto simp: ends_in_def)









definition realloc_list :: "byte list \<Rightarrow> nat \<Rightarrow> byte list option" where
  "realloc_list b n = Some (take n b @ replicate (n - length b) 0)"



lemma getdelim_loop_no_delim:
  "\<not> ends_in delim cs \<Longrightarrow> ptr + length cs + 2 < bufsiz \<Longrightarrow> bufsiz \<le> length buf \<Longrightarrow>
     getdelim_loop ra delim False buf bufsiz ptr cs =
       Some \<lparr>lr_buf = Some (take ptr buf @ cs @ drop (ptr + length cs) buf), lr_bufsiz = bufsiz,
             lr_stream = \<lparr>input = [], at_error = False\<rparr>,
             lr_ret = (if ptr + length cs = 0 then -1 else int (ptr + length cs))\<rparr>"
proof (induction cs arbitrary: buf ptr)
  case (Cons c cs)
  have "getdelim_loop ra delim False (buf[ptr := c]) bufsiz (Suc ptr) cs =
       Some \<lparr>lr_buf = Some (take (Suc ptr) (buf[ptr := c]) @ cs @ drop (Suc ptr + length cs) (buf[ptr := c])),
             lr_bufsiz = bufsiz, lr_stream = \<lparr>input = [], at_error = False\<rparr>,
             lr_ret = int (Suc ptr + length cs)\<rparr>"
    using Cons.IH [of "Suc ptr" "buf[ptr := c]"] Cons.prems by (simp add: ends_in_Cons)
  with Cons.prems show ?case by (simp add: ends_in_Cons mem_simps Let_def take_Suc_conv_app_nth)
qed simp

text \<open>a final line without its delimiter is returned without a terminator: the buffer after
  the call is the old one with the bytes read laid over it, so the byte at the returned length is
  whatever it was.  The file's own description says the line is terminated.\<close>

theorem getdelim_last_line_unterminated:
  assumes "\<not> ends_in delim cs" and "cs \<noteq> []" and "length cs + 2 < bufsiz" and "bufsiz \<le> length b"
  shows "\<exists>r. getdelim ma ra (Some b) bufsiz delim \<lparr>input = cs, at_error = False\<rparr> = Some r
     \<and> lr_ret r = int (length cs) \<and> lr_buf r = Some (cs @ drop (length cs) b)"
  using getdelim_loop_no_delim [OF assms(1), of 0 bufsiz b ra] assms by (auto simp: getdelim_def)

theorem getdelim_last_line_unterminated_witness:
  "\<exists>r. getdelim calloc_list realloc_list (Some [9, 9, 9, 9, 9]) 5 10 \<lparr>input = [65], at_error = False\<rparr> = Some r
     \<and> lr_ret r = int (length [65 :: byte]) \<and> lr_buf r = Some ([65] @ drop (length [65 :: byte]) [9, 9, 9, 9, 9])"
  by (rule getdelim_last_line_unterminated) (simp_all add: ends_in_def)

text \<open>the lower limit of two bytes is needed: with a one-byte buffer and a stream that starts
  with the delimiter the terminator is stored outside the buffer.\<close>

theorem getdelim_one_byte_overrun:
  "uint c = delim \<Longrightarrow> getdelim ma ra (Some [x]) 1 delim \<lparr>input = c # cs, at_error = e\<rparr> = None"
  by (simp add: getdelim_def mwrite_def)

theorem getdelim_one_byte_overrun_witness:
  "getdelim calloc_list realloc_list (Some [7]) 1 10 \<lparr>input = [10, 65], at_error = False\<rparr> = None"
  by (rule getdelim_one_byte_overrun) simp

end
