(* ===== verification/Cookie_Stream.thy ===== *)
theory Cookie_Stream
  imports Legacy_Prelude
begin

text \<open>
  The contract \<open>stdio\<close> relies on when it drives a stream through the functions handed to
  \<open>funopen\<close>: a successful write replaces the bytes at the position and moves the position
  past them, and a read delivers the bytes at the position.  What follows for a whole run
  of writes is proved once here; \<open>fmemopen\<close> and \<open>open_memstream\<close> each interpret it.
\<close>

datatype whence = SEEK_SET | SEEK_CUR | SEEK_END | Other_whence

definition overwrite :: "'a list \<Rightarrow> nat \<Rightarrow> 'a list \<Rightarrow> 'a list" where
  "overwrite d p xs = take p d @ xs @ drop (p + length xs) d"

lemma overwrite_Nil [simp]: "overwrite d p [] = d"
  by (simp add: overwrite_def)

lemma length_overwrite: "p \<le> length d \<Longrightarrow> length (overwrite d p xs) = max (length d) (p + length xs)"
  by (simp add: overwrite_def max_def)

lemma overwrite_overwrite:
  "p \<le> length d \<Longrightarrow> overwrite (overwrite d p xs) (p + length xs) ys = overwrite d p (xs @ ys)"
  by (simp add: overwrite_def ac_simps)

lemma overwrite_end: "overwrite d (length d) xs = d @ xs"
  by (simp add: overwrite_def)

lemma overwrite_read: "p \<le> length d \<Longrightarrow> take (length xs) (drop p (overwrite d p xs)) = xs"
  by (simp add: overwrite_def)

lemma take_overwrite:
  assumes "p \<le> l" and "l \<le> length b" and "p + length xs \<le> length b"
  shows "take (max l (p + length xs)) (take p b @ xs @ drop (p + length xs) b) = overwrite (take l b) p xs"
proof (cases "l \<le> p + length xs")
  case True
  then show ?thesis using assms by (cases xs) (simp_all add: overwrite_def max_def min_def)
next
  case False
  then show ?thesis using assms
    by (simp add: overwrite_def max_def min_def drop_take)
qed

text \<open>A run of writes that stops at the first one that fails.\<close>

primrec write_all :: "('s \<Rightarrow> byte list \<Rightarrow> 's option) \<Rightarrow> 's \<Rightarrow> byte list list \<Rightarrow> 's option" where
  "write_all put s [] = Some s"
| "write_all put s (xs # xss) = (case put s xs of None \<Rightarrow> None | Some s' \<Rightarrow> write_all put s' xss)"

locale cookie_writer =
  fixes put :: "'s \<Rightarrow> byte list \<Rightarrow> 's option"
    and contents :: "'s \<Rightarrow> byte list"
    and position :: "'s \<Rightarrow> nat"
    and inv :: "'s \<Rightarrow> bool"
    and room :: "'s \<Rightarrow> nat \<Rightarrow> bool"
  assumes put_ok: "inv s \<Longrightarrow> room s (length xs) \<Longrightarrow> position s \<le> length (contents s) \<Longrightarrow>
      \<exists>s'. put s xs = Some s' \<and> inv s' \<and> contents s' = overwrite (contents s) (position s) xs
         \<and> position s' = position s + length xs \<and> (\<forall>n. room s (length xs + n) \<longrightarrow> room s' n)"
    and room_less: "room s n \<Longrightarrow> m \<le> n \<Longrightarrow> room s m"
begin

theorem write_all_ok:
  assumes "inv s" and "position s \<le> length (contents s)" and "room s (length (concat xss))"
  shows "\<exists>s'. write_all put s xss = Some s' \<and> inv s'
    \<and> contents s' = overwrite (contents s) (position s) (concat xss)
    \<and> position s' = position s + length (concat xss)"
  using assms
proof (induction xss arbitrary: s)
  case Nil
  then show ?case by simp
next
  case (Cons xs xss)
  have "room s (length xs)" using Cons.prems(3) by (rule room_less) simp
  from put_ok [OF Cons.prems(1) this Cons.prems(2)] obtain s1 where s1: "put s xs = Some s1" "inv s1"
    "contents s1 = overwrite (contents s) (position s) xs" "position s1 = position s + length xs"
    "\<forall>n. room s (length xs + n) \<longrightarrow> room s1 n" by blast
  have "position s1 \<le> length (contents s1)"
    using s1 Cons.prems(2) by (simp add: length_overwrite)
  moreover have "room s1 (length (concat xss))" using s1(5) Cons.prems(3) by simp
  ultimately obtain s2 where "write_all put s1 xss = Some s2" "inv s2"
    "contents s2 = overwrite (contents s1) (position s1) (concat xss)"
    "position s2 = position s1 + length (concat xss)"
    using Cons.IH [OF s1(2)] by blast
  then show ?case using s1 Cons.prems(2) by (simp add: overwrite_overwrite)
qed

text \<open>Two runs that write the same bytes leave the same contents, however the bytes were split.\<close>

lemma write_all_split_irrelevant:
  assumes "inv s" and "position s \<le> length (contents s)" and "room s (length (concat xss))"
    and "concat xss = concat yss"
  shows "map_option contents (write_all put s xss) = map_option contents (write_all put s yss)"
  using write_all_ok [OF assms(1-3)] write_all_ok [of s yss] assms by auto

end

text \<open>A stream that can be read back.\<close>

locale cookie_stream = cookie_writer put contents position inv room
  for put :: "'s \<Rightarrow> byte list \<Rightarrow> 's option"
    and contents :: "'s \<Rightarrow> byte list"
    and position :: "'s \<Rightarrow> nat"
    and inv :: "'s \<Rightarrow> bool"
    and room :: "'s \<Rightarrow> nat \<Rightarrow> bool" +
  fixes get :: "'s \<Rightarrow> nat \<Rightarrow> (byte list \<times> 's) option"
    and rewind :: "'s \<Rightarrow> nat \<Rightarrow> 's option"
    and legal :: "nat \<Rightarrow> bool"
  assumes get_ok: "inv s \<Longrightarrow> position s \<le> length (contents s) \<Longrightarrow> legal n \<Longrightarrow>
      \<exists>s'. get s n = Some (take n (drop (position s) (contents s)), s') \<and> inv s'"
    and rewind_ok: "inv s \<Longrightarrow> p \<le> length (contents s) \<Longrightarrow>
      \<exists>s'. rewind s p = Some s' \<and> inv s' \<and> contents s' = contents s \<and> position s' = p"
begin

theorem write_rewind_read:
  assumes "inv s" and "position s \<le> length (contents s)" and "room s (length (concat xss))"
    and "legal (length (concat xss))"
  shows "\<exists>s1 s2 s3. write_all put s xss = Some s1 \<and> rewind s1 (position s) = Some s2
    \<and> get s2 (length (concat xss)) = Some (concat xss, s3)"
proof -
  from write_all_ok [OF assms(1-3)] obtain s1 where s1: "write_all put s xss = Some s1" "inv s1"
    "contents s1 = overwrite (contents s) (position s) (concat xss)" by blast
  then have "position s \<le> length (contents s1)" using assms(2) by (simp add: length_overwrite)
  from rewind_ok [OF s1(2) this] obtain s2 where s2: "rewind s1 (position s) = Some s2" "inv s2"
    "contents s2 = contents s1" "position s2 = position s" by blast
  have "position s2 \<le> length (contents s2)" using s1 s2 assms(2) by (simp add: length_overwrite)
  from get_ok [OF s2(2) this assms(4)] show ?thesis
    using s1 s2 assms(2) by (auto simp: overwrite_read)
qed

end

end
