(* ===== verification/Mem_File.thy ===== *)
theory Mem_File
  imports C_Strings Cookie_Stream
begin

text \<open>
  Model of \<open>src/fmemopen.c\<close>: a stdio stream over a caller's (or an owned) memory object.
  Sizes and offsets are \<open>size_t\<close> words of the 64-bit data model and the byte counts are
  32-bit \<open>int\<close>; the conversions C inserts between them are written out.  The libc routine
  that parses the mode string, the allocator and \<open>funopen\<close> are parameters.
\<close>

section \<open>The cookie and its operations\<close>

record fmemopen_cookie =
  ck_buf :: "byte list"
  ck_own :: bool
  ck_bin :: bool
  ck_size :: size_t
  ck_len :: size_t
  ck_off :: size_t

abbreviation int_to_size :: "u32 \<Rightarrow> size_t" where
  "int_to_size \<equiv> scast"

abbreviation size_to_int :: "size_t \<Rightarrow> u32" where
  "size_to_int \<equiv> ucast"

text \<open>\<open>fmemopen_read\<close>: the bytes delivered, the count and the cookie.\<close>

definition fmemopen_read :: "fmemopen_cookie \<Rightarrow> u32 \<Rightarrow> (byte list \<times> u32 \<times> fmemopen_cookie) option" where
  "fmemopen_read ck nbytes =
     (let nbytes = (if int_to_size nbytes > ck_len ck - ck_off ck
                    then size_to_int (ck_len ck - ck_off ck) else nbytes)
      in if nbytes = 0 then Some ([], 0, ck)
         else do { xs \<leftarrow> mslice (ck_buf ck) (unat (ck_off ck)) (unat (int_to_size nbytes));
                   Some (xs, nbytes, ck\<lparr>ck_off := ck_off ck + int_to_size nbytes\<rparr>) })"

text \<open>\<open>fmemopen_write\<close>: \<open>buf\<close> is the caller's data, \<open>nbytes\<close> its count.\<close>

definition fmemopen_write :: "fmemopen_cookie \<Rightarrow> byte list \<Rightarrow> u32 \<Rightarrow> (u32 \<times> fmemopen_cookie) option" where
  "fmemopen_write ck buf nbytes =
     (let nbytes = (if int_to_size nbytes > ck_size ck - ck_off ck
                    then size_to_int (ck_size ck - ck_off ck) else nbytes)
      in if nbytes = 0 then Some (0, ck)
         else do { xs \<leftarrow> mslice buf 0 (unat (int_to_size nbytes));
                   b \<leftarrow> mblit (ck_buf ck) (unat (ck_off ck)) xs;
                   let off = ck_off ck + int_to_size nbytes;
                   let len = (if off > ck_len ck then off else ck_len ck);
                   b \<leftarrow> (if \<not> ck_bin ck \<and> off < ck_size ck
                         then do { c \<leftarrow> mread b (unat (off - 1));
                                   if c \<noteq> 0 then mwrite b (unat off) 0 else Some b }
                         else Some b);
                   Some (nbytes, ck\<lparr>ck_buf := b, ck_off := off, ck_len := len\<rparr>) })"

text \<open>\<open>fmemopen_seek\<close>: either an error number, with the cookie unchanged, or the offset.\<close>

definition fmemopen_seek :: "fmemopen_cookie \<Rightarrow> 64 word \<Rightarrow> whence \<Rightarrow> errno + (64 word \<times> fmemopen_cookie)" where
  "fmemopen_seek ck offset whence =
     (case whence of
        SEEK_SET \<Rightarrow>
          if offset > ck_size ck then Inl EINVAL
          else Inr (offset, ck\<lparr>ck_off := offset\<rparr>)
      | SEEK_CUR \<Rightarrow>
          if ck_off ck + offset > ck_size ck then Inl EINVAL
          else Inr (ck_off ck + offset, ck\<lparr>ck_off := ck_off ck + offset\<rparr>)
      | SEEK_END \<Rightarrow>
          if 0 <s offset \<or> - offset > ck_len ck then Inl EINVAL
          else Inr (ck_len ck + offset, ck\<lparr>ck_off := ck_len ck + offset\<rparr>)
      | Other_whence \<Rightarrow> Inl EINVAL)"

text \<open>\<open>fmemopen_close\<close> frees the cookie, and the buffer when it owns it.\<close>

definition fmemopen_close :: "fmemopen_cookie \<Rightarrow> int \<times> bool" where
  "fmemopen_close ck = (0, ck_own ck)"

section \<open>Opening\<close>

text \<open>The open flags as \<open>__sflags\<close> delivers them.\<close>

definition O_RDONLY :: u32 where "O_RDONLY = 0"
definition O_WRONLY :: u32 where "O_WRONLY = 1"
definition O_RDWR :: u32 where "O_RDWR = 2"

record mem_stream =
  st_cookie :: fmemopen_cookie
  st_read :: bool
  st_write :: bool
  st_append :: bool
  st_unbuffered :: bool

datatype open_error = Bad_argument | No_memory | Funopen_failed

abbreviation chr_a :: byte where "chr_a \<equiv> 97"
abbreviation chr_b :: byte where "chr_b \<equiv> 98"
abbreviation chr_r :: byte where "chr_r \<equiv> 114"
abbreviation chr_w :: byte where "chr_w \<equiv> 119"

text \<open>The first byte of the mode string, zero for an empty one.\<close>

definition mode0 :: "byte list \<Rightarrow> byte" where
  "mode0 mode = (case mode of [] \<Rightarrow> 0 | c # _ \<Rightarrow> c)"

text \<open>
  \<open>malloc_ck\<close> says whether the cookie can be allocated, \<open>malloc\<close> allocates an owned buffer,
  \<open>sflags\<close> is libc's mode parser (\<open>None\<close> for a mode it rejects), and \<open>funopen_ok\<close> whether
  the stream can be made.  A mode with another first letter, which \<open>sflags\<close> rejects, would
  leave the length of the cookie uninitialised (\<open>None\<close>).
\<close>

definition fmemopen ::
  "bool \<Rightarrow> (nat \<Rightarrow> byte list option) \<Rightarrow> (byte list \<Rightarrow> u32 option) \<Rightarrow> bool
     \<Rightarrow> byte list option \<Rightarrow> size_t \<Rightarrow> byte list \<Rightarrow> (open_error + mem_stream) option" where
  "fmemopen malloc_ck malloc sflags funopen_ok buf sz mode =
     (if sz = 0 then Some (Inl Bad_argument)
      else case sflags mode of
        None \<Rightarrow> Some (Inl Bad_argument)
      | Some flags \<Rightarrow>
          if flags AND O_RDWR = 0 \<and> buf = None then Some (Inl Bad_argument)
          else if \<not> malloc_ck then Some (Inl No_memory)
          else (case (case buf of Some b \<Rightarrow> Some b | None \<Rightarrow> malloc (unat sz)) of
            None \<Rightarrow> Some (Inl No_memory)
          | Some b \<Rightarrow>
              do { let own = (buf = None);
                   b \<leftarrow> (if own \<or> mode0 mode = chr_w then mwrite b 0 0 else Some b);
                   let bin = (chr_b \<in> set mode);
                   (off, len) \<leftarrow>
                     (if mode0 mode = chr_a
                      then do { n \<leftarrow> strnlen b 0 (unat sz); Some (of_nat n, of_nat n) }
                      else if mode0 mode = chr_r then Some (0, sz)
                      else if mode0 mode = chr_w then Some (0, 0)
                      else None);
                   if \<not> funopen_ok then Some (Inl Funopen_failed)
                   else Some (Inr \<lparr>st_cookie = \<lparr>ck_buf = b, ck_own = own, ck_bin = bin,
                                     ck_size = sz, ck_len = len, ck_off = off\<rparr>,
                                   st_read = (flags AND O_WRONLY = 0),
                                   st_write = (flags AND O_RDONLY = 0),
                                   st_append = (mode0 mode = chr_a),
                                   st_unbuffered = True\<rparr>) }))"

section \<open>The invariant\<close>

definition cookie_ok :: "fmemopen_cookie \<Rightarrow> bool" where
  "cookie_ok ck \<longleftrightarrow> ck_len ck \<le> ck_size ck \<and> ck_off ck \<le> ck_size ck \<and> unat (ck_size ck) \<le> length (ck_buf ck)"

text \<open>The data the stream holds, and its position, as numbers.\<close>

definition ck_data :: "fmemopen_cookie \<Rightarrow> byte list" where
  "ck_data ck = take (unat (ck_len ck)) (ck_buf ck)"

definition ck_pos :: "fmemopen_cookie \<Rightarrow> nat" where
  "ck_pos ck = unat (ck_off ck)"

lemma io_count:
  fixes limit :: size_t and n :: u32
  assumes "unat n < 2 ^ 31"
  defines "k \<equiv> (if int_to_size n > limit then size_to_int limit else n)"
  shows "unat k = min (unat limit) (unat n)" and "unat (int_to_size k) = min (unat limit) (unat n)"
proof -
  show k: "unat k = min (unat limit) (unat n)"
  proof (cases "int_to_size n > limit")
    case True
    then have lt: "unat limit < unat n"
      using unat_scast_small [OF assms(1)] by (simp add: word_less_nat_alt)
    then have "unat (size_to_int limit) = unat limit" using assms(1) by (intro unat_ucast_small) simp
    with True lt show ?thesis by (simp add: k_def)
  next
    case False
    then have "unat n \<le> unat limit"
      using unat_scast_small [OF assms(1)] by (simp add: word_less_nat_alt)
    with False show ?thesis by (simp add: k_def)
  qed
  show "unat (int_to_size k) = min (unat limit) (unat n)"
    using unat_scast_small [of k] k assms(1) by simp
qed

lemma unat_sub_le: "b \<le> (a :: size_t) \<Longrightarrow> unat (a - b) = unat a - unat b"
  by (simp add: unat_sub_if_size word_size word_le_nat_alt)

lemma unat_add_bounded:
  "unat (a :: size_t) + unat b \<le> unat (c :: size_t) \<Longrightarrow> unat (a + b) = unat a + unat b"
  using unsigned_less [of c, where ?'a = nat] by (subst unat_add_lem [THEN iffD1]) simp_all

text \<open>Reading when the position is inside the data.\<close>

lemma fmemopen_read_inside:
  assumes "cookie_ok ck" and "ck_off ck \<le> ck_len ck" and "unat n < 2 ^ 31"
  shows "\<exists>ck' k. fmemopen_read ck n = Some (take (unat n) (drop (ck_pos ck) (ck_data ck)), k, ck')
     \<and> unat k = min (length (ck_data ck) - ck_pos ck) (unat n)
     \<and> cookie_ok ck' \<and> ck_off ck' \<le> ck_len ck' \<and> ck_data ck' = ck_data ck \<and> ck_pos ck' = ck_pos ck + unat k"
proof -
  let ?lim = "ck_len ck - ck_off ck"
  let ?k = "if int_to_size n > ?lim then size_to_int ?lim else n"
  have lim: "unat ?lim = unat (ck_len ck) - unat (ck_off ck)" using assms(2) by (rule unat_sub_le)
  have le: "unat (ck_off ck) \<le> unat (ck_len ck)" "unat (ck_len ck) \<le> unat (ck_size ck)"
      "unat (ck_size ck) \<le> length (ck_buf ck)"
    using assms(1,2) by (simp_all add: cookie_ok_def word_le_nat_alt)
  note k = io_count [OF assms(3), of ?lim]
  have dl: "length (ck_data ck) = unat (ck_len ck)" using le by (simp add: ck_data_def)
  have data: "take (unat ?k) (drop (unat (ck_off ck)) (ck_buf ck)) = take (unat n) (drop (ck_pos ck) (ck_data ck))"
    unfolding k(1) lim by (simp add: ck_data_def ck_pos_def drop_take min.commute)
  show ?thesis
  proof (cases "?k = 0")
    case True
    then have "unat ?k = 0" by simp
    with k(1) lim have "take (unat n) (drop (ck_pos ck) (ck_data ck)) = []"
      using dl by (auto simp: ck_pos_def min_def split: if_splits)
    with True k(1) lim assms dl show ?thesis
      by (auto simp: fmemopen_read_def Let_def ck_pos_def)
  next
    case False
    have off: "unat (ck_off ck + int_to_size ?k) = unat (ck_off ck) + unat ?k"
      using k lim le by (intro unat_add_bounded [of _ _ "ck_len ck", THEN trans]) auto
    have fits: "unat (ck_off ck) + unat (int_to_size ?k) \<le> length (ck_buf ck)" using k lim le by simp
    let ?ck = "ck\<lparr>ck_off := ck_off ck + int_to_size ?k\<rparr>"
    have "fmemopen_read ck n = Some (take (unat n) (drop (ck_pos ck) (ck_data ck)), ?k, ?ck)"
      using False fits data k by (simp add: fmemopen_read_def Let_def mslice_ok)
    moreover have "cookie_ok ?ck" and "ck_off ?ck \<le> ck_len ?ck" and "ck_data ?ck = ck_data ck"
      using assms(1) off k lim le by (auto simp: cookie_ok_def word_le_nat_alt ck_data_def)
    moreover have "ck_pos ?ck = ck_pos ck + unat ?k" using off by (simp add: ck_pos_def)
    moreover have "unat ?k = min (length (ck_data ck) - ck_pos ck) (unat n)"
      using k(1) lim dl by (simp add: ck_pos_def)
    ultimately show ?thesis by blast
  qed
qed


text \<open>Writing, anywhere in the object.\<close>

lemma fmemopen_write_inside:
  assumes "cookie_ok ck" and "unat n < 2 ^ 31" and "unat n \<le> length src"
  defines "k \<equiv> min (unat (ck_size ck) - ck_pos ck) (unat n)"
  defines "b \<equiv> take (ck_pos ck) (ck_buf ck) @ take k src @ drop (ck_pos ck + k) (ck_buf ck)"
  shows "\<exists>ck' w. fmemopen_write ck src n = Some (w, ck') \<and> unat w = k
     \<and> ck_buf ck' = (if 0 < k \<and> \<not> ck_bin ck \<and> ck_pos ck + k < unat (ck_size ck) \<and> src ! (k - 1) \<noteq> 0
                     then b[ck_pos ck + k := 0] else b)
     \<and> ck_pos ck' = ck_pos ck + k
     \<and> unat (ck_len ck') = (if 0 < k then max (unat (ck_len ck)) (ck_pos ck + k) else unat (ck_len ck))
     \<and> ck_size ck' = ck_size ck \<and> ck_bin ck' = ck_bin ck \<and> ck_own ck' = ck_own ck \<and> cookie_ok ck'"
proof -
  let ?lim = "ck_size ck - ck_off ck"
  let ?w = "if int_to_size n > ?lim then size_to_int ?lim else n"
  have le: "unat (ck_len ck) \<le> unat (ck_size ck)" "ck_pos ck \<le> unat (ck_size ck)"
      "unat (ck_size ck) \<le> length (ck_buf ck)" and off: "ck_off ck \<le> ck_size ck"
    using assms(1) by (simp_all add: cookie_ok_def word_le_nat_alt ck_pos_def)
  have lim: "unat ?lim = unat (ck_size ck) - ck_pos ck"
    unfolding ck_pos_def using off by (rule unat_sub_le)
  have w: "unat ?w = k" and ws: "unat (int_to_size ?w) = k"
    using io_count [OF assms(2), of ?lim] lim by (simp_all add: k_def)
  have kk: "k \<le> length src" "ck_pos ck + k \<le> unat (ck_size ck)" using assms(3) le by (auto simp: k_def)
  show ?thesis
  proof (cases "?w = 0")
    case True
    then have k0: "k = 0" using w by simp
    then have "b = ck_buf ck" by (simp add: b_def)
    then show ?thesis using True k0 assms(1) le by (simp add: fmemopen_write_def Let_def)
  next
    case False
    then have kpos: "0 < k" proof -
      have "unat ?w \<noteq> 0" using False by (simp only: unat_eq_zero not_False_eq_True)
      then show ?thesis by (simp only: w neq0_conv)
    qed
    let ?off = "ck_off ck + int_to_size ?w"
    have uoff: "unat ?off = ck_pos ck + k"
      using ws kk unat_add_bounded [of "ck_off ck" "int_to_size ?w" "ck_size ck"]
      by (simp only: ck_pos_def)
    have uoff1: "unat (?off - 1) = ck_pos ck + k - 1"
    proof -
      have "unat (1 :: size_t) \<le> unat ?off" using uoff kpos by simp
      then have "1 \<le> ?off" by (simp only: word_le_nat_alt)
      from unat_sub_le [OF this] show ?thesis by (simp only: uoff unat_1)
    qed
    let ?len = "if ?off > ck_len ck then ?off else ck_len ck"
    have ulen: "unat ?len = max (unat (ck_len ck)) (ck_pos ck + k)"
      using uoff by (auto simp: word_less_nat_alt)
    have s: "mslice src 0 (unat (int_to_size ?w)) = Some (take k src)"
      using kk ws by (simp add: mslice_ok)
    have bl: "mblit (ck_buf ck) (unat (ck_off ck)) (take k src) = Some b"
      using kk le by (simp add: mblit_ok b_def ck_pos_def)
    have lb: "length b = length (ck_buf ck)" using bl by (rule mblit_length)
    have rd: "mread b (unat (?off - 1)) = Some (src ! (k - 1))"
    proof -
      have "b ! (ck_pos ck + (k - 1)) = src ! (k - 1)"
        using mblit_nth_inside [OF bl, of "k - 1"] kk kpos by (simp add: ck_pos_def)
      then show ?thesis using uoff1 kpos kk le lb by (simp add: mread_ok)
    qed
    let ?b = "if \<not> ck_bin ck \<and> ck_pos ck + k < unat (ck_size ck) \<and> src ! (k - 1) \<noteq> 0
                     then b[ck_pos ck + k := 0] else b"
    have tail: "(if \<not> ck_bin ck \<and> ?off < ck_size ck
                 then do { c \<leftarrow> mread b (unat (?off - 1));
                           if c \<noteq> 0 then mwrite b (unat ?off) 0 else Some b }
                 else Some b) = Some ?b"
      unfolding rd using uoff le lb by (simp add: word_less_nat_alt mwrite_ok)
    let ?ck = "ck\<lparr>ck_buf := ?b, ck_off := ?off, ck_len := ?len\<rparr>"
    have run: "fmemopen_write ck src n = Some (?w, ?ck)"
      unfolding fmemopen_write_def Let_def using False s bl tail by simp
    have "cookie_ok ?ck"
      using le kk lb uoff ulen by (simp add: cookie_ok_def word_le_nat_alt)
    then show ?thesis
      using run w kpos uoff ulen by (intro exI [of _ ?ck] exI [of _ ?w]) (simp add: ck_pos_def)
  qed
qed


section \<open>Seeking\<close>

definition seek_base :: "fmemopen_cookie \<Rightarrow> whence \<Rightarrow> int" where
  "seek_base ck w = (case w of SEEK_CUR \<Rightarrow> uint (ck_off ck) | SEEK_END \<Rightarrow> uint (ck_len ck) | _ \<Rightarrow> 0)"

definition seek_limit :: "fmemopen_cookie \<Rightarrow> whence \<Rightarrow> int" where
  "seek_limit ck w = (if w = SEEK_END then uint (ck_len ck) else uint (ck_size ck))"

lemma uint_minus_nonpos:
  fixes x :: "64 word"
  assumes "sint x \<le> 0"
  shows "uint (- x) = - sint x"
proof -
  have r: "- (2 ^ 63) \<le> sint x" using sint_ge [of x] by simp
  have "- x = word_of_int (- sint x)" by simp
  then have "uint (- x) = (- sint x) mod 2 ^ 64" by (simp only: uint_of_int64)
  also have "\<dots> = - sint x" using r assms by (intro mod_pos_pos_trivial) simp_all
  finally show ?thesis .
qed

text \<open>\<open>fmemopen_seek\<close> moves to base plus offset when that lies between zero and the limit of
  the base (the size of the object for SEEK_SET and SEEK_CUR, the end of the data for SEEK_END)
  and fails with EINVAL otherwise, for negative offsets as for positive ones: none of the
  unsigned comparisons is fooled by wrap-around.\<close>

theorem fmemopen_seek_correct:
  fixes offset :: "64 word"
  assumes "cookie_ok ck" and "uint (ck_size ck) < 2 ^ 63" and "w \<noteq> Other_whence"
  defines "t \<equiv> seek_base ck w + sint offset"
  shows "fmemopen_seek ck offset w =
    (if 0 \<le> t \<and> t \<le> seek_limit ck w
     then Inr (word_of_int t, ck\<lparr>ck_off := word_of_int t\<rparr>) else Inl EINVAL)"
proof -
  have le: "uint (ck_len ck) \<le> uint (ck_size ck)" "uint (ck_off ck) \<le> uint (ck_size ck)"
    using assms(1) by (simp_all add: cookie_ok_def word_le_def)
  note r = sint_ge [of offset] sint_lt [of offset]
  show ?thesis
  proof (cases w)
    case SEEK_SET
    have "uint offset = (if 0 \<le> sint offset then sint offset else sint offset + 2 ^ 64)"
      using uint_add_sint [of 0 offset] by simp
    then show ?thesis using SEEK_SET assms(2) r
      by (auto simp: t_def fmemopen_seek_def seek_base_def seek_limit_def word_less_def)
  next
    case SEEK_CUR
    have "uint (ck_off ck + offset) = (if 0 \<le> uint (ck_off ck) + sint offset
        then uint (ck_off ck) + sint offset else uint (ck_off ck) + sint offset + 2 ^ 64)"
      using le assms(2) by (intro uint_add_sint) linarith
    then show ?thesis using SEEK_CUR assms(2) r
      by (auto simp: t_def fmemopen_seek_def seek_base_def seek_limit_def word_less_def)
         (insert uint_ge_0 [of "ck_off ck"], linarith)
  next
    case SEEK_END
    then show ?thesis using uint_minus_nonpos [of offset]
      by (auto simp: t_def fmemopen_seek_def seek_base_def seek_limit_def word_less_def word_sless_alt)
  next
    case Other_whence
    with assms(3) show ?thesis by simp
  qed
qed

lemma fmemopen_seek_ok:
  assumes "cookie_ok ck" and "fmemopen_seek ck offset w = Inr (t, ck')"
  shows "cookie_ok ck' \<and> ck_buf ck' = ck_buf ck \<and> ck_len ck' = ck_len ck \<and> ck_size ck' = ck_size ck"
proof (cases w)
  case SEEK_END
  then have "sint offset \<le> 0" "uint (- offset) \<le> uint (ck_len ck)"
    and ck': "ck' = ck\<lparr>ck_off := ck_len ck + offset\<rparr>"
    using assms(2) by (auto simp: fmemopen_seek_def word_sless_alt word_less_def split: if_splits)
  moreover have "ck_len ck + offset = ck_len ck - (- offset)" by simp
  moreover have "- offset \<le> ck_len ck" using calculation(2) by (simp add: word_le_def)
  ultimately have "ck_len ck + offset \<le> ck_len ck" by (metis word_sub_le)
  then show ?thesis using assms(1) ck' by (auto simp: cookie_ok_def)
qed (use assms in \<open>auto simp: fmemopen_seek_def cookie_ok_def not_less split: if_splits\<close>)


section \<open>Streams of writes and reads\<close>

definition fm_put :: "fmemopen_cookie \<Rightarrow> byte list \<Rightarrow> fmemopen_cookie option" where
  "fm_put ck xs = (case fmemopen_write ck xs (of_nat (length xs)) of
     None \<Rightarrow> None
   | Some (w, ck') \<Rightarrow> if unat w = length xs then Some ck' else None)"

definition fm_get :: "fmemopen_cookie \<Rightarrow> nat \<Rightarrow> (byte list \<times> fmemopen_cookie) option" where
  "fm_get ck n = (case fmemopen_read ck (of_nat n) of None \<Rightarrow> None | Some (xs, _, ck') \<Rightarrow> Some (xs, ck'))"

definition fm_rewind :: "fmemopen_cookie \<Rightarrow> nat \<Rightarrow> fmemopen_cookie option" where
  "fm_rewind ck p = (case fmemopen_seek ck (of_nat p) SEEK_SET of Inl _ \<Rightarrow> None | Inr (_, ck') \<Rightarrow> Some ck')"

definition fm_room :: "fmemopen_cookie \<Rightarrow> nat \<Rightarrow> bool" where
  "fm_room ck n \<longleftrightarrow> n < 2 ^ 31 \<and> ck_pos ck + n \<le> unat (ck_size ck)"

lemma unat_of_nat_small: "n < 2 ^ 31 \<Longrightarrow> unat (of_nat n :: u32) = n"
  by (simp add: unat_of_nat take_bit_eq_mod)

lemma fm_put_ok:
  assumes ok: "cookie_ok ck" and room: "fm_room ck (length xs)" and p: "ck_pos ck \<le> length (ck_data ck)"
    and m: "ck_bin ck \<or> ck_off ck = ck_len ck"
  shows "\<exists>ck'. fm_put ck xs = Some ck' \<and> cookie_ok ck' \<and> ck_bin ck' = ck_bin ck
    \<and> (ck_off ck = ck_len ck \<longrightarrow> ck_off ck' = ck_len ck')
    \<and> ck_data ck' = overwrite (ck_data ck) (ck_pos ck) xs \<and> ck_pos ck' = ck_pos ck + length xs
    \<and> ck_size ck' = ck_size ck"
proof -
  let ?n = "of_nat (length xs) :: u32"
  let ?b = "take (ck_pos ck) (ck_buf ck) @ xs @ drop (ck_pos ck + length xs) (ck_buf ck)"
  have n: "unat ?n = length xs" "unat ?n < 2 ^ 31"
    using room by (simp_all only: fm_room_def unat_of_nat_small)
  have k: "min (unat (ck_size ck) - ck_pos ck) (length xs) = length xs"
    using room unfolding fm_room_def by linarith
  have le: "unat (ck_len ck) \<le> length (ck_buf ck)" "ck_pos ck \<le> unat (ck_len ck)"
      "ck_pos ck + length xs \<le> length (ck_buf ck)"
    using ok p room by (auto simp: cookie_ok_def word_le_nat_alt ck_data_def fm_room_def)
  from fmemopen_write_inside [OF ok n(2), of xs] n(1) k obtain ck' w where
    w: "fmemopen_write ck xs ?n = Some (w, ck')" "unat w = length xs"
    and buf: "ck_buf ck' = (if 0 < length xs \<and> \<not> ck_bin ck \<and> ck_pos ck + length xs < unat (ck_size ck)
          \<and> xs ! (length xs - 1) \<noteq> 0 then ?b[ck_pos ck + length xs := 0] else ?b)"
    and pos: "ck_pos ck' = ck_pos ck + length xs"
    and len: "unat (ck_len ck') = (if 0 < length xs then max (unat (ck_len ck)) (ck_pos ck + length xs) else unat (ck_len ck))"
    and rest: "ck_size ck' = ck_size ck" "ck_bin ck' = ck_bin ck" "cookie_ok ck'"
    by auto
  have len': "unat (ck_len ck') = max (unat (ck_len ck)) (ck_pos ck + length xs)"
    using len le by (auto simp: max_def)
  have data: "ck_data ck' = take (max (unat (ck_len ck)) (ck_pos ck + length xs)) ?b"
  proof (cases "ck_bin ck")
    case True
    then show ?thesis using buf len' by (simp add: ck_data_def)
  next
    case False
    then have "ck_pos ck = unat (ck_len ck)" using m by (simp add: ck_pos_def)
    then show ?thesis using buf len' by (auto simp: ck_data_def)
  qed
  have e: "ck_off ck = ck_len ck \<longrightarrow> ck_off ck' = ck_len ck'"
  proof
    assume "ck_off ck = ck_len ck"
    then have "unat (ck_off ck') = unat (ck_len ck')" using len' pos by (simp add: ck_pos_def)
    then show "ck_off ck' = ck_len ck'" by (simp only: word_unat_eq_iff)
  qed
  from data take_overwrite [OF le(2,1,3)]
  have "ck_data ck' = overwrite (ck_data ck) (ck_pos ck) xs" by (simp add: ck_data_def)
  then show ?thesis using w rest pos e by (simp add: fm_put_def)
qed


lemma fm_rewind_ok:
  assumes "cookie_ok ck" and "p \<le> length (ck_data ck)"
  shows "fm_rewind ck p = Some (ck\<lparr>ck_off := of_nat p\<rparr>)" and "unat (of_nat p :: size_t) = p"
proof -
  have le: "p \<le> unat (ck_len ck)" "unat (ck_len ck) \<le> unat (ck_size ck)"
    using assms by (simp_all add: cookie_ok_def ck_data_def word_le_nat_alt)
  then have "p < 2 ^ 64" using unsigned_less [of "ck_len ck", where ?'a = nat] by simp
  then show u: "unat (of_nat p :: size_t) = p" by (simp add: unat_of_nat take_bit_eq_mod)
  then have "(of_nat p :: size_t) \<le> ck_size ck" using le by (simp only: word_le_nat_alt)
  then show "fm_rewind ck p = Some (ck\<lparr>ck_off := of_nat p\<rparr>)"
    by (simp add: fm_rewind_def fmemopen_seek_def)
qed

text \<open>A binary stream satisfies the whole contract, a text stream positioned at its end the
  writing half of it: the terminator it adds lies behind the data.\<close>

interpretation fm_bin: cookie_stream fm_put ck_data ck_pos "\<lambda>ck. cookie_ok ck \<and> ck_bin ck" fm_room
  fm_get fm_rewind "\<lambda>n. n < 2 ^ 31"
proof (unfold_locales, goal_cases)
  case (1 ck xs)
  then show ?case using fm_put_ok [of ck xs] by (auto simp: fm_room_def)
next
  case (2 ck n m)
  then show ?case by (simp add: fm_room_def)
next
  case (3 ck n)
  then have "ck_off ck \<le> ck_len ck"
    by (auto simp: cookie_ok_def ck_pos_def ck_data_def word_le_nat_alt)
  moreover have "unat (of_nat n :: u32) = n" using 3(3) by (rule unat_of_nat_small)
  ultimately obtain ck' k where
    "fmemopen_read ck (of_nat n) = Some (take n (drop (ck_pos ck) (ck_data ck)), k, ck')" "cookie_ok ck'"
    using fmemopen_read_inside [of ck "of_nat n"] 3 by auto
  moreover from this(1) have "ck_bin ck' = ck_bin ck"
    by (auto simp: fmemopen_read_def Let_def bind_eq_Some_conv split: if_splits)
  ultimately show ?case using 3 by (simp add: fm_get_def)
next
  case (4 ck p)
  then show ?case using fm_rewind_ok [of ck p]
    by (auto simp: cookie_ok_def ck_data_def ck_pos_def word_le_nat_alt)
qed

interpretation fm_text: cookie_writer fm_put ck_data ck_pos
  "\<lambda>ck. cookie_ok ck \<and> \<not> ck_bin ck \<and> ck_off ck = ck_len ck" fm_room
proof (unfold_locales, goal_cases)
  case (1 ck xs)
  then show ?case using fm_put_ok [of ck xs] by (auto simp: fm_room_def)
next
  case (2 ck n m)
  then show ?case by (simp add: fm_room_def)
qed

section \<open>Sessions\<close>

datatype fm_call = Fm_read u32 | Fm_write "byte list" u32 | Fm_seek "64 word" whence

fun fm_apply :: "fm_call \<Rightarrow> fmemopen_cookie \<Rightarrow> fmemopen_cookie option" where
  "fm_apply (Fm_read n) ck = (case fmemopen_read ck n of None \<Rightarrow> None | Some (_, _, ck') \<Rightarrow> Some ck')"
| "fm_apply (Fm_write src n) ck = (case fmemopen_write ck src n of None \<Rightarrow> None | Some (_, ck') \<Rightarrow> Some ck')"
| "fm_apply (Fm_seek p w) ck = (case fmemopen_seek ck p w of Inl _ \<Rightarrow> Some ck | Inr (_, ck') \<Rightarrow> Some ck')"

text \<open>
  The calls \<open>stdio\<close> may make: a non-negative count, a source that holds it, and for a read a
  position that is not behind the end of the data.
\<close>

fun fm_valid :: "fmemopen_cookie \<Rightarrow> fm_call \<Rightarrow> bool" where
  "fm_valid ck (Fm_read n) \<longleftrightarrow> unat n < 2 ^ 31 \<and> ck_off ck \<le> ck_len ck"
| "fm_valid ck (Fm_write src n) \<longleftrightarrow> unat n < 2 ^ 31 \<and> unat n \<le> length src"
| "fm_valid ck (Fm_seek p w) \<longleftrightarrow> True"

inductive fm_reach :: "fmemopen_cookie \<Rightarrow> fmemopen_cookie \<Rightarrow> bool" for ck0 where
  fm_start: "fm_reach ck0 ck0"
| fm_step: "fm_reach ck0 ck \<Longrightarrow> fm_valid ck c \<Longrightarrow> fm_apply c ck = Some ck' \<Longrightarrow> fm_reach ck0 ck'"

lemma fm_apply_ok:
  assumes "cookie_ok ck" and "fm_valid ck c"
  shows "\<exists>ck'. fm_apply c ck = Some ck' \<and> cookie_ok ck' \<and> ck_size ck' = ck_size ck"
proof (cases c)
  case (Fm_read n)
  with assms fmemopen_read_inside [of ck n] obtain ck' k where
    r: "fmemopen_read ck n = Some (take (unat n) (drop (ck_pos ck) (ck_data ck)), k, ck')" "cookie_ok ck'"
    by auto
  moreover from r(1) have "ck_size ck' = ck_size ck"
    by (auto simp: fmemopen_read_def Let_def bind_eq_Some_conv split: if_splits)
  ultimately show ?thesis using Fm_read by simp
next
  case (Fm_write src n)
  with assms have "unat n < 2 ^ 31" "unat n \<le> length src" by simp_all
  from fmemopen_write_inside [OF assms(1) this] obtain ck' w where
    "fmemopen_write ck src n = Some (w, ck')" "cookie_ok ck'" "ck_size ck' = ck_size ck" by blast
  then show ?thesis using Fm_write by simp
next
  case (Fm_seek p w)
  show ?thesis
  proof (cases "fmemopen_seek ck p w")
    case (Inl e)
    then show ?thesis using Fm_seek assms(1) by simp
  next
    case (Inr r)
    obtain t ck' where r: "r = (t, ck')" by (cases r)
    from fmemopen_seek_ok [OF assms(1) Inr [unfolded r]] show ?thesis using Fm_seek Inr r by simp
  qed
qed

lemma fm_reach_ok: "fm_reach ck0 ck \<Longrightarrow> cookie_ok ck0 \<Longrightarrow> cookie_ok ck \<and> ck_size ck = ck_size ck0"
proof (induction rule: fm_reach.induct)
  case (fm_step ck c ck')
  then show ?case using fm_apply_ok [of ck c] by auto
qed simp


text \<open>The object a stream works on: the caller's or the allocated one, emptied where \<open>fmemopen\<close> does so.\<close>

definition fm_object :: "(nat \<Rightarrow> byte list option) \<Rightarrow> byte list option \<Rightarrow> size_t \<Rightarrow> byte list \<Rightarrow> byte list" where
  "fm_object malloc buf sz mode =
     (let b = (case buf of Some b \<Rightarrow> b | None \<Rightarrow> the (malloc (unat sz)))
      in if buf = None \<or> mode0 mode = chr_w then b[0 := 0] else b)"

definition buf_fits :: "byte list option \<Rightarrow> size_t \<Rightarrow> bool" where
  "buf_fits buf sz = (case buf of Some b \<Rightarrow> unat sz \<le> length b | None \<Rightarrow> True)"

lemma fmemopen_ok:
  assumes "sz \<noteq> 0" and "sflags mode = Some flags" and "mode0 mode \<in> {chr_a, chr_r, chr_w}"
    and "allocator malloc" and "buf_fits buf sz"
    and run: "fmemopen malloc_ck malloc sflags funopen_ok buf sz mode = r"
  defines "obj \<equiv> fm_object malloc buf sz mode"
  shows "r \<noteq> None \<and> (\<forall>st. r = Some (Inr st) \<longrightarrow>
       cookie_ok (st_cookie st) \<and> ck_size (st_cookie st) = sz \<and> ck_buf (st_cookie st) = obj
     \<and> ck_bin (st_cookie st) = (chr_b \<in> set mode) \<and> ck_own (st_cookie st) = (buf = None)
     \<and> ck_data (st_cookie st) =
        (if mode0 mode = chr_a then str_upto obj 0 (unat sz)
         else if mode0 mode = chr_r then take (unat sz) obj else [])
     \<and> ck_pos (st_cookie st) = (if mode0 mode = chr_a then length (ck_data (st_cookie st)) else 0)
     \<and> st_append st = (mode0 mode = chr_a))"
proof (cases "(flags AND O_RDWR = 0 \<and> buf = None) \<or> \<not> malloc_ck \<or> (buf = None \<and> malloc (unat sz) = None)")
  case True
  then have "\<exists>e. fmemopen malloc_ck malloc sflags funopen_ok buf sz mode = Some (Inl e)"
    using assms(1,2) by (elim disjE conjE) (cases buf; simp add: fmemopen_def)+
  with run show ?thesis by auto
next
  case False
  have "unat sz \<noteq> 0" using assms(1) by (simp only: unat_eq_zero not_False_eq_True)
  then have sz: "0 < unat sz" by (simp only: neq0_conv)
  define b where "b = (case buf of Some b \<Rightarrow> b | None \<Rightarrow> the (malloc (unat sz)))"
  have b: "(case buf of Some b \<Rightarrow> Some b | None \<Rightarrow> malloc (unat sz)) = Some b"
    using False by (auto simp: b_def split: option.splits)
  have lb: "unat sz \<le> length b"
  proof (cases buf)
    case None
    then show ?thesis using b allocatorD [OF assms(4), of "unat sz" b] by simp
  next
    case (Some c)
    then show ?thesis using assms(5) by (simp add: b_def buf_fits_def)
  qed
  have obj: "(if buf = None \<or> mode0 mode = chr_w then mwrite b 0 0 else Some b) = Some obj"
    and lobj: "unat sz \<le> length obj"
    using lb order.strict_trans2 [OF sz lb]
    by (simp_all add: obj_def fm_object_def b_def [symmetric] mwrite_ok Let_def)
  have sc: "scannable obj 0 (unat sz)" using lobj by (simp add: scannable_def)
  define n where "n = scan_length obj 0 (unat sz)"
  have n: "strnlen obj 0 (unat sz) = Some n" "n \<le> unat sz"
    by (simp_all add: strnlen_spec [OF sc] n_def scan_length_le)
  have un: "unat (of_nat n :: size_t) = n"
    using n(2) unsigned_less [of sz, where ?'a = nat] by (simp add: unat_of_nat take_bit_eq_mod)
  have up: "take n obj = str_upto obj 0 (unat sz)"
    using str_upto_slice [OF sc] n_def by (auto dest!: mslice_SomeD)
  have m: "mode0 mode = chr_a \<or> mode0 mode = chr_r \<or> mode0 mode = chr_w" using assms(3) by simp
  have nf: "\<not> (flags AND O_RDWR = 0 \<and> buf = None)" "malloc_ck" using False by simp_all
  define l :: size_t where "l = (if mode0 mode = chr_a then of_nat n else if mode0 mode = chr_r then sz else 0)"
  have r: "r = Some (if \<not> funopen_ok then Inl Funopen_failed
           else Inr \<lparr>st_cookie = \<lparr>ck_buf = obj, ck_own = (buf = None), ck_bin = (chr_b \<in> set mode),
                                   ck_size = sz, ck_len = l, ck_off = (if mode0 mode = chr_a then l else 0)\<rparr>,
                         st_read = (flags AND O_WRONLY = 0),
                         st_write = (flags AND O_RDONLY = 0),
                         st_append = (mode0 mode = chr_a),
                         st_unbuffered = True\<rparr>)"
    unfolding run [symmetric] fmemopen_def using assms(1,2) nf m n(1)
    by (auto simp: Let_def b obj l_def)
  have l: "l \<le> sz" "take (unat l) obj =
         (if mode0 mode = chr_a then str_upto obj 0 (unat sz) else if mode0 mode = chr_r then take (unat sz) obj else [])"
    using un up n(2) by (simp_all add: l_def word_le_nat_alt)
  have la: "mode0 mode = chr_a \<Longrightarrow> unat l = length (str_upto obj 0 (unat sz))"
    using un by (simp add: l_def length_str_upto n_def)
  have "unat l \<le> length obj" using l(1) lobj by (simp add: word_le_nat_alt)
  then show ?thesis
    unfolding r using l lobj la by (auto simp: cookie_ok_def ck_data_def ck_pos_def split: if_splits)
qed

section \<open>Properties\<close>

text \<open>C2: A stream opened by \<open>fmemopen\<close> on an object of at least \<open>sz\<close> bytes stays inside it for a whole
  session: whatever valid calls were made before, the cookie keeps its bounds, and every further
  valid call (a write of any count, a seek to anywhere, a read that starts within the data) returns
  without an access outside the object.\<close>

theorem fmemopen_session_safe:
  assumes "sz \<noteq> 0" and "sflags mode = Some flags" and "mode0 mode \<in> {chr_a, chr_r, chr_w}"
    and "allocator malloc" and "buf_fits buf sz"
    and "fmemopen malloc_ck malloc sflags funopen_ok buf sz mode = Some (Inr st)"
    and "fm_reach (st_cookie st) ck"
  shows "cookie_ok ck \<and> ck_size ck = sz \<and> (\<forall>c. fm_valid ck c \<longrightarrow> fm_apply c ck \<noteq> None)"
proof -
  from fmemopen_ok [OF assms(1-6)]
  have "cookie_ok (st_cookie st)" "ck_size (st_cookie st) = sz" by simp_all
  with fm_reach_ok [OF assms(7)] fm_apply_ok [of ck] show ?thesis by fastforce
qed

text \<open>C23: On a binary stream, any run of writes that fits the object, followed by a seek back to where
  the run started and a read of the total length, delivers exactly the bytes written, however they
  were split into calls.\<close>

theorem fmemopen_write_read_roundtrip:
  assumes "cookie_ok ck" and "ck_bin ck" and "ck_pos ck \<le> length (ck_data ck)"
    and "length (concat xss) < 2 ^ 31" and "ck_pos ck + length (concat xss) \<le> unat (ck_size ck)"
  shows "\<exists>c1 c2 c3. write_all fm_put ck xss = Some c1 \<and> fm_rewind c1 (ck_pos ck) = Some c2
    \<and> fm_get c2 (length (concat xss)) = Some (concat xss, c3)"
  using fm_bin.write_rewind_read [of ck xss] assms by (simp add: fm_room_def)

text \<open>In text mode, writing at the end of the data appends: after any run of writes that fits, the data
  is the old data followed by the bytes written, and the position is again the end.\<close>

theorem fmemopen_text_append:
  assumes "cookie_ok ck" and "\<not> ck_bin ck" and "ck_off ck = ck_len ck"
    and "length (concat xss) < 2 ^ 31" and "ck_pos ck + length (concat xss) \<le> unat (ck_size ck)"
  shows "\<exists>ck'. write_all fm_put ck xss = Some ck' \<and> ck_data ck' = ck_data ck @ concat xss
    \<and> ck_off ck' = ck_len ck'"
proof -
  have "ck_pos ck = length (ck_data ck)"
    using assms(1,3) by (simp add: cookie_ok_def ck_pos_def ck_data_def word_le_nat_alt)
  with fm_text.write_all_ok [of ck xss] assms show ?thesis
    by (auto simp: fm_room_def overwrite_end)
qed

text \<open>When a seek has put the position behind the end of the data, which \<open>fmemopen_seek\<close> allows, the
  unsigned difference in \<open>fmemopen_read\<close> wraps and no longer limits the count: the read takes \<open>n\<close>
  bytes from beyond the data and is undefined when they reach past the object.\<close>

theorem fmemopen_read_past_data:
  assumes "cookie_ok ck" and "ck_len ck < ck_off ck" and "0 < unat n" and "unat n < 2 ^ 31"
    and "uint (ck_size ck) < 2 ^ 63"
  shows "fmemopen_read ck n =
    (if ck_pos ck + unat n \<le> length (ck_buf ck)
     then Some (take (unat n) (drop (ck_pos ck) (ck_buf ck)), n, ck\<lparr>ck_off := ck_off ck + int_to_size n\<rparr>)
     else None)"
proof -
  have n: "unat (int_to_size n) = unat n" using assms(4) by (rule unat_scast_small)
  have "unat (ck_len ck) < unat (ck_off ck)" "unat (ck_off ck) < 2 ^ 63"
    using assms(1,2,5) by (simp_all add: cookie_ok_def word_less_nat_alt word_le_nat_alt uint_nat del: of_nat_unat)
  then have "2 ^ 63 \<le> unat (ck_len ck - ck_off ck)"
    by (simp add: unat_sub_if_size word_size word_le_nat_alt)
  then have "\<not> int_to_size n > ck_len ck - ck_off ck" using n assms(4) by (simp add: word_less_nat_alt)
  moreover have "n \<noteq> 0" using assms(3) by auto
  ultimately show ?thesis
    using n by (simp add: fmemopen_read_def Let_def mslice_def ck_pos_def)
qed


section \<open>Instances\<close>

definition demo_ck :: "bool \<Rightarrow> size_t \<Rightarrow> size_t \<Rightarrow> fmemopen_cookie" where
  "demo_ck bin len off = \<lparr>ck_buf = [104, 105, 0, 0, 0, 0, 0, 0], ck_own = False, ck_bin = bin,
                          ck_size = 8, ck_len = len, ck_off = off\<rparr>"

lemma demo_ck_ok: "len \<le> 8 \<Longrightarrow> off \<le> 8 \<Longrightarrow> cookie_ok (demo_ck bin len off)"
  by (simp add: cookie_ok_def demo_ck_def)

theorem fmemopen_seek_correct_witness:
  "fmemopen_seek (demo_ck True 2 2) (- 1) SEEK_END =
     Inr (1, (demo_ck True 2 2)\<lparr>ck_off := 1\<rparr>) \<and> fmemopen_seek (demo_ck True 2 2) (- 3) SEEK_CUR = Inl EINVAL"
proof -
  have ok: "cookie_ok (demo_ck True 2 2)" "uint (ck_size (demo_ck True 2 2)) < 2 ^ 63"
    by (rule demo_ck_ok) (simp_all add: demo_ck_def)
  have s: "sint (- 1 :: 64 word) = - 1" "sint (- 3 :: 64 word) = - 3" by simp_all
  have w: "SEEK_END \<noteq> Other_whence" "SEEK_CUR \<noteq> Other_whence" by simp_all
  show ?thesis
    using fmemopen_seek_correct [OF ok w(1), of "- 1"] fmemopen_seek_correct [OF ok w(2), of "- 3"]
    by (simp add: s seek_base_def seek_limit_def demo_ck_def)
qed

definition demo_sflags :: "byte list \<Rightarrow> u32 option" where
  "demo_sflags mode = (if mode0 mode \<in> {chr_a, chr_r, chr_w} then Some O_RDWR else None)"

theorem fmemopen_session_safe_witness:
  "\<exists>st. fmemopen True calloc_list demo_sflags True None 8 [chr_w] = Some (Inr st)
     \<and> fm_apply (Fm_write [1, 2, 3] 3) (st_cookie st) \<noteq> None"
proof -
  have "\<exists>st. fmemopen True calloc_list demo_sflags True None 8 [chr_w] = Some (Inr st)"
    by (simp add: fmemopen_def demo_sflags_def mode0_def O_RDWR_def calloc_list_def mwrite_def)
  then obtain st where st: "fmemopen True calloc_list demo_sflags True None 8 [chr_w] = Some (Inr st)" ..
  have f: "demo_sflags [chr_w] = Some O_RDWR" "mode0 [chr_w] \<in> {chr_a, chr_r, chr_w}" "buf_fits None 8"
    by (simp_all add: demo_sflags_def mode0_def buf_fits_def)
  from fmemopen_session_safe [OF _ f(1,2) allocator_calloc_list f(3) st fm_start] st show ?thesis
    by (auto dest: spec [of _ "Fm_write [1, 2, 3] 3"])
qed

theorem fmemopen_write_read_roundtrip_witness:
  "\<exists>c1 c2 c3. write_all fm_put (demo_ck True 2 1) [[1, 2], [3]] = Some c1 \<and> fm_rewind c1 1 = Some c2
    \<and> fm_get c2 3 = Some ([1, 2, 3], c3)"
proof -
  have "ck_bin (demo_ck True 2 1)" "ck_pos (demo_ck True 2 1) = 1" "length (ck_data (demo_ck True 2 1)) = 2"
    "unat (ck_size (demo_ck True 2 1)) = 8"
    by (simp_all add: demo_ck_def ck_pos_def ck_data_def)
  with fmemopen_write_read_roundtrip [of "demo_ck True 2 1" "[[1, 2], [3]]"] demo_ck_ok [of 2 1 True]
  show ?thesis by (simp add: numeral_3_eq_3)
qed

theorem fmemopen_text_append_witness:
  "\<exists>ck'. write_all fm_put (demo_ck False 2 2) [[33], [34, 35]] = Some ck'
     \<and> ck_data ck' = [104, 105, 33, 34, 35] \<and> ck_off ck' = ck_len ck'"
proof -
  have "\<not> ck_bin (demo_ck False 2 2)" "ck_pos (demo_ck False 2 2) = 2" "ck_data (demo_ck False 2 2) = [104, 105]"
    "unat (ck_size (demo_ck False 2 2)) = 8" "ck_off (demo_ck False 2 2) = ck_len (demo_ck False 2 2)"
    by (simp_all add: demo_ck_def ck_pos_def ck_data_def)
  with fmemopen_text_append [of "demo_ck False 2 2" "[[33], [34, 35]]"] demo_ck_ok [of 2 2 False]
  show ?thesis by simp
qed

theorem fmemopen_read_past_data_witness:
  "fm_reach (demo_ck True 2 0) (demo_ck True 2 8) \<and> fmemopen_read (demo_ck True 2 8) 1 = None"
proof -
  have "fm_apply (Fm_seek 8 SEEK_SET) (demo_ck True 2 0) = Some (demo_ck True 2 8)"
    by (simp add: fmemopen_seek_def demo_ck_def)
  then have r: "fm_reach (demo_ck True 2 0) (demo_ck True 2 8)"
    by (rule fm_step [OF fm_start, rotated]) simp
  have "ck_len (demo_ck True 2 8) < ck_off (demo_ck True 2 8)" "uint (ck_size (demo_ck True 2 8)) < 2 ^ 63"
    "ck_pos (demo_ck True 2 8) = 8" "length (ck_buf (demo_ck True 2 8)) = 8"
    by (simp_all add: demo_ck_def ck_pos_def)
  with fmemopen_read_past_data [of "demo_ck True 2 8" 1] demo_ck_ok [of 2 8 True] r
  show ?thesis by simp
qed

end
