(* ===== verification/Mem_Stream.thy ===== *)
theory Mem_Stream
  imports Cookie_Stream
begin

text \<open>
  Model of \<open>src/memstream.c\<close>, the dynamic memory stream.  The three \<open>int\<close> fields are integers
  whose every arithmetic step is checked to stay in the range of a 32-bit \<open>int\<close>; file
  positions are checked 64-bit integers, converted to \<open>int\<close> by truncation where the code does
  so.  A block of memory is its identity and its bytes, so that the caller's \<open>*ptr\<close> can be
  compared with the block the stream writes to.  \<open>None\<close> stands for an undefined step (an access
  outside a block, a signed overflow), for a failed assertion and for a loop without end.
\<close>

section \<open>The stream and its operations\<close>

type_synonym block = "nat \<times> byte list"

record memstream =
  position :: int
  ms_size :: int
  capacity :: int
  contents :: "block option"
  ptr :: nat
  sizeloc :: size_t

text \<open>An index computed as an \<open>int\<close>: negative ones are before the block.\<close>

definition index :: "int \<Rightarrow> nat option" where
  "index i = (if 0 \<le> i then Some (nat i) else None)"

partial_function (option) grow_loop :: "int \<Rightarrow> int \<Rightarrow> int option" where
  "grow_loop newcap minsize =
     (if newcap \<le> minsize then do { newcap \<leftarrow> s32 (newcap * 2); grow_loop newcap minsize }
      else Some newcap)"

type_synonym realloc_fun = "block \<Rightarrow> nat \<Rightarrow> block option"

definition memstream_grow :: "realloc_fun \<Rightarrow> memstream \<Rightarrow> int \<Rightarrow> ((errno + int) \<times> memstream) option" where
  "memstream_grow realloc ms minsize =
     do { newcap \<leftarrow> s32 (capacity ms * 2);
          case contents ms of
            None \<Rightarrow> Some (Inl ENOMEM, ms)
          | Some c \<Rightarrow>
              do { newcap \<leftarrow> grow_loop newcap minsize;
                   n \<leftarrow> index newcap;
                   case realloc c n of
                     None \<Rightarrow> Some (Inl ENOMEM, ms\<lparr>contents := None\<rparr>)
                   | Some (a, b) \<Rightarrow>
                       do { i \<leftarrow> index (capacity ms);
                            k \<leftarrow> index (newcap - capacity ms);
                            b \<leftarrow> mfill b i k 0;
                            Some (Inr 0, ms\<lparr>contents := Some (a, b), capacity := newcap, ptr := a\<rparr>) } } }"

definition memstream_read :: "memstream \<Rightarrow> int \<Rightarrow> ((errno + byte list) \<times> memstream) option" where
  "memstream_read ms count =
     (case contents ms of
        None \<Rightarrow> Some (Inl ENOMEM, ms)
      | Some (a, b) \<Rightarrow>
          do { left \<leftarrow> s32 (ms_size ms - position ms);
               let n = min left count;
               if n < 1 then Some (Inr [], ms)
               else do { xs \<leftarrow> mslice b 0 (nat n);
                         p \<leftarrow> s32 (position ms + n);
                         Some (Inr xs, ms\<lparr>position := p\<rparr>) } })"

text \<open>The step \<open>write\<close> and \<open>seek\<close> share: the size follows the position.\<close>

definition extend_size :: "memstream \<Rightarrow> memstream" where
  "extend_size ms =
     (if ms_size ms < position ms
      then ms\<lparr>ms_size := position ms, sizeloc := word_of_int (position ms)\<rparr> else ms)"

text \<open>The assertions both make: the size is inside the block and is followed by a zero byte.\<close>

definition terminated :: "memstream \<Rightarrow> bool option" where
  "terminated ms =
     (if ms_size ms < capacity ms
      then (case contents ms of
              None \<Rightarrow> None
            | Some (a, b) \<Rightarrow> do { i \<leftarrow> index (ms_size ms); c \<leftarrow> mread b i;
                               if c = 0 then Some True else None })
      else None)"

definition memstream_write :: "realloc_fun \<Rightarrow> memstream \<Rightarrow> byte list \<Rightarrow> int \<Rightarrow> ((errno + int) \<times> memstream) option" where
  "memstream_write realloc ms buf count =
     (case contents ms of
        None \<Rightarrow> Some (Inl ENOMEM, ms)
      | Some c \<Rightarrow>
          do { e \<leftarrow> s32 (position ms + count);
               (r, ms) \<leftarrow> (if capacity ms \<le> e then memstream_grow realloc ms e else Some (Inr 0, ms));
               case r of
                 Inl err \<Rightarrow> Some (Inl err, ms)
               | Inr _ \<Rightarrow>
                   (case contents ms of
                      None \<Rightarrow> None
                    | Some (a, b) \<Rightarrow>
                        do { k \<leftarrow> index count;
                             xs \<leftarrow> mslice buf 0 k;
                             i \<leftarrow> index (position ms);
                             b \<leftarrow> mblit b i xs;
                             let ms = extend_size (ms\<lparr>contents := Some (a, b), position := e\<rparr>);
                             _ \<leftarrow> terminated ms;
                             Some (Inr count, ms) }) })"

definition memstream_seek :: "realloc_fun \<Rightarrow> memstream \<Rightarrow> int \<Rightarrow> whence \<Rightarrow> ((errno + int) \<times> memstream) option" where
  "memstream_seek realloc ms offset whence =
     (case contents ms of
        None \<Rightarrow> Some (Inl ENOMEM, ms)
      | Some c \<Rightarrow>
          (case (case whence of SEEK_SET \<Rightarrow> Inr offset
                 | SEEK_CUR \<Rightarrow> Inr (position ms + offset)
                 | SEEK_END \<Rightarrow> Inr (ms_size ms + offset)
                 | Other_whence \<Rightarrow> Inl EINVAL) of
             Inl err \<Rightarrow> Some (Inl err, ms)
           | Inr target \<Rightarrow>
               do { pos \<leftarrow> s64 target;
                    ms \<leftarrow> (if pos \<ge> capacity ms
                          then do { (_, ms) \<leftarrow> memstream_grow realloc ms (to_int32 pos); Some ms }
                          else Some ms);
                    let ms = extend_size (ms\<lparr>position := to_int32 pos\<rparr>);
                    _ \<leftarrow> terminated ms;
                    Some (Inr pos, ms) }))"

text \<open>\<open>memstream_close\<close> frees the cookie; what the caller's variables hold is in the result.\<close>

definition memstream_close :: "memstream \<Rightarrow> ((errno + int) \<times> memstream) option" where
  "memstream_close ms =
     (case contents ms of
        None \<Rightarrow> Some (Inl ENOMEM, ms)
      | Some (a, b) \<Rightarrow>
          do { let size = min (ms_size ms) (position ms);
               if size < capacity ms
               then do { i \<leftarrow> index size;
                         b \<leftarrow> mwrite b i 0;
                         Some (Inr 0, ms\<lparr>ms_size := size, ptr := a, sizeloc := word_of_int size,
                                         contents := Some (a, b)\<rparr>) }
               else None })"

text \<open>
  \<open>ptr_ok\<close> says that both of the caller's pointers are non-null, \<open>calloc_ms\<close> and \<open>calloc\<close>
  allocate the cookie and the first block, \<open>funopen\<close> makes the stream or fails with an error.
\<close>

definition open_memstream ::
  "bool \<Rightarrow> bool \<Rightarrow> (nat \<Rightarrow> block option) \<Rightarrow> errno option \<Rightarrow> errno + memstream" where
  "open_memstream ptr_ok calloc_ms calloc funopen =
     (if ptr_ok
      then if \<not> calloc_ms then Inl ENOMEM
           else (case calloc 4096 of
                   None \<Rightarrow> Inl ENOMEM
                 | Some (a, b) \<Rightarrow>
                     (case funopen of
                        Some e \<Rightarrow> Inl e
                      | None \<Rightarrow> Inr \<lparr>position = 0, ms_size = 0, capacity = 4096,
                                      contents = Some (a, b), ptr = a, sizeloc = 0\<rparr>))
      else Inl EINVAL)"

section \<open>The invariant\<close>

definition ms_block :: "memstream \<Rightarrow> byte list" where
  "ms_block ms = (case contents ms of None \<Rightarrow> [] | Some (a, b) \<Rightarrow> b)"

definition ms_ok :: "memstream \<Rightarrow> bool" where
  "ms_ok ms \<longleftrightarrow> contents ms = Some (ptr ms, ms_block ms)
     \<and> int (length (ms_block ms)) = capacity ms \<and> 4096 \<le> capacity ms \<and> capacity ms < 2 ^ 31
     \<and> 0 \<le> position ms \<and> position ms \<le> ms_size ms \<and> ms_size ms < capacity ms
     \<and> sizeloc ms = word_of_int (ms_size ms)
     \<and> drop (nat (ms_size ms)) (ms_block ms) = replicate (nat (capacity ms - ms_size ms)) 0"

definition ms_data :: "memstream \<Rightarrow> byte list" where
  "ms_data ms = take (nat (ms_size ms)) (ms_block ms)"

definition ms_pos :: "memstream \<Rightarrow> nat" where
  "ms_pos ms = nat (position ms)"

text \<open>The documented behaviour of \<open>realloc\<close> when it succeeds.\<close>

definition reallocates :: "realloc_fun \<Rightarrow> bool" where
  "reallocates ra \<longleftrightarrow> (\<forall>a b n. case ra (a, b) n of None \<Rightarrow> True
     | Some (a', b') \<Rightarrow> length b' = n \<and> take (length b) b' = take n b)"

lemma reallocatesD:
  "reallocates ra \<Longrightarrow> ra (a, b) n = Some (a', b') \<Longrightarrow> length b' = n \<and> take (length b) b' = take n b"
  unfolding reallocates_def by (drule spec [of _ a], drule spec [of _ b], drule spec [of _ n]) simp

text \<open>\<dots> and an allocator that does not run out.\<close>

definition plentiful :: "realloc_fun \<Rightarrow> bool" where
  "plentiful ra \<longleftrightarrow> (\<forall>a b n. ra (a, b) n \<noteq> None)"


lemma ms_okD:
  assumes "ms_ok ms"
  shows "contents ms = Some (ptr ms, ms_block ms)" and "length (ms_block ms) = nat (capacity ms)"
    and "0 \<le> position ms" and "position ms \<le> ms_size ms" and "ms_size ms < capacity ms"
    and "4096 \<le> capacity ms" and "capacity ms < 2 ^ 31"
    and "sizeloc ms = word_of_int (ms_size ms)"
    and "drop (nat (ms_size ms)) (ms_block ms) = replicate (nat (capacity ms - ms_size ms)) 0"
  using assms by (auto simp: ms_ok_def)

lemma length_ms_data: "ms_ok ms \<Longrightarrow> length (ms_data ms) = nat (ms_size ms)"
  using ms_okD [of ms] by (simp add: ms_data_def)

lemma ms_block_data: "ms_ok ms \<Longrightarrow> ms_block ms = ms_data ms @ replicate (nat (capacity ms - ms_size ms)) 0"
  using ms_okD(9) [of ms] append_take_drop_id [of "nat (ms_size ms)" "ms_block ms"]
  by (simp add: ms_data_def)

lemma grow_loop_ok:
  assumes "0 < n" and "minsize < 2 ^ 30"
  shows "\<exists>r. grow_loop n minsize = Some r \<and> minsize < r \<and> n \<le> r \<and> r \<le> max n (2 * minsize)"
  using assms(1)
proof (induction "nat (minsize + 1 - n)" arbitrary: n rule: less_induct)
  case less
  show ?case
  proof (cases "n \<le> minsize")
    case True
    have s: "s32 (n * 2) = Some (n * 2)" using True less.prems assms(2) by (intro s32_ok) simp_all
    have lt: "nat (minsize + 1 - n * 2) < nat (minsize + 1 - n)" using True less.prems by simp
    have "0 < n * 2" using less.prems by simp
    from less.hyps [OF lt this] obtain r where r: "grow_loop (n * 2) minsize = Some r" "minsize < r" "n * 2 \<le> r"
        "r \<le> max (n * 2) (2 * minsize)" by blast
    have "grow_loop n minsize = Some r"
      using True s r(1) by (simp add: grow_loop.simps [of n])
    moreover have "n \<le> r" "r \<le> max n (2 * minsize)" using r True less.prems by linarith+
    ultimately show ?thesis using r(2) by blast
  next
    case False
    then show ?thesis by (intro exI [of _ n]) (simp add: grow_loop.simps [of n])
  qed
qed

text \<open>Growing keeps the data and the invariant, or loses the block to a failed reallocation.\<close>

lemma memstream_grow_ok:
  assumes ok: "ms_ok ms" and ra: "reallocates ra" and cap: "capacity ms \<le> m" and m: "m < 2 ^ 30"
  shows "(\<exists>n. ra (ptr ms, ms_block ms) n = None \<and>
            memstream_grow ra ms m = Some (Inl ENOMEM, ms\<lparr>contents := None\<rparr>))
       \<or> (\<exists>ms'. memstream_grow ra ms m = Some (Inr 0, ms') \<and> ms_ok ms' \<and> m < capacity ms'
            \<and> ms_data ms' = ms_data ms \<and> position ms' = position ms \<and> ms_size ms' = ms_size ms)"
proof -
  note d = ms_okD [OF ok]
  have s: "s32 (capacity ms * 2) = Some (capacity ms * 2)"
    using d(6) cap m by (intro s32_ok) simp_all
  have "0 < capacity ms * 2" using d(6) by simp
  from grow_loop_ok [OF this m] obtain nc where nc: "grow_loop (capacity ms * 2) m = Some nc"
    "m < nc" "capacity ms * 2 \<le> nc" "nc \<le> max (capacity ms * 2) (2 * m)" by blast
  have nc31: "nc < 2 ^ 31" using nc(4) cap m by simp
  have i: "index nc = Some (nat nc)" "index (capacity ms) = Some (nat (capacity ms))"
    "index (nc - capacity ms) = Some (nat (nc - capacity ms))"
    using nc d(6) by (simp_all add: index_def)
  show ?thesis
  proof (cases "ra (ptr ms, ms_block ms) (nat nc)")
    case None
    then show ?thesis using s nc(1) i by (auto simp: memstream_grow_def d(1))
  next
    case (Some ab)
    then obtain a b where ab: "ra (ptr ms, ms_block ms) (nat nc) = Some (a, b)" by (cases ab) auto
    from ra have "length b = nat nc \<and> take (length (ms_block ms)) b = take (nat nc) (ms_block ms)"
      using ab by (rule reallocatesD)
    then have b: "length b = nat nc" "take (nat (capacity ms)) b = ms_block ms"
      using d(2,6) nc by simp_all
    define z where "z = ms_block ms @ replicate (nat (nc - capacity ms)) 0"
    have "nat (capacity ms) + nat (nc - capacity ms) = nat nc" using nc d(6) by simp
    then have f: "mfill b (nat (capacity ms)) (nat (nc - capacity ms)) 0 = Some z"
      using b by (simp add: mfill_def mblit_def z_def)
    let ?ms = "ms\<lparr>contents := Some (a, z), capacity := nc, ptr := a\<rparr>"
    have run: "memstream_grow ra ms m = Some (Inr 0, ?ms)"
      using s nc(1) i ab f by (simp add: memstream_grow_def d(1))
    have blk: "ms_block ?ms = z" by (simp add: ms_block_def)
    have len: "int (length z) = nc" using d(2,6) nc by (simp add: z_def)
    have "nat (capacity ms - ms_size ms) + nat (nc - capacity ms) = nat (nc - ms_size ms)"
      using nc d by simp
    then have "drop (nat (ms_size ms)) z = replicate (nat (nc - ms_size ms)) 0"
      using d by (simp add: z_def replicate_add [symmetric])
    then have "ms_ok ?ms" unfolding ms_ok_def blk using d nc nc31 len by simp
    moreover have "ms_data ?ms = ms_data ms"
      unfolding ms_data_def blk using d by (simp add: z_def)
    ultimately show ?thesis using run nc(2) by auto
  qed
qed


lemma drop_append_overwritten:
  fixes xs :: "'a list"
  assumes "p \<le> l" and "p + length xs \<le> length b"
  shows "drop (max l (p + length xs)) (take p b @ xs @ drop (p + length xs) b) = drop (max l (p + length xs)) b"
proof -
  have "max l (p + length xs) = p + length xs + (max l (p + length xs) - (p + length xs))" by simp
  then obtain k where k: "max l (p + length xs) = p + length xs + k" by blast
  show ?thesis unfolding k using assms by (simp add: ac_simps)
qed

text \<open>Writing inside the capacity.\<close>

lemma memstream_write_inside:
  assumes ok: "ms_ok ms" and room: "position ms + int (length xs) < capacity ms"
  shows "\<exists>ms'. memstream_write ra ms xs (int (length xs)) = Some (Inr (int (length xs)), ms')
    \<and> ms_ok ms' \<and> ms_data ms' = overwrite (ms_data ms) (ms_pos ms) xs
    \<and> position ms' = position ms + int (length xs)"
proof -
  note d = ms_okD [OF ok]
  let ?e = "position ms + int (length xs)"
  let ?p = "ms_pos ms"
  let ?sz = "if ms_size ms < ?e then ?e else ms_size ms"
  define b where "b = take ?p (ms_block ms) @ xs @ drop (?p + length xs) (ms_block ms)"
  have p: "position ms = int ?p" using d(3) by (simp add: ms_pos_def)
  have pl: "?p + length xs < length (ms_block ms)" using d(2) room p by simp
  have e: "s32 ?e = Some ?e" using d(3,7) room by (intro s32_ok) simp_all
  have ix: "index (position ms) = Some ?p" "index (int (length xs)) = Some (length xs)"
    using d(3) by (simp_all add: index_def ms_pos_def)
  have bl: "mblit (ms_block ms) ?p xs = Some b" using pl by (simp add: mblit_def b_def)
  have lb: "length b = length (ms_block ms)" using bl by (rule mblit_length)
  let ?ms = "ms\<lparr>contents := Some (ptr ms, b), position := ?e, ms_size := ?sz, sizeloc := word_of_int ?sz\<rparr>"
  have ext: "extend_size (ms\<lparr>contents := Some (ptr ms, b), position := ?e\<rparr>) = ?ms"
    using d(8) by (simp add: extend_size_def)
  have nsz: "nat ?sz = max (nat (ms_size ms)) (?p + length xs)" using p d(3,4) by (simp add: max_def) linarith
  have lsz: "nat (ms_size ms) \<le> length (ms_block ms)" "?p \<le> nat (ms_size ms)"
    using d p by simp_all
  have data: "take (nat ?sz) b = overwrite (ms_data ms) ?p xs"
    unfolding nsz b_def ms_data_def using lsz pl by (intro take_overwrite) simp_all
  have zero: "drop (nat ?sz) b = replicate (nat (capacity ms - ?sz)) 0"
  proof -
    have "drop (nat ?sz) b = drop (nat ?sz) (ms_block ms)"
      unfolding nsz b_def using lsz pl by (simp add: drop_append_overwritten)
    also have "\<dots> = drop (nat ?sz - nat (ms_size ms)) (drop (nat (ms_size ms)) (ms_block ms))"
      using d(3,4) by simp
    also have "\<dots> = replicate (nat (capacity ms - ?sz)) 0"
      unfolding d(9) using d(3,4,5) room by (auto simp: nat_diff_distrib)
    finally show ?thesis .
  qed
  have ok': "ms_ok ?ms"
    unfolding ms_ok_def using d room lb zero by (simp add: ms_block_def)
  have "terminated ?ms = Some True"
  proof -
    have i: "index ?sz = Some (nat ?sz)" using d(3,4) by (simp add: index_def)
    have lt: "nat ?sz < length b" using d room lb by simp
    then have "b ! nat ?sz = drop (nat ?sz) b ! 0" by simp
    then have "mread b (nat ?sz) = Some 0" using lt room d unfolding zero by (simp add: mread_def)
    then show ?thesis using i d room by (simp add: terminated_def)
  qed
  then have "memstream_write ra ms xs (int (length xs)) = Some (Inr (int (length xs)), ?ms)"
    using e room ix bl by (simp add: memstream_write_def d(1) ext Let_def mslice_def)
  moreover have "ms_data ?ms = overwrite (ms_data ms) (ms_pos ms) xs"
    using data by (simp add: ms_data_def ms_block_def)
  ultimately show ?thesis using ok' by auto
qed

lemma memstream_write_grown:
  assumes "ms_ok ms" and "ms_ok ms'" and "capacity ms \<le> position ms + n"
    and "memstream_grow ra ms (position ms + n) = Some (Inr 0, ms')"
    and "position ms' = position ms" and "position ms + n < capacity ms'"
  shows "memstream_write ra ms xs n = memstream_write ra ms' xs n"
proof (cases "s32 (position ms + n)")
  case None
  then show ?thesis
    using assms(5) by (simp add: memstream_write_def ms_okD(1) [OF assms(1)] ms_okD(1) [OF assms(2)])
next
  case (Some e)
  then have "s32 (position ms + n) = Some (position ms + n)" by (auto dest: s32_SomeD)
  then show ?thesis
    using assms(3-6) by (simp add: memstream_write_def ms_okD(1) [OF assms(1)] ms_okD(1) [OF assms(2)])
qed

text \<open>Writing anywhere: the data is overwritten, or the block is lost and the write reports it.\<close>

lemma memstream_write_ok:
  assumes ok: "ms_ok ms" and ra: "reallocates ra" and m: "position ms + int (length xs) < 2 ^ 30"
  shows "(\<exists>n ms'. ra (ptr ms, ms_block ms) n = None \<and>
            memstream_write ra ms xs (int (length xs)) = Some (Inl ENOMEM, ms') \<and> contents ms' = None)
       \<or> (\<exists>ms'. memstream_write ra ms xs (int (length xs)) = Some (Inr (int (length xs)), ms')
            \<and> ms_ok ms' \<and> ms_data ms' = overwrite (ms_data ms) (ms_pos ms) xs
            \<and> position ms' = position ms + int (length xs))"
proof (cases "capacity ms \<le> position ms + int (length xs)")
  case False
  then show ?thesis using memstream_write_inside [OF ok] by simp
next
  case True
  from memstream_grow_ok [OF ok ra True m] show ?thesis
  proof (elim disjE exE conjE)
    fix n
    assume "ra (ptr ms, ms_block ms) n = None"
      and g: "memstream_grow ra ms (position ms + int (length xs)) = Some (Inl ENOMEM, ms\<lparr>contents := None\<rparr>)"
    moreover have "s32 (position ms + int (length xs)) = Some (position ms + int (length xs))"
      using ms_okD(3) [OF ok] m by (intro s32_ok) simp_all
    ultimately show ?thesis
      using True by (auto simp: memstream_write_def ms_okD(1) [OF ok])
  next
    fix ms'
    assume g: "memstream_grow ra ms (position ms + int (length xs)) = Some (Inr 0, ms')" and ok': "ms_ok ms'"
      and room: "position ms + int (length xs) < capacity ms'"
      and same: "ms_data ms' = ms_data ms" "position ms' = position ms" "ms_size ms' = ms_size ms"
    from memstream_write_grown [OF ok ok' True g same(2) room]
      memstream_write_inside [OF ok', of xs ra] same room
    show ?thesis by (simp add: ms_pos_def)
  qed
qed


section \<open>Runs of writes\<close>

definition ms_put :: "realloc_fun \<Rightarrow> memstream \<Rightarrow> byte list \<Rightarrow> memstream option" where
  "ms_put ra ms xs = (case memstream_write ra ms xs (int (length xs)) of
     Some (Inr _, ms') \<Rightarrow> Some ms' | _ \<Rightarrow> None)"

interpretation ms: cookie_writer "ms_put ra" ms_data ms_pos
  "\<lambda>ms. ms_ok ms \<and> reallocates ra \<and> plentiful ra" "\<lambda>ms n. position ms + int n < 2 ^ 30" for ra
proof (unfold_locales, goal_cases)
  case (1 ms xs)
  then have "\<And>n. ra (ptr ms, ms_block ms) n \<noteq> None" by (simp add: plentiful_def)
  with memstream_write_ok [of ms ra xs] 1 obtain ms' where
    "memstream_write ra ms xs (int (length xs)) = Some (Inr (int (length xs)), ms')" and ok': "ms_ok ms'"
    and "ms_data ms' = overwrite (ms_data ms) (ms_pos ms) xs" "position ms' = position ms + int (length xs)"
    by blast
  moreover from this ms_okD(3) [of ms] 1 have "ms_pos ms' = ms_pos ms + length xs" by (simp add: ms_pos_def)
  ultimately show ?case using 1 by (simp add: ms_put_def)
next
  case (2 ms n m)
  then show ?case by simp
qed

text \<open>What \<open>calloc\<close> promises, for the first block of the stream.\<close>

definition callocates :: "(nat \<Rightarrow> block option) \<Rightarrow> bool" where
  "callocates ca \<longleftrightarrow> (\<forall>n a b. ca n = Some (a, b) \<longrightarrow> b = replicate n 0)"

lemma open_memstream_ok:
  assumes "callocates ca" and "open_memstream p c ca f = Inr ms"
  shows "ms_ok ms \<and> position ms = 0 \<and> ms_data ms = []"
proof -
  from assms(2) obtain a b where ab: "ca 4096 = Some (a, b)"
    and ms: "ms = \<lparr>position = 0, ms_size = 0, capacity = 4096, contents = Some (a, b), ptr = a, sizeloc = 0\<rparr>"
    by (auto simp: open_memstream_def split: if_splits option.splits)
  from assms(1) ab have "b = replicate 4096 0" by (simp add: callocates_def)
  then show ?thesis by (simp add: ms ms_ok_def ms_data_def ms_block_def)
qed

lemma memstream_close_ok:
  assumes "ms_ok ms" and "position ms = ms_size ms"
  shows "\<exists>ms' rest. memstream_close ms = Some (Inr 0, ms')
    \<and> contents ms' = Some (ptr ms', ms_data ms @ 0 # rest) \<and> sizeloc ms' = of_nat (length (ms_data ms))"
proof -
  note d = ms_okD [OF assms(1)]
  let ?n = "nat (ms_size ms)"
  have lt: "?n < length (ms_block ms)" using d by simp
  then have w: "mwrite (ms_block ms) ?n 0 = Some (ms_data ms @ 0 # drop (Suc ?n) (ms_block ms))"
    by (simp add: mwrite_ok ms_data_def upd_conv_take_nth_drop)
  have "word_of_int (ms_size ms) = (of_nat (length (ms_data ms)) :: size_t)"
    using d(3,4) by (simp add: length_ms_data [OF assms(1)])
  then show ?thesis
    using d w assms(2) by (simp add: memstream_close_def index_def)
qed

section \<open>Seeking\<close>

definition seek_from :: "memstream \<Rightarrow> whence \<Rightarrow> int" where
  "seek_from ms w = (case w of SEEK_CUR \<Rightarrow> position ms | SEEK_END \<Rightarrow> ms_size ms | _ \<Rightarrow> 0)"

lemma memstream_seek_eq:
  assumes "ms_ok ms" and "w \<noteq> Other_whence" and "t = seek_from ms w + offset"
    and "- 2147483648 \<le> t" and "t < 2147483648"
  shows "memstream_seek ra ms offset w =
     do { ms \<leftarrow> (if t \<ge> capacity ms then do { (_, ms) \<leftarrow> memstream_grow ra ms t; Some ms } else Some ms);
          let ms = extend_size (ms\<lparr>position := t\<rparr>);
          _ \<leftarrow> terminated ms;
          Some (Inr t, ms) }"
  using assms s64_ok [of t] to_int32_ok [of t] ms_okD(1) [OF assms(1)]
  by (cases w) (simp_all add: memstream_seek_def seek_from_def)

lemma terminated_ok: "ms_ok ms \<Longrightarrow> terminated ms = Some True"
proof -
  assume ok: "ms_ok ms"
  note d = ms_okD [OF ok]
  have lt: "nat (ms_size ms) < length (ms_block ms)" using d by simp
  then have "ms_block ms ! nat (ms_size ms) = drop (nat (ms_size ms)) (ms_block ms) ! 0" by simp
  then have "mread (ms_block ms) (nat (ms_size ms)) = Some 0"
    using lt d(3-5) unfolding d(9) by (simp add: mread_def)
  then show ?thesis using d by (simp add: terminated_def index_def)
qed

lemma extend_size_ok:
  assumes ok: "ms_ok ms" and t: "0 \<le> t" "t < capacity ms"
  shows "ms_ok (extend_size (ms\<lparr>position := t\<rparr>))
    \<and> ms_data (extend_size (ms\<lparr>position := t\<rparr>)) = ms_data ms @ replicate (nat (t - ms_size ms)) 0
    \<and> position (extend_size (ms\<lparr>position := t\<rparr>)) = t"
proof (cases "ms_size ms < t")
  case False
  then show ?thesis using ok t by (simp add: extend_size_def ms_ok_def ms_data_def ms_block_def)
next
  case True
  note d = ms_okD [OF ok]
  have b: "ms_block ms = ms_data ms @ replicate (nat (capacity ms - ms_size ms)) 0" by (rule ms_block_data [OF ok])
  have l: "length (ms_data ms) = nat (ms_size ms)" by (rule length_ms_data [OF ok])
  have "drop (nat t) (ms_block ms) = replicate (nat (capacity ms - t)) 0"
    "take (nat t) (ms_block ms) = ms_data ms @ replicate (nat (t - ms_size ms)) 0"
    unfolding b using l True t d(3-5) by (simp_all add: nat_diff_distrib min_def)
  moreover have "extend_size (ms\<lparr>position := t\<rparr>) = ms\<lparr>position := t, ms_size := t, sizeloc := word_of_int t\<rparr>"
    using True by (simp add: extend_size_def)
  moreover have "ms_block (ms\<lparr>position := t, ms_size := t, sizeloc := word_of_int t\<rparr>) = ms_block ms"
    by (simp add: ms_block_def)
  ultimately show ?thesis
    using t d(1,2,6,7) by (simp add: ms_ok_def ms_data_def)
qed


section \<open>Properties\<close>

text \<open>C1: After \<open>open_memstream\<close>, any run of writes and \<open>memstream_close\<close>, the caller's \<open>*ptr\<close> names the
  block that holds exactly the bytes written, in order, followed by a terminator, and \<open>*sizeloc\<close> is
  their number, however often the block had to be moved to grow.\<close>

theorem open_memstream_contract:
  assumes "open_memstream p c ca f = Inr ms" and "callocates ca"
    and "reallocates ra" and "plentiful ra" and "length (concat xss) < 2 ^ 30"
  shows "\<exists>ms' ms'' rest. write_all (ms_put ra) ms xss = Some ms' \<and> memstream_close ms' = Some (Inr 0, ms'')
    \<and> contents ms'' = Some (ptr ms'', concat xss @ 0 # rest)
    \<and> sizeloc ms'' = of_nat (length (concat xss))"
proof -
  from open_memstream_ok [OF assms(2,1)] have ok: "ms_ok ms" and p0: "position ms = 0" and e: "ms_data ms = []" by auto
  have pos: "ms_pos ms = 0" and "ms_pos ms \<le> length (ms_data ms)" using p0 by (simp_all add: ms_pos_def)
  with ms.write_all_ok [where s = ms and ra = ra and xss = xss] ok assms(3-5) p0 e
  obtain ms' where ms': "write_all (ms_put ra) ms xss = Some ms'" "ms_ok ms'"
    "ms_data ms' = concat xss" "ms_pos ms' = length (concat xss)" by (auto simp: overwrite_def)
  have "position ms' = ms_size ms'"
    using ms'(2,3,4) length_ms_data [OF ms'(2)] ms_okD(3,4) [OF ms'(2)] by (simp add: ms_pos_def)
  from memstream_close_ok [OF ms'(2) this] ms' show ?thesis by auto
qed

text \<open>A seek to any position below the largest size keeps the stream well formed: the position is the
  target, the data is extended by zero bytes up to it, and the caller's size follows.\<close>

theorem memstream_seek_correct:
  assumes "ms_ok ms" and "reallocates ra" and "plentiful ra" and "w \<noteq> Other_whence"
    and "t = seek_from ms w + offset" and "0 \<le> t" and "t < 2 ^ 30"
  shows "\<exists>ms'. memstream_seek ra ms offset w = Some (Inr t, ms') \<and> ms_ok ms' \<and> position ms' = t
    \<and> ms_data ms' = ms_data ms @ replicate (nat (t - ms_size ms)) 0"
proof -
  have r: "- 2147483648 \<le> t" "t < 2147483648" using assms(6,7) by simp_all
  note eq = memstream_seek_eq [OF assms(1,4,5) r, of ra]
  show ?thesis
  proof (cases "t \<ge> capacity ms")
    case False
    then show ?thesis
      using extend_size_ok [OF assms(1,6)] terminated_ok by (simp add: eq Let_def)
  next
    case True
    have "\<And>n. ra (ptr ms, ms_block ms) n \<noteq> None" using assms(3) by (simp add: plentiful_def)
    with memstream_grow_ok [OF assms(1,2) True assms(7)] obtain ms1 where
      g: "memstream_grow ra ms t = Some (Inr 0, ms1)" "ms_ok ms1" "t < capacity ms1"
      "ms_data ms1 = ms_data ms" "ms_size ms1 = ms_size ms" by blast
    from extend_size_ok [OF g(2) assms(6) g(3)] terminated_ok g True show ?thesis
      by (simp add: eq Let_def)
  qed
qed

text \<open>\<open>memstream_read\<close> limits its count by the distance from the position to the end and advances the
  position, but it copies from the start of the contents: what it delivers does not depend on where
  the stream is.\<close>

theorem memstream_read_ignores_position:
  assumes "ms_ok ms" and "0 < n" and "int n \<le> ms_size ms - position ms"
  shows "memstream_read ms (int n) = Some (Inr (take n (ms_data ms)), ms\<lparr>position := position ms + int n\<rparr>)"
proof -
  note d = ms_okD [OF assms(1)]
  have s: "s32 (ms_size ms - position ms) = Some (ms_size ms - position ms)"
    "s32 (position ms + int n) = Some (position ms + int n)"
    using d assms(3) by (simp_all add: s32_def)
  have m: "min (ms_size ms - position ms) (int n) = int n" using assms(3) by simp
  have len: "n \<le> length (ms_block ms)" "n \<le> nat (ms_size ms)" using assms(3) d by linarith+
  then show ?thesis
    using assms(2) m s by (simp add: memstream_read_def d(1) mslice_def ms_data_def min_absorb1)
qed

text \<open>\<open>memstream_seek\<close> accepts a negative target, and the next write then stores in front of the
  block.\<close>

theorem memstream_negative_seek:
  assumes "ms_ok ms" and "w \<noteq> Other_whence" and "t = seek_from ms w + offset" and "- (2 ^ 31) \<le> t" and "t < 0"
    and "0 \<le> n" and "n < 2 ^ 31"
  shows "memstream_seek ra ms offset w = Some (Inr t, ms\<lparr>position := t\<rparr>)
    \<and> (t + n < capacity ms \<longrightarrow> memstream_write ra (ms\<lparr>position := t\<rparr>) xs n = None)"
proof -
  note d = ms_okD [OF assms(1)]
  have t: "- 2147483648 \<le> t" "t < 2147483648" "\<not> t \<ge> capacity ms" using assms(4,5) d(6) by simp_all
  have ext: "extend_size (ms\<lparr>position := t\<rparr>) = ms\<lparr>position := t\<rparr>"
    using assms(5) d(3,4) by (simp add: extend_size_def)
  have "terminated (ms\<lparr>position := t\<rparr>) = terminated ms"
    by (simp add: terminated_def cong: option.case_cong)
  then have "memstream_seek ra ms offset w = Some (Inr t, ms\<lparr>position := t\<rparr>)"
    using t terminated_ok [OF assms(1)] by (simp add: memstream_seek_eq [OF assms(1-3) t(1,2)] ext Let_def)
  moreover have "memstream_write ra (ms\<lparr>position := t\<rparr>) xs n = None" if "t + n < capacity ms"
  proof (cases "s32 (t + n)")
    case (Some e)
    then have "e = t + n" by (auto dest: s32_SomeD)
    then show ?thesis using Some that assms(5)
      by (cases "index n"; cases "mslice xs 0 (nat n)")
         (simp_all add: memstream_write_def d(1) index_def split: if_splits)
  qed (simp add: memstream_write_def d(1))
  ultimately show ?thesis by blast
qed


section \<open>Instances\<close>

text \<open>An allocator that always moves the block, and one that zeroes the first.\<close>

definition demo_realloc :: realloc_fun where
  "demo_realloc c n = Some (Suc (fst c), take n (snd c) @ replicate (n - length (snd c)) 7)"

definition demo_calloc :: "nat \<Rightarrow> block option" where
  "demo_calloc n = Some (0, replicate n 0)"

lemma demo_alloc: "reallocates demo_realloc" "plentiful demo_realloc" "callocates demo_calloc"
  by (simp_all add: reallocates_def plentiful_def callocates_def demo_realloc_def demo_calloc_def min_def)

definition demo_ms :: memstream where
  "demo_ms = \<lparr>position = 0, ms_size = 0, capacity = 4096, contents = Some (0, replicate 4096 0), ptr = 0, sizeloc = 0\<rparr>"

lemma demo_open: "open_memstream True True demo_calloc None = Inr demo_ms"
  by (simp add: open_memstream_def demo_calloc_def demo_ms_def)

lemma demo_ms_ok: "ms_ok demo_ms"
  using open_memstream_ok [OF demo_alloc(3) demo_open] by simp

definition demo_ms2 :: memstream where
  "demo_ms2 = demo_ms\<lparr>contents := Some (0, 104 # 105 # replicate 4094 0), ms_size := 2, position := 1, sizeloc := 2\<rparr>"

lemma demo_ms2_ok: "ms_ok demo_ms2"
  by (simp add: ms_ok_def demo_ms2_def demo_ms_def ms_block_def)

theorem open_memstream_contract_witness:
  "\<exists>ms' ms'' rest. write_all (ms_put demo_realloc) demo_ms [[104, 105], replicate 5000 33] = Some ms'
    \<and> memstream_close ms' = Some (Inr 0, ms'')
    \<and> contents ms'' = Some (ptr ms'', (104 # 105 # replicate 5000 33) @ 0 # rest) \<and> sizeloc ms'' = 5002"
proof -
  have l: "length (concat [[104, 105], replicate 5000 (33 :: byte)]) = 5002" by simp
  have "length (concat [[104, 105], replicate 5000 (33 :: byte)]) < 2 ^ 30" unfolding l by simp
  from open_memstream_contract [OF demo_open demo_alloc(3,1,2) this]
  show ?thesis unfolding l by simp
qed

theorem memstream_seek_correct_witness:
  "\<exists>ms'. memstream_seek demo_realloc demo_ms 5000 SEEK_CUR = Some (Inr 5000, ms') \<and> ms_ok ms'
     \<and> position ms' = 5000 \<and> ms_data ms' = ms_data demo_ms @ replicate (nat (5000 - ms_size demo_ms)) 0"
proof -
  have "SEEK_CUR \<noteq> Other_whence" "(5000 :: int) = seek_from demo_ms SEEK_CUR + 5000" "(0 :: int) \<le> 5000"
    "(5000 :: int) < 2 ^ 30"
    by (simp_all add: seek_from_def demo_ms_def)
  from memstream_seek_correct [OF demo_ms_ok demo_alloc(1,2) this] show ?thesis .
qed

theorem memstream_read_ignores_position_witness:
  "memstream_read demo_ms2 1 = Some (Inr [104], demo_ms2\<lparr>position := 2\<rparr>)"
proof -
  have "position demo_ms2 = 1" "ms_size demo_ms2 = 2" "ms_data demo_ms2 = [104, 105]"
    by (simp_all add: demo_ms2_def demo_ms_def ms_data_def ms_block_def)
  with memstream_read_ignores_position [OF demo_ms2_ok, of 1] show ?thesis by simp
qed

theorem memstream_negative_seek_witness:
  "memstream_seek demo_realloc demo_ms2 (- 5) SEEK_CUR = Some (Inr (- 4), demo_ms2\<lparr>position := - 4\<rparr>)
   \<and> memstream_write demo_realloc (demo_ms2\<lparr>position := - 4\<rparr>) [1, 2] 2 = None"
proof -
  have "SEEK_CUR \<noteq> Other_whence" "- 4 = seek_from demo_ms2 SEEK_CUR + - 5" "- (2 ^ 31) \<le> (- 4 :: int)"
    "(- 4 :: int) < 0" "(0 :: int) \<le> 2" "(2 :: int) < 2 ^ 31" "- 4 + 2 < capacity demo_ms2"
    by (simp_all add: seek_from_def demo_ms2_def demo_ms_def)
  with memstream_negative_seek [OF demo_ms2_ok, of SEEK_CUR "- 4" "- 5" 2 demo_realloc "[1, 2]"]
  show ?thesis by simp
qed

end
