(* ===== verification/Mach_Scale.thy ===== *)
theory Mach_Scale
  imports Legacy_Prelude
begin

text \<open>
  Model of the time scaling in \<open>src/time.c\<close> (lines 474 to 592): the cached scale factors and
  their setup, the 64 by 64 bit multiplication, and the conversions from mach units to
  nanoseconds and from nanoseconds to seconds.  All of it is unsigned arithmetic at the width
  the code uses.
\<close>

section \<open>The cached scale\<close>

definition EXTRA_SHIFT :: nat where "EXTRA_SHIFT = 2"
definition HIGH_SHIFT :: nat where "HIGH_SHIFT = 32 + EXTRA_SHIFT"
definition HIGH_BITS :: nat where "HIGH_BITS = 64 - HIGH_SHIFT"
definition NUMERATOR_MASK :: u32 where "NUMERATOR_MASK = push_bit HIGH_BITS (NOT 0)"
definition NULL_SCALE :: u64 where "NULL_SCALE = push_bit HIGH_SHIFT 1"

record scale =
  numer :: u32
  denom :: u32
  mach_mult :: u64
  res_nsec :: u64

definition scale0 :: scale where
  "scale0 = \<lparr>numer = 0, denom = 0, mach_mult = 0, res_nsec = 0\<rparr>"

text \<open>\<open>timebase\<close> is what \<open>mach_timebase_info\<close> answers, if it succeeds.\<close>

definition get_mach_scale :: "(u32 \<times> u32) option \<Rightarrow> scale \<Rightarrow> int \<times> scale" where
  "get_mach_scale timebase s =
     (if numer s \<noteq> 0 then (0, s)
      else case timebase of
        None \<Rightarrow> (-1, s\<lparr>numer := 0, denom := 1\<rparr>)
      | Some (n, d) \<Rightarrow> (0, s\<lparr>numer := n, denom := d\<rparr>))"

definition mult_of :: "u32 \<Rightarrow> u32 \<Rightarrow> u64" where
  "mult_of n d =
     (if n AND NUMERATOR_MASK = 0
      then (push_bit HIGH_SHIFT (ucast n) + ucast (d div 2)) div ucast d
      else push_bit EXTRA_SHIFT ((push_bit 32 (ucast n) + ucast (d div 2)) div ucast d))"

text \<open>A zero denominator, which the system never reports, would be a division by zero.\<close>

definition setup_mach_mult :: "(u32 \<times> u32) option \<Rightarrow> scale \<Rightarrow> (int \<times> scale) option" where
  "setup_mach_mult timebase s =
     (let (ret, s) = get_mach_scale timebase s
      in if denom s = 0 then None
         else let m = mult_of (numer s) (denom s)
              in Some (ret, s\<lparr>mach_mult := m, res_nsec := drop_bit HIGH_SHIFT (m + (NULL_SCALE - 1))\<rparr>))"

section \<open>Conversions\<close>

definition MASK64LOW :: u64 where "MASK64LOW = 0xFFFFFFFF"

definition mmul64 :: "u64 \<Rightarrow> u64 \<Rightarrow> u64" where
  "mmul64 a b =
     (let a_hi = ucast (drop_bit 32 a) :: u32; a_lo = ucast a :: u32;
          b_hi = ucast (drop_bit 32 b) :: u32; b_lo = ucast b :: u32;
          low = ucast a_lo * ucast b_lo :: u64;
          mid1 = ucast a_lo * ucast b_hi :: u64;
          mid2 = ucast a_hi * ucast b_lo :: u64;
          high = ucast a_hi * ucast b_hi :: u64;
          mid1 = mid1 + ((mid2 AND MASK64LOW) + drop_bit 32 low);
          high = high + (drop_bit 32 mid1 + drop_bit 32 mid2)
      in push_bit 32 high + (mid1 AND MASK64LOW))"

definition mach2nanos :: "u64 \<Rightarrow> u64 \<Rightarrow> u64" where
  "mach2nanos mult mach_time =
     (if mult = NULL_SCALE then mach_time else drop_bit EXTRA_SHIFT (mmul64 mach_time mult))"

record timespec =
  tv_sec :: u64
  tv_nsec :: u64

definition nanos2timespec :: "u64 \<Rightarrow> timespec" where
  "nanos2timespec nanos =
     (let secs = nanos div 1000000000;
          lownanos = ucast nanos :: u32; lowsecs = ucast secs :: u32;
          nanorem = lownanos - lowsecs * 1000000000
      in \<lparr>tv_sec = secs, tv_nsec = ucast nanorem\<rparr>)"

definition mach2timespec :: "u64 \<Rightarrow> u64 \<Rightarrow> timespec" where
  "mach2timespec mult mach_time = nanos2timespec (mach2nanos mult mach_time)"

section \<open>The multiplication\<close>

lemma len_num64: "LENGTH(64) = 64" "LENGTH(32) = 32"
  by simp_all

lemma unat_drop32: "unat (drop_bit 32 (a :: u64)) = unat a div 2 ^ 32"
  by (simp add: drop_bit_eq_div unat_div)

lemma unat_hi: "unat (ucast (drop_bit 32 (a :: u64)) :: u32) = unat a div 2 ^ 32"
proof -
  have "unat a < 2 ^ 64" by (rule unat_less_64)
  then have "unat a div 2 ^ 32 < 2 ^ 32" by (simp add: less_mult_imp_div_less)
  then have "take_bit 32 (unat a div 2 ^ 32) = unat a div 2 ^ 32" by (rule take_bit_nat_eq_self)
  then show ?thesis by (simp only: unsigned_ucast_eq unat_drop32 len_num64)
qed

lemma unat_lo: "unat (ucast (a :: u64) :: u32) = unat a mod 2 ^ 32"
  by (simp add: unsigned_ucast_eq take_bit_eq_mod)

lemma unat_cross: "unat (ucast (x :: u32) * ucast (y :: u32) :: u64) = unat x * unat y"
proof -
  have "unat x < 2 ^ 32" "unat y < 2 ^ 32" by (rule unat_less_32)+
  then have "unat x * unat y < 2 ^ 32 * 2 ^ 32" by (intro mult_strict_mono) simp_all
  then have "unat x * unat y < 2 ^ 64" by simp
  moreover have "unat (ucast z :: u64) = unat z" for z :: u32
    using unat_less_32 [of z] by (simp add: unsigned_ucast_eq take_bit_nat_eq_self)
  ultimately show ?thesis by (simp add: unat_word_ariths)
qed


lemma word_of_unat: "unat (w :: u64) = n \<Longrightarrow> w = of_nat n"
  by auto

lemma unat_add_ok64: "unat (a :: u64) + unat b < 2 ^ 64 \<Longrightarrow> unat (a + b) = unat a + unat b"
  by (simp add: unat_word_ariths take_bit_nat_eq_self)

lemma unat_mask64low: "unat (a AND MASK64LOW) = unat a mod 2 ^ 32"
proof -
  have "a AND MASK64LOW = take_bit 32 a" by (simp add: MASK64LOW_def take_bit_eq_mask mask_eq_exp_minus_1)
  then show ?thesis by (simp add: take_bit_eq_mod unat_mod)
qed

text \<open>The schoolbook identity behind the four cross products.\<close>

lemma cross_products:
  fixes ah al bh bl :: nat
  shows "((ah * 2 ^ 32 + al) * (bh * 2 ^ 32 + bl)) div 2 ^ 32 =
     (ah * bh + (ah * bl) div 2 ^ 32) * 2 ^ 32 + (al * bh + ((ah * bl) mod 2 ^ 32 + (al * bl) div 2 ^ 32))"
proof -
  have "(ah * 2 ^ 32 + al) * (bh * 2 ^ 32 + bl) = (ah * bh * 2 ^ 32 + al * bh + ah * bl) * 2 ^ 32 + al * bl"
    by (simp add: algebra_simps)
  then have "((ah * 2 ^ 32 + al) * (bh * 2 ^ 32 + bl)) div 2 ^ 32 =
      ah * bh * 2 ^ 32 + al * bh + ah * bl + (al * bl) div 2 ^ 32" by simp
  moreover have "ah * bl = (ah * bl) div 2 ^ 32 * 2 ^ 32 + (ah * bl) mod 2 ^ 32" by simp
  ultimately show ?thesis by (simp only: algebra_simps)
qed

lemma unat_mmul64: "unat (mmul64 a b) = (unat a * unat b) div 2 ^ 32 mod 2 ^ 64"
proof -
  define ah al bh bl where "ah = unat a div 2 ^ 32" and "al = unat a mod 2 ^ 32"
    and "bh = unat b div 2 ^ 32" and "bl = unat b mod 2 ^ 32"
  note halves = ah_def [symmetric] al_def [symmetric] bh_def [symmetric] bl_def [symmetric]
  let ?ah = "ucast (drop_bit 32 a) :: u32" and ?al = "ucast a :: u32"
  let ?bh = "ucast (drop_bit 32 b) :: u32" and ?bl = "ucast b :: u32"
  have u: "unat ?ah = ah" "unat ?al = al" "unat ?bh = bh" "unat ?bl = bl"
    by (simp_all only: unat_hi unat_lo [of a] unat_lo [of b] halves)
  have lt: "ah \<le> 2 ^ 32 - 1" "al \<le> 2 ^ 32 - 1" "bh \<le> 2 ^ 32 - 1" "bl \<le> 2 ^ 32 - 1"
    using u unat_less_32 [of ?ah] unat_less_32 [of ?al] unat_less_32 [of ?bh] unat_less_32 [of ?bl] by simp_all
  let ?low = "ucast ?al * ucast ?bl :: u64" and ?mid1 = "ucast ?al * ucast ?bh :: u64"
  let ?mid2 = "ucast ?ah * ucast ?bl :: u64" and ?high = "ucast ?ah * ucast ?bh :: u64"
  have p: "unat ?low = al * bl" "unat ?mid1 = al * bh" "unat ?mid2 = ah * bl" "unat ?high = ah * bh"
    by (simp_all only: unat_cross u)
  have low32: "(al * bl) div 2 ^ 32 \<le> 2 ^ 32 - 1"
    using unat_less_64 [of ?low] p by (simp add: less_mult_imp_div_less)
  have mid: "al * bh \<le> (2 ^ 32 - 1) * (2 ^ 32 - 1)" using lt by (intro mult_le_mono)
  have m2: "(ah * bl) mod 2 ^ 32 \<le> 2 ^ 32 - 1" by simp
  let ?s = "(?mid2 AND MASK64LOW) + drop_bit 32 ?low"
  have s: "unat ?s = (ah * bl) mod 2 ^ 32 + (al * bl) div 2 ^ 32"
    using low32 m2 by (subst unat_add_ok64) (simp_all only: unat_mask64low unat_drop32 p, simp)
  let ?m = "?mid1 + ?s"
  define m where "m = al * bh + ((ah * bl) mod 2 ^ 32 + (al * bl) div 2 ^ 32)"
  have m: "unat ?m = m"
    using low32 mid m2 by (subst unat_add_ok64) (simp_all only: s p m_def, simp)
  let ?h = "?high + (drop_bit 32 ?m + drop_bit 32 ?mid2)"
  define h where "h = ah * bh + (m div 2 ^ 32 + (ah * bl) div 2 ^ 32)"
  have "?high = of_nat (ah * bh)" "drop_bit 32 ?m = of_nat (m div 2 ^ 32)"
    "drop_bit 32 ?mid2 = of_nat ((ah * bl) div 2 ^ 32)"
    by (rule word_of_unat, simp only: unat_drop32 m p)+
  then have h: "?h = of_nat h" unfolding h_def by (simp only: of_nat_add)
  have lo: "?m AND MASK64LOW = of_nat (m mod 2 ^ 32)"
    by (rule word_of_unat) (simp only: unat_mask64low m)
  have "mmul64 a b = push_bit 32 ?h + (?m AND MASK64LOW)"
    unfolding mmul64_def Let_def by (rule refl)
  also have "\<dots> = of_nat (h * 2 ^ 32 + m mod 2 ^ 32)"
    unfolding h lo by (simp only: push_bit_eq_mult of_nat_add of_nat_mult of_nat_power of_nat_numeral)
  finally have "unat (mmul64 a b) = (h * 2 ^ 32 + m mod 2 ^ 32) mod 2 ^ 64"
    by (simp only: unat_of_nat len_num64)
  also have "h * 2 ^ 32 + m mod 2 ^ 32 = (ah * bh + (ah * bl) div 2 ^ 32) * 2 ^ 32 + m"
    unfolding h_def using div_mult_mod_eq [of m "2 ^ 32"] by (simp only: algebra_simps)
  also have "\<dots> = ((ah * 2 ^ 32 + al) * (bh * 2 ^ 32 + bl)) div 2 ^ 32"
    unfolding m_def by (rule cross_products [symmetric])
  also have "ah * 2 ^ 32 + al = unat a" unfolding ah_def al_def by (rule div_mult_mod_eq)
  also have "bh * 2 ^ 32 + bl = unat b" unfolding bh_def bl_def by (rule div_mult_mod_eq)
  finally show ?thesis .
qed


section \<open>Seconds and nanoseconds\<close>

lemma unat_ucast_up: "unat (ucast (x :: u32) :: u64) = unat x"
  using unat_less_32 [of x] by (simp add: unsigned_ucast_eq take_bit_nat_eq_self)

lemma ucast_of_nat32: "unat (w :: u64) = n \<Longrightarrow> (ucast w :: u32) = of_nat n"
  by (metis of_nat_unat)

lemma nanos2timespec_eq:
  "unat (tv_sec (nanos2timespec n)) = unat n div 1000000000
   \<and> unat (tv_nsec (nanos2timespec n)) = unat n mod 1000000000"
proof -
  define q r where "q = unat n div 1000000000" and "r = unat n mod 1000000000"
  have n: "unat n = q * 1000000000 + r" unfolding q_def r_def by (rule div_mult_mod_eq [symmetric])
  have q: "unat (n div 1000000000) = q" by (simp add: unat_div q_def)
  have "(ucast n :: u32) = of_nat (q * 1000000000 + r)" by (rule ucast_of_nat32 [OF n])
  moreover have "(ucast (n div 1000000000) :: u32) = of_nat q" by (rule ucast_of_nat32 [OF q])
  ultimately have "(ucast n :: u32) - ucast (n div 1000000000) * 1000000000 = of_nat r"
    by (simp add: of_nat_add of_nat_mult)
  moreover have "unat (of_nat r :: u32) = r"
  proof -
    have "r < 1000000000" by (simp add: r_def)
    then show ?thesis by (simp add: unat_of_nat)
  qed
  ultimately have "tv_nsec (nanos2timespec n) = ucast (of_nat r :: u32)" and "unat (of_nat r :: u32) = r"
    by (simp_all add: nanos2timespec_def Let_def)
  then have "unat (tv_nsec (nanos2timespec n)) = r" by (simp only: unat_ucast_up)
  then show ?thesis using q by (simp add: nanos2timespec_def Let_def r_def q_def)
qed

section \<open>The multiplier and its accuracy\<close>

lemma shifts: "EXTRA_SHIFT = 2" "HIGH_SHIFT = 34" "HIGH_BITS = 30" "NULL_SCALE = 0x400000000"
  by (simp_all add: EXTRA_SHIFT_def HIGH_SHIFT_def HIGH_BITS_def NULL_SCALE_def)

lemma numerator_mask:
  assumes "unat (n :: u32) < 2 ^ 30"
  shows "n AND NUMERATOR_MASK = 0"
proof -
  have "unat (take_bit 30 n) = unat n"
    using assms by (simp only: unsigned_take_bit_eq take_bit_nat_eq_self)
  then have "n = take_bit 30 n" by (metis word_unat_eq_iff)
  moreover have "take_bit 30 n AND NUMERATOR_MASK = 0"
    unfolding NUMERATOR_MASK_def shifts(3)
    by (rule bit_eqI) (simp only: bit_and_iff bit_take_bit_iff bit_push_bit_iff bit_0_eq bot_apply; auto)
  ultimately show ?thesis by simp
qed

lemma mult_of_eq:
  assumes "unat n < 2 ^ 30" and "0 < unat d"
  shows "unat (mult_of n d) = (unat n * 2 ^ 34 + unat d div 2) div unat d"
proof -
  have a: "unat (push_bit 34 (ucast n :: u64)) = unat n * 2 ^ 34"
  proof -
    have "push_bit 34 (ucast n :: u64) = of_nat (unat n * 2 ^ 34)"
      using word_of_unat [OF unat_ucast_up [of n]]
      by (simp only: push_bit_eq_mult of_nat_mult of_nat_power of_nat_numeral)
    then have "unat (push_bit 34 (ucast n :: u64)) = (unat n * 2 ^ 34) mod 2 ^ 64"
      by (simp only: unat_of_nat len_num64)
    also have "\<dots> = unat n * 2 ^ 34" using assms(1) by (intro mod_less) simp
    finally show ?thesis .
  qed
  have b: "unat (ucast (d div 2) :: u64) = unat d div 2" by (simp only: unat_ucast_up) (simp add: unat_div)
  have "unat d < 2 ^ 32" by (rule unat_less_32)
  then have "unat n * 2 ^ 34 + unat d div 2 < 2 ^ 64" using assms(1) by simp
  then have "unat (push_bit 34 (ucast n) + ucast (d div 2) :: u64) = unat n * 2 ^ 34 + unat d div 2"
    by (subst unat_add_ok64) (simp_all only: a b)
  then show ?thesis
    by (simp only: mult_of_def numerator_mask [OF assms(1)] if_True shifts(2) unat_div unat_ucast_up simp_thms)
qed

text \<open>The multiplier is the nearest 34-bit fixed point approximation of the scale.\<close>

lemma mult_of_nearest:
  assumes "unat n < 2 ^ 30" and "0 < unat d"
  shows "2 * unat (mult_of n d) * unat d \<le> 2 * (unat n * 2 ^ 34) + unat d"
    and "2 * (unat n * 2 ^ 34) \<le> 2 * unat (mult_of n d) * unat d + unat d"
proof -
  define m where "m = unat (mult_of n d)"
  define x where "x = unat n * 2 ^ 34 + unat d div 2"
  have m: "m = x div unat d" using mult_of_eq [OF assms] by (simp only: m_def x_def)
  have "m * unat d \<le> x" unfolding m by (rule div_times_less_eq_dividend)
  moreover have "x < unat d + m * unat d" unfolding m using assms(2) by (rule dividend_less_div_times)
  ultimately show "2 * unat (mult_of n d) * unat d \<le> 2 * (unat n * 2 ^ 34) + unat d"
    and "2 * (unat n * 2 ^ 34) \<le> 2 * unat (mult_of n d) * unat d + unat d"
    unfolding m_def [symmetric] x_def mult.assoc by linarith+
qed

lemma mach2nanos_eq:
  assumes "unat t * unat m < 2 ^ 96"
  shows "unat (mach2nanos m t) = (unat t * unat m) div 2 ^ 34"
proof (cases "m = NULL_SCALE")
  case True
  then have "unat m = 2 ^ 34" by (simp add: shifts)
  then show ?thesis using True by (simp add: mach2nanos_def)
next
  case False
  have "unat t * unat m div 2 ^ 32 < 2 ^ 64" using assms by (simp add: less_mult_imp_div_less)
  then have "unat (mmul64 t m) = unat t * unat m div 2 ^ 32" by (simp only: unat_mmul64 mod_less)
  moreover have "unat (mach2nanos m t) = unat (mmul64 t m) div 2 ^ 2"
    using False by (simp only: mach2nanos_def if_False shifts(1) unat_drop_bit_eq) (simp add: drop_bit_eq_div)
  ultimately show ?thesis by (simp add: div_mult2_eq [symmetric])
qed


section \<open>Properties\<close>

text \<open>\<open>mmul64\<close> returns the middle 64 bits of the full 128-bit product of its operands, for every pair of
  operands: none of the carries between its four 64-bit partial sums is lost.\<close>

theorem mmul64_correct: "unat (mmul64 a b) = (unat a * unat b) div 2 ^ 32 mod 2 ^ 64"
  by (rule unat_mmul64)

text \<open>C17: With the multiplier that \<open>setup_mach_mult\<close> computes for a scale \<open>n/d\<close>, \<open>mach2nanos\<close> deviates from
  the exact quotient \<open>t * n / d\<close> by at most one nanosecond plus \<open>t / 2^35\<close>, as long as the product
  stays below 96 bits.\<close>

theorem mach2nanos_accurate:
  assumes "setup_mach_mult (Some (n, d)) scale0 = Some (ret, s)" and "unat n < 2 ^ 30" and "n \<noteq> 0"
    and "unat t * unat (mach_mult s) < 2 ^ 96"
  shows "ret = 0 \<and> 2 ^ 35 * \<bar>int (unat (mach2nanos (mach_mult s) t) * unat d) - int (unat t * unat n)\<bar>
     \<le> int (unat t * unat d + 2 ^ 35 * unat d)"
proof -
  have d0: "d \<noteq> 0" and ret: "ret = 0" and m: "mach_mult s = mult_of n d"
    using assms(1) by (auto simp: setup_mach_mult_def get_mach_scale_def scale0_def Let_def split: if_splits)
  have d: "0 < unat d" using d0 by (simp add: unat_gt_0)
  define D T M R N where "D = int (unat d)" and "T = int (unat t)" and "M = int (unat (mult_of n d))"
    and "R = int (unat (mach2nanos (mult_of n d) t))" and "N = int (unat n)"
  have R: "R = (T * M) div 2 ^ 34"
    using mach2nanos_eq [of t "mult_of n d"] assms(4) m by (simp add: R_def T_def M_def zdiv_int del: of_nat_unat)
  have near: "2 * (M * D) \<le> 2 * (N * 2 ^ 34) + D" "2 * (N * 2 ^ 34) \<le> 2 * (M * D) + D"
    using mult_of_nearest [OF assms(2) d]
    unfolding M_def D_def N_def of_nat_le_iff [where 'a = int, symmetric]
    by (simp_all only: of_nat_mult of_nat_add of_nat_power of_nat_numeral mult.assoc)
  have T0: "0 \<le> T" and D0: "0 \<le> D" by (simp_all add: T_def D_def)
  have r: "R * 2 ^ 34 \<le> T * M" "T * M \<le> R * 2 ^ 34 + 2 ^ 34"
    unfolding R using div_mult_mod_eq [of "T * M" "2 ^ 34"] pos_mod_bound [of "2 ^ 34" "T * M"]
      pos_mod_sign [of "2 ^ 34" "T * M"] by auto
  have "2 ^ 35 * (R * D) \<le> 2 * (T * M * D)"
    using mult_right_mono [OF r(1) D0] by (simp add: algebra_simps)
  also have "2 * (T * M * D) \<le> T * (2 * (N * 2 ^ 34) + D)"
    using mult_left_mono [OF near(1) T0] by (simp add: algebra_simps)
  finally have up: "2 ^ 35 * (R * D) \<le> 2 ^ 35 * (T * N) + T * D" by (simp add: algebra_simps)
  have "T * (2 * (N * 2 ^ 34)) \<le> T * (2 * (M * D) + D)"
    using mult_left_mono [OF near(2) T0] by simp
  also have "\<dots> = 2 * (T * M * D) + T * D" by (simp add: algebra_simps)
  also have "2 * (T * M * D) \<le> 2 * ((R * 2 ^ 34 + 2 ^ 34) * D)"
    using mult_right_mono [OF r(2) D0] by simp
  finally have lo: "2 ^ 35 * (T * N) \<le> 2 ^ 35 * (R * D) + T * D + 2 ^ 35 * D" by (simp add: algebra_simps)
  have "2 ^ 35 * \<bar>R * D - T * N\<bar> \<le> T * D + 2 ^ 35 * D"
    using up lo D0 T0 by (simp add: abs_le_iff algebra_simps abs_if)
  then show ?thesis using ret by (simp add: m R_def D_def T_def N_def del: of_nat_unat)
qed

text \<open>For a fixed multiplier the conversion preserves the order of mach times, up to the point where the
  product leaves 96 bits, so a clock derived from it never steps back.\<close>

theorem mach2nanos_mono:
  assumes "t \<le> t'" and "unat t' * unat m < 2 ^ 96"
  shows "mach2nanos m t \<le> mach2nanos m t'"
proof -
  have le: "unat t * unat m \<le> unat t' * unat m" using assms(1) by (simp add: word_le_nat_alt)
  then have "unat t * unat m < 2 ^ 96" using assms(2) by (rule le_less_trans)
  then show ?thesis using assms(2) le by (simp add: word_le_nat_alt mach2nanos_eq div_le_mono)
qed

text \<open>\<open>nanos2timespec\<close>, whose remainder is computed in wrapping 32-bit arithmetic, splits every 64-bit count
  of nanoseconds exactly, with a nanosecond part below one second.\<close>

theorem nanos2timespec_correct:
  "unat (tv_sec (nanos2timespec n)) * 1000000000 + unat (tv_nsec (nanos2timespec n)) = unat n
   \<and> unat (tv_nsec (nanos2timespec n)) < 1000000000"
  by (simp add: nanos2timespec_eq)

section \<open>Instances\<close>

text \<open>The scale of an M1 processor, 125/3, and of x86, 1/1.\<close>

lemma mult_of_m1: "setup_mach_mult (Some (125, 3)) scale0 =
    Some (0, \<lparr>numer = 125, denom = 3, mach_mult = 0xA6AAAAAAAB, res_nsec = 42\<rparr>)"
proof -
  have "unat (125 :: u32) < 2 ^ 30" by simp
  from numerator_mask [OF this] show ?thesis
    by (simp add: setup_mach_mult_def get_mach_scale_def scale0_def mult_of_def shifts Let_def)
qed

theorem mach2nanos_accurate_witness:
  "2 ^ 35 * \<bar>int (unat (mach2nanos 0xA6AAAAAAAB 24000000) * 3) - 24000000 * 125\<bar> \<le> 24000000 * 3 + 2 ^ 35 * 3"
  using mach2nanos_accurate [OF mult_of_m1, of 24000000] by simp

theorem mach2nanos_mono_witness: "mach2nanos 0xA6AAAAAAAB 5 \<le> mach2nanos 0xA6AAAAAAAB 1000000"
  by (rule mach2nanos_mono) simp_all

end
