(* ===== verification/Sleep_Offset.thy ===== *)
theory Sleep_Offset
  imports Complex_Main Mach_Scale
begin

text \<open>
  Model of the continuous time of \<open>src/time.c\<close> (lines 35 to 306, and \<open>tvdiff2mach\<close>): how the time
  spent sleeping is deduced from the boot time, the time of day and mach time.  What the system
  calls answer, one call after the other, is a script the routines consume; a loop whose script
  ends before it does has not returned (\<open>None\<close>).  Double precision arithmetic is rational
  arithmetic with a rounding \<open>fl\<close> after every operation; what is used of it is that it is exact
  on integers of up to 53 bits.  The state is explicit: the cached scale and the static
  variables of the offset.
\<close>

section \<open>Samples of the clocks\<close>

record timeval =
  tv_s :: int
  tv_us :: int

record sleepofs_info =
  boottime :: timeval
  timeofday :: timeval
  mach_before :: u64
  mach_after :: u64
  mach_diff :: u64

definition MIN_SLEEP_OFFSET_ADVANCE :: int where "MIN_SLEEP_OFFSET_ADVANCE = 5"
definition MAX_DRIFT_PPM :: int where "MAX_DRIFT_PPM = 100"
definition BAD_BT_LEN :: int where "BAD_BT_LEN = -2"

text \<open>One answer of the boot time \<open>sysctl\<close>: its return value, whether the length is right, the time.\<close>

type_synonym boot_reading = "int \<times> bool \<times> timeval"

text \<open>One pair of answers of \<open>gettimeofday\<close> and \<open>mach_absolute_time\<close>.\<close>

type_synonym tod_reading = "timeval option \<times> u64"

definition get_boottime :: "boot_reading \<Rightarrow> int + timeval" where
  "get_boottime r = (let (ret, len_ok, bt) = r in
     if ret \<noteq> 0 then Inl ret else if \<not> len_ok then Inl BAD_BT_LEN else Inr bt)"

fun todmach_loop :: "sleepofs_info \<Rightarrow> int \<Rightarrow> u64 \<Rightarrow> tod_reading list
    \<Rightarrow> (sleepofs_info option \<times> tod_reading list) option" where
  "todmach_loop si us1 mt2 [] = None"
| "todmach_loop si us1 mt2 ((None, _) # rs) = Some (None, rs)"
| "todmach_loop si us1 mt2 ((Some tv2, m) # rs) =
     (if tv_us tv2 = us1 then todmach_loop si us1 m rs
      else Some (Some (si\<lparr>timeofday := tv2, mach_before := mt2, mach_after := m,
                          mach_diff := (m - mt2 + 1 + 2) div 2\<rparr>), rs))"

fun get_todmach :: "sleepofs_info \<Rightarrow> tod_reading list \<Rightarrow> (sleepofs_info option \<times> tod_reading list) option" where
  "get_todmach si [] = None"
| "get_todmach si ((None, _) # rs) = Some (None, rs)"
| "get_todmach si ((Some tv1, m) # rs) = todmach_loop si (tv_us tv1) m rs"

text \<open>The loop over \<open>tries\<close>: \<open>n\<close> more samples into \<open>si2\<close>, keeping the tightest in \<open>si\<close>.\<close>

primrec best_of :: "nat \<Rightarrow> sleepofs_info \<Rightarrow> sleepofs_info \<Rightarrow> tod_reading list
    \<Rightarrow> ((sleepofs_info \<times> sleepofs_info) option \<times> tod_reading list) option" where
  "best_of 0 si si2 rs = Some (Some (si, si2), rs)"
| "best_of (Suc n) si si2 rs =
     (case get_todmach si2 rs of
        None \<Rightarrow> None
      | Some (None, rs) \<Rightarrow> Some (None, rs)
      | Some (Some si2, rs) \<Rightarrow> best_of n (if mach_diff si2 < mach_diff si then si2 else si) si2 rs)"

fun sleepofs_loop :: "sleepofs_info \<Rightarrow> sleepofs_info \<Rightarrow> boot_reading list \<Rightarrow> tod_reading list
    \<Rightarrow> (int + sleepofs_info) option" where
  "sleepofs_loop si si2 bs rs =
     (case get_todmach si rs of
        None \<Rightarrow> None
      | Some (None, rs) \<Rightarrow> Some (Inl (-1))
      | Some (Some si, rs) \<Rightarrow>
          (case best_of 4 si si2 rs of
             None \<Rightarrow> None
           | Some (None, rs) \<Rightarrow> Some (Inl (-1))
           | Some (Some (si, si2), rs) \<Rightarrow>
               (case bs of
                  [] \<Rightarrow> None
                | b # bs \<Rightarrow>
                    (case get_boottime b of
                       Inl ret \<Rightarrow> Some (Inl ret)
                     | Inr bt \<Rightarrow>
                         (let si2 = si2\<lparr>boottime := bt\<rparr> in
                          if tv_s bt = tv_s (boottime si) \<and> tv_us bt = tv_us (boottime si)
                          then Some (Inr si)
                          else sleepofs_loop si2 si2 bs rs)))))"

declare sleepofs_loop.simps [simp del]

definition get_sleepofs_info :: "sleepofs_info \<Rightarrow> boot_reading list \<Rightarrow> tod_reading list
    \<Rightarrow> (int + sleepofs_info) option" where
  "get_sleepofs_info si bs rs =
     (case bs of
        [] \<Rightarrow> None
      | b # bs \<Rightarrow>
          (case get_boottime b of
             Inl ret \<Rightarrow> Some (Inl ret)
           | Inr bt \<Rightarrow> (let si = si\<lparr>boottime := bt\<rparr> in sleepofs_loop si si bs rs)))"

section \<open>The offset\<close>

definition trunc0 :: "rat \<Rightarrow> int" where
  "trunc0 r = (if r < 0 then \<lceil>r\<rceil> else \<lfloor>r\<rfloor>)"

text \<open>\<open>long32\<close> says that \<open>tv_sec\<close> has 32 bits.  The final conversion to \<open>int64_t\<close> is checked.\<close>

definition tvdiff2mach :: "(rat \<Rightarrow> rat) \<Rightarrow> bool \<Rightarrow> scale \<Rightarrow> timeval \<Rightarrow> timeval \<Rightarrow> int option" where
  "tvdiff2mach fl long32 sc tv1 tv2 =
     do { d \<leftarrow> (if long32 then Some (uint (word_of_int (tv_s tv1) - word_of_int (tv_s tv2) :: u32))
               else s64 (tv_s tv1 - tv_s tv2));
          u \<leftarrow> s32 (tv_us tv1 - tv_us tv2);
          let tvdiff = fl (fl (of_int d) * 1000000000);
          let tvdiff = fl (tvdiff + fl (fl (of_int u) * 1000));
          if numer sc = 0 then None
          else s64 (trunc0 (fl (fl (tvdiff * of_int (uint (denom sc))) / of_int (uint (numer sc))))) }"

record sleep_state =
  sleep_offset_valid :: bool
  sleep_offset :: u64
  raw_offset :: "64 word"
  first_offset :: "64 word"
  sleep_info_raw :: sleepofs_info
  sleep_info :: sleepofs_info

text \<open>What the calls of one run of \<open>get_sleep_offset\<close> answer.\<close>

record readings =
  timebase :: "(u32 \<times> u32) option"
  boots :: "boot_reading list"
  tods :: "tod_reading list"
  lock_ok :: bool

text \<open>
  The decision, under the lock.  The difference with the first offset is a signed subtraction,
  which is checked; the comparison with the current offset is unsigned, as C makes it.
\<close>

definition update_offset :: "sleepofs_info \<Rightarrow> 64 word \<Rightarrow> 64 word \<Rightarrow> sleep_state \<Rightarrow> sleep_state option" where
  "update_offset si offset minsleepadj st =
     (let st = st\<lparr>raw_offset := offset\<rparr>;
          st = (if first_offset st = 0 \<and> offset <s 0 then st\<lparr>first_offset := offset\<rparr> else st);
          st = st\<lparr>sleep_info_raw := si\<rparr>
      in do { d \<leftarrow> s64 (sint offset - sint (first_offset st));
              let st = (if word_of_int d > sleep_offset st + minsleepadj
                        then st\<lparr>sleep_offset := word_of_int d, sleep_info := si\<rparr> else st);
              Some (st\<lparr>sleep_offset_valid := True\<rparr>) })"

definition get_sleep_offset :: "(rat \<Rightarrow> rat) \<Rightarrow> bool \<Rightarrow> sleepofs_info \<Rightarrow> readings \<Rightarrow> scale \<times> sleep_state
    \<Rightarrow> (scale \<times> sleep_state) option" where
  "get_sleep_offset fl long32 si0 rd s =
     (let (sc, st) = s; (ret, sc) = get_mach_scale (timebase rd) sc in
      if ret \<noteq> 0 then Some (sc, st)
      else case get_sleepofs_info si0 (boots rd) (tods rd) of
        None \<Rightarrow> None
      | Some (Inl ret) \<Rightarrow> Some (sc, if ret = BAD_BT_LEN then st\<lparr>sleep_offset_valid := True\<rparr> else st)
      | Some (Inr si) \<Rightarrow>
          do { toddiff \<leftarrow> tvdiff2mach fl long32 sc (timeofday si) (boottime si);
               if toddiff < 0 then Some (sc, st\<lparr>sleep_offset_valid := True\<rparr>)
               else do { let offset = word_of_int toddiff - (mach_before si + mach_after si) div 2;
                         m \<leftarrow> tvdiff2mach fl long32 sc \<lparr>tv_s = MIN_SLEEP_OFFSET_ADVANCE, tv_us = 0\<rparr> \<lparr>tv_s = 0, tv_us = 0\<rparr>;
                         let minsleepadj = (word_of_int m :: 64 word);
                         let maxdrift = (mach_before si - mach_before (sleep_info st)) div word_of_int (1000000 div MAX_DRIFT_PPM);
                         let minsleepadj = (if minsleepadj <s maxdrift then maxdrift else minsleepadj);
                         if \<not> lock_ok rd then Some (sc, st)
                         else do { st \<leftarrow> update_offset si offset minsleepadj st; Some (sc, st) } } })"

section \<open>Continuous time\<close>

definition mach_approximate_time :: "u64 \<Rightarrow> u64" where
  "mach_approximate_time absolute = absolute"

definition mach_continuous_time :: "(rat \<Rightarrow> rat) \<Rightarrow> bool \<Rightarrow> sleepofs_info \<Rightarrow> readings \<Rightarrow> u64
    \<Rightarrow> scale \<times> sleep_state \<Rightarrow> (u64 \<times> scale \<times> sleep_state) option" where
  "mach_continuous_time fl long32 si0 rd absolute s =
     do { s \<leftarrow> (if \<not> sleep_offset_valid (snd s) then get_sleep_offset fl long32 si0 rd s else Some s);
          Some (absolute + sleep_offset (snd s), s) }"

definition mach_continuous_approximate_time :: "(rat \<Rightarrow> rat) \<Rightarrow> bool \<Rightarrow> sleepofs_info \<Rightarrow> readings \<Rightarrow> u64
    \<Rightarrow> scale \<times> sleep_state \<Rightarrow> (u64 \<times> scale \<times> sleep_state) option" where
  "mach_continuous_approximate_time fl long32 si0 rd absolute s =
     do { s \<leftarrow> (if \<not> sleep_offset_valid (snd s) then get_sleep_offset fl long32 si0 rd s else Some s);
          Some (mach_approximate_time absolute + sleep_offset (snd s), s) }"

text \<open>The constructor runs the computation once at program launch.\<close>

definition startup_sleep_offset :: "(rat \<Rightarrow> rat) \<Rightarrow> bool \<Rightarrow> sleepofs_info \<Rightarrow> readings \<Rightarrow> scale \<times> sleep_state
    \<Rightarrow> (scale \<times> sleep_state) option" where
  "startup_sleep_offset fl long32 si0 rd s = get_sleep_offset fl long32 si0 rd s"


section \<open>Double precision\<close>

text \<open>What is used of the rounding: it is monotone and exact on integers of up to 53 bits.\<close>

definition ieee :: "(rat \<Rightarrow> rat) \<Rightarrow> bool" where
  "ieee fl \<longleftrightarrow> mono fl \<and> (\<forall>n. \<bar>n\<bar> \<le> 2 ^ 53 \<longrightarrow> fl (of_int n) = of_int n)"

lemma ieee_exact: "ieee fl \<Longrightarrow> \<bar>n\<bar> \<le> 2 ^ 53 \<Longrightarrow> fl (of_int n) = of_int n"
  by (simp add: ieee_def)

lemma ieee_mono: "ieee fl \<Longrightarrow> x \<le> y \<Longrightarrow> fl x \<le> fl y"
  by (auto simp: ieee_def dest: monoD)

lemma ieee_nonneg: "ieee fl \<Longrightarrow> 0 \<le> x \<Longrightarrow> 0 \<le> fl x"
  using ieee_mono [of fl 0 x] ieee_exact [of fl 0] by simp

lemma ieee_id: "ieee id"
  by (simp add: ieee_def mono_def)

lemma trunc0_int [simp]: "trunc0 (of_int n) = n"
  by (simp add: trunc0_def)

lemma trunc0_nonneg: "0 \<le> r \<Longrightarrow> 0 \<le> trunc0 r"
  by (simp add: trunc0_def)

lemma tvdiff2mach_exact:
  assumes "ieee fl" and "numer sc = 1" and "denom sc = 1"
    and "\<bar>tv_us tv1 - tv_us tv2\<bar> < 1000000"
    and "\<bar>tv_s tv1 - tv_s tv2\<bar> \<le> 9000000"
  shows "tvdiff2mach fl False sc tv1 tv2 =
    Some ((tv_s tv1 - tv_s tv2) * 1000000000 + (tv_us tv1 - tv_us tv2) * 1000)"
proof -
  define d u where "d = tv_s tv1 - tv_s tv2" and "u = tv_us tv1 - tv_us tv2"
  have b: "\<bar>d\<bar> \<le> 9000000" "\<bar>u\<bar> < 1000000" using assms(4,5) by (simp_all add: d_def u_def)
  define n where "n = d * 1000000000 + u * 1000"
  have bn: "\<bar>d * 1000000000\<bar> \<le> 2 ^ 53" "\<bar>u * 1000\<bar> \<le> 2 ^ 53" "\<bar>n\<bar> \<le> 2 ^ 53" "\<bar>d\<bar> \<le> 2 ^ 53" "\<bar>u\<bar> \<le> 2 ^ 53"
    using b by (simp_all add: n_def)
  note ex = ieee_exact [OF assms(1)]
  have "fl (of_int d) * 1000000000 = of_int (d * 1000000000)" "fl (of_int u) * 1000 = of_int (u * 1000)"
    using ex bn by simp_all
  moreover have "of_int (d * 1000000000) + of_int (u * 1000) = (of_int n :: rat)" by (simp add: n_def)
  ultimately have f: "fl (fl (fl (of_int d) * 1000000000) + fl (fl (of_int u) * 1000)) = of_int n"
    using ex [OF bn(1)] ex [OF bn(2)] ex [OF bn(3)] by simp
  have "s64 d = Some d" "s32 u = Some u" "s64 n = Some n"
    using b bn by (auto simp: s64_def s32_def abs_le_iff abs_less_iff)
  then show ?thesis
    using f ex [OF bn(3)] assms(2,3)
    by (simp add: tvdiff2mach_def Let_def d_def [symmetric] u_def [symmetric] n_def [symmetric])
qed

section \<open>Sampling\<close>


















section \<open>Updating the offset\<close>

definition advance :: "(rat \<Rightarrow> rat) \<Rightarrow> bool \<Rightarrow> scale \<Rightarrow> int option" where
  "advance fl long32 sc =
     tvdiff2mach fl long32 sc \<lparr>tv_s = MIN_SLEEP_OFFSET_ADVANCE, tv_us = 0\<rparr> \<lparr>tv_s = 0, tv_us = 0\<rparr>"

lemma s64_SomeD: "s64 x = Some y \<Longrightarrow> y = x \<and> - 9223372036854775808 \<le> x \<and> x < 9223372036854775808"
  by (auto simp: s64_def split: if_splits)

lemma advance_nonneg:
  assumes "ieee fl" and "advance fl long32 sc = Some m"
  shows "0 \<le> m \<and> m < 2 ^ 63"
proof -
  have f: "fl (5 :: rat) = 5" "fl (0 :: rat) = 0" "fl (5000000000 :: rat) = 5000000000"
    using ieee_exact [OF assms(1), of 5] ieee_exact [OF assms(1), of 0] ieee_exact [OF assms(1), of 5000000000]
    by simp_all
  have "0 \<le> fl (fl (5000000000 * of_int (uint (denom sc))) / of_int (uint (numer sc)))"
    by (intro ieee_nonneg [OF assms(1)] divide_nonneg_nonneg mult_nonneg_nonneg of_int_nonneg uint_ge_0) simp
  then have "0 \<le> trunc0 (fl (fl (5000000000 * of_int (uint (denom sc))) / of_int (uint (numer sc))))"
    by (rule trunc0_nonneg)
  then show ?thesis
    using assms(2) f
    by (auto simp: advance_def tvdiff2mach_def MIN_SLEEP_OFFSET_ADVANCE_def Let_def s64_ok s32_ok
          bind_eq_Some_conv split: if_splits dest!: s64_SomeD)
qed

lemma sint_of_int64: "- (2 ^ 63) \<le> k \<Longrightarrow> k < 2 ^ 63 \<Longrightarrow> sint (word_of_int k :: 64 word) = k"
  by (simp add: int_word_sint)

text \<open>The first computation of the offset takes a raw offset as it is when it exceeds the threshold, treats
  a smaller or a negative one as zero, and remembers a negative one as the baseline.\<close>

lemma update_offset_first:
  assumes "sleep_offset st = 0" and "first_offset st = 0" and "0 \<le> sint adj"
  shows "\<exists>st'. update_offset si offset adj st = Some st' \<and> sleep_offset_valid st'
    \<and> sleep_offset st' = (if sint adj < sint offset then offset else 0)
    \<and> first_offset st' = (if sint offset < 0 then offset else 0)"
proof (cases "sint offset < 0")
  case True
  then have "offset <s 0" by (simp add: word_sless_alt)
  with True assms show ?thesis by (simp add: update_offset_def Let_def s64_ok word_less_def)
next
  case False
  then have "\<not> offset <s 0" and s: "s64 (sint offset) = Some (sint offset)"
    using sint_lt [of offset] by (simp_all add: word_sless_alt s64_ok)
  moreover have "adj < offset \<longleftrightarrow> sint adj < sint offset"
    using False assms(3) by (simp add: word_less_def sint_nonneg_uint)
  ultimately show ?thesis using False assms by (auto simp: update_offset_def Let_def)
qed

text \<open>What a run of \<open>get_sleep_offset\<close> can do to the state.\<close>

lemma get_sleep_offset_cases:
  assumes "ieee fl" and run: "get_sleep_offset fl long32 si0 rd (sc, st) = Some (sc', st')"
  obtains (same) "st' = st" | (garbage) "st' = st\<lparr>sleep_offset_valid := True\<rparr>"
  | (updated) si offset adj where "0 \<le> sint (adj :: 64 word)" and "update_offset si offset adj st = Some st'"
proof (cases "st' = st \<or> st' = st\<lparr>sleep_offset_valid := True\<rparr>")
  case True
  then show ?thesis using same garbage by blast
next
  case False
  obtain ret sc1 where s: "get_mach_scale (timebase rd) sc = (ret, sc1)" by (cases "get_mach_scale (timebase rd) sc")
  from run s False obtain si where si: "get_sleepofs_info si0 (boots rd) (tods rd) = Some (Inr si)"
    by (auto simp: get_sleep_offset_def Let_def split: if_splits option.splits sum.splits)
  from run s False si obtain t where t: "tvdiff2mach fl long32 sc1 (timeofday si) (boottime si) = Some t"
    by (auto simp: get_sleep_offset_def Let_def bind_eq_Some_conv split: if_splits)
  from run s False si t obtain m where m: "advance fl long32 sc1 = Some m"
    by (auto simp: get_sleep_offset_def Let_def bind_eq_Some_conv advance_def split: if_splits)
  define drift where "drift = (mach_before si - mach_before (sleep_info st)) div word_of_int (1000000 div MAX_DRIFT_PPM)"
  define adj where "adj = (if word_of_int m <s drift then drift else (word_of_int m :: 64 word))"
  have "update_offset si (word_of_int t - (mach_before si + mach_after si) div 2) adj st = Some st'"
    using run s False si t m
    by (auto simp: get_sleep_offset_def Let_def bind_eq_Some_conv advance_def adj_def drift_def split: if_splits)
  moreover have "0 \<le> sint adj"
  proof -
    have "sint (word_of_int m :: 64 word) = m" using advance_nonneg [OF assms(1) m] by (intro sint_of_int64) simp_all
    then show ?thesis using advance_nonneg [OF assms(1) m] by (auto simp: adj_def word_sless_alt)
  qed
  ultimately show ?thesis using updated by blast
qed

section \<open>Calls one after the other\<close>

text \<open>
  At the launch of the program the static variables are zero.  What every call keeps: the offset is not negative, and until it
  is valid it and the first offset are zero, so that it is computed from an answer of the system at most once.
\<close>

definition at_launch :: "sleep_state \<Rightarrow> bool" where
  "at_launch st \<longleftrightarrow> \<not> sleep_offset_valid st \<and> sleep_offset st = 0 \<and> first_offset st = 0"

definition offset_ok :: "sleep_state \<Rightarrow> bool" where
  "offset_ok st \<longleftrightarrow> at_launch st \<or> sleep_offset_valid st \<and> unat (sleep_offset st) < 2 ^ 63"

lemma get_sleep_offset_ok:
  assumes "ieee fl" and "get_sleep_offset fl long32 si0 rd (sc, st) = Some (sc', st')" and "at_launch st"
  shows "offset_ok st'"
  using assms(1,2)
proof (cases rule: get_sleep_offset_cases)
  case (updated si offset adj)
  have "\<exists>st'. update_offset si offset adj st = Some st' \<and> sleep_offset_valid st'
    \<and> sleep_offset st' = (if sint adj < sint offset then offset else 0)
    \<and> first_offset st' = (if sint offset < 0 then offset else 0)"
    using update_offset_first assms(3) updated(1) by (simp add: at_launch_def)
  then have "sleep_offset_valid st'" "sleep_offset st' = (if sint adj < sint offset then offset else 0)" using updated(2) by auto
  moreover have "sint adj < sint offset \<Longrightarrow> unat offset < 2 ^ 63" using updated(1) by (intro sint_nonneg_unat) simp
  ultimately show ?thesis by (simp add: offset_ok_def)
qed (use assms(3) in \<open>simp_all add: offset_ok_def at_launch_def\<close>)

fun continuous_run :: "(rat \<Rightarrow> rat) \<Rightarrow> bool \<Rightarrow> sleepofs_info \<Rightarrow> (readings \<times> u64) list \<Rightarrow> scale \<times> sleep_state
    \<Rightarrow> (u64 list \<times> scale \<times> sleep_state) option" where
  "continuous_run fl long32 si0 [] s = Some ([], s)"
| "continuous_run fl long32 si0 ((rd, t) # calls) s =
     do { (c, s) \<leftarrow> mach_continuous_time fl long32 si0 rd t s;
          (cs, s) \<leftarrow> continuous_run fl long32 si0 calls s;
          Some (c # cs, s) }"

text \<open>One call: the sum does not wrap, and once the offset is valid it stays.\<close>

lemma mach_continuous_time_call:
  assumes "ieee fl" and "mach_continuous_time fl long32 si0 rd t (sc, st) = Some (c, sc', st')" and "offset_ok st" and "unat t < 2 ^ 63"
  shows "offset_ok st'" and "unat c = unat t + unat (sleep_offset st')" and "sleep_offset_valid st \<Longrightarrow> st' = st" and "sleep_offset st \<le> sleep_offset st'"
proof -
  show same: "st' = st" if "sleep_offset_valid st" using assms(2) that by (simp add: mach_continuous_time_def)
  show ok: "offset_ok st'"
  proof (cases "sleep_offset_valid st")
    case False
    then have "get_sleep_offset fl long32 si0 rd (sc, st) = Some (sc', st')" "at_launch st"
      using assms(2,3) by (auto simp: mach_continuous_time_def bind_eq_Some_conv offset_ok_def)
    then show ?thesis using get_sleep_offset_ok [OF assms(1)] by blast
  qed (use same assms(3) in simp)
  then have "unat (sleep_offset st') < 2 ^ 63" by (auto simp: offset_ok_def at_launch_def)
  moreover have "c = t + sleep_offset st'" using assms(2) by (auto simp: mach_continuous_time_def bind_eq_Some_conv)
  ultimately show "unat c = unat t + unat (sleep_offset st')" using assms(4) by (simp add: unat_add_ok64)
  show "sleep_offset st \<le> sleep_offset st'"
    using same assms(3) by (cases "sleep_offset_valid st") (simp_all add: offset_ok_def at_launch_def)
qed

lemma continuous_run_sorted:
  assumes "ieee fl"
  shows "continuous_run fl long32 si0 calls (sc, st) = Some (cs, sc', st') \<Longrightarrow> offset_ok st \<Longrightarrow> sorted (map snd calls) \<Longrightarrow>
    \<forall>t \<in> set (map snd calls). unat t < 2 ^ 63 \<Longrightarrow>
    sorted cs \<and> length cs = length calls \<and> (\<forall>c \<in> set cs. \<exists>t \<in> set (map snd calls). unat t + unat (sleep_offset st) \<le> unat c)"
proof (induction calls arbitrary: sc st cs)
  case (Cons call calls)
  obtain rd t where call: "call = (rd, t)" by force
  obtain c sc1 st1 ds where c: "mach_continuous_time fl long32 si0 rd t (sc, st) = Some (c, sc1, st1)"
    "continuous_run fl long32 si0 calls (sc1, st1) = Some (ds, sc', st')" "cs = c # ds"
    using Cons.prems(1) call by (auto simp: bind_eq_Some_conv)
  note one = mach_continuous_time_call [OF assms c(1) Cons.prems(2)]
  have t: "unat t < 2 ^ 63" "\<forall>u \<in> set (map snd calls). t \<le> u" using Cons.prems(3,4) call by auto
  have IH: "sorted ds \<and> length ds = length calls \<and> (\<forall>d \<in> set ds. \<exists>u \<in> set (map snd calls). unat u + unat (sleep_offset st1) \<le> unat d)"
    by (rule Cons.IH [OF c(2) one(1) [OF t(1)]]) (use Cons.prems(3,4) in auto)
  have le: "unat (sleep_offset st) \<le> unat (sleep_offset st1)" using one(4) [OF t(1)] by (simp add: word_le_nat_alt)
  have "c \<le> d" if d: "d \<in> set ds" for d
  proof -
    obtain u where u: "u \<in> set (map snd calls)" "unat u + unat (sleep_offset st1) \<le> unat d" using IH d by blast
    have "t \<le> u" using t(2) u(1) by blast
    then have "unat t \<le> unat u" by (simp only: word_le_nat_alt)
    then have "unat c \<le> unat d" using one(2) [OF t(1)] u(2) by linarith
    then show ?thesis by (simp add: word_le_nat_alt)
  qed
  moreover have "\<exists>u \<in> set (map snd calls). unat u + unat (sleep_offset st) \<le> unat d" if d: "d \<in> set ds" for d
    using IH d le by (meson add_left_mono order.trans)
  ultimately show ?case using IH c(3) one(2) [OF t(1)] le call by auto
qed simp

section \<open>Properties\<close>


text \<open>C4: continuous time never steps back.  From the launch of the program on, over any number of calls of
  \<open>mach_continuous_time\<close> one after the other, and whatever the system calls behind them answer, whether the offset is computed
  by the constructor, by a later call after earlier ones have failed, or never: for mach times in order the results are in
  order.  Mach time is below \<open>2 ^ 63\<close>; two threads that compute the offset at the same time are not covered.\<close>

theorem mach_continuous_time_monotone:
  assumes "ieee fl" and "at_launch st" and "startup_sleep_offset fl long32 si0 rd (sc, st) = Some s"
    and "continuous_run fl long32 si0 calls s = Some (cs, s')"
    and "sorted (map snd calls)" and "\<forall>t \<in> set (map snd calls). unat t < 2 ^ 63"
  shows "sorted cs \<and> length cs = length calls"
proof -
  obtain sc1 st1 where s: "s = (sc1, st1)" by (cases s)
  have "offset_ok st1" using get_sleep_offset_ok [OF assms(1) assms(3) [unfolded startup_sleep_offset_def s] assms(2)] .
  moreover obtain sc2 st2 where "s' = (sc2, st2)" by (cases s')
  ultimately show ?thesis using continuous_run_sorted [OF assms(1)] assms(4-6) s by blast
qed

text \<open>Once a negative offset is the baseline, computing the offset again with a raw offset below it, at a
  distance within the threshold of zero, does not leave the offset: the negative difference is
  compared as an unsigned number, passes the test, and is stored.\<close>

theorem update_offset_negative_wraps:
  assumes "sint offset < sint (first_offset st)" and "sint (first_offset st) < 0"
    and "0 \<le> sint adj" and "unat (sleep_offset st) + unat adj < 2 ^ 63"
  shows "\<exists>st'. update_offset si offset adj st = Some st'
    \<and> sleep_offset st' = offset - first_offset st \<and> sint (sleep_offset st') < 0"
proof -
  let ?d = "sint offset - sint (first_offset st)"
  have r: "- (2 ^ 63) \<le> ?d" "?d < 0" using assms(1,2) sint_ge [of offset] sint_lt [of "first_offset st"] by simp_all
  have s: "s64 ?d = Some ?d" using r by (intro s64_ok) simp_all
  have w: "word_of_int ?d = offset - first_offset st" by simp
  have neg: "sint (word_of_int ?d :: 64 word) = ?d" using r by (intro sint_of_int64) simp_all
  have "2 ^ 63 \<le> uint (word_of_int ?d :: 64 word)" using neg r(2) by (intro sint_negative_uint) simp
  moreover have "uint (sleep_offset st + adj) < 2 ^ 63"
  proof -
    have "unat (sleep_offset st + adj) < 2 ^ 63" using assms(4) by (subst unat_add_ok64) simp_all
    then have "int (unat (sleep_offset st + adj)) < int (2 ^ 63)" by (simp only: of_nat_less_iff)
    then show ?thesis by simp
  qed
  ultimately have gt: "word_of_int ?d > sleep_offset st + adj" by (simp only: word_less_def)
  have "first_offset st \<noteq> 0" using assms(2) by auto
  then show ?thesis
    using s gt neg r(2) w by (simp add: update_offset_def Let_def)
qed


section \<open>Instances\<close>

definition demo_tv :: "int \<Rightarrow> int \<Rightarrow> timeval" where
  "demo_tv s us = \<lparr>tv_s = s, tv_us = us\<rparr>"

definition demo_info :: sleepofs_info where
  "demo_info = \<lparr>boottime = demo_tv 0 0, timeofday = demo_tv 0 0, mach_before = 0, mach_after = 0, mach_diff = 0\<rparr>"

definition demo_state :: "bool \<Rightarrow> u64 \<Rightarrow> 64 word \<Rightarrow> sleep_state" where
  "demo_state valid ofs first = \<lparr>sleep_offset_valid = valid, sleep_offset = ofs, raw_offset = 0,
     first_offset = first, sleep_info_raw = demo_info, sleep_info = demo_info\<rparr>"

text \<open>Five samples; the third is the tightest.\<close>

definition demo_tods :: "tod_reading list" where
  "demo_tods = [(Some (demo_tv 90 1), 100), (Some (demo_tv 90 1), 110), (Some (demo_tv 90 2), 150),
     (Some (demo_tv 90 2), 160), (Some (demo_tv 90 3), 190), (Some (demo_tv 90 3), 200), (Some (demo_tv 90 4), 204),
     (Some (demo_tv 90 5), 210), (Some (demo_tv 90 6), 220), (Some (demo_tv 90 7), 230), (Some (demo_tv 90 8), 250)]"

definition demo_boots :: "boot_reading list" where
  "demo_boots = [(0, True, demo_tv 30 0), (0, True, demo_tv 30 0)]"

lemma best_of_four: "best_of 4 si si2 rs = best_of (Suc (Suc (Suc (Suc 0)))) si si2 rs"
  by (simp only: numeral_eq_Suc pred_numeral_simps BitM.simps numeral_One One_nat_def)

definition demo_sample :: sleepofs_info where
  "demo_sample = \<lparr>boottime = demo_tv 30 0, timeofday = demo_tv 90 4, mach_before = 200, mach_after = 204, mach_diff = 3\<rparr>"

lemma demo_sampled: "get_sleepofs_info demo_info demo_boots demo_tods = Some (Inr demo_sample)"
  by (simp add: get_sleepofs_info_def demo_boots_def demo_tods_def get_boottime_def Let_def demo_tv_def
      sleepofs_loop.simps demo_info_def demo_sample_def best_of_four)


lemma update_offset_first_witness:
  "\<exists>st'. update_offset demo_info 5 9 (demo_state False 0 0) = Some st' \<and> sleep_offset_valid st'
     \<and> sleep_offset st' = 0 \<and> first_offset st' = 0"
proof -
  have "sleep_offset (demo_state False 0 0) = 0" "first_offset (demo_state False 0 0) = 0" "0 \<le> sint (9 :: 64 word)"
    by (simp_all add: demo_state_def)
  from update_offset_first [OF this, of demo_info 5] show ?thesis by simp
qed

definition no_readings :: readings where
  "no_readings = \<lparr>timebase = None, boots = [], tods = [], lock_ok = True\<rparr>"

definition demo_readings :: readings where
  "demo_readings = \<lparr>timebase = Some (1, 1), boots = demo_boots, tods = demo_tods, lock_ok = True\<rparr>"

lemma demo_offset:
  "\<exists>sc st. get_sleep_offset id False demo_info demo_readings (scale0\<lparr>denom := 1\<rparr>, demo_state False 0 0) = Some (sc, st)
     \<and> sleep_offset_valid st \<and> sleep_offset st = 60000003798"
proof -
  let ?sc = "scale0\<lparr>numer := 1, denom := 1\<rparr>"
  have "tvdiff2mach id False ?sc (timeofday demo_sample) (boottime demo_sample) = Some 60000004000"
    by (subst tvdiff2mach_exact [OF ieee_id]) (simp_all add: demo_sample_def demo_tv_def)
  moreover have "tvdiff2mach id False ?sc \<lparr>tv_s = MIN_SLEEP_OFFSET_ADVANCE, tv_us = 0\<rparr> \<lparr>tv_s = 0, tv_us = 0\<rparr> = Some 5000000000"
    by (subst tvdiff2mach_exact [OF ieee_id]) (simp_all add: MIN_SLEEP_OFFSET_ADVANCE_def)
  moreover have "mach_before demo_info = 0" "mach_before demo_sample = 200" "mach_after demo_sample = 204"
    by (simp_all add: demo_info_def demo_sample_def)
  ultimately show ?thesis
    by (simp add: get_sleep_offset_def get_mach_scale_def demo_readings_def demo_sampled scale0_def demo_state_def update_offset_def
        MAX_DRIFT_PPM_def Let_def s64_ok word_sless_alt)
qed

text \<open>The constructor and the first call fail, the second call computes the offset, the third uses it.\<close>

theorem mach_continuous_time_monotone_witness:
  "\<exists>s'. continuous_run id False demo_info [(no_readings, 10), (demo_readings, 250), (no_readings, 260)] (scale0\<lparr>denom := 1\<rparr>, demo_state False 0 0)
       = Some ([10, 60000004048, 60000004058], s')
     \<and> sorted [10, 60000004048, 60000004058 :: u64]"
proof -
  have f: "get_sleep_offset id False demo_info no_readings (sc, st) = Some (sc\<lparr>denom := 1\<rparr>, st)" if "numer sc = 0" for sc st
    using that by (cases sc) (simp add: get_sleep_offset_def get_mach_scale_def no_readings_def)
  obtain sc st where o: "get_sleep_offset id False demo_info demo_readings (scale0\<lparr>denom := 1\<rparr>, demo_state False 0 0) = Some (sc, st)"
    "sleep_offset_valid st" "sleep_offset st = 60000003798" using demo_offset by blast
  have r: "continuous_run id False demo_info [(no_readings, 10), (demo_readings, 250), (no_readings, 260)] (scale0\<lparr>denom := 1\<rparr>, demo_state False 0 0)
      = Some ([10, 60000004048, 60000004058], (sc, st))"
    using o f by (simp add: mach_continuous_time_def) (simp add: scale0_def demo_state_def)
  have z: "startup_sleep_offset id False demo_info no_readings (scale0, demo_state False 0 0) = Some (scale0\<lparr>denom := 1\<rparr>, demo_state False 0 0)"
    using f by (simp add: startup_sleep_offset_def scale0_def)
  have "at_launch (demo_state False 0 0)" by (simp add: at_launch_def demo_state_def)
  from mach_continuous_time_monotone [OF ieee_id this z r] r show ?thesis by simp
qed

theorem update_offset_negative_wraps_witness:
  "\<exists>st'. update_offset demo_info (- 6) 9 (demo_state False 0 (- 5)) = Some st' \<and> sleep_offset st' = - 1"
proof -
  have s: "sint (- 6 :: 64 word) = - 6" "sint (- 5 :: 64 word) = - 5" by simp_all
  have "first_offset (demo_state False 0 (- 5)) = - 5" "sleep_offset (demo_state False 0 (- 5)) = 0"
    by (simp_all add: demo_state_def)
  with update_offset_negative_wraps [of "- 6" "demo_state False 0 (- 5)" 9 demo_info] s show ?thesis by auto
qed

end
