(* ===== verification/Clocks.thy ===== *)
theory Clocks
  imports Sleep_Offset
begin

text \<open>
  Model of the clock functions of \<open>src/time.c\<close> (lines 617 to 908).  The answers of the system
  calls a function may make are the fields of a \<open>kernel\<close> record; the cached scale and the sleep
  offset are the explicit state.  Both variants of the thread clock are modelled: \<open>hires\<close> says
  that the system provides \<open>__thread_selfusage\<close>.  A structure the code leaves unset on an error
  is \<open>None\<close> in the result.
\<close>

section \<open>Clocks and answers of the system\<close>

datatype clockid =
  CLOCK_REALTIME | CLOCK_PROCESS_CPUTIME_ID | CLOCK_THREAD_CPUTIME_ID | CLOCK_MONOTONIC
| CLOCK_MONOTONIC_RAW | CLOCK_MONOTONIC_RAW_APPROX | CLOCK_UPTIME_RAW | CLOCK_UPTIME_RAW_APPROX
| Other_clock

record kernel =
  k_tod :: "timeval option"
  k_rusage :: "(timeval \<times> timeval) option"
  k_thread :: "(timeval \<times> timeval) option"
  k_selfusage :: u64
  k_absolute :: u64
  k_readings :: readings
  k_settod :: int

type_synonym time_state = "scale \<times> sleep_state"

record config =
  hires :: bool
  long32 :: bool
  fl :: "rat \<Rightarrow> rat"
  si0 :: sleepofs_info

abbreviation BILLION :: u64 where "BILLION \<equiv> 1000000000"

section \<open>Thread usage\<close>

definition get_thread_usage :: "kernel \<Rightarrow> (timeval \<times> timeval) option" where
  [simp]: "get_thread_usage k = k_thread k"

definition get_thread_usage_ns_old :: "(timeval \<times> timeval) option \<Rightarrow> u64 option" where
  "get_thread_usage_ns_old info =
     (case info of
        None \<Rightarrow> Some 0
      | Some (u, s) \<Rightarrow>
          do { sec \<leftarrow> s32 (tv_s u + tv_s s);
               us \<leftarrow> s32 (tv_us u + tv_us s);
               p \<leftarrow> s32 (us * 1000);
               let nanos = word_of_int sec * BILLION + word_of_int p;
               Some (if nanos \<noteq> 0 then nanos else 1) })"

definition get_thread_usage_ts_old :: "(timeval \<times> timeval) option \<Rightarrow> (int \<times> timespec option) option" where
  "get_thread_usage_ts_old info =
     (case info of
        None \<Rightarrow> Some (-1, None)
      | Some (u, s) \<Rightarrow>
          do { sec \<leftarrow> s32 (tv_s u + tv_s s);
               us \<leftarrow> s32 (tv_us u + tv_us s);
               nsec \<leftarrow> s32 (us * 1000);
               (sec, nsec) \<leftarrow> Some (if nsec \<ge> 1000000000 then (sec + 1, nsec - 1000000000) else (sec, nsec));
               let nsec = (if sec = 0 \<and> nsec = 0 then 1 else nsec);
               Some (0, Some \<lparr>tv_sec = word_of_int sec, tv_nsec = word_of_int nsec\<rparr>) })"

definition get_thread_usage_ns :: "bool \<Rightarrow> kernel \<Rightarrow> u64 \<Rightarrow> u64 option" where
  "get_thread_usage_ns hi k mult =
     (if hi then Some (mach2nanos mult (k_selfusage k)) else get_thread_usage_ns_old (get_thread_usage k))"

definition get_thread_usage_ts :: "bool \<Rightarrow> kernel \<Rightarrow> u64 \<Rightarrow> (int \<times> timespec option) option" where
  "get_thread_usage_ts hi k mult =
     (if hi then Some (if k_selfusage k \<noteq> 0 then 0 else -1, Some (mach2timespec mult (k_selfusage k)))
      else get_thread_usage_ts_old (get_thread_usage k))"

section \<open>The public functions\<close>

text \<open>Setting up the scale if it is not there yet, with the error it reports.\<close>

definition setup_if_needed :: "kernel \<Rightarrow> bool \<Rightarrow> time_state \<Rightarrow> (int \<times> time_state) option" where
  "setup_if_needed k missing s =
     (if missing
      then do { (r, sc) \<leftarrow> setup_mach_mult (timebase (k_readings k)) (fst s); Some (r, (sc, snd s)) }
      else Some (0, s))"

text \<open>The mach time of the clocks that are based on it; \<open>None\<close> for the others.\<close>

definition mach_clock :: "config \<Rightarrow> kernel \<Rightarrow> clockid \<Rightarrow> time_state \<Rightarrow> (u64 \<times> time_state) option option" where
  "mach_clock cf k clk s =
     (case clk of
        CLOCK_MONOTONIC \<Rightarrow> Some (mach_continuous_time (fl cf) (long32 cf) (si0 cf) (k_readings k) (k_absolute k) s)
      | CLOCK_MONOTONIC_RAW \<Rightarrow> Some (mach_continuous_time (fl cf) (long32 cf) (si0 cf) (k_readings k) (k_absolute k) s)
      | CLOCK_MONOTONIC_RAW_APPROX \<Rightarrow>
          Some (mach_continuous_approximate_time (fl cf) (long32 cf) (si0 cf) (k_readings k) (k_absolute k) s)
      | CLOCK_UPTIME_RAW \<Rightarrow> Some (Some (k_absolute k, s))
      | CLOCK_UPTIME_RAW_APPROX \<Rightarrow> Some (Some (mach_approximate_time (k_absolute k), s))
      | _ \<Rightarrow> None)"

definition quantize :: "clockid \<Rightarrow> u64 \<Rightarrow> u64" where
  "quantize clk nanos = (if clk = CLOCK_MONOTONIC then nanos div 1000 * 1000 else nanos)"

definition clock_gettime_nsec_np :: "config \<Rightarrow> kernel \<Rightarrow> clockid \<Rightarrow> time_state
    \<Rightarrow> (u64 \<times> errno option \<times> time_state) option" where
  "clock_gettime_nsec_np cf k clk s =
     do { (_, s) \<leftarrow> setup_if_needed k (mach_mult (fst s) = 0) s;
          case mach_clock cf k clk s of
            Some r \<Rightarrow> do { (mach_time, s) \<leftarrow> r;
                          Some (quantize clk (mach2nanos (mach_mult (fst s)) mach_time), None, s) }
          | None \<Rightarrow>
              (case clk of
                 CLOCK_REALTIME \<Rightarrow>
                   (case k_tod k of
                      None \<Rightarrow> Some (0, None, s)
                    | Some tv \<Rightarrow> do { us \<leftarrow> s32 (tv_us tv * 1000);
                                     Some (word_of_int (tv_s tv) * BILLION + word_of_int us, None, s) })
               | CLOCK_PROCESS_CPUTIME_ID \<Rightarrow>
                   (case k_rusage k of
                      None \<Rightarrow> Some (0, None, s)
                    | Some (u, sy) \<Rightarrow>
                        do { sec \<leftarrow> s64 (tv_s u + tv_s sy);
                             us \<leftarrow> s32 (tv_us u + tv_us sy);
                             us \<leftarrow> s32 (us * 1000);
                             Some (word_of_int sec * BILLION + word_of_int us, None, s) })
               | CLOCK_THREAD_CPUTIME_ID \<Rightarrow>
                   do { ns \<leftarrow> get_thread_usage_ns (hires cf) k (mach_mult (fst s)); Some (ns, None, s) }
               | _ \<Rightarrow> Some (0, Some EINVAL, s)) }"

text \<open>\<open>timeradd\<close>, the macro of the system headers.\<close>

definition timeradd :: "timeval \<Rightarrow> timeval \<Rightarrow> timeval option" where
  "timeradd a b =
     do { sec \<leftarrow> s64 (tv_s a + tv_s b);
          us \<leftarrow> s32 (tv_us a + tv_us b);
          if us \<ge> 1000000 then do { sec \<leftarrow> s64 (sec + 1); Some \<lparr>tv_s = sec, tv_us = us - 1000000\<rparr> }
          else Some \<lparr>tv_s = sec, tv_us = us\<rparr> }"

definition TIMEVAL_TO_TIMESPEC :: "timeval \<Rightarrow> timespec option" where
  "TIMEVAL_TO_TIMESPEC tv =
     do { ns \<leftarrow> s32 (tv_us tv * 1000); Some \<lparr>tv_sec = word_of_int (tv_s tv), tv_nsec = word_of_int ns\<rparr> }"

definition clock_gettime :: "config \<Rightarrow> kernel \<Rightarrow> clockid \<Rightarrow> time_state
    \<Rightarrow> (int \<times> timespec option \<times> errno option \<times> time_state) option" where
  "clock_gettime cf k clk s =
     do { (mserr, s) \<leftarrow> setup_if_needed k (mach_mult (fst s) = 0) s;
          case mach_clock cf k clk s of
            Some r \<Rightarrow> do { (mach_time, s) \<leftarrow> r;
                          Some (mserr, Some (nanos2timespec (quantize clk (mach2nanos (mach_mult (fst s)) mach_time))), None, s) }
          | None \<Rightarrow>
              (case clk of
                 CLOCK_REALTIME \<Rightarrow>
                   (case k_tod k of
                      None \<Rightarrow> Some (-1, None, None, s)
                    | Some tv \<Rightarrow> do { ts \<leftarrow> TIMEVAL_TO_TIMESPEC tv; Some (0, Some ts, None, s) })
               | CLOCK_PROCESS_CPUTIME_ID \<Rightarrow>
                   (case k_rusage k of
                      None \<Rightarrow> Some (-1, None, None, s)
                    | Some (u, sy) \<Rightarrow>
                        do { tv \<leftarrow> timeradd u sy; ts \<leftarrow> TIMEVAL_TO_TIMESPEC tv; Some (0, Some ts, None, s) })
               | CLOCK_THREAD_CPUTIME_ID \<Rightarrow>
                   do { (r, ts) \<leftarrow> get_thread_usage_ts (hires cf) k (mach_mult (fst s)); Some (r, ts, None, s) }
               | _ \<Rightarrow> Some (-1, None, Some EINVAL, s)) }"

definition res_micros :: timespec where
  "res_micros = \<lparr>tv_sec = 0, tv_nsec = 1000\<rparr>"

definition clock_getres :: "config \<Rightarrow> kernel \<Rightarrow> clockid \<Rightarrow> time_state
    \<Rightarrow> (int \<times> timespec option \<times> errno option \<times> time_state) option" where
  "clock_getres cf k clk s =
     do { (mserr, s) \<leftarrow> setup_if_needed k (res_nsec (fst s) = 0) s;
          let micros = Some (0, Some res_micros, None, s);
          let mach = Some (mserr, Some \<lparr>tv_sec = 0, tv_nsec = res_nsec (fst s)\<rparr>, None, s);
          case clk of
            CLOCK_REALTIME \<Rightarrow> micros
          | CLOCK_PROCESS_CPUTIME_ID \<Rightarrow> micros
          | CLOCK_MONOTONIC \<Rightarrow> micros
          | CLOCK_THREAD_CPUTIME_ID \<Rightarrow> if hires cf then mach else micros
          | Other_clock \<Rightarrow> Some (-1, None, Some EINVAL, s)
          | _ \<Rightarrow> mach }"

text \<open>\<open>clock_settime\<close>: the result, the error number, and the time handed to \<open>settimeofday\<close>.\<close>

definition clock_settime :: "kernel \<Rightarrow> clockid \<Rightarrow> int \<times> int \<Rightarrow> int \<times> errno option \<times> timeval option" where
  "clock_settime k clk ts =
     (case clk of
        CLOCK_REALTIME \<Rightarrow>
          (k_settod k, None, Some \<lparr>tv_s = fst ts, tv_us = to_int32 (if snd ts < 0 then - (- snd ts div 1000) else snd ts div 1000)\<rparr>)
      | _ \<Rightarrow> (-1, Some EINVAL, None))"

definition TIME_UTC :: int where "TIME_UTC = 1"

definition timespec_get :: "config \<Rightarrow> kernel \<Rightarrow> int \<Rightarrow> time_state \<Rightarrow> (int \<times> timespec option \<times> time_state) option" where
  "timespec_get cf k base s =
     (if base = TIME_UTC
      then do { (r, ts, _, s) \<leftarrow> clock_gettime cf k CLOCK_REALTIME s;
                if r = -1 then Some (0, ts, s) else Some (base, ts, s) }
      else Some (0, None, s))"


section \<open>Lemmas\<close>

definition ns_of :: "timespec \<Rightarrow> u64" where
  "ns_of ts = tv_sec ts * BILLION + tv_nsec ts"

lemma ns_of_nanos2timespec: "ns_of (nanos2timespec n) = n"
proof -
  let ?t = "nanos2timespec n"
  have "unat (tv_sec ?t) * 1000000000 + unat (tv_nsec ?t) = unat n"
    by (simp add: nanos2timespec_eq)
  then have "(of_nat (unat (tv_sec ?t) * 1000000000 + unat (tv_nsec ?t)) :: u64) = of_nat (unat n)" by (simp only:)
  then show ?thesis by (simp add: ns_of_def)
qed

text \<open>The system's own structures: microseconds below a million, times that are not negative.\<close>

definition timeval_ok :: "int \<Rightarrow> timeval \<Rightarrow> bool" where
  "timeval_ok b tv \<longleftrightarrow> 0 \<le> tv_s tv \<and> tv_s tv < b \<and> 0 \<le> tv_us tv \<and> tv_us tv < 1000000"

definition kernel_ok :: "kernel \<Rightarrow> bool" where
  "kernel_ok k \<longleftrightarrow> (\<forall>tv. k_tod k = Some tv \<longrightarrow> timeval_ok (2 ^ 63) tv)
     \<and> (\<forall>u s. k_rusage k = Some (u, s) \<longrightarrow> timeval_ok (2 ^ 61) u \<and> timeval_ok (2 ^ 61) s)
     \<and> (\<forall>u s. k_thread k = Some (u, s) \<longrightarrow> timeval_ok (2 ^ 30) u \<and> timeval_ok (2 ^ 30) s)
     \<and> (\<forall>n d. timebase (k_readings k) = Some (n, d) \<longrightarrow> d \<noteq> 0)"

lemmas kernel_rules = kernel_ok_def timeval_ok_def

lemma mult_1000_ok: "0 \<le> u \<Longrightarrow> u < 2000000 \<Longrightarrow> s32 (u * 1000) = Some (u * 1000)"
  by (intro s32_ok) simp_all

text \<open>Both thread clocks, old variant.\<close>

lemma thread_usage_old_ok:
  assumes "timeval_ok (2 ^ 30) u" and "timeval_ok (2 ^ 30) s"
  shows "\<exists>ns ts. get_thread_usage_ns_old (Some (u, s)) = Some ns
    \<and> get_thread_usage_ts_old (Some (u, s)) = Some (0, Some ts) \<and> ns = ns_of ts \<and> unat (tv_nsec ts) < 1000000000"
proof -
  define sec us where "sec = tv_s u + tv_s s" and "us = tv_us u + tv_us s"
  have b: "0 \<le> sec" "sec < 2 ^ 31" "0 \<le> us" "us < 2000000"
    using assms by (simp_all add: sec_def us_def timeval_ok_def)
  have c: "s32 sec = Some sec" "s32 us = Some us" "s32 (us * 1000) = Some (us * 1000)"
    using b by (simp_all add: s32_ok)
  note fold = sec_def [symmetric] us_def [symmetric]
  define q r where "q = (if us * 1000 \<ge> 1000000000 then sec + 1 else sec)"
    and "r = (if us * 1000 \<ge> 1000000000 then us * 1000 - 1000000000 else us * 1000)"
  define r' where "r' = (if q = 0 \<and> r = 0 then 1 else r)"
  have qr: "q * 1000000000 + r = sec * 1000000000 + us * 1000" "0 \<le> r" "r < 1000000000" "0 \<le> q"
    using b by (simp_all add: q_def r_def)
  have ts: "get_thread_usage_ts_old (Some (u, s)) = Some (0, Some \<lparr>tv_sec = word_of_int q, tv_nsec = word_of_int r'\<rparr>)"
    using c by (simp add: get_thread_usage_ts_old_def fold Let_def q_def r_def r'_def)
  define n where "n = sec * 1000000000 + us * 1000"
  have n: "0 \<le> n" "n < 2 ^ 64" using b by (simp_all add: n_def)
  have w: "word_of_int sec * BILLION + word_of_int (us * 1000) = (word_of_int n :: u64)" by (simp add: n_def)
  have "(word_of_int n :: u64) = 0 \<longleftrightarrow> n = 0"
    using n by (auto simp: word_of_int_eq_0_iff take_bit_int_eq_self dest: zdvd_imp_le)
  moreover have "n = 0 \<longleftrightarrow> q = 0 \<and> r = 0" using qr n_def by auto
  ultimately have z: "(word_of_int n :: u64) = 0 \<longleftrightarrow> q = 0 \<and> r = 0" by simp
  have "get_thread_usage_ns_old (Some (u, s)) = Some (if (word_of_int n :: u64) \<noteq> 0 then word_of_int n else 1)"
    using c w by (simp add: get_thread_usage_ns_old_def fold Let_def)
  moreover have "(if (word_of_int n :: u64) \<noteq> 0 then word_of_int n else 1) = ns_of \<lparr>tv_sec = word_of_int q, tv_nsec = word_of_int r'\<rparr>"
  proof -
    have "(word_of_int n :: u64) = word_of_int q * BILLION + word_of_int r"
      using qr(1) n_def by (metis of_int_add of_int_mult of_int_numeral)
    then show ?thesis using z by (auto simp: ns_of_def r'_def)
  qed
  moreover have "unat (word_of_int r' :: u64) < 1000000000"
  proof -
    have "0 \<le> r'" "r' < 1000000000" using qr by (simp_all add: r'_def)
    then show ?thesis by (simp add: unat_eq_nat_uint uint_word_of_int nat_less_iff)
  qed
  ultimately show ?thesis using ts by auto
qed


lemma unat_word_of_int_small: "0 \<le> r \<Longrightarrow> r < 1000000000 \<Longrightarrow> unat (word_of_int r :: u64) < 1000000000"
  by (simp add: unat_eq_nat_uint uint_word_of_int nat_less_iff)

lemma rusage_ok:
  assumes "timeval_ok (2 ^ 61) u" and "timeval_ok (2 ^ 61) s"
  shows "\<exists>sec us ts. s64 (tv_s u + tv_s s) = Some sec \<and> s32 (tv_us u + tv_us s) = Some us
    \<and> s32 (us * 1000) = Some (us * 1000)
    \<and> do { tv \<leftarrow> timeradd u s; TIMEVAL_TO_TIMESPEC tv } = Some ts
    \<and> word_of_int sec * BILLION + word_of_int (us * 1000) = ns_of ts \<and> unat (tv_nsec ts) < 1000000000"
proof -
  define sec us where "sec = tv_s u + tv_s s" and "us = tv_us u + tv_us s"
  have b: "0 \<le> sec" "sec < 2 ^ 62" "0 \<le> us" "us < 2000000"
    using assms by (simp_all add: sec_def us_def timeval_ok_def)
  have c: "s64 sec = Some sec" "s64 (sec + 1) = Some (sec + 1)" "s32 us = Some us" "s32 (us * 1000) = Some (us * 1000)"
    using b by (simp_all add: s32_ok s64_ok)
  note fold = sec_def [symmetric] us_def [symmetric]
  define q r where "q = (if us \<ge> 1000000 then sec + 1 else sec)"
    and "r = (if us \<ge> 1000000 then us - 1000000 else us)"
  have qr: "q * 1000000000 + r * 1000 = sec * 1000000000 + us * 1000" "0 \<le> r" "r < 1000000"
    using b by (simp_all add: q_def r_def)
  have "timeradd u s = Some \<lparr>tv_s = q, tv_us = r\<rparr>"
    using c by (simp add: timeradd_def fold q_def r_def)
  then have ts: "do { tv \<leftarrow> timeradd u s; TIMEVAL_TO_TIMESPEC tv } =
      Some \<lparr>tv_sec = word_of_int q, tv_nsec = word_of_int (r * 1000)\<rparr>"
    using qr by (simp add: TIMEVAL_TO_TIMESPEC_def mult_1000_ok)
  have "word_of_int sec * BILLION + word_of_int (us * 1000) = (word_of_int (sec * 1000000000 + us * 1000) :: u64)"
    by simp
  also have "\<dots> = ns_of \<lparr>tv_sec = word_of_int q, tv_nsec = word_of_int (r * 1000)\<rparr>"
    unfolding qr(1) [symmetric] by (simp add: ns_of_def)
  finally show ?thesis
    using c ts qr unat_word_of_int_small [of "r * 1000"] unfolding fold by auto
qed

lemma realtime_ok:
  assumes "timeval_ok (2 ^ 63) tv"
  shows "\<exists>ts. s32 (tv_us tv * 1000) = Some (tv_us tv * 1000) \<and> TIMEVAL_TO_TIMESPEC tv = Some ts
    \<and> word_of_int (tv_s tv) * BILLION + word_of_int (tv_us tv * 1000) = ns_of ts \<and> unat (tv_nsec ts) < 1000000000"
proof -
  have b: "0 \<le> tv_us tv" "tv_us tv < 1000000" using assms by (simp_all add: timeval_ok_def)
  then have "s32 (tv_us tv * 1000) = Some (tv_us tv * 1000)" by (intro mult_1000_ok) simp_all
  then show ?thesis
    using b unat_word_of_int_small [of "tv_us tv * 1000"] by (simp add: TIMEVAL_TO_TIMESPEC_def ns_of_def)
qed

lemma mach_clock_None: "mach_clock cf k clk s = None \<longleftrightarrow>
    clk \<in> {CLOCK_REALTIME, CLOCK_PROCESS_CPUTIME_ID, CLOCK_THREAD_CPUTIME_ID, Other_clock}"
  by (cases clk) (simp_all add: mach_clock_def)

lemma nsec_lt: "unat (tv_nsec (nanos2timespec n)) < 1000000000"
  by (simp add: nanos2timespec_eq)

text \<open>The result of \<open>clock_gettime\<close> and that of \<open>clock_gettime_nsec_np\<close>, side by side.\<close>

lemma clock_gettime_both:
  assumes "kernel_ok k" and "setup_if_needed k (mach_mult (fst s) = 0) s = Some (e, s1)"
    and "\<And>r. mach_clock cf k clk s1 = Some r \<Longrightarrow> \<exists>m s2. r = Some (m, s2)"
  shows "\<exists>r ts en ns s'. clock_gettime cf k clk s = Some (r, ts, en, s')
    \<and> clock_gettime_nsec_np cf k clk s = Some (ns, en, s') \<and> (en = None \<longleftrightarrow> clk \<noteq> Other_clock)
    \<and> (r = 0 \<longrightarrow> (\<exists>t. ts = Some t \<and> ns = ns_of t \<and> unat (tv_nsec t) < 1000000000))"
proof (cases "mach_clock cf k clk s1")
  case (Some r)
  with assms(3) obtain m s2 where "mach_clock cf k clk s1 = Some (Some (m, s2))" by blast
  moreover from this have "clk \<noteq> Other_clock" by (auto simp: mach_clock_def)
  ultimately show ?thesis
    using assms(2) by (simp add: clock_gettime_def clock_gettime_nsec_np_def ns_of_nanos2timespec nsec_lt)
next
  case None
  then consider (rt) "clk = CLOCK_REALTIME" | (p) "clk = CLOCK_PROCESS_CPUTIME_ID"
    | (t) "clk = CLOCK_THREAD_CPUTIME_ID" | (o) "clk = Other_clock" by (auto simp: mach_clock_None)
  then show ?thesis
  proof cases
    case rt
    then show ?thesis
    proof (cases "k_tod k")
      case (Some tv)
      with assms(1) have "timeval_ok (2 ^ 63) tv" by (simp add: kernel_ok_def)
      from realtime_ok [OF this] Some rt None assms(2) show ?thesis
        by (auto simp: clock_gettime_def clock_gettime_nsec_np_def)
    qed (use rt None assms(2) in \<open>simp add: clock_gettime_def clock_gettime_nsec_np_def\<close>)
  next
    case p
    then show ?thesis
    proof (cases "k_rusage k")
      case (Some us)
      obtain u sy where us: "us = (u, sy)" by (cases us)
      with assms(1) Some have "timeval_ok (2 ^ 61) u" "timeval_ok (2 ^ 61) sy" by (simp_all add: kernel_ok_def)
      from rusage_ok [OF this] obtain sec ms ts where
        x: "s64 (tv_s u + tv_s sy) = Some sec" "s32 (tv_us u + tv_us sy) = Some ms" "s32 (ms * 1000) = Some (ms * 1000)"
        "do { tv \<leftarrow> timeradd u sy; TIMEVAL_TO_TIMESPEC tv } = Some ts"
        "word_of_int sec * BILLION + word_of_int (ms * 1000) = ns_of ts" "unat (tv_nsec ts) < 1000000000" by blast
      then obtain tv where "timeradd u sy = Some tv" "TIMEVAL_TO_TIMESPEC tv = Some ts"
        by (auto simp: bind_eq_Some_conv)
      with x Some us p None assms(2) show ?thesis
        by (simp add: clock_gettime_def clock_gettime_nsec_np_def)
    qed (use p None assms(2) in \<open>simp add: clock_gettime_def clock_gettime_nsec_np_def\<close>)
  next
    case t
    have "\<exists>ns r ts. get_thread_usage_ns (hires cf) k m = Some ns \<and> get_thread_usage_ts (hires cf) k m = Some (r, ts)
        \<and> (r = 0 \<longrightarrow> (\<exists>t. ts = Some t \<and> ns = ns_of t \<and> unat (tv_nsec t) < 1000000000))" for m
    proof (cases "hires cf")
      case True
      then show ?thesis
        by (simp add: get_thread_usage_ns_def get_thread_usage_ts_def mach2timespec_def ns_of_nanos2timespec nsec_lt)
    next
      case False
      show ?thesis
      proof (cases "k_thread k")
        case (Some us)
        obtain u sy where us: "us = (u, sy)" by (cases us)
        with assms(1) Some have "timeval_ok (2 ^ 30) u" "timeval_ok (2 ^ 30) sy" by (simp_all add: kernel_ok_def)
        from thread_usage_old_ok [OF this] Some us False show ?thesis
          by (auto simp: get_thread_usage_ns_def get_thread_usage_ts_def)
      qed (use False in \<open>simp add: get_thread_usage_ns_def get_thread_usage_ts_def get_thread_usage_ns_old_def
             get_thread_usage_ts_old_def\<close>)
    qed
    then obtain ns r ts where "get_thread_usage_ns (hires cf) k (mach_mult (fst s1)) = Some ns"
      "get_thread_usage_ts (hires cf) k (mach_mult (fst s1)) = Some (r, ts)"
      "r = 0 \<longrightarrow> (\<exists>t. ts = Some t \<and> ns = ns_of t \<and> unat (tv_nsec t) < 1000000000)" by blast
    with t None assms(2) show ?thesis
      by (simp add: clock_gettime_def clock_gettime_nsec_np_def)
  next
    case o
    with None assms(2) show ?thesis by (simp add: clock_gettime_def clock_gettime_nsec_np_def)
  qed
qed


definition scale_ok :: "scale \<Rightarrow> bool" where
  "scale_ok sc \<longleftrightarrow> (numer sc \<noteq> 0 \<longrightarrow> denom sc \<noteq> 0)"

lemma setup_mach_mult_ok:
  assumes "\<And>n d. tb = Some (n, d) \<Longrightarrow> d \<noteq> 0" and "scale_ok sc"
  shows "\<exists>e sc'. setup_mach_mult tb sc = Some (e, sc')"
  using assms by (cases "numer sc = 0"; cases tb)
    (auto simp: setup_mach_mult_def get_mach_scale_def scale_ok_def Let_def)

lemma setup_if_needed_ok:
  assumes "kernel_ok k" and "scale_ok (fst s)"
  shows "\<exists>e s1. setup_if_needed k b s = Some (e, s1) \<and> snd s1 = snd s"
proof -
  have "\<exists>e sc'. setup_mach_mult (timebase (k_readings k)) (fst s) = Some (e, sc')"
    by (rule setup_mach_mult_ok) (use assms in \<open>simp_all add: kernel_ok_def\<close>)
  then show ?thesis by (cases s) (auto simp: setup_if_needed_def)
qed

lemma mach_clock_valid:
  "sleep_offset_valid (snd s) \<Longrightarrow> mach_clock cf k clk s = Some r \<Longrightarrow> \<exists>m s2. r = Some (m, s2)"
  by (cases clk) (auto simp: mach_clock_def mach_continuous_time_def mach_continuous_approximate_time_def)

section \<open>Properties\<close>

text \<open>C20: For every clock, and for both variants of the thread clock, \<open>clock_gettime\<close> and
  \<open>clock_gettime_nsec_np\<close> called with the same state and the same answers of the system both return;
  they set the same error number, EINVAL exactly for an unknown clock, and when the former succeeds
  its seconds and nanoseconds are the nanoseconds of the latter, with a nanosecond part below one
  second.\<close>

theorem clock_gettime_agrees:
  assumes "kernel_ok k" and "scale_ok (fst s)" and "sleep_offset_valid (snd s)"
  shows "\<exists>r ts en ns s'. clock_gettime cf k clk s = Some (r, ts, en, s')
    \<and> clock_gettime_nsec_np cf k clk s = Some (ns, en, s') \<and> (en = None \<longleftrightarrow> clk \<noteq> Other_clock)
    \<and> (r = 0 \<longrightarrow> (\<exists>t. ts = Some t \<and> ns = ns_of t \<and> unat (tv_nsec t) < 1000000000))"
proof -
  from setup_if_needed_ok [OF assms(1,2)] obtain e s1 where
    s1: "setup_if_needed k (mach_mult (fst s) = 0) s = Some (e, s1)" "snd s1 = snd s" by blast
  have "sleep_offset_valid (snd s1)" using s1(2) assms(3) by simp
  from clock_gettime_both [OF assms(1) s1(1) mach_clock_valid [OF this]] show ?thesis .
qed

text \<open>The resolution \<open>clock_getres\<close> reports for the clocks based on mach time is the length of one mach unit
  in nanoseconds, rounded up, computed from the multiplier that the conversions use.\<close>

theorem clock_getres_rounds_up:
  assumes "timebase (k_readings k) = Some (n, d)" and "n \<noteq> 0" and "d \<noteq> 0" and "unat n \<le> 1000000000"
    and "clk \<in> {CLOCK_MONOTONIC_RAW, CLOCK_MONOTONIC_RAW_APPROX, CLOCK_UPTIME_RAW, CLOCK_UPTIME_RAW_APPROX}"
  shows "\<exists>ts s'. clock_getres cf k clk (scale0, ss) = Some (0, Some ts, None, s') \<and> tv_sec ts = 0
    \<and> mach_mult (fst s') = mult_of n d
    \<and> unat (mach_mult (fst s')) \<le> unat (tv_nsec ts) * 2 ^ 34
    \<and> unat (tv_nsec ts) * 2 ^ 34 < unat (mach_mult (fst s')) + 2 ^ 34"
proof -
  let ?m = "mult_of n d" and ?r = "drop_bit HIGH_SHIFT (mult_of n d + (NULL_SCALE - 1))"
  let ?sc = "scale0\<lparr>numer := n, denom := d, mach_mult := ?m, res_nsec := ?r\<rparr>"
  have made: "setup_mach_mult (Some (n, d)) scale0 = Some (0, ?sc)"
    using assms(3) by (simp add: setup_mach_mult_def get_mach_scale_def scale0_def Let_def)
  have run: "clock_getres cf k clk (scale0, ss) = Some (0, Some \<lparr>tv_sec = 0, tv_nsec = ?r\<rparr>, None, ?sc, ss)"
    using assms(1,5) made by (auto simp: clock_getres_def setup_if_needed_def scale0_def)
  have d: "0 < unat d" using assms(3) by (simp add: unat_gt_0)
  have n30: "unat n < 2 ^ 30" using assms(4) by simp
  have "unat ?m = (unat n * 2 ^ 34 + unat d div 2) div unat d" by (rule mult_of_eq [OF n30 d])
  also have "\<dots> \<le> unat n * 2 ^ 34 + unat d div 2" by simp
  also have "\<dots> < 2 ^ 64 - 2 ^ 34" using assms(4) unat_less_32 [of d] by simp
  finally have m: "unat ?m < 2 ^ 64 - 2 ^ 34" .
  have "unat (NULL_SCALE - 1) = 2 ^ 34 - 1" by (simp add: shifts)
  then have "unat (?m + (NULL_SCALE - 1)) = unat ?m + (2 ^ 34 - 1)" using m by (subst unat_add_ok64) simp_all
  then have r: "unat ?r = (unat ?m + (2 ^ 34 - 1)) div 2 ^ 34"
    unfolding unat_drop_bit_eq shifts(2) by (simp only: drop_bit_eq_div)
  have "unat ?m \<le> unat ?r * 2 ^ 34" "unat ?r * 2 ^ 34 < unat ?m + 2 ^ 34"
    unfolding r using div_mult_mod_eq [of "unat ?m + (2 ^ 34 - 1)" "2 ^ 34"] mod_less_divisor [of "2 ^ 34" "unat ?m + (2 ^ 34 - 1)"]
    by simp_all
  then show ?thesis using run by simp
qed

section \<open>Instances\<close>

definition demo_kernel :: kernel where
  "demo_kernel = \<lparr>k_tod = Some (demo_tv 1700000000 250000), k_rusage = Some (demo_tv 1 600000, demo_tv 2 700000),
     k_thread = Some (demo_tv 0 999999, demo_tv 0 2), k_selfusage = 0, k_absolute = 24000000,
     k_readings = no_readings\<lparr>timebase := Some (125, 3)\<rparr>, k_settod = 0\<rparr>"

definition demo_config :: config where
  "demo_config = \<lparr>hires = False, long32 = False, fl = id, si0 = demo_info\<rparr>"

theorem clock_gettime_agrees_witness:
  "\<exists>r ts s'. clock_gettime demo_config demo_kernel CLOCK_PROCESS_CPUTIME_ID (scale0, demo_state True 0 0)
       = Some (r, ts, None, s')
     \<and> (r = 0 \<longrightarrow> (\<exists>t. ts = Some t \<and> unat (tv_nsec t) < 1000000000))"
proof -
  have "kernel_ok demo_kernel" "scale_ok (fst (scale0, demo_state True 0 0))"
    "sleep_offset_valid (snd (scale0, demo_state True 0 0))"
    by (simp_all add: kernel_ok_def timeval_ok_def demo_kernel_def demo_tv_def no_readings_def scale_ok_def
        scale0_def demo_state_def)
  from clock_gettime_agrees [OF this, of demo_config CLOCK_PROCESS_CPUTIME_ID] show ?thesis by auto
qed

theorem clock_getres_rounds_up_witness:
  "\<exists>ts s'. clock_getres demo_config demo_kernel CLOCK_UPTIME_RAW (scale0, demo_state True 0 0) = Some (0, Some ts, None, s')
     \<and> unat (tv_nsec ts) * 2 ^ 34 < unat (mult_of 125 3) + 2 ^ 34"
proof -
  have "timebase (k_readings demo_kernel) = Some (125, 3)" by (simp add: demo_kernel_def)
  from clock_getres_rounds_up [OF this, of CLOCK_UPTIME_RAW demo_config "demo_state True 0 0"] show ?thesis by auto
qed

end
