(* ===== verification/Packet.thy ===== *)
theory Packet
  imports Legacy_Prelude
begin

text \<open>
  Model of \<open>src/packet.c\<close>: the wrapper of \<open>recvmsg\<close> that repairs the timestamps in the control
  messages.  A control buffer is its bytes; message headers are read and written in the byte
  order of the machine (\<open>le\<close> for little endian) and walked with the macros of the system
  headers.  The build with the format fix has a 16-byte \<open>struct timeval\<close>, that with the Rosetta
  fix an 8-byte one.  \<open>None\<close> is an access outside an object or a walk that does not end.
\<close>

section \<open>Loads and stores\<close>

fun from_le :: "byte list \<Rightarrow> nat" where
  "from_le [] = 0"
| "from_le (b # bs) = unat b + 256 * from_le bs"

fun to_le :: "nat \<Rightarrow> nat \<Rightarrow> byte list" where
  "to_le 0 v = []"
| "to_le (Suc n) v = of_nat (v mod 256) # to_le n (v div 256)"

definition load :: "bool \<Rightarrow> byte list \<Rightarrow> nat" where
  "load le bs = from_le (if le then bs else rev bs)"

definition store :: "bool \<Rightarrow> nat \<Rightarrow> nat \<Rightarrow> byte list" where
  "store le n v = (if le then to_le n v else rev (to_le n v))"

definition ld :: "bool \<Rightarrow> nat \<Rightarrow> byte list \<Rightarrow> nat \<Rightarrow> nat option" where
  "ld le n m p = do { bs \<leftarrow> mslice m p n; Some (load le bs) }"

text \<open>The signed value of an \<open>n\<close>-byte field.\<close>

definition signed_of :: "nat \<Rightarrow> nat \<Rightarrow> int" where
  "signed_of n v = (if v < 2 ^ (8 * n - 1) then int v else int v - 2 ^ (8 * n))"

definition unsigned_of :: "nat \<Rightarrow> int \<Rightarrow> nat" where
  "unsigned_of n x = nat (x mod 2 ^ (8 * n))"

section \<open>Control messages\<close>

definition SOL_SOCKET :: nat where "SOL_SOCKET = 65535"
definition SCM_TIMESTAMP :: nat where "SCM_TIMESTAMP = 2"
definition HDR :: nat where "HDR = 12"

definition align4 :: "nat \<Rightarrow> nat" where
  "align4 n = (n + 3) div 4 * 4"

text \<open>\<open>CMSG_FIRSTHDR\<close> and \<open>CMSG_NXTHDR\<close>, for control data of \<open>n\<close> bytes.\<close>

definition first_hdr :: "nat \<Rightarrow> nat option" where
  "first_hdr n = (if n \<ge> HDR then Some 0 else None)"

definition next_hdr :: "nat \<Rightarrow> nat \<Rightarrow> nat \<Rightarrow> nat option" where
  "next_hdr n p len = (if p + align4 len + align4 HDR > n then None else Some (p + align4 len))"

definition CMSG_DATALEN :: "nat \<Rightarrow> int" where
  "CMSG_DATALEN len = int len - int HDR"

section \<open>Looking up the system's function\<close>

datatype fv_type = fv_basic | fv_posix | fv_nocancel

text \<open>\<open>fv_adrs\<close> is the cache, \<open>dlsym\<close> looks a variant up by its name.\<close>

definition fv_name :: "fv_type \<Rightarrow> string" where
  "fv_name t = (case t of fv_basic \<Rightarrow> ''recvmsg'' | fv_posix \<Rightarrow> ''recvmsg$UNIX2003''
     | fv_nocancel \<Rightarrow> ''recvmsg$NOCANCEL'')"

datatype 'f found = Found 'f | Abort

definition sys_recvmsg :: "(string \<Rightarrow> 'f option) \<Rightarrow> (fv_type \<Rightarrow> 'f option) \<Rightarrow> fv_type
    \<Rightarrow> 'f found \<times> (fv_type \<Rightarrow> 'f option)" where
  "sys_recvmsg dlsym adrs t =
     (case adrs t of
        Some f \<Rightarrow> (Found f, adrs)
      | None \<Rightarrow>
          (case dlsym (fv_name t) of
             Some f \<Rightarrow> (Found f, adrs(t := Some f))
           | None \<Rightarrow>
               (case dlsym (fv_name fv_basic) of
                  Some f \<Rightarrow> (Found f, adrs(t := Some f))
                | None \<Rightarrow> (Abort, adrs(t := None)))))"

section \<open>The format fix\<close>

definition MAX_TV_USEC :: nat where "MAX_TV_USEC = 1000000"

definition TV :: nat where "TV = 16"

text \<open>The bytes of a \<open>struct timeval\<close> with a 64-bit \<open>tv_sec\<close> and a 32-bit \<open>tv_usec\<close>; \<open>old\<close> is what
  the destination held, which keeps its padding.\<close>

definition put_tv :: "bool \<Rightarrow> int \<Rightarrow> int \<Rightarrow> byte list \<Rightarrow> byte list" where
  "put_tv le sec us old = store le 8 (unsigned_of 8 sec) @ store le 4 (unsigned_of 4 us) @ drop 12 old"

text \<open>\<open>fetch_cmsg_timeval\<close>: \<open>data\<close> is the position of the payload in \<open>c\<close>, \<open>old\<close> the 16 bytes of the
  destination.\<close>

definition fetch_cmsg_timeval :: "bool \<Rightarrow> byte list \<Rightarrow> nat \<Rightarrow> nat \<Rightarrow> byte list \<Rightarrow> byte list option" where
  "fetch_cmsg_timeval le c p len old =
     (let data = p + HDR; datalen = to_int32 (CMSG_DATALEN len) in
      if datalen = int TV then mslice c data TV
      else if datalen = 8
      then do { s \<leftarrow> ld le 4 c data; u \<leftarrow> ld le 4 c (data + 4);
                Some (put_tv le (int s) (signed_of 4 u) old) }
      else if datalen = 12
      then do { s \<leftarrow> ld le 8 c data; u \<leftarrow> ld le 4 c (data + 8);
                Some (put_tv le (signed_of 8 s) (signed_of 4 u) old) }
      else if datalen = 16
      then do { s \<leftarrow> ld le 8 c data; u0 \<leftarrow> ld le 4 c (data + 8); u1 \<leftarrow> ld le 4 c (data + 12);
                if le then Some (put_tv le (signed_of 8 s) (signed_of 4 u0) old)
                else if u0 = 0
                then Some (put_tv le (signed_of 8 s) (signed_of 4 (if u1 < MAX_TV_USEC then u1 else u0)) old)
                else if u0 < MAX_TV_USEC then Some (put_tv le (signed_of 8 s) (signed_of 4 u0) old)
                else Some (replicate TV 0) }
      else Some (replicate TV 0))"

partial_function (option) check_loop :: "bool \<Rightarrow> byte list \<Rightarrow> nat \<Rightarrow> nat \<Rightarrow> u32 \<Rightarrow> bool \<Rightarrow> (bool \<times> u32) option" where
  "check_loop le c n p newlen need =
     do { len \<leftarrow> ld le 4 c p;
          level \<leftarrow> ld le 4 c (p + 4);
          ty \<leftarrow> ld le 4 c (p + 8);
          let lenadj = (if ty = SCM_TIMESTAMP then to_int32 (int TV - CMSG_DATALEN len) else 0);
          let (newlen, need) = (if level = SOL_SOCKET
                                then (newlen + (of_nat len + word_of_int lenadj), need \<or> lenadj \<noteq> 0)
                                else (newlen, need));
          case next_hdr n p len of None \<Rightarrow> Some (need, newlen) | Some q \<Rightarrow> check_loop le c n q newlen need }"

definition check_cmsg_lengths :: "bool \<Rightarrow> byte list \<Rightarrow> nat \<Rightarrow> (bool \<times> u32) option" where
  "check_cmsg_lengths le c n =
     (case first_hdr n of None \<Rightarrow> Some (False, 0) | Some p \<Rightarrow> check_loop le c n p 0 False)"

text \<open>The loop of \<open>fix_cmsg_formats\<close>: \<open>o\<close> is the position of \<open>newcmsg\<close> in \<open>cbuf\<close>.\<close>

partial_function (option) fix_loop :: "bool \<Rightarrow> byte list \<Rightarrow> nat \<Rightarrow> nat \<Rightarrow> byte list \<Rightarrow> nat \<Rightarrow> (byte list \<times> nat) option" where
  "fix_loop le c n p cbuf ofs =
     do { len \<leftarrow> ld le 4 c p;
          level \<leftarrow> ld le 4 c (p + 4);
          ty \<leftarrow> ld le 4 c (p + 8);
          (cbuf, ofs) \<leftarrow>
            (if level = SOL_SOCKET \<and> ty = SCM_TIMESTAMP
             then do { h \<leftarrow> mslice c p HDR;
                       cbuf \<leftarrow> mblit cbuf ofs h;
                       cbuf \<leftarrow> mblit cbuf ofs (store le 4 (HDR + TV));
                       old \<leftarrow> mslice cbuf (ofs + HDR) TV;
                       tv \<leftarrow> fetch_cmsg_timeval le c p len old;
                       cbuf \<leftarrow> mblit cbuf (ofs + HDR) tv;
                       Some (cbuf, ofs + (HDR + TV)) }
             else do { m \<leftarrow> mslice c p len;
                       cbuf \<leftarrow> mblit cbuf ofs m;
                       Some (cbuf, ofs + len) });
          case next_hdr n p len of None \<Rightarrow> Some (cbuf, ofs) | Some q \<Rightarrow> fix_loop le c n q cbuf ofs }"

text \<open>The control data and its length afterwards; \<open>cbuf\<close> is the uninitialised local buffer.\<close>

definition fix_cmsg_formats :: "bool \<Rightarrow> byte list \<Rightarrow> byte list \<Rightarrow> nat \<Rightarrow> u32 \<Rightarrow> (byte list \<times> nat) option" where
  "fix_cmsg_formats le cbuf c n newlen =
     (if unat newlen > length cbuf then Some (c, n)
      else do { (cbuf, ofs) \<leftarrow> (case first_hdr n of None \<Rightarrow> Some (cbuf, 0) | Some p \<Rightarrow> fix_loop le c n p cbuf 0);
                if ofs \<noteq> unat newlen then Some (c, n)
                else do { new \<leftarrow> mslice cbuf 0 (unat newlen);
                          c \<leftarrow> mblit c 0 new;
                          Some (c, unat newlen) } })"

section \<open>The Rosetta fix\<close>

text \<open>\<open>sysctl\<close> is the answer to \<open>sysctl.proc_native\<close>, if there is one.\<close>

definition check_rosetta :: "int option \<Rightarrow> int" where
  "check_rosetta native = (case native of None \<Rightarrow> -1 | Some v \<Rightarrow> if v \<noteq> 0 then -1 else 1)"

text \<open>In-place byte swap of the \<open>n\<close> bytes at \<open>p\<close> (\<open>BYTE_SWAP_INPLACE\<close> of \<open>src/endian.h\<close>).\<close>

definition byte_swap :: "byte list \<Rightarrow> nat \<Rightarrow> nat \<Rightarrow> byte list option" where
  "byte_swap c p n = do { bs \<leftarrow> mslice c p n; mblit c p (rev bs) }"

partial_function (option) endian_loop :: "bool \<Rightarrow> nat \<Rightarrow> nat \<Rightarrow> byte list \<Rightarrow> byte list option" where
  "endian_loop le n p c =
     do { len \<leftarrow> ld le 4 c p;
          level \<leftarrow> ld le 4 c (p + 4);
          ty \<leftarrow> ld le 4 c (p + 8);
          c \<leftarrow> (if level = SOL_SOCKET \<and> ty = SCM_TIMESTAMP \<and> CMSG_DATALEN len = 8
                then do { c \<leftarrow> byte_swap c (p + HDR) 4; byte_swap c (p + HDR + 4) 4 }
                else Some c);
          case next_hdr n p len of None \<Rightarrow> Some c | Some q \<Rightarrow> endian_loop le n q c }"

definition fix_cmsg_endianness :: "bool \<Rightarrow> nat \<Rightarrow> byte list \<Rightarrow> byte list option" where
  "fix_cmsg_endianness le n c = (case first_hdr n of None \<Rightarrow> Some c | Some p \<Rightarrow> endian_loop le n p c)"

section \<open>The wrapper\<close>

record msghdr =
  msg_control :: "byte list option"
  msg_controllen :: nat

text \<open>
  \<open>format_fix\<close> and \<open>rosetta_fix\<close> are the build's fixes; \<open>recv\<close> is the system's function, which
  returns its result and the message as it left it.  The first component of the result is the
  cached Rosetta state.
\<close>

definition recvmsg_internal ::
  "bool \<Rightarrow> bool \<Rightarrow> bool \<Rightarrow> int option \<Rightarrow> byte list \<Rightarrow> (msghdr \<Rightarrow> int \<times> msghdr) \<Rightarrow> int \<Rightarrow> msghdr
     \<Rightarrow> (int \<times> int \<times> msghdr) option" where
  "recvmsg_internal le format_fix rosetta_fix native cbuf recv is_rosetta msg =
     (let is_rosetta = (if is_rosetta = 0 then if rosetta_fix then check_rosetta native else -1 else is_rosetta) in
      if \<not> format_fix \<and> is_rosetta < 0 then (let (ret, msg) = recv msg in Some (is_rosetta, ret, msg))
      else let init = (if msg_control msg \<noteq> None then msg_controllen msg else 0);
               (ret, msg) = recv msg
           in if ret < 0 \<or> msg_controllen msg = 0 then Some (is_rosetta, ret, msg)
              else do { c \<leftarrow> msg_control msg;
                        let n = msg_controllen msg;
                        (need, newlen) \<leftarrow> (if format_fix then check_cmsg_lengths le c n else Some (False, 0));
                        (c, n) \<leftarrow> (if need \<and> unat newlen \<le> init then fix_cmsg_formats le cbuf c n newlen else Some (c, n));
                        c \<leftarrow> (if is_rosetta > 0 then fix_cmsg_endianness le n c else Some c);
                        Some (is_rosetta, ret, \<lparr>msg_control = Some c, msg_controllen = n\<rparr>) })"


section \<open>Loads of stores\<close>

lemma length_to_le [simp]: "length (to_le n v) = n"
  by (induction n arbitrary: v) auto

lemma length_store [simp]: "length (store le n v) = n"
  by (simp add: store_def)

lemma from_le_to_le: "from_le (to_le n v) = v mod 256 ^ n"
proof (induction n arbitrary: v)
  case (Suc n)
  have "v mod 256 + 256 * (v div 256 mod 256 ^ n) = v mod 256 ^ Suc n"
    by (simp add: mod_mult2_eq)
  then show ?case using Suc by (simp add: unat_of_nat)
qed simp

lemma load_store: "v < 256 ^ n \<Longrightarrow> load le (store le n v) = v"
  by (simp add: load_def store_def from_le_to_le)

lemma to_le_from_le: "to_le (length bs) (from_le bs) = bs"
proof (induction bs)
  case (Cons b bs)
  have b: "unat b < 256" using unsigned_less [of b, where ?'a = nat] by simp
  then have "(unat b + 256 * from_le bs) mod 256 = unat b" "(unat b + 256 * from_le bs) div 256 = from_le bs" by simp_all
  then show ?case using Cons by simp
qed simp

lemma store_load: "length bs = n \<Longrightarrow> store le n (load le bs) = bs"
  using to_le_from_le [of bs] to_le_from_le [of "rev bs"] by (auto simp: load_def store_def)

lemma from_le_less: "from_le bs < 256 ^ length bs"
proof (induction bs)
  case (Cons b bs)
  have "unat b < 256" using unsigned_less [of b, where ?'a = nat] by simp
  with Cons show ?case by simp
qed simp

lemma load_less: "length bs = n \<Longrightarrow> load le bs < 256 ^ n"
  using from_le_less [of bs] from_le_less [of "rev bs"] by (auto simp: load_def)

lemma signed_range:
  assumes "v < 256 ^ n" and "0 < n"
  shows "signed_of n (unsigned_of n (signed_of n v)) = signed_of n v"
proof -
  have e: "(256 :: nat) ^ n = 2 ^ (8 * n)" by (simp add: power_mult)
  have "unsigned_of n (signed_of n v) = v"
  proof (cases "v < 2 ^ (8 * n - 1)")
    case True
    then show ?thesis using assms(1) e by (simp add: signed_of_def unsigned_of_def zmod_int [symmetric] flip: of_nat_power)
  next
    case False
    have "(int v - 2 ^ (8 * n)) mod 2 ^ (8 * n) = int v mod 2 ^ (8 * n)" by (simp add: mod_diff_eq [symmetric])
    also have "\<dots> = int v" using assms(1) e by (intro mod_pos_pos_trivial) (simp_all flip: of_nat_power)
    finally show ?thesis using False by (simp add: signed_of_def unsigned_of_def)
  qed
  then show ?thesis by simp
qed

lemma unsigned_small: "u < 2 ^ (8 * n - 1) \<Longrightarrow> 0 < n \<Longrightarrow> signed_of n (unsigned_of n (int u)) = int u"
proof -
  assume u: "u < 2 ^ (8 * n - 1)" and n: "0 < n"
  have "(2 :: nat) ^ (8 * n - 1) \<le> 2 ^ (8 * n)" by (intro power_increasing) simp_all
  with u have "u < 2 ^ (8 * n)" by (rule order.strict_trans2)
  then have "int u mod 2 ^ (8 * n) = int u" by (intro mod_pos_pos_trivial) (simp_all flip: of_nat_power)
  then show ?thesis using u by (simp add: unsigned_of_def signed_of_def)
qed

section \<open>Streams of messages\<close>

record cmsg =
  level :: nat
  ctype :: nat
  payload :: "byte list"

definition enc :: "bool \<Rightarrow> cmsg \<Rightarrow> byte list" where
  "enc le m = store le 4 (HDR + length (payload m)) @ store le 4 (level m) @ store le 4 (ctype m) @ payload m"

definition encs :: "bool \<Rightarrow> cmsg list \<Rightarrow> byte list" where
  "encs le ms = concat (map (enc le) ms)"

definition msg_ok :: "cmsg \<Rightarrow> bool" where
  "msg_ok m \<longleftrightarrow> level m < 2 ^ 32 \<and> ctype m < 2 ^ 32 \<and> length (payload m) < 2 ^ 30 \<and> 4 dvd length (payload m)"

lemma msg_ok_len: "msg_ok m \<Longrightarrow> length (payload m) < 2 ^ 30"
  by (simp add: msg_ok_def)

definition is_ts :: "cmsg \<Rightarrow> bool" where
  "is_ts m \<longleftrightarrow> level m = SOL_SOCKET \<and> ctype m = SCM_TIMESTAMP"

lemma length_enc [simp]: "length (enc le m) = HDR + length (payload m)"
  by (simp add: enc_def HDR_def)

lemma encs_simps [simp]: "encs le [] = []" "encs le (m # ms) = enc le m @ encs le ms"
  by (simp_all add: encs_def)

lemma ld_app: "length bs = k \<Longrightarrow> v < 256 ^ k \<Longrightarrow> bs = store le k v \<Longrightarrow> ld le k (pre @ bs @ post) (length pre) = Some v"
  by (simp add: ld_def mslice_def load_store)

lemma enc_ld:
  assumes "msg_ok m"
  shows "ld le 4 (pre @ enc le m @ post) (length pre) = Some (HDR + length (payload m))"
    and "ld le 4 (pre @ enc le m @ post) (length pre + 4) = Some (level m)"
    and "ld le 4 (pre @ enc le m @ post) (length pre + 8) = Some (ctype m)"
proof -
  let ?a = "store le 4 (HDR + length (payload m))" and ?b = "store le 4 (level m)" and ?c = "store le 4 (ctype m)"
  have b: "HDR + length (payload m) < 256 ^ 4" "level m < 256 ^ 4" "ctype m < 256 ^ 4"
    using assms by (simp_all add: msg_ok_def HDR_def)
  have "ld le 4 (pre @ ?a @ (?b @ ?c @ payload m @ post)) (length pre) = Some (HDR + length (payload m))"
    using b by (intro ld_app) simp_all
  then show "ld le 4 (pre @ enc le m @ post) (length pre) = Some (HDR + length (payload m))" by (simp add: enc_def)
  have "ld le 4 ((pre @ ?a) @ ?b @ (?c @ payload m @ post)) (length (pre @ ?a)) = Some (level m)"
    using b by (intro ld_app) simp_all
  then show "ld le 4 (pre @ enc le m @ post) (length pre + 4) = Some (level m)" by (simp add: enc_def)
  have "ld le 4 ((pre @ ?a @ ?b) @ ?c @ (payload m @ post)) (length (pre @ ?a @ ?b)) = Some (ctype m)"
    using b by (intro ld_app) simp_all
  then show "ld le 4 (pre @ enc le m @ post) (length pre + 8) = Some (ctype m)" by (simp add: enc_def)
qed

lemma align4_ok: "4 dvd k \<Longrightarrow> align4 (HDR + k) = HDR + k"
  by (auto simp: align4_def HDR_def dvd_def)

lemma next_hdr_end:
  "4 dvd k \<Longrightarrow> next_hdr (p + (HDR + k)) p (HDR + k) = None"
  by (simp add: next_hdr_def align4_ok) (simp add: align4_def HDR_def)

lemma next_hdr_more:
  "4 dvd k \<Longrightarrow> next_hdr (p + (HDR + k) + (HDR + j)) p (HDR + k) = Some (p + (HDR + k))"
  by (simp add: next_hdr_def align4_ok) (simp add: align4_def HDR_def)

text \<open>The next message of a stream.\<close>

lemma next_in_stream:
  assumes "msg_ok m"
  shows "next_hdr (p + length (encs le (m # ms))) p (HDR + length (payload m)) =
    (if ms = [] then None else Some (p + (HDR + length (payload m))))"
proof (cases ms)
  case Nil
  then show ?thesis using assms next_hdr_end [of "length (payload m)" p] by (simp add: msg_ok_def)
next
  case (Cons m' ms')
  have "length (encs le (m' # ms')) = HDR + (length (payload m') + length (encs le ms'))" by simp
  then show ?thesis
    using Cons assms next_hdr_more [of "length (payload m)" p "length (payload m') + length (encs le ms')"]
    by (simp add: msg_ok_def add.assoc)
qed


section \<open>Checking and rewriting a stream\<close>

text \<open>The length of a message after the fix, and the change it makes.\<close>

definition new_size :: "cmsg \<Rightarrow> nat" where
  "new_size m = (if is_ts m then HDR + TV else HDR + length (payload m))"

definition needs_fix :: "cmsg \<Rightarrow> bool" where
  "needs_fix m \<longleftrightarrow> is_ts m \<and> length (payload m) \<noteq> TV"

lemma lenadj_eq: "length d < 2 ^ 30 \<Longrightarrow>
    to_int32 (int TV - CMSG_DATALEN (HDR + length d)) = int TV - int (length d)"
  by (simp add: to_int32_ok CMSG_DATALEN_def TV_def)

declare check_loop.simps [simp del] fix_loop.simps [simp del] endian_loop.simps [simp del]

text \<open>Only the messages of the socket level are counted.\<close>

definition counted :: "cmsg \<Rightarrow> nat" where
  "counted m = (if level m = SOL_SOCKET then new_size m else 0)"

lemma check_loop_step:
  assumes "ld le 4 c p = Some (HDR + length (payload m))" and "ld le 4 c (p + 4) = Some (level m)"
    and "ld le 4 c (p + 8) = Some (ctype m)" and "length (payload m) < 2 ^ 30"
  shows "check_loop le c n p nl need =
    (case next_hdr n p (HDR + length (payload m)) of
       None \<Rightarrow> Some (need \<or> needs_fix m, nl + of_nat (counted m))
     | Some q \<Rightarrow> check_loop le c n q (nl + of_nat (counted m)) (need \<or> needs_fix m))"
proof -
  let ?adj = "if ctype m = SCM_TIMESTAMP then to_int32 (int TV - CMSG_DATALEN (HDR + length (payload m))) else 0"
  have "(if level m = SOL_SOCKET then (nl + (of_nat (HDR + length (payload m)) + word_of_int ?adj), need \<or> ?adj \<noteq> 0)
      else (nl, need)) = (nl + of_nat (counted m), need \<or> needs_fix m)"
  proof (cases "level m = SOL_SOCKET")
    case True
    have adj: "?adj = (if is_ts m then int TV - int (length (payload m)) else 0)"
      using lenadj_eq [OF assms(4)] True by (simp add: is_ts_def)
    have size: "of_nat (HDR + length (payload m)) + word_of_int ?adj = (of_nat (counted m) :: u32)"
      unfolding adj using True by (simp add: counted_def new_size_def)
    have need: "?adj \<noteq> 0 \<longleftrightarrow> needs_fix m" unfolding adj by (auto simp: needs_fix_def)
    show ?thesis unfolding size need using True by simp
  next
    case False
    then show ?thesis by (simp add: counted_def needs_fix_def is_ts_def)
  qed
  then show ?thesis
    by (simp only: check_loop.simps [of le c n p nl need] assms(1-3) Let_def bind.bind_lunit prod.case)
qed

lemma check_loop_stream:
  assumes "list_all msg_ok (m # ms)"
  shows "check_loop le (pre @ encs le (m # ms) @ post) (length pre + length (encs le (m # ms))) (length pre) nl need =
    Some (need \<or> list_ex needs_fix (m # ms), nl + of_nat (sum_list (map counted (m # ms))))"
  using assms
proof (induction ms arbitrary: m pre nl need)
  case Nil
  have m: "msg_ok m" "length (payload m) < 2 ^ 30" using Nil msg_ok_len [of m] by simp_all
  note step = check_loop_step [OF enc_ld [OF m(1), of le pre post] m(2)]
  have "pre @ encs le [m] @ post = pre @ enc le m @ post" by simp
  then have "check_loop le (pre @ encs le [m] @ post) (length pre + length (encs le [m])) (length pre) nl need =
      Some (need \<or> needs_fix m, nl + of_nat (counted m))"
    using next_in_stream [OF m(1), of "length pre" le "[]"]
    by (simp only: step refl if_True option.case)
  then show ?case by simp
next
  case (Cons m' ms)
  have m: "msg_ok m" "length (payload m) < 2 ^ 30"
    using Cons.prems msg_ok_len [of m] by simp_all
  let ?c = "pre @ encs le (m # m' # ms) @ post" and ?n = "length pre + length (encs le (m # m' # ms))"
  have c: "pre @ enc le m @ (encs le (m' # ms) @ post) = ?c" by simp
  note step = check_loop_step [OF enc_ld [OF m(1), of le pre "encs le (m' # ms) @ post", unfolded c] m(2)]
  let ?nl = "nl + of_nat (counted m)" and ?need = "need \<or> needs_fix m"
  have "check_loop le ?c ?n (length pre) nl need =
     check_loop le ?c ?n (length pre + (HDR + length (payload m))) ?nl ?need"
    using next_in_stream [OF m(1), of "length pre" le "m' # ms"] by (simp only: step list.distinct if_False option.case)
  also have "\<dots> = check_loop le ((pre @ enc le m) @ encs le (m' # ms) @ post)
     (length (pre @ enc le m) + length (encs le (m' # ms))) (length (pre @ enc le m)) ?nl ?need"
    by (simp only: append_assoc length_append length_enc encs_simps add.assoc)
  also have "\<dots> = Some (?need \<or> list_ex needs_fix (m' # ms), ?nl + of_nat (sum_list (map counted (m' # ms))))"
    using Cons.prems by (intro Cons.IH) simp_all
  finally show ?case by (simp add: add.assoc)
qed

text \<open>The time a payload of one of the three formats holds.\<close>

definition tv_of :: "bool \<Rightarrow> byte list \<Rightarrow> int \<times> int" where
  "tv_of le d =
     (if length d = 8 then (int (load le (take 4 d)), signed_of 4 (load le (drop 4 d)))
      else (signed_of 8 (load le (take 8 d)), signed_of 4 (load le (take 4 (drop 8 d)))))"

definition converted :: "bool \<Rightarrow> cmsg \<Rightarrow> cmsg \<Rightarrow> bool" where
  "converted le m m' \<longleftrightarrow> level m' = level m \<and> ctype m' = ctype m \<and>
     (if is_ts m then length (payload m') = TV \<and> tv_of le (payload m') = tv_of le (payload m)
      else payload m' = payload m)"

lemma put_tv_ok:
  assumes "length old = TV" and "signed_of 8 (unsigned_of 8 sec) = sec" and "signed_of 4 (unsigned_of 4 us) = us"
  shows "length (put_tv le sec us old) = TV \<and> tv_of le (put_tv le sec us old) = (sec, us)"
proof -
  have "unsigned_of 8 sec < 256 ^ 8" "unsigned_of 4 us < 256 ^ 4"
    by (simp_all add: unsigned_of_def nat_less_iff)
  then show ?thesis using assms by (simp add: put_tv_def tv_of_def TV_def load_store)
qed

lemma ld_mid: "k + j \<le> length d \<Longrightarrow> ld le k (pre @ d @ post) (length pre + j) = Some (load le (take k (drop j d)))"
  by (simp add: ld_def mslice_def)

lemma fetch_ok:
  assumes "length d \<in> {8, 12, 16}" and "length h = HDR" and "length old = TV"
  shows "\<exists>d'. fetch_cmsg_timeval le (pre @ (h @ d) @ post) (length pre) (HDR + length d) old = Some d'
    \<and> length d' = TV \<and> tv_of le d' = tv_of le d"
proof -
  have dl: "to_int32 (CMSG_DATALEN (HDR + length d)) = int (length d)"
    using assms(1) by (auto simp: CMSG_DATALEN_def to_int32_ok)
  have c: "pre @ (h @ d) @ post = (pre @ h) @ d @ post" and p: "length pre + HDR = length (pre @ h)"
    using assms(2) by simp_all
  note l = ld_mid [of _ _ d le "pre @ h" post]
  consider "length d = 8" | "length d = 12" | "length d = 16" using assms(1) by blast
  then show ?thesis
  proof cases
    case 1
    have "load le (take 4 d) < 256 ^ 4" "load le (drop 4 d) < 256 ^ 4"
      by (rule load_less, simp add: 1)+
    then have s: "signed_of 8 (unsigned_of 8 (int (load le (take 4 d)))) = int (load le (take 4 d))"
      "signed_of 4 (unsigned_of 4 (signed_of 4 (load le (drop 4 d)))) = signed_of 4 (load le (drop 4 d))"
      by (simp_all add: unsigned_small signed_range)
    have f: "fetch_cmsg_timeval le (pre @ (h @ d) @ post) (length pre) (HDR + length d) old =
        Some (put_tv le (int (load le (take 4 d))) (signed_of 4 (load le (drop 4 d))) old)"
      unfolding fetch_cmsg_timeval_def Let_def dl c p
      using 1 l [of 4 0] l [of 4 4] by (simp add: TV_def)
    have t: "tv_of le d = (int (load le (take 4 d)), signed_of 4 (load le (drop 4 d)))"
      using 1 by (simp add: tv_of_def)
    show ?thesis unfolding t using f put_tv_ok [OF assms(3) s, of le] by blast
  next
    case 2
    have "load le (take 8 d) < 256 ^ 8" "load le (take 4 (drop 8 d)) < 256 ^ 4"
      by (rule load_less, simp add: 2)+
    then have s: "signed_of 8 (unsigned_of 8 (signed_of 8 (load le (take 8 d)))) = signed_of 8 (load le (take 8 d))"
      "signed_of 4 (unsigned_of 4 (signed_of 4 (load le (take 4 (drop 8 d))))) = signed_of 4 (load le (take 4 (drop 8 d)))"
      by (simp_all only: signed_range zero_less_numeral)
    have f: "fetch_cmsg_timeval le (pre @ (h @ d) @ post) (length pre) (HDR + length d) old =
        Some (put_tv le (signed_of 8 (load le (take 8 d))) (signed_of 4 (load le (take 4 (drop 8 d)))) old)"
      unfolding fetch_cmsg_timeval_def Let_def dl c p
      using 2 l [of 8 0] l [of 4 8] by (simp add: TV_def)
    have t: "tv_of le d = (signed_of 8 (load le (take 8 d)), signed_of 4 (load le (take 4 (drop 8 d))))"
      using 2 by (simp add: tv_of_def)
    show ?thesis unfolding t using f put_tv_ok [OF assms(3) s, of le] by blast
  next
    case 3
    have "fetch_cmsg_timeval le (pre @ (h @ d) @ post) (length pre) (HDR + length d) old = Some d"
      unfolding fetch_cmsg_timeval_def Let_def dl c p using 3 by (simp add: TV_def mslice_def)
    then show ?thesis using 3 by (simp add: TV_def)
  qed
qed

lemma mblit_mid: "length xs \<le> length b \<Longrightarrow> mblit (a @ b @ c) (length a) xs = Some (a @ (xs @ drop (length xs) b) @ c)"
  by (simp add: mblit_def)


definition ts_ok :: "cmsg \<Rightarrow> bool" where
  "ts_ok m \<longleftrightarrow> (is_ts m \<longrightarrow> length (payload m) \<in> {8, 12, 16})"

text \<open>What the loop does with one message, when the local buffer has room for it.\<close>

lemma fix_one_ts:
  fixes le :: bool and pre post x y :: "byte list"
  assumes m: "msg_ok m" "is_ts m" "ts_ok m" and room: "length b = HDR + TV"
  defines "c \<equiv> pre @ enc le m @ post"
  shows "\<exists>m'. converted le m m' \<and> length (enc le m') = new_size m \<and>
    do { h \<leftarrow> mslice c (length pre) HDR;
         cbuf \<leftarrow> mblit (x @ b @ y) (length x) h;
         cbuf \<leftarrow> mblit cbuf (length x) (store le 4 (HDR + TV));
         old \<leftarrow> mslice cbuf (length x + HDR) TV;
         tv \<leftarrow> fetch_cmsg_timeval le c (length pre) (HDR + length (payload m)) old;
         cbuf \<leftarrow> mblit cbuf (length x + HDR) tv;
         Some (cbuf, length x + (HDR + TV)) } = Some (x @ enc le m' @ y, length x + new_size m)"
proof -
  let ?lt = "store le 4 (level m) @ store le 4 (ctype m)"
  let ?h = "store le 4 (HDR + length (payload m)) @ ?lt"
  have h: "length ?h = HDR" by (simp add: HDR_def)
  have c: "c = pre @ (?h @ payload m) @ post" by (simp add: c_def enc_def)
  have s1: "mslice c (length pre) HDR = Some ?h"
    unfolding c using h by (simp add: mslice_def)
  define old where "old = drop HDR b"
  have old: "length old = TV" "drop (length ?h) b = old" using room h by (simp_all add: old_def)
  have s2: "mblit (x @ b @ y) (length x) ?h = Some (x @ (?h @ old) @ y)"
    using mblit_mid [of ?h b x y] room h old(2) by simp
  have s3: "mblit (x @ (?h @ old) @ y) (length x) (store le 4 (HDR + TV)) =
      Some (x @ (store le 4 (HDR + TV) @ ?lt @ old) @ y)"
    using mblit_mid [of "store le 4 (HDR + TV)" "?h @ old" x y] by simp
  define z where "z = x @ store le 4 (HDR + TV) @ ?lt"
  have z: "length z = length x + HDR" by (simp add: z_def HDR_def)
  have e: "x @ (store le 4 (HDR + TV) @ ?lt @ old) @ y = z @ old @ y" by (simp add: z_def)
  have s4: "mslice (z @ old @ y) (length x + HDR) TV = Some old"
    using old(1) by (simp add: mslice_def flip: z)
  have "length (payload m) \<in> {8, 12, 16}" using m(2,3) by (simp add: ts_ok_def)
  from fetch_ok [OF this h old(1), of le pre post] obtain tv where
    tv: "fetch_cmsg_timeval le c (length pre) (HDR + length (payload m)) old = Some tv" "length tv = TV"
    "tv_of le tv = tv_of le (payload m)" unfolding c by blast
  have s5: "mblit (z @ old @ y) (length x + HDR) tv = Some (z @ tv @ y)"
    using mblit_mid [of tv old z y] old(1) tv(2) by (simp flip: z)
  define m' where "m' = m\<lparr>payload := tv\<rparr>"
  have "converted le m m'" using tv m(2) by (simp add: converted_def m'_def)
  moreover have "length (enc le m') = new_size m" using tv(2) m(2) by (simp add: m'_def new_size_def)
  moreover have "z @ tv @ y = x @ enc le m' @ y" using tv(2) by (simp add: z_def m'_def enc_def)
  moreover have "new_size m = HDR + TV" using m(2) by (simp add: new_size_def)
  ultimately show ?thesis
    by (intro exI [of _ m'] conjI) (simp_all only: s1 s2 s3 e s4 tv(1) s5 bind.bind_lunit)
qed

lemma fix_one_other:
  assumes "msg_ok m" and "\<not> is_ts m" and "length b = new_size m"
  shows "do { d \<leftarrow> mslice (pre @ enc le m @ post) (length pre) (HDR + length (payload m));
         cbuf \<leftarrow> mblit (x @ b @ y) (length x) d;
         Some (cbuf, length x + (HDR + length (payload m))) } = Some (x @ enc le m @ y, length x + new_size m)"
proof -
  have "mslice (pre @ enc le m @ post) (length pre) (HDR + length (payload m)) = Some (enc le m)"
    by (simp add: mslice_def)
  moreover have "mblit (x @ b @ y) (length x) (enc le m) = Some (x @ (enc le m @ drop (length (enc le m)) b) @ y)"
    using assms(2,3) by (intro mblit_mid) (simp add: new_size_def)
  ultimately show ?thesis using assms(2,3) by (simp add: new_size_def)
qed

lemma fix_loop_step:
  assumes m: "msg_ok m" "ts_ok m" and room: "length b = new_size m"
  shows "\<exists>m'. converted le m m' \<and> length (enc le m') = new_size m \<and>
    fix_loop le (pre @ enc le m @ post) n (length pre) (x @ b @ y) (length x) =
      (case next_hdr n (length pre) (HDR + length (payload m)) of
         None \<Rightarrow> Some (x @ enc le m' @ y, length x + new_size m)
       | Some q \<Rightarrow> fix_loop le (pre @ enc le m @ post) n q (x @ enc le m' @ y) (length x + new_size m))"
proof (cases "is_ts m")
  case True
  then have "length b = HDR + TV" using room by (simp add: new_size_def)
  from fix_one_ts [OF m(1) True m(2) this, of le pre post x y] obtain m' where m': "converted le m m'"
    "length (enc le m') = new_size m" and run: "do { h \<leftarrow> mslice (pre @ enc le m @ post) (length pre) HDR;
         cbuf \<leftarrow> mblit (x @ b @ y) (length x) h;
         cbuf \<leftarrow> mblit cbuf (length x) (store le 4 (HDR + TV));
         old \<leftarrow> mslice cbuf (length x + HDR) TV;
         tv \<leftarrow> fetch_cmsg_timeval le (pre @ enc le m @ post) (length pre) (HDR + length (payload m)) old;
         cbuf \<leftarrow> mblit cbuf (length x + HDR) tv;
         Some (cbuf, length x + (HDR + TV)) } = Some (x @ enc le m' @ y, length x + new_size m)" by blast
  have t: "level m = SOL_SOCKET \<and> ctype m = SCM_TIMESTAMP" using True by (simp add: is_ts_def)
  show ?thesis
    by (intro exI [of _ m'] conjI m')
      (simp only: fix_loop.simps [of le "pre @ enc le m @ post" n "length pre"] enc_ld [OF m(1)] bind.bind_lunit
        t simp_thms if_True run prod.case)
next
  case False
  note run = fix_one_other [OF m(1) False room, of pre le post x y]
  have t: "(level m = SOL_SOCKET \<and> ctype m = SCM_TIMESTAMP) = False" using False by (simp add: is_ts_def)
  have "length (enc le m) = new_size m" "converted le m m" using False by (simp_all add: new_size_def converted_def)
  then show ?thesis
    by (intro exI [of _ m] conjI)
      (simp_all only: fix_loop.simps [of le "pre @ enc le m @ post" n "length pre"] enc_ld [OF m(1)] bind.bind_lunit
        t if_False run prod.case)
qed

lemma fix_loop_stream:
  assumes "list_all msg_ok (m # ms)" and "list_all ts_ok (m # ms)"
    and "length b = sum_list (map new_size (m # ms))"
  shows "\<exists>ms'. list_all2 (converted le) (m # ms) ms' \<and> length (encs le ms') = sum_list (map new_size (m # ms)) \<and>
    fix_loop le (pre @ encs le (m # ms) @ post) (length pre + length (encs le (m # ms))) (length pre) (x @ b @ y) (length x) =
      Some (x @ encs le ms' @ y, length x + sum_list (map new_size (m # ms)))"
  using assms
proof (induction ms arbitrary: m pre b x)
  case Nil
  then have m: "msg_ok m" "ts_ok m" "length b = new_size m" by simp_all
  from fix_loop_step [OF m, of le pre post "length pre + length (encs le [m])" x y] obtain m' where m': "converted le m m'"
    "length (enc le m') = new_size m"
    "fix_loop le (pre @ enc le m @ post) (length pre + length (encs le [m])) (length pre) (x @ b @ y) (length x) =
      (case next_hdr (length pre + length (encs le [m])) (length pre) (HDR + length (payload m)) of
         None \<Rightarrow> Some (x @ enc le m' @ y, length x + new_size m)
       | Some q \<Rightarrow> fix_loop le (pre @ enc le m @ post) (length pre + length (encs le [m])) q (x @ enc le m' @ y) (length x + new_size m))"
    by blast
  then have "fix_loop le (pre @ enc le m @ post) (length pre + length (encs le [m])) (length pre) (x @ b @ y) (length x) =
      Some (x @ enc le m' @ y, length x + new_size m)"
    using next_in_stream [OF m(1), of "length pre" le "[]"] by (simp only: refl if_True option.case)
  then show ?case using m' by (intro exI [of _ "[m']"]) simp
next
  case (Cons m2 ms)
  then have m: "msg_ok m" "ts_ok m" by simp_all
  let ?ms = "m2 # ms" and ?k = "new_size m"
  let ?n = "length pre + length (encs le (m # ?ms))"
  define b1 b2 where "b1 = take ?k b" and "b2 = drop ?k b"
  have b: "b = b1 @ b2" "length b1 = ?k" "length b2 = sum_list (map new_size ?ms)"
    using Cons.prems(3) by (simp_all add: b1_def b2_def)
  from fix_loop_step [OF m b(2), of le pre "encs le ?ms @ post" ?n x "b2 @ y"] obtain m' where
    m': "converted le m m'" "length (enc le m') = ?k" and
    step: "fix_loop le (pre @ enc le m @ encs le ?ms @ post) ?n (length pre) (x @ b1 @ b2 @ y) (length x) =
      (case next_hdr ?n (length pre) (HDR + length (payload m)) of
         None \<Rightarrow> Some (x @ enc le m' @ b2 @ y, length x + ?k)
       | Some q \<Rightarrow> fix_loop le (pre @ enc le m @ encs le ?ms @ post) ?n q (x @ enc le m' @ b2 @ y) (length x + ?k))"
    by blast
  have nx: "next_hdr ?n (length pre) (HDR + length (payload m)) = Some (length pre + (HDR + length (payload m)))"
    using next_in_stream [OF m(1), of "length pre" le ?ms] by simp
  from Cons.IH [of m2 b2 "pre @ enc le m" "x @ enc le m'"] Cons.prems b(3) obtain ms' where
    ms': "list_all2 (converted le) ?ms ms'" "length (encs le ms') = sum_list (map new_size ?ms)" and
    rest: "fix_loop le ((pre @ enc le m) @ encs le ?ms @ post) (length (pre @ enc le m) + length (encs le ?ms))
       (length (pre @ enc le m)) ((x @ enc le m') @ b2 @ y) (length (x @ enc le m')) =
       Some ((x @ enc le m') @ encs le ms' @ y, length (x @ enc le m') + sum_list (map new_size ?ms))"
    by auto
  have eqs: "(pre @ enc le m) @ encs le ?ms @ post = pre @ enc le m @ encs le ?ms @ post"
    "length pre + (HDR + length (payload m)) + length (encs le ?ms) = ?n"
    "length (pre @ enc le m) = length pre + (HDR + length (payload m))"
    "(x @ enc le m') @ b2 @ y = x @ enc le m' @ b2 @ y" "length (x @ enc le m') = length x + ?k"
    using m'(2) by simp_all
  have "fix_loop le (pre @ enc le m @ encs le ?ms @ post) ?n (length pre) (x @ b1 @ b2 @ y) (length x) =
      Some ((x @ enc le m') @ encs le ms' @ y, (length x + ?k) + sum_list (map new_size ?ms))"
    unfolding step nx option.case using rest unfolding eqs(1) eqs(3) eqs(2) eqs(4,5) .
  then show ?case
    using m'(1,2) ms' b(1) by (intro exI [of _ "m' # ms'"]) (simp add: add.assoc)
qed


lemma fix_formats_stream:
  assumes "ms \<noteq> []" and "list_all msg_ok ms" and "list_all ts_ok ms"
    and "sum_list (map new_size ms) \<le> length cbuf" and "length cbuf = 1024"
    and "unat newlen \<le> length (encs le ms @ slack)"
  shows "\<exists>ms' slack'. list_all2 (converted le) ms ms' \<and>
    fix_cmsg_formats le cbuf (encs le ms @ slack) (length (encs le ms)) newlen =
      Some (if unat newlen = sum_list (map new_size ms) then (encs le ms' @ slack', length (encs le ms'))
            else (encs le ms @ slack, length (encs le ms)))"
proof -
  obtain m ms1 where ms: "ms = m # ms1" using assms(1) by (cases ms) auto
  let ?S = "sum_list (map new_size ms)" and ?n = "length (encs le ms)"
  have "length (take ?S cbuf) = ?S" using assms(4) by simp
  from fix_loop_stream [OF assms(2,3) [unfolded ms] this [unfolded ms], of le "[]" slack "[]" "drop ?S cbuf"]
  obtain ms' where ms': "list_all2 (converted le) ms ms'" "length (encs le ms') = ?S"
    "fix_loop le (encs le ms @ slack) ?n 0 cbuf 0 = Some (encs le ms' @ drop ?S cbuf, ?S)"
    by (auto simp: ms)
  have "first_hdr ?n = Some 0" by (simp add: ms first_hdr_def)
  then have run: "(case first_hdr ?n of None \<Rightarrow> Some (cbuf, 0) | Some p \<Rightarrow> fix_loop le (encs le ms @ slack) ?n p cbuf 0) =
      Some (encs le ms' @ drop ?S cbuf, ?S)" using ms'(3) by simp
  show ?thesis
  proof (cases "unat newlen = ?S")
    case True
    have "mslice (encs le ms' @ drop ?S cbuf) 0 ?S = Some (encs le ms')" using ms'(2) by (simp add: mslice_def)
    moreover have "mblit (encs le ms @ slack) 0 (encs le ms') =
        Some (encs le ms' @ drop ?S (encs le ms @ slack))"
      using ms'(2) assms(6) True by (simp add: mblit_def)
    ultimately have "fix_cmsg_formats le cbuf (encs le ms @ slack) ?n newlen =
        Some (encs le ms' @ drop ?S (encs le ms @ slack), length (encs le ms'))"
      using True assms(4) ms'(2) unfolding fix_cmsg_formats_def run by simp
    then show ?thesis using ms'(1) True
      by (intro exI [of _ ms'] exI [of _ "drop ?S (encs le ms @ slack)"] conjI) (simp_all only: if_True refl)
  next
    case False
    then have "fix_cmsg_formats le cbuf (encs le ms @ slack) ?n newlen = Some (encs le ms @ slack, ?n)"
      unfolding fix_cmsg_formats_def run by simp
    then show ?thesis using ms'(1) False
      by (intro exI [of _ ms'] exI [of _ slack] conjI) (simp_all only: if_False refl)
  qed
qed

lemma check_lengths_stream:
  assumes "ms \<noteq> []" and "list_all msg_ok ms"
  shows "check_cmsg_lengths le (encs le ms @ slack) (length (encs le ms)) =
    Some (list_ex needs_fix ms, of_nat (sum_list (map counted ms)))"
proof -
  obtain m ms1 where ms: "ms = m # ms1" using assms(1) by (cases ms) auto
  have "first_hdr (length (encs le ms)) = Some 0" by (simp add: ms first_hdr_def)
  then show ?thesis
    using check_loop_stream [OF assms(2) [unfolded ms], of le "[]" slack 0 False]
    by (simp add: check_cmsg_lengths_def ms)
qed


section \<open>The Rosetta fix on a stream\<close>

definition swap_ts :: "cmsg \<Rightarrow> cmsg" where
  "swap_ts m = (if is_ts m \<and> length (payload m) = 8
     then m\<lparr>payload := rev (take 4 (payload m)) @ rev (drop 4 (payload m))\<rparr> else m)"

lemma swap_ts_simps [simp]: "length (payload (swap_ts m)) = length (payload m)" "level (swap_ts m) = level m"
  "ctype (swap_ts m) = ctype m"
  by (simp_all add: swap_ts_def)

lemma byte_swap_mid:
  "i + k \<le> length d \<Longrightarrow> byte_swap (pre @ d @ post) (length pre + i) k =
     Some (pre @ (take i d @ rev (take k (drop i d)) @ drop (i + k) d) @ post)"
  by (simp add: byte_swap_def mslice_def mblit_def)

lemma swap_payload:
  assumes "length d = 8"
  shows "do { c \<leftarrow> byte_swap (pre @ d @ post) (length pre) 4; byte_swap c (length pre + 4) 4 } =
    Some (pre @ (rev (take 4 d) @ rev (drop 4 d)) @ post)"
proof -
  have "byte_swap (pre @ d @ post) (length pre) 4 = Some (pre @ (rev (take 4 d) @ drop 4 d) @ post)"
    using byte_swap_mid [of 0 4 d pre post] assms by simp
  moreover have "byte_swap (pre @ (rev (take 4 d) @ drop 4 d) @ post) (length pre + 4) 4 =
      Some (pre @ (rev (take 4 d) @ rev (drop 4 d)) @ post)"
    using byte_swap_mid [of 4 4 "rev (take 4 d) @ drop 4 d" pre post] assms by simp
  ultimately show ?thesis by simp
qed

lemma endian_loop_step:
  assumes m: "msg_ok m"
  shows "endian_loop le n (length pre) (pre @ enc le m @ post) =
    (case next_hdr n (length pre) (HDR + length (payload m)) of
       None \<Rightarrow> Some (pre @ enc le (swap_ts m) @ post)
     | Some q \<Rightarrow> endian_loop le n q (pre @ enc le (swap_ts m) @ post))"
proof -
  let ?h = "store le 4 (HDR + length (payload m)) @ store le 4 (level m) @ store le 4 (ctype m)"
  have e: "pre @ enc le m @ post = (pre @ ?h) @ payload m @ post" by (simp add: enc_def)
  have l: "length pre + HDR = length (pre @ ?h)" by (simp add: HDR_def)
  have "(if level m = SOL_SOCKET \<and> ctype m = SCM_TIMESTAMP \<and> CMSG_DATALEN (HDR + length (payload m)) = 8
     then do { c \<leftarrow> byte_swap (pre @ enc le m @ post) (length pre + HDR) 4; byte_swap c (length pre + HDR + 4) 4 }
     else Some (pre @ enc le m @ post)) = Some (pre @ enc le (swap_ts m) @ post)"
  proof (cases "is_ts m \<and> length (payload m) = 8")
    case True
    then have "enc le (swap_ts m) = ?h @ rev (take 4 (payload m)) @ rev (drop 4 (payload m))"
      by (simp add: swap_ts_def enc_def)
    moreover have c: "level m = SOL_SOCKET \<and> ctype m = SCM_TIMESTAMP \<and> CMSG_DATALEN (HDR + length (payload m)) = 8"
      using True by (simp add: is_ts_def CMSG_DATALEN_def)
    moreover have "do { c \<leftarrow> byte_swap (pre @ enc le m @ post) (length pre + HDR) 4; byte_swap c (length pre + HDR + 4) 4 }
       = Some ((pre @ ?h) @ (rev (take 4 (payload m)) @ rev (drop 4 (payload m))) @ post)"
      unfolding e l using True by (intro swap_payload) simp
    ultimately show ?thesis by (simp only: if_True simp_thms append_assoc)
  next
    case False
    then have "\<not> (level m = SOL_SOCKET \<and> ctype m = SCM_TIMESTAMP \<and> CMSG_DATALEN (HDR + length (payload m)) = 8)"
      "swap_ts m = m"
      by (auto simp: is_ts_def CMSG_DATALEN_def swap_ts_def)
    then show ?thesis by (simp only: if_False)
  qed
  then show ?thesis
    by (simp only: endian_loop.simps [of le n "length pre"] enc_ld [OF m] bind.bind_lunit)
qed

lemma endian_loop_stream:
  assumes "list_all msg_ok (m # ms)"
  shows "endian_loop le (length pre + length (encs le (m # ms))) (length pre) (pre @ encs le (m # ms) @ post) =
    Some (pre @ encs le (map swap_ts (m # ms)) @ post)"
  using assms
proof (induction ms arbitrary: m pre)
  case Nil
  then have m: "msg_ok m" by simp
  have "endian_loop le (length pre + length (encs le [m])) (length pre) (pre @ enc le m @ post) =
      Some (pre @ enc le (swap_ts m) @ post)"
    using next_in_stream [OF m, of "length pre" le "[]"] by (simp only: endian_loop_step [OF m] refl if_True option.case)
  then show ?case by simp
next
  case (Cons m' ms)
  then have m: "msg_ok m" by simp
  let ?n = "length pre + length (encs le (m # m' # ms))"
  have "endian_loop le ?n (length pre) (pre @ enc le m @ (encs le (m' # ms) @ post)) =
      endian_loop le ?n (length pre + (HDR + length (payload m))) (pre @ enc le (swap_ts m) @ (encs le (m' # ms) @ post))"
    using next_in_stream [OF m, of "length pre" le "m' # ms"]
    by (simp only: endian_loop_step [OF m] list.distinct if_False option.case)
  also have "\<dots> = endian_loop le (length (pre @ enc le (swap_ts m)) + length (encs le (m' # ms))) (length (pre @ enc le (swap_ts m)))
      ((pre @ enc le (swap_ts m)) @ encs le (m' # ms) @ post)"
    by (simp only: append_assoc length_append length_enc encs_simps add.assoc swap_ts_simps)
  also have "\<dots> = Some ((pre @ enc le (swap_ts m)) @ encs le (map swap_ts (m' # ms)) @ post)"
    using Cons.prems by (intro Cons.IH) simp_all
  finally show ?case by simp
qed

lemma fix_endianness_stream:
  assumes "ms \<noteq> []" and "list_all msg_ok ms"
  shows "fix_cmsg_endianness le (length (encs le ms)) (encs le ms @ slack) = Some (encs le (map swap_ts ms) @ slack)"
proof -
  obtain m ms1 where ms: "ms = m # ms1" using assms(1) by (cases ms) auto
  have "first_hdr (length (encs le ms)) = Some 0" by (simp add: ms first_hdr_def)
  then show ?thesis
    using endian_loop_stream [OF assms(2) [unfolded ms], of le "[]" slack]
    by (simp add: fix_cmsg_endianness_def ms)
qed


lemma load_rev: "load le (rev bs) = load (\<not> le) bs"
  by (simp add: load_def)

lemma encs_nonempty: "ms \<noteq> [] \<Longrightarrow> length (encs le ms) \<noteq> 0"
  by (cases ms) (simp_all add: HDR_def)

lemma unat_of_nat_u32: "k < 2 ^ 32 \<Longrightarrow> unat (of_nat k :: u32) = k"
  by (simp add: unat_of_nat take_bit_nat_eq_self)

lemma converted_refl: "\<not> needs_fix m \<Longrightarrow> converted le m m"
  by (auto simp: converted_def needs_fix_def)

section \<open>Properties\<close>

text \<open>C6: When the control data the system delivers is a stream of socket-level messages whose timestamps have
  any of the three formats, and the result fits the local buffer and the caller's control buffer,
  then the wrapper returns the system's result with a stream of the same messages in which every
  timestamp has the program's format and the same seconds and microseconds, and nothing else is
  changed.\<close>

theorem recvmsg_converts_timestamps:
  assumes "ms \<noteq> []" and "list_all msg_ok ms" and "list_all ts_ok ms" and "\<forall>m \<in> set ms. level m = SOL_SOCKET"
    and "length cbuf = 1024" and "sum_list (map new_size ms) \<le> 1024"
    and "msg_control msg \<noteq> None" and "sum_list (map new_size ms) \<le> msg_controllen msg"
    and "recv msg = (ret, \<lparr>msg_control = Some (encs le ms @ slack), msg_controllen = length (encs le ms)\<rparr>)"
    and "msg_controllen msg \<le> length (encs le ms @ slack)" and "0 \<le> ret"
  shows "\<exists>ms' slack'. recvmsg_internal le True False native cbuf recv 0 msg =
      Some (-1, ret, \<lparr>msg_control = Some (encs le ms' @ slack'), msg_controllen = length (encs le ms')\<rparr>)
    \<and> list_all2 (converted le) ms ms'"
proof -
  let ?S = "sum_list (map new_size ms)"
  have cnt: "map counted ms = map new_size ms" using assms(4) by (simp add: counted_def)
  have S: "unat (of_nat ?S :: u32) = ?S" using assms(6) by (intro unat_of_nat_u32) simp
  note chk = check_lengths_stream [OF assms(1,2), of le slack, unfolded cnt]
  have le: "?S \<le> length cbuf" "unat (of_nat ?S :: u32) \<le> length (encs le ms @ slack)"
    using assms(5,6,8,10) S by simp_all
  from fix_formats_stream [OF assms(1-3) le(1) assms(5) le(2)] S obtain ms' slack' where
    f: "list_all2 (converted le) ms ms'" "fix_cmsg_formats le cbuf (encs le ms @ slack) (length (encs le ms)) (of_nat ?S) =
       Some (encs le ms' @ slack', length (encs le ms'))" by auto
  have run: "recvmsg_internal le True False native cbuf recv 0 msg =
     do { (c, n) \<leftarrow> (if list_ex needs_fix ms then fix_cmsg_formats le cbuf (encs le ms @ slack) (length (encs le ms)) (of_nat ?S)
                     else Some (encs le ms @ slack, length (encs le ms)));
          Some (-1, ret, \<lparr>msg_control = Some c, msg_controllen = n\<rparr>) }"
    using assms(7,8,9,11) encs_nonempty [OF assms(1), of le] chk S by (simp add: recvmsg_internal_def Let_def)
  show ?thesis
  proof (cases "list_ex needs_fix ms")
    case True
    then show ?thesis using run f by auto
  next
    case False
    then have "list_all2 (converted le) ms ms" by (auto simp: list_ex_iff list_all2_same converted_refl)
    then show ?thesis using run False by auto
  qed
qed

text \<open>One message of another level in the control data, however small, disables the repair: its length is
  not counted by \<open>check_cmsg_lengths\<close> but copied by \<open>fix_cmsg_formats\<close>, the totals then differ, and
  the message is delivered with the timestamps as the system left them.\<close>

theorem recvmsg_foreign_message_disables_fix:
  assumes "m \<in> set ms" and "level m \<noteq> SOL_SOCKET" and "list_all msg_ok ms" and "list_all ts_ok ms"
    and "length cbuf = 1024" and "sum_list (map new_size ms) \<le> 1024"
    and "recv msg = (ret, \<lparr>msg_control = Some (encs le ms @ slack), msg_controllen = length (encs le ms)\<rparr>)"
    and "msg_controllen msg \<le> length (encs le ms @ slack)" and "0 \<le> ret"
  shows "recvmsg_internal le True False native cbuf recv 0 msg =
      Some (-1, ret, \<lparr>msg_control = Some (encs le ms @ slack), msg_controllen = length (encs le ms)\<rparr>)"
proof -
  let ?S = "sum_list (map new_size ms)" and ?C = "sum_list (map counted ms)"
  have ne: "ms \<noteq> []" using assms(1) by auto
  obtain xs ys where ms: "ms = xs @ m # ys" using split_list [OF assms(1)] by blast
  have "sum_list (map counted zs) \<le> sum_list (map new_size zs)" for zs :: "cmsg list"
    by (rule sum_list_mono) (simp add: counted_def)
  from this [of xs] this [of ys] have less: "?C < ?S"
    using assms(2) by (simp add: ms counted_def new_size_def is_ts_def HDR_def)
  have C: "unat (of_nat ?C :: u32) = ?C" using less assms(6) by (intro unat_of_nat_u32) simp
  note chk = check_lengths_stream [OF ne assms(3), of le slack]
  have "?S \<le> length cbuf" using assms(5,6) by simp
  note fx = fix_formats_stream [OF ne assms(3,4) this assms(5), of "of_nat ?C" le slack]
  define X where "X = (if list_ex needs_fix ms \<and> ?C \<le> (if msg_control msg \<noteq> None then msg_controllen msg else 0)
       then fix_cmsg_formats le cbuf (encs le ms @ slack) (length (encs le ms)) (of_nat ?C)
       else Some (encs le ms @ slack, length (encs le ms)))"
  have f: "X = Some (encs le ms @ slack, length (encs le ms))"
  proof (cases "list_ex needs_fix ms \<and> ?C \<le> (if msg_control msg \<noteq> None then msg_controllen msg else 0)")
    case True
    have "(if msg_control msg \<noteq> None then msg_controllen msg else 0) \<le> length (encs le ms @ slack)"
      using assms(8) by simp
    with True have "?C \<le> length (encs le ms @ slack)" by (blast intro: order.trans)
    then have "unat (of_nat ?C :: u32) \<le> length (encs le ms @ slack)" unfolding C .
    with fx less C True show ?thesis by (auto simp: X_def)
  next
    case False
    then show ?thesis unfolding X_def by (rule if_not_P)
  qed
  have "recvmsg_internal le True False native cbuf recv 0 msg =
     do { (c, n) \<leftarrow> X; Some (-1, ret, \<lparr>msg_control = Some c, msg_controllen = n\<rparr>) }"
    using assms(7,9) encs_nonempty [OF ne, of le] chk C by (simp add: recvmsg_internal_def Let_def X_def)
  then show ?thesis by (simp add: f)
qed

text \<open>C24: Under Rosetta the wrapper of a build with that fix swaps exactly the two 32-bit fields of every 8-byte
  timestamp, so that the values the program reads are those the system stored in the other byte
  order, and leaves the rest of the control data alone.\<close>

theorem recvmsg_swaps_timestamps:
  assumes "ms \<noteq> []" and "list_all msg_ok ms"
    and "recv msg = (ret, \<lparr>msg_control = Some (encs le ms @ slack), msg_controllen = length (encs le ms)\<rparr>)" and "0 \<le> ret"
  shows "recvmsg_internal le False True (Some 0) cbuf recv 0 msg =
      Some (1, ret, \<lparr>msg_control = Some (encs le (map swap_ts ms) @ slack), msg_controllen = length (encs le ms)\<rparr>)
    \<and> (\<forall>m \<in> set ms. is_ts m \<and> length (payload m) = 8 \<longrightarrow>
         load le (take 4 (payload (swap_ts m))) = load (\<not> le) (take 4 (payload m))
       \<and> load le (drop 4 (payload (swap_ts m))) = load (\<not> le) (drop 4 (payload m)))"
proof -
  have "recvmsg_internal le False True (Some 0) cbuf recv 0 msg =
      Some (1, ret, \<lparr>msg_control = Some (encs le (map swap_ts ms) @ slack), msg_controllen = length (encs le ms)\<rparr>)"
    using assms(3,4) encs_nonempty [OF assms(1), of le] fix_endianness_stream [OF assms(1,2), of le slack]
    by (simp add: recvmsg_internal_def check_rosetta_def Let_def)
  then show ?thesis by (auto simp: swap_ts_def load_rev)
qed


text \<open>The bound that guards the local buffer does not count a message of another level either: a timestamp
  that needs the repair, followed by such a message that does not fit what is left of the buffer,
  is copied past its end.\<close>

theorem recvmsg_foreign_message_overflows:
  assumes "msg_ok t" and "is_ts t" and "length (payload t) \<in> {8, 12}" and "msg_ok m" and "level m \<noteq> SOL_SOCKET"
    and "length cbuf = 1024" and "1024 < HDR + TV + (HDR + length (payload m))"
    and "msg_control msg \<noteq> None" and "HDR + TV \<le> msg_controllen msg"
    and "recv msg = (ret, \<lparr>msg_control = Some (encs le [t, m]), msg_controllen = length (encs le [t, m])\<rparr>)" and "0 \<le> ret"
  shows "recvmsg_internal le True False native cbuf recv 0 msg = None"
proof -
  have ts: "ts_ok t" using assms(3) by (auto simp: ts_ok_def)
  have k: "new_size t = HDR + TV" using assms(2) by (simp add: new_size_def)
  have cnt: "sum_list (map counted [t, m]) = HDR + TV"
    using assms(2,5) k by (simp add: counted_def is_ts_def)
  have need: "list_ex needs_fix [t, m]" using assms(2,3) by (auto simp: needs_fix_def TV_def)
  have "list_all msg_ok [t, m]" using assms(1,4) by simp
  from check_lengths_stream [of "[t, m]", OF _ this, of le "[]", unfolded cnt]
  have chk: "check_cmsg_lengths le (encs le [t, m]) (length (encs le [t, m])) = Some (True, 28)"
    using need by (simp add: HDR_def TV_def)
  let ?c = "encs le [t, m]" and ?n = "length (encs le [t, m])"
  define b y where "b = take (HDR + TV) cbuf" and "y = drop (HDR + TV) cbuf"
  have b: "cbuf = b @ y" "length b = new_size t" "length y = 1024 - (HDR + TV)"
    using assms(6) k by (simp_all add: b_def y_def HDR_def TV_def)
  have c0: "?c = enc le t @ enc le m" by simp
  have "\<exists>t'. converted le t t' \<and> length (enc le t') = new_size t \<and>
    fix_loop le ?c ?n 0 cbuf 0 = (case next_hdr ?n 0 (HDR + length (payload t)) of
         None \<Rightarrow> Some (enc le t' @ y, new_size t)
       | Some q \<Rightarrow> fix_loop le ?c ?n q (enc le t' @ y) (new_size t))"
    using fix_loop_step [OF assms(1) ts b(2), of le "[]" "enc le m" ?n "[]" y]
    by (simp only: append_Nil list.size(3) plus_nat.add_0 c0 b(1))
  then obtain t' where t': "length (enc le t') = new_size t" and
    step: "fix_loop le ?c ?n 0 cbuf 0 = (case next_hdr ?n 0 (HDR + length (payload t)) of
         None \<Rightarrow> Some (enc le t' @ y, new_size t)
       | Some q \<Rightarrow> fix_loop le ?c ?n q (enc le t' @ y) (new_size t))" by blast
  have "next_hdr ?n 0 (HDR + length (payload t)) = Some (HDR + length (payload t))"
    using next_in_stream [OF assms(1), of 0 le "[m]"] by simp
  then have step2: "fix_loop le ?c ?n 0 cbuf 0 = fix_loop le ?c ?n (length (enc le t)) (enc le t' @ y) (new_size t)"
    by (simp only: step option.case length_enc)
  have c: "?c = enc le t @ enc le m @ []" by simp
  have t: "(level m = SOL_SOCKET \<and> ctype m = SCM_TIMESTAMP) = False" using assms(5) by simp
  have s: "mslice ?c (length (enc le t)) (HDR + length (payload m)) = Some (enc le m)" by (simp add: mslice_def)
  have o: "mblit (enc le t' @ y) (new_size t) (enc le m) = None"
    using assms(7) t' b(3) k by (simp add: mblit_def HDR_def TV_def)
  have "fix_loop le ?c ?n (length (enc le t)) (enc le t' @ y) (new_size t) = None"
    unfolding c by (simp only: fix_loop.simps [of le "enc le t @ enc le m @ []" _ "length (enc le t)"] enc_ld [OF assms(4)]
        bind.bind_lunit t if_False s [unfolded c] o bind.bind_lzero)
  moreover have "first_hdr ?n = Some 0" by (simp add: first_hdr_def)
  ultimately have "fix_cmsg_formats le cbuf ?c ?n 28 = None"
    using step2 assms(6) by (simp add: fix_cmsg_formats_def)
  then show ?thesis
    using assms(8-11) chk by (simp add: recvmsg_internal_def Let_def HDR_def TV_def)
qed

section \<open>Instances\<close>

definition demo_ts :: cmsg where
  "demo_ts = \<lparr>level = SOL_SOCKET, ctype = SCM_TIMESTAMP, payload = [1, 0, 0, 0, 2, 0, 0, 0]\<rparr>"

definition demo_other :: "nat \<Rightarrow> cmsg" where
  "demo_other k = \<lparr>level = 0, ctype = 7, payload = replicate k 9\<rparr>"

definition demo_msg :: msghdr where
  "demo_msg = \<lparr>msg_control = Some (replicate 64 0), msg_controllen = 64\<rparr>"

definition demo_recv :: "bool \<Rightarrow> cmsg list \<Rightarrow> msghdr \<Rightarrow> int \<times> msghdr" where
  "demo_recv le ms msg = (4, \<lparr>msg_control = Some (encs le ms @ replicate (64 - length (encs le ms)) 0),
                             msg_controllen = length (encs le ms)\<rparr>)"

lemma demo_ts_len: "length (payload demo_ts) = 8"
  by (simp add: demo_ts_def)

lemma demo_ts_ok: "msg_ok demo_ts" "is_ts demo_ts" "ts_ok demo_ts" "length (payload demo_ts) = 8" "new_size demo_ts = 28"
  "level demo_ts = SOL_SOCKET"
  unfolding msg_ok_def ts_ok_def new_size_def demo_ts_len
  by (simp_all add: msg_ok_def is_ts_def ts_ok_def demo_ts_def SOL_SOCKET_def SCM_TIMESTAMP_def new_size_def HDR_def TV_def)

lemma demo_other_ok: "k < 2 ^ 30 \<Longrightarrow> 4 dvd k \<Longrightarrow> msg_ok (demo_other k)" "level (demo_other k) \<noteq> SOL_SOCKET"
  "length (payload (demo_other k)) = k" "\<not> is_ts (demo_other k)"
  by (simp_all add: msg_ok_def demo_other_def SOL_SOCKET_def is_ts_def)

theorem recvmsg_converts_timestamps_witness:
  "\<exists>ms' slack'. recvmsg_internal True True False None (replicate 1024 5) (demo_recv True [demo_ts]) 0 demo_msg =
      Some (-1, 4, \<lparr>msg_control = Some (encs True ms' @ slack'), msg_controllen = length (encs True ms')\<rparr>)
    \<and> list_all2 (converted True) [demo_ts] ms'"
  by (rule recvmsg_converts_timestamps [where slack = "replicate (64 - length (encs True [demo_ts])) 0"])
    (simp_all add: demo_ts_ok demo_msg_def demo_recv_def HDR_def)

theorem recvmsg_foreign_message_disables_fix_witness:
  "recvmsg_internal True True False None (replicate 1024 5) (demo_recv True [demo_ts, demo_other 4]) 0 demo_msg =
      Some (-1, 4, snd (demo_recv True [demo_ts, demo_other 4] demo_msg))"
proof -
  let ?ms = "[demo_ts, demo_other 4]"
  have n: "new_size (demo_other 4) = 16" using demo_other_ok(4) [of 4] by (simp add: new_size_def demo_other_ok HDR_def)
  have ok: "list_all msg_ok ?ms" "list_all ts_ok ?ms" "sum_list (map new_size ?ms) \<le> 1024" "demo_other 4 \<in> set ?ms"
    using demo_other_ok(1,4) [of 4] by (simp_all add: demo_ts_ok ts_ok_def n)
  from recvmsg_foreign_message_disables_fix [OF ok(4) demo_other_ok(2) ok(1,2) _ ok(3),
      of "replicate 1024 5" "demo_recv True ?ms" demo_msg 4 True "replicate (64 - length (encs True ?ms)) 0" None]
  show ?thesis by (simp add: demo_recv_def demo_msg_def demo_ts_ok demo_other_ok HDR_def)
qed

theorem recvmsg_swaps_timestamps_witness:
  "recvmsg_internal False False True (Some 0) [] (demo_recv False [demo_ts]) 0 demo_msg =
      Some (1, 4, \<lparr>msg_control = Some (encs False (map swap_ts [demo_ts]) @ replicate (64 - length (encs False [demo_ts])) 0),
                   msg_controllen = length (encs False [demo_ts])\<rparr>)"
  using recvmsg_swaps_timestamps [of "[demo_ts]" "demo_recv False [demo_ts]" demo_msg 4 False
      "replicate (64 - length (encs False [demo_ts])) 0" "[]"]
  by (simp add: demo_ts_ok demo_recv_def)

theorem recvmsg_foreign_message_overflows_witness:
  "recvmsg_internal True True False None (replicate 1024 5)
     (\<lambda>_. (4, \<lparr>msg_control = Some (encs True [demo_ts, demo_other 1000]), msg_controllen = length (encs True [demo_ts, demo_other 1000])\<rparr>))
     0 demo_msg = None"
proof (rule recvmsg_foreign_message_overflows [where t = demo_ts and m = "demo_other 1000" and ret = 4])
  show "msg_ok demo_ts" "is_ts demo_ts" by (rule demo_ts_ok)+
  show "msg_ok (demo_other 1000)" by (rule demo_other_ok) simp_all
  show "level (demo_other 1000) \<noteq> SOL_SOCKET" by (rule demo_other_ok)
  show "(0 :: int) \<le> 4" by simp
qed (simp_all add: demo_ts_ok demo_other_ok demo_msg_def HDR_def TV_def)

end
