(* ===== verification/Chacha.thy ===== *)
theory Chacha
  imports Legacy_Prelude
begin

text \<open>
  Model of the ChaCha stream generator of \<open>src/arc4random.c\<close> (lines 47 to 281): the key and
  nonce setup, the block function and the keystream loop.  The context is the list of its
  sixteen words.
\<close>

section \<open>Words and bytes\<close>

definition U8TO32_LITTLE :: "byte list \<Rightarrow> nat \<Rightarrow> u32" where
  "U8TO32_LITTLE p i =
     ucast (p ! i) OR push_bit 8 (ucast (p ! (i + 1))) OR push_bit 16 (ucast (p ! (i + 2)))
     OR push_bit 24 (ucast (p ! (i + 3)))"

definition U32TO8_LITTLE :: "u32 \<Rightarrow> byte list" where
  "U32TO8_LITTLE v = [ucast v, ucast (drop_bit 8 v), ucast (drop_bit 16 v), ucast (drop_bit 24 v)]"

definition ROTL32 :: "u32 \<Rightarrow> nat \<Rightarrow> u32" where
  "ROTL32 v n = push_bit n v OR drop_bit (32 - n) v"

section \<open>Setup\<close>

text \<open>The constants \<open>expand 32-byte k\<close> and \<open>expand 16-byte k\<close>.\<close>

definition sigma :: "byte list" where
  "sigma = [101, 120, 112, 97, 110, 100, 32, 51, 50, 45, 98, 121, 116, 101, 32, 107]"

definition tau :: "byte list" where
  "tau = [101, 120, 112, 97, 110, 100, 32, 49, 54, 45, 98, 121, 116, 101, 32, 107]"

definition chacha_keysetup :: "u32 list \<Rightarrow> byte list \<Rightarrow> nat \<Rightarrow> u32 list" where
  "chacha_keysetup x k kbits =
     (let x = x[4 := U8TO32_LITTLE k 0, 5 := U8TO32_LITTLE k 4, 6 := U8TO32_LITTLE k 8, 7 := U8TO32_LITTLE k 12];
          (k, constants) = (if kbits = 256 then (drop 16 k, sigma) else (k, tau));
          x = x[8 := U8TO32_LITTLE k 0, 9 := U8TO32_LITTLE k 4, 10 := U8TO32_LITTLE k 8, 11 := U8TO32_LITTLE k 12]
      in x[0 := U8TO32_LITTLE constants 0, 1 := U8TO32_LITTLE constants 4,
           2 := U8TO32_LITTLE constants 8, 3 := U8TO32_LITTLE constants 12])"

definition chacha_ivsetup :: "u32 list \<Rightarrow> byte list \<Rightarrow> u32 list" where
  "chacha_ivsetup x iv = x[12 := 0, 13 := 0, 14 := U8TO32_LITTLE iv 0, 15 := U8TO32_LITTLE iv 4]"

section \<open>The block function\<close>

definition QUARTERROUND :: "nat \<Rightarrow> nat \<Rightarrow> nat \<Rightarrow> nat \<Rightarrow> u32 list \<Rightarrow> u32 list" where
  "QUARTERROUND a b c d x =
     (let x = x[a := x ! a + x ! b]; x = x[d := ROTL32 (x ! d XOR x ! a) 16];
          x = x[c := x ! c + x ! d]; x = x[b := ROTL32 (x ! b XOR x ! c) 12];
          x = x[a := x ! a + x ! b]; x = x[d := ROTL32 (x ! d XOR x ! a) 8];
          x = x[c := x ! c + x ! d]
      in x[b := ROTL32 (x ! b XOR x ! c) 7])"

definition double_round :: "u32 list \<Rightarrow> u32 list" where
  "double_round x =
     QUARTERROUND 3 4 9 14 (QUARTERROUND 2 7 8 13 (QUARTERROUND 1 6 11 12 (QUARTERROUND 0 5 10 15
       (QUARTERROUND 3 7 11 15 (QUARTERROUND 2 6 10 14 (QUARTERROUND 1 5 9 13 (QUARTERROUND 0 4 8 12 x)))))))"

text \<open>The loop that counts \<open>i\<close> down from 20 by 2.\<close>

fun rounds :: "nat \<Rightarrow> u32 list \<Rightarrow> u32 list" where
  "rounds i x = (if i = 0 then x else rounds (i - 2) (double_round x))"

declare rounds.simps [simp del]

definition chacha_block :: "u32 list \<Rightarrow> byte list" where
  "chacha_block j = concat (map U32TO8_LITTLE (map2 (+) (rounds 20 j) j))"

definition next_counter :: "u32 list \<Rightarrow> u32 list" where
  "next_counter j =
     (let j = j[12 := j ! 12 + 1] in if j ! 12 = 0 then j[13 := j ! 13 + 1] else j)"

text \<open>\<open>chacha_encrypt_bytes\<close> in its keystream-only form: the bytes stored and the new context.  A
  last partial block goes through a temporary.\<close>

function encrypt_loop :: "u32 list \<Rightarrow> nat \<Rightarrow> byte list \<times> u32 list" where
  "encrypt_loop j bytes =
     (let c = chacha_block j; j' = next_counter j in
      if bytes \<le> 64 then (take bytes c, j')
      else (let (rest, j'') = encrypt_loop j' (bytes - 64) in (c @ rest, j'')))"
  by auto
termination by (relation "measure snd") auto

declare encrypt_loop.simps [simp del]

definition chacha_encrypt_bytes :: "u32 list \<Rightarrow> nat \<Rightarrow> byte list \<times> u32 list" where
  "chacha_encrypt_bytes x bytes =
     (if bytes = 0 then ([], x)
      else let (c, j) = encrypt_loop x bytes in (c, x[12 := j ! 12, 13 := j ! 13]))"

section \<open>Lengths\<close>

lemma length_setup [simp]: "length (chacha_keysetup x k b) = length x" "length (chacha_ivsetup x iv) = length x"
  by (simp_all add: chacha_keysetup_def chacha_ivsetup_def Let_def split: prod.split)

lemma length_QUARTERROUND [simp]: "length (QUARTERROUND a b c d x) = length x"
  by (simp add: QUARTERROUND_def Let_def)

lemma length_double_round [simp]: "length (double_round x) = length x"
  by (simp add: double_round_def)

lemma length_rounds [simp]: "length (rounds i x) = length x"
  by (induction i x rule: rounds.induct) (subst rounds.simps, simp)

lemma length_next_counter [simp]: "length (next_counter j) = length j"
  by (simp add: next_counter_def Let_def)

lemma length_chacha_block [simp]: "length j = 16 \<Longrightarrow> length (chacha_block j) = 64"
  by (simp add: chacha_block_def length_concat comp_def U32TO8_LITTLE_def sum_list_triv)

lemma encrypt_loop_length:
  "length j = 16 \<Longrightarrow> 0 < n \<Longrightarrow> length (fst (encrypt_loop j n)) = n \<and> length (snd (encrypt_loop j n)) = 16"
proof (induction j n rule: encrypt_loop.induct)
  case (1 j n)
  show ?case
  proof (cases "n \<le> 64")
    case True
    then show ?thesis using 1 by (simp add: encrypt_loop.simps [of j n] Let_def)
  next
    case False
    with 1 have "length (fst (encrypt_loop (next_counter j) (n - 64))) = n - 64
        \<and> length (snd (encrypt_loop (next_counter j) (n - 64))) = 16" by simp
    then show ?thesis using 1 False by (simp add: encrypt_loop.simps [of j n] Let_def case_prod_beta)
  qed
qed

lemma chacha_encrypt_length:
  "length x = 16 \<Longrightarrow> length (fst (chacha_encrypt_bytes x n)) = n \<and> length (snd (chacha_encrypt_bytes x n)) = 16"
  using encrypt_loop_length [of x n] by (simp add: chacha_encrypt_bytes_def case_prod_beta)


section \<open>The keystream and its counter\<close>

definition ctr64 :: "u32 list \<Rightarrow> nat" where
  "ctr64 j = unat (j ! 12) + 2 ^ 32 * unat (j ! 13)"

lemma unat_suc32: "unat (w + 1 :: u32) = (if unat w = 2 ^ 32 - 1 then 0 else unat w + 1)"
  using unat_less_32 [of w] by (auto simp: unat_word_ariths)

lemma ctr64_next:
  assumes "length j = 16"
  shows "ctr64 (next_counter j) = (ctr64 j + 1) mod 2 ^ 64"
proof -
  have z: "j ! 12 + 1 = 0 \<longleftrightarrow> unat (j ! 12) = 2 ^ 32 - 1"
    using unat_suc32 [of "j ! 12"] unat_eq_zero [of "j ! 12 + 1"] by (simp split: if_splits)
  have b: "unat (j ! 12) < 2 ^ 32" "unat (j ! 13) < 2 ^ 32" by (rule unat_less_32)+
  show ?thesis
  proof (cases "unat (j ! 12) = 2 ^ 32 - 1")
    case True
    have "(2 ^ 32 - 1 + 2 ^ 32 * unat (j ! 13) + 1) mod 2 ^ 64 = 2 ^ 32 * ((unat (j ! 13) + 1) mod 2 ^ 32)"
      by (simp add: mult_mod_right)
    also have "(unat (j ! 13) + 1) mod 2 ^ 32 = unat (j ! 13 + 1)" by (simp add: unat_word_ariths)
    finally show ?thesis using True z assms by (simp add: ctr64_def next_counter_def Let_def)
  next
    case False
    then have "unat (j ! 12) + 2 ^ 32 * unat (j ! 13) + 1 < 2 ^ 64" using b by simp
    then show ?thesis using False z assms unat_suc32 [of "j ! 12"]
      by (simp add: ctr64_def next_counter_def Let_def)
  qed
qed

lemma encrypt_loop_stream:
  "length j = 16 \<Longrightarrow> 0 < n \<Longrightarrow>
     fst (encrypt_loop j n) = take n (concat (map (\<lambda>i. chacha_block ((next_counter ^^ i) j)) [0..<(n + 63) div 64]))
   \<and> snd (encrypt_loop j n) = (next_counter ^^ ((n + 63) div 64)) j"
proof (induction j n rule: encrypt_loop.induct)
  case (1 j n)
  show ?case
  proof (cases "n \<le> 64")
    case True
    then have "(n + 63) div 64 = 1" using 1 by simp
    then show ?thesis using 1 True by (simp add: encrypt_loop.simps [of j n] Let_def)
  next
    case False
    define k where "k = (n - 64 + 63) div 64"
    have k: "(n + 63) div 64 = Suc k" using False by (simp add: k_def)
    have "length (next_counter j) = 16" "0 < n - 64" using 1(2) False by simp_all
    note IH = 1(1) [OF refl refl False this, folded k_def]
    note ih = conjunct1 [OF IH] conjunct2 [OF IH]
    have up: "[0..<Suc k] = 0 # map Suc [0..<k]" by (simp only: map_Suc_upt upt_conv_Cons zero_less_Suc)
    have "fst (encrypt_loop j n) = chacha_block j @ fst (encrypt_loop (next_counter j) (n - 64))"
      using False by (simp add: encrypt_loop.simps [of j n] Let_def case_prod_beta)
    moreover have "snd (encrypt_loop j n) = snd (encrypt_loop (next_counter j) (n - 64))"
      using False by (simp add: encrypt_loop.simps [of j n] Let_def case_prod_beta)
    ultimately show ?thesis
      unfolding k up ih using 1(2) False by (simp add: comp_def funpow_swap1 del: upt_Suc)
  qed
qed

section \<open>The rounds lose nothing\<close>

definition upd :: "nat \<Rightarrow> nat \<Rightarrow> (u32 \<Rightarrow> u32 \<Rightarrow> u32) \<Rightarrow> u32 list \<Rightarrow> u32 list" where
  "upd a b f x = x[a := f (x ! a) (x ! b)]"

lemma QUARTERROUND_upd:
  "QUARTERROUND a b c d x =
     upd b c (\<lambda>u v. ROTL32 (u XOR v) 7) (upd c d (+) (upd d a (\<lambda>u v. ROTL32 (u XOR v) 8) (upd a b (+)
       (upd b c (\<lambda>u v. ROTL32 (u XOR v) 12) (upd c d (+) (upd d a (\<lambda>u v. ROTL32 (u XOR v) 16) (upd a b (+) x)))))))"
  by (simp add: QUARTERROUND_def upd_def Let_def)

lemma QUARTERROUND_comp:
  "QUARTERROUND a b c d =
     upd b c (\<lambda>u v. ROTL32 (u XOR v) 7) \<circ> (upd c d (+) \<circ> (upd d a (\<lambda>u v. ROTL32 (u XOR v) 8) \<circ> (upd a b (+) \<circ>
       (upd b c (\<lambda>u v. ROTL32 (u XOR v) 12) \<circ> (upd c d (+) \<circ> (upd d a (\<lambda>u v. ROTL32 (u XOR v) 16) \<circ> upd a b (+)))))))"
  by (rule ext) (simp only: QUARTERROUND_upd comp_apply)

lemma double_round_comp:
  "double_round = QUARTERROUND 3 4 9 14 \<circ> (QUARTERROUND 2 7 8 13 \<circ> (QUARTERROUND 1 6 11 12 \<circ> (QUARTERROUND 0 5 10 15 \<circ>
     (QUARTERROUND 3 7 11 15 \<circ> (QUARTERROUND 2 6 10 14 \<circ> (QUARTERROUND 1 5 9 13 \<circ> QUARTERROUND 0 4 8 12))))))"
  by (rule ext) (simp only: double_round_def comp_apply)

lemma upd_inj:
  assumes "a \<noteq> b" and "a < 16" and "\<And>u u' v. f u v = f u' v \<Longrightarrow> u = u'"
    and "length x = 16" and "length y = 16" and "upd a b f x = upd a b f y"
  shows "x = y"
proof (rule nth_equalityI)
  show "length x = length y" using assms by simp
  fix i
  assume i: "i < length x"
  have other: "x ! k = y ! k" if "k \<noteq> a" for k
    using assms(6) that unfolding upd_def by (metis nth_list_update_neq)
  show "x ! i = y ! i"
  proof (cases "i = a")
    case True
    have "f (x ! a) (x ! b) = f (y ! a) (y ! b)"
      using assms(2,4,5,6) unfolding upd_def by (metis nth_list_update_eq)
    then show ?thesis using other [of b] assms(1,3) True by metis
  qed (rule other)
qed

lemma bit_ROTL32:
  "0 < n \<Longrightarrow> n < 32 \<Longrightarrow> i < 32 \<Longrightarrow> bit (ROTL32 v n) i = (if n \<le> i then bit v (i - n) else bit v (32 - n + i))"
  using bit_imp_le_length [of v "32 - n + i"] by (auto simp: ROTL32_def bit_simps)

lemma ROTL32_inj:
  assumes "0 < n" and "n < 32" and "ROTL32 v n = ROTL32 w n"
  shows "v = w"
proof (rule bit_word_eqI)
  fix k
  assume "k < LENGTH(32)"
  then have k: "k < 32" by simp
  show "bit v k = bit w k"
  proof (cases "k + n < 32")
    case True
    then show ?thesis using bit_ROTL32 [of n "k + n" v] bit_ROTL32 [of n "k + n" w] assms by simp
  next
    case False
    then have i: "k + n - 32 < 32" "\<not> n \<le> k + n - 32" "32 - n + (k + n - 32) = k" using k assms(2) by simp_all
    then show ?thesis using bit_ROTL32 [of n "k + n - 32" v] bit_ROTL32 [of n "k + n - 32" w] assms by simp
  qed
qed

lemma xor_rot_inj:
  assumes "0 < n" and "n < 32" and "ROTL32 (u XOR v) n = ROTL32 (u' XOR v) n"
  shows "u = u'"
proof -
  have "u XOR v = u' XOR v" using assms by (rule ROTL32_inj)
  then have "(u XOR v) XOR v = (u' XOR v) XOR v" by simp
  then show ?thesis by (simp add: xor.assoc)
qed

lemma upd_length [simp]: "length (upd a b f x) = length x"
  by (simp add: upd_def)

text \<open>States, and the maps on them that are injective.\<close>

definition states :: "u32 list set" where
  "states = {x. length x = 16}"

lemma comp_inj: "inj_on f states \<Longrightarrow> inj_on g states \<Longrightarrow> (\<And>x. length (g x) = length x) \<Longrightarrow> inj_on (f \<circ> g) states"
  unfolding inj_on_def states_def by auto

lemma upd_inj_on:
  "a \<noteq> b \<Longrightarrow> a < 16 \<Longrightarrow> (\<And>u u' v. f u v = f u' v \<Longrightarrow> u = u') \<Longrightarrow> inj_on (upd a b f) states"
  unfolding inj_on_def states_def using upd_inj [of a b f] by blast

lemma add_inj: "u + v = u' + v \<Longrightarrow> u = (u' :: u32)"
  by simp

lemma QUARTERROUND_inj:
  assumes "distinct [a, b, c, d]" and "a < 16" "b < 16" "c < 16" "d < 16"
  shows "inj_on (QUARTERROUND a b c d) states"
proof -
  have n: "a \<noteq> b" "c \<noteq> d" "d \<noteq> a" "b \<noteq> c" using assms(1) by auto
  have add: "inj_on (upd p q (+)) states" if "p \<noteq> q" "p < 16" for p q
    by (rule upd_inj_on [OF that]) (rule add_inj)
  have rot: "inj_on (upd p q (\<lambda>u v. ROTL32 (u XOR v) k)) states" if "p \<noteq> q" "p < 16" "0 < k" "k < 32" for p q k
    by (rule upd_inj_on [OF that(1,2)]) (rule xor_rot_inj [OF that(3,4)])
  show ?thesis
    unfolding QUARTERROUND_comp by (intro comp_inj add rot n assms(2-5)) simp_all
qed

lemma double_round_inj: "inj_on double_round states"
  unfolding double_round_comp by (intro comp_inj QUARTERROUND_inj) simp_all

lemma rounds_zero: "rounds 0 x = x"
  by (simp add: rounds.simps)

lemma rounds_pos: "i \<noteq> 0 \<Longrightarrow> rounds i x = rounds (i - 2) (double_round x)"
  by (subst rounds.simps) (simp only: if_False)

lemma rounds_inj: "inj_on (rounds i) states"
proof (induction i rule: less_induct)
  case (less i)
  show ?case
  proof (cases "i = 0")
    case True
    then show ?thesis by (simp add: inj_on_def rounds_zero)
  next
    case False
    then have "inj_on (rounds (i - 2) \<circ> double_round) states"
      by (intro comp_inj double_round_inj less) simp_all
    moreover have "rounds i = rounds (i - 2) \<circ> double_round"
      by (rule ext) (simp only: rounds_pos [OF False] comp_apply)
    ultimately show ?thesis by (simp only:)
  qed
qed


lemma next_counter_other: "k \<noteq> 12 \<Longrightarrow> k \<noteq> 13 \<Longrightarrow> next_counter j ! k = j ! k"
  by (simp add: next_counter_def Let_def)

lemma counter_steps:
  "length j = 16 \<Longrightarrow> length ((next_counter ^^ n) j) = 16 \<and> ctr64 ((next_counter ^^ n) j) = (ctr64 j + n) mod 2 ^ 64
     \<and> (\<forall>k. k \<noteq> 12 \<longrightarrow> k \<noteq> 13 \<longrightarrow> ((next_counter ^^ n) j) ! k = j ! k)"
proof (induction n)
  case 0
  have "ctr64 j < 2 ^ 64"
    using unat_less_32 [of "j ! 12"] unat_less_32 [of "j ! 13"] by (simp add: ctr64_def)
  then show ?case using 0 by simp
next
  case (Suc n)
  then have "ctr64 (next_counter ((next_counter ^^ n) j)) = ((ctr64 j + n) mod 2 ^ 64 + 1) mod 2 ^ 64"
    by (simp add: ctr64_next)
  also have "\<dots> = (ctr64 j + Suc n) mod 2 ^ 64" by (simp add: mod_Suc_eq)
  finally show ?case using Suc by (simp add: next_counter_other)
qed

text \<open>The published test vector of the quarter round.\<close>

lemma QUARTERROUND_test_vector:
  "QUARTERROUND 0 1 2 3 [0x11111111, 0x01020304, 0x9b8d6f43, 0x01234567] =
     [0xea2a92f4, 0xcb1cf8ce, 0x4581472e, 0x5881c4bb]"
  by (simp add: QUARTERROUND_def ROTL32_def Let_def)

section \<open>Properties\<close>

text \<open>C8: Encrypting \<open>n\<close> bytes yields the first \<open>n\<close> bytes of the blocks at successive values of the 64-bit
  counter in words 12 and 13, a partial last block included; the counter is then past every block
  used, modulo 2^64, and no other word of the context has changed, so no block is used twice.\<close>

theorem chacha_keystream:
  fixes n :: nat
  assumes "length x = 16"
  defines "k \<equiv> (n + 63) div 64"
  shows "fst (chacha_encrypt_bytes x n) = take n (concat (map (\<lambda>i. chacha_block ((next_counter ^^ i) x)) [0..<k]))
    \<and> ctr64 (snd (chacha_encrypt_bytes x n)) = (ctr64 x + k) mod 2 ^ 64
    \<and> (\<forall>i. i \<noteq> 12 \<longrightarrow> i \<noteq> 13 \<longrightarrow> snd (chacha_encrypt_bytes x n) ! i = x ! i)"
proof (cases "n = 0")
  case True
  have "ctr64 x < 2 ^ 64"
    using unat_less_32 [of "x ! 12"] unat_less_32 [of "x ! 13"] by (simp add: ctr64_def)
  then show ?thesis using True by (simp add: chacha_encrypt_bytes_def k_def)
next
  case False
  note st = encrypt_loop_stream [OF assms(1), of n, folded k_def]
  have c: "chacha_encrypt_bytes x n = (fst (encrypt_loop x n),
      x[12 := snd (encrypt_loop x n) ! 12, 13 := snd (encrypt_loop x n) ! 13])"
    using False by (simp add: chacha_encrypt_bytes_def case_prod_beta)
  have "ctr64 (x[12 := ((next_counter ^^ k) x) ! 12, 13 := ((next_counter ^^ k) x) ! 13]) = ctr64 ((next_counter ^^ k) x)"
    using assms(1) by (simp add: ctr64_def)
  then show ?thesis using st False counter_steps [OF assms(1), of k] by (simp add: c)
qed

theorem chacha_keystream_witness:
  "ctr64 (snd (chacha_encrypt_bytes (replicate 16 7) 100)) = (ctr64 (replicate 16 7) + 2) mod 2 ^ 64"
  using chacha_keystream [of "replicate 16 7" 100] by simp

text \<open>The twenty rounds are injective on the states of the generator: no two keys, nonces or counters are
  merged before the final addition.\<close>

theorem rounds_injective:
  assumes "length x = 16" and "length y = 16" and "x \<noteq> y"
  shows "rounds 20 x \<noteq> rounds 20 y"
  using rounds_inj [of 20] assms by (auto simp: inj_on_def states_def)

theorem rounds_injective_witness: "rounds 20 (replicate 16 0) \<noteq> rounds 20 (replicate 16 1)"
  by (rule rounds_injective) (simp_all add: replicate_eq_replicate)

end
