(* ===== verification/Entropy.thy ===== *)
theory Entropy
  imports Legacy_Prelude
begin

text \<open>
  Model of \<open>src/getentropy.c\<close>, and the interface the random generator sees of it.  What
  \<open>open\<close> and \<open>read\<close> of the random device answer is a script of results, consumed one per call.
  The routine ends the process on a fatal error, which is \<open>Exited\<close>; while the script of reads
  is used up and bytes are still missing the call has not returned (\<open>Waiting\<close>).
\<close>

datatype read_result = Read_bytes "byte list" | Read_error errno

datatype 'a outcome = Returned 'a | Exited | Waiting

text \<open>The device: whether its descriptor is open, whether it can be opened, the reads to come.\<close>

record device =
  fd_open :: bool
  can_open :: bool
  reads :: "read_result list"

definition randopen :: "device \<Rightarrow> device outcome" where
  "randopen d = (if can_open d then Returned (d\<lparr>fd_open := True\<rparr>) else Exited)"

text \<open>\<open>read\<close> returns at most the bytes asked for; a longer answer is cut to them.\<close>

fun getentropy_loop :: "nat \<Rightarrow> read_result list \<Rightarrow> byte list \<Rightarrow> (byte list \<times> read_result list) outcome" where
  "getentropy_loop 0 rs acc = Returned (acc, rs)"
| "getentropy_loop (Suc n) [] acc = Waiting"
| "getentropy_loop (Suc n) (Read_error e # rs) acc =
     (if e = EINTR then getentropy_loop (Suc n) rs acc else Exited)"
| "getentropy_loop (Suc n) (Read_bytes bs # rs) acc =
     (let bs = take (Suc n) bs in getentropy_loop (Suc n - length bs) rs (acc @ bs))"

definition getentropy :: "nat \<Rightarrow> device \<Rightarrow> (byte list \<times> device) outcome" where
  "getentropy n d =
     (case (if \<not> fd_open d then randopen d else Returned d) of
        Exited \<Rightarrow> Exited
      | Waiting \<Rightarrow> Waiting
      | Returned d \<Rightarrow>
          (case getentropy_loop n (reads d) [] of
             Exited \<Rightarrow> Exited
           | Waiting \<Rightarrow> Waiting
           | Returned (bs, rs) \<Rightarrow> Returned (bs, d\<lparr>reads := rs\<rparr>)))"

text \<open>The bytes a script of reads delivers, up to its first fatal error.\<close>

fun delivered :: "read_result list \<Rightarrow> byte list" where
  "delivered [] = []"
| "delivered (Read_error e # rs) = (if e = EINTR then delivered rs else [])"
| "delivered (Read_bytes bs # rs) = bs @ delivered rs"

lemma getentropy_loop_eq:
  "case getentropy_loop n rs acc of
     Returned (bs, rs') \<Rightarrow> n \<le> length (delivered rs) \<and> bs = acc @ take n (delivered rs)
   | _ \<Rightarrow> length (delivered rs) < n"
proof (induction n rs acc rule: getentropy_loop.induct)
  case (4 n bs rs acc)
  show ?case
  proof (cases "Suc n \<le> length bs")
    case True
    then show ?thesis by (simp add: Let_def)
  next
    case False
    then have "take (Suc n) bs = bs" by simp
    with 4 [OF refl] False show ?thesis
      by (auto simp: Let_def split: outcome.splits)
  qed
qed (auto split: outcome.splits)

lemma getentropy_Returned:
  assumes "getentropy n d = Returned (bs, d')"
  shows "length bs = n \<and> bs = take n (delivered (reads d)) \<and> fd_open d'"
proof -
  from assms obtain rs where r: "getentropy_loop n (reads d) [] = Returned (bs, rs)" and f: "fd_open d'"
    by (auto simp: getentropy_def randopen_def split: if_splits outcome.splits prod.splits)
  from getentropy_loop_eq [of n "reads d" "[]"] r have "n \<le> length (delivered (reads d))" "bs = take n (delivered (reads d))"
    by simp_all
  then show ?thesis using f by simp
qed

section \<open>Properties\<close>

text \<open>C16: \<open>getentropy\<close> on a device that is or can be opened returns exactly when the reads to come deliver enough
  bytes before a fatal error, and then the buffer holds the first of them, in order, however the
  reads split them and however often they were interrupted.\<close>

theorem getentropy_correct:
  assumes "fd_open d \<or> can_open d"
  shows "((\<exists>bs d'. getentropy n d = Returned (bs, d')) \<longleftrightarrow> n \<le> length (delivered (reads d)))
    \<and> (\<forall>bs d'. getentropy n d = Returned (bs, d') \<longrightarrow> bs = take n (delivered (reads d)))"
proof (intro conjI allI impI)
  have "reads (d\<lparr>fd_open := True\<rparr>) = reads d" by simp
  then show "(\<exists>bs d'. getentropy n d = Returned (bs, d')) \<longleftrightarrow> n \<le> length (delivered (reads d))"
    using assms getentropy_loop_eq [of n "reads d" "[]"]
    by (auto simp: getentropy_def randopen_def split: outcome.splits)
qed (simp add: getentropy_Returned)

theorem getentropy_correct_witness:
  "\<exists>d'. getentropy 3 \<lparr>fd_open = False, can_open = True, reads = [Read_bytes [1], Read_error EINTR, Read_bytes [2, 3, 4]]\<rparr>
     = Returned ([1, 2, 3], d')"
proof -
  let ?d = "\<lparr>fd_open = False, can_open = True, reads = [Read_bytes [1], Read_error EINTR, Read_bytes [2, 3, 4]]\<rparr> :: device"
  have "fd_open ?d \<or> can_open ?d" by simp
  with getentropy_correct [of ?d 3] obtain bs d' where r: "getentropy 3 ?d = Returned (bs, d')" by auto
  with getentropy_correct [of ?d 3] have "bs = take 3 (delivered (reads ?d))" by simp
  with r show ?thesis by (simp add: numeral_3_eq_3)
qed

end
