(* ===== verification/Arc4random.thy ===== *)
theory Arc4random
  imports Chacha Entropy
begin

text \<open>
  Model of the random generator of \<open>src/arc4random.c\<close> (lines 283 to 535): the per-thread state
  with its keystream buffer, rekeying and reseeding, the detection of a fork, and the public
  functions.  The random device is the script of \<open>Entropy\<close>; an operation that has to wait for
  it, or that ends the process, returns no state.
\<close>

definition KEYSZ :: nat where "KEYSZ = 32"
definition IVSZ :: nat where "IVSZ = 8"
definition RSBUFSZ :: nat where "RSBUFSZ = 16 * 64"

record rand_state =
  rs_have :: nat
  rs_count :: size_t
  rs_pid :: int
  rs_chacha :: "u32 list"
  rs_buf :: "byte list"

text \<open>The state \<open>calloc\<close> provides.\<close>

definition zero_state :: rand_state where
  "zero_state = \<lparr>rs_have = 0, rs_count = 0, rs_pid = 0, rs_chacha = replicate 16 0, rs_buf = replicate RSBUFSZ 0\<rparr>"

section \<open>Keying\<close>

definition rs_init :: "rand_state \<Rightarrow> byte list \<Rightarrow> rand_state" where
  "rs_init st buf =
     st\<lparr>rs_chacha := chacha_ivsetup (chacha_keysetup (rs_chacha st) buf (KEYSZ * 8)) (drop KEYSZ buf)\<rparr>"

definition mix :: "byte list \<Rightarrow> byte list option \<Rightarrow> byte list" where
  "mix buf dat =
     (case dat of
        None \<Rightarrow> buf
      | Some d \<Rightarrow> let m = min (length d) (KEYSZ + IVSZ) in map2 (XOR) (take m buf) (take m d) @ drop m buf)"

definition rs_rekey :: "rand_state \<Rightarrow> byte list option \<Rightarrow> rand_state" where
  "rs_rekey st dat =
     (let (ks, ctx) = chacha_encrypt_bytes (rs_chacha st) RSBUFSZ;
          buf = mix ks dat;
          st = rs_init (st\<lparr>rs_chacha := ctx\<rparr>) buf
      in st\<lparr>rs_buf := replicate (KEYSZ + IVSZ) 0 @ drop (KEYSZ + IVSZ) buf, rs_have := RSBUFSZ - KEYSZ - IVSZ\<rparr>)"

definition rs_stir :: "rand_state \<Rightarrow> device \<Rightarrow> (rand_state \<times> device) outcome" where
  "rs_stir st dev =
     (case getentropy (KEYSZ + IVSZ) dev of
        Exited \<Rightarrow> Exited
      | Waiting \<Rightarrow> Waiting
      | Returned (rnd, dev) \<Rightarrow>
          let st = rs_rekey st (Some rnd)
          in Returned (st\<lparr>rs_have := 0, rs_buf := replicate RSBUFSZ 0, rs_count := 1600000\<rparr>, dev))"

definition rs_stir_if_needed :: "rand_state \<Rightarrow> size_t \<Rightarrow> device \<Rightarrow> (rand_state \<times> device) outcome" where
  "rs_stir_if_needed st len dev =
     (case (if rs_count st \<le> len then rs_stir st dev else Returned (st, dev)) of
        Exited \<Rightarrow> Exited
      | Waiting \<Rightarrow> Waiting
      | Returned (st, dev) \<Rightarrow> Returned (st\<lparr>rs_count := rs_count st - len\<rparr>, dev))"

section \<open>Drawing\<close>

text \<open>Taking \<open>m\<close> bytes from the valid end of the buffer, and erasing them.\<close>

definition rs_take :: "nat \<Rightarrow> rand_state \<Rightarrow> byte list \<times> rand_state" where
  "rs_take m st =
     (let p = RSBUFSZ - rs_have st
      in (take m (drop p (rs_buf st)),
          st\<lparr>rs_buf := take p (rs_buf st) @ replicate m 0 @ drop (p + m) (rs_buf st), rs_have := rs_have st - m\<rparr>))"

function random_loop :: "nat \<Rightarrow> rand_state \<Rightarrow> byte list \<times> rand_state" where
  "random_loop n st =
     (if n = 0 then ([], st)
      else if rs_have st > 0
      then (let m = min n (rs_have st); (xs, st) = rs_take m st; (ys, st) = random_loop (n - m) st in (xs @ ys, st))
      else random_loop n (rs_rekey st None))"
  by auto
termination
  by (relation "measure (\<lambda>(n, st). 2 * n + (if rs_have st = 0 then 1 else 0))")
    (auto simp: rs_rekey_def Let_def case_prod_beta RSBUFSZ_def KEYSZ_def IVSZ_def)

declare random_loop.simps [simp del]

definition rs_random_buf :: "rand_state \<Rightarrow> nat \<Rightarrow> device \<Rightarrow> (byte list \<times> rand_state \<times> device) outcome" where
  "rs_random_buf st n dev =
     (case rs_stir_if_needed st (of_nat n) dev of
        Exited \<Rightarrow> Exited
      | Waiting \<Rightarrow> Waiting
      | Returned (st, dev) \<Rightarrow> (let (xs, st) = random_loop n st in Returned (xs, st, dev)))"

text \<open>\<open>le\<close> is the byte order of the machine.\<close>

definition u32_of :: "bool \<Rightarrow> byte list \<Rightarrow> u32" where
  "u32_of le bs = U8TO32_LITTLE (if le then bs else rev bs) 0"

definition rs_random_u32 :: "bool \<Rightarrow> rand_state \<Rightarrow> device \<Rightarrow> (u32 \<times> rand_state \<times> device) outcome" where
  "rs_random_u32 le st dev =
     (case rs_stir_if_needed st 4 dev of
        Exited \<Rightarrow> Exited
      | Waiting \<Rightarrow> Waiting
      | Returned (st, dev) \<Rightarrow>
          (let st = (if rs_have st < 4 then rs_rekey st None else st); (bs, st) = rs_take 4 st
           in Returned (u32_of le bs, st, dev)))"

section \<open>Threads and forks\<close>

text \<open>\<open>tls\<close> is the state of each thread, \<open>once\<close> whether the key was created, \<open>rforked\<close> the counter the
  fork handler increments in the child.\<close>

record process =
  tls :: "nat \<Rightarrow> rand_state option"
  once :: bool
  rforked :: u32
  pid :: int
  dev :: device

definition atfork :: "process \<Rightarrow> process" where
  "atfork w = w\<lparr>rforked := rforked w + 1\<rparr>"

text \<open>The child of a fork: a new process number, and the handler has run if it was registered.\<close>

definition fork_child :: "int \<Rightarrow> process \<Rightarrow> process" where
  "fork_child p w = (let w = w\<lparr>pid := p\<rparr> in if once w then atfork w else w)"

definition screate :: "process \<Rightarrow> process outcome" where
  "screate w =
     (case getentropy 8 (dev w) of
        Exited \<Rightarrow> Exited
      | Waiting \<Rightarrow> Waiting
      | Returned (_, d) \<Rightarrow> Returned (w\<lparr>once := True, dev := d\<rparr>))"

definition sget :: "nat \<Rightarrow> process \<Rightarrow> (rand_state \<times> process) outcome" where
  "sget t w =
     (case (if once w then Returned w else screate w) of
        Exited \<Rightarrow> Exited
      | Waiting \<Rightarrow> Waiting
      | Returned w \<Rightarrow>
          (case (case tls w t of
                   Some z \<Rightarrow> Returned (z, w)
                 | None \<Rightarrow>
                     (case rs_stir zero_state (dev w) of
                        Exited \<Rightarrow> Exited
                      | Waiting \<Rightarrow> Waiting
                      | Returned (z, d) \<Rightarrow>
                          (let z = z\<lparr>rs_pid := pid w\<rparr> in Returned (z, w\<lparr>dev := d, tls := (tls w)(t := Some z)\<rparr>)))) of
             Exited \<Rightarrow> Exited
           | Waiting \<Rightarrow> Waiting
           | Returned (z, w) \<Rightarrow>
               if rforked w > 0 \<or> pid w \<noteq> rs_pid z
               then (case rs_stir (z\<lparr>rs_pid := pid w\<rparr>) (dev w) of
                       Exited \<Rightarrow> Exited
                     | Waiting \<Rightarrow> Waiting
                     | Returned (z, d) \<Rightarrow> Returned (z, w\<lparr>rforked := 0, dev := d, tls := (tls w)(t := Some z)\<rparr>))
               else Returned (z, w)))"

definition put_state :: "nat \<Rightarrow> rand_state \<Rightarrow> device \<Rightarrow> process \<Rightarrow> process" where
  "put_state t z d w = w\<lparr>tls := (tls w)(t := Some z), dev := d\<rparr>"

section \<open>The public functions\<close>

definition arc4random_buf :: "nat \<Rightarrow> nat \<Rightarrow> process \<Rightarrow> (byte list \<times> process) outcome" where
  "arc4random_buf t n w =
     (case sget t w of
        Exited \<Rightarrow> Exited
      | Waiting \<Rightarrow> Waiting
      | Returned (z, w) \<Rightarrow>
          (case rs_random_buf z n (dev w) of
             Exited \<Rightarrow> Exited
           | Waiting \<Rightarrow> Waiting
           | Returned (bs, z, d) \<Rightarrow> Returned (bs, put_state t z d w)))"

text \<open>The loop that draws until the number is not below \<open>lo\<close>; \<open>None\<close> if it never ends.\<close>

partial_function (option) uniform_loop :: "bool \<Rightarrow> u32 \<Rightarrow> rand_state \<Rightarrow> device \<Rightarrow> (u32 \<times> rand_state \<times> device) outcome option" where
  "uniform_loop le lo z d =
     (case rs_random_u32 le z d of
        Exited \<Rightarrow> Some Exited
      | Waiting \<Rightarrow> Some Waiting
      | Returned (r, z, d) \<Rightarrow> if r \<ge> lo then Some (Returned (r, z, d)) else uniform_loop le lo z d)"

definition min_of :: "u32 \<Rightarrow> u32" where
  "min_of upper_bound = (- upper_bound) mod upper_bound"

definition arc4random_uniform :: "bool \<Rightarrow> nat \<Rightarrow> u32 \<Rightarrow> process \<Rightarrow> (u32 \<times> process) outcome option" where
  "arc4random_uniform le t upper_bound w =
     (case sget t w of
        Exited \<Rightarrow> Some Exited
      | Waiting \<Rightarrow> Some Waiting
      | Returned (z, w) \<Rightarrow>
          if upper_bound < 2 then Some (Returned (0, w))
          else do { r \<leftarrow> uniform_loop le (min_of upper_bound) z (dev w);
                    case r of
                      Exited \<Rightarrow> Some Exited
                    | Waiting \<Rightarrow> Some Waiting
                    | Returned (v, z, d) \<Rightarrow> Some (Returned (v mod upper_bound, put_state t z d w)) })"


section \<open>The invariant of a state\<close>

text \<open>The consumed part of the buffer, before the last \<open>rs_have\<close> bytes, is erased.\<close>

definition rs_ok :: "rand_state \<Rightarrow> bool" where
  "rs_ok st \<longleftrightarrow> length (rs_buf st) = RSBUFSZ \<and> length (rs_chacha st) = 16 \<and> rs_have st \<le> RSBUFSZ - (KEYSZ + IVSZ)
     \<and> take (RSBUFSZ - rs_have st) (rs_buf st) = replicate (RSBUFSZ - rs_have st) 0"

lemmas sizes = RSBUFSZ_def KEYSZ_def IVSZ_def

lemma rs_ok_fields [simp]: "rs_ok (st\<lparr>rs_count := c\<rparr>) = rs_ok st" "rs_ok (st\<lparr>rs_pid := p\<rparr>) = rs_ok st"
  by (simp_all add: rs_ok_def)

lemma zero_state_ok: "rs_ok zero_state"
  by (simp add: rs_ok_def zero_state_def sizes)

lemma length_mix: "length buf = RSBUFSZ \<Longrightarrow> length (mix buf dat) = RSBUFSZ"
  by (auto simp: mix_def Let_def sizes split: option.split)

lemma rs_rekey_ok:
  assumes "length (rs_chacha st) = 16"
  shows "rs_ok (rs_rekey st dat) \<and> rs_have (rs_rekey st dat) = RSBUFSZ - (KEYSZ + IVSZ)
    \<and> rs_count (rs_rekey st dat) = rs_count st \<and> rs_pid (rs_rekey st dat) = rs_pid st"
proof -
  have "length (fst (chacha_encrypt_bytes (rs_chacha st) RSBUFSZ)) = RSBUFSZ"
    "length (snd (chacha_encrypt_bytes (rs_chacha st) RSBUFSZ)) = 16"
    using chacha_encrypt_length [OF assms, of RSBUFSZ] by simp_all
  then show ?thesis
    using length_mix [of "fst (chacha_encrypt_bytes (rs_chacha st) RSBUFSZ)" dat]
    by (simp add: rs_rekey_def Let_def case_prod_beta rs_ok_def rs_init_def) (simp add: sizes)
qed

lemma rs_stir_ok:
  assumes "rs_ok st" and "rs_stir st d = Returned (st', d')"
  shows "rs_ok st' \<and> rs_have st' = 0 \<and> rs_count st' = 1600000 \<and> rs_pid st' = rs_pid st"
proof -
  have c: "length (rs_chacha st) = 16" using assms(1) by (simp add: rs_ok_def)
  from assms(2) obtain rnd where
    "st' = (rs_rekey st (Some rnd))\<lparr>rs_have := 0, rs_buf := replicate RSBUFSZ 0, rs_count := 1600000\<rparr>"
    by (auto simp: rs_stir_def Let_def split: outcome.splits prod.splits)
  then show ?thesis using rs_rekey_ok [OF c, of "Some rnd"] by (simp add: rs_ok_def)
qed

lemma rs_stir_if_needed_ok:
  assumes "rs_ok st" and "rs_stir_if_needed st len d = Returned (st', d')"
  shows "rs_ok st'"
  using assms rs_stir_ok [OF assms(1)]
  by (auto simp: rs_stir_if_needed_def split: outcome.splits if_splits)

lemma rs_take_ok:
  assumes ok: "rs_ok st" and m: "m \<le> rs_have st"
  shows "length (fst (rs_take m st)) = m \<and> rs_ok (snd (rs_take m st)) \<and> rs_have (snd (rs_take m st)) = rs_have st - m
    \<and> rs_count (snd (rs_take m st)) = rs_count st"
proof -
  let ?p = "RSBUFSZ - rs_have st"
  have l: "length (rs_buf st) = RSBUFSZ" "?p + m \<le> RSBUFSZ" "RSBUFSZ - (rs_have st - m) = ?p + m"
    using ok m by (auto simp: rs_ok_def sizes)
  have t: "take ?p (rs_buf st) = replicate ?p 0" using ok by (simp add: rs_ok_def)
  have "take (?p + m) (take ?p (rs_buf st) @ replicate m 0 @ drop (?p + m) (rs_buf st)) = replicate (?p + m) 0"
    using l(1,2) unfolding t by (simp add: replicate_add)
  moreover have "rs_have st - m \<le> RSBUFSZ - (KEYSZ + IVSZ)"
    using ok by (intro order.trans [OF diff_le_self]) (simp add: rs_ok_def)
  moreover define st' where "st' = snd (rs_take m st)"
  have f: "rs_buf st' = take ?p (rs_buf st) @ replicate m 0 @ drop (?p + m) (rs_buf st)" "rs_have st' = rs_have st - m"
    "rs_chacha st' = rs_chacha st" "rs_count st' = rs_count st"
    by (simp_all add: st'_def rs_take_def Let_def)
  moreover have "length (fst (rs_take m st)) = m" using l(1,2) by (simp add: rs_take_def Let_def)
  moreover have "length (rs_buf st') = RSBUFSZ" using l(1,2) unfolding f(1) by simp
  moreover have "length (rs_chacha st') = 16" using ok f(3) by (simp add: rs_ok_def)
  ultimately show ?thesis unfolding st'_def [symmetric] rs_ok_def by (simp only: l(3) f simp_thms)
qed

lemma random_loop_zero: "random_loop 0 st = ([], st)"
  by (simp add: random_loop.simps)

lemma random_loop_ok:
  "rs_ok st \<Longrightarrow> length (fst (random_loop n st)) = n \<and> rs_ok (snd (random_loop n st))
     \<and> rs_count (snd (random_loop n st)) = rs_count st"
proof (induction n st rule: random_loop.induct)
  case (1 n st)
  consider "n = 0" | "n \<noteq> 0" "rs_have st > 0" | "n \<noteq> 0" "\<not> rs_have st > 0" by blast
  then show ?case
  proof cases
    case 1
    then show ?thesis using "1.prems" by (simp add: random_loop_zero)
  next
    case 2
    let ?m = "min n (rs_have st)"
    note t = rs_take_ok [OF "1.prems", of ?m]
    have "length (fst (random_loop (n - ?m) (snd (rs_take ?m st)))) = n - ?m
        \<and> rs_ok (snd (random_loop (n - ?m) (snd (rs_take ?m st))))
        \<and> rs_count (snd (random_loop (n - ?m) (snd (rs_take ?m st)))) = rs_count (snd (rs_take ?m st))"
      using "1.IH"(1) [OF 2 refl refl prod.collapse] t by simp
    then show ?thesis using 2 t by (simp add: random_loop.simps [of n st] Let_def case_prod_beta)
  next
    case 3
    have "rs_ok (rs_rekey st None)" "rs_count (rs_rekey st None) = rs_count st"
      using rs_rekey_ok [of st None] "1.prems" unfolding rs_ok_def [of st] by blast+
    then show ?thesis using "1.IH"(2) [OF 3] 3 by (simp add: random_loop.simps [of n st])
  qed
qed


section \<open>Splitting a request\<close>

lemma rs_take_add:
  assumes ok: "rs_ok st" and ab: "a + b \<le> rs_have st"
  shows "rs_take (a + b) st =
    (fst (rs_take a st) @ fst (rs_take b (snd (rs_take a st))), snd (rs_take b (snd (rs_take a st))))"
proof -
  define p where "p = RSBUFSZ - rs_have st"
  have len: "length (rs_buf st) = RSBUFSZ" "rs_have st \<le> RSBUFSZ" using ok by (auto simp: rs_ok_def)
  have q: "RSBUFSZ - (rs_have st - a) = p + a" and pl: "p + a + b \<le> length (rs_buf st)"
    using len ab by (simp_all add: p_def)
  have one: "snd (rs_take a st) = st\<lparr>rs_buf := take p (rs_buf st) @ replicate a 0 @ drop (p + a) (rs_buf st), rs_have := rs_have st - a\<rparr>"
    "fst (rs_take a st) = take a (drop p (rs_buf st))"
    by (simp_all add: rs_take_def Let_def p_def)
  have lp: "length (take p (rs_buf st) @ replicate a 0) = p + a" using pl by simp
  then have dr: "drop (p + a) (take p (rs_buf st) @ replicate a 0 @ drop (p + a) (rs_buf st)) = drop (p + a) (rs_buf st)"
    "take (p + a) (take p (rs_buf st) @ replicate a 0 @ drop (p + a) (rs_buf st)) = take p (rs_buf st) @ replicate a 0"
    "drop (p + a + b) (take p (rs_buf st) @ replicate a 0 @ drop (p + a) (rs_buf st)) = drop (p + a + b) (rs_buf st)"
    using pl by (simp_all add: add_ac)
  have two: "rs_take b (snd (rs_take a st)) = (take b (drop (p + a) (rs_buf st)),
      st\<lparr>rs_buf := (take p (rs_buf st) @ replicate a 0) @ replicate b 0 @ drop (p + a + b) (rs_buf st), rs_have := rs_have st - a - b\<rparr>)"
    using pl unfolding one(1) by (simp add: rs_take_def Let_def q dr(1) min_absorb2 add_ac)
  have "take (a + b) (drop p (rs_buf st)) = take a (drop p (rs_buf st)) @ take b (drop (p + a) (rs_buf st))"
    by (simp add: take_add add.commute)
  then show ?thesis unfolding two one(2)
    by (simp add: rs_take_def Let_def p_def [symmetric] replicate_add add.assoc)
qed

lemma random_loop_step:
  "n \<noteq> 0 \<Longrightarrow> rs_have st > 0 \<Longrightarrow> random_loop n st =
     (fst (rs_take (min n (rs_have st)) st) @ fst (random_loop (n - min n (rs_have st)) (snd (rs_take (min n (rs_have st)) st))),
      snd (random_loop (n - min n (rs_have st)) (snd (rs_take (min n (rs_have st)) st))))"
  by (simp add: random_loop.simps [of n st] Let_def case_prod_beta)

lemma random_loop_rekey: "n \<noteq> 0 \<Longrightarrow> rs_have st = 0 \<Longrightarrow> random_loop n st = random_loop n (rs_rekey st None)"
  by (simp add: random_loop.simps [of n st])

lemma random_loop_add:
  "rs_ok st \<Longrightarrow> random_loop (n + m) st =
     (fst (random_loop n st) @ fst (random_loop m (snd (random_loop n st))), snd (random_loop m (snd (random_loop n st))))"
proof (induction n st rule: random_loop.induct)
  case (1 n st)
  consider "n = 0" | "n \<noteq> 0" "rs_have st = 0" | "n \<noteq> 0" "rs_have st > 0" "rs_have st \<le> n"
    | "n \<noteq> 0" "rs_have st > 0" "n < rs_have st" by linarith
  then show ?case
  proof cases
    case 1
    then show ?thesis by (simp add: random_loop_zero)
  next
    case 2
    then have "rs_ok (rs_rekey st None)"
      using rs_rekey_ok [of st None] "1.prems" unfolding rs_ok_def [of st] by blast
    with 2 "1.IH"(2) have "random_loop (n + m) (rs_rekey st None) =
        (fst (random_loop n (rs_rekey st None)) @ fst (random_loop m (snd (random_loop n (rs_rekey st None)))),
         snd (random_loop m (snd (random_loop n (rs_rekey st None)))))" by blast
    moreover have "n + m \<noteq> 0" using 2 by simp
    ultimately show ?thesis
      using random_loop_rekey [OF 2] random_loop_rekey [of "n + m" st, OF _ 2(2)] by (simp only: not_False_eq_True)
  next
    case 3
    then have m: "min n (rs_have st) = rs_have st" "min (n + m) (rs_have st) = rs_have st"
      "n + m - rs_have st = (n - rs_have st) + m" by simp_all
    let ?s = "snd (rs_take (rs_have st) st)"
    have "rs_ok ?s" using rs_take_ok [OF "1.prems", of "rs_have st"] by simp
    then have r: "random_loop ((n - rs_have st) + m) ?s =
        (fst (random_loop (n - rs_have st) ?s) @ fst (random_loop m (snd (random_loop (n - rs_have st) ?s))),
         snd (random_loop m (snd (random_loop (n - rs_have st) ?s))))"
      using "1.IH"(1) [OF 3(1,2) refl refl prod.collapse] m(1) by simp
    have a: "random_loop n st = (fst (rs_take (rs_have st) st) @ fst (random_loop (n - rs_have st) ?s),
        snd (random_loop (n - rs_have st) ?s))"
      using random_loop_step [OF 3(1,2)] unfolding m(1) .
    have nz: "n + m \<noteq> 0" using 3(1) by simp
    have b: "random_loop (n + m) st = (fst (rs_take (rs_have st) st) @ fst (random_loop ((n - rs_have st) + m) ?s),
        snd (random_loop ((n - rs_have st) + m) ?s))"
      using random_loop_step [OF nz 3(2)] unfolding m(2,3) .
    show ?thesis unfolding a b r by (simp only: fst_conv snd_conv append_assoc)
  next
    case 4
    let ?s = "snd (rs_take n st)" and ?k = "min m (rs_have st - n)"
    have h: "rs_have ?s = rs_have st - n" using rs_take_ok [OF "1.prems", of n] 4 by simp
    have n: "random_loop n st = rs_take n st"
      using random_loop_step [of n st] 4 by (simp add: random_loop_zero min_absorb1)
    show ?thesis
    proof (cases "m = 0")
      case True
      then show ?thesis by (simp add: random_loop_zero)
    next
      case False
      have k: "min (n + m) (rs_have st) = n + ?k" "n + m - (n + ?k) = m - ?k" "n + ?k \<le> rs_have st" using 4 by auto
      note add = rs_take_add [OF "1.prems" k(3)]
      have "random_loop (n + m) st =
          (fst (rs_take (n + ?k) st) @ fst (random_loop (m - ?k) (snd (rs_take (n + ?k) st))),
           snd (random_loop (m - ?k) (snd (rs_take (n + ?k) st))))"
        using random_loop_step [of "n + m" st] 4 unfolding k(1,2) by simp
      also have "\<dots> = (fst (rs_take n st) @ fst (random_loop m ?s), snd (random_loop m ?s))"
        using random_loop_step [of m ?s] False 4 h unfolding add by simp
      finally show ?thesis unfolding n .
    qed
  qed
qed

section \<open>Fork detection and the public functions\<close>

definition threads_ok :: "process \<Rightarrow> bool" where
  "threads_ok w \<longleftrightarrow> (\<forall>t z. tls w t = Some z \<longrightarrow> rs_ok z)"

lemma threads_okD: "threads_ok w \<Longrightarrow> tls w t = Some z \<Longrightarrow> rs_ok z"
  by (simp add: threads_ok_def)

lemma put_state_ok: "threads_ok w \<Longrightarrow> rs_ok z \<Longrightarrow> threads_ok (put_state t z d w)"
  by (auto simp: threads_ok_def put_state_def)

lemma fork_child_ok: "threads_ok (fork_child p w) = threads_ok w"
  by (simp add: threads_ok_def fork_child_def atfork_def Let_def)

lemma screate_keeps:
  assumes "screate w = Returned w'"
  shows "tls w' = tls w \<and> rforked w' = rforked w \<and> pid w' = pid w \<and> once w'"
  using assms by (auto simp: screate_def split: outcome.splits prod.splits)

definition fresh :: "int \<Rightarrow> rand_state \<Rightarrow> bool" where
  "fresh p z \<longleftrightarrow> rs_have z = 0 \<and> rs_count z = 1600000 \<and> rs_pid z = p"

definition needs_stir :: "nat \<Rightarrow> process \<Rightarrow> bool" where
  "needs_stir t w \<longleftrightarrow> (case tls w t of None \<Rightarrow> True | Some z \<Rightarrow> rforked w > 0 \<or> pid w \<noteq> rs_pid z)"

lemma sget_ok:
  assumes ok: "threads_ok w" and r: "sget t w = Returned (z, w')"
  shows "rs_ok z \<and> threads_ok w' \<and> pid w' = pid w \<and> once w' \<and> tls w' t = Some z \<and> rs_pid z = pid w
    \<and> (\<forall>u. u \<noteq> t \<longrightarrow> tls w' u = tls w u)
    \<and> (if needs_stir t w then fresh (pid w) z else tls w t = Some z)"
proof -
  from r obtain w1 where w1: "(if once w then Returned w else screate w) = Returned w1"
    by (auto simp: sget_def split: outcome.splits)
  have k: "tls w1 = tls w" "rforked w1 = rforked w" "pid w1 = pid w" "once w1"
    using w1 screate_keeps [of w w1] by (auto split: if_splits)
  have stir: "rs_ok s' \<and> rs_have s' = 0 \<and> rs_count s' = 1600000 \<and> rs_pid s' = rs_pid s"
    if "rs_ok s" "rs_stir s d = Returned (s', d')" for s d s' d'
    using rs_stir_ok [OF that] .
  show ?thesis
  proof (cases "tls w t")
    case None
    with r w1 k obtain s d where s: "rs_stir zero_state (dev w1) = Returned (s, d)"
      by (auto simp: sget_def split: outcome.splits if_splits)
    note s' = stir [OF zero_state_ok s]
    from r w1 k None s s' ok show ?thesis
      by (auto simp: sget_def needs_stir_def fresh_def threads_ok_def Let_def split: outcome.splits if_splits
          dest!: stir [rotated])
  next
    case (Some s)
    have "rs_ok s" using threads_okD [OF ok Some] .
    with r w1 k Some ok show ?thesis
      by (auto simp: sget_def needs_stir_def fresh_def threads_ok_def Let_def split: outcome.splits if_splits
          dest!: stir [rotated])
  qed
qed

lemma rs_random_buf_ok:
  assumes "rs_ok z" and "rs_random_buf z n d = Returned (bs, z', d')"
  shows "length bs = n \<and> rs_ok z'"
proof -
  from assms(2) obtain z1 where a: "rs_stir_if_needed z (of_nat n) d = Returned (z1, d')"
    and b: "bs = fst (random_loop n z1)" "z' = snd (random_loop n z1)"
    by (auto simp: rs_random_buf_def Let_def split: outcome.splits prod.splits)
  show ?thesis using random_loop_ok [OF rs_stir_if_needed_ok [OF assms(1) a], of n] b by simp
qed

lemma rs_random_u32_ok:
  assumes ok: "rs_ok z" and r: "rs_random_u32 le z d = Returned (v, z', d')"
  shows "rs_ok z'"
proof -
  from r obtain z1 where a: "rs_stir_if_needed z 4 d = Returned (z1, d')"
    and b: "z' = snd (rs_take 4 (if rs_have z1 < 4 then rs_rekey z1 None else z1))"
    by (auto simp: rs_random_u32_def Let_def split: outcome.splits prod.splits)
  have z1: "rs_ok z1" by (rule rs_stir_if_needed_ok [OF ok a])
  then have "length (rs_chacha z1) = 16" by (simp add: rs_ok_def)
  note k = rs_rekey_ok [OF this, of None]
  have "rs_ok (if rs_have z1 < 4 then rs_rekey z1 None else z1)"
    "4 \<le> rs_have (if rs_have z1 < 4 then rs_rekey z1 None else z1)"
    using z1 k by (auto simp: sizes)
  then show ?thesis unfolding b using rs_take_ok by blast
qed

section \<open>The rejection loop\<close>

text \<open>\<open>rejected le lo s s'\<close>: drawing from \<open>s\<close> yields only numbers below \<open>lo\<close> until \<open>s'\<close>.\<close>

inductive rejected :: "bool \<Rightarrow> u32 \<Rightarrow> rand_state \<times> device \<Rightarrow> rand_state \<times> device \<Rightarrow> bool" for le lo where
  start: "rejected le lo s s"
| draw: "rs_random_u32 le z d = Returned (r, s) \<Longrightarrow> r < lo \<Longrightarrow> rejected le lo s s' \<Longrightarrow> rejected le lo (z, d) s'"

lemma uniform_loop_complete:
  assumes "rejected le lo s s'"
  shows "rs_random_u32 le (fst s') (snd s') = Returned (r, z, d) \<Longrightarrow> lo \<le> r
    \<Longrightarrow> uniform_loop le lo (fst s) (snd s) = Some (Returned (r, z, d))"
  using assms
proof induction
  case (start s)
  then show ?case by (simp add: uniform_loop.simps [of le lo "fst s"])
next
  case (draw z0 d0 r0 s s')
  then show ?case by (cases s) (auto simp: uniform_loop.simps [of le lo z0] dest: leD)
qed

lemma uniform_loop_sound:
  "uniform_loop le lo z d = Some res \<Longrightarrow> \<forall>r z' d'. res = Returned (r, z', d') \<longrightarrow>
     (\<exists>s. rejected le lo (z, d) s \<and> rs_random_u32 le (fst s) (snd s) = Returned (r, z', d') \<and> lo \<le> r)"
proof (induction rule: uniform_loop.raw_induct [rotated 1, consumes 1, case_names step])
  case (step f le lo z d res)
  show ?case
  proof (cases "rs_random_u32 le z d")
    case (Returned y)
    obtain v z1 d1 where y: "y = (v, z1, d1)" by (cases y)
    show ?thesis
    proof (cases "lo \<le> v")
      case True
      then have "res = Returned (v, z1, d1)" using step(2) Returned y by simp
      moreover have "rs_random_u32 le (fst (z, d)) (snd (z, d)) = Returned (v, z1, d1) \<and> lo \<le> v"
        using True Returned y by simp
      ultimately show ?thesis using rejected.start by blast
    next
      case False
      then have "f le lo z1 d1 = Some res" using step(2) Returned y by simp
      from step(1) [OF this] have "\<forall>r z' d'. res = Returned (r, z', d') \<longrightarrow>
        (\<exists>s. rejected le lo (z1, d1) s \<and> rs_random_u32 le (fst s) (snd s) = Returned (r, z', d') \<and> lo \<le> r)" .
      moreover have "rejected le lo (z, d) s" if "rejected le lo (z1, d1) s" for s
        using Returned y False that by (auto intro: rejected.draw)
      ultimately show ?thesis by blast
    qed
  qed (use step(2) in auto)
qed

section \<open>Counting the accepted draws\<close>

lemma residue_count:
  fixes u q m k :: nat
  assumes "k < u" "m < u"
  shows "card {x. m \<le> x \<and> x < u * q + m \<and> x mod u = k} = q"
proof -
  define k' where "k' = (k + (u - m)) mod u"
  have "(m + k') mod u = (m + (k + (u - m))) mod u" unfolding k'_def by (rule mod_add_right_eq)
  also have "m + (k + (u - m)) = k + u" using assms by simp
  finally have k': "k' < u" "(m + k') mod u = k" using assms by (simp_all add: k'_def)
  have "{x. m \<le> x \<and> x < u * q + m \<and> x mod u = k} = (\<lambda>i. m + k' + u * i) ` {..<q}"
  proof (intro set_eqI iffI)
    fix x assume x: "x \<in> {x. m \<le> x \<and> x < u * q + m \<and> x mod u = k}"
    define y where "y = x - m"
    have y: "x = m + y" "y < u * q" "(m + y mod u) mod u = (m + k') mod u"
      using x k' by (auto simp: y_def mod_add_right_eq)
    have "y mod u = k'"
    proof (cases "k' \<le> y mod u")
      case True
      then have "u dvd y mod u - k'" using y(3) mod_eq_dvd_iff_nat [of "m + k'" "m + y mod u" u] by simp
      moreover have "y mod u - k' < u" using assms by (simp add: less_imp_diff_less)
      ultimately show ?thesis using True by (auto dest: dvd_imp_le)
    next
      case False
      then have "u dvd k' - y mod u" using y(3) mod_eq_dvd_iff_nat [of "m + y mod u" "m + k'" u] by simp
      moreover have "k' - y mod u < u" using k' by (simp add: less_imp_diff_less)
      ultimately show ?thesis using False by (auto dest: dvd_imp_le)
    qed
    then have "x = m + k' + u * (y div u)" using y(1) mult_div_mod_eq [of u y] by linarith
    moreover have "y div u < q" using y(2) by (simp add: less_mult_imp_div_less mult.commute)
    ultimately show "x \<in> (\<lambda>i. m + k' + u * i) ` {..<q}" by blast
  next
    fix x assume "x \<in> (\<lambda>i. m + k' + u * i) ` {..<q}"
    then obtain i where i: "i < q" "x = m + k' + u * i" by blast
    have "u * Suc i \<le> u * q" using i(1) by (intro mult_le_mono2) simp
    then show "x \<in> {x. m \<le> x \<and> x < u * q + m \<and> x mod u = k}" using i(2) k' by simp
  qed
  moreover have "inj_on (\<lambda>i. m + k' + u * i) {..<q}" using assms by (auto intro!: inj_onI)
  ultimately show ?thesis by (simp add: card_image)
qed

lemma unat_min_of: "0 < ub \<Longrightarrow> unat (min_of ub) = 2 ^ 32 mod unat ub"
proof -
  assume "0 < ub"
  then have nz: "ub \<noteq> 0" by auto
  have lt: "unat ub < 2 ^ 32" by (rule unat_less_32)
  have "unat (- ub) = 2 ^ 32 - unat ub" using nz unat_sub_if' [of 0 ub] by (simp add: unat_eq_0)
  then have "unat (min_of ub) = (2 ^ 32 - unat ub) mod unat ub" by (simp add: min_of_def unat_mod)
  also have "\<dots> = 2 ^ 32 mod unat ub" using lt by (simp add: le_mod_geq)
  finally show ?thesis .
qed

lemma card_words:
  fixes P :: "nat \<Rightarrow> bool"
  shows "card {v :: u32. P (unat v)} = card {x. x < 2 ^ 32 \<and> P x}"
proof -
  have "unat ` {v :: u32. P (unat v)} = {x. x < 2 ^ 32 \<and> P x}"
  proof (intro set_eqI iffI)
    fix x assume "x \<in> {x. x < 2 ^ 32 \<and> P x}"
    then have "x = unat (word_of_nat x :: u32)" "P x" by (simp_all add: unat_of_nat)
    then show "x \<in> unat ` {v :: u32. P (unat v)}" by (metis (mono_tags, lifting) image_eqI mem_Collect_eq)
  qed (use unat_less_32 in auto)
  moreover have "inj_on unat {v :: u32. P (unat v)}" by (simp add: inj_on_def word_unat_eq_iff)
  ultimately show ?thesis using card_image by metis
qed

section \<open>Sequences of draws\<close>

text \<open>\<open>draws le s vs s'\<close>: drawing one number after the other from \<open>s\<close> gives the list \<open>vs\<close> and ends in \<open>s'\<close>.\<close>

primrec draws :: "bool \<Rightarrow> rand_state \<times> device \<Rightarrow> u32 list \<Rightarrow> rand_state \<times> device \<Rightarrow> bool" where
  "draws le s [] s' \<longleftrightarrow> s' = s"
| "draws le s (v # vs) s' \<longleftrightarrow> (\<exists>s1. rs_random_u32 le (fst s) (snd s) = Returned (v, s1) \<and> draws le s1 vs s')"

lemma draws_append: "draws le s (us @ vs) s' \<longleftrightarrow> (\<exists>s1. draws le s us s1 \<and> draws le s1 vs s')"
  by (induction us arbitrary: s) auto

lemma rejected_draws: "rejected le lo s s' \<longleftrightarrow> (\<exists>vs. draws le s vs s' \<and> (\<forall>v\<in>set vs. v < lo))" (is "?L \<longleftrightarrow> ?R")
proof
  assume ?L
  then show ?R
  proof induction
    case (start s)
    then show ?case by (intro exI [of _ "[]"]) simp
  next
    case (draw z d r s s')
    then obtain vs where "draws le s vs s' \<and> (\<forall>v\<in>set vs. v < lo)" by blast
    with draw(1,2) show ?case by (intro exI [of _ "r # vs"]) auto
  qed
next
  assume ?R
  then obtain vs where "draws le s vs s'" "\<forall>v\<in>set vs. v < lo" by blast
  then show ?L
    by (induction vs arbitrary: s) (auto intro: rejected.start, metis prod.collapse rejected.draw)
qed

text \<open>The loop returns the last of a sequence of draws of which it is the only one not below the bound.\<close>

lemma uniform_loop_draws:
  "uniform_loop le lo z d = Some (Returned (v, z', d')) \<longleftrightarrow>
    (\<exists>vs. draws le (z, d) (vs @ [v]) (z', d') \<and> (\<forall>x\<in>set vs. x < lo) \<and> lo \<le> v)" (is "?L \<longleftrightarrow> ?R")
proof
  assume ?L
  from uniform_loop_sound [OF this] obtain s where
    "rejected le lo (z, d) s" "rs_random_u32 le (fst s) (snd s) = Returned (v, z', d')" "lo \<le> v" by blast
  moreover from this obtain vs where "draws le (z, d) vs s" "\<forall>v\<in>set vs. v < lo" by (auto simp: rejected_draws)
  ultimately have "draws le (z, d) (vs @ [v]) (z', d') \<and> (\<forall>x\<in>set vs. x < lo) \<and> lo \<le> v"
    unfolding draws_append by (cases s) auto
  then show ?R by blast
next
  assume ?R
  then obtain vs s where "draws le (z, d) vs s" "rs_random_u32 le (fst s) (snd s) = Returned (v, z', d')"
    "\<forall>x\<in>set vs. x < lo" "lo \<le> v" by (auto simp: draws_append)
  with uniform_loop_complete [of le lo "(z, d)" s v z' d'] show ?L by (auto simp: rejected_draws)
qed

text \<open>The accepted draws are unbiased: each result below the bound is the image of the same number of accepted
  32-bit draws, and more than half of all draws are accepted.\<close>

lemma uniform_unbiased:
  assumes "2 \<le> ub" and "k < unat ub"
  shows "card {v. min_of ub \<le> v \<and> unat (v mod ub) = k} = 2 ^ 32 div unat ub
    \<and> 2 * card {v. min_of ub \<le> v} > 2 ^ 32"
proof
  let ?u = "unat ub" and ?N = "2 ^ 32 :: nat"
  have ub: "0 < ub" by (rule less_le_trans [OF _ assms(1)]) simp
  have m: "unat (min_of ub) = ?N mod ?u" by (rule unat_min_of [OF ub])
  have N: "?u * (?N div ?u) + ?N mod ?u = ?N" by (rule mult_div_mod_eq)
  have lt: "?N mod ?u < ?u" using assms(2) by (intro mod_less_divisor) linarith
  have "{v. min_of ub \<le> v \<and> unat (v mod ub) = k} = {v. ?N mod ?u \<le> unat v \<and> unat v mod ?u = k}"
    by (simp add: word_le_nat_alt m unat_mod)
  then have "card {v. min_of ub \<le> v \<and> unat (v mod ub) = k} = card {x. x < ?N \<and> (?N mod ?u \<le> x \<and> x mod ?u = k)}"
    using card_words [of "\<lambda>x. ?N mod ?u \<le> x \<and> x mod ?u = k"] by (simp only:)
  also have "{x. x < ?N \<and> (?N mod ?u \<le> x \<and> x mod ?u = k)} = {x. ?N mod ?u \<le> x \<and> x < ?u * (?N div ?u) + ?N mod ?u \<and> x mod ?u = k}"
    unfolding N by blast
  also have "card \<dots> = ?N div ?u" by (rule residue_count [OF assms(2) lt])
  finally show "card {v. min_of ub \<le> v \<and> unat (v mod ub) = k} = ?N div ?u" .
  have "{v. min_of ub \<le> v} = {v. ?N mod ?u \<le> unat v}" by (simp add: word_le_nat_alt m)
  then have "card {v. min_of ub \<le> v} = card {x. x < ?N \<and> ?N mod ?u \<le> x}"
    using card_words [of "\<lambda>x. ?N mod ?u \<le> x"] by (simp only:)
  also have "{x. x < ?N \<and> ?N mod ?u \<le> x} = {?N mod ?u ..< ?N}" by auto
  finally have c: "card {v. min_of ub \<le> v} = ?N - ?N mod ?u" by (simp only: card_atLeastLessThan)
  have "?u \<le> ?N" using unat_less_32 [of ub] by simp
  then have "?u \<le> ?u * (?N div ?u)" using assms(2) div_greater_zero_iff [of ?N ?u] by simp
  then have "2 * (?N mod ?u) < ?N" using N lt by linarith
  then show "2 * card {v. min_of ub \<le> v} > ?N" unfolding c by linarith
qed

section \<open>Properties\<close>

text \<open>C3: \<open>arc4random_buf\<close> delivers exactly the number of bytes asked for, keeps every thread's state well
  formed (its consumed bytes erased), touches no other thread's state, and leaves the caller's
  state keyed for the current process.\<close>

theorem arc4random_buf_correct:
  assumes "threads_ok w" and "arc4random_buf t n w = Returned (bs, w')"
  shows "length bs = n \<and> threads_ok w' \<and> (\<forall>u. u \<noteq> t \<longrightarrow> tls w' u = tls w u)
    \<and> (\<exists>z. tls w' t = Some z \<and> rs_ok z)"
proof -
  from assms(2) obtain z w1 z' d' where s: "sget t w = Returned (z, w1)"
    and b: "rs_random_buf z n (dev w1) = Returned (bs, z', d')" and w': "w' = put_state t z' d' w1"
    by (auto simp: arc4random_buf_def split: outcome.splits prod.splits)
  note g = sget_ok [OF assms(1) s]
  have ok: "length bs = n \<and> rs_ok z'" using rs_random_buf_ok [OF _ b] g by blast
  have "threads_ok w'" unfolding w' using g ok by (blast intro: put_state_ok)
  then show ?thesis using g ok unfolding w' by (simp add: put_state_def)
qed

definition witness_process :: process where
  "witness_process = \<lparr>tls = Map.empty, once = True, rforked = 0, pid = 7,
     dev = \<lparr>fd_open = True, can_open = True, reads = [Read_bytes (replicate 40 1)]\<rparr>\<rparr>"

lemma stir_reads_40:
  assumes "fd_open d" and "reads d = [Read_bytes (replicate 40 x)]"
  shows "rs_stir z d = Returned ((rs_rekey z (Some (replicate 40 x)))\<lparr>rs_have := 0, rs_buf := replicate RSBUFSZ 0, rs_count := 1600000\<rparr>,
    d\<lparr>reads := []\<rparr>)"
proof -
  have "getentropy_loop (Suc 39) [Read_bytes (replicate 40 x)] [] = Returned (replicate 40 x, [])"
    by (subst getentropy_loop.simps(4)) (simp add: Let_def)
  then have "getentropy_loop 40 (reads d) [] = Returned (replicate 40 x, [])" using assms by simp
  then have "getentropy 40 d = Returned (replicate 40 x, d\<lparr>reads := []\<rparr>)" using assms by (simp add: getentropy_def)
  moreover have "KEYSZ + IVSZ = 40" by (simp add: sizes)
  ultimately show ?thesis by (simp add: rs_stir_def Let_def)
qed

lemma sget_witness_process:
  "\<exists>z d. sget 0 witness_process = Returned (z, witness_process\<lparr>dev := d, tls := [0 \<mapsto> z]\<rparr>) \<and> rs_count z = 1600000 \<and> rs_pid z = 7"
  using stir_reads_40 [of "dev witness_process" 1 zero_state]
  by (simp add: sget_def witness_process_def Let_def)

theorem arc4random_buf_correct_witness:
  "\<exists>bs w'. arc4random_buf 0 3 witness_process = Returned (bs, w') \<and> length bs = 3 \<and> threads_ok w'"
proof -
  from sget_witness_process obtain z d where
    s: "sget 0 witness_process = Returned (z, witness_process\<lparr>dev := d, tls := [0 \<mapsto> z]\<rparr>)" "rs_count z = 1600000" by blast
  have "\<not> rs_count z \<le> (of_nat 3 :: size_t)" using s(2) by simp
  then have "\<exists>z1. rs_random_buf z 3 d = Returned (fst (random_loop 3 z1), snd (random_loop 3 z1), d)"
    by (auto simp: rs_random_buf_def rs_stir_if_needed_def case_prod_beta Let_def)
  then obtain bs w' where r: "arc4random_buf 0 3 witness_process = Returned (bs, w')"
    using s(1) by (auto simp: arc4random_buf_def)
  have "threads_ok witness_process" by (simp add: threads_ok_def witness_process_def)
  from arc4random_buf_correct [OF this r] r show ?thesis by blast
qed

text \<open>The bytes of a request do not depend on how the requests before it were split: drawing
  \<open>n + m\<close> bytes is drawing \<open>n\<close> and then \<open>m\<close>, whatever rekeying falls in between.\<close>

theorem random_loop_splits:
  assumes "rs_ok st"
  shows "random_loop (n + m) st =
    (let (xs, st1) = random_loop n st; (ys, st2) = random_loop m st1 in (xs @ ys, st2))"
  by (simp add: random_loop_add [OF assms] case_prod_beta)

theorem random_loop_splits_witness:
  "fst (random_loop 5 zero_state) = fst (random_loop 2 zero_state) @ fst (random_loop 3 (snd (random_loop 2 zero_state)))"
  using random_loop_splits [OF zero_state_ok, of 2 3] by (simp add: case_prod_beta numeral_eq_Suc)

text \<open>C21: After a fork the child's output does not depend on the keystream the parent had left in its
  buffer: the first request of the child reseeds, unless the counter of forks wrapped to zero and
  the process number is the parent's.\<close>

theorem fork_child_forgets_buffer:
  assumes "once w" and "tls w t = Some z" and "rforked w \<noteq> - 1 \<or> p \<noteq> rs_pid z"
  shows "arc4random_buf t n (fork_child p (w\<lparr>tls := (tls w)(t \<mapsto> z\<lparr>rs_have := h, rs_buf := b, rs_count := c\<rparr>)\<rparr>))
    = arc4random_buf t n (fork_child p w)"
proof -
  have "rforked w + 1 > 0 \<or> p \<noteq> rs_pid z"
    using assms(3) by (auto simp: word_neq_0_conv [symmetric] add_eq_0_iff2)
  then have "sget t (fork_child p (w\<lparr>tls := (tls w)(t \<mapsto> z\<lparr>rs_have := h, rs_buf := b, rs_count := c\<rparr>)\<rparr>))
    = sget t (fork_child p w)"
    using assms(1,2)
    by (simp add: sget_def fork_child_def atfork_def Let_def rs_stir_def rs_rekey_def rs_init_def case_prod_beta
        split: outcome.split prod.split)
  then show ?thesis by (simp add: arc4random_buf_def)
qed

theorem fork_child_forgets_buffer_witness:
  "arc4random_buf 0 9 (fork_child 8 (witness_process\<lparr>tls := [0 \<mapsto> zero_state\<lparr>rs_have := 9, rs_buf := [1], rs_count := 5\<rparr>]\<rparr>))
   = arc4random_buf 0 9 (fork_child 8 (witness_process\<lparr>tls := [0 \<mapsto> zero_state]\<rparr>))"
proof -
  let ?w = "witness_process\<lparr>tls := [0 \<mapsto> zero_state]\<rparr>"
  have w: "once ?w" "tls ?w 0 = Some zero_state" "rforked ?w \<noteq> - 1 \<or> 8 \<noteq> rs_pid zero_state"
    by (simp_all add: witness_process_def)
  have "?w\<lparr>tls := (tls ?w)(0 \<mapsto> zero_state\<lparr>rs_have := 9, rs_buf := [1], rs_count := 5\<rparr>)\<rparr>
    = witness_process\<lparr>tls := [0 \<mapsto> zero_state\<lparr>rs_have := 9, rs_buf := [1], rs_count := 5\<rparr>]\<rparr>" by simp
  with fork_child_forgets_buffer [OF w, where n = 9 and h = 9 and b = "[1]" and c = 5] show ?thesis by (simp only:)
qed

text \<open>C18: \<open>arc4random_uniform\<close> of a bound above one draws until a number is at least 2^32 modulo the bound, and
  returns exactly that draw modulo the bound. That makes it uniform: each result below the bound comes from the same
  number of accepted 32-bit numbers, and more than half of all numbers are accepted.\<close>

theorem arc4random_uniform_correct:
  assumes "2 \<le> ub" and "sget t w = Returned (z, w1)"
  shows "(arc4random_uniform le t ub w = Some (Returned (r, w')) \<longleftrightarrow>
      (\<exists>vs v z' d'. draws le (z, dev w1) (vs @ [v]) (z', d') \<and> (\<forall>x\<in>set vs. unat x < 2 ^ 32 mod unat ub)
         \<and> 2 ^ 32 mod unat ub \<le> unat v \<and> unat r = unat v mod unat ub \<and> w' = put_state t z' d' w1))
    \<and> (\<forall>k < unat ub. card {v :: u32. 2 ^ 32 mod unat ub \<le> unat v \<and> unat v mod unat ub = k} = 2 ^ 32 div unat ub)
    \<and> 2 * card {v :: u32. 2 ^ 32 mod unat ub \<le> unat v} > 2 ^ 32"
proof (intro conjI)
  have nub: "\<not> ub < 2" using assms(1) by (simp add: not_less)
  have pos: "0 < ub" by (rule less_le_trans [OF _ assms(1)]) simp
  note m = unat_min_of [OF pos]
  have "arc4random_uniform le t ub w = Some (Returned (r, w')) \<longleftrightarrow>
      (\<exists>v z' d'. uniform_loop le (min_of ub) z (dev w1) = Some (Returned (v, z', d')) \<and> r = v mod ub \<and> w' = put_state t z' d' w1)"
    using assms(2) nub by (auto simp: arc4random_uniform_def split: Option.bind_splits outcome.splits prod.splits)
  also have "\<dots> \<longleftrightarrow> (\<exists>vs v z' d'. draws le (z, dev w1) (vs @ [v]) (z', d') \<and> (\<forall>x\<in>set vs. unat x < 2 ^ 32 mod unat ub)
         \<and> 2 ^ 32 mod unat ub \<le> unat v \<and> unat r = unat v mod unat ub \<and> w' = put_state t z' d' w1)"
    unfolding uniform_loop_draws word_le_nat_alt word_less_nat_alt m word_unat_eq_iff [of r] unat_mod by blast
  finally show "arc4random_uniform le t ub w = Some (Returned (r, w')) \<longleftrightarrow> \<dots>" .
  have k: "0 < unat ub" using pos by (simp add: word_less_nat_alt)
  show "\<forall>k < unat ub. card {v :: u32. 2 ^ 32 mod unat ub \<le> unat v \<and> unat v mod unat ub = k} = 2 ^ 32 div unat ub"
    using uniform_unbiased [OF assms(1)] by (simp add: word_le_nat_alt m unat_mod)
  show "2 * card {v :: u32. 2 ^ 32 mod unat ub \<le> unat v} > 2 ^ 32"
    using uniform_unbiased [OF assms(1) k] by (simp add: word_le_nat_alt m)
qed

theorem arc4random_uniform_correct_witness:
  "(\<exists>v w'. arc4random_uniform True 0 2 witness_process = Some (Returned (v mod 2, w')))
    \<and> card {v :: u32. unat v mod 2 = 1} = 2147483648"
proof -
  obtain z d where s: "sget 0 witness_process = Returned (z, witness_process\<lparr>dev := d, tls := [0 \<mapsto> z]\<rparr>)"
    and c: "rs_count z = 1600000" using sget_witness_process by blast
  have "\<exists>v z'. rs_random_u32 True z d = Returned (v, z', d)"
    using c by (simp add: rs_random_u32_def rs_stir_if_needed_def case_prod_beta Let_def)
  then obtain v z' where v: "draws True (z, d) ([] @ [v]) (z', d)" by auto
  let ?w = "witness_process\<lparr>dev := d, tls := [0 \<mapsto> z]\<rparr>"
  note C = arc4random_uniform_correct [OF order.refl s, of True "v mod 2" "put_state 0 z' d ?w"]
  have "arc4random_uniform True 0 2 witness_process = Some (Returned (v mod 2, put_state 0 z' d ?w))"
    by (rule conjunct1 [OF C, THEN iffD2], rule exI [of _ "[]"], rule exI [of _ v], rule exI [of _ z'], rule exI [of _ d])
      (use v in \<open>simp add: unat_mod\<close>)
  moreover have "card {v :: u32. unat v mod 2 = 1} = 2147483648"
    using conjunct1 [OF conjunct2 [OF C]] by simp
  ultimately show ?thesis by blast
qed

text \<open>A request longer than the reseeding interval makes the counter wrap: afterwards it is far above the
  interval, so that no further request of ordinary size reseeds.\<close>

theorem rs_count_wraps:
  assumes "rs_count st \<le> len" and "1600000 < len" and "rs_ok st"
    and "rs_stir_if_needed st len d = Returned (st', d')" and "len \<le> 2 ^ 63" and "len2 < 2 ^ 62"
  shows "unat (rs_count st') = 2 ^ 64 + 1600000 - unat len
    \<and> rs_stir_if_needed st' len2 d' = Returned (st'\<lparr>rs_count := rs_count st' - len2\<rparr>, d')"
proof -
  from assms(1,4) obtain s where s: "rs_stir st d = Returned (s, d')" "st' = s\<lparr>rs_count := rs_count s - len\<rparr>"
    by (auto simp: rs_stir_if_needed_def split: outcome.splits)
  have "rs_count st' = 1600000 - len" using rs_stir_ok [OF assms(3) s(1)] s(2) by simp
  moreover have "1600000 < unat len" "unat len \<le> 2 ^ 63" "unat len2 < 2 ^ 62"
    using assms(2,5,6) by (simp_all add: word_less_nat_alt word_le_nat_alt)
  moreover from this have u: "unat (1600000 - len) = 2 ^ 64 + 1600000 - unat len"
    using unat_sub_if' [of 1600000 len] by simp
  ultimately have "\<not> rs_count st' \<le> len2" by (simp add: word_le_nat_alt)
  then show ?thesis using u \<open>rs_count st' = 1600000 - len\<close> by (simp add: rs_stir_if_needed_def)
qed

theorem rs_count_wraps_witness:
  "\<exists>st' d'. rs_stir_if_needed zero_state 1600001 (dev witness_process) = Returned (st', d')
     \<and> unat (rs_count st') = 2 ^ 64 - 1"
proof -
  obtain st' d' where r: "rs_stir_if_needed zero_state 1600001 (dev witness_process) = Returned (st', d')"
    using stir_reads_40 [of "dev witness_process" 1 zero_state]
    by (simp add: rs_stir_if_needed_def witness_process_def zero_state_def)
  have "rs_count zero_state \<le> 1600001" by (simp add: zero_state_def)
  from rs_count_wraps [OF this _ zero_state_ok r, of 0] r show ?thesis by simp
qed

end
