(* ===== verification/Process.thy ===== *)
theory Process
  imports Legacy_Prelude
begin

text \<open>
  The process as the system calls of the directory-relative functions see it: its descriptor table, its working
  directory and the one of the current thread, \<open>errno\<close> and its user and group ids.  The directories are numbers; which
  of them may be read or searched by which ids is a parameter (\<open>rights\<close>).  \<open>src/pthread_chdir.c\<close> provides two
  implementations of \<open>__mpls_best_fchdir\<close>; what the \<open>ATCALL\<close> macro relies on is the locale \<open>fchdir_service\<close>,
  which both of them satisfy.
\<close>

section \<open>The process and its system calls\<close>

type_synonym node = nat

datatype file_obj = Dir_obj node | File_obj node

record proc =
  fdt :: "file_obj option list"
  cloexec :: "int \<Rightarrow> bool"
  pcwd :: node
  tcwd :: "node option"
  p_errno :: errno
  ruid :: nat
  euid :: nat
  rgid :: nat
  egid :: nat

record rights =
  may_read :: "nat \<Rightarrow> nat \<Rightarrow> node \<Rightarrow> bool"
  may_search :: "nat \<Rightarrow> nat \<Rightarrow> node \<Rightarrow> bool"

text \<open>The directory a relative path starts from.\<close>

definition wd :: "proc \<Rightarrow> node" where
  "wd s = (case tcwd s of Some d \<Rightarrow> d | None \<Rightarrow> pcwd s)"

definition dirs :: "proc \<Rightarrow> node \<times> node option" where
  "dirs s = (pcwd s, tcwd s)"

definition creds :: "proc \<Rightarrow> nat \<times> nat \<times> nat \<times> nat" where
  "creds s = (ruid s, euid s, rgid s, egid s)"

definition set_errno :: "errno \<Rightarrow> proc \<Rightarrow> proc" where
  "set_errno e s = s\<lparr>p_errno := e\<rparr>"

definition fd_obj :: "proc \<Rightarrow> int \<Rightarrow> file_obj option" where
  "fd_obj s fd = (if 0 \<le> fd \<and> nat fd < length (fdt s) then fdt s ! nat fd else None)"

fun free_slot :: "'a option list \<Rightarrow> nat option" where
  "free_slot [] = None"
| "free_slot (None # t) = Some 0"
| "free_slot (Some x # t) = map_option Suc (free_slot t)"

text \<open>\<open>open(".", O_RDONLY)\<close>, \<open>close\<close> and the changes of directory, as documented.\<close>

definition open_dot :: "rights \<Rightarrow> proc \<Rightarrow> int \<times> proc" where
  "open_dot R s =
     (if \<not> may_read R (euid s) (egid s) (wd s) then (-1, set_errno EACCES s)
      else case free_slot (fdt s) of
        None \<Rightarrow> (-1, set_errno EMFILE s)
      | Some i \<Rightarrow> (int i, s\<lparr>fdt := (fdt s)[i := Some (Dir_obj (wd s))]\<rparr>))"

definition close_fd :: "int \<Rightarrow> proc \<Rightarrow> int \<times> proc" where
  "close_fd fd s =
     (case fd_obj s fd of
        None \<Rightarrow> (-1, set_errno EBADF s)
      | Some _ \<Rightarrow> (0, s\<lparr>fdt := (fdt s)[nat fd := None]\<rparr>))"

definition dir_target :: "rights \<Rightarrow> proc \<Rightarrow> int \<Rightarrow> errno + node" where
  "dir_target R s fd =
     (case fd_obj s fd of
        None \<Rightarrow> Inl EBADF
      | Some (File_obj _) \<Rightarrow> Inl ENOTDIR
      | Some (Dir_obj d) \<Rightarrow> if may_search R (euid s) (egid s) d then Inr d else Inl EACCES)"

definition fchdir :: "rights \<Rightarrow> int \<Rightarrow> proc \<Rightarrow> int \<times> proc" where
  "fchdir R fd s =
     (case dir_target R s fd of
        Inl e \<Rightarrow> (-1, set_errno e s)
      | Inr d \<Rightarrow> (0, s\<lparr>pcwd := d\<rparr>))"

text \<open>The system call behind \<open>pthread_fchdir_np\<close>: \<open>-1\<close> gives up the directory of the thread.\<close>

definition sys_pthread_fchdir :: "rights \<Rightarrow> int \<Rightarrow> proc \<Rightarrow> int \<times> proc" where
  "sys_pthread_fchdir R fd s =
     (if fd = -1
      then (case tcwd s of None \<Rightarrow> (-1, set_errno EBADF s) | Some _ \<Rightarrow> (0, s\<lparr>tcwd := None\<rparr>))
      else (case dir_target R s fd of
              Inl e \<Rightarrow> (-1, set_errno e s)
            | Inr d \<Rightarrow> (0, s\<lparr>tcwd := Some d\<rparr>)))"

section \<open>The functions of pthread\_chdir.c\<close>

definition pthread_chdir_np :: "(string \<Rightarrow> proc \<Rightarrow> int \<times> proc) \<Rightarrow> string \<Rightarrow> proc \<Rightarrow> int \<times> proc" where
  "pthread_chdir_np sys_pthread_chdir path s = sys_pthread_chdir path s"

definition pthread_fchdir_np :: "rights \<Rightarrow> int \<Rightarrow> proc \<Rightarrow> int \<times> proc" where
  "pthread_fchdir_np R fd s = sys_pthread_fchdir R fd s"

definition pthread_chdir_np_dummy :: "string \<Rightarrow> proc \<Rightarrow> int \<times> proc" where
  "pthread_chdir_np_dummy path s = (-1, set_errno ENXIO s)"

definition pthread_fchdir_np_dummy :: "int \<Rightarrow> proc \<Rightarrow> int \<times> proc" where
  "pthread_fchdir_np_dummy fd s = (-1, set_errno ENXIO s)"

definition best_fchdir_thread :: "rights \<Rightarrow> int \<Rightarrow> proc \<Rightarrow> int \<times> proc" where
  "best_fchdir_thread R dirfd s = pthread_fchdir_np R dirfd s"

definition best_fchdir_process :: "rights \<Rightarrow> int \<Rightarrow> proc \<Rightarrow> int \<times> proc" where
  "best_fchdir_process R dirfd s = (if dirfd = -1 then (0, s) else fchdir R dirfd s)"

section \<open>Facts about the calls\<close>

named_theorems proc_simps \<open>what the system calls leave alone\<close>

lemma free_slot_Some: "free_slot t = Some i \<Longrightarrow> i < length t \<and> t ! i = None \<and> (\<forall>j<i. t ! j \<noteq> None)"
proof (induction t arbitrary: i rule: free_slot.induct)
  case (3 x t)
  then obtain k where k: "i = Suc k" "free_slot t = Some k" by auto
  then show ?case using "3.IH" [OF k(2)] by (auto simp: nth_Cons split: nat.split)
qed auto

lemma free_slot_None: "free_slot t = None \<longleftrightarrow> None \<notin> set t"
  by (induction t rule: free_slot.induct) auto

lemma set_errno_simps [proc_simps]:
  "fdt (set_errno e s) = fdt s" "dirs (set_errno e s) = dirs s" "creds (set_errno e s) = creds s"
  "wd (set_errno e s) = wd s" "p_errno (set_errno e s) = e" "pcwd (set_errno e s) = pcwd s" "tcwd (set_errno e s) = tcwd s"
  "cloexec (set_errno e s) = cloexec s" "euid (set_errno e s) = euid s" "egid (set_errno e s) = egid s"
  "fd_obj (set_errno e s) fd = fd_obj s fd" "ruid (set_errno e s) = ruid s" "rgid (set_errno e s) = rgid s"
  by (simp_all add: set_errno_def dirs_def creds_def wd_def fd_obj_def split: option.split)

lemma wd_dirs: "dirs s = dirs s' \<Longrightarrow> wd s = wd s'"
  by (simp add: dirs_def wd_def split: option.split)

lemma creds_ids: "creds s = creds s' \<Longrightarrow> euid s = euid s' \<and> egid s = egid s'"
  by (simp add: creds_def)

lemma fd_obj_minus_one [proc_simps]: "fd_obj s (-1) = None"
  by (simp add: fd_obj_def)

lemma dir_target_minus_one [proc_simps]: "dir_target R s (-1) = Inl EBADF"
  by (simp add: dir_target_def fd_obj_minus_one)

lemma dir_target_cong:
  "fd_obj s fd = fd_obj s' fd \<Longrightarrow> creds s = creds s' \<Longrightarrow> dir_target R s fd = dir_target R s' fd"
  using creds_ids [of s s'] by (simp add: dir_target_def split: option.split file_obj.split)

lemma dir_target_obj: "dir_target R s fd = Inr d \<longleftrightarrow> fd_obj s fd = Some (Dir_obj d) \<and> may_search R (euid s) (egid s) d"
  by (auto simp: dir_target_def split: option.splits file_obj.splits if_splits)

lemma fd_objD: "fd_obj s fd = Some x \<Longrightarrow> 0 \<le> fd \<and> nat fd < length (fdt s) \<and> fdt s ! nat fd = Some x"
  by (auto simp: fd_obj_def split: if_splits)

lemma open_dot_cases:
  obtains (no) e where "open_dot R s = (-1, set_errno e s)"
  | (yes) i where "open_dot R s = (int i, s\<lparr>fdt := (fdt s)[i := Some (Dir_obj (wd s))]\<rparr>)"
      "i < length (fdt s)" "fdt s ! i = None" "may_read R (euid s) (egid s) (wd s)"
proof (cases "may_read R (euid s) (egid s) (wd s) \<and> free_slot (fdt s) \<noteq> None")
  case True
  then obtain i where "free_slot (fdt s) = Some i" by blast
  with True yes [of i] free_slot_Some [of "fdt s" i] show thesis by (simp add: open_dot_def)
next
  case False
  then show thesis using no [of EACCES] no [of EMFILE]
    by (cases "may_read R (euid s) (egid s) (wd s)") (simp_all add: open_dot_def)
qed

lemma fdt_update_keeps [proc_simps]:
  "dirs (s\<lparr>fdt := t\<rparr>) = dirs s" "creds (s\<lparr>fdt := t\<rparr>) = creds s" "wd (s\<lparr>fdt := t\<rparr>) = wd s"
  by (simp_all add: dirs_def creds_def wd_def split: option.split)

lemma open_dot_keeps [proc_simps]:
  "dirs (snd (open_dot R s)) = dirs s" "creds (snd (open_dot R s)) = creds s" "wd (snd (open_dot R s)) = wd s"
  "cloexec (snd (open_dot R s)) = cloexec s" "length (fdt (snd (open_dot R s))) = length (fdt s)"
  by (cases rule: open_dot_cases [of R s]; simp add: proc_simps)+

lemma close_fd_keeps [proc_simps]:
  "dirs (snd (close_fd fd s)) = dirs s" "creds (snd (close_fd fd s)) = creds s" "wd (snd (close_fd fd s)) = wd s"
  "cloexec (snd (close_fd fd s)) = cloexec s" "length (fdt (snd (close_fd fd s))) = length (fdt s)"
  by (simp_all add: close_fd_def proc_simps split: option.split)

section \<open>The contract of best\_fchdir\<close>

text \<open>
  \<open>ok s\<close> is what a variant needs of the process, \<open>base s\<close> the part of the directories it never changes.  After a
  successful \<open>fchdir(-1)\<close> the old directory comes back by its descriptor, after a failed one by \<open>fchdir(-1)\<close> again.
\<close>

locale fchdir_service =
  fixes R :: rights and B :: "int \<Rightarrow> proc \<Rightarrow> int \<times> proc"
    and ok :: "proc \<Rightarrow> bool" and base :: "proc \<Rightarrow> 'b"
  assumes ret: "fst (B fd s) = 0 \<or> fst (B fd s) = -1"
    and frame: "fdt (snd (B fd s)) = fdt s" "creds (snd (B fd s)) = creds s" "cloexec (snd (B fd s)) = cloexec s"
    and base: "base (snd (B fd s)) = base s"
    and base_dirs: "dirs s = dirs s' \<Longrightarrow> base s = base s'"
    and ok_base: "base s = base s' \<Longrightarrow> ok s = ok s'"
    and fail: "fst (B fd s) = -1 \<Longrightarrow> dirs (snd (B fd s)) = dirs s"
    and errno: "fst (B fd s) = 0 \<Longrightarrow> p_errno (snd (B fd s)) = p_errno s"
    and enter: "dir_target R s fd = Inr d \<Longrightarrow> ok s \<Longrightarrow> fst (B fd s) = 0 \<and> wd (snd (B fd s)) = d"
    and refuse: "dir_target R s fd = Inl e \<Longrightarrow> fd \<noteq> -1 \<Longrightarrow> fst (B fd s) = -1 \<and> p_errno (snd (B fd s)) = e"
    and back_fd: "ok s \<Longrightarrow> fst (B (-1) s) = 0 \<Longrightarrow> base s' = base s \<Longrightarrow> dir_target R s' fd = Inr (wd s)
      \<Longrightarrow> dirs (snd (B fd s')) = dirs s"
    and back_none: "ok s \<Longrightarrow> fst (B (-1) s) = -1 \<Longrightarrow> base s' = base s \<Longrightarrow> dirs (snd (B (-1) s')) = dirs s"

lemmas fchdir_defs = best_fchdir_thread_def pthread_fchdir_np_def sys_pthread_fchdir_def best_fchdir_process_def fchdir_def

interpretation thread: fchdir_service R "best_fchdir_thread R" "\<lambda>s. True" pcwd for R
proof
  show "fst (best_fchdir_thread R fd s) = 0 \<or> fst (best_fchdir_thread R fd s) = -1" for fd s
    by (simp add: fchdir_defs split: option.split sum.split)
qed (auto simp: fchdir_defs proc_simps dirs_def creds_def wd_def split: option.splits sum.splits if_splits)

interpretation process: fchdir_service R "best_fchdir_process R" "\<lambda>s. tcwd s = None" tcwd for R
proof
  show "fst (best_fchdir_process R fd s) = 0 \<or> fst (best_fchdir_process R fd s) = -1" for fd s
    by (simp add: fchdir_defs split: sum.split)
qed (auto simp: fchdir_defs proc_simps dirs_def creds_def wd_def split: option.splits sum.splits if_splits)

text \<open>The variant the build selects: the one of the process where the system has no directory per thread.\<close>

definition best_fchdir :: "bool \<Rightarrow> rights \<Rightarrow> int \<Rightarrow> proc \<Rightarrow> int \<times> proc" where
  "best_fchdir dummy R = (if dummy then best_fchdir_process R else best_fchdir_thread R)"

interpretation mpls: fchdir_service R "best_fchdir dummy R" "\<lambda>s. dummy \<longrightarrow> tcwd s = None"
  "\<lambda>s. if dummy then tcwd s else Some (pcwd s)" for dummy R
proof (cases dummy)
  case True
  then show "fchdir_service R (best_fchdir dummy R) (\<lambda>s. dummy \<longrightarrow> tcwd s = None) (\<lambda>s. if dummy then tcwd s else Some (pcwd s))"
    using process.fchdir_service_axioms [of R] by (simp add: best_fchdir_def)
next
  case False
  have "fchdir_service R (best_fchdir_thread R) (\<lambda>s. True) (\<lambda>s. Some (pcwd s))"
  proof
    show "fst (best_fchdir_thread R fd s) = 0 \<or> fst (best_fchdir_thread R fd s) = -1" for fd s by (rule thread.ret)
  qed (auto simp: fchdir_defs proc_simps dirs_def creds_def wd_def split: option.splits sum.splits if_splits)
  with False show "fchdir_service R (best_fchdir dummy R) (\<lambda>s. dummy \<longrightarrow> tcwd s = None) (\<lambda>s. if dummy then tcwd s else Some (pcwd s))"
    by (simp add: best_fchdir_def)
qed

end
