(* ===== verification/At_Calls.thy ===== *)
theory At_Calls
  imports Process
begin

text \<open>
  The functions relative to a directory descriptor (\<open>src/atcalls.h\<close>, \<open>src/atcalls.c\<close>, \<open>src/fdopendir.c\<close> and the
  last part of \<open>src/statxx.c\<close>): the \<open>ATCALL\<close> macro, which changes directory around a call, and the functions made
  with it.  The calls themselves are parameters, functions of the process.
\<close>

section \<open>The ATCALL macro\<close>

text \<open>The type of \<open>__mpls_best_fchdir\<close>.\<close>

type_synonym chdir_fun = "int \<Rightarrow> proc \<Rightarrow> int \<times> proc"

definition AT_FDCWD :: int where "AT_FDCWD = -2"
definition AT_EACCESS :: u32 where "AT_EACCESS = 0x10"
definition AT_SYMLINK_NOFOLLOW :: u32 where "AT_SYMLINK_NOFOLLOW = 0x20"
definition AT_REMOVEDIR :: u32 where "AT_REMOVEDIR = 0x80"

text \<open>The test of the first character; a path is its characters before the terminator.\<close>

definition is_abs :: "string \<Rightarrow> bool" where
  "is_abs p = (case p of [] \<Rightarrow> False | c # _ \<Rightarrow> c = CHR ''/'')"

definition PROTECT_ERRNO :: "(proc \<Rightarrow> 'a \<times> proc) \<Rightarrow> proc \<Rightarrow> proc" where
  "PROTECT_ERRNO f s = set_errno (p_errno s) (snd (f s))"

text \<open>\<open>ERR_ON\<close> leaves the function with \<open>-1\<close> when its condition holds.\<close>

definition ERR_ON :: "errno \<Rightarrow> bool \<Rightarrow> (proc \<Rightarrow> int \<times> proc) \<Rightarrow> proc \<Rightarrow> int \<times> proc" where
  "ERR_ON e c rest s = (if c then (-1, set_errno e s) else rest s)"

text \<open>Going back: the old directory, and its descriptor closed.\<close>

definition at_leave :: "(int \<Rightarrow> proc \<Rightarrow> int \<times> proc) \<Rightarrow> int \<Rightarrow> proc \<Rightarrow> proc" where
  "at_leave B oldCWD s =
     (let s = PROTECT_ERRNO (B oldCWD) s
      in if oldCWD \<noteq> -1 then PROTECT_ERRNO (close_fd oldCWD) s else s)"

text \<open>Going there: the descriptor of the old directory and whether the change succeeded.\<close>

definition at_enter :: "chdir_fun \<Rightarrow> rights \<Rightarrow> int \<Rightarrow> proc \<Rightarrow> (int \<times> bool) \<times> proc" where
  "at_enter B R fd s =
     (let (oldCWD, s) = open_dot R s;
          (r, s) = B (-1) s;
          (oldCWD, s) = (if r < 0 \<and> oldCWD \<noteq> -1 then (-1, snd (close_fd oldCWD s)) else (oldCWD, s));
          (r, s) = B fd s
      in if r < 0 then ((oldCWD, False), at_leave B oldCWD s) else ((oldCWD, True), s))"

text \<open>
  The macro.  Its result is \<open>None\<close> when it makes the function it stands in return the error value, which is not the
  same as the value of the expression: what follows it in the function is skipped.
\<close>

definition ATCALL :: "chdir_fun \<Rightarrow> rights \<Rightarrow> int \<Rightarrow> string \<Rightarrow> (proc \<Rightarrow> 'r \<times> proc) \<Rightarrow> proc \<Rightarrow> 'r option \<times> proc" where
  "ATCALL B R fd p what s =
     (if fd \<noteq> AT_FDCWD \<and> \<not> is_abs p
      then (let ((oldCWD, ok), s) = at_enter B R fd s
            in if ok then (let (x, s) = what s in (Some x, at_leave B oldCWD s)) else (None, s))
      else (let (x, s) = what s in (Some x, s)))"

text \<open>A function whose body is \<open>return ATCALL(...)\<close>.\<close>

definition at_return :: "'r \<Rightarrow> 'r option \<times> proc \<Rightarrow> 'r \<times> proc" where
  "at_return onerr r = (case r of (None, s) \<Rightarrow> (onerr, s) | (Some x, s) \<Rightarrow> (x, s))"

text \<open>A call that leaves the directories, the ids and the open descriptors of the process alone.\<close>

definition quiet :: "(proc \<Rightarrow> 'r \<times> proc) \<Rightarrow> bool" where
  "quiet f \<longleftrightarrow> (\<forall>t. dirs (snd (f t)) = dirs t \<and> creds (snd (f t)) = creds t
     \<and> (\<forall>fd x. fd_obj t fd = Some x \<longrightarrow> fd_obj (snd (f t)) fd = Some x))"

lemma quietD:
  "quiet f \<Longrightarrow> dirs (snd (f t)) = dirs t" "quiet f \<Longrightarrow> creds (snd (f t)) = creds t"
  "quiet f \<Longrightarrow> fd_obj t fd = Some x \<Longrightarrow> fd_obj (snd (f t)) fd = Some x"
  by (simp_all add: quiet_def)

section \<open>Descriptor tables\<close>

lemma fd_obj_update:
  "i < length (fdt s) \<Longrightarrow> fdt t = (fdt s)[i := x] \<Longrightarrow> fd_obj t fd = (if fd = int i then x else fd_obj s fd)"
  by (auto simp: fd_obj_def nth_list_update)

lemma fd_obj_cong: "fdt s = fdt t \<Longrightarrow> fd_obj s fd = fd_obj t fd"
  by (simp add: fd_obj_def)

lemma fd_obj_fdt_update:
  "i < length (fdt s) \<Longrightarrow> fd_obj (s\<lparr>fdt := (fdt s)[i := x]\<rparr>) fd = (if fd = int i then x else fd_obj s fd)"
  by (rule fd_obj_update) simp_all

lemma fd_obj_same: "fd_obj (t\<lparr>fdt := fdt s\<rparr>) k = fd_obj s k"
  by (simp add: fd_obj_def)

context fchdir_service begin

lemma fd_obj_B: "fd_obj (snd (B fd s)) k = fd_obj s k"
  by (rule fd_obj_cong) (rule frame)

lemma leave_none:
  assumes "ok s" "fst (B (-1) s) = -1" "base t = base s"
  shows "dirs (at_leave B (-1) t) = dirs s \<and> fdt (at_leave B (-1) t) = fdt t \<and> creds (at_leave B (-1) t) = creds t
    \<and> p_errno (at_leave B (-1) t) = p_errno t"
  using back_none [OF assms] frame [of "-1" t] by (simp add: at_leave_def PROTECT_ERRNO_def Let_def proc_simps)

lemma leave_cloexec: "cloexec (at_leave B k t) = cloexec t"
  by (simp add: at_leave_def PROTECT_ERRNO_def Let_def proc_simps frame)

lemma leave_fd:
  assumes "ok s" "fst (B (-1) s) = 0" "base t = base s" "fd_obj t (int i) = Some (Dir_obj (wd s))"
    and "may_search R (euid t) (egid t) (wd s)"
  shows "dirs (at_leave B (int i) t) = dirs s \<and> fdt (at_leave B (int i) t) = (fdt t)[i := None]
    \<and> creds (at_leave B (int i) t) = creds t \<and> p_errno (at_leave B (int i) t) = p_errno t"
proof -
  let ?u = "set_errno (p_errno t) (snd (B (int i) t))"
  have "dir_target R t (int i) = Inr (wd s)" using assms(4,5) by (simp add: dir_target_obj)
  from back_fd [OF assms(1,2,3) this] have d: "dirs ?u = dirs s" by (simp add: proc_simps)
  have "fd_obj ?u (int i) = Some (Dir_obj (wd s))" using assms(4) by (simp add: proc_simps fd_obj_B)
  then have "close_fd (int i) ?u = (0, ?u\<lparr>fdt := (fdt t)[i := None]\<rparr>)"
    by (simp add: close_fd_def proc_simps frame)
  then have "at_leave B (int i) t = set_errno (p_errno t) (?u\<lparr>fdt := (fdt t)[i := None]\<rparr>)"
    by (simp add: at_leave_def PROTECT_ERRNO_def proc_simps)
  then show ?thesis using d frame [of "int i" t] by (simp add: proc_simps)
qed

lemma close_opened:
  assumes "s0 = s\<lparr>fdt := (fdt s)[i := Some (Dir_obj (wd s))]\<rparr>" "i < length (fdt s)" "fdt s ! i = None"
  shows "close_fd (int i) (snd (B k s0)) = (0, (snd (B k s0))\<lparr>fdt := fdt s\<rparr>)"
proof -
  have "fd_obj (snd (B k s0)) (int i) = Some (Dir_obj (wd s))"
    unfolding fd_obj_B assms(1) by (simp add: fd_obj_fdt_update assms(2))
  moreover have "(fdt (snd (B k s0)))[i := None] = fdt s"
    unfolding frame assms(1) by (simp add: assms(3) list_update_same_conv [OF assms(2)])
  ultimately show ?thesis by (simp add: close_fd_def)
qed

lemma enter_ok:
  assumes ok: "ok s" and o: "open_dot R s = (int i, s0)"
    and s0: "s0 = s\<lparr>fdt := (fdt s)[i := Some (Dir_obj (wd s))]\<rparr>" "i < length (fdt s)" "fdt s ! i = None"
    and d: "fd_obj s fd = Some (Dir_obj d)" "may_search R (euid s) (egid s) d"
  shows "\<exists>old t. at_enter B R fd s = ((old, True), t) \<and> wd t = d \<and> creds t = creds s \<and> base t = base s0 \<and> cloexec t = cloexec s
    \<and> (old = -1 \<and> fst (B (-1) s0) = -1 \<and> fdt t = fdt s \<or> old = int i \<and> fst (B (-1) s0) = 0 \<and> fdt t = fdt s0)"
proof -
  let ?a = "snd (B (-1) s0)"
  have base0: "base s0 = base s" by (rule base_dirs) (simp add: s0 proc_simps)
  have fdi: "fd \<noteq> int i" using d(1) s0(2,3) by (auto simp: fd_obj_def)
  have go: "fst (B fd t) = 0 \<and> wd (snd (B fd t)) = d"
    if "fd_obj t fd = Some (Dir_obj d)" "creds t = creds s" "base t = base s" for t
  proof -
    have "dir_target R t fd = Inr d" using that(1,2) d(2) creds_ids [of t s] by (simp add: dir_target_obj)
    moreover have "ok t" using ok ok_base [OF that(3)] by simp
    ultimately show ?thesis by (rule enter)
  qed
  have c0: "creds s0 = creds s" "cloexec s0 = cloexec s" by (simp_all add: s0 proc_simps)
  have f0: "fd_obj s0 fd = Some (Dir_obj d)" "fd_obj s0 (int i) = Some (Dir_obj (wd s))"
    using d(1) fdi s0 by (simp_all add: fd_obj_fdt_update)
  show ?thesis
  proof (cases "fst (B (-1) s0) = 0")
    case True
    have "fst (B fd ?a) = 0 \<and> wd (snd (B fd ?a)) = d"
      by (rule go) (simp_all add: fd_obj_B f0 frame c0 base base0)
    then show ?thesis
      using True o by (simp add: at_enter_def Let_def case_prod_beta frame c0 base)
  next
    case False
    then have r: "fst (B (-1) s0) = -1" using ret by blast
    note cl = close_opened [OF s0, of "-1"]
    let ?c = "?a\<lparr>fdt := fdt s\<rparr>"
    have c: "creds ?c = creds s" "base ?c = base s0" "cloexec ?c = cloexec s"
      using base_dirs [of ?c ?a] by (simp_all add: proc_simps frame c0 base)
    have "fst (B fd ?c) = 0 \<and> wd (snd (B fd ?c)) = d"
      by (rule go) (use d(1) c base0 in \<open>simp_all add: fd_obj_same\<close>)
    then show ?thesis
      using r o c by (simp add: at_enter_def Let_def case_prod_beta cl frame base)
  qed
qed

text \<open>The macro runs its expression in the directory of the descriptor and comes back.\<close>

lemma ATCALL_correct:
  assumes ok: "ok s" and rel: "fd \<noteq> AT_FDCWD" "\<not> is_abs p"
    and here: "may_read R (euid s) (egid s) (wd s)" "may_search R (euid s) (egid s) (wd s)" "None \<in> set (fdt s)"
    and there: "fd_obj s fd = Some (Dir_obj d)" "may_search R (euid s) (egid s) d"
    and quiet: "quiet f"
  shows "\<exists>t t'. wd t = d \<and> creds t = creds s \<and> length (fdt t) = length (fdt s) \<and> cloexec t = cloexec s
    \<and> (\<forall>k x. fd_obj s k = Some x \<longrightarrow> fd_obj t k = Some x) \<and> (\<exists>i. \<forall>k. k \<noteq> i \<longrightarrow> fd_obj t k = fd_obj s k)
    \<and> ATCALL B R fd p f s = (Some (fst (f t)), t')
    \<and> p_errno t' = p_errno (snd (f t)) \<and> dirs t' = dirs s \<and> creds t' = creds s \<and> cloexec t' = cloexec (snd (f t))
    \<and> (\<forall>k. fd_obj t' k = (if fd_obj s k = None \<and> fd_obj t k \<noteq> None then None else fd_obj (snd (f t)) k))"
proof -
  obtain i where o: "open_dot R s = (int i, s\<lparr>fdt := (fdt s)[i := Some (Dir_obj (wd s))]\<rparr>)"
    and i: "i < length (fdt s)" "fdt s ! i = None"
    using here(1,3) free_slot_None [of "fdt s"] by (cases rule: open_dot_cases [of R s]) (auto simp: open_dot_def split: option.splits)
  define s0 where "s0 = s\<lparr>fdt := (fdt s)[i := Some (Dir_obj (wd s))]\<rparr>"
  have s0: "dirs s0 = dirs s" "wd s0 = wd s" "base s0 = base s" "ok s0"
    using base_dirs [of s0 s] ok_base [of s0 s] ok by (simp_all add: s0_def proc_simps)
  obtain old t where e: "at_enter B R fd s = ((old, True), t)" and t: "wd t = d" "creds t = creds s" "base t = base s0" "cloexec t = cloexec s"
    and c: "old = -1 \<and> fst (B (-1) s0) = -1 \<and> fdt t = fdt s \<or> old = int i \<and> fst (B (-1) s0) = 0 \<and> fdt t = fdt s0"
    using enter_ok [OF ok o [folded s0_def] s0_def i there] by blast
  let ?u = "snd (f t)"
  have u: "base ?u = base s0" "creds ?u = creds s" using base_dirs [OF quietD(1) [OF quiet]] t quietD(2) [OF quiet, of t] by simp_all
  have run: "ATCALL B R fd p f s = (Some (fst (f t)), at_leave B old ?u)"
    using rel by (simp add: ATCALL_def e case_prod_beta)
  from c show ?thesis
  proof
    assume c: "old = -1 \<and> fst (B (-1) s0) = -1 \<and> fdt t = fdt s"
    then have k: "fd_obj t k = fd_obj s k" for k by (simp add: fd_obj_def)
    have "fd_obj (at_leave B old ?u) k = fd_obj ?u k" for k
      using leave_none [OF s0(4) _ u(1)] c by (auto intro: fd_obj_cong)
    then show ?thesis
      using leave_none [OF s0(4) _ u(1)] c k s0 t u run leave_cloexec by (intro exI [of _ t] exI [of _ "at_leave B old ?u"]) auto
  next
    assume c: "old = int i \<and> fst (B (-1) s0) = 0 \<and> fdt t = fdt s0"
    have k: "fd_obj t k = (if k = int i then Some (Dir_obj (wd s)) else fd_obj s k)" for k
      using c i by (auto simp: s0_def fd_obj_def nth_list_update)
    have si: "fd_obj s (int i) = None" using i by (simp add: fd_obj_def)
    have ui: "fd_obj ?u (int i) = Some (Dir_obj (wd s0))" using quietD(3) [OF quiet] k s0 by simp
    have ms: "may_search R (euid ?u) (egid ?u) (wd s0)" using here(2) creds_ids [OF u(2)] s0 by simp
    note l = leave_fd [OF s0(4) _ u(1) ui ms]
    have "fd_obj (at_leave B old ?u) k = (if k = int i then None else fd_obj ?u k)" for k
      using l c fd_objD [OF ui] by (intro fd_obj_update) auto
    then show ?thesis
      using l c k s0 t u run si leave_cloexec
      by (intro exI [of _ t] exI [of _ "at_leave B old ?u"] conjI exI [of _ "int i"]) (auto simp: s0_def)
  qed
qed

text \<open>A descriptor that is no searchable directory makes the function fail and changes nothing.\<close>

lemma enter_refused:
  assumes ok: "ok s" and o: "open_dot R s = (int i, s0)"
    and s0: "s0 = s\<lparr>fdt := (fdt s)[i := Some (Dir_obj (wd s))]\<rparr>" "i < length (fdt s)" "fdt s ! i = None"
    and here: "may_search R (euid s) (egid s) (wd s)"
    and bad: "dir_target R s fd = Inl e" "fd \<noteq> -1" "fd \<noteq> int i"
  shows "\<exists>old t. at_enter B R fd s = ((old, False), t) \<and> dirs t = dirs s \<and> creds t = creds s \<and> fdt t = fdt s \<and> p_errno t = e"
proof -
  let ?a = "snd (B (-1) s0)"
  have base0: "base s0 = base s" by (rule base_dirs) (simp add: s0 proc_simps)
  have ok0: "ok s0" using ok ok_base [OF base0] by simp
  have c0: "creds s0 = creds s" "wd s0 = wd s" "dirs s0 = dirs s" by (simp_all add: s0 proc_simps)
  have refused: "fst (B fd t) = -1 \<and> p_errno (snd (B fd t)) = e"
    if "fd_obj t fd = fd_obj s fd" "creds t = creds s" for t
    using refuse [of t fd e] dir_target_cong [OF that] bad by simp
  have f0: "fd_obj s0 fd = fd_obj s fd" "fd_obj s0 (int i) = Some (Dir_obj (wd s))"
    using bad s0 by (simp_all add: fd_obj_fdt_update)
  show ?thesis
  proof (cases "fst (B (-1) s0) = 0")
    case True
    let ?b = "snd (B fd ?a)"
    have r: "fst (B fd ?a) = -1 \<and> p_errno ?b = e" by (rule refused) (simp_all add: fd_obj_B f0 frame c0)
    have b: "base ?b = base s0" "fd_obj ?b (int i) = Some (Dir_obj (wd s0))" "creds ?b = creds s" "fdt ?b = fdt s0"
      by (simp_all add: fd_obj_B f0 frame base c0)
    have "may_search R (euid ?b) (egid ?b) (wd s0)" using here creds_ids [OF b(3)] c0 by simp
    note l = leave_fd [OF ok0 True b(1,2) this]
    have "(fdt s0)[i := None] = fdt s" using s0 by (simp add: list_update_same_conv)
    then show ?thesis using True o r l b c0 by (simp add: at_enter_def Let_def case_prod_beta)
  next
    case False
    then have r0: "fst (B (-1) s0) = -1" using ret by blast
    note cl = close_opened [OF s0, of "-1"]
    let ?c = "?a\<lparr>fdt := fdt s\<rparr>"
    have c: "creds ?c = creds s" "base ?c = base s0"
      using base_dirs [of ?c ?a] by (simp_all add: proc_simps frame c0 base)
    have r: "fst (B fd ?c) = -1 \<and> p_errno (snd (B fd ?c)) = e" by (rule refused) (use c in \<open>simp_all add: fd_obj_same\<close>)
    have b: "base (snd (B fd ?c)) = base s0" using c base [of fd ?c] by simp
    show ?thesis using r0 o r leave_none [OF ok0 r0 b] c c0
      by (simp add: at_enter_def Let_def case_prod_beta cl frame)
  qed
qed

end

section \<open>The calls of the system\<close>

text \<open>
  The calls the functions wrap; buffers and attribute lists are addresses, \<open>sc_getpath\<close> is \<open>fcntl(F_GETPATH)\<close> with
  the path it stores.  The \<open>i64\<close> calls are the variants with 64-bit file numbers.
\<close>

record syscalls =
  sc_access :: "string \<Rightarrow> int \<Rightarrow> proc \<Rightarrow> int \<times> proc"
  sc_chmod :: "string \<Rightarrow> u16 \<Rightarrow> proc \<Rightarrow> int \<times> proc"
  sc_lchmod :: "string \<Rightarrow> u16 \<Rightarrow> proc \<Rightarrow> int \<times> proc"
  sc_chown :: "string \<Rightarrow> u32 \<Rightarrow> u32 \<Rightarrow> proc \<Rightarrow> int \<times> proc"
  sc_lchown :: "string \<Rightarrow> u32 \<Rightarrow> u32 \<Rightarrow> proc \<Rightarrow> int \<times> proc"
  sc_getattrlist :: "string \<Rightarrow> u64 \<Rightarrow> u64 \<Rightarrow> size_t \<Rightarrow> u32 \<Rightarrow> proc \<Rightarrow> int \<times> proc"
  sc_setattrlist :: "string \<Rightarrow> u64 \<Rightarrow> u64 \<Rightarrow> size_t \<Rightarrow> u32 \<Rightarrow> proc \<Rightarrow> int \<times> proc"
  sc_link :: "string \<Rightarrow> string \<Rightarrow> proc \<Rightarrow> int \<times> proc"
  sc_rename :: "string \<Rightarrow> string \<Rightarrow> proc \<Rightarrow> int \<times> proc"
  sc_symlink :: "string \<Rightarrow> string \<Rightarrow> proc \<Rightarrow> int \<times> proc"
  sc_mkdir :: "string \<Rightarrow> u16 \<Rightarrow> proc \<Rightarrow> int \<times> proc"
  sc_open :: "string \<Rightarrow> u32 \<Rightarrow> u16 \<Rightarrow> proc \<Rightarrow> int \<times> proc"
  sc_readlink :: "string \<Rightarrow> u64 \<Rightarrow> size_t \<Rightarrow> proc \<Rightarrow> int \<times> proc"
  sc_unlink :: "string \<Rightarrow> proc \<Rightarrow> int \<times> proc"
  sc_rmdir :: "string \<Rightarrow> proc \<Rightarrow> int \<times> proc"
  sc_stat :: "string \<Rightarrow> u64 \<Rightarrow> proc \<Rightarrow> int \<times> proc"
  sc_lstat :: "string \<Rightarrow> u64 \<Rightarrow> proc \<Rightarrow> int \<times> proc"
  sc_stat_i64 :: "string \<Rightarrow> u64 \<Rightarrow> proc \<Rightarrow> int \<times> proc"
  sc_lstat_i64 :: "string \<Rightarrow> u64 \<Rightarrow> proc \<Rightarrow> int \<times> proc"
  sc_getpath :: "int \<Rightarrow> proc \<Rightarrow> string option \<times> proc"

text \<open>The real and the effective ids may be set to each other, and to anything by the superuser.\<close>

definition setreuid :: "nat \<Rightarrow> nat \<Rightarrow> proc \<Rightarrow> int \<times> proc" where
  "setreuid r e s =
     (if euid s = 0 \<or> (r \<in> {ruid s, euid s} \<and> e \<in> {ruid s, euid s}) then (0, s\<lparr>ruid := r, euid := e\<rparr>)
      else (-1, set_errno EPERM s))"

definition setregid :: "nat \<Rightarrow> nat \<Rightarrow> proc \<Rightarrow> int \<times> proc" where
  "setregid r e s =
     (if euid s = 0 \<or> (r \<in> {rgid s, egid s} \<and> e \<in> {rgid s, egid s}) then (0, s\<lparr>rgid := r, egid := e\<rparr>)
      else (-1, set_errno EPERM s))"

text \<open>\<open>strlcat\<close> into an array of \<open>n\<close> characters.\<close>

definition strlcat :: "nat \<Rightarrow> string \<Rightarrow> string \<Rightarrow> string" where
  "strlcat n dst src = (if length dst < n then take (n - 1) (dst @ src) else dst)"


section \<open>The functions of atcalls.c\<close>

definition fullpathat :: "rights \<Rightarrow> syscalls \<Rightarrow> int \<Rightarrow> string \<Rightarrow> proc \<Rightarrow> string option \<times> proc" where
  "fullpathat R K dirfd relative s =
     (let (cwd, s) = (if dirfd = AT_FDCWD then open_dot R s else (-1, s))
      in if dirfd = AT_FDCWD \<and> cwd = -1 then (None, s)
         else (let dirfd = (if dirfd = AT_FDCWD then cwd else dirfd);
                   (ret, s) = sc_getpath K dirfd s;
                   buf = map_option (\<lambda>b. strlcat PATH_MAX (strlcat PATH_MAX b ''/'') relative) ret
               in (buf, if cwd \<noteq> -1 then snd (close_fd cwd s) else s)))"

definition faccessat :: "chdir_fun \<Rightarrow> rights \<Rightarrow> syscalls \<Rightarrow> int \<Rightarrow> string \<Rightarrow> int \<Rightarrow> u32 \<Rightarrow> proc \<Rightarrow> int \<times> proc" where
  "faccessat B R K dirfd pathname mode flags = ERR_ON EINVAL (flags AND NOT AT_EACCESS \<noteq> 0) (\<lambda>s.
     let ru = ruid s; eu = euid s; rg = rgid s; eg = egid s;
         check_euid = (ru \<noteq> eu \<and> flags AND AT_EACCESS \<noteq> 0);
         check_egid = (rg \<noteq> eg \<and> flags AND AT_EACCESS \<noteq> 0);
         s = (if check_euid then snd (setreuid eu ru s) else s);
         s = (if check_egid then snd (setregid eg rg s) else s)
     in case ATCALL B R dirfd pathname (sc_access K pathname mode) s of
          (None, s) \<Rightarrow> (-1, s)
        | (Some access_rc, s) \<Rightarrow>
            let access_errno = p_errno s;
                s = (if check_euid then snd (setreuid ru eu s) else s);
                s = (if check_egid then snd (setregid rg eg s) else s)
            in (access_rc, set_errno access_errno s))"

definition fchmodat :: "chdir_fun \<Rightarrow> rights \<Rightarrow> syscalls \<Rightarrow> int \<Rightarrow> string \<Rightarrow> u16 \<Rightarrow> u32 \<Rightarrow> proc \<Rightarrow> int \<times> proc" where
  "fchmodat B R K dirfd pathname mode flags = ERR_ON EINVAL (flags AND NOT AT_SYMLINK_NOFOLLOW \<noteq> 0) (\<lambda>s.
     if flags AND AT_SYMLINK_NOFOLLOW \<noteq> 0
     then at_return (-1) (ATCALL B R dirfd pathname (sc_lchmod K pathname mode) s)
     else at_return (-1) (ATCALL B R dirfd pathname (sc_chmod K pathname mode) s))"

definition fchownat :: "chdir_fun \<Rightarrow> rights \<Rightarrow> syscalls \<Rightarrow> int \<Rightarrow> string \<Rightarrow> u32 \<Rightarrow> u32 \<Rightarrow> u32 \<Rightarrow> proc \<Rightarrow> int \<times> proc" where
  "fchownat B R K dirfd pathname owner grp flags = ERR_ON EINVAL (flags AND NOT AT_SYMLINK_NOFOLLOW \<noteq> 0) (\<lambda>s.
     if flags AND AT_SYMLINK_NOFOLLOW \<noteq> 0
     then at_return (-1) (ATCALL B R dirfd pathname (sc_lchown K pathname owner grp) s)
     else at_return (-1) (ATCALL B R dirfd pathname (sc_chown K pathname owner grp) s))"

text \<open>The 64-bit build asserts that the flags fit; \<open>None\<close> is a failed assertion.\<close>

definition getattrlistat :: "chdir_fun \<Rightarrow> rights \<Rightarrow> syscalls \<Rightarrow> int \<Rightarrow> string \<Rightarrow> u64 \<Rightarrow> u64 \<Rightarrow> size_t \<Rightarrow> u64 \<Rightarrow> proc \<Rightarrow> (int \<times> proc) option" where
  "getattrlistat B R K dirfd pathname a buf sz flags s =
     (let f = (ucast flags :: u32)
      in if ucast f = flags
         then Some (at_return (-1) (ATCALL B R dirfd pathname (sc_getattrlist K pathname a buf sz f) s))
         else None)"

text \<open>\<open>linkat\<close> and \<open>renameat\<close> treat their two paths the same way.\<close>

definition at_two :: "chdir_fun \<Rightarrow> rights \<Rightarrow> syscalls \<Rightarrow> (string \<Rightarrow> string \<Rightarrow> proc \<Rightarrow> int \<times> proc) \<Rightarrow> int \<Rightarrow> string \<Rightarrow> int \<Rightarrow> string \<Rightarrow> proc \<Rightarrow> int \<times> proc" where
  "at_two B R K call olddirfd oldpath newdirfd newpath s =
     (if is_abs oldpath then at_return (-1) (ATCALL B R newdirfd newpath (call oldpath newpath) s)
      else if is_abs newpath \<or> olddirfd = newdirfd
      then at_return (-1) (ATCALL B R olddirfd oldpath (call oldpath newpath) s)
      else (case fullpathat R K olddirfd oldpath s of
              (None, s) \<Rightarrow> (-1, s)
            | (Some oldfull, s) \<Rightarrow>
                (case fullpathat R K newdirfd newpath s of
                   (None, s) \<Rightarrow> (-1, s)
                 | (Some newfull, s) \<Rightarrow> call oldfull newfull s)))"

definition linkat :: "chdir_fun \<Rightarrow> rights \<Rightarrow> syscalls \<Rightarrow> int \<Rightarrow> string \<Rightarrow> int \<Rightarrow> string \<Rightarrow> u32 \<Rightarrow> proc \<Rightarrow> int \<times> proc" where
  "linkat B R K olddirfd oldpath newdirfd newpath flags =
     ERR_ON EINVAL (flags \<noteq> 0) (at_two B R K (sc_link K) olddirfd oldpath newdirfd newpath)"

definition renameat :: "chdir_fun \<Rightarrow> rights \<Rightarrow> syscalls \<Rightarrow> int \<Rightarrow> string \<Rightarrow> int \<Rightarrow> string \<Rightarrow> proc \<Rightarrow> int \<times> proc" where
  "renameat B R K olddirfd oldpath newdirfd newpath = at_two B R K (sc_rename K) olddirfd oldpath newdirfd newpath"

definition mkdirat :: "chdir_fun \<Rightarrow> rights \<Rightarrow> syscalls \<Rightarrow> int \<Rightarrow> string \<Rightarrow> u16 \<Rightarrow> proc \<Rightarrow> int \<times> proc" where
  "mkdirat B R K dirfd pathname mode s = at_return (-1) (ATCALL B R dirfd pathname (sc_mkdir K pathname mode) s)"

definition O_CREAT :: u32 where "O_CREAT = 0x200"

text \<open>\<open>arg\<close> is the optional argument, read only when a file may be created.\<close>

definition openat :: "chdir_fun \<Rightarrow> rights \<Rightarrow> syscalls \<Rightarrow> int \<Rightarrow> string \<Rightarrow> u32 \<Rightarrow> int \<Rightarrow> proc \<Rightarrow> int \<times> proc" where
  "openat B R K dirfd pathname flags arg s =
     (let mode = (if flags AND O_CREAT \<noteq> 0 then word_of_int arg else 0)
      in at_return (-1) (ATCALL B R dirfd pathname (sc_open K pathname flags mode) s))"

definition openat_NOCANCEL :: "chdir_fun \<Rightarrow> rights \<Rightarrow> syscalls \<Rightarrow> int \<Rightarrow> string \<Rightarrow> u32 \<Rightarrow> int \<Rightarrow> proc \<Rightarrow> int \<times> proc" where
  "openat_NOCANCEL B R K dirfd pathname flags arg s =
     (let mode = (if flags AND O_CREAT \<noteq> 0 then word_of_int arg else 0)
      in at_return (-1) (ATCALL B R dirfd pathname (sc_open K pathname flags mode) s))"

definition readlinkat :: "chdir_fun \<Rightarrow> rights \<Rightarrow> syscalls \<Rightarrow> int \<Rightarrow> string \<Rightarrow> u64 \<Rightarrow> size_t \<Rightarrow> proc \<Rightarrow> int \<times> proc" where
  "readlinkat B R K dirfd pathname buf bufsiz s = at_return (-1) (ATCALL B R dirfd pathname (sc_readlink K pathname buf bufsiz) s)"

definition symlinkat :: "chdir_fun \<Rightarrow> rights \<Rightarrow> syscalls \<Rightarrow> string \<Rightarrow> int \<Rightarrow> string \<Rightarrow> proc \<Rightarrow> int \<times> proc" where
  "symlinkat B R K oldpath newdirfd newpath s = at_return (-1) (ATCALL B R newdirfd newpath (sc_symlink K oldpath newpath) s)"

definition unlinkat :: "chdir_fun \<Rightarrow> rights \<Rightarrow> syscalls \<Rightarrow> int \<Rightarrow> string \<Rightarrow> u32 \<Rightarrow> proc \<Rightarrow> int \<times> proc" where
  "unlinkat B R K dirfd pathname flags = ERR_ON EINVAL (flags AND NOT AT_REMOVEDIR \<noteq> 0) (\<lambda>s.
     if flags AND AT_REMOVEDIR \<noteq> 0
     then at_return (-1) (ATCALL B R dirfd pathname (sc_rmdir K pathname) s)
     else at_return (-1) (ATCALL B R dirfd pathname (sc_unlink K pathname) s))"

definition setattrlistat :: "chdir_fun \<Rightarrow> rights \<Rightarrow> syscalls \<Rightarrow> int \<Rightarrow> string \<Rightarrow> u64 \<Rightarrow> u64 \<Rightarrow> size_t \<Rightarrow> u32 \<Rightarrow> proc \<Rightarrow> int \<times> proc" where
  "setattrlistat B R K dirfd pathname a buf sz flags s =
     at_return (-1) (ATCALL B R dirfd pathname (sc_setattrlist K pathname a buf sz flags) s)"

text \<open>The three variants of \<open>fstatat\<close> (\<open>src/statxx.c\<close>).\<close>

definition fstatat :: "chdir_fun \<Rightarrow> rights \<Rightarrow> syscalls \<Rightarrow> int \<Rightarrow> string \<Rightarrow> u64 \<Rightarrow> u32 \<Rightarrow> proc \<Rightarrow> int \<times> proc" where
  "fstatat B R K fd path buf flag = ERR_ON EINVAL (flag AND NOT AT_SYMLINK_NOFOLLOW \<noteq> 0) (\<lambda>s.
     if flag AND AT_SYMLINK_NOFOLLOW \<noteq> 0
     then at_return (-1) (ATCALL B R fd path (sc_lstat K path buf) s)
     else at_return (-1) (ATCALL B R fd path (sc_stat K path buf) s))"

definition fstatat_i64 :: "chdir_fun \<Rightarrow> rights \<Rightarrow> syscalls \<Rightarrow> int \<Rightarrow> string \<Rightarrow> u64 \<Rightarrow> u32 \<Rightarrow> proc \<Rightarrow> int \<times> proc" where
  "fstatat_i64 B R K fd path buf flag = ERR_ON EINVAL (flag AND NOT AT_SYMLINK_NOFOLLOW \<noteq> 0) (\<lambda>s.
     if flag AND AT_SYMLINK_NOFOLLOW \<noteq> 0
     then at_return (-1) (ATCALL B R fd path (sc_lstat_i64 K path buf) s)
     else at_return (-1) (ATCALL B R fd path (sc_stat_i64 K path buf) s))"

definition fstatat64 :: "chdir_fun \<Rightarrow> rights \<Rightarrow> syscalls \<Rightarrow> int \<Rightarrow> string \<Rightarrow> u64 \<Rightarrow> u32 \<Rightarrow> proc \<Rightarrow> int \<times> proc" where
  "fstatat64 B R K fd path buf flag = ERR_ON EINVAL (flag AND NOT AT_SYMLINK_NOFOLLOW \<noteq> 0) (\<lambda>s.
     if flag AND AT_SYMLINK_NOFOLLOW \<noteq> 0
     then at_return (-1) (ATCALL B R fd path (sc_lstat_i64 K path buf) s)
     else at_return (-1) (ATCALL B R fd path (sc_stat_i64 K path buf) s))"

section \<open>The functions of fdopendir.c\<close>

text \<open>A directory stream: its descriptor and its position.  The table of one variant of the functions it needs; exactly
  one of the two \<open>fstat\<close> entries is present, they deliver the mode.\<close>

record dirstream =
  dd_fd :: int
  dd_pos :: nat

record funcs =
  do_fstat :: "(int \<Rightarrow> proc \<Rightarrow> (int \<times> u16) \<times> proc) option"
  do_fstat64 :: "(int \<Rightarrow> proc \<Rightarrow> (int \<times> u16) \<times> proc) option"
  do_open :: "string \<Rightarrow> proc \<Rightarrow> dirstream option \<times> proc"
  do_rewind :: "dirstream \<Rightarrow> dirstream"

definition S_ISDIR :: "u16 \<Rightarrow> bool" where
  "S_ISDIR mode \<longleftrightarrow> mode AND 0xF000 = 0x4000"

definition set_cloexec :: "int \<Rightarrow> proc \<Rightarrow> proc" where
  "set_cloexec fd s = s\<lparr>cloexec := (cloexec s)(fd := True)\<rparr>"

definition fdopendir_internal :: "chdir_fun \<Rightarrow> rights \<Rightarrow> int \<Rightarrow> funcs \<Rightarrow> proc \<Rightarrow> dirstream option \<times> proc" where
  "fdopendir_internal B R fd fs s =
     (case (case do_fstat64 fs of Some f \<Rightarrow> Some (f fd s) | None \<Rightarrow> map_option (\<lambda>f. f fd s) (do_fstat fs)) of
        None \<Rightarrow> (None, set_errno EINVAL s)
      | Some ((err, mode), s) \<Rightarrow>
          if err < 0 then (None, s)
          else if \<not> S_ISDIR mode then (None, set_errno ENOTDIR s)
          else (case at_return None (ATCALL B R fd ''.'' (do_open fs ''.'') s) of
                  (None, s) \<Rightarrow> (None, s)
                | (Some dir, s) \<Rightarrow>
                    let s = snd (close_fd (dd_fd dir) s);
                        dir = do_rewind fs (dir\<lparr>dd_fd := fd\<rparr>)
                    in (Some dir, set_cloexec fd s)))"

text \<open>The dispatch tables: a variant has the \<open>fstat\<close> of its kind and no other.\<close>

definition variant_funcs :: "bool \<Rightarrow> (int \<Rightarrow> proc \<Rightarrow> (int \<times> u16) \<times> proc) \<Rightarrow> (string \<Rightarrow> proc \<Rightarrow> dirstream option \<times> proc) \<Rightarrow> (dirstream \<Rightarrow> dirstream) \<Rightarrow> funcs" where
  "variant_funcs is64 fstat_fn open_fn rewind_fn =
     \<lparr>do_fstat = (if is64 then None else Some fstat_fn), do_fstat64 = (if is64 then Some fstat_fn else None),
      do_open = open_fn, do_rewind = rewind_fn\<rparr>"

definition fdopendir :: "chdir_fun \<Rightarrow> rights \<Rightarrow> funcs \<Rightarrow> int \<Rightarrow> proc \<Rightarrow> dirstream option \<times> proc" where
  "fdopendir B R fs fd s = fdopendir_internal B R fd fs s"

text \<open>\<open>opendir(".")\<close> as documented: a stream at the start of the working directory, with a descriptor of its own.\<close>

definition opendir_dot :: "rights \<Rightarrow> string \<Rightarrow> proc \<Rightarrow> dirstream option \<times> proc" where
  "opendir_dot R p s =
     (if p = ''.'' then (let (fd, s) = open_dot R s in if fd = -1 then (None, s) else (Some \<lparr>dd_fd = fd, dd_pos = 0\<rparr>, s))
      else (None, set_errno ENOENT s))"

definition rewinddir :: "dirstream \<Rightarrow> dirstream" where
  "rewinddir d = d\<lparr>dd_pos := 0\<rparr>"

definition fstat_mode :: "int \<Rightarrow> proc \<Rightarrow> (int \<times> u16) \<times> proc" where
  "fstat_mode fd s =
     (case fd_obj s fd of
        None \<Rightarrow> ((-1, 0), set_errno EBADF s)
      | Some (Dir_obj _) \<Rightarrow> ((0, 0x41ED), s)
      | Some (File_obj _) \<Rightarrow> ((0, 0x81A4), s))"

section \<open>Shared lemmas\<close>

lemma wd_set_errno_creds [proc_simps]:
  "dirs (s\<lparr>ruid := a, euid := b\<rparr>) = dirs s" "dirs (s\<lparr>rgid := a, egid := b\<rparr>) = dirs s"
  "wd (s\<lparr>ruid := a, euid := b\<rparr>) = wd s" "wd (s\<lparr>rgid := a, egid := b\<rparr>) = wd s"
  "fd_obj (s\<lparr>ruid := a, euid := b\<rparr>) k = fd_obj s k" "fd_obj (s\<lparr>rgid := a, egid := b\<rparr>) k = fd_obj s k"
  by (simp_all add: dirs_def wd_def fd_obj_def split: option.split)

text \<open>The exchange of the real and effective ids, as \<open>faccessat\<close> makes it.\<close>

definition swap_ids :: "proc \<Rightarrow> proc" where
  "swap_ids s = s\<lparr>ruid := euid s, euid := ruid s, rgid := egid s, egid := rgid s\<rparr>"

lemma swap_ids_simps [simp]:
  "dirs (swap_ids s) = dirs s" "wd (swap_ids s) = wd s" "fdt (swap_ids s) = fdt s" "fd_obj (swap_ids s) k = fd_obj s k"
  "euid (swap_ids s) = ruid s" "egid (swap_ids s) = rgid s" "tcwd (swap_ids s) = tcwd s" "ruid (swap_ids s) = euid s" "rgid (swap_ids s) = egid s"
  by (simp_all add: swap_ids_def dirs_def wd_def fd_obj_def split: option.split)

lemma creds_swap: "creds t = creds (swap_ids s) \<longleftrightarrow> ruid t = euid s \<and> euid t = ruid s \<and> rgid t = egid s \<and> egid t = rgid s"
  by (auto simp: creds_def swap_ids_def)

lemma swap_there:
  "(let t = (if ruid s \<noteq> euid s then snd (setreuid (euid s) (ruid s) s) else s)
    in (if rgid s \<noteq> egid s then snd (setregid (egid s) (rgid s) t) else t)) = swap_ids s"
  by (cases s) (simp add: swap_ids_def setreuid_def setregid_def Let_def)

lemma faccessat_swap:
  "faccessat B R K fd p mode AT_EACCESS s =
    (case ATCALL B R fd p (sc_access K p mode) (swap_ids s) of
       (None, t) \<Rightarrow> (-1, t)
     | (Some rc, u) \<Rightarrow> (rc, set_errno (p_errno u)
         (let t = (if ruid s \<noteq> euid s then snd (setreuid (ruid s) (euid s) u) else u)
          in (if rgid s \<noteq> egid s then snd (setregid (rgid s) (egid s) t) else t))))"
  unfolding swap_there [symmetric]
  by (simp add: faccessat_def ERR_ON_def AT_EACCESS_def Let_def split: prod.split option.split)

text \<open>Exchanging back.\<close>

lemma swap_back:
  assumes "creds t = creds (swap_ids s)"
  shows "creds (let t = (if ruid s \<noteq> euid s then snd (setreuid (ruid s) (euid s) t) else t)
    in (if rgid s \<noteq> egid s then snd (setregid (rgid s) (egid s) t) else t)) = creds s
    \<and> dirs (let t = (if ruid s \<noteq> euid s then snd (setreuid (ruid s) (euid s) t) else t)
    in (if rgid s \<noteq> egid s then snd (setregid (rgid s) (egid s) t) else t)) = dirs t"
  using assms unfolding creds_swap
  by (auto simp: setreuid_def setregid_def Let_def creds_def dirs_def)

lemma strlcat_fits: "length dst + length src < n \<Longrightarrow> strlcat n dst src = dst @ src"
  by (simp add: strlcat_def)

text \<open>What \<open>F_GETPATH\<close> is asked about: the object behind the descriptor.\<close>

definition at_obj :: "proc \<Rightarrow> int \<Rightarrow> file_obj option" where
  "at_obj s fd = (if fd = AT_FDCWD then Some (Dir_obj (wd s)) else fd_obj s fd)"

lemma close_after_open:
  assumes "i < length (fdt s)" "fdt s ! i = None"
  shows "close_fd (int i) (s\<lparr>fdt := (fdt s)[i := Some x]\<rparr>) = (0, s)"
  using assms by (simp add: close_fd_def fd_obj_fdt_update list_update_same_conv)

lemma fullpathat_eq:
  assumes G: "\<And>k t. sc_getpath K k t = (G (fd_obj t k), t)"
    and here: "fd = AT_FDCWD \<Longrightarrow> may_read R (euid s) (egid s) (wd s) \<and> None \<in> set (fdt s)"
  shows "fullpathat R K fd p s = (map_option (\<lambda>b. strlcat PATH_MAX (strlcat PATH_MAX b ''/'') p) (G (at_obj s fd)), s)"
proof (cases "fd = AT_FDCWD")
  case True
  then obtain i where "open_dot R s = (int i, s\<lparr>fdt := (fdt s)[i := Some (Dir_obj (wd s))]\<rparr>)"
    and i: "i < length (fdt s)" "fdt s ! i = None"
    using here free_slot_None [of "fdt s"] by (cases rule: open_dot_cases [of R s]) (auto simp: open_dot_def split: option.splits)
  then show ?thesis using True
    by (simp add: fullpathat_def G at_obj_def close_after_open [OF i] fd_obj_fdt_update)
next
  case False
  then show ?thesis by (simp add: fullpathat_def G at_obj_def)
qed

section \<open>Properties\<close>

text \<open>C5: A call made through \<open>ATCALL\<close> with a relative path and an open, searchable directory runs in that directory,
  under the caller's ids and with all his descriptors; its result and \<open>errno\<close> are passed on, the directories
  of process and thread come back, and of the descriptor table only what the call itself did remains.\<close>

theorem ATCALL_in_directory:
  assumes "dummy \<longrightarrow> tcwd s = None" and "fd \<noteq> AT_FDCWD" and "\<not> is_abs p"
    and "may_read R (euid s) (egid s) (wd s)" and "may_search R (euid s) (egid s) (wd s)" and "None \<in> set (fdt s)"
    and "fd_obj s fd = Some (Dir_obj d)" and "may_search R (euid s) (egid s) d" and "quiet f"
  shows "\<exists>t t'. wd t = d \<and> creds t = creds s \<and> length (fdt t) = length (fdt s) \<and> cloexec t = cloexec s
    \<and> (\<forall>k x. fd_obj s k = Some x \<longrightarrow> fd_obj t k = Some x) \<and> (\<exists>i. \<forall>k. k \<noteq> i \<longrightarrow> fd_obj t k = fd_obj s k)
    \<and> ATCALL (best_fchdir dummy R) R fd p f s = (Some (fst (f t)), t')
    \<and> p_errno t' = p_errno (snd (f t)) \<and> dirs t' = dirs s \<and> creds t' = creds s \<and> cloexec t' = cloexec (snd (f t))
    \<and> (\<forall>k. fd_obj t' k = (if fd_obj s k = None \<and> fd_obj t k \<noteq> None then None else fd_obj (snd (f t)) k))"
  using assms by (rule mpls.ATCALL_correct)

definition demo_rights :: rights where
  "demo_rights = \<lparr>may_read = (\<lambda>u g d. d \<noteq> 9), may_search = (\<lambda>u g d. d \<noteq> 8)\<rparr>"

definition demo_proc :: proc where
  "demo_proc = \<lparr>fdt = [Some (File_obj 1), Some (Dir_obj 5), None, None, None], cloexec = (\<lambda>_. False), pcwd = 3, tcwd = None,
     p_errno = ENOENT, ruid = 10, euid = 20, rgid = 30, egid = 30\<rparr>"

lemma demo_facts:
  "tcwd demo_proc = None" "wd demo_proc = 3" "fdt demo_proc = [Some (File_obj 1), Some (Dir_obj 5), None, None, None]"
  "fd_obj demo_proc 0 = Some (File_obj 1)" "fd_obj demo_proc 1 = Some (Dir_obj 5)" "AT_FDCWD = -2" "\<not> is_abs ''a''"
  "may_read demo_rights u g d = (d \<noteq> 9)" "may_search demo_rights u g d = (d \<noteq> 8)"
  "dir_target demo_rights demo_proc 0 = Inl ENOTDIR" "cloexec demo_proc = (\<lambda>_. False)"
  "ruid demo_proc = 10" "euid demo_proc = 20" "rgid demo_proc = 30" "egid demo_proc = 30"
  by (simp_all add: demo_rights_def demo_proc_def wd_def fd_obj_def AT_FDCWD_def is_abs_def dir_target_def)

lemma quiet_wd: "quiet (\<lambda>s. (g (wd s), s))"
  by (simp add: quiet_def)

theorem ATCALL_in_directory_witness:
  "fst (ATCALL (best_fchdir True demo_rights) demo_rights 1 ''a'' (\<lambda>s. (wd s, s)) demo_proc) = Some 5"
  using ATCALL_in_directory [of True demo_proc 1 "''a''" demo_rights 5 "\<lambda>s. (wd s, s)"] quiet_wd [of "\<lambda>x. x"]
  by (auto simp: demo_facts)

text \<open>With the directory of the process (10.4), a descriptor that is not open does not always make the function
  fail: \<open>-1\<close>, and the number the macro's own descriptor gets, name the working directory instead.\<close>

theorem ATCALL_bad_descriptor_accepted:
  assumes "tcwd s = None" and "\<not> is_abs p" and "may_read R (euid s) (egid s) (wd s)" and "may_search R (euid s) (egid s) (wd s)"
    and "free_slot (fdt s) = Some i" and "fd = -1 \<or> fd = int i"
  shows "fd_obj s fd = None \<and> (\<exists>t t'. wd t = wd s \<and> ATCALL (best_fchdir True R) R fd p f s = (Some (fst (f t)), t'))"
proof -
  let ?s = "s\<lparr>fdt := (fdt s)[i := Some (Dir_obj (wd s))]\<rparr>"
  have i: "i < length (fdt s)" "fdt s ! i = None" using free_slot_Some [OF assms(5)] by simp_all
  have o: "open_dot R s = (int i, ?s)" using assms by (simp add: open_dot_def)
  have "dir_target R ?s (int i) = Inr (wd s)" using assms i by (simp add: dir_target_obj fd_obj_fdt_update)
  define t where "t = (if fd = -1 then ?s else ?s\<lparr>pcwd := wd s\<rparr>)"
  from \<open>dir_target R ?s (int i) = Inr (wd s)\<close> have "at_enter (best_fchdir True R) R fd s = ((int i, True), t)"
    using assms(6) by (auto simp: t_def at_enter_def o best_fchdir_def best_fchdir_process_def fchdir_def Let_def)
  moreover have "fd \<noteq> AT_FDCWD" using assms(6) by (auto simp: AT_FDCWD_def)
  ultimately have "ATCALL (best_fchdir True R) R fd p f s = (Some (fst (f t)), at_leave (best_fchdir True R) (int i) (snd (f t)))"
    using assms(2) by (simp add: ATCALL_def case_prod_beta)
  moreover have "wd t = wd s" using assms(1) by (simp add: wd_def t_def)
  moreover have "fd_obj s fd = None" using assms(6) i by (auto simp: fd_obj_def)
  ultimately show ?thesis by blast
qed

theorem ATCALL_bad_descriptor_accepted_witness:
  "fst (ATCALL (best_fchdir True demo_rights) demo_rights 2 ''a'' (\<lambda>s. (wd s, s)) demo_proc) = Some 3"
  using ATCALL_bad_descriptor_accepted [of demo_proc "''a''" demo_rights 2 2 "\<lambda>s. (wd s, s)"] by (auto simp: demo_facts)

text \<open>With a directory per thread, \<open>-1\<close> is refused; the number of the macro's own descriptor is refused too, unless the thread
  had a directory of its own.\<close>

lemma thread_refused:
  assumes "\<not> is_abs p" and "may_read R (euid s) (egid s) (wd s)" and "may_search R (euid s) (egid s) (wd s)"
    and "free_slot (fdt s) = Some i" and "fd = -1 \<or> fd = int i \<and> tcwd s = None"
  shows "\<exists>t. ATCALL (best_fchdir False R) R fd p f s = (None, t) \<and> dirs t = dirs s \<and> creds t = creds s \<and> fdt t = fdt s \<and> p_errno t = EBADF"
proof -
  let ?s = "s\<lparr>fdt := (fdt s)[i := Some (Dir_obj (wd s))]\<rparr>"
  have i: "i < length (fdt s)" "fdt s ! i = None" using free_slot_Some [OF assms(4)] by simp_all
  have o: "open_dot R s = (int i, ?s)" using assms by (simp add: open_dot_def)
  have u: "(fdt s)[i := None] = fdt s" using i by (simp add: list_update_same_conv)
  have "\<exists>old t. at_enter (best_fchdir False R) R fd s = ((old, False), t) \<and> dirs t = dirs s \<and> creds t = creds s \<and> fdt t = fdt s \<and> p_errno t = EBADF"
    using assms(3,5) i o u
    by (cases "tcwd s")
      (auto simp: at_enter_def at_leave_def PROTECT_ERRNO_def close_fd_def best_fchdir_def fchdir_defs dir_target_def fd_obj_def set_errno_def dirs_def creds_def wd_def Let_def)
  moreover have "fd \<noteq> AT_FDCWD" using assms(5) by (auto simp: AT_FDCWD_def)
  ultimately show ?thesis using assms(1) by (auto simp: ATCALL_def)
qed

lemma thread_accepted:
  assumes "\<not> is_abs p" and "may_read R (euid s) (egid s) (wd s)" and "may_search R (euid s) (egid s) (wd s)"
    and "free_slot (fdt s) = Some i" and "tcwd s \<noteq> None"
  shows "\<exists>t t'. wd t = wd s \<and> ATCALL (best_fchdir False R) R (int i) p f s = (Some (fst (f t)), t')"
proof -
  let ?s = "s\<lparr>fdt := (fdt s)[i := Some (Dir_obj (wd s))]\<rparr>"
  have i: "i < length (fdt s)" "fdt s ! i = None" using free_slot_Some [OF assms(4)] by simp_all
  have o: "open_dot R s = (int i, ?s)" using assms by (simp add: open_dot_def)
  have "\<exists>t. at_enter (best_fchdir False R) R (int i) s = ((int i, True), t) \<and> wd t = wd s"
    using assms(3,5) i o
    by (auto simp: at_enter_def best_fchdir_def fchdir_defs dir_target_def fd_obj_def wd_def Let_def)
  moreover have "int i \<noteq> AT_FDCWD" by (simp add: AT_FDCWD_def)
  ultimately show ?thesis using assms(1) by (auto simp: ATCALL_def split: prod.split)
qed

text \<open>C34: when the descriptor is not an open, searchable directory, the function fails with the reason in \<open>errno\<close>, and
  the descriptor table, the directories and the ids are as before, with two exceptions, in which it calls in the working
  directory instead.  One is the number that the macro's own descriptor gets, where the working directory is that of the
  process (10.4) or the thread has one of its own; the other is \<open>-1\<close> on 10.4.\<close>

theorem ATCALL_refused:
  assumes "dummy \<longrightarrow> tcwd s = None" and "fd \<noteq> AT_FDCWD" and "\<not> is_abs p"
    and "may_read R (euid s) (egid s) (wd s)" and "may_search R (euid s) (egid s) (wd s)"
    and "free_slot (fdt s) = Some i" and "dir_target R s fd = Inl e"
  shows "if fd = int i \<and> (dummy \<or> tcwd s \<noteq> None) \<or> fd = -1 \<and> dummy
    then \<exists>t t'. wd t = wd s \<and> ATCALL (best_fchdir dummy R) R fd p f s = (Some (fst (f t)), t')
    else \<exists>t. ATCALL (best_fchdir dummy R) R fd p f s = (None, t) \<and> dirs t = dirs s \<and> creds t = creds s \<and> fdt t = fdt s \<and> p_errno t = e"
proof (cases "fd = -1 \<or> fd = int i")
  case False
  have o: "open_dot R s = (int i, s\<lparr>fdt := (fdt s)[i := Some (Dir_obj (wd s))]\<rparr>)" using assms by (simp add: open_dot_def)
  from False mpls.enter_refused [OF assms(1) o refl _ _ assms(5,7)] free_slot_Some [OF assms(6)]
  show ?thesis using assms(2,3) by (auto simp: ATCALL_def)
next
  case True
  then have "fd_obj s fd = None" using free_slot_Some [OF assms(6)] by (auto simp: fd_obj_def)
  then have e: "e = EBADF" using assms(7) by (simp add: dir_target_def)
  show ?thesis
  proof (cases dummy)
    case d: True
    show ?thesis using ATCALL_bad_descriptor_accepted [OF _ assms(3-6) True, of f] assms(1) d True by auto
  next
    case False
    then show ?thesis
      using thread_refused [OF assms(3-6), of fd f] thread_accepted [OF assms(3-6), of f] True e by auto
  qed
qed

theorem ATCALL_refused_witness:
  "fst (ATCALL (best_fchdir False demo_rights) demo_rights 0 ''a'' (\<lambda>s. (wd s, s)) demo_proc) = None
    \<and> fst (ATCALL (best_fchdir False demo_rights) demo_rights 2 ''a'' (\<lambda>s. (wd s, s)) demo_proc) = None
    \<and> fst (ATCALL (best_fchdir True demo_rights) demo_rights (-1) ''a'' (\<lambda>s. (wd s, s)) demo_proc) = Some 3"
proof -
  have "free_slot (fdt demo_proc) = Some 2" "dir_target demo_rights demo_proc 2 = Inl EBADF" "dir_target demo_rights demo_proc (-1) = Inl EBADF"
    by (simp_all add: demo_facts dir_target_def fd_obj_def)
  then show ?thesis
    using ATCALL_refused [of False demo_proc 0 "''a''" demo_rights 2 ENOTDIR "\<lambda>s. (wd s, s)"] ATCALL_refused [of False demo_proc 2 "''a''" demo_rights 2 EBADF "\<lambda>s. (wd s, s)"]
      ATCALL_refused [of True demo_proc "-1" "''a''" demo_rights 2 EBADF "\<lambda>s. (wd s, s)"]
    by (auto simp: demo_facts)
qed

text \<open>When the working directory cannot be opened for reading, the way back is lost: the process of 10.4 stays in
  the directory of the call, and on later systems the thread loses a working directory of its own.\<close>

theorem ATCALL_loses_directory:
  assumes "if dummy then tcwd s = None else tcwd s \<noteq> None" and "fd \<noteq> AT_FDCWD" and "\<not> is_abs p"
    and "\<not> may_read R (euid s) (egid s) (wd s)" and "fd_obj s fd = Some (Dir_obj d)" and "may_search R (euid s) (egid s) d"
    and "quiet f"
  shows "dirs (snd (ATCALL (best_fchdir dummy R) R fd p f s)) = (if dummy then (d, None) else (pcwd s, None))"
proof -
  let ?s = "set_errno EACCES s"
  have o: "open_dot R s = (-1, ?s)" using assms(4) by (simp add: open_dot_def)
  have fd: "fd \<noteq> -1" using assms(5) by (auto simp: fd_obj_def)
  have target: "dir_target R t fd = Inr d" if "fdt t = fdt s" "creds t = creds s" for t
    using that assms(5,6) creds_ids [of t s] fd_obj_cong [of t s fd] by (simp add: dir_target_obj)
  show ?thesis
  proof (cases dummy)
    case True
    have "at_enter (best_fchdir dummy R) R fd s = ((-1, True), ?s\<lparr>pcwd := d\<rparr>)"
      using True fd target [of ?s] by (simp add: at_enter_def o best_fchdir_def best_fchdir_process_def fchdir_def proc_simps)
    then have "snd (ATCALL (best_fchdir dummy R) R fd p f s) = at_leave (best_fchdir dummy R) (-1) (snd (f (?s\<lparr>pcwd := d\<rparr>)))"
      using assms(2,3) by (simp add: ATCALL_def case_prod_beta)
    moreover have "dirs (?s\<lparr>pcwd := d\<rparr>) = (d, None)" using True assms(1) by (simp add: dirs_def proc_simps)
    ultimately show ?thesis using True quietD(1) [OF assms(7), of "?s\<lparr>pcwd := d\<rparr>"]
      by (simp add: at_leave_def PROTECT_ERRNO_def best_fchdir_def best_fchdir_process_def proc_simps)
  next
    case False
    then obtain d0 where t: "tcwd s = Some d0" using assms(1) by auto
    have "at_enter (best_fchdir dummy R) R fd s = ((-1, True), ?s\<lparr>tcwd := Some d\<rparr>)"
      using False fd t target [of "?s\<lparr>tcwd := None\<rparr>"]
      by (simp add: at_enter_def o best_fchdir_def best_fchdir_thread_def pthread_fchdir_np_def sys_pthread_fchdir_def proc_simps creds_def)
    then have "snd (ATCALL (best_fchdir dummy R) R fd p f s) = at_leave (best_fchdir dummy R) (-1) (snd (f (?s\<lparr>tcwd := Some d\<rparr>)))"
      using assms(2,3) by (simp add: ATCALL_def case_prod_beta)
    moreover have "dirs (snd (f (?s\<lparr>tcwd := Some d\<rparr>))) = (pcwd s, Some d)"
      using quietD(1) [OF assms(7), of "?s\<lparr>tcwd := Some d\<rparr>"] by (simp add: dirs_def proc_simps)
    ultimately show ?thesis using False
      by (simp add: at_leave_def PROTECT_ERRNO_def best_fchdir_def best_fchdir_thread_def pthread_fchdir_np_def
          sys_pthread_fchdir_def proc_simps dirs_def)
  qed
qed

theorem ATCALL_loses_directory_witness:
  "dirs (snd (ATCALL (best_fchdir True demo_rights) demo_rights 1 ''a'' (\<lambda>s. (wd s, s)) (demo_proc\<lparr>pcwd := 9\<rparr>))) = (5, None)"
proof -
  have "wd (demo_proc\<lparr>pcwd := 9\<rparr>) = 9" by (simp add: wd_def demo_facts)
  then show ?thesis
    using ATCALL_loses_directory [of True "demo_proc\<lparr>pcwd := 9\<rparr>" 1 "''a''" demo_rights 5 "\<lambda>s. (wd s, s)"] quiet_wd [of "\<lambda>x. x"]
    by (simp add: demo_facts fd_obj_def)
qed

text \<open>\<open>faccessat\<close> with \<open>AT_EACCESS\<close> asks \<open>access\<close> with the real and effective ids exchanged, in the directory of
  the descriptor, and gives the caller his ids, his directories and the answer with its \<open>errno\<close>.\<close>

theorem faccessat_effective:
  assumes "dummy \<longrightarrow> tcwd s = None" and "fd \<noteq> AT_FDCWD" and "\<not> is_abs p"
    and "may_read R (ruid s) (rgid s) (wd s)" and "may_search R (ruid s) (rgid s) (wd s)" and "None \<in> set (fdt s)"
    and "fd_obj s fd = Some (Dir_obj d)" and "may_search R (ruid s) (rgid s) d" and "quiet (sc_access K p mode)"
  shows "\<exists>t t'. faccessat (best_fchdir dummy R) R K fd p mode AT_EACCESS s = (fst (sc_access K p mode t), t')
    \<and> wd t = d \<and> ruid t = euid s \<and> euid t = ruid s \<and> rgid t = egid s \<and> egid t = rgid s
    \<and> creds t' = creds s \<and> dirs t' = dirs s \<and> p_errno t' = p_errno (snd (sc_access K p mode t))"
proof -
  let ?s = "swap_ids s" and ?f = "sc_access K p mode"
  obtain t u where t: "wd t = d" "creds t = creds ?s"
    and a: "ATCALL (best_fchdir dummy R) R fd p ?f ?s = (Some (fst (?f t)), u)"
    and u: "p_errno u = p_errno (snd (?f t))" "dirs u = dirs s" "creds u = creds ?s"
    using mpls.ATCALL_correct [of dummy ?s fd p R d ?f] assms by auto
  let ?b = "let t = (if ruid s \<noteq> euid s then snd (setreuid (ruid s) (euid s) u) else u)
    in (if rgid s \<noteq> egid s then snd (setregid (rgid s) (egid s) t) else t)"
  have "faccessat (best_fchdir dummy R) R K fd p mode AT_EACCESS s = (fst (?f t), set_errno (p_errno u) ?b)"
    unfolding faccessat_swap a by (simp only: prod.case option.case)
  moreover have "creds ?b = creds s \<and> dirs ?b = dirs u" by (rule swap_back [OF u(3)])
  ultimately show ?thesis using t(1) t(2) [unfolded creds_swap] u(1,2)
    by (intro exI [of _ t] exI [of _ "set_errno (p_errno u) ?b"]) (simp only: proc_simps simp_thms)
qed

definition demo_calls :: syscalls where
  "demo_calls = \<lparr>sc_access = (\<lambda>p m s. (if ruid s = 20 \<and> wd s = 5 then 0 else -1, s)), sc_chmod = (\<lambda>p m s. (0, s)), sc_lchmod = (\<lambda>p m s. (0, s)),
     sc_chown = (\<lambda>p u g s. (0, s)), sc_lchown = (\<lambda>p u g s. (0, s)), sc_getattrlist = (\<lambda>p a b n f s. (0, s)), sc_setattrlist = (\<lambda>p a b n f s. (0, s)),
     sc_link = (\<lambda>p q s. (int (length p * 100 + length q), s)), sc_rename = (\<lambda>p q s. (0, s)), sc_symlink = (\<lambda>p q s. (0, s)), sc_mkdir = (\<lambda>p m s. (0, s)),
     sc_open = (\<lambda>p f m s. (0, s)), sc_readlink = (\<lambda>p b n s. (0, s)), sc_unlink = (\<lambda>p s. (0, s)), sc_rmdir = (\<lambda>p s. (0, s)),
     sc_stat = (\<lambda>p b s. (0, s)), sc_lstat = (\<lambda>p b s. (0, s)), sc_stat_i64 = (\<lambda>p b s. (0, s)), sc_lstat_i64 = (\<lambda>p b s. (0, s)),
     sc_getpath = (\<lambda>k t. (map_option (\<lambda>x. if x = Dir_obj 5 then ''/five'' else ''/else'') (fd_obj t k), t))\<rparr>"

theorem faccessat_effective_witness:
  "fst (faccessat (best_fchdir False demo_rights) demo_rights demo_calls 1 ''a'' 4 AT_EACCESS demo_proc) = 0"
proof -
  have q: "quiet (sc_access demo_calls ''a'' 4)" by (simp add: demo_calls_def quiet_def)
  have "sc_access demo_calls ''a'' 4 t = (0, t)" if "wd t = 5" "ruid t = 20" for t using that by (simp add: demo_calls_def)
  with faccessat_effective [of False demo_proc 1 "''a''" demo_rights 5 demo_calls 4, OF _ _ _ _ _ _ _ _ q]
  show ?thesis by (auto simp: demo_facts)
qed

text \<open>When the descriptor is refused, the macro returns from \<open>faccessat\<close> before the ids are exchanged back: the
  process keeps running with its real and effective ids exchanged.\<close>

theorem faccessat_leaks_ids:
  assumes "dummy \<longrightarrow> tcwd s = None" and "fd \<noteq> AT_FDCWD" and "\<not> is_abs p"
    and "may_read R (ruid s) (rgid s) (wd s)" and "may_search R (ruid s) (rgid s) (wd s)"
    and "free_slot (fdt s) = Some i" and "fd \<noteq> -1" and "fd \<noteq> int i" and "dir_target R (swap_ids s) fd = Inl e"
  shows "\<exists>t. faccessat (best_fchdir dummy R) R K fd p mode AT_EACCESS s = (-1, t)
    \<and> ruid t = euid s \<and> euid t = ruid s \<and> rgid t = egid s \<and> egid t = rgid s"
proof -
  let ?s = "swap_ids s"
  have o: "open_dot R ?s = (int i, ?s\<lparr>fdt := (fdt s)[i := Some (Dir_obj (wd s))]\<rparr>)" using assms by (simp add: open_dot_def)
  obtain old t where e: "at_enter (best_fchdir dummy R) R fd ?s = ((old, False), t)" and t: "creds t = creds ?s"
    using mpls.enter_refused [of dummy ?s R i _ fd e, OF _ o _ _ _ _ assms(9,7,8)] free_slot_Some [OF assms(6)] assms(1,5) by auto
  have "faccessat (best_fchdir dummy R) R K fd p mode AT_EACCESS s = (-1, t)"
    using e assms(2,3) unfolding faccessat_swap by (simp add: ATCALL_def)
  then show ?thesis using t [unfolded creds_swap] by blast
qed

theorem faccessat_leaks_ids_witness:
  "\<exists>t. faccessat (best_fchdir False demo_rights) demo_rights demo_calls 7 ''a'' 4 AT_EACCESS demo_proc = (-1, t) \<and> euid t = 10 \<and> euid demo_proc = 20"
proof -
  have "dir_target demo_rights (swap_ids demo_proc) 7 = Inl EBADF" by (simp add: dir_target_def fd_obj_def demo_facts)
  with faccessat_leaks_ids [of False demo_proc 7 "''a''" demo_rights 2 EBADF demo_calls 4] show ?thesis
    by (auto simp: demo_facts)
qed

text \<open>\<open>linkat\<close> with two relative paths in different directories links the absolute paths made of the directories'
  names, wherever the process is and without moving it, as long as they fit a path buffer.\<close>

theorem linkat_two_directories:
  assumes "\<And>k t. sc_getpath K k t = (G (fd_obj t k), t)"
    and "AT_FDCWD \<in> {ofd, nfd} \<Longrightarrow> may_read R (euid s) (egid s) (wd s) \<and> None \<in> set (fdt s)"
    and "\<not> is_abs op" and "\<not> is_abs np" and "ofd \<noteq> nfd"
    and "G (at_obj s ofd) = Some po" and "G (at_obj s nfd) = Some pn"
    and "length po + length op + 1 < PATH_MAX" and "length pn + length np + 1 < PATH_MAX"
  shows "linkat B R K ofd op nfd np 0 s = sc_link K (po @ ''/'' @ op) (pn @ ''/'' @ np) s"
  using assms(3-9) fullpathat_eq [of K G ofd R s op, OF assms(1)] fullpathat_eq [of K G nfd R s np, OF assms(1)] assms(2)
  by (simp add: linkat_def ERR_ON_def at_two_def strlcat_fits)

theorem linkat_two_directories_witness:
  "fst (linkat (best_fchdir False demo_rights) demo_rights demo_calls 1 ''abc'' (-2) ''d'' 0 demo_proc) = 907"
proof -
  let ?G = "map_option (\<lambda>x. if x = Dir_obj 5 then ''/five'' else ''/else'')"
  have "sc_getpath demo_calls k t = (?G (fd_obj t k), t)" for k t by (simp add: demo_calls_def)
  from linkat_two_directories [OF this, of 1 "-2" demo_rights demo_proc "''abc''" "''d''" "''/five''" "''/else''"]
  show ?thesis by (simp add: demo_facts at_obj_def PATH_MAX_def is_abs_def demo_calls_def)
qed

text \<open>A path that does not fit is cut without an error: \<open>linkat\<close> then acts on another name.\<close>

theorem linkat_cuts_path:
  assumes "\<And>k t. sc_getpath K k t = (G (fd_obj t k), t)"
    and "ofd \<noteq> AT_FDCWD" and "nfd \<noteq> AT_FDCWD" and "\<not> is_abs op" and "\<not> is_abs np" and "ofd \<noteq> nfd"
    and "G (fd_obj s ofd) = Some po" and "G (fd_obj s nfd) = Some pn" and "length po + 1 < PATH_MAX" and "length pn + 1 < PATH_MAX"
  shows "linkat B R K ofd op nfd np 0 s = sc_link K (take (PATH_MAX - 1) (po @ ''/'' @ op)) (take (PATH_MAX - 1) (pn @ ''/'' @ np)) s"
  using assms(2-10) fullpathat_eq [of K G ofd R s op, OF assms(1)] fullpathat_eq [of K G nfd R s np, OF assms(1)]
  by (simp add: linkat_def ERR_ON_def at_two_def strlcat_fits at_obj_def) (simp add: strlcat_def)

theorem linkat_cuts_path_witness:
  "fst (linkat (best_fchdir False demo_rights) demo_rights demo_calls 1 (replicate 2000 CHR ''x'') 0 ''d'' 0 demo_proc) = 102307"
proof -
  let ?G = "map_option (\<lambda>x. if x = Dir_obj 5 then ''/five'' else ''/else'')" and ?p = "replicate 2000 CHR ''x''"
  have g: "sc_getpath demo_calls k t = (?G (fd_obj t k), t)" for k t by (simp add: demo_calls_def)
  have "\<not> is_abs ?p" by (simp add: is_abs_def numeral_eq_Suc)
  with linkat_cuts_path [OF g, of 1 0 ?p "''d''" demo_proc "''/five''" "''/else''"]
  show ?thesis by (simp add: demo_facts PATH_MAX_def is_abs_def demo_calls_def)
qed

lemma quiet_opendir_dot: "quiet (opendir_dot R ''.'')"
proof -
  have "fd_obj (snd (open_dot R t)) k = Some x" if "fd_obj t k = Some x" for t k x
  proof (cases rule: open_dot_cases [of R t])
    case (yes i)
    have "k \<noteq> int i" using that yes by (auto simp: fd_obj_def)
    then show ?thesis using that yes by (simp add: fd_obj_fdt_update)
  qed (simp add: that proc_simps)
  then show ?thesis by (auto simp: quiet_def opendir_dot_def case_prod_beta Let_def proc_simps)
qed

lemma opendir_dot_ok:
  assumes "may_read R (euid t) (egid t) (wd t)" and "None \<in> set (fdt t)"
  shows "\<exists>j. fd_obj t (int j) = None \<and> j < length (fdt t)
    \<and> opendir_dot R ''.'' t = (Some \<lparr>dd_fd = int j, dd_pos = 0\<rparr>, t\<lparr>fdt := (fdt t)[j := Some (Dir_obj (wd t))]\<rparr>)"
proof -
  obtain j where "free_slot (fdt t) = Some j" using assms(2) free_slot_None [of "fdt t"] by (cases "free_slot (fdt t)") auto
  with free_slot_Some [OF this] assms(1) show ?thesis
    by (intro exI [of _ j]) (simp add: opendir_dot_def open_dot_def fd_obj_def)
qed

text \<open>C26: \<open>fdopendir\<close> on an open directory returns a stream at its start that uses the caller's descriptor, which is then
  closed on exec; every other descriptor, the directories and the ids are as before, and none of the descriptors
  used on the way is left open.\<close>

theorem fdopendir_correct:
  assumes "dummy \<longrightarrow> tcwd s = None" and "fd_obj s fd = Some (Dir_obj d)"
    and "may_read R (euid s) (egid s) (wd s)" and "may_search R (euid s) (egid s) (wd s)"
    and "may_read R (euid s) (egid s) d" and "may_search R (euid s) (egid s) d"
    and "fd_obj s (int a) = None" and "a < length (fdt s)" and "fd_obj s (int b) = None" and "b < length (fdt s)" and "a \<noteq> b"
  shows "\<exists>t. fdopendir (best_fchdir dummy R) R (variant_funcs is64 fstat_mode (opendir_dot R) rewinddir) fd s
      = (Some \<lparr>dd_fd = fd, dd_pos = 0\<rparr>, t)
    \<and> dirs t = dirs s \<and> creds t = creds s \<and> (\<forall>k. fd_obj t k = fd_obj s k) \<and> cloexec t = (cloexec s)(fd := True)"
proof -
  let ?f = "opendir_dot R ''.''"
  have fd: "fd \<noteq> AT_FDCWD" using assms(2) by (auto simp: AT_FDCWD_def fd_obj_def)
  have slot: "None \<in> set (fdt s)" using assms(7,8) nth_mem [OF assms(8)] by (simp add: fd_obj_def)
  have rel: "\<not> is_abs ''.''" by (simp add: is_abs_def)
  obtain t u where t: "wd t = d" "creds t = creds s" "length (fdt t) = length (fdt s)" "cloexec t = cloexec s"
    "\<And>k x. fd_obj s k = Some x \<Longrightarrow> fd_obj t k = Some x" and one: "\<exists>i. \<forall>k. k \<noteq> i \<longrightarrow> fd_obj t k = fd_obj s k"
    and r: "ATCALL (best_fchdir dummy R) R fd ''.'' ?f s = (Some (fst (?f t)), u)"
    and u: "dirs u = dirs s" "creds u = creds s" "cloexec u = cloexec (snd (?f t))"
    and k: "\<And>k. fd_obj u k = (if fd_obj s k = None \<and> fd_obj t k \<noteq> None then None else fd_obj (snd (?f t)) k)"
    using mpls.ATCALL_correct [OF assms(1) fd rel assms(3,4) slot assms(2,6) quiet_opendir_dot] by blast
  have "fd_obj t (int a) = None \<or> fd_obj t (int b) = None" using one assms(7,9,11) by (metis of_nat_eq_iff)
  then have "\<exists>j<length (fdt t). fdt t ! j = None" using assms(8,10) t(3) by (auto simp: fd_obj_def)
  then have "None \<in> set (fdt t)" by (auto simp: in_set_conv_nth)
  moreover have "may_read R (euid t) (egid t) (wd t)" using assms(5) t(1) creds_ids [OF t(2)] by simp
  ultimately obtain j where j: "fd_obj t (int j) = None" "j < length (fdt t)"
    and o: "?f t = (Some \<lparr>dd_fd = int j, dd_pos = 0\<rparr>, t\<lparr>fdt := (fdt t)[j := Some (Dir_obj (wd t))]\<rparr>)"
    using opendir_dot_ok by blast
  have sj: "fd_obj s (int j) = None" using t(5) [of "int j"] j(1) by (cases "fd_obj s (int j)") auto
  have uk: "fd_obj u k = (if k = int j then Some (Dir_obj d) else fd_obj s k)" for k
    using k [of k] sj j t(1) t(5) [of k] by (cases "fd_obj s k") (auto simp: o fd_obj_fdt_update)
  have cl: "fd_obj (snd (close_fd (int j) u)) k = fd_obj s k" for k
    using uk [of k] uk [of "int j"] sj fd_objD [of u "int j"] by (auto simp: close_fd_def fd_obj_fdt_update)
  have "fstat_mode fd s = ((0, 0x41ED), s)" using assms(2) by (simp add: fstat_mode_def)
  then have "fdopendir (best_fchdir dummy R) R (variant_funcs is64 fstat_mode (opendir_dot R) rewinddir) fd s
      = (Some \<lparr>dd_fd = fd, dd_pos = 0\<rparr>, set_cloexec fd (snd (close_fd (int j) u)))"
    using r by (simp add: fdopendir_def fdopendir_internal_def variant_funcs_def S_ISDIR_def at_return_def o rewinddir_def Let_def)
  moreover have "fd_obj (set_cloexec fd v) k = fd_obj v k" "dirs (set_cloexec fd v) = dirs v" "creds (set_cloexec fd v) = creds v" for v k
    by (simp_all add: set_cloexec_def fd_obj_def dirs_def creds_def)
  moreover have "cloexec (set_cloexec fd (snd (close_fd (int j) u))) = (cloexec s)(fd := True)"
    using u(3) t(4) by (simp add: set_cloexec_def proc_simps o)
  ultimately show ?thesis using u(1,2) cl by (simp add: proc_simps)
qed

theorem fdopendir_correct_witness:
  "fst (fdopendir (best_fchdir True demo_rights) demo_rights
     (variant_funcs True fstat_mode (opendir_dot demo_rights) rewinddir) 1 demo_proc) = Some \<lparr>dd_fd = 1, dd_pos = 0\<rparr>"
proof -
  have "fd_obj demo_proc (int 2) = None" "fd_obj demo_proc (int 3) = None" by (simp_all add: fd_obj_def demo_facts)
  with fdopendir_correct [of True demo_proc 1 5 demo_rights 2 3 True] show ?thesis by (auto simp: demo_facts)
qed

end
