(* ===== verification/Access_Check.thy ===== *)
theory Access_Check
  imports Legacy_Prelude
begin

text \<open>
  The support code of \<open>src/util.c\<close> and \<open>src/util.h\<close>: looking up the system's version of a function, and checking that a
  range of addresses may be accessed.  What the kernel answers about the address space is a parameter; \<open>vm_region\<close> is
  its documented answer for a given list of regions.
\<close>

section \<open>The system's version of a function\<close>

text \<open>
  \<open>GET_OS_ALT_FUNC\<close> with its static variable \<open>cache\<close>: the function to call, which is also the new value of the variable;
  \<open>None\<close> is the call of \<open>abort\<close>.
\<close>

definition GET_OS_ALT_FUNC :: "(string \<Rightarrow> 'f option) \<Rightarrow> string \<Rightarrow> string \<Rightarrow> 'f option \<Rightarrow> 'f option" where
  "GET_OS_ALT_FUNC dlsym name suffix cache = (case cache of Some f \<Rightarrow> Some f | None \<Rightarrow> dlsym (name @ suffix))"

definition GET_OS_FUNC :: "(string \<Rightarrow> 'f option) \<Rightarrow> string \<Rightarrow> 'f option \<Rightarrow> 'f option" where
  "GET_OS_FUNC dlsym name cache = GET_OS_ALT_FUNC dlsym name [] cache"

text \<open>Whatever was cached before from the same lookup, the function is the one of the system.\<close>

lemma GET_OS_FUNC_eq:
  "cache = None \<or> cache = dlsym name \<Longrightarrow> GET_OS_FUNC dlsym name cache = dlsym name"
  by (auto simp: GET_OS_FUNC_def GET_OS_ALT_FUNC_def split: option.split)

section \<open>Checking a range of addresses\<close>

text \<open>An answer of \<open>mach_vm_region\<close>: start, size and protection of the first region that ends after the address.\<close>

type_synonym region_query = "u64 \<Rightarrow> (u64 \<times> u64 \<times> u32) option"

definition pagemask :: "u64 \<Rightarrow> u64" where
  "pagemask pagesize = (if pagesize \<noteq> 0 then pagesize - 1 else pagesize)"

definition same_page :: "u64 \<Rightarrow> u64 \<Rightarrow> u64 \<Rightarrow> u64 \<Rightarrow> bool" where
  "same_page pagesize start_adr end_adr okadr \<longleftrightarrow>
     (let m = pagemask pagesize; okpage = okadr AND NOT m
      in start_adr AND NOT m = okpage \<and> (end_adr - 1) AND NOT m = okpage)"

partial_function (option) region_loop :: "region_query \<Rightarrow> u64 \<Rightarrow> u32 \<Rightarrow> u64 \<Rightarrow> u64 \<Rightarrow> int option" where
  "region_loop Q end_adr acc address msize =
     (if end_adr > address + msize
      then (case Q (address + msize) of
              None \<Rightarrow> Some (-1)
            | Some (address, msize, protection) \<Rightarrow>
                if end_adr \<le> address then Some (-1)
                else if acc AND NOT protection \<noteq> 0 then Some (-1)
                else region_loop Q end_adr acc address msize)
      else Some 0)"

definition mpls_check_access :: "region_query \<Rightarrow> u64 \<Rightarrow> u64 \<Rightarrow> u64 \<Rightarrow> u32 \<Rightarrow> u64 option \<Rightarrow> int option" where
  "mpls_check_access Q pagesize adr sz acc okadr =
     (let start_adr = adr; end_adr = start_adr + sz
      in if (case okadr of None \<Rightarrow> False | Some ok \<Rightarrow> same_page pagesize start_adr end_adr ok) then Some 0
         else (case Q start_adr of
                 None \<Rightarrow> Some (-1)
               | Some (address, msize, protection) \<Rightarrow>
                   if start_adr < address then Some (-1)
                   else if acc AND NOT protection \<noteq> 0 then Some (-1)
                   else region_loop Q end_adr acc address msize))"

section \<open>Address spaces\<close>

text \<open>The regions of a task: start, size, protection, in the order of their addresses and not overlapping.\<close>

type_synonym region = "nat \<times> nat \<times> u32"

definition regions_ok :: "region list \<Rightarrow> bool" where
  "regions_ok M \<longleftrightarrow> sorted_wrt (\<lambda>(s, n, _) (s', _, _). s + n \<le> s') M \<and> (\<forall>(s, n, p) \<in> set M. 0 < n \<and> s + n < 2 ^ 64)"

definition vm_region :: "region list \<Rightarrow> region_query" where
  "vm_region M a = map_option (\<lambda>(s, n, p). (word_of_nat s, word_of_nat n, p)) (find (\<lambda>(s, n, p). unat a < s + n) M)"

definition accessible :: "region list \<Rightarrow> u32 \<Rightarrow> nat \<Rightarrow> bool" where
  "accessible M acc x \<longleftrightarrow> (\<exists>(s, n, p) \<in> set M. s \<le> x \<and> x < s + n \<and> acc AND NOT p = 0)"

lemma regions_okD:
  "regions_ok M \<Longrightarrow> (s, n, p) \<in> set M \<Longrightarrow> 0 < n \<and> s + n < 2 ^ 64 \<and> unat (word_of_nat s :: u64) = s \<and> unat (word_of_nat n :: u64) = n
     \<and> unat (word_of_nat s + word_of_nat n :: u64) = s + n"
  by (auto simp: regions_ok_def unat_of_nat unat_word_ariths)

lemma find_region:
  fixes M :: "region list"
  assumes "sorted_wrt (\<lambda>(s, n, _) (s', _, _). s + n \<le> s') M" "(s, n, p) \<in> set M" "s \<le> x" "x < s + n"
  shows "find (\<lambda>(s, n, p). x < s + n) M = Some (s, n, p)"
  using assms
proof (induction M)
  case (Cons r M)
  show ?case
  proof (cases "r = (s, n, p)")
    case True
    then show ?thesis using Cons.prems by simp
  next
    case False
    then have m: "(s, n, p) \<in> set M" using Cons.prems by auto
    obtain s' n' p' where r: "r = (s', n', p')" by (cases r)
    have "s' + n' \<le> s" using Cons.prems(1) m r by fastforce
    then have "\<not> x < s' + n'" using Cons.prems(3) by linarith
    then show ?thesis using Cons.IH Cons.prems m r by simp
  qed
qed simp

lemma vm_region_covered:
  "regions_ok M \<Longrightarrow> (s, n, p) \<in> set M \<Longrightarrow> s \<le> unat x \<Longrightarrow> unat x < s + n \<Longrightarrow> vm_region M x = Some (word_of_nat s, word_of_nat n, p)"
  using find_region [of M s n p "unat x"] by (simp add: vm_region_def regions_ok_def)

lemma vm_region_SomeD:
  assumes "vm_region M x = Some (a, b, p)"
  shows "\<exists>s n. (s, n, p) \<in> set M \<and> a = word_of_nat s \<and> b = word_of_nat n \<and> unat x < s + n"
proof -
  from assms obtain s n where "find (\<lambda>(s, n, p). unat x < s + n) M = Some (s, n, p)" "a = word_of_nat s" "b = word_of_nat n"
    by (auto simp: vm_region_def)
  then have "(s, n, p) \<in> set M \<and> unat x < s + n" by (auto simp: find_Some_iff in_set_conv_nth)
  then show ?thesis using \<open>a = word_of_nat s\<close> \<open>b = word_of_nat n\<close> by blast
qed

lemma region_loop_complete:
  "regions_ok M \<Longrightarrow> (s, n, p) \<in> set M \<Longrightarrow> (\<And>x. s + n \<le> x \<Longrightarrow> x < unat e \<Longrightarrow> accessible M acc x)
    \<Longrightarrow> region_loop (vm_region M) e acc (word_of_nat s) (word_of_nat n) = Some 0"
proof (induction "unat e - (s + n)" arbitrary: s n p rule: less_induct)
  case less
  let ?x = "word_of_nat s + word_of_nat n :: u64"
  have x: "unat ?x = s + n" using regions_okD [OF less.prems(1,2)] by simp
  show ?case
  proof (cases "s + n < unat e")
    case False
    then have "\<not> e > ?x" using x by (simp add: word_less_nat_alt)
    then show ?thesis by (simp add: region_loop.simps)
  next
    case True
    then obtain s' n' p' where r: "(s', n', p') \<in> set M" "s' \<le> s + n" "s + n < s' + n'" "acc AND NOT p' = 0"
      using less.prems(3) [of "s + n"] by (auto simp: accessible_def)
    have q: "vm_region M ?x = Some (word_of_nat s', word_of_nat n', p')"
      using vm_region_covered [OF less.prems(1) r(1), of ?x] r x by simp
    have "\<not> e \<le> word_of_nat s'" using True r(2) regions_okD [OF less.prems(1) r(1)] by (simp add: word_le_nat_alt)
    moreover have "e > ?x" using True x by (simp add: word_less_nat_alt)
    moreover have "region_loop (vm_region M) e acc (word_of_nat s') (word_of_nat n') = Some 0"
      using less.hyps [of s' n' p'] less.prems r True by simp
    ultimately show ?thesis using q r(4) by (simp add: region_loop.simps [of _ _ _ "word_of_nat s"])
  qed
qed









section \<open>Properties\<close>

text \<open>The check accepts every range whose bytes may all be accessed.\<close>

theorem check_access_complete:
  assumes "regions_ok M" and "0 < sz" and "unat adr + unat sz < 2 ^ 64"
    and "\<And>x. unat adr \<le> x \<Longrightarrow> x < unat adr + unat sz \<Longrightarrow> accessible M acc x"
  shows "mpls_check_access (vm_region M) pagesize adr sz acc okadr = Some 0"
proof -
  have e: "unat (adr + sz) = unat adr + unat sz" using assms(3) by (simp add: unat_word_ariths)
  have "0 < unat sz" using assms(2) by (simp add: word_less_nat_alt)
  then obtain s n p where r: "(s, n, p) \<in> set M" "s \<le> unat adr" "unat adr < s + n" "acc AND NOT p = 0"
    using assms(4) [of "unat adr"] by (auto simp: accessible_def)
  have "\<not> adr < word_of_nat s" using r(2) regions_okD [OF assms(1) r(1)] by (simp add: word_less_nat_alt)
  moreover have "region_loop (vm_region M) (adr + sz) acc (word_of_nat s) (word_of_nat n) = Some 0"
    using r assms(4) by (intro region_loop_complete [OF assms(1) r(1)]) (simp add: e)
  ultimately show ?thesis
    using vm_region_covered [OF assms(1) r(1-3)] r(4) by (simp add: mpls_check_access_def Let_def)
qed

theorem check_access_complete_witness:
  "mpls_check_access (vm_region [(4096, 4096, 3), (8192, 4096, 7)]) 4096 5000 4000 2 None = Some 0"
proof -
  have "regions_ok [(4096, 4096, 3), (8192, 4096, 7)]" by (simp add: regions_ok_def)
  moreover have "accessible [(4096, 4096, 3), (8192, 4096, 7)] 2 x" if "5000 \<le> x" "x < 9000" for x
    using that by (auto simp: accessible_def)
  ultimately show ?thesis using check_access_complete [of "[(4096, 4096, 3), (8192, 4096, 7)]" 4000 5000 2] by simp
qed



text \<open>A gap between two accessible regions inside the range is not noticed.\<close>

theorem check_access_misses_gap:
  assumes "regions_ok [(s, n, p), (s', n', p')]" and "acc AND NOT p = 0" and "acc AND NOT p' = 0"
    and "s \<le> unat adr" and "unat adr < s + n" and "s + n < s'" and "s' < unat adr + unat sz" and "unat adr + unat sz \<le> s' + n'"
  shows "mpls_check_access (vm_region [(s, n, p), (s', n', p')]) pagesize adr sz acc None = Some 0
    \<and> \<not> accessible [(s, n, p), (s', n', p')] acc (s + n)"
proof -
  let ?M = "[(s, n, p), (s', n', p')]"
  note r = regions_okD [OF assms(1), of s n p] and r' = regions_okD [OF assms(1), of s' n' p']
  have e: "unat (adr + sz) = unat adr + unat sz" using assms(8) r' by (simp add: unat_word_ariths)
  let ?x = "word_of_nat s + word_of_nat n :: u64"
  have "vm_region ?M ?x = Some (word_of_nat s', word_of_nat n', p')" using r assms(6) by (simp add: vm_region_def)
  moreover have "adr + sz > ?x" using r e assms(6,7) by (simp add: word_less_nat_alt)
  moreover have "\<not> adr + sz \<le> word_of_nat s'" using r' e assms(7) by (simp add: word_le_nat_alt)
  moreover have "region_loop (vm_region ?M) (adr + sz) acc (word_of_nat s') (word_of_nat n') = Some 0"
    using r' e assms(8) by (simp add: region_loop.simps word_less_nat_alt)
  ultimately have "region_loop (vm_region ?M) (adr + sz) acc (word_of_nat s) (word_of_nat n) = Some 0"
    using assms(3) by (simp add: region_loop.simps [of _ _ _ "word_of_nat s"])
  moreover have "vm_region ?M adr = Some (word_of_nat s, word_of_nat n, p)" using assms(5) by (simp add: vm_region_def)
  moreover have "\<not> adr < word_of_nat s" using r assms(4) by (simp add: word_less_nat_alt)
  ultimately show ?thesis using assms(2,6) by (simp add: mpls_check_access_def Let_def accessible_def)
qed

theorem check_access_misses_gap_witness:
  "mpls_check_access (vm_region [(4096, 4096, 3), (12288, 4096, 3)]) 4096 5000 8000 2 None = Some 0
    \<and> \<not> accessible [(4096, 4096, 3), (12288, 4096, 3)] 2 8192"
proof -
  have "regions_ok [(4096, 4096, 3), (12288, 4096, 3)]" by (simp add: regions_ok_def)
  from check_access_misses_gap [OF this, of 2 5000 8000 4096] show ?thesis by simp
qed

end
