(* ===== verification/Stat_Conv.thy ===== *)
theory Stat_Conv
  imports Access_Check
begin

text \<open>
  The repairs of the file status functions (\<open>src/statxx.c\<close>): clearing the nanoseconds that 10.4 leaves undefined on
  ppc64, the swapped descriptor of \<open>fstatx_np\<close> under the Rosetta of 10.4, and the variants with 64-bit file numbers.
  The functions of the system are parameters: a call yields its result, the buffer it filled and \<open>errno\<close>.
\<close>

record timespec_t =
  ts_sec :: int
  ts_nsec :: int

record stat_t =
  st_dev :: u32
  st_ino :: u32
  st_mode :: u16
  st_nlink :: u16
  st_uid :: u32
  st_gid :: u32
  st_rdev :: u32
  st_atimespec :: timespec_t
  st_mtimespec :: timespec_t
  st_ctimespec :: timespec_t
  st_size :: u64
  st_blocks :: u64
  st_blksize :: u32
  st_flags :: u32
  st_gen :: u32
  st_lspare :: u32
  st_qspare :: "u64 \<times> u64"

record stat64_t =
  s64_dev :: u32
  s64_mode :: u16
  s64_nlink :: u16
  s64_ino :: u64
  s64_uid :: u32
  s64_gid :: u32
  s64_rdev :: u32
  s64_atimespec :: timespec_t
  s64_mtimespec :: timespec_t
  s64_ctimespec :: timespec_t
  s64_birthtimespec :: timespec_t
  s64_size :: u64
  s64_blocks :: u64
  s64_blksize :: u32
  s64_flags :: u32
  s64_gen :: u32
  s64_lspare :: u32
  s64_qspare :: "u64 \<times> u64"

text \<open>What a call leaves: its result, its buffer, \<open>errno\<close>.\<close>

type_synonym 'b call = "int \<times> 'b \<times> errno"

section \<open>10.4 on ppc64\<close>

definition fix_stat :: "int \<Rightarrow> stat_t \<Rightarrow> int \<times> stat_t" where
  "fix_stat result buf =
     (if result \<noteq> 0 then (result, buf)
      else (0, buf\<lparr>st_atimespec := (st_atimespec buf)\<lparr>ts_nsec := 0\<rparr>, st_mtimespec := (st_mtimespec buf)\<lparr>ts_nsec := 0\<rparr>,
                   st_ctimespec := (st_ctimespec buf)\<lparr>ts_nsec := 0\<rparr>\<rparr>))"

text \<open>The wrappers \<open>stat\<close>, \<open>lstat\<close>, \<open>fstat\<close> and their \<open>statx_np\<close> counterparts apply it to the system's function.\<close>

definition fixed_call :: "('a \<Rightarrow> stat_t call) \<Rightarrow> 'a \<Rightarrow> stat_t call" where
  "fixed_call os_fun arg = (let (r, buf, e) = os_fun arg; (r, buf) = fix_stat r buf in (r, buf, e))"

definition stat_fixed :: "(string \<Rightarrow> stat_t call) \<Rightarrow> string \<Rightarrow> stat_t call" where
  "stat_fixed os_stat path = fixed_call os_stat path"

definition lstat_fixed :: "(string \<Rightarrow> stat_t call) \<Rightarrow> string \<Rightarrow> stat_t call" where
  "lstat_fixed os_lstat path = fixed_call os_lstat path"

definition fstat_fixed :: "(u32 \<Rightarrow> stat_t call) \<Rightarrow> u32 \<Rightarrow> stat_t call" where
  "fstat_fixed os_fstat fildes = fixed_call os_fstat fildes"

definition statx_np_fixed :: "(string \<Rightarrow> 'f \<Rightarrow> stat_t call) \<Rightarrow> string \<Rightarrow> 'f \<Rightarrow> stat_t call" where
  "statx_np_fixed os_statx_np path fsec = fixed_call (\<lambda>(p, f). os_statx_np p f) (path, fsec)"

definition lstatx_np_fixed :: "(string \<Rightarrow> 'f \<Rightarrow> stat_t call) \<Rightarrow> string \<Rightarrow> 'f \<Rightarrow> stat_t call" where
  "lstatx_np_fixed os_lstatx_np path fsec = fixed_call (\<lambda>(p, f). os_lstatx_np p f) (path, fsec)"

definition fstatx_np_fixed :: "(u32 \<Rightarrow> 'f \<Rightarrow> stat_t call) \<Rightarrow> u32 \<Rightarrow> 'f \<Rightarrow> stat_t call" where
  "fstatx_np_fixed os_fstatx_np fildes fsec = fixed_call (\<lambda>(d, f). os_fstatx_np d f) (fildes, fsec)"

section \<open>The Rosetta of 10.4\<close>

text \<open>\<open>native\<close> is the answer of the sysctl, if it succeeds; \<open>has_copyfile_init\<close> whether the symbol is found.\<close>

definition is_tiger_rosetta :: "int option \<Rightarrow> bool \<Rightarrow> int" where
  "is_tiger_rosetta native has_copyfile_init =
     (case native of
        None \<Rightarrow> -1
      | Some n \<Rightarrow> if n \<noteq> 0 then -1 else if has_copyfile_init then 1 else -1)"

definition OSSwapInt32 :: "u32 \<Rightarrow> u32" where
  "OSSwapInt32 x = push_bit 24 (x AND 0xFF) OR push_bit 8 (x AND 0xFF00) OR (drop_bit 8 x AND 0xFF00) OR drop_bit 24 x"

text \<open>With the static variable \<open>tiger_rosetta\<close> passed and returned.\<close>

definition fstatx_np :: "(u32 \<Rightarrow> 'f option \<Rightarrow> stat_t call) \<Rightarrow> int option \<Rightarrow> bool \<Rightarrow> int \<Rightarrow> u32 \<Rightarrow> 'f option \<Rightarrow> stat_t call \<times> int" where
  "fstatx_np os_fstatx_np native has_copyfile_init tiger_rosetta fildes fsec =
     (if tiger_rosetta < 0 \<or> fsec = None then (os_fstatx_np fildes fsec, tiger_rosetta)
      else (let tiger_rosetta = (if tiger_rosetta = 0 then is_tiger_rosetta native has_copyfile_init else tiger_rosetta)
            in (os_fstatx_np (if tiger_rosetta \<ge> 0 then OSSwapInt32 fildes else fildes) fsec, tiger_rosetta)))"

section \<open>The variants with 64-bit file numbers\<close>

text \<open>The buffer holds the narrow structure until it is converted.\<close>

datatype stat_buf = Narrow stat_t | Wide stat64_t

definition ts_before :: "timespec_t \<Rightarrow> timespec_t \<Rightarrow> bool" where
  "ts_before a b \<longleftrightarrow> ts_sec a < ts_sec b \<or> (ts_sec a = ts_sec b \<and> ts_nsec a < ts_nsec b)"

text \<open>\<open>writable\<close> is the result of the access check of the rest of the buffer.\<close>

definition convert_stat :: "int \<Rightarrow> int \<Rightarrow> stat_t \<Rightarrow> errno \<Rightarrow> stat_buf call" where
  "convert_stat writable result s e =
     (if result \<noteq> 0 then (result, Narrow s, e)
      else if writable \<noteq> 0 then (-1, Narrow s, EFAULT)
      else (result, Wide \<lparr>
        s64_dev = st_dev s, s64_mode = st_mode s, s64_nlink = st_nlink s, s64_ino = ucast (st_ino s),
        s64_uid = st_uid s, s64_gid = st_gid s, s64_rdev = st_rdev s,
        s64_atimespec = st_atimespec s, s64_mtimespec = st_mtimespec s, s64_ctimespec = st_ctimespec s,
        s64_birthtimespec = (if ts_before (st_ctimespec s) (st_mtimespec s) then st_ctimespec s else st_mtimespec s),
        s64_size = st_size s, s64_blocks = st_blocks s, s64_blksize = st_blksize s, s64_flags = st_flags s,
        s64_gen = st_gen s, s64_lspare = st_lspare s, s64_qspare = st_qspare s\<rparr>, e))"

definition wide_call :: "int \<Rightarrow> ('a \<Rightarrow> stat_t call) \<Rightarrow> 'a \<Rightarrow> stat_buf call" where
  "wide_call writable f arg = (let (r, buf, e) = f arg in convert_stat writable r buf e)"

definition stat_INODE64 :: "int \<Rightarrow> (string \<Rightarrow> stat_t call) \<Rightarrow> string \<Rightarrow> stat_buf call" where
  "stat_INODE64 writable stat path = wide_call writable stat path"

definition lstat_INODE64 :: "int \<Rightarrow> (string \<Rightarrow> stat_t call) \<Rightarrow> string \<Rightarrow> stat_buf call" where
  "lstat_INODE64 writable lstat path = wide_call writable lstat path"

definition fstat_INODE64 :: "int \<Rightarrow> (u32 \<Rightarrow> stat_t call) \<Rightarrow> u32 \<Rightarrow> stat_buf call" where
  "fstat_INODE64 writable fstat fildes = wide_call writable fstat fildes"

definition statx_np_INODE64 :: "int \<Rightarrow> (string \<Rightarrow> 'f \<Rightarrow> stat_t call) \<Rightarrow> string \<Rightarrow> 'f \<Rightarrow> stat_buf call" where
  "statx_np_INODE64 writable statx_np path fsec = wide_call writable (\<lambda>(p, f). statx_np p f) (path, fsec)"

definition lstatx_np_INODE64 :: "int \<Rightarrow> (string \<Rightarrow> 'f \<Rightarrow> stat_t call) \<Rightarrow> string \<Rightarrow> 'f \<Rightarrow> stat_buf call" where
  "lstatx_np_INODE64 writable lstatx_np path fsec = wide_call writable (\<lambda>(p, f). lstatx_np p f) (path, fsec)"

definition fstatx_np_INODE64 :: "int \<Rightarrow> (u32 \<Rightarrow> 'f \<Rightarrow> stat_t call) \<Rightarrow> u32 \<Rightarrow> 'f \<Rightarrow> stat_buf call" where
  "fstatx_np_INODE64 writable fstatx fildes fsec = wide_call writable (\<lambda>(d, f). fstatx d f) (fildes, fsec)"

definition stat64 :: "int \<Rightarrow> (string \<Rightarrow> stat_t call) \<Rightarrow> string \<Rightarrow> stat_buf call" where
  "stat64 writable stat path = wide_call writable stat path"

definition lstat64 :: "int \<Rightarrow> (string \<Rightarrow> stat_t call) \<Rightarrow> string \<Rightarrow> stat_buf call" where
  "lstat64 writable lstat path = wide_call writable lstat path"

definition fstat64 :: "int \<Rightarrow> (u32 \<Rightarrow> stat_t call) \<Rightarrow> u32 \<Rightarrow> stat_buf call" where
  "fstat64 writable fstat fildes = wide_call writable fstat fildes"

definition statx64_np :: "int \<Rightarrow> (string \<Rightarrow> 'f \<Rightarrow> stat_t call) \<Rightarrow> string \<Rightarrow> 'f \<Rightarrow> stat_buf call" where
  "statx64_np writable statx_np path fsec = wide_call writable (\<lambda>(p, f). statx_np p f) (path, fsec)"

definition lstatx64_np :: "int \<Rightarrow> (string \<Rightarrow> 'f \<Rightarrow> stat_t call) \<Rightarrow> string \<Rightarrow> 'f \<Rightarrow> stat_buf call" where
  "lstatx64_np writable lstatx_np path fsec = wide_call writable (\<lambda>(p, f). lstatx_np p f) (path, fsec)"

definition fstatx64_np :: "int \<Rightarrow> (u32 \<Rightarrow> 'f \<Rightarrow> stat_t call) \<Rightarrow> u32 \<Rightarrow> 'f \<Rightarrow> stat_buf call" where
  "fstatx64_np writable fstatx fildes fsec = wide_call writable (\<lambda>(d, f). fstatx d f) (fildes, fsec)"

section \<open>Lemmas\<close>

lemma bit_OSSwapInt32:
  assumes "n < 32"
  shows "bit (OSSwapInt32 x) n = bit x (if n < 8 then n + 24 else if n < 16 then n + 8 else if n < 24 then n - 8 else n - 24)"
proof -
  have "OSSwapInt32 x = push_bit 24 (x AND mask 8) OR push_bit 8 (x AND push_bit 8 (mask 8))
      OR (drop_bit 8 x AND push_bit 8 (mask 8)) OR drop_bit 24 x"
    by (simp add: OSSwapInt32_def mask_eq_exp_minus_1)
  then show ?thesis using assms
    by (auto simp: bit_simps add.commute dest: bit_imp_le_length)
qed

lemma OSSwapInt32_twice: "OSSwapInt32 (OSSwapInt32 x) = x"
proof (rule bit_word_eqI)
  fix n assume "n < LENGTH(32)"
  then consider "n < 8" | "8 \<le> n" "n < 16" | "16 \<le> n" "n < 24" | "24 \<le> n" "n < 32" by fastforce
  then show "bit (OSSwapInt32 (OSSwapInt32 x)) n = bit x n"
  proof cases
    case 3
    then obtain k where "n = 16 + k" using le_Suc_ex by blast
    with 3 show ?thesis by (simp add: bit_OSSwapInt32)
  next
    case 4
    then obtain k where "n = 24 + k" using le_Suc_ex by blast
    with 4 show ?thesis by (simp add: bit_OSSwapInt32 add.commute)
  qed (simp_all add: bit_OSSwapInt32)
qed

lemma wide_number: "ucast (ucast x :: u64) = (x :: u32)" "unat (ucast x :: u64) = unat x"
  using unat_less_32 [of x] by (simp_all add: unsigned_ucast_eq take_bit_nat_eq_self take_bit_word_eq_self)

text \<open>The narrow structure a wide one was made of.\<close>

definition narrow :: "stat64_t \<Rightarrow> stat_t" where
  "narrow w = \<lparr>st_dev = s64_dev w, st_ino = ucast (s64_ino w), st_mode = s64_mode w, st_nlink = s64_nlink w, st_uid = s64_uid w,
     st_gid = s64_gid w, st_rdev = s64_rdev w, st_atimespec = s64_atimespec w, st_mtimespec = s64_mtimespec w,
     st_ctimespec = s64_ctimespec w, st_size = s64_size w, st_blocks = s64_blocks w, st_blksize = s64_blksize w,
     st_flags = s64_flags w, st_gen = s64_gen w, st_lspare = s64_lspare w, st_qspare = s64_qspare w\<rparr>"

section \<open>Properties\<close>

text \<open>The conversion to the wide structure loses nothing: the narrow one can be read back from it, the file number is
  the same number, and the birth time it invents is the earlier of change and modification time.\<close>

theorem convert_stat_roundtrip:
  "\<exists>w. convert_stat 0 0 s e = (0, Wide w, e) \<and> narrow w = s \<and> unat (s64_ino w) = unat (st_ino s)
     \<and> s64_birthtimespec w \<in> {st_ctimespec s, st_mtimespec s}
     \<and> \<not> ts_before (st_ctimespec s) (s64_birthtimespec w) \<and> \<not> ts_before (st_mtimespec s) (s64_birthtimespec w)"
  by (cases s) (simp add: convert_stat_def narrow_def ts_before_def wide_number)

text \<open>On every system, and from the first call on, \<open>fstatx_np\<close> delivers what a correct \<open>fstatx_np\<close> would: it undoes
  the swapped descriptor of the Rosetta of 10.4 exactly where the system swaps it.\<close>

theorem fstatx_np_correct:
  assumes "\<And>d. os_fun d None = good d None"
    and "\<And>d f. os_fun d (Some f) = good (if is_tiger_rosetta native found = 1 then OSSwapInt32 d else d) (Some f)"
    and "tr \<in> {0, is_tiger_rosetta native found}"
  shows "fst (fstatx_np os_fun native found tr d fsec) = good d fsec
    \<and> snd (fstatx_np os_fun native found tr d fsec) \<in> {0, is_tiger_rosetta native found}"
proof -
  have "is_tiger_rosetta native found \<in> {-1, 1}" by (auto simp: is_tiger_rosetta_def split: option.split)
  then show ?thesis using assms
    by (cases fsec) (auto simp: fstatx_np_def Let_def OSSwapInt32_twice)
qed

theorem fstatx_np_correct_witness:
  "fst (fstatx_np (\<lambda>d f. (if f = None then uint d else uint (OSSwapInt32 d), s, EINVAL)) (Some 0) True 0 5 (Some ())) = (5, s, EINVAL)"
  using fstatx_np_correct [of "\<lambda>d f. (if f = None then uint d else uint (OSSwapInt32 d), s, EINVAL)" "\<lambda>d f. (uint d, s, EINVAL)"
      "Some 0" True 0 5 "Some ()"]
  by (simp add: is_tiger_rosetta_def)

end
