(* ===== verification/File_Attributes.thy ===== *)
theory File_Attributes
  imports At_Calls Clocks
begin

text \<open>
  Setting file attributes: the repair of \<open>setattrlist\<close> (\<open>src/setattrlist.c\<close>), the descriptor versions made from paths
  (\<open>src/fxetattrlist.c\<close>), \<open>futimens\<close> and \<open>utimensat\<close> (\<open>src/utimensat.c\<close>), \<open>lutimes\<close> (\<open>src/lutimes.c\<close>) and \<open>lchmod\<close>
  (\<open>src/lchmod.c\<close>).  The functions of the system are parameters: a call takes \<open>errno\<close> and the state of the files and
  returns its result and both of them.
\<close>

record attrlist =
  bitmapcount :: u16
  commonattr :: u32
  volattr :: u32
  dirattr :: u32
  fileattr :: u32
  forkattr :: u32

definition ATTR_BIT_MAP_COUNT :: u16 where "ATTR_BIT_MAP_COUNT = 5"
definition ATTR_CMN_MODTIME :: u32 where "ATTR_CMN_MODTIME = 0x400"
definition ATTR_CMN_ACCTIME :: u32 where "ATTR_CMN_ACCTIME = 0x1000"
definition ATTR_CMN_ACCESSMASK :: u32 where "ATTR_CMN_ACCESSMASK = 0x20000"
definition ATTR_VOL_INFO :: u32 where "ATTR_VOL_INFO = 0x80000000"
definition FSOPT_NOFOLLOW :: u32 where "FSOPT_NOFOLLOW = 1"

definition zero_attrlist :: attrlist where
  "zero_attrlist = \<lparr>bitmapcount = 0, commonattr = 0, volattr = 0, dirattr = 0, fileattr = 0, forkattr = 0\<rparr>"

type_synonym ('t, 'b, 'w) set_fun = "'t \<Rightarrow> attrlist \<Rightarrow> 'b \<Rightarrow> size_t \<Rightarrow> u32 \<Rightarrow> errno \<times> 'w \<Rightarrow> int \<times> errno \<times> 'w"

section \<open>The empty request\<close>

definition empty_request :: "attrlist \<Rightarrow> size_t \<Rightarrow> bool" where
  "empty_request al bufsiz \<longleftrightarrow> bufsiz = 0 \<and> commonattr al = 0 \<and> volattr al AND NOT ATTR_VOL_INFO = 0
     \<and> dirattr al = 0 \<and> fileattr al = 0 \<and> forkattr al = 0"

text \<open>\<open>e\<close> is \<open>errno\<close> as the failed call left it.\<close>

definition fix_ret :: "int \<Rightarrow> errno \<Rightarrow> attrlist \<Rightarrow> size_t \<Rightarrow> errno \<Rightarrow> int \<times> errno" where
  "fix_ret ret saverr al bufsiz e = (if empty_request al bufsiz then (0, saverr) else (ret, e))"

text \<open>The body the three wrappers share.\<close>

definition fixed_set :: "('t, 'b, 'w) set_fun \<Rightarrow> ('t, 'b, 'w) set_fun" where
  "fixed_set os_fun t attrList attrBuf attrBufSize options st =
     (let saverr = fst st; (ret, e, w) = os_fun t attrList attrBuf attrBufSize options st
      in if ret = 0 \<or> e \<noteq> ENOMEM then (ret, e, w)
         else (let (r, e) = fix_ret ret saverr attrList attrBufSize e in (r, e, w)))"

definition setattrlist :: "(string, 'b, 'w) set_fun \<Rightarrow> (string, 'b, 'w) set_fun" where
  "setattrlist os_setattrlist path = fixed_set os_setattrlist path"

definition setattrlist_UNIX2003 :: "(string, 'b, 'w) set_fun \<Rightarrow> (string, 'b, 'w) set_fun" where
  "setattrlist_UNIX2003 os_setattrlist path = fixed_set os_setattrlist path"

definition fsetattrlist :: "(int, 'b, 'w) set_fun \<Rightarrow> (int, 'b, 'w) set_fun" where
  "fsetattrlist os_fsetattrlist fd = fixed_set os_fsetattrlist fd"

section \<open>The descriptor versions made from paths\<close>

text \<open>\<open>fcntl(F_GETPATH)\<close>: its result, the path it stored, and \<open>errno\<close>.\<close>

definition fgetattrlist_path :: "(int \<Rightarrow> errno \<times> 'w \<Rightarrow> (int \<times> string) \<times> errno \<times> 'w) \<Rightarrow> (string, 'b, 'w) set_fun \<Rightarrow> (int, 'b, 'w) set_fun" where
  "fgetattrlist_path getpath getattrlist fd attrList attrBuf attrBufSize options st =
     (let ((ret, fpath), st) = getpath fd st
      in if ret \<noteq> 0 then (ret, st) else getattrlist fpath attrList attrBuf attrBufSize options st)"

definition fsetattrlist_path :: "(int \<Rightarrow> errno \<times> 'w \<Rightarrow> (int \<times> string) \<times> errno \<times> 'w) \<Rightarrow> (string, 'b, 'w) set_fun \<Rightarrow> (int, 'b, 'w) set_fun" where
  "fsetattrlist_path getpath setattrlist_fun fd attrList attrBuf attrBufSize options st =
     (let ((ret, fpath), st) = getpath fd st
      in if ret \<noteq> 0 then (ret, st) else setattrlist_fun fpath attrList attrBuf attrBufSize options st)"

section \<open>utimensat.c\<close>

definition UTIME_NOW :: u64 where "UTIME_NOW = -1"
definition UTIME_OMIT :: u64 where "UTIME_OMIT = -2"

definition times_now :: "timespec \<times> timespec" where
  "times_now = (\<lparr>tv_sec = 0, tv_nsec = UTIME_NOW\<rparr>, \<lparr>tv_sec = 0, tv_nsec = UTIME_NOW\<rparr>)"

text \<open>\<open>now\<close> is what \<open>clock_gettime(CLOCK_REALTIME)\<close> stores; \<open>out\<close> and \<open>sz\<close> are the caller's array and size.\<close>

definition prepare_times_array_and_attrs :: "timespec \<Rightarrow> timespec \<times> timespec \<Rightarrow> timespec list \<Rightarrow> size_t \<Rightarrow> u32 \<times> timespec list \<times> size_t" where
  "prepare_times_array_and_attrs now times_in out sz =
     (let (a, m) = times_in
      in if tv_nsec a = UTIME_OMIT \<and> tv_nsec m = UTIME_OMIT then (0, out, sz)
         else (let a = (if tv_nsec a = UTIME_NOW then now else a);
                   m = (if tv_nsec m = UTIME_NOW then now else m);
                   (attrs, out, cursor, sz) = (if tv_nsec m \<noteq> UTIME_OMIT then (ATTR_CMN_MODTIME, out[0 := m], 1, 16) else (0, out, 0, 0));
                   (attrs, out, sz) = (if tv_nsec a \<noteq> UTIME_OMIT then (attrs OR ATTR_CMN_ACCTIME, out[cursor := a], sz + 16) else (attrs, out, sz))
               in (attrs, out, sz)))"

definition time_zero :: timespec where "time_zero = \<lparr>tv_sec = 0, tv_nsec = 0\<rparr>"

definition futimens :: "(int, timespec list, 'w) set_fun \<Rightarrow> timespec \<Rightarrow> int \<Rightarrow> (timespec \<times> timespec) option \<Rightarrow> errno \<times> 'w \<Rightarrow> int \<times> errno \<times> 'w" where
  "futimens fsetattrlist_fun now fd tms st =
     (let times_in = (case tms of Some t \<Rightarrow> t | None \<Rightarrow> times_now);
          (attrs, times_out, attrbuf_size) = prepare_times_array_and_attrs now times_in [time_zero, time_zero] 0
      in fsetattrlist_fun fd (zero_attrlist\<lparr>bitmapcount := ATTR_BIT_MAP_COUNT, commonattr := attrs\<rparr>) times_out attrbuf_size 0 st)"

definition utimensat :: "(int \<times> string, timespec list, 'w) set_fun \<Rightarrow> timespec \<Rightarrow> int \<Rightarrow> string \<Rightarrow> (timespec \<times> timespec) option \<Rightarrow> u32 \<Rightarrow> errno \<times> 'w \<Rightarrow> int \<times> errno \<times> 'w" where
  "utimensat setattrlistat_fun now fd path tms flags st =
     (let times_in = (case tms of Some t \<Rightarrow> t | None \<Rightarrow> times_now);
          (attrs, times_out, attrbuf_size) = prepare_times_array_and_attrs now times_in [time_zero, time_zero] 0;
          flags_out = (if flags AND AT_SYMLINK_NOFOLLOW \<noteq> 0 then FSOPT_NOFOLLOW else 0)
      in setattrlistat_fun (fd, path) (zero_attrlist\<lparr>bitmapcount := ATTR_BIT_MAP_COUNT, commonattr := attrs\<rparr>) times_out attrbuf_size flags_out st)"

section \<open>lutimes.c and lchmod.c\<close>


text \<open>\<open>None\<close> is an overflow in the conversion of a time.\<close>

definition lutimes :: "(string \<Rightarrow> errno \<times> 'w \<Rightarrow> (int \<times> u16) \<times> errno \<times> 'w) \<Rightarrow> (string \<Rightarrow> (timeval \<times> timeval) option \<Rightarrow> errno \<times> 'w \<Rightarrow> int \<times> errno \<times> 'w)
    \<Rightarrow> (errno \<times> 'w \<Rightarrow> (int \<times> timeval) \<times> errno \<times> 'w) \<Rightarrow> (string, timespec list, 'w) set_fun
    \<Rightarrow> string \<Rightarrow> (timeval \<times> timeval) option \<Rightarrow> errno \<times> 'w \<Rightarrow> (int \<times> errno \<times> 'w) option" where
  "lutimes lstat utimes gettimeofday set_fun path tms st =
     (let ((r, mode), st) = lstat path st
      in if r < 0 then Some (-1, st)
         else if mode AND S_IFMT \<noteq> S_IFLNK then Some (utimes path tms st)
         else (let a = zero_attrlist\<lparr>bitmapcount := ATTR_BIT_MAP_COUNT, commonattr := ATTR_CMN_MODTIME OR ATTR_CMN_ACCTIME\<rparr>
               in case tms of
                    Some (t0, t1) \<Rightarrow>
                      do { acc \<leftarrow> TIMEVAL_TO_TIMESPEC t0; md \<leftarrow> TIMEVAL_TO_TIMESPEC t1;
                           Some (set_fun path a [md, acc] 32 FSOPT_NOFOLLOW st) }
                  | None \<Rightarrow>
                      (let ((r, now), st) = gettimeofday st
                       in if r < 0 then Some (-1, st)
                          else do { acc \<leftarrow> TIMEVAL_TO_TIMESPEC now; md \<leftarrow> TIMEVAL_TO_TIMESPEC now;
                                    Some (set_fun path a [md, acc] 32 FSOPT_NOFOLLOW st) })))"

definition lchmod :: "(string \<Rightarrow> errno \<times> 'w \<Rightarrow> (int \<times> u16) \<times> errno \<times> 'w) \<Rightarrow> (string \<Rightarrow> u16 \<Rightarrow> errno \<times> 'w \<Rightarrow> int \<times> errno \<times> 'w)
    \<Rightarrow> (string, u32, 'w) set_fun \<Rightarrow> string \<Rightarrow> u16 \<Rightarrow> errno \<times> 'w \<Rightarrow> int \<times> errno \<times> 'w" where
  "lchmod lstat chmod set_fun path mode st =
     (let ((r, st_mode), st) = lstat path st
      in if r < 0 then (-1, st)
         else if st_mode AND S_IFMT \<noteq> S_IFLNK then chmod path mode st
         else set_fun path (zero_attrlist\<lparr>bitmapcount := ATTR_BIT_MAP_COUNT, commonattr := ATTR_CMN_ACCESSMASK\<rparr>) (ucast mode) 4 FSOPT_NOFOLLOW st)"

section \<open>The documented effect of setting times\<close>

record ftimes =
  f_atime :: timespec
  f_mtime :: timespec

text \<open>The attribute buffer holds the requested attributes in the order of their bits.\<close>

definition apply_times :: "u32 \<Rightarrow> timespec list \<Rightarrow> ftimes \<Rightarrow> ftimes" where
  "apply_times attrs ts f =
     (let (f, ts) = (if attrs AND ATTR_CMN_MODTIME \<noteq> 0 then (f\<lparr>f_mtime := hd ts\<rparr>, tl ts) else (f, ts))
      in if attrs AND ATTR_CMN_ACCTIME \<noteq> 0 then f\<lparr>f_atime := hd ts\<rparr> else f)"

text \<open>\<open>find t opts\<close> is the file a target names, \<open>n\<close> of the buffer count.\<close>

definition kernel_set :: "('t \<Rightarrow> u32 \<Rightarrow> errno + 'i) \<Rightarrow> ('t, timespec list, 'i \<Rightarrow> ftimes) set_fun" where
  "kernel_set find_file t al b n opts st =
     (case find_file t opts of
        Inl e \<Rightarrow> (-1, e, snd st)
      | Inr i \<Rightarrow> (0, fst st, (snd st)(i := apply_times (commonattr al) (take (unat n div 16) b) (snd st i))))"

text \<open>The same with the fault of 10.5 to 10.7.\<close>

definition faulty :: "bool \<Rightarrow> ('t, 'b, 'w) set_fun \<Rightarrow> ('t, 'b, 'w) set_fun" where
  "faulty bug good t al b n opts st =
     (if bug \<and> empty_request al n \<and> fst (good t al b n opts st) = 0 then (-1, ENOMEM, snd st) else good t al b n opts st)"

definition new_time :: "timespec \<Rightarrow> timespec \<Rightarrow> timespec \<Rightarrow> timespec" where
  "new_time now t old = (if tv_nsec t = UTIME_NOW then now else if tv_nsec t = UTIME_OMIT then old else t)"

lemma fixed_set_faulty:
  assumes "empty_request al n \<Longrightarrow> (case good t al b n opts st of (r, e, w) \<Rightarrow> if r = 0 then (e, w) = st else e \<noteq> ENOMEM)"
  shows "fixed_set (faulty bug good) t al b n opts st = good t al b n opts st"
  using assms
  by (cases st) (auto simp: fixed_set_def faulty_def fix_ret_def Let_def split: prod.splits if_splits)

text \<open>What a request prepared from two times does to a file.\<close>

lemma prepared_times:
  assumes "tv_nsec now \<noteq> UTIME_OMIT" and p: "prepare_times_array_and_attrs now (a, m) [time_zero, time_zero] 0 = (attrs, out, n)"
  shows "apply_times attrs (take (unat n div 16) out) f = \<lparr>f_atime = new_time now a (f_atime f), f_mtime = new_time now m (f_mtime f)\<rparr>
    \<and> (n = 0 \<longrightarrow> attrs = 0)"
proof -
  have "UTIME_NOW \<noteq> UTIME_OMIT" by (simp add: UTIME_NOW_def UTIME_OMIT_def)
  moreover have "ATTR_CMN_MODTIME AND ATTR_CMN_MODTIME \<noteq> 0" "ATTR_CMN_ACCTIME AND ATTR_CMN_MODTIME = 0" "ATTR_CMN_MODTIME AND ATTR_CMN_ACCTIME = 0"
    "ATTR_CMN_ACCTIME \<noteq> 0" "(ATTR_CMN_MODTIME OR ATTR_CMN_ACCTIME) AND ATTR_CMN_MODTIME \<noteq> 0"
    "(ATTR_CMN_MODTIME OR ATTR_CMN_ACCTIME) AND ATTR_CMN_ACCTIME \<noteq> 0"
    by (simp_all add: ATTR_CMN_MODTIME_def ATTR_CMN_ACCTIME_def)
  ultimately show ?thesis using assms
    by (cases f) (auto simp: prepare_times_array_and_attrs_def apply_times_def new_time_def split: if_splits)
qed

section \<open>Properties\<close>

text \<open>On systems with and without the fault, the wrapped \<open>setattrlist\<close> behaves as the correct one, which accepts an
  empty request without doing anything.\<close>

theorem setattrlist_repaired:
  assumes "empty_request al n \<Longrightarrow> (case good path al b n opts st of (r, e, w) \<Rightarrow> if r = 0 then (e, w) = st else e \<noteq> ENOMEM)"
  shows "setattrlist (faulty bug good) path al b n opts st = good path al b n opts st"
  unfolding setattrlist_def by (rule fixed_set_faulty) (rule assms)

theorem setattrlist_repaired_witness:
  "setattrlist (faulty True (\<lambda>p al b n opts st. (0, st))) ''x'' zero_attrlist () 0 0 (EINTR, w) = (0, EINTR, w)"
  using setattrlist_repaired [where al = zero_attrlist and n = 0 and good = "\<lambda>p al b n opts st. (0, st)" and path = "''x''" and b = "()"
      and opts = 0 and st = "(EINTR, w)" and bug = True] by simp

text \<open>C25: \<open>futimens\<close>, on top of the wrapped \<open>fsetattrlist\<close> of a faulty or sound system, gives the file of the descriptor
  the two times asked for, with \<open>UTIME_NOW\<close> and \<open>UTIME_OMIT\<close> resolved, and changes nothing else.\<close>

theorem futimens_correct:
  assumes "tv_nsec now \<noteq> UTIME_OMIT" and "find_file fd 0 = Inr i"
  shows "futimens (fsetattrlist (faulty bug (kernel_set find_file))) now fd (Some (a, m)) (e, w)
    = (0, e, w(i := \<lparr>f_atime = new_time now a (f_atime (w i)), f_mtime = new_time now m (f_mtime (w i))\<rparr>))"
proof -
  obtain attrs out n where p: "prepare_times_array_and_attrs now (a, m) [time_zero, time_zero] 0 = (attrs, out, n)"
    by (cases "prepare_times_array_and_attrs now (a, m) [time_zero, time_zero] 0")
  note t = prepared_times [OF assms(1) p, of "w i"]
  let ?al = "zero_attrlist\<lparr>bitmapcount := ATTR_BIT_MAP_COUNT, commonattr := attrs\<rparr>"
  have k: "kernel_set find_file fd ?al out n 0 (e, w)
      = (0, e, w(i := \<lparr>f_atime = new_time now a (f_atime (w i)), f_mtime = new_time now m (f_mtime (w i))\<rparr>))"
    using assms(2) t by (simp add: kernel_set_def)
  have "fixed_set (faulty bug (kernel_set find_file)) fd ?al out n 0 (e, w) = kernel_set find_file fd ?al out n 0 (e, w)"
  proof (rule fixed_set_faulty)
    assume "empty_request ?al n"
    then have "attrs = 0" by (simp add: empty_request_def)
    then have "kernel_set find_file fd ?al out n 0 (e, w) = (0, e, w)"
      using assms(2) by (simp add: kernel_set_def apply_times_def)
    then show "case kernel_set find_file fd ?al out n 0 (e, w) of (r, e', w') \<Rightarrow> if r = 0 then (e', w') = (e, w) else e' \<noteq> ENOMEM"
      by simp
  qed
  then show ?thesis by (simp add: futimens_def fsetattrlist_def p k)
qed

theorem futimens_correct_witness:
  "futimens (fsetattrlist (faulty True (kernel_set (\<lambda>t opts. Inr ())))) \<lparr>tv_sec = 9, tv_nsec = 5\<rparr> 3
      (Some (\<lparr>tv_sec = 1, tv_nsec = UTIME_OMIT\<rparr>, \<lparr>tv_sec = 1, tv_nsec = UTIME_NOW\<rparr>))
      (EINTR, \<lambda>_. \<lparr>f_atime = time_zero, f_mtime = time_zero\<rparr>)
    = (0, EINTR, (\<lambda>_. \<lparr>f_atime = time_zero, f_mtime = \<lparr>tv_sec = 9, tv_nsec = 5\<rparr>\<rparr>))"
  using futimens_correct [of "\<lparr>tv_sec = 9, tv_nsec = 5\<rparr>" "\<lambda>t opts. Inr ()" 3 "()" True "\<lparr>tv_sec = 1, tv_nsec = UTIME_OMIT\<rparr>"
      "\<lparr>tv_sec = 1, tv_nsec = UTIME_NOW\<rparr>" EINTR "\<lambda>_. \<lparr>f_atime = time_zero, f_mtime = time_zero\<rparr>"]
  by (simp add: UTIME_OMIT_def UTIME_NOW_def new_time_def fun_eq_iff)

text \<open>\<open>utimensat\<close> gives the times to the file named by the path, the symbolic link itself if and only if
  \<open>AT_SYMLINK_NOFOLLOW\<close> is set.\<close>

theorem utimensat_correct:
  assumes "tv_nsec now \<noteq> UTIME_OMIT"
    and "find_file (fd, path) (if flags AND AT_SYMLINK_NOFOLLOW \<noteq> 0 then FSOPT_NOFOLLOW else 0) = Inr i"
  shows "utimensat (kernel_set find_file) now fd path (Some (a, m)) flags (e, w)
    = (0, e, w(i := \<lparr>f_atime = new_time now a (f_atime (w i)), f_mtime = new_time now m (f_mtime (w i))\<rparr>))"
proof -
  obtain attrs out n where p: "prepare_times_array_and_attrs now (a, m) [time_zero, time_zero] 0 = (attrs, out, n)"
    by (cases "prepare_times_array_and_attrs now (a, m) [time_zero, time_zero] 0")
  show ?thesis using assms(2) prepared_times [OF assms(1) p, of "w i"] by (simp add: utimensat_def p kernel_set_def)
qed

theorem utimensat_correct_witness:
  "fst (utimensat (kernel_set (\<lambda>t opts. if opts = FSOPT_NOFOLLOW then Inr () else Inl ENOENT)) time_zero 3 ''l''
     (Some (time_zero, time_zero)) AT_SYMLINK_NOFOLLOW (EINTR, \<lambda>_. \<lparr>f_atime = time_zero, f_mtime = time_zero\<rparr>)) = 0"
  using utimensat_correct [of time_zero "\<lambda>t opts. if opts = FSOPT_NOFOLLOW then Inr () else Inl ENOENT" 3 "''l''" AT_SYMLINK_NOFOLLOW "()"
      time_zero time_zero EINTR "\<lambda>_. \<lparr>f_atime = time_zero, f_mtime = time_zero\<rparr>"]
  by (simp add: UTIME_OMIT_def AT_SYMLINK_NOFOLLOW_def time_zero_def)

text \<open>\<open>lutimes\<close> on a symbolic link gives the link itself the first time as access and the second as modification
  time, at microsecond precision.\<close>

theorem lutimes_link:
  assumes "lstat path (e, w) = ((0, mode), e, w)" and "mode AND S_IFMT = S_IFLNK"
    and "find_file path FSOPT_NOFOLLOW = Inr i"
    and "0 \<le> tv_us t0" and "tv_us t0 < 1000000" and "0 \<le> tv_us t1" and "tv_us t1 < 1000000"
  shows "lutimes lstat utimes gettimeofday (kernel_set find_file) path (Some (t0, t1)) (e, w)
    = Some (0, e, w(i := \<lparr>f_atime = \<lparr>tv_sec = word_of_int (tv_s t0), tv_nsec = word_of_int (tv_us t0 * 1000)\<rparr>,
        f_mtime = \<lparr>tv_sec = word_of_int (tv_s t1), tv_nsec = word_of_int (tv_us t1 * 1000)\<rparr>\<rparr>))"
proof -
  have ts: "TIMEVAL_TO_TIMESPEC t = Some \<lparr>tv_sec = word_of_int (tv_s t), tv_nsec = word_of_int (tv_us t * 1000)\<rparr>"
    if "0 \<le> tv_us t" "tv_us t < 1000000" for t
    using that by (simp add: TIMEVAL_TO_TIMESPEC_def s32_ok)
  have bits: "(ATTR_CMN_MODTIME OR ATTR_CMN_ACCTIME) AND ATTR_CMN_MODTIME \<noteq> 0" "(ATTR_CMN_MODTIME OR ATTR_CMN_ACCTIME) AND ATTR_CMN_ACCTIME \<noteq> 0"
    by (simp_all add: ATTR_CMN_MODTIME_def ATTR_CMN_ACCTIME_def)
  show ?thesis using assms bits by (cases "w i") (simp add: lutimes_def ts kernel_set_def apply_times_def Let_def)
qed

theorem lutimes_link_witness:
  "map_option fst (lutimes (\<lambda>p st. ((0, 0xA1FF), st)) (\<lambda>p t st. (0, st)) (\<lambda>st. ((0, \<lparr>tv_s = 0, tv_us = 0\<rparr>), st))
     (kernel_set (\<lambda>p opts. if opts = FSOPT_NOFOLLOW then Inr () else Inl ENOENT)) ''l''
     (Some (\<lparr>tv_s = 1, tv_us = 2\<rparr>, \<lparr>tv_s = 3, tv_us = 4\<rparr>)) (EINTR, \<lambda>_. \<lparr>f_atime = time_zero, f_mtime = time_zero\<rparr>)) = Some 0"
  using lutimes_link [of "\<lambda>p st. ((0, 0xA1FF), st)" "''l''" EINTR "\<lambda>_. \<lparr>f_atime = time_zero, f_mtime = time_zero\<rparr>" "0xA1FF"
      "\<lambda>p opts. if opts = FSOPT_NOFOLLOW then Inr () else Inl ENOENT" "()" "\<lparr>tv_s = 1, tv_us = 2\<rparr>" "\<lparr>tv_s = 3, tv_us = 4\<rparr>"
      "\<lambda>p t st. (0, st)" "\<lambda>st. ((0, \<lparr>tv_s = 0, tv_us = 0\<rparr>), st)"]
  by (simp add: S_IFMT_def S_IFLNK_def)

end
