(* ===== verification/Sys_Queries.thy ===== *)
theory Sys_Queries
  imports Packet
begin

text \<open>
  Wrappers of system queries: the boot time in the wrong format (\<open>src/sysctl.c\<close>), the selectors \<open>sysconf\<close> lacks
  (\<open>src/sysconf.c\<close>), the stack size of the main thread (\<open>src/pthread_get_stacksize_np.c\<close>), and the functions that only
  pass a call on or refuse it (\<open>src/clonefile.c\<close>, \<open>src/symbol_aliases.c\<close>, \<open>src/pthread_setname_np.c\<close>,
  \<open>src/fsgetpath.c\<close>, \<open>src/sincos.c\<close>, \<open>src/os_unfair_lock.c\<close>, \<open>src/dirfuncs_compat.c\<close>).
\<close>

section \<open>sysctl.c\<close>

text \<open>
  \<open>tvsize\<close> is the size of a \<open>struct timeval\<close> in the build (16 with 64-bit pointers, 8 otherwise), \<open>le\<close> the byte order.
  The object behind \<open>oldp\<close> is a list of bytes; \<open>None\<close> is an access outside it.
\<close>

definition TV32 :: nat where "TV32 = 8"

definition fix_boottime :: "nat \<Rightarrow> bool \<Rightarrow> byte list option \<Rightarrow> nat \<Rightarrow> nat \<Rightarrow> (byte list option \<times> nat) option" where
  "fix_boottime tvsize le oldp oldlen origlen =
     (case oldp of
        Some b \<Rightarrow>
          if origlen \<ge> tvsize \<and> oldlen = TV32 \<and> TV32 < tvsize
          then do { sec \<leftarrow> ld le 4 b 0; usec \<leftarrow> ld le 4 b 4;
                    b \<leftarrow> mblit b 0 (store le 8 sec); b \<leftarrow> mblit b 8 (store le 4 usec);
                    Some (Some b, tvsize) }
          else Some (oldp, oldlen)
      | None \<Rightarrow> Some (oldp, oldlen))"

definition CTL_KERN :: int where "CTL_KERN = 1"
definition KERN_BOOTTIME :: int where "KERN_BOOTTIME = 21"

text \<open>The system's answer: its result, the object behind \<open>oldp\<close> and the length behind \<open>oldlenp\<close>.\<close>

type_synonym answer = "int \<times> byte list option \<times> nat option"

definition finish_boottime :: "nat \<Rightarrow> bool \<Rightarrow> bool \<Rightarrow> nat \<Rightarrow> answer \<Rightarrow> answer option" where
  "finish_boottime tvsize le is_boottime origlen ans =
     (let (ret, oldp, oldlenp) = ans
      in if ret \<noteq> 0 then Some (ret, oldp, oldlenp)
         else if is_boottime
         then (case oldlenp of
                 Some l \<Rightarrow> do { (oldp, l) \<leftarrow> fix_boottime tvsize le oldp l origlen; Some (0, oldp, Some l) }
               | None \<Rightarrow> if oldp \<noteq> None \<and> origlen \<ge> tvsize then None else Some (0, oldp, oldlenp))
         else Some (0, oldp, oldlenp))"

definition sysctl :: "nat \<Rightarrow> bool \<Rightarrow> (int list \<Rightarrow> byte list option \<Rightarrow> nat option \<Rightarrow> answer)
    \<Rightarrow> int list \<Rightarrow> byte list option \<Rightarrow> nat option \<Rightarrow> answer option" where
  "sysctl tvsize le os_sysctl name oldp oldlenp =
     (let origlen = (case oldlenp of Some l \<Rightarrow> l | None \<Rightarrow> 0)
      in finish_boottime tvsize le (length name \<ge> 2 \<and> name ! 0 = CTL_KERN \<and> name ! 1 = KERN_BOOTTIME) origlen
           (os_sysctl name oldp oldlenp))"

definition sysctlbyname :: "nat \<Rightarrow> bool \<Rightarrow> (string \<Rightarrow> byte list option \<Rightarrow> nat option \<Rightarrow> answer)
    \<Rightarrow> string \<Rightarrow> byte list option \<Rightarrow> nat option \<Rightarrow> answer option" where
  "sysctlbyname tvsize le os_sysctlbyname name oldp oldlenp =
     (let origlen = (case oldlenp of Some l \<Rightarrow> l | None \<Rightarrow> 0)
      in finish_boottime tvsize le (name = ''kern.boottime'') origlen (os_sysctlbyname name oldp oldlenp))"

section \<open>sysconf.c\<close>

datatype sc_name = SC_NPROCESSORS_ONLN | SC_NPROCESSORS_CONF | SC_PHYS_PAGES | SC_other int

text \<open>The answers of the system: result and value of each query, the page size, its own \<open>sysconf\<close>.\<close>

record sysinfo =
  hw_availcpu :: "int \<times> u32"
  hw_ncpu :: "int \<times> u32"
  hw_memsize :: "int \<times> u64"
  page_size :: u64
  os_sysconf :: "sc_name \<Rightarrow> int"

text \<open>What the build enables, and the width of a \<open>long\<close>.\<close>

record sysconf_build =
  support_nprocessors :: bool
  support_phys_pages :: bool
  lp64 :: bool

definition sysconf_nproc_conf :: "sysinfo \<Rightarrow> int" where
  "sysconf_nproc_conf k =
     (let (ret, count) = hw_ncpu k; count = (if ret < 0 \<or> count < 1 then 1 else count) in uint count)"

definition sysconf :: "sysconf_build \<Rightarrow> sysinfo \<Rightarrow> sc_name \<Rightarrow> int" where
  "sysconf cf k name =
     (if support_nprocessors cf \<and> name = SC_NPROCESSORS_ONLN
      then (let (ret, count) = hw_availcpu k in if ret < 0 \<or> count < 1 then sysconf_nproc_conf k else uint count)
      else if support_nprocessors cf \<and> name = SC_NPROCESSORS_CONF then sysconf_nproc_conf k
      else if support_phys_pages cf \<and> name = SC_PHYS_PAGES
      then (let (ret, mem_size) = hw_memsize k
            in if ret \<noteq> 0 then -1
               else let pages = mem_size div page_size k in if lp64 cf then sint pages else sint (ucast pages :: u32))
      else os_sysconf k name)"

definition macports_legacy_sysconf :: "sysconf_build \<Rightarrow> sysinfo \<Rightarrow> sc_name \<Rightarrow> int" where
  "macports_legacy_sysconf cf k name = sysconf cf k name"

section \<open>The stack size of the main thread\<close>

definition kMaxThreadStackSize :: size_t where "kMaxThreadStackSize = 0x40000000"

text \<open>
  From 10.9 on the thread is compared with the main thread, before that a bit of its private record is read.  \<open>rlimit\<close> is
  the answer of \<open>getrlimit\<close>; \<open>None\<close> is the exit when it fails.
\<close>

definition pthread_get_stacksize_np :: "nat \<Rightarrow> bool \<Rightarrow> 8 word \<Rightarrow> int \<times> size_t \<Rightarrow> size_t \<Rightarrow> size_t option" where
  "pthread_get_stacksize_np osver equals_main detached rlimit os_answer =
     (let is_main_thread = (if osver \<ge> 1090 then equals_main else detached AND 4 = 4)
      in if is_main_thread
         then (let (r, cur) = rlimit in if r \<noteq> 0 then None else Some (if cur < kMaxThreadStackSize then cur else kMaxThreadStackSize))
         else Some os_answer)"

section \<open>Refused and passed on\<close>

definition clonefileat :: "int \<Rightarrow> string \<Rightarrow> int \<Rightarrow> string \<Rightarrow> u32 \<Rightarrow> int \<times> errno" where
  "clonefileat src_dirfd src dst_dirfd dst flags = (-1, ENOTSUP)"

definition clonefile :: "string \<Rightarrow> string \<Rightarrow> u32 \<Rightarrow> int \<times> errno" where
  "clonefile src dst flags = clonefileat (-2) src (-2) dst flags"

definition fclonefileat :: "int \<Rightarrow> int \<Rightarrow> string \<Rightarrow> u32 \<Rightarrow> int \<times> errno" where
  "fclonefileat srcfd dst_dirfd dst flags = (-1, ENOTSUP)"

definition pthread_setname_np :: "string \<Rightarrow> int" where
  "pthread_setname_np name = 0"

text \<open>The descriptor of a directory stream, or the error; \<open>None\<close> is the null pointer.\<close>

definition dirfd :: "int option \<Rightarrow> errno + int" where
  "dirfd dirp = (case dirp of None \<Rightarrow> Inl EINVAL | Some fd \<Rightarrow> if fd < 0 then Inl EINVAL else Inr fd)"

definition mpls_bzero :: "byte list \<Rightarrow> nat \<Rightarrow> byte list option" where
  "mpls_bzero s n = mfill s 0 n 0"

definition fsgetpath :: "(nat \<Rightarrow> 'f \<Rightarrow> u64 \<Rightarrow> int \<times> 'b) \<Rightarrow> nat \<Rightarrow> 'f \<Rightarrow> u64 \<Rightarrow> int \<times> 'b" where
  "fsgetpath syscall_fsgetpath buflen fsid obj_id = syscall_fsgetpath buflen fsid obj_id"

text \<open>Sine and cosine at once; the functions of the system are parameters.\<close>

definition sincosf :: "('r \<Rightarrow> 'r) \<Rightarrow> ('r \<Rightarrow> 'r) \<Rightarrow> 'r \<Rightarrow> 'r \<times> 'r" where
  "sincosf sinf cosf x = (sinf x, cosf x)"

definition sincos :: "('r \<Rightarrow> 'r) \<Rightarrow> ('r \<Rightarrow> 'r) \<Rightarrow> 'r \<Rightarrow> 'r \<times> 'r" where
  "sincos sin_fun cos_fun x = (sin_fun x, cos_fun x)"

definition sincosf_stret :: "('r \<Rightarrow> 'r) \<Rightarrow> ('r \<Rightarrow> 'r) \<Rightarrow> 'r \<Rightarrow> 'r \<times> 'r" where
  "sincosf_stret sinf cosf x = (sinf x, cosf x)"

definition sincos_stret :: "('r \<Rightarrow> 'r) \<Rightarrow> ('r \<Rightarrow> 'r) \<Rightarrow> 'r \<Rightarrow> 'r \<times> 'r" where
  "sincos_stret sin_fun cos_fun x = (sin_fun x, cos_fun x)"

text \<open>The unfair lock is the system's spin lock, whose functions are parameters.\<close>

definition os_unfair_lock_lock :: "('l \<Rightarrow> 'w \<Rightarrow> 'w) \<Rightarrow> 'l \<Rightarrow> 'w \<Rightarrow> 'w" where
  "os_unfair_lock_lock OSSpinLockLock lock w = OSSpinLockLock lock w"

definition os_unfair_lock_trylock :: "('l \<Rightarrow> 'w \<Rightarrow> bool \<times> 'w) \<Rightarrow> 'l \<Rightarrow> 'w \<Rightarrow> bool \<times> 'w" where
  "os_unfair_lock_trylock OSSpinLockTry lock w = OSSpinLockTry lock w"

definition os_unfair_lock_unlock :: "('l \<Rightarrow> 'w \<Rightarrow> 'w) \<Rightarrow> 'l \<Rightarrow> 'w \<Rightarrow> 'w" where
  "os_unfair_lock_unlock OSSpinLockUnlock lock w = OSSpinLockUnlock lock w"

section \<open>Lemmas\<close>

lemma ld_0: "n \<le> length b \<Longrightarrow> ld le n b 0 = Some (load le (take n b))"
  by (simp add: ld_def mslice_ok)

lemma finish_other: "finish_boottime tvsize le False origlen ans = Some ans"
  by (cases ans) (simp add: finish_boottime_def)

text \<open>The record the old kernels deliver.\<close>

definition tv32_bytes :: "bool \<Rightarrow> nat \<Rightarrow> nat \<Rightarrow> byte list" where
  "tv32_bytes le sec usec = store le 4 sec @ store le 4 usec"

definition tv64_bytes :: "bool \<Rightarrow> nat \<Rightarrow> nat \<Rightarrow> byte list" where
  "tv64_bytes le sec usec = store le 8 sec @ store le 4 usec"

lemma fix_boottime_converts:
  assumes "sec < 2 ^ 32" and "usec < 2 ^ 32" and "4 \<le> length rest" and "16 \<le> origlen"
  shows "fix_boottime 16 le (Some (tv32_bytes le sec usec @ rest)) 8 origlen = Some (Some (tv64_bytes le sec usec @ drop 4 rest), 16)"
proof -
  let ?b = "tv32_bytes le sec usec @ rest"
  have l: "length ?b = 8 + length rest" by (simp add: tv32_bytes_def)
  have a: "ld le 4 ?b 0 = Some sec" using assms(1) by (simp add: ld_def mslice_def tv32_bytes_def load_store)
  have b: "ld le 4 ?b 4 = Some usec" using assms(2,3) by (simp add: ld_def mslice_def tv32_bytes_def load_store)
  have c: "mblit ?b 0 (store le 8 sec) = Some (store le 8 sec @ rest)" using l by (simp add: mblit_def tv32_bytes_def)
  have "mblit (store le 8 sec @ rest) 8 (store le 4 usec) = Some (tv64_bytes le sec usec @ drop 4 rest)"
    using assms(3) by (simp add: mblit_def tv64_bytes_def)
  then show ?thesis using assms(4) a b c by (simp add: fix_boottime_def TV32_def)
qed

section \<open>Properties\<close>

text \<open>When an old kernel answers the request for the boot time with its 8-byte record, in either byte order, both
  queries deliver the same time as a 16-byte \<open>timeval\<close> with the length to match, and touch nothing behind it.\<close>

theorem boottime_repaired:
  assumes "sec < 2 ^ 32" and "usec < 2 ^ 32" and "4 \<le> length rest" and "16 \<le> origlen"
    and "2 \<le> length name" and "name ! 0 = CTL_KERN" and "name ! 1 = KERN_BOOTTIME"
    and "os_fun name oldp (Some origlen) = (0, Some (tv32_bytes le sec usec @ rest), Some 8)"
    and "os_by_name ''kern.boottime'' oldp (Some origlen) = os_fun name oldp (Some origlen)"
  shows "sysctl 16 le os_fun name oldp (Some origlen) = Some (0, Some (tv64_bytes le sec usec @ drop 4 rest), Some 16)
    \<and> sysctlbyname 16 le os_by_name ''kern.boottime'' oldp (Some origlen) = sysctl 16 le os_fun name oldp (Some origlen)
    \<and> load le (take 8 (tv64_bytes le sec usec)) = sec \<and> load le (drop 8 (tv64_bytes le sec usec)) = usec"
  using assms fix_boottime_converts [OF assms(1-4), of le]
  by (simp add: sysctl_def sysctlbyname_def finish_boottime_def tv64_bytes_def load_store)

theorem boottime_repaired_witness:
  "sysctl 16 False (\<lambda>n p l. (0, Some (tv32_bytes False 7 9 @ replicate 8 0), Some 8)) [1, 21] None (Some 16)
    = Some (0, Some (tv64_bytes False 7 9 @ drop 4 (replicate 8 0)), Some 16)"
proof -
  have "[1, 21] ! 0 = CTL_KERN" "[1, 21] ! 1 = KERN_BOOTTIME" by (simp_all add: CTL_KERN_def KERN_BOOTTIME_def)
  then show ?thesis
    by (intro boottime_repaired [where os_by_name = "\<lambda>n p l. (0, Some (tv32_bytes False 7 9 @ replicate 8 0), Some 8)", THEN conjunct1])
      simp_all
qed

text \<open>\<open>sysconf\<close> reports at least one processor, the available ones when the system knows them.\<close>

theorem sysconf_processors:
  assumes "support_nprocessors cf"
  shows "1 \<le> sysconf cf k SC_NPROCESSORS_CONF \<and> 1 \<le> sysconf cf k SC_NPROCESSORS_ONLN
    \<and> (0 \<le> fst (hw_availcpu k) \<and> 1 \<le> snd (hw_availcpu k) \<longrightarrow> sysconf cf k SC_NPROCESSORS_ONLN = uint (snd (hw_availcpu k)))"
proof -
  have p: "1 \<le> uint c" if "\<not> c < 1" for c :: u32 using that by (simp add: word_less_def)
  then have "1 \<le> sysconf_nproc_conf k" by (auto simp: sysconf_nproc_conf_def Let_def split: prod.split)
  then show ?thesis using assms p by (auto simp: sysconf_def case_prod_beta)
qed

theorem sysconf_processors_witness:
  "sysconf \<lparr>support_nprocessors = True, support_phys_pages = True, lp64 = True\<rparr>
     \<lparr>hw_availcpu = (0, 4), hw_ncpu = (0, 8), hw_memsize = (0, 0), page_size = 4096, os_sysconf = (\<lambda>_. 0)\<rparr> SC_NPROCESSORS_ONLN = 4"
  using sysconf_processors [of "\<lparr>support_nprocessors = True, support_phys_pages = True, lp64 = True\<rparr>"
      "\<lparr>hw_availcpu = (0, 4), hw_ncpu = (0, 8), hw_memsize = (0, 0), page_size = 4096, os_sysconf = (\<lambda>_. 0)\<rparr>"] by simp

end
