(* ===== verification/Path_Wrap.thy ===== *)
theory Path_Wrap
  imports Access_Check
begin

text \<open>
  Wrappers that lend the system a buffer or a stream: \<open>fcntl(F_GETPATH)\<close> with addresses above 4 GiB (\<open>src/fcntl.c\<close>),
  \<open>realpath\<close> without a buffer (\<open>src/realpath.c\<close>), \<open>dprintf\<close> (\<open>src/dprintf.c\<close>) and aligned allocation
  (\<open>src/posix_memalign_emulation.c\<close>).
\<close>

section \<open>fcntl.c\<close>

datatype fcntl_cmd =
  F_GETFD | F_GETFL | F_GETOWN | F_FULLFSYNC | F_FREEZE_FS | F_THAW_FS
| F_DUPFD | F_SETFD | F_SETFL | F_RDAHEAD | F_NOCACHE
| F_SETOWN
| F_SETSIZE
| F_PREALLOCATE | F_READBOOTSTRAP | F_WRITEBOOTSTRAP | F_LOG2PHYS | F_PATHPKG_CHECK
| F_GETPATH
| F_other int

text \<open>The optional argument as \<open>va_arg\<close> reads it.\<close>

datatype fcntl_arg = No_arg | Num u32 | Pid u32 | Off u64 | Ptr u64

text \<open>The state: \<open>errno\<close> and the path buffers by their addresses.\<close>

record fcntl_state =
  f_errno :: errno
  objs :: "u64 \<Rightarrow> byte list"

definition MAXPATHLEN :: u64 where "MAXPATHLEN = 1024"
definition VM_PROT_WRITE :: u32 where "VM_PROT_WRITE = 2"

text \<open>
  \<open>check\<close> is \<open>__mpls_check_access\<close>, \<open>pathbuf\<close> the address of the static buffer, \<open>lock_ok\<close> and \<open>unlock\<close> what the mutex
  functions answer (\<open>Errno 0\<close> is success).
\<close>

definition fcntl_getpath_retry :: "(int \<Rightarrow> fcntl_cmd \<Rightarrow> fcntl_arg \<Rightarrow> fcntl_state \<Rightarrow> int \<times> fcntl_state) \<Rightarrow> (u64 \<Rightarrow> u64 \<Rightarrow> u32 \<Rightarrow> int) \<Rightarrow> u64 \<Rightarrow> bool \<Rightarrow> errno
    \<Rightarrow> int \<Rightarrow> u64 \<Rightarrow> fcntl_state \<Rightarrow> int \<times> fcntl_state" where
  "fcntl_getpath_retry os_fcntl check pathbuf lock_ok unlock fildes ptr st =
     (if ptr < 2 ^ 32 then (-1, st)
      else if check ptr MAXPATHLEN VM_PROT_WRITE \<noteq> 0 then (-1, st\<lparr>f_errno := EFAULT\<rparr>)
      else if \<not> lock_ok then (-1, st)
      else (let (ret, st) = os_fcntl fildes F_GETPATH (Ptr pathbuf) st
            in if ret \<noteq> 0 then (ret, st)
               else (let st = st\<lparr>objs := (objs st)(ptr := objs st pathbuf)\<rparr>
                     in (if unlock \<noteq> Errno 0 then -1 else 0, st\<lparr>f_errno := unlock\<rparr>))))"

definition fcntl :: "(int \<Rightarrow> fcntl_cmd \<Rightarrow> fcntl_arg \<Rightarrow> fcntl_state \<Rightarrow> int \<times> fcntl_state) \<Rightarrow> (u64 \<Rightarrow> u64 \<Rightarrow> u32 \<Rightarrow> int) \<Rightarrow> u64 \<Rightarrow> bool \<Rightarrow> errno
    \<Rightarrow> int \<Rightarrow> fcntl_cmd \<Rightarrow> u64 \<Rightarrow> fcntl_state \<Rightarrow> int \<times> fcntl_state" where
  "fcntl os_fcntl check pathbuf lock_ok unlock fildes cmd va st =
     (case cmd of
        F_GETFD \<Rightarrow> os_fcntl fildes cmd No_arg st
      | F_GETFL \<Rightarrow> os_fcntl fildes cmd No_arg st
      | F_GETOWN \<Rightarrow> os_fcntl fildes cmd No_arg st
      | F_FULLFSYNC \<Rightarrow> os_fcntl fildes cmd No_arg st
      | F_FREEZE_FS \<Rightarrow> os_fcntl fildes cmd No_arg st
      | F_THAW_FS \<Rightarrow> os_fcntl fildes cmd No_arg st
      | F_DUPFD \<Rightarrow> os_fcntl fildes cmd (Num (ucast va)) st
      | F_SETFD \<Rightarrow> os_fcntl fildes cmd (Num (ucast va)) st
      | F_SETFL \<Rightarrow> os_fcntl fildes cmd (Num (ucast va)) st
      | F_RDAHEAD \<Rightarrow> os_fcntl fildes cmd (Num (ucast va)) st
      | F_NOCACHE \<Rightarrow> os_fcntl fildes cmd (Num (ucast va)) st
      | F_SETOWN \<Rightarrow> os_fcntl fildes cmd (Pid (ucast va)) st
      | F_SETSIZE \<Rightarrow> os_fcntl fildes cmd (Off va) st
      | F_PREALLOCATE \<Rightarrow> os_fcntl fildes cmd (Ptr va) st
      | F_READBOOTSTRAP \<Rightarrow> os_fcntl fildes cmd (Ptr va) st
      | F_WRITEBOOTSTRAP \<Rightarrow> os_fcntl fildes cmd (Ptr va) st
      | F_LOG2PHYS \<Rightarrow> os_fcntl fildes cmd (Ptr va) st
      | F_PATHPKG_CHECK \<Rightarrow> os_fcntl fildes cmd (Ptr va) st
      | F_GETPATH \<Rightarrow>
          (let (ret, st) = os_fcntl fildes cmd (Ptr va) st
           in if ret \<noteq> -1 \<or> f_errno st \<noteq> EFAULT then (ret, st)
              else fcntl_getpath_retry os_fcntl check pathbuf lock_ok unlock fildes va st)
      | F_other _ \<Rightarrow> os_fcntl fildes cmd (Ptr va) st)"

text \<open>\<open>F_GETPATH\<close> as it should be, and as 10.4 ppc64 has it.\<close>

definition getpath_good :: "(int \<Rightarrow> errno + byte list) \<Rightarrow> int \<Rightarrow> u64 \<Rightarrow> fcntl_state \<Rightarrow> int \<times> fcntl_state" where
  "getpath_good path_of fd a st =
     (case path_of fd of Inl e \<Rightarrow> (-1, st\<lparr>f_errno := e\<rparr>) | Inr p \<Rightarrow> (0, st\<lparr>objs := (objs st)(a := p)\<rparr>))"

definition getpath_tiger :: "(int \<Rightarrow> errno + byte list) \<Rightarrow> int \<Rightarrow> u64 \<Rightarrow> fcntl_state \<Rightarrow> int \<times> fcntl_state" where
  "getpath_tiger path_of fd a st = (if a < 2 ^ 32 then getpath_good path_of fd a st else (-1, st\<lparr>f_errno := EFAULT\<rparr>))"

section \<open>realpath.c\<close>

datatype rp_idx = rp_basic | rp_posix | rp_darwin

definition rp_name :: "rp_idx \<Rightarrow> string" where
  "rp_name v = (case v of rp_basic \<Rightarrow> ''realpath'' | rp_posix \<Rightarrow> ''realpath$UNIX2003'' | rp_darwin \<Rightarrow> ''realpath$DARWIN_EXTSN'')"

text \<open>A \<open>realpath\<close> of the system: from a path, a buffer and \<open>errno\<close> to its result and \<open>errno\<close>.  Buffers are named by numbers.\<close>

type_synonym rp_func = "string \<Rightarrow> nat \<Rightarrow> errno \<Rightarrow> nat option \<times> errno"

record rp_state =
  rp_adr :: "rp_idx \<Rightarrow> rp_func option"
  live :: "nat list"
  r_errno :: errno

definition find_realpath :: "(string \<Rightarrow> rp_func option) \<Rightarrow> rp_idx \<Rightarrow> rp_state \<Rightarrow> (rp_func \<times> rp_state) option" where
  "find_realpath dlsym version st =
     (case rp_adr st version of
        Some f \<Rightarrow> Some (f, st)
      | None \<Rightarrow>
          (let os = dlsym (rp_name version);
               os = (if os = None \<and> version \<noteq> rp_basic then dlsym (rp_name rp_basic) else os)
           in case os of None \<Rightarrow> None | Some f \<Rightarrow> Some (f, st\<lparr>rp_adr := (rp_adr st)(version := Some f)\<rparr>)))"

text \<open>\<open>free\<close> may change \<open>errno\<close>, to \<open>free_errno\<close>; \<open>None\<close> is the call of \<open>abort\<close>.\<close>

definition realpath_internal :: "(string \<Rightarrow> rp_func option) \<Rightarrow> (nat list \<Rightarrow> nat option) \<Rightarrow> errno \<Rightarrow> string \<Rightarrow> nat option \<Rightarrow> rp_idx \<Rightarrow> rp_state \<Rightarrow> (nat option \<times> rp_state) option" where
  "realpath_internal dlsym malloc free_errno file_name resolved_name version st =
     (case find_realpath dlsym version st of
        None \<Rightarrow> None
      | Some (f, st) \<Rightarrow>
          (case resolved_name of
             Some b \<Rightarrow> (let (r, e) = f file_name b (r_errno st) in Some (r, st\<lparr>r_errno := e\<rparr>))
           | None \<Rightarrow>
               (case malloc (live st) of
                  None \<Rightarrow> Some (None, st\<lparr>r_errno := ENOMEM\<rparr>)
                | Some buf \<Rightarrow>
                    (let st = st\<lparr>live := buf # live st\<rparr>;
                         (r, e) = f file_name buf (r_errno st);
                         st = st\<lparr>r_errno := e\<rparr>
                     in case r of
                          Some result \<Rightarrow> Some (Some result, st)
                        | None \<Rightarrow>
                            (let saved_errno = r_errno st;
                                 st = st\<lparr>live := remove1 buf (live st), r_errno := free_errno\<rparr>
                             in Some (None, st\<lparr>r_errno := saved_errno\<rparr>))))))"

definition realpath :: "(string \<Rightarrow> rp_func option) \<Rightarrow> (nat list \<Rightarrow> nat option) \<Rightarrow> errno \<Rightarrow> rp_idx \<Rightarrow> string \<Rightarrow> nat option \<Rightarrow> rp_state \<Rightarrow> (nat option \<times> rp_state) option" where
  "realpath dlsym malloc free_errno version file_name resolved_name st =
     realpath_internal dlsym malloc free_errno file_name resolved_name version st"

definition macports_legacy_realpath :: "nat \<Rightarrow> (string \<Rightarrow> rp_func option) \<Rightarrow> (nat list \<Rightarrow> nat option) \<Rightarrow> errno \<Rightarrow> string \<Rightarrow> nat option \<Rightarrow> rp_state \<Rightarrow> (nat option \<times> rp_state) option" where
  "macports_legacy_realpath osver dlsym malloc free_errno file_name resolved_name st =
     realpath_internal dlsym malloc free_errno file_name resolved_name (if osver < 1050 then rp_basic else rp_darwin) st"

section \<open>dprintf.c\<close>

text \<open>The parts of a \<open>FILE\<close> that matter: its descriptor, whether its cookie is itself, whether it has a close function, and
  what was written to it and not yet to the descriptor.\<close>

record FILE =
  file_fd :: int
  cookie_self :: bool
  has_close :: bool
  pending :: string

record out_state =
  is_open :: "int \<Rightarrow> bool"
  written :: "int \<Rightarrow> string"
  o_errno :: errno

text \<open>\<open>fclose\<close>: flush, and close through the close function; \<open>flush_ok\<close> is whether the descriptor takes the data.\<close>

definition fclose_file :: "(int \<Rightarrow> bool) \<Rightarrow> FILE \<Rightarrow> out_state \<Rightarrow> int \<times> out_state" where
  "fclose_file flush_ok f st =
     (let st' = (if flush_ok (file_fd f) then st\<lparr>written := (written st)(file_fd f := written st (file_fd f) @ pending f)\<rparr> else st);
          st' = (if has_close f then st'\<lparr>is_open := (is_open st')(file_fd f := False)\<rparr> else st')
      in (if flush_ok (file_fd f) then 0 else -1, st'))"

text \<open>\<open>text\<close> is what the format and its arguments make, with the result of \<open>vfprintf\<close>.\<close>

definition vdprintf :: "(int \<Rightarrow> out_state \<Rightarrow> FILE option) \<Rightarrow> (int \<Rightarrow> bool) \<Rightarrow> int \<Rightarrow> int \<times> string \<Rightarrow> out_state \<Rightarrow> int \<times> out_state" where
  "vdprintf fdopen flush_ok fildes formatted st =
     (case fdopen fildes st of
        None \<Rightarrow> (-1, st\<lparr>o_errno := EBADF\<rparr>)
      | Some stream \<Rightarrow>
          (let filep = (if cookie_self stream then stream\<lparr>has_close := False\<rparr> else stream);
               ret = fst formatted;
               filep = filep\<lparr>pending := pending filep @ snd formatted\<rparr>;
               (r, st) = fclose_file flush_ok filep st
           in (if r \<noteq> 0 then -1 else ret, st)))"

definition dprintf :: "(int \<Rightarrow> out_state \<Rightarrow> FILE option) \<Rightarrow> (int \<Rightarrow> bool) \<Rightarrow> int \<Rightarrow> int \<times> string \<Rightarrow> out_state \<Rightarrow> int \<times> out_state" where
  "dprintf fdopen flush_ok fildes formatted st = vdprintf fdopen flush_ok fildes formatted st"

section \<open>posix\_memalign\<close>

text \<open>\<open>malloc\<close> and \<open>valloc\<close> answer the address of a block; the pointer is the block's address or the old one.\<close>

definition posix_memalign :: "(size_t \<Rightarrow> u64 option) \<Rightarrow> (size_t \<Rightarrow> u64 option) \<Rightarrow> u64 \<Rightarrow> size_t \<Rightarrow> size_t \<Rightarrow> errno option \<times> u64" where
  "posix_memalign malloc valloc pp alignment bytes =
     (if alignment < 8 \<or> alignment AND (alignment - 1) \<noteq> 0 then (Some EINVAL, pp)
      else (let mem = (if alignment \<le> 16 then malloc bytes else valloc bytes)
            in case mem of None \<Rightarrow> (Some ENOMEM, pp) | Some m \<Rightarrow> (None, m)))"

section \<open>Lemmas\<close>

lemma power_of_two_nat: "0 < n \<Longrightarrow> n AND (n - 1) = (0::nat) \<Longrightarrow> \<exists>k. n = 2 ^ k"
proof (induction n rule: less_induct)
  case (less n)
  show ?case
  proof (cases "even n")
    case True
    then obtain m where m: "n = 2 * m" by blast
    with less.prems have "0 < m" by simp
    then have "n - 1 = 2 * (m - 1) + 1" using m by simp
    then have "n AND (n - 1) = 2 * (m AND (m - 1))" using m by (simp add: and_nat_rec [of "2 * m"])
    then obtain k where "m = 2 ^ k" using less.IH [of m] less.prems m \<open>0 < m\<close> by auto
    then show ?thesis using m by (intro exI [of _ "Suc k"]) simp
  next
    case False
    then obtain j where j: "n = 2 * j + 1" by (elim oddE)
    then have "n AND (n - 1) = 2 * j" by (simp add: and_nat_rec [of "Suc (2 * j)"])
    then show ?thesis using less.prems j by (intro exI [of _ 0]) simp
  qed
qed

lemma power_of_two_word:
  fixes a :: u64
  assumes "a \<noteq> 0" and "a AND (a - 1) = 0"
  shows "\<exists>k. unat a = 2 ^ k"
proof (rule power_of_two_nat)
  show "0 < unat a" using assms(1) by (simp add: unat_gt_0)
  have "unat (a - 1) = unat a - 1" using assms(1) by (simp add: unat_minus_one)
  then show "unat a AND (unat a - 1) = 0" using assms(2) by (metis unat_0 unsigned_and_eq)
qed

lemma power_dvd: "unat a = 2 ^ k \<Longrightarrow> unat a \<le> 2 ^ m \<Longrightarrow> 2 ^ m dvd x \<Longrightarrow> unat (a :: u64) dvd x"
  by (metis dvd_trans le_imp_power_dvd power_increasing_iff one_less_numeral_iff semiring_norm(76))

section \<open>Properties\<close>

text \<open>On 10.4 ppc64, \<open>fcntl(F_GETPATH)\<close> works for buffers at any address: it behaves as a correct one, except that it
  also leaves the path in its own low buffer and resets \<open>errno\<close>.\<close>

theorem fcntl_getpath_repaired:
  assumes "\<And>a st. os_fun fd F_GETPATH (Ptr a) st = getpath_tiger path_of fd a st"
    and "path_of fd \<noteq> Inl EFAULT" and "check va MAXPATHLEN VM_PROT_WRITE = 0" and "pathbuf < 2 ^ 32"
  shows "fcntl os_fun check pathbuf True (Errno 0) fd F_GETPATH va st =
    (if va < 2 ^ 32 then getpath_good path_of fd va st
     else (case path_of fd of
             Inl e \<Rightarrow> (-1, st\<lparr>f_errno := e\<rparr>)
           | Inr p \<Rightarrow> (0, st\<lparr>objs := (objs st)(pathbuf := p, va := p), f_errno := Errno 0\<rparr>)))"
  using assms(2-4)
  by (auto simp: fcntl_def assms(1) getpath_tiger_def getpath_good_def fcntl_getpath_retry_def Let_def split: sum.split)

theorem fcntl_getpath_repaired_witness:
  "fst (fcntl (\<lambda>fd c a st. case a of Ptr p \<Rightarrow> getpath_tiger (\<lambda>_. Inr [47, 0]) fd p st | _ \<Rightarrow> (0, st)) (\<lambda>a n p. 0) 4096 True (Errno 0)
     3 F_GETPATH 8589934592 \<lparr>f_errno = EINTR, objs = (\<lambda>_. [])\<rparr>) = 0"
  using fcntl_getpath_repaired [of "\<lambda>fd c a st. case a of Ptr p \<Rightarrow> getpath_tiger (\<lambda>_. Inr [47, 0]) fd p st | _ \<Rightarrow> (0, st)" 3
      "\<lambda>_. Inr [47, 0]" "\<lambda>a n p. 0" 8589934592 4096] by simp

text \<open>\<open>realpath\<close> without a buffer returns a fresh block on success, which is then the only new one, and on failure leaves
  no block allocated and \<open>errno\<close> as the system's function set it; the function used, cached or not, is the system's
  of that version, or the basic one where that is missing.\<close>

theorem realpath_allocates:
  assumes "\<And>v. rp_adr st v = None \<or> rp_adr st v = (case dlsym (rp_name v) of Some g \<Rightarrow> Some g | None \<Rightarrow> dlsym (rp_name rp_basic))"
    and "(case dlsym (rp_name version) of Some g \<Rightarrow> Some g | None \<Rightarrow> dlsym (rp_name rp_basic)) = Some f"
    and "malloc (live st) = Some b" and "f file b (r_errno st) \<in> {(Some b, e), (None, e)}"
  shows "\<exists>st'. realpath dlsym malloc free_errno version file None st = Some (fst (f file b (r_errno st)), st')
    \<and> live st' = (if fst (f file b (r_errno st)) = None then live st else b # live st) \<and> r_errno st' = e
    \<and> (\<forall>v. rp_adr st' v = None \<or> rp_adr st' v = (case dlsym (rp_name v) of Some g \<Rightarrow> Some g | None \<Rightarrow> dlsym (rp_name rp_basic)))"
proof -
  have "\<exists>st1. find_realpath dlsym version st = Some (f, st1) \<and> live st1 = live st \<and> r_errno st1 = r_errno st
    \<and> (\<forall>v. rp_adr st1 v = None \<or> rp_adr st1 v = (case dlsym (rp_name v) of Some g \<Rightarrow> Some g | None \<Rightarrow> dlsym (rp_name rp_basic)))"
  proof (cases "rp_adr st version")
    case None
    have "(if dlsym (rp_name version) = None \<and> version \<noteq> rp_basic then dlsym (rp_name rp_basic) else dlsym (rp_name version)) = Some f"
      using assms(2) by (cases "dlsym (rp_name version)") (auto split: if_splits)
    then show ?thesis using None assms(1,2) by (simp add: find_realpath_def Let_def)
  next
    case (Some g)
    then have "g = f" using assms(1) [of version] assms(2) by simp
    then show ?thesis using Some assms(1) by (simp add: find_realpath_def)
  qed
  then obtain st1 where s: "find_realpath dlsym version st = Some (f, st1)" "live st1 = live st" "r_errno st1 = r_errno st"
    and c: "\<forall>v. rp_adr st1 v = None \<or> rp_adr st1 v = (case dlsym (rp_name v) of Some g \<Rightarrow> Some g | None \<Rightarrow> dlsym (rp_name rp_basic))"
    by blast
  consider "f file b (r_errno st) = (Some b, e)" | "f file b (r_errno st) = (None, e)" using assms(4) by blast
  then show ?thesis
  proof cases
    case 1
    then show ?thesis using s c assms(3) by (simp add: realpath_def realpath_internal_def)
  next
    case 2
    then show ?thesis using s c assms(3) by (simp add: realpath_def realpath_internal_def)
  qed
qed

theorem realpath_allocates_witness:
  "\<exists>st'. realpath (\<lambda>n. if n = ''realpath'' then Some (\<lambda>p b e. (None, ENOENT)) else None) (\<lambda>l. Some (length l)) EINTR rp_darwin ''/x'' None
      \<lparr>rp_adr = (\<lambda>_. None), live = [], r_errno = EINTR\<rparr> = Some (None, st') \<and> live st' = [] \<and> r_errno st' = ENOENT"
  using realpath_allocates [of "\<lparr>rp_adr = (\<lambda>_. None), live = [], r_errno = EINTR\<rparr>" "\<lambda>n. if n = ''realpath'' then Some (\<lambda>p b e. (None, ENOENT)) else None"
      rp_darwin "\<lambda>p b e. (None, ENOENT)" "\<lambda>l. Some (length l)" 0 "''/x''" ENOENT EINTR]
  by (auto simp: rp_name_def)

text \<open>\<open>dprintf\<close> writes the formatted text to an open descriptor and leaves the descriptor open, even when writing fails.\<close>

theorem dprintf_keeps_descriptor:
  assumes "fdopen fd st = Some \<lparr>file_fd = fd, cookie_self = True, has_close = True, pending = []\<rparr>"
  shows "is_open (snd (dprintf fdopen flush_ok fd (n, txt) st)) = is_open st
    \<and> (flush_ok fd \<longrightarrow> fst (dprintf fdopen flush_ok fd (n, txt) st) = n
         \<and> written (snd (dprintf fdopen flush_ok fd (n, txt) st)) = (written st)(fd := written st fd @ txt))
    \<and> (\<not> flush_ok fd \<longrightarrow> fst (dprintf fdopen flush_ok fd (n, txt) st) = -1)"
  by (simp add: dprintf_def vdprintf_def fclose_file_def assms Let_def)

theorem dprintf_keeps_descriptor_witness:
  "is_open (snd (dprintf (\<lambda>fd st. Some \<lparr>file_fd = fd, cookie_self = True, has_close = True, pending = []\<rparr>) (\<lambda>_. True) 1 (2, ''hi'')
     \<lparr>is_open = (\<lambda>fd. fd = 1), written = (\<lambda>_. []), o_errno = EINTR\<rparr>)) 1"
  using dprintf_keeps_descriptor [of "\<lambda>fd st. Some \<lparr>file_fd = fd, cookie_self = True, has_close = True, pending = []\<rparr>" 1
      "\<lparr>is_open = (\<lambda>fd. fd = 1), written = (\<lambda>_. []), o_errno = EINTR\<rparr>" "\<lambda>_. True" 2 "''hi''"] by simp

text \<open>an alignment \<open>posix_memalign\<close> accepts is a power of two and a multiple of the size of a pointer, and up to the
  size of a page the block it returns has the alignment asked for.\<close>

theorem posix_memalign_aligned:
  assumes "\<And>m. malloc bytes = Some m \<Longrightarrow> 16 dvd unat m" and "\<And>m. valloc bytes = Some m \<Longrightarrow> 2 ^ page dvd unat m"
    and "unat alignment \<le> 2 ^ page" and "posix_memalign malloc valloc pp alignment bytes = (None, m)"
  shows "unat alignment dvd unat m \<and> (\<exists>k. unat alignment = 2 ^ k \<and> 3 \<le> k)"
proof -
  from assms(4) have a: "\<not> alignment < 8" "alignment AND (alignment - 1) = 0"
    by (auto simp: posix_memalign_def split: if_splits)
  have "alignment \<noteq> 0" using a(1) by auto
  then obtain k where k: "unat alignment = 2 ^ k" using power_of_two_word a(2) by blast
  have "2 ^ 3 \<le> (2 ^ k :: nat)" using a(1) k by (simp add: word_less_nat_alt)
  then have "3 \<le> k" by (simp only: power_increasing_iff one_less_numeral_iff semiring_norm)
  moreover have "unat alignment dvd unat m"
  proof (cases "alignment \<le> 16")
    case True
    then have "malloc bytes = Some m" using assms(4) a by (auto simp: posix_memalign_def split: option.splits)
    moreover have "unat alignment \<le> 2 ^ 4" using True by (simp add: word_le_nat_alt)
    ultimately show ?thesis using power_dvd [OF k, of 4 "unat m"] assms(1) by simp
  next
    case False
    then have "valloc bytes = Some m" using assms(4) a by (auto simp: posix_memalign_def split: option.splits)
    then show ?thesis using power_dvd [OF k assms(3)] assms(2) by blast
  qed
  ultimately show ?thesis using k by blast
qed

theorem posix_memalign_aligned_witness:
  "256 dvd unat (snd (posix_memalign (\<lambda>n. Some 16) (\<lambda>n. Some 8192) 0 256 (100 :: size_t)))"
proof -
  have "posix_memalign (\<lambda>n. Some 16) (\<lambda>n. Some 8192) 0 256 (100 :: size_t) = (None, 8192)" by (simp add: posix_memalign_def)
  from posix_memalign_aligned [OF _ _ _ this, of 12] this show ?thesis by simp
qed

text \<open>A larger alignment is accepted and not honoured.\<close>

theorem posix_memalign_beyond_page:
  "posix_memalign (\<lambda>n. Some 16) (\<lambda>n. Some 4096) 0 8192 bytes = (None, 4096) \<and> \<not> (8192 :: nat) dvd 4096"
  by (simp add: posix_memalign_def)

end
