(* ===== verification/Which.thy ===== *)
theory Which
  imports Legacy_Prelude
begin

text \<open>
  The \<open>which\<close> program of \<open>tiger_only/src/which.c\<close>.  The file system is a parameter: whether \<open>access\<close> grants execution, and
  the mode \<open>stat\<close> reports.  The output is the list of the lines printed.
\<close>

record world =
  access_x :: "string \<Rightarrow> bool"
  stat_mode :: "string \<Rightarrow> u16 option"
  uid :: nat

record flags =
  silent :: bool
  allpaths :: bool

definition S_ISREG :: "u16 \<Rightarrow> bool" where
  "S_ISREG mode \<longleftrightarrow> mode AND 0xF000 = 0x8000"

definition any_exec :: "u16 \<Rightarrow> bool" where
  "any_exec mode \<longleftrightarrow> mode AND 0x49 \<noteq> 0"

definition FILENAME_MAX :: nat where "FILENAME_MAX = 1024"

text \<open>Whether the candidate is an executable file, and what is printed.\<close>

definition is_there :: "world \<Rightarrow> flags \<Rightarrow> string \<Rightarrow> bool \<times> string list" where
  "is_there w fl candidate =
     (if access_x w candidate \<and> (case stat_mode w candidate of None \<Rightarrow> False | Some m \<Rightarrow> S_ISREG m \<and> (uid w \<noteq> 0 \<or> any_exec m))
      then (True, if silent fl then [] else [candidate])
      else (False, []))"

text \<open>\<open>strsep(&path, ":")\<close>: the next field and what is left, nothing after the last one.\<close>

fun strsep :: "string \<Rightarrow> string \<times> string option" where
  "strsep [] = ([], None)"
| "strsep (c # s) = (if c = CHR '':'' then ([], Some s) else (let (t, r) = strsep s in (c # t, r)))"

lemma strsep_shorter: "strsep s = (t, Some r) \<Longrightarrow> length r < length s"
  by (induction s arbitrary: t) (auto simp: Let_def split: if_splits prod.splits)

function match_loop :: "world \<Rightarrow> flags \<Rightarrow> string \<Rightarrow> string option \<Rightarrow> bool \<Rightarrow> string list \<Rightarrow> bool \<times> string list" where
  "match_loop w fl filename path found out =
     (case path of
        None \<Rightarrow> (found, out)
      | Some p \<Rightarrow>
          (let (d, path) = strsep p;
               d = (if d = [] then ''.'' else d);
               candidate = d @ ''/'' @ filename
           in if length candidate \<ge> PATH_MAX then match_loop w fl filename path found out
              else (let (there, lines) = is_there w fl candidate
                    in if there
                       then (if \<not> allpaths fl then (True, out @ lines)
                             else match_loop w fl filename path True (out @ lines))
                       else match_loop w fl filename path found out)))"
  by pat_completeness auto
termination
  by (relation "measure (\<lambda>(w, fl, f, path, _). case path of None \<Rightarrow> 0 | Some p \<Rightarrow> Suc (length p))")
    (auto split: option.split dest: strsep_shorter [OF sym])

declare match_loop.simps [simp del]

definition print_matches :: "world \<Rightarrow> flags \<Rightarrow> string \<Rightarrow> string \<Rightarrow> int \<times> string list" where
  "print_matches w fl path filename =
     (if CHR ''/'' \<in> set filename
      then (let (there, lines) = is_there w fl filename in (if there then 0 else -1, lines))
      else (let (found, lines) = match_loop w fl filename (Some path) False [] in (if found then 0 else -1, lines)))"

text \<open>The options \<open>getopt\<close> delivers; any other than the two leads to the usage message and \<open>None\<close>.\<close>

fun parse_flags :: "char list \<Rightarrow> flags \<Rightarrow> flags option" where
  "parse_flags [] fl = Some fl"
| "parse_flags (c # cs) fl =
     (if c = CHR ''a'' then parse_flags cs (fl\<lparr>allpaths := True\<rparr>)
      else if c = CHR ''s'' then parse_flags cs (fl\<lparr>silent := True\<rparr>)
      else None)"

fun argv_loop :: "world \<Rightarrow> flags \<Rightarrow> string \<Rightarrow> string list \<Rightarrow> int \<Rightarrow> string list \<Rightarrow> int \<times> string list" where
  "argv_loop w fl p [] status out = (status, out)"
| "argv_loop w fl p (arg # argv) status out =
     (if length arg \<ge> FILENAME_MAX then argv_loop w fl p argv 1 out
      else (let (r, lines) = print_matches w fl p arg
            in argv_loop w fl p argv (if r = -1 then 1 else status) (out @ lines)))"

text \<open>The exit status and the lines printed; \<open>mem\<close> is whether the copy of the path could be allocated.\<close>

definition which_main :: "world \<Rightarrow> char list \<Rightarrow> string list \<Rightarrow> string option \<Rightarrow> bool \<Rightarrow> int \<times> string list" where
  "which_main w opts argv path mem =
     (case parse_flags opts \<lparr>silent = False, allpaths = False\<rparr> of
        None \<Rightarrow> (1, [])
      | Some fl \<Rightarrow>
          if argv = [] then (1, [])
          else (case path of
                  None \<Rightarrow> (1, [])
                | Some p \<Rightarrow> if \<not> mem then (1, []) else argv_loop w fl p argv 0 []))"

section \<open>Lemmas\<close>

text \<open>The fields of a path.\<close>

function fields :: "string \<Rightarrow> string list" where
  "fields s = (case strsep s of (t, None) \<Rightarrow> [t] | (t, Some r) \<Rightarrow> t # fields r)"
  by auto
termination
  by (relation "measure length") (auto dest: strsep_shorter [OF sym])

declare fields.simps [simp del]

text \<open>They are separated by the colons and contain none.\<close>

definition join :: "string list \<Rightarrow> string" where
  "join ts = (case ts of [] \<Rightarrow> [] | t # r \<Rightarrow> t @ concat (map ((#) CHR '':'') r))"

lemma strsep_None: "strsep s = (t, None) \<Longrightarrow> s = t \<and> CHR '':'' \<notin> set t"
  by (induction s arbitrary: t) (auto simp: Let_def split: if_splits prod.splits)

lemma strsep_Some: "strsep s = (t, Some r) \<Longrightarrow> s = t @ CHR '':'' # r \<and> CHR '':'' \<notin> set t"
  by (induction s arbitrary: t) (auto simp: Let_def split: if_splits prod.splits)

lemma fields_step:
  "strsep s = (t, None) \<Longrightarrow> fields s = [t]" "strsep s = (t, Some r) \<Longrightarrow> fields s = t # fields r"
  by (simp_all add: fields.simps [of s])

lemma fields_nonempty: "fields s \<noteq> []"
  by (subst fields.simps) (simp split: prod.split option.split)

lemma fields_join: "join (fields s) = s \<and> (\<forall>t \<in> set (fields s). CHR '':'' \<notin> set t)"
proof (induction s rule: fields.induct)
  case (1 s)
  show ?case
  proof (cases "snd (strsep s)")
    case None
    then have "strsep s = (fst (strsep s), None)" by (cases "strsep s") simp
    then show ?thesis using strsep_None [of s "fst (strsep s)"] by (simp add: fields.simps [of s] join_def)
  next
    case (Some r)
    define t where "t = fst (strsep s)"
    have e: "strsep s = (t, Some r)" using Some by (cases "strsep s") (simp add: t_def)
    have ih: "join (fields r) = r \<and> (\<forall>t \<in> set (fields r). CHR '':'' \<notin> set t)" using "1.IH" e by simp
    obtain u us where f: "fields r = u # us" using fields_nonempty [of r] by (cases "fields r") auto
    then have "r = u @ concat (map ((#) CHR '':'') us)" using ih by (simp add: join_def)
    then have "join (t # fields r) = t @ CHR '':'' # r" using f by (simp add: join_def)
    moreover have "fields s = t # fields r" by (rule fields_step(2) [OF e])
    ultimately show ?thesis using ih strsep_Some [OF e] by (simp del: strsep.simps)
  qed
qed

definition candidate_of :: "string \<Rightarrow> string \<Rightarrow> string" where
  "candidate_of filename d = (if d = [] then ''.'' else d) @ ''/'' @ filename"

text \<open>The executables a path offers, in its order.\<close>

definition offers :: "world \<Rightarrow> string \<Rightarrow> string list \<Rightarrow> string list" where
  "offers w filename ds =
     filter (\<lambda>c. length c < PATH_MAX \<and> fst (is_there w \<lparr>silent = True, allpaths = True\<rparr> c)) (map (candidate_of filename) ds)"

lemma is_there_eq:
  "is_there w fl c = (fst (is_there w \<lparr>silent = True, allpaths = True\<rparr> c),
     if fst (is_there w \<lparr>silent = True, allpaths = True\<rparr> c) \<and> \<not> silent fl then [c] else [])"
  by (simp add: is_there_def)

lemma match_loop_eq:
  "match_loop w fl filename (Some p) found out =
     (let cs = offers w filename (fields p); shown = (if allpaths fl then cs else take 1 cs)
      in (found \<or> cs \<noteq> [], out @ (if silent fl then [] else shown)))"
proof (induction p arbitrary: found out rule: fields.induct)
  case (1 p)
  define d where "d = fst (strsep p)"
  let ?c = "candidate_of filename d"
  let ?here = "length ?c < PATH_MAX \<and> fst (is_there w \<lparr>silent = True, allpaths = True\<rparr> ?c)"
  have rest: "match_loop w fl filename (snd (strsep p)) f o' =
      (let cs = offers w filename (case snd (strsep p) of None \<Rightarrow> [] | Some r \<Rightarrow> fields r);
           shown = (if allpaths fl then cs else take 1 cs)
       in (f \<or> cs \<noteq> [], o' @ (if silent fl then [] else shown)))" for f o'
  proof (cases "snd (strsep p)")
    case None
    then show ?thesis by (simp add: match_loop.simps offers_def)
  next
    case (Some r)
    then have "strsep p = (d, Some r)" by (cases "strsep p") (simp add: d_def)
    then show ?thesis using "1.IH" by simp
  qed
  have fs: "fields p = d # (case snd (strsep p) of None \<Rightarrow> [] | Some r \<Rightarrow> fields r)"
    by (subst fields.simps) (simp add: d_def split: prod.split option.split)
  have off: "offers w filename (fields p) =
      (if ?here then [?c] else []) @ offers w filename (case snd (strsep p) of None \<Rightarrow> [] | Some r \<Rightarrow> fields r)"
    unfolding fs by (simp add: offers_def)
  have step: "match_loop w fl filename (Some p) found out =
      (if \<not> ?here then match_loop w fl filename (snd (strsep p)) found out
       else if \<not> allpaths fl then (True, out @ (if silent fl then [] else [?c]))
       else match_loop w fl filename (snd (strsep p)) True (out @ (if silent fl then [] else [?c])))"
  proof -
    have c: "(if fst (strsep p) = [] then ''.'' else fst (strsep p)) @ ''/'' @ filename = ?c"
      by (simp add: candidate_of_def d_def)
    show ?thesis
      unfolding match_loop.simps [of w fl filename "Some p"] option.case Let_def case_prod_beta c
        is_there_eq [of w fl ?c] fst_conv snd_conv
      by (auto simp: not_less)
  qed
  show ?case unfolding step off rest by (auto simp: Let_def)
qed

section \<open>Properties\<close>

text \<open>For a name without a slash, \<open>which\<close> prints the executables of that name in the fields of the path, in their order:
  all of them or only the first, nothing when silent, and it succeeds exactly when there is one.  An empty field
  stands for the working directory.\<close>

theorem print_matches_correct:
  assumes "CHR ''/'' \<notin> set filename"
  shows "print_matches w fl path filename =
      (if offers w filename (fields path) \<noteq> [] then 0 else -1,
       if silent fl then [] else if allpaths fl then offers w filename (fields path) else take 1 (offers w filename (fields path)))
    \<and> join (fields path) = path \<and> (\<forall>d \<in> set (fields path). CHR '':'' \<notin> set d)"
proof -
  have "print_matches w fl path filename = (let (found, lines) = match_loop w fl filename (Some path) False [] in (if found then 0 else -1, lines))"
    using assms by (simp add: print_matches_def)
  then have "print_matches w fl path filename =
      (if offers w filename (fields path) \<noteq> [] then 0 else -1,
       if silent fl then [] else if allpaths fl then offers w filename (fields path) else take 1 (offers w filename (fields path)))"
    unfolding match_loop_eq Let_def prod.case by simp
  with fields_join [of path] show ?thesis by blast
qed

theorem print_matches_correct_witness:
  "print_matches \<lparr>access_x = (\<lambda>c. c = ''/b/x''), stat_mode = (\<lambda>_. Some 0x81ED), uid = 5\<rparr> \<lparr>silent = False, allpaths = False\<rparr> ''/a:/b'' ''x''
    = (0, [''/b/x''])"
proof -
  let ?w = "\<lparr>access_x = (\<lambda>c. c = ''/b/x''), stat_mode = (\<lambda>_. Some 0x81ED), uid = 5\<rparr> :: world"
  have "strsep ''/a:/b'' = (''/a'', Some ''/b'')" "strsep ''/b'' = (''/b'', None)" by simp_all
  then have "fields ''/a:/b'' = [''/a'', ''/b'']" using fields_step by (simp only:)
  then have "offers ?w ''x'' (fields ''/a:/b'') = [''/b/x'']"
    by (simp add: offers_def candidate_of_def is_there_def S_ISREG_def PATH_MAX_def)
  then show ?thesis
    using print_matches_correct [of "''x''" ?w "\<lparr>silent = False, allpaths = False\<rparr>" "''/a:/b''"] by simp
qed

end
