(* ===== verification/Copy_State.thy ===== *)
theory Copy_State
  imports Stat_Conv
begin

text \<open>
  The state of \<open>copyfile\<close> (\<open>src/copyfile.c\<close>): \<open>struct _copyfile_state\<close>, its allocation and release, the public
  functions that read and set its parts, and the names and flags the other parts share.

  The surroundings are a record \<open>env\<close>: \<open>errno\<close>, the number of blocks allocated and not freed, and a world of any type
  that the system calls act on.  A system call is a function from its arguments and the surroundings to its result and the
  surroundings.  Allocation is given by \<open>mem\<close>: whether it succeeds while so many blocks are in use.  The strings of the
  state are blocks: the field holds the contents, and \<open>None\<close> is the null pointer.
\<close>

section \<open>Flags\<close>

definition COPYFILE_ACL :: u32 where "COPYFILE_ACL = 0x1"
definition COPYFILE_STAT :: u32 where "COPYFILE_STAT = 0x2"
definition COPYFILE_XATTR :: u32 where "COPYFILE_XATTR = 0x4"
definition COPYFILE_DATA :: u32 where "COPYFILE_DATA = 0x8"
definition COPYFILE_SECURITY :: u32 where "COPYFILE_SECURITY = COPYFILE_STAT OR COPYFILE_ACL"
definition COPYFILE_METADATA :: u32 where "COPYFILE_METADATA = COPYFILE_SECURITY OR COPYFILE_XATTR"
definition COPYFILE_ALL :: u32 where "COPYFILE_ALL = COPYFILE_METADATA OR COPYFILE_DATA"
definition COPYFILE_RECURSIVE :: u32 where "COPYFILE_RECURSIVE = 0x8000"
definition COPYFILE_CHECK :: u32 where "COPYFILE_CHECK = 0x10000"
definition COPYFILE_EXCL :: u32 where "COPYFILE_EXCL = 0x20000"
definition COPYFILE_NOFOLLOW_SRC :: u32 where "COPYFILE_NOFOLLOW_SRC = 0x40000"
definition COPYFILE_NOFOLLOW_DST :: u32 where "COPYFILE_NOFOLLOW_DST = 0x80000"
definition COPYFILE_MOVE :: u32 where "COPYFILE_MOVE = 0x100000"
definition COPYFILE_UNLINK :: u32 where "COPYFILE_UNLINK = 0x200000"
definition COPYFILE_NOFOLLOW :: u32 where "COPYFILE_NOFOLLOW = COPYFILE_NOFOLLOW_SRC OR COPYFILE_NOFOLLOW_DST"
definition COPYFILE_PACK :: u32 where "COPYFILE_PACK = 0x400000"
definition COPYFILE_UNPACK :: u32 where "COPYFILE_UNPACK = 0x800000"
definition COPYFILE_VERBOSE :: u32 where "COPYFILE_VERBOSE = 0x40000000"
definition COPYFILE_DEBUG :: u32 where "COPYFILE_DEBUG = 0x80000000"

lemmas copyfile_flags =
  COPYFILE_ACL_def COPYFILE_STAT_def COPYFILE_XATTR_def COPYFILE_DATA_def COPYFILE_SECURITY_def COPYFILE_METADATA_def
  COPYFILE_ALL_def COPYFILE_RECURSIVE_def COPYFILE_CHECK_def COPYFILE_EXCL_def COPYFILE_NOFOLLOW_SRC_def
  COPYFILE_NOFOLLOW_DST_def COPYFILE_MOVE_def COPYFILE_UNLINK_def COPYFILE_NOFOLLOW_def COPYFILE_PACK_def
  COPYFILE_UNPACK_def COPYFILE_VERBOSE_def COPYFILE_DEBUG_def

text \<open>Whether one of the flags of \<open>m\<close> is set in \<open>fl\<close>.\<close>

definition flagged :: "u32 \<Rightarrow> u32 \<Rightarrow> bool" where
  "flagged fl m \<longleftrightarrow> fl AND m \<noteq> 0"

definition COPYFILE_STATE_SRC_FD :: u32 where "COPYFILE_STATE_SRC_FD = 1"
definition COPYFILE_STATE_SRC_FILENAME :: u32 where "COPYFILE_STATE_SRC_FILENAME = 2"
definition COPYFILE_STATE_DST_FD :: u32 where "COPYFILE_STATE_DST_FD = 3"
definition COPYFILE_STATE_DST_FILENAME :: u32 where "COPYFILE_STATE_DST_FILENAME = 4"
definition COPYFILE_STATE_QUARANTINE :: u32 where "COPYFILE_STATE_QUARANTINE = 5"
definition COPYFILE_STATE_STATUS_CB :: u32 where "COPYFILE_STATE_STATUS_CB = 6"
definition COPYFILE_STATE_STATUS_CTX :: u32 where "COPYFILE_STATE_STATUS_CTX = 7"
definition COPYFILE_STATE_COPIED :: u32 where "COPYFILE_STATE_COPIED = 8"

lemmas copyfile_state_flags =
  COPYFILE_STATE_SRC_FD_def COPYFILE_STATE_SRC_FILENAME_def COPYFILE_STATE_DST_FD_def COPYFILE_STATE_DST_FILENAME_def
  COPYFILE_STATE_QUARANTINE_def COPYFILE_STATE_STATUS_CB_def COPYFILE_STATE_STATUS_CTX_def COPYFILE_STATE_COPIED_def

section \<open>Data\<close>

text \<open>An entry of an access control list; the qualifier is the identifier it applies to.\<close>

record acl_entry =
  ae_tag :: u32
  ae_applicable :: nat
  ae_flags :: u32
  ae_perms :: u32

text \<open>The security information of a file, each property set or not.\<close>

record filesec =
  fs_owner :: "u32 option"
  fs_group :: "u32 option"
  fs_mode :: "u16 option"
  fs_acl :: "acl_entry list option"
  fs_uuid :: "nat option"
  fs_grpuuid :: "nat option"

definition empty_filesec :: filesec where
  "empty_filesec = \<lparr>fs_owner = None, fs_group = None, fs_mode = None, fs_acl = None, fs_uuid = None, fs_grpuuid = None\<rparr>"

definition zero_stat :: stat_t where
  "zero_stat = \<lparr>st_dev = 0, st_ino = 0, st_mode = 0, st_nlink = 0, st_uid = 0, st_gid = 0, st_rdev = 0,
     st_atimespec = \<lparr>ts_sec = 0, ts_nsec = 0\<rparr>, st_mtimespec = \<lparr>ts_sec = 0, ts_nsec = 0\<rparr>, st_ctimespec = \<lparr>ts_sec = 0, ts_nsec = 0\<rparr>,
     st_size = 0, st_blocks = 0, st_blksize = 0, st_flags = 0, st_gen = 0, st_lspare = 0, st_qspare = (0, 0)\<rparr>"

text \<open>\<open>'q\<close> is the type of quarantine information, \<open>'cb\<close> that of status callbacks.\<close>

record ('q, 'cb) copyfile_state =
  src :: "string option"
  dst :: "string option"
  src_fd :: int
  dst_fd :: int
  sb :: stat_t
  fsec :: "filesec option"
  cf_flags :: u32
  internal_flags :: u32
  debug :: u32
  statuscb :: "'cb option"
  ctx :: u64
  qinfo :: "'q option"
  original_fsec :: "filesec option"
  permissive_fsec :: "filesec option"
  totalCopied :: u64
  cf_err :: errno

definition cfDelayAce :: u32 where "cfDelayAce = 1"

record 'w env =
  e_errno :: errno
  live :: int
  wld :: 'w

section \<open>Allocation\<close>

definition new_block :: "(int \<Rightarrow> bool) \<Rightarrow> 'a \<Rightarrow> 'w env \<Rightarrow> 'a option \<times> 'w env" where
  "new_block mem v e = (if mem (live e) then (Some v, e\<lparr>live := live e + 1\<rparr>) else (None, e\<lparr>e_errno := ENOMEM\<rparr>))"

definition free_block :: "'a option \<Rightarrow> 'w env \<Rightarrow> 'w env" where
  "free_block p e = (case p of None \<Rightarrow> e | Some _ \<Rightarrow> e\<lparr>live := live e - 1\<rparr>)"

lemma free_block_simps [simp]: "free_block None e = e" "free_block (Some v) e = e\<lparr>live := live e - 1\<rparr>"
  by (simp_all add: free_block_def)

definition filesec_init :: "(int \<Rightarrow> bool) \<Rightarrow> 'w env \<Rightarrow> filesec option \<times> 'w env" where
  "filesec_init mem e = new_block mem empty_filesec e"

text \<open>What \<open>calloc\<close> delivers for a state.\<close>

definition fresh_state :: "('q, 'cb) copyfile_state" where
  "fresh_state = \<lparr>src = None, dst = None, src_fd = 0, dst_fd = 0, sb = zero_stat, fsec = None, cf_flags = 0, internal_flags = 0,
     debug = 0, statuscb = None, ctx = 0, qinfo = None, original_fsec = None, permissive_fsec = None, totalCopied = 0,
     cf_err = Errno 0\<rparr>"

lemma fresh_state_simps [simp]:
  "src fresh_state = None" "dst fresh_state = None" "fsec fresh_state = None" "original_fsec fresh_state = None"
  "permissive_fsec fresh_state = None" "qinfo fresh_state = None" "statuscb fresh_state = None"
  "internal_flags fresh_state = 0" "sb fresh_state = zero_stat" "src_fd fresh_state = 0" "dst_fd fresh_state = 0"
  "totalCopied fresh_state = 0" "cf_flags fresh_state = 0" "cf_err fresh_state = Errno 0"
  by (simp_all add: fresh_state_def)

definition copyfile_state_alloc :: "(int \<Rightarrow> bool) \<Rightarrow> 'w env \<Rightarrow> ('q, 'cb) copyfile_state option \<times> 'w env" where
  "copyfile_state_alloc mem e =
     (case new_block mem () e of
        (None, e) \<Rightarrow> (None, e\<lparr>e_errno := ENOMEM\<rparr>)
      | (Some _, e) \<Rightarrow>
          (let (f, e) = filesec_init mem e
           in (Some (fresh_state\<lparr>src_fd := -2, dst_fd := -2, fsec := f\<rparr>), e)))"

text \<open>\<open>close\<close> is the system call.\<close>

definition copyfile_close :: "(int \<Rightarrow> 'w env \<Rightarrow> int \<times> 'w env) \<Rightarrow> ('q, 'cb) copyfile_state \<Rightarrow> 'w env \<Rightarrow> int \<times> 'w env" where
  "copyfile_close close s e =
     (let e = (if src s \<noteq> None \<and> 0 \<le> src_fd s then snd (close (src_fd s) e) else e)
      in if dst s \<noteq> None \<and> 0 \<le> dst_fd s
         then (let (r, e) = close (dst_fd s) e in (if r \<noteq> 0 then -1 else 0, e))
         else (0, e))"

definition copyfile_state_free :: "(int \<Rightarrow> 'w env \<Rightarrow> int \<times> 'w env) \<Rightarrow> ('q, 'cb) copyfile_state option \<Rightarrow> 'w env \<Rightarrow> int \<times> 'w env" where
  "copyfile_state_free close st e =
     (case st of
        None \<Rightarrow> (0, e)
      | Some s \<Rightarrow>
          (let e = free_block (fsec s) e;
               e = free_block (original_fsec s) e;
               e = free_block (permissive_fsec s) e;
               e = free_block (qinfo s) e;
               (r, e) = copyfile_close close s e
           in if r < 0 then (-1, e)
              else (0, free_block (Some s) (free_block (src s) (free_block (dst s) e)))))"

section \<open>Preamble and names\<close>

text \<open>
  \<open>debug_var\<close> is the value of the environment variable \<open>COPYFILE_DEBUG\<close>, \<open>strtol\<close> the library function in base zero: the
  number and the \<open>errno\<close> it leaves when that was zero.
\<close>

definition copyfile_preamble :: "(int \<Rightarrow> bool) \<Rightarrow> string option \<Rightarrow> (string \<Rightarrow> u32 \<times> errno) \<Rightarrow> ('q, 'cb) copyfile_state option \<Rightarrow> u32 \<Rightarrow> 'w env
    \<Rightarrow> int \<times> ('q, 'cb) copyfile_state option \<times> 'w env" where
  "copyfile_preamble mem debug_var strtol st fl e =
     (let (st, e) = (case st of None \<Rightarrow> copyfile_state_alloc mem e | Some s \<Rightarrow> (Some s, e))
      in case st of
           None \<Rightarrow> (-1, None, e)
         | Some s \<Rightarrow>
             (let (s, e) =
                (if flagged COPYFILE_DEBUG fl
                 then (case debug_var of
                         None \<Rightarrow> (s, e)
                       | Some v \<Rightarrow> (let (n, en) = strtol v
                                     in (s\<lparr>debug := (if n = 0 \<and> en \<noteq> Errno 0 then 1 else n)\<rparr>, e\<lparr>e_errno := en\<rparr>)))
                 else (s, e))
              in (0, Some (s\<lparr>cf_flags := fl\<rparr>), e)))"

text \<open>
  The macro \<open>COPYFILE_SET_FNAME\<close> on a name of the state and its descriptor.  \<open>None\<close> is the \<open>return -1\<close> of the function
  that uses it; the surroundings are then those given.
\<close>

definition MAXPATHLEN :: nat where "MAXPATHLEN = 1024"

definition COPYFILE_SET_FNAME :: "(int \<Rightarrow> 'w env \<Rightarrow> int \<times> 'w env) \<Rightarrow> (int \<Rightarrow> bool) \<Rightarrow> string option \<Rightarrow> string option \<times> int \<Rightarrow> 'w env
    \<Rightarrow> bool \<times> (string option \<times> int) \<times> 'w env" where
  "COPYFILE_SET_FNAME close mem name field e =
     (case name of
        None \<Rightarrow> (True, field, e)
      | Some n \<Rightarrow>
          (let (old, fd) = field;
               (fd, e) = (case old of
                            None \<Rightarrow> (fd, e)
                          | Some o' \<Rightarrow> if take MAXPATHLEN n \<noteq> take MAXPATHLEN o' \<and> fd \<noteq> -2 \<and> fd > -1
                                       then (-2, snd (close fd e)) else (fd, e));
               e = free_block old e
           in case new_block mem n e of
                (None, e) \<Rightarrow> (False, (None, fd), e)
              | (Some n, e) \<Rightarrow> (True, (Some n, fd), e)))"

section \<open>Reading and setting the state\<close>

datatype ('q, 'cb) cf_value = Fd int | Name "string option" | Quarantine "'q option" | Callback "'cb option" | Context u64 | Offset u64

text \<open>\<open>wanted\<close> is whether the caller gave a place for the value.\<close>

definition copyfile_state_get :: "('q, 'cb) copyfile_state \<Rightarrow> u32 \<Rightarrow> bool \<Rightarrow> errno + ('q, 'cb) cf_value" where
  "copyfile_state_get s flag wanted =
     (if \<not> wanted then Inl EFAULT
      else if flag = COPYFILE_STATE_SRC_FD then Inr (Fd (src_fd s))
      else if flag = COPYFILE_STATE_DST_FD then Inr (Fd (dst_fd s))
      else if flag = COPYFILE_STATE_SRC_FILENAME then Inr (Name (src s))
      else if flag = COPYFILE_STATE_DST_FILENAME then Inr (Name (dst s))
      else if flag = COPYFILE_STATE_QUARANTINE then Inr (Quarantine (qinfo s))
      else if flag = COPYFILE_STATE_STATUS_CB then Inr (Callback (statuscb s))
      else if flag = COPYFILE_STATE_STATUS_CTX then Inr (Context (ctx s))
      else if flag = COPYFILE_STATE_COPIED then Inr (Offset (totalCopied s))
      else Inl EINVAL)"

text \<open>
  The thing to set is what the pointer designates, \<open>None\<close> the null pointer.  A thing of another type than the flag asks for
  is undefined in C: \<open>None\<close>.  \<open>clone\<close> is \<open>qtn_file_clone\<close>.  A new name replaces the old one without freeing it.
\<close>

definition copyfile_state_set :: "(int \<Rightarrow> bool) \<Rightarrow> ('q \<Rightarrow> 'w env \<Rightarrow> 'q option \<times> 'w env) \<Rightarrow> ('q, 'cb) copyfile_state \<Rightarrow> u32 \<Rightarrow> ('q, 'cb) cf_value option \<Rightarrow> 'w env
    \<Rightarrow> (int \<times> ('q, 'cb) copyfile_state \<times> 'w env) option" where
  "copyfile_state_set mem clone s flag thing e =
     (case thing of
        None \<Rightarrow> Some (-1, s, e\<lparr>e_errno := EFAULT\<rparr>)
      | Some v \<Rightarrow>
          if flag = COPYFILE_STATE_SRC_FD then (case v of Fd fd \<Rightarrow> Some (0, s\<lparr>src_fd := fd\<rparr>, e) | _ \<Rightarrow> None)
          else if flag = COPYFILE_STATE_DST_FD then (case v of Fd fd \<Rightarrow> Some (0, s\<lparr>dst_fd := fd\<rparr>, e) | _ \<Rightarrow> None)
          else if flag = COPYFILE_STATE_SRC_FILENAME
            then (case v of Name (Some n) \<Rightarrow> (let (p, e) = new_block mem n e in Some (0, s\<lparr>src := p\<rparr>, e)) | _ \<Rightarrow> None)
          else if flag = COPYFILE_STATE_DST_FILENAME
            then (case v of Name (Some n) \<Rightarrow> (let (p, e) = new_block mem n e in Some (0, s\<lparr>dst := p\<rparr>, e)) | _ \<Rightarrow> None)
          else if flag = COPYFILE_STATE_QUARANTINE
            then (case v of
                    Quarantine q \<Rightarrow>
                      (let e = free_block (qinfo s) e;
                           (p, e) = (case q of None \<Rightarrow> (None, e) | Some q \<Rightarrow> clone q e)
                       in Some (0, s\<lparr>qinfo := p\<rparr>, e))
                  | _ \<Rightarrow> None)
          else if flag = COPYFILE_STATE_STATUS_CB then (case v of Callback (Some cb) \<Rightarrow> Some (0, s\<lparr>statuscb := Some cb\<rparr>, e) | _ \<Rightarrow> None)
          else if flag = COPYFILE_STATE_STATUS_CTX then (case v of Context p \<Rightarrow> Some (0, s\<lparr>ctx := p\<rparr>, e) | _ \<Rightarrow> None)
          else Some (-1, s, e\<lparr>e_errno := EINVAL\<rparr>))"

text \<open>\<open>qalloc\<close> is \<open>qtn_file_alloc\<close>, which is \<open>NULL\<close> on 10.4, and \<open>qinit\<close> is \<open>qtn_file_init_with_fd\<close>.\<close>

definition copyfile_quarantine :: "('w env \<Rightarrow> 'q option \<times> 'w env) \<Rightarrow> ('q \<Rightarrow> int \<Rightarrow> 'w env \<Rightarrow> (int \<times> 'q) \<times> 'w env) \<Rightarrow> ('q, 'cb) copyfile_state \<Rightarrow> 'w env
    \<Rightarrow> int \<times> ('q, 'cb) copyfile_state \<times> 'w env" where
  "copyfile_quarantine qalloc qinit s e =
     (case qinfo s of
        Some _ \<Rightarrow> (0, s, e)
      | None \<Rightarrow>
          (case qalloc e of
             (None, e) \<Rightarrow> (-1, s, e)
           | (Some q, e) \<Rightarrow>
               (let ((err, q), e) = qinit q (src_fd s) e
                in if err \<noteq> 0 then (-1, s, free_block (Some q) e)
                   else (0, s\<lparr>qinfo := Some q\<rparr>, e))))"

section \<open>Accounting for the blocks\<close>

text \<open>The number of blocks a state owns, itself included.\<close>

definition owned :: "('q, 'cb) copyfile_state \<Rightarrow> int" where
  "owned s = 1 + of_bool (src s \<noteq> None) + of_bool (dst s \<noteq> None) + of_bool (fsec s \<noteq> None) + of_bool (original_fsec s \<noteq> None)
     + of_bool (permissive_fsec s \<noteq> None) + of_bool (qinfo s \<noteq> None)"

primrec run_steps :: "('op \<Rightarrow> 's \<Rightarrow> 'w env \<Rightarrow> ('s \<times> 'w env) option) \<Rightarrow> 'op list \<Rightarrow> 's \<Rightarrow> 'w env \<Rightarrow> ('s \<times> 'w env) option" where
  "run_steps step [] s e = Some (s, e)"
| "run_steps step (x # xs) s e = (case step x s e of None \<Rightarrow> None | Some (s, e) \<Rightarrow> run_steps step xs s e)"

text \<open>Steps that account for their blocks: what is allocated beyond what the state owns does not change.\<close>

locale accounted_steps =
  fixes step :: "'op \<Rightarrow> 's \<Rightarrow> 'w env \<Rightarrow> ('s \<times> 'w env) option"
    and owns :: "'s \<Rightarrow> int"
  assumes step_accounts: "step x s e = Some (s', e') \<Longrightarrow> live e' - owns s' = live e - owns s"
begin

lemma run_accounts: "run_steps step xs s e = Some (s', e') \<Longrightarrow> live e' - owns s' = live e - owns s"
  by (induction xs arbitrary: s e) (auto split: option.splits dest: step_accounts)

end

text \<open>
  The calls that change names and other parts.  Setting a name through \<open>copyfile_state_set\<close> is only a step here while that
  name is not set.
\<close>

datatype ('q, 'cb) state_op = Set_src string | Set_dst string | Set_part u32 "('q, 'cb) cf_value option"

definition state_step :: "(int \<Rightarrow> 'w env \<Rightarrow> int \<times> 'w env) \<Rightarrow> (int \<Rightarrow> bool) \<Rightarrow> ('q \<Rightarrow> 'w env \<Rightarrow> 'q option \<times> 'w env)
    \<Rightarrow> ('q, 'cb) state_op \<Rightarrow> ('q, 'cb) copyfile_state \<Rightarrow> 'w env \<Rightarrow> (('q, 'cb) copyfile_state \<times> 'w env) option" where
  "state_step close mem clone x s e =
     (case x of
        Set_src n \<Rightarrow> (let (_, (p, fd), e) = COPYFILE_SET_FNAME close mem (Some n) (src s, src_fd s) e in Some (s\<lparr>src := p, src_fd := fd\<rparr>, e))
      | Set_dst n \<Rightarrow> (let (_, (p, fd), e) = COPYFILE_SET_FNAME close mem (Some n) (dst s, dst_fd s) e in Some (s\<lparr>dst := p, dst_fd := fd\<rparr>, e))
      | Set_part flag v \<Rightarrow>
          if flag = COPYFILE_STATE_SRC_FILENAME \<and> src s \<noteq> None \<or> flag = COPYFILE_STATE_DST_FILENAME \<and> dst s \<noteq> None then None
          else map_option snd (copyfile_state_set mem clone s flag v e))"

definition keeps_live :: "(int \<Rightarrow> 'w env \<Rightarrow> int \<times> 'w env) \<Rightarrow> bool" where
  "keeps_live close \<longleftrightarrow> (\<forall>fd e. live (snd (close fd e)) = live e)"

definition allocates :: "('q \<Rightarrow> 'w env \<Rightarrow> 'q option \<times> 'w env) \<Rightarrow> bool" where
  "allocates clone \<longleftrightarrow> (\<forall>q e. live (snd (clone q e)) = live e + of_bool (fst (clone q e) \<noteq> None))"

lemma new_block_accounts: "new_block mem v e = (p, e') \<Longrightarrow> live e' = live e + of_bool (p \<noteq> None)"
  by (auto simp: new_block_def split: if_splits)

lemma free_block_accounts: "live (free_block p e) = live e - of_bool (p \<noteq> None)"
  by (simp add: free_block_def split: option.split)

lemma set_fname_accounts:
  assumes "keeps_live close" and "COPYFILE_SET_FNAME close mem n (old, fd) e = (ok, (p, fd'), e')"
  shows "live e' - of_bool (p \<noteq> None) = live e - of_bool (old \<noteq> None)"
  using assms
  by (auto simp: COPYFILE_SET_FNAME_def keeps_live_def free_block_accounts Let_def dest!: new_block_accounts
      split: option.splits prod.splits if_splits)

lemma owned_updates [simp]:
  "owned (s\<lparr>src_fd := fd\<rparr>) = owned s" "owned (s\<lparr>dst_fd := fd\<rparr>) = owned s" "owned (s\<lparr>statuscb := c\<rparr>) = owned s" "owned (s\<lparr>ctx := p\<rparr>) = owned s"
  "owned (s\<lparr>src := n\<rparr>) = owned s + of_bool (n \<noteq> None) - of_bool (src s \<noteq> None)"
  "owned (s\<lparr>dst := n\<rparr>) = owned s + of_bool (n \<noteq> None) - of_bool (dst s \<noteq> None)"
  "owned (s\<lparr>qinfo := q\<rparr>) = owned s + of_bool (q \<noteq> None) - of_bool (qinfo s \<noteq> None)"
  by (simp_all add: owned_def)

lemma clone_accounts:
  assumes "allocates clone"
  shows "(case q of None \<Rightarrow> (None, e) | Some q \<Rightarrow> clone q e) = (p, e') \<Longrightarrow> live e' = live e + of_bool (p \<noteq> None)"
proof (cases q)
  case (Some x)
  assume "(case q of None \<Rightarrow> (None, e) | Some q \<Rightarrow> clone q e) = (p, e')"
  moreover have "live (snd (clone x e)) = live e + of_bool (fst (clone x e) \<noteq> None)" using assms by (simp only: allocates_def)
  ultimately show ?thesis using Some by simp
qed simp

lemma set_part_accounts:
  assumes "allocates clone" and "copyfile_state_set mem clone s flag v e = Some (r, s', e')"
    and "flag = COPYFILE_STATE_SRC_FILENAME \<Longrightarrow> src s = None" and "flag = COPYFILE_STATE_DST_FILENAME \<Longrightarrow> dst s = None"
  shows "live e' - owned s' = live e - owned s"
proof (cases v)
  case (Some x)
  note set = assms(2) [unfolded copyfile_state_set_def Some, simplified]
  show ?thesis
  proof (cases x)
    case (Name n)
    show ?thesis using set assms(3,4) unfolding Name
      by (auto simp: Let_def split: if_splits prod.splits option.splits dest!: new_block_accounts)
  next
    case (Quarantine q)
    show ?thesis using set unfolding Quarantine
      by (auto simp: Let_def free_block_accounts split: if_splits prod.splits dest!: clone_accounts [OF assms(1)])
  qed (use set in \<open>auto split: if_splits option.splits\<close>)
qed (use assms(2) in \<open>auto simp: copyfile_state_set_def\<close>)

lemma state_step_accounts:
  assumes "keeps_live close" and "allocates clone" and "state_step close mem clone x s e = Some (s', e')"
  shows "live e' - owned s' = live e - owned s"
proof (cases x)
  case (Set_src n)
  obtain ok p fd e1 where f: "COPYFILE_SET_FNAME close mem (Some n) (src s, src_fd s) e = (ok, (p, fd), e1)" by (metis prod_cases3 surj_pair)
  show ?thesis using assms(3) set_fname_accounts [OF assms(1) f] by (auto simp: state_step_def Set_src f)
next
  case (Set_dst n)
  obtain ok p fd e1 where f: "COPYFILE_SET_FNAME close mem (Some n) (dst s, dst_fd s) e = (ok, (p, fd), e1)" by (metis prod_cases3 surj_pair)
  show ?thesis using assms(3) set_fname_accounts [OF assms(1) f] by (auto simp: state_step_def Set_dst f)
next
  case (Set_part flag v)
  then obtain r where "copyfile_state_set mem clone s flag v e = Some (r, s', e')"
    "flag = COPYFILE_STATE_SRC_FILENAME \<Longrightarrow> src s = None" "flag = COPYFILE_STATE_DST_FILENAME \<Longrightarrow> dst s = None"
    using assms(3) by (auto simp: state_step_def split: if_splits)
  then show ?thesis using set_part_accounts [OF assms(2)] by blast
qed

lemma state_alloc_accounts:
  "copyfile_state_alloc mem e = (Some s, e') \<Longrightarrow> live e' = live e + owned s"
  by (auto simp: copyfile_state_alloc_def filesec_init_def owned_def dest!: new_block_accounts split: prod.splits option.splits)

lemma close_accounts: "keeps_live close \<Longrightarrow> live (snd (copyfile_close close s e)) = live e"
  by (auto simp: copyfile_close_def keeps_live_def Let_def split: prod.split) (metis snd_conv)+

lemma state_free_accounts:
  assumes "keeps_live close" and "copyfile_state_free close (Some s) e = (0, e')"
  shows "live e' = live e - owned s"
proof -
  have "copyfile_close close s e1 = (r, e2) \<Longrightarrow> live e2 = live e1" for e1 e2 r
    using close_accounts [OF assms(1), of s e1] by simp
  then show ?thesis using assms(2)
    by (auto simp: copyfile_state_free_def free_block_accounts owned_def Let_def split: prod.splits if_splits)
qed

text \<open>A system of descriptors for the instances: closing succeeds for the open ones; clones are copies.\<close>

definition close_fd :: "int \<Rightarrow> int set env \<Rightarrow> int \<times> int set env" where
  "close_fd fd e = (if fd \<in> wld e then (0, e\<lparr>wld := wld e - {fd}\<rparr>) else (-1, e\<lparr>e_errno := EBADF\<rparr>))"

definition clone_copy :: "'q \<Rightarrow> 'w env \<Rightarrow> 'q option \<times> 'w env" where
  "clone_copy q e = (Some q, e\<lparr>live := live e + 1\<rparr>)"

lemma close_fd_keeps_live: "keeps_live close_fd"
  by (simp add: keeps_live_def close_fd_def)

lemma clone_copy_allocates: "allocates clone_copy"
  by (simp add: allocates_def clone_copy_def)

interpretation copyfile_ops: accounted_steps "state_step close_fd mem clone_copy" owned for mem
  by unfold_locales (rule state_step_accounts [OF close_fd_keeps_live clone_copy_allocates])

section \<open>Properties\<close>

text \<open>Whatever names, descriptors and other parts are set on a fresh state, releasing it frees every block that was
  allocated for it, as long as no name that is already set is set again through \<open>copyfile_state_set\<close>.\<close>

theorem copyfile_state_balanced:
  assumes "copyfile_state_alloc mem e0 = (Some s1, e1)"
    and "run_steps (state_step close_fd mem clone_copy) ops s1 e1 = Some (s2, e2)"
    and "copyfile_state_free close_fd (Some s2) e2 = (0, e3)"
  shows "live e3 = live e0"
  using state_alloc_accounts [OF assms(1)] copyfile_ops.run_accounts [OF assms(2)]
    state_free_accounts [OF close_fd_keeps_live assms(3)] by simp

theorem copyfile_state_balanced_witness:
  "live (snd (copyfile_state_free close_fd (Some (fresh_state\<lparr>src_fd := -2, dst_fd := 3, fsec := Some empty_filesec, dst := Some ''b''\<rparr> :: (nat, nat) copyfile_state))
      \<lparr>e_errno = EINTR, live = 10, wld = {3}\<rparr>)) = 7"
proof -
  let ?s = "fresh_state\<lparr>src_fd := -2, dst_fd := -2, fsec := Some empty_filesec\<rparr> :: (nat, nat) copyfile_state"
  let ?e = "\<lambda>n. \<lparr>e_errno = EINTR, live = n, wld = {3 :: int}\<rparr>"
  have a: "copyfile_state_alloc (\<lambda>_. True) (?e 7) = (Some ?s, ?e 9)"
    by (simp add: copyfile_state_alloc_def filesec_init_def new_block_def)
  have r: "run_steps (state_step close_fd (\<lambda>_. True) clone_copy) [Set_dst ''a'', Set_dst ''b'', Set_part COPYFILE_STATE_DST_FD (Some (Fd 3))] ?s (?e 9)
    = Some (?s\<lparr>dst_fd := 3, dst := Some ''b''\<rparr>, ?e 10)"
    by (simp add: state_step_def COPYFILE_SET_FNAME_def copyfile_state_set_def copyfile_state_flags MAXPATHLEN_def new_block_def fresh_state_def)
  have f: "copyfile_state_free close_fd (Some (?s\<lparr>dst_fd := 3, dst := Some ''b''\<rparr>)) (?e 10) = (0, \<lparr>e_errno = EINTR, live = 7, wld = {}\<rparr>)"
    by (simp add: copyfile_state_free_def copyfile_close_def close_fd_def fresh_state_def)
  show ?thesis using copyfile_state_balanced [OF a r f] f by (simp add: fresh_state_def)
qed

text \<open>Setting a name twice through \<open>copyfile_state_set\<close> loses a block.\<close>

theorem copyfile_state_set_leaks:
  assumes "src s = Some old" and "mem (live e)"
  shows "\<exists>s' e'. copyfile_state_set mem clone s COPYFILE_STATE_SRC_FILENAME (Some (Name (Some n))) e = Some (0, s', e')
    \<and> live e' = live e + 1 \<and> owned s' = owned s"
  using assms by (simp add: copyfile_state_set_def copyfile_state_flags new_block_def owned_def)

theorem copyfile_state_set_leaks_witness:
  "\<exists>s' e'. copyfile_state_set (\<lambda>_. True) clone_copy (fresh_state\<lparr>src := Some ''a''\<rparr> :: (nat, nat) copyfile_state)
      COPYFILE_STATE_SRC_FILENAME (Some (Name (Some ''b''))) \<lparr>e_errno = EINTR, live = 3, wld = ()\<rparr> = Some (0, s', e') \<and> live e' = 4"
  using copyfile_state_set_leaks [of "fresh_state\<lparr>src := Some ''a''\<rparr> :: (nat, nat) copyfile_state" "''a''" "\<lambda>_. True"
      "\<lparr>e_errno = EINTR, live = 3, wld = ()\<rparr>" clone_copy "''b''"] by auto

end
