(* ===== verification/Copy_Data.thy ===== *)
theory Copy_Data
  imports Copy_State
begin

text \<open>
  \<open>copyfile_data\<close> of \<open>src/copyfile.c\<close>: copying the contents of a file by its descriptors, with short reads and writes, the
  status callback and its answers.  The calls of the system are a record of functions.  A callback may read the state and
  act on the world, but not change the state.
\<close>

record ('q, 'cb, 'w) file_calls =
  fc_mem :: "int \<Rightarrow> bool"
  fc_iosize :: "int \<Rightarrow> 'w env \<Rightarrow> size_t option \<times> 'w env"
  fc_preallocate :: "int \<Rightarrow> u64 \<Rightarrow> 'w env \<Rightarrow> 'w env"
  fc_read :: "int \<Rightarrow> nat \<Rightarrow> 'w env \<Rightarrow> byte list option \<times> 'w env"
  fc_write :: "int \<Rightarrow> byte list \<Rightarrow> 'w env \<Rightarrow> int \<times> 'w env"
  fc_ftruncate :: "int \<Rightarrow> u64 \<Rightarrow> 'w env \<Rightarrow> int \<times> 'w env"
  fc_status :: "'cb \<Rightarrow> int \<Rightarrow> int \<Rightarrow> ('q, 'cb) copyfile_state \<Rightarrow> 'w env \<Rightarrow> int \<times> 'w env"

definition COPYFILE_COPY_DATA :: int where "COPYFILE_COPY_DATA = 4"
definition COPYFILE_ERR :: int where "COPYFILE_ERR = 3"
definition COPYFILE_PROGRESS :: int where "COPYFILE_PROGRESS = 4"
definition COPYFILE_CONTINUE :: int where "COPYFILE_CONTINUE = 0"
definition COPYFILE_SKIP :: int where "COPYFILE_SKIP = 1"
definition COPYFILE_QUIT :: int where "COPYFILE_QUIT = 2"

text \<open>The report after a write: whether the callback asks to quit.\<close>

definition report_progress :: "('q, 'cb, 'w) file_calls \<Rightarrow> ('q, 'cb) copyfile_state \<Rightarrow> 'w env \<Rightarrow> bool \<times> 'w env" where
  "report_progress io s e =
     (case statuscb s of
        None \<Rightarrow> (False, e)
      | Some cb \<Rightarrow> (let (rv, e) = fc_status io cb COPYFILE_COPY_DATA COPYFILE_PROGRESS s e in (rv = COPYFILE_QUIT, e)))"

text \<open>
  Writing the bytes \<open>ptr\<close>.  The first part of the result is \<open>None\<close> when all are written and the value returned when the code
  jumps to the exit.  A retry asked for by the callback may go on for ever, which is \<open>None\<close> for the whole.
\<close>

partial_function (option) write_loop :: "('q, 'cb, 'w) file_calls \<Rightarrow> size_t \<Rightarrow> int \<Rightarrow> byte list \<Rightarrow> ('q, 'cb) copyfile_state \<Rightarrow> 'w env
    \<Rightarrow> (int option \<times> ('q, 'cb) copyfile_state \<times> 'w env) option" where
  "write_loop io oBlocksize loop ptr s e =
     (if ptr = [] then Some (None, s, e)
      else (let (nwritten, e) = fc_write io (dst_fd s) (take (unat oBlocksize) ptr) e
            in if nwritten = 0
               then (if loop + 1 > 5 then Some (Some (-1), s\<lparr>cf_err := EAGAIN\<rparr>, e)
                     else (let (stop, e) = report_progress io s e
                           in if stop then Some (Some (-1), s\<lparr>cf_err := ECANCELED\<rparr>, e)
                              else write_loop io oBlocksize (loop + 1) ptr s e))
               else if nwritten = -1
               then (case statuscb s of
                       None \<Rightarrow> Some (Some (-1), s, e)
                     | Some cb \<Rightarrow>
                         (let (rv, e) = fc_status io cb COPYFILE_COPY_DATA COPYFILE_ERR s e
                          in if rv = COPYFILE_SKIP then Some (Some 0, s, e)
                             else if rv = COPYFILE_CONTINUE then write_loop io oBlocksize loop ptr s (e\<lparr>e_errno := Errno 0\<rparr>)
                             else Some (Some (-1), s, e)))
               else (let s = s\<lparr>totalCopied := totalCopied s + word_of_int nwritten\<rparr>;
                         (stop, e) = report_progress io s e
                     in if stop then Some (Some (-1), s\<lparr>cf_err := ECANCELED\<rparr>, e)
                        else write_loop io oBlocksize 0 (drop (nat nwritten) ptr) s e)))"

declare write_loop.simps [simp del]

partial_function (option) copy_loop :: "('q, 'cb, 'w) file_calls \<Rightarrow> size_t \<Rightarrow> size_t \<Rightarrow> ('q, 'cb) copyfile_state \<Rightarrow> 'w env
    \<Rightarrow> (int option \<times> ('q, 'cb) copyfile_state \<times> 'w env) option" where
  "copy_loop io blen oBlocksize s e =
     (let (r, e) = fc_read io (src_fd s) (unat blen) e
      in case r of
           None \<Rightarrow> Some (Some (-1), s, e)
         | Some d \<Rightarrow>
             if d = [] then Some (None, s, e)
             else do { (x, s, e) \<leftarrow> write_loop io oBlocksize 0 d s e;
                       (case x of Some r \<Rightarrow> Some (Some r, s, e) | None \<Rightarrow> copy_loop io blen oBlocksize s e) })"

declare copy_loop.simps [simp del]

definition onegig :: size_t where "onegig = 0x40000000"

text \<open>The block sizes: of the source, at most a gigabyte, and of the destination, where the system knows it.\<close>

definition source_block :: "stat_t \<Rightarrow> size_t option \<Rightarrow> size_t" where
  "source_block st fs = min (case fs of None \<Rightarrow> scast (st_blksize st) | Some n \<Rightarrow> n) onegig"

definition dest_block :: "size_t \<Rightarrow> size_t option \<Rightarrow> size_t" where
  "dest_block ib fs = (case fs of None \<Rightarrow> ib | Some n \<Rightarrow> if n = 0 then ib else min n onegig)"

definition copyfile_data :: "('q, 'cb, 'w) file_calls \<Rightarrow> ('q, 'cb) copyfile_state \<Rightarrow> 'w env
    \<Rightarrow> (int \<times> ('q, 'cb) copyfile_state \<times> 'w env) option" where
  "copyfile_data io s e =
     (if st_mode (sb s) AND S_IFMT \<noteq> S_IFREG then Some (0, s, e)
      else (let (fs, e) = fc_iosize io (src_fd s) e;
                iBlocksize = source_block (sb s) fs;
                (bp, e) = new_block (fc_mem io) () e
            in if bp = None then Some (-1, s, e)
               else (let (fs, e) = fc_iosize io (dst_fd s) e;
                         oBlocksize = dest_block iBlocksize fs;
                         s = s\<lparr>totalCopied := 0\<rparr>;
                         e = fc_preallocate io (dst_fd s) (st_size (sb s)) e
                     in do { (x, s, e) \<leftarrow> copy_loop io iBlocksize oBlocksize s e;
                             let (ret, e) = (case x of
                                               Some r \<Rightarrow> (r, e)
                                             | None \<Rightarrow> (let (t, e) = fc_ftruncate io (dst_fd s) (st_size (sb s)) e
                                                        in (if t < 0 then -1 else 0, e)));
                             let s = (if ret = -1 then s\<lparr>cf_err := e_errno e\<rparr> else s);
                             Some (ret, s, free_block bp e) })))"

section \<open>Reading and writing files that do not fail\<close>

text \<open>
  What the copy relies on: a read delivers some of what is left, at least a byte when there is one, and a write takes at
  least a byte.  \<open>unread\<close> is what is left to read of the source, \<open>written\<close> what is before the position of
  the destination, \<open>kept\<close> what the calls leave alone.
\<close>

locale steady_files =
  fixes io :: "('q, 'cb, 'w) file_calls"
    and sfd dfd :: int
    and unread :: "'w \<Rightarrow> byte list"
    and written :: "'w \<Rightarrow> byte list"
    and kept :: "'w \<Rightarrow> 'k"
    and ok :: "'w \<Rightarrow> bool"
  assumes reads: "ok (wld e) \<Longrightarrow> 0 < n \<Longrightarrow> \<exists>d e'. fc_read io sfd n e = (Some d, e') \<and> unread (wld e) = d @ unread (wld e')
      \<and> (d = [] \<longrightarrow> unread (wld e) = []) \<and> written (wld e') = written (wld e) \<and> ok (wld e') \<and> kept (wld e') = kept (wld e) \<and> live e' = live e"
    and writes: "ok (wld e) \<Longrightarrow> buf \<noteq> [] \<Longrightarrow> \<exists>n e'. fc_write io dfd buf e = (int n, e') \<and> 0 < n \<and> n \<le> length buf
      \<and> written (wld e') = written (wld e) @ take n buf \<and> unread (wld e') = unread (wld e) \<and> ok (wld e') \<and> kept (wld e') = kept (wld e) \<and> live e' = live e"
begin

lemma write_all:
  assumes "0 < unat ob" and "ok (wld e)" and "dst_fd s = dfd" and "statuscb s = None"
  shows "\<exists>e'. write_loop io ob l buf s e = Some (None, s\<lparr>totalCopied := totalCopied s + of_nat (length buf)\<rparr>, e')
    \<and> written (wld e') = written (wld e) @ buf \<and> unread (wld e') = unread (wld e) \<and> ok (wld e') \<and> kept (wld e') = kept (wld e) \<and> live e' = live e"
  using assms(2-)
proof (induction buf arbitrary: l s e rule: length_induct)
  case (1 buf)
  show ?case
  proof (cases "buf = []")
    case True
    then show ?thesis using 1(2) by (simp add: write_loop.simps)
  next
    case False
    then have ne: "take (unat ob) buf \<noteq> []" using assms(1) by simp
    obtain n e1 where w: "fc_write io dfd (take (unat ob) buf) e = (int n, e1)" "0 < n" "n \<le> length (take (unat ob) buf)"
      "written (wld e1) = written (wld e) @ take n (take (unat ob) buf)" "unread (wld e1) = unread (wld e)" "ok (wld e1)" "kept (wld e1) = kept (wld e)" "live e1 = live e"
      using writes [OF 1(2) ne] by blast
    have nl: "n \<le> length buf" "min n (unat ob) = n" using w(3) by auto
    let ?s = "s\<lparr>totalCopied := totalCopied s + word_of_int (int n)\<rparr>"
    have d: "length (drop n buf) < length buf" using w(2) False by simp
    have sc: "dst_fd ?s = dfd" "statuscb ?s = None" using 1(3,4) by simp_all
    obtain e' where r: "write_loop io ob 0 (drop n buf) ?s e1 = Some (None, ?s\<lparr>totalCopied := totalCopied ?s + of_nat (length (drop n buf))\<rparr>, e')"
      "written (wld e') = written (wld e1) @ drop n buf" "unread (wld e') = unread (wld e1)" "ok (wld e')" "kept (wld e') = kept (wld e1)" "live e' = live e1"
      using 1(1) d w(6) sc by blast
    have "totalCopied s + word_of_int (int n) + of_nat (length (drop n buf)) = totalCopied s + of_nat (length buf)"
      using nl(1) by (simp add: of_nat_diff)
    then have fin: "?s\<lparr>totalCopied := totalCopied ?s + of_nat (length (drop n buf))\<rparr> = s\<lparr>totalCopied := totalCopied s + of_nat (length buf)\<rparr>"
      by simp
    have "write_loop io ob l buf s e = write_loop io ob 0 (drop n buf) ?s e1"
      using False w(1,2) 1(3,4) by (subst write_loop.simps) (simp add: report_progress_def)
    then show ?thesis using r fin w(4,5,7,8) nl by (simp add: min.commute append_assoc del: of_nat_diff)
  qed
qed

lemma copy_all:
  assumes "0 < unat ib" and "0 < unat ob" and "ok (wld e)" and "src_fd s = sfd" and "dst_fd s = dfd" and "statuscb s = None"
  shows "\<exists>e'. copy_loop io ib ob s e = Some (None, s\<lparr>totalCopied := totalCopied s + of_nat (length (unread (wld e)))\<rparr>, e')
    \<and> written (wld e') = written (wld e) @ unread (wld e) \<and> unread (wld e') = [] \<and> ok (wld e') \<and> kept (wld e') = kept (wld e) \<and> live e' = live e"
  using assms(3-)
proof (induction "unread (wld e)" arbitrary: s e rule: length_induct)
  case 1
  obtain d e1 where r: "fc_read io sfd (unat ib) e = (Some d, e1)" "unread (wld e) = d @ unread (wld e1)" "d = [] \<longrightarrow> unread (wld e) = []"
    "written (wld e1) = written (wld e)" "ok (wld e1)" "kept (wld e1) = kept (wld e)" "live e1 = live e"
    using reads [OF 1(2) assms(1)] by blast
  show ?case
  proof (cases "d = []")
    case True
    then show ?thesis using r 1(3) by (subst copy_loop.simps) simp
  next
    case False
    let ?s = "s\<lparr>totalCopied := totalCopied s + of_nat (length d)\<rparr>"
    obtain e2 where w: "write_loop io ob 0 d s e1 = Some (None, ?s, e2)" "written (wld e2) = written (wld e1) @ d"
      "unread (wld e2) = unread (wld e1)" "ok (wld e2)" "kept (wld e2) = kept (wld e1)" "live e2 = live e1"
      using write_all [OF assms(2) r(5) 1(4,5)] by blast
    have "length (unread (wld e2)) < length (unread (wld e))" using r(2) w(3) False by simp
    moreover have "src_fd ?s = sfd" "dst_fd ?s = dfd" "statuscb ?s = None" using 1(3-5) by simp_all
    ultimately obtain e' where c: "copy_loop io ib ob ?s e2 = Some (None, ?s\<lparr>totalCopied := totalCopied ?s + of_nat (length (unread (wld e2)))\<rparr>, e')"
      "written (wld e') = written (wld e2) @ unread (wld e2)" "unread (wld e') = []" "ok (wld e')" "kept (wld e') = kept (wld e2)" "live e' = live e2"
      using 1(1) w(4) by blast
    have "copy_loop io ib ob s e = copy_loop io ib ob ?s e2"
      using r(1) False w(1) 1(3) by (subst copy_loop.simps) simp
    then show ?thesis using c r w by (simp add: add.assoc)
  qed
qed

end

section \<open>Files with positions\<close>

text \<open>
  A system of files: contents and position by descriptor.  The calls take what a schedule allows, at least a byte, and never
  fail.
\<close>

record fworld =
  file_of :: "int \<Rightarrow> byte list"
  pos :: "int \<Rightarrow> nat"
  sizes :: "nat list"

definition step_size :: "'x fworld_scheme \<Rightarrow> nat" where
  "step_size w = (case sizes w of [] \<Rightarrow> 0 | n # _ \<Rightarrow> n) + 1"

definition file_read :: "int \<Rightarrow> nat \<Rightarrow> 'x fworld_scheme env \<Rightarrow> byte list option \<times> 'x fworld_scheme env" where
  "file_read fd n e =
     (let w = wld e; d = take (min n (step_size w)) (drop (pos w fd) (file_of w fd))
      in (Some d, e\<lparr>wld := w\<lparr>pos := (pos w)(fd := pos w fd + length d), sizes := tl (sizes w)\<rparr>\<rparr>))"

definition file_write :: "int \<Rightarrow> byte list \<Rightarrow> 'x fworld_scheme env \<Rightarrow> int \<times> 'x fworld_scheme env" where
  "file_write fd buf e =
     (let w = wld e; d = take (step_size w) buf; c = file_of w fd; p = pos w fd
      in (int (length d), e\<lparr>wld := w\<lparr>file_of := (file_of w)(fd := take p c @ replicate (p - length c) 0 @ d @ drop (p + length d) c),
            pos := (pos w)(fd := p + length d), sizes := tl (sizes w)\<rparr>\<rparr>))"

definition file_truncate :: "int \<Rightarrow> u64 \<Rightarrow> 'x fworld_scheme env \<Rightarrow> int \<times> 'x fworld_scheme env" where
  "file_truncate fd n e =
     (let w = wld e; c = file_of w fd
      in (0, e\<lparr>wld := w\<lparr>file_of := (file_of w)(fd := take (unat n) c @ replicate (unat n - length c) 0)\<rparr>\<rparr>))"

definition file_system :: "(int \<Rightarrow> bool) \<Rightarrow> (int \<Rightarrow> size_t option) \<Rightarrow> ('q, 'cb, 'x fworld_scheme) file_calls" where
  "file_system mem bs = \<lparr>fc_mem = mem, fc_iosize = (\<lambda>fd e. (bs fd, e)), fc_preallocate = (\<lambda>fd n e. e), fc_read = file_read,
     fc_write = file_write, fc_ftruncate = file_truncate, fc_status = (\<lambda>cb what stage s e. (COPYFILE_CONTINUE, e))\<rparr>"

lemma take_drop_length: "xs = take m xs @ drop (length (take m xs)) xs"
  by (cases "m \<le> length xs") simp_all

definition at_end :: "int \<Rightarrow> int \<Rightarrow> 'x fworld_scheme \<Rightarrow> bool" where
  "at_end sfd dfd w \<longleftrightarrow> sfd \<noteq> dfd \<and> pos w dfd \<le> length (file_of w dfd)"

definition other_files :: "int \<Rightarrow> 'x fworld_scheme \<Rightarrow> (int \<Rightarrow> byte list) \<times> 'x" where
  "other_files dfd w = ((file_of w)(dfd := []), fworld.more w)"

interpretation copy_files: steady_files "file_system mem bs" sfd dfd
    "\<lambda>w. drop (pos w sfd) (file_of w sfd)" "\<lambda>w. take (pos w dfd) (file_of w dfd)" "other_files dfd" "at_end sfd dfd"
  for mem bs sfd dfd
proof unfold_locales
  fix e :: "'x fworld_scheme env" and n :: nat
  assume ok: "at_end sfd dfd (wld e)" and n: "0 < n"
  let ?w = "wld e"
  let ?d = "take (min n (step_size ?w)) (drop (pos ?w sfd) (file_of ?w sfd))"
  let ?e = "e\<lparr>wld := ?w\<lparr>pos := (pos ?w)(sfd := pos ?w sfd + length ?d), sizes := tl (sizes ?w)\<rparr>\<rparr>"
  have r: "fc_read (file_system mem bs) sfd n e = (Some ?d, ?e)" by (simp add: file_system_def file_read_def Let_def)
  have d: "drop (pos ?w sfd) (file_of ?w sfd) = ?d @ drop (pos ?w sfd + length ?d) (file_of ?w sfd)"
    using take_drop_length [of "drop (pos ?w sfd) (file_of ?w sfd)" "min n (step_size ?w)"]
    by (simp only: drop_drop add.commute)
  have e: "?d = [] \<longrightarrow> drop (pos ?w sfd) (file_of ?w sfd) = []" using n by (simp add: step_size_def min_def)
  have "drop (pos (wld ?e) sfd) (file_of (wld ?e) sfd) = drop (pos ?w sfd + length ?d) (file_of ?w sfd)" by simp
  moreover have "take (pos (wld ?e) dfd) (file_of (wld ?e) dfd) = take (pos ?w dfd) (file_of ?w dfd)" "at_end sfd dfd (wld ?e)"
    "other_files dfd (wld ?e) = other_files dfd ?w" "live ?e = live e"
    using ok by (simp_all add: at_end_def other_files_def)
  ultimately show "\<exists>d e'. fc_read (file_system mem bs) sfd n e = (Some d, e')
      \<and> drop (pos (wld e) sfd) (file_of (wld e) sfd) = d @ drop (pos (wld e') sfd) (file_of (wld e') sfd)
      \<and> (d = [] \<longrightarrow> drop (pos (wld e) sfd) (file_of (wld e) sfd) = [])
      \<and> take (pos (wld e') dfd) (file_of (wld e') dfd) = take (pos (wld e) dfd) (file_of (wld e) dfd)
      \<and> at_end sfd dfd (wld e') \<and> other_files dfd (wld e') = other_files dfd (wld e) \<and> live e' = live e"
    using r d e by metis
next
  fix e :: "'x fworld_scheme env" and buf :: "byte list"
  assume ok: "at_end sfd dfd (wld e)" and b: "buf \<noteq> []"
  let ?n = "min (length buf) (step_size (wld e))"
  have n: "0 < ?n" using b by (simp add: step_size_def)
  show "\<exists>n e'. fc_write (file_system mem bs) dfd buf e = (int n, e') \<and> 0 < n \<and> n \<le> length buf
      \<and> take (pos (wld e') dfd) (file_of (wld e') dfd) = take (pos (wld e) dfd) (file_of (wld e) dfd) @ take n buf
      \<and> drop (pos (wld e') sfd) (file_of (wld e') sfd) = drop (pos (wld e) sfd) (file_of (wld e) sfd)
      \<and> at_end sfd dfd (wld e') \<and> other_files dfd (wld e') = other_files dfd (wld e) \<and> live e' = live e"
    by (rule exI [of _ ?n]) (use ok n in \<open>auto simp: file_system_def file_write_def at_end_def other_files_def Let_def fun_eq_iff min_def\<close>)
qed

lemma file_system_simps [simp]:
  "fc_mem (file_system mem bs) = mem" "fc_iosize (file_system mem bs) fd e = (bs fd, e)"
  "fc_preallocate (file_system mem bs) fd m e = e" "fc_read (file_system mem bs) = file_read"
  "fc_write (file_system mem bs) = file_write" "fc_ftruncate (file_system mem bs) = file_truncate"
  by (simp_all add: file_system_def)

lemma dest_block_positive: "ib \<noteq> 0 \<Longrightarrow> dest_block ib fs \<noteq> 0"
  by (auto simp: dest_block_def onegig_def min_def split: option.split)

lemma data_copied:
  assumes "st_mode (sb s) AND S_IFMT = S_IFREG" and "statuscb s = None" and "mem (live e)"
    and "src_fd s \<noteq> dst_fd s" and "pos (wld e) (src_fd s) = 0" and "pos (wld e) (dst_fd s) = 0"
    and "source_block (sb s) (bs (src_fd s)) \<noteq> 0" and "unat (st_size (sb s)) = length (file_of (wld e) (src_fd s))"
  shows "\<exists>e'. copyfile_data (file_system mem bs) s e = Some (0, s\<lparr>totalCopied := st_size (sb s)\<rparr>, e')
    \<and> file_of (wld e') = (file_of (wld e))(dst_fd s := file_of (wld e) (src_fd s)) \<and> live e' = live e
    \<and> fworld.more (wld e') = fworld.more (wld e)"
proof -
  let ?w = "wld e"
  let ?e = "e\<lparr>live := live e + 1\<rparr>"
  let ?s = "s\<lparr>totalCopied := 0\<rparr>"
  let ?ib = "source_block (sb s) (bs (src_fd s))"
  have b: "0 < unat ?ib" "0 < unat (dest_block ?ib (bs (dst_fd s)))"
    using assms(7) dest_block_positive by (simp_all add: unat_gt_0)
  have ok: "at_end (src_fd s) (dst_fd s) (wld ?e)" using assms(4,6) by (simp add: at_end_def)
  obtain e1 where c: "copy_loop (file_system mem bs) ?ib (dest_block ?ib (bs (dst_fd s))) ?s ?e
      = Some (None, ?s\<lparr>totalCopied := totalCopied ?s + of_nat (length (drop (pos (wld ?e) (src_fd s)) (file_of (wld ?e) (src_fd s))))\<rparr>, e1)"
    "take (pos (wld e1) (dst_fd s)) (file_of (wld e1) (dst_fd s)) = take (pos (wld ?e) (dst_fd s)) (file_of (wld ?e) (dst_fd s))
      @ drop (pos (wld ?e) (src_fd s)) (file_of (wld ?e) (src_fd s))"
    "at_end (src_fd s) (dst_fd s) (wld e1)" "other_files (dst_fd s) (wld e1) = other_files (dst_fd s) (wld ?e)" "live e1 = live ?e"
    using copy_files.copy_all [OF b ok, of ?s] assms(2) by auto
  let ?c = "file_of ?w (src_fd s)"
  have t: "take (pos (wld e1) (dst_fd s)) (file_of (wld e1) (dst_fd s)) = ?c" using c(2) assms(5,6) by simp
  have l: "length ?c \<le> length (file_of (wld e1) (dst_fd s))" using t [symmetric] by (metis length_take min.cobounded1)
  have "length ?c = pos (wld e1) (dst_fd s)" using t c(3) by (simp add: at_end_def) (metis length_take min_absorb2)
  then have t2: "take (length ?c) (file_of (wld e1) (dst_fd s)) = ?c" using t by simp
  have f: "(file_of (wld e1))(dst_fd s := ?c) = (file_of ?w)(dst_fd s := ?c)"
    using arg_cong [OF c(4), of "\<lambda>f. (fst f)(dst_fd s := ?c)"] by (simp add: other_files_def)
  have r: "fworld.more (wld e1) = fworld.more ?w" using c(4) by (simp add: other_files_def)
  have n: "of_nat (length ?c) = st_size (sb s)" by (simp add: assms(8) [symmetric])
  show ?thesis
    using assms(1-3) c(1,5) t2 l f n r assms(5) assms(8)
    by (simp add: copyfile_data_def new_block_def file_truncate_def Let_def)
qed

section \<open>Properties\<close>

text \<open>C13: Copying a regular file ends and succeeds under every schedule of short reads and writes: the destination then has
  exactly the contents of the source, whatever it held before, every other file is as it was, the number of bytes copied is
  the size, and the buffer is freed.\<close>

theorem copyfile_data_copies:
  assumes "st_mode (sb s) AND S_IFMT = S_IFREG" and "statuscb s = None" and "mem (live e)"
    and "src_fd s \<noteq> dst_fd s" and "pos (wld e) (src_fd s) = 0" and "pos (wld e) (dst_fd s) = 0"
    and "source_block (sb s) (bs (src_fd s)) \<noteq> 0" and "unat (st_size (sb s)) = length (file_of (wld e) (src_fd s))"
  shows "\<exists>e'. copyfile_data (file_system mem bs) s e = Some (0, s\<lparr>totalCopied := st_size (sb s)\<rparr>, e')
    \<and> file_of (wld e') = (file_of (wld e))(dst_fd s := file_of (wld e) (src_fd s)) \<and> live e' = live e"
  using data_copied [where mem = mem and bs = bs and s = s and e = e, OF assms] by blast

theorem copyfile_data_copies_witness:
  "\<exists>e'. copyfile_data (file_system (\<lambda>_. True) (\<lambda>_. Some 4)) (fresh_state\<lparr>src_fd := 3, dst_fd := 4, sb := zero_stat\<lparr>st_mode := 0x81A4, st_size := 5\<rparr>\<rparr>)
      \<lparr>e_errno = EINTR, live = 0, wld = \<lparr>file_of = (\<lambda>fd. if fd = 3 then [1, 2, 3, 4, 5] else [9, 9, 9, 9, 9, 9]), pos = (\<lambda>_. 0), sizes = [1, 0]\<rparr>\<rparr>
    = Some (0, fresh_state\<lparr>src_fd := 3, dst_fd := 4, sb := zero_stat\<lparr>st_mode := 0x81A4, st_size := 5\<rparr>, totalCopied := 5\<rparr>, e')
    \<and> file_of (wld e') 4 = [1, 2, 3, 4, 5]"
  using copyfile_data_copies [where s = "fresh_state\<lparr>src_fd := 3, dst_fd := 4, sb := zero_stat\<lparr>st_mode := 0x81A4, st_size := 5\<rparr>\<rparr>"
      and mem = "\<lambda>_. True" and bs = "\<lambda>_. Some 4"
      and e = "\<lparr>e_errno = EINTR, live = 0, wld = \<lparr>file_of = (\<lambda>fd. if fd = 3 then [1, 2, 3, 4, 5] else [9, 9, 9, 9, 9, 9]), pos = (\<lambda>_. 0), sizes = [1, 0]\<rparr>\<rparr>"]
  by (auto simp: S_IFMT_def S_IFREG_def source_block_def onegig_def min_def)

text \<open>When the destination takes nothing six times in a row, the copy gives up, but the error it chose is overwritten: the
  state's error is the \<open>errno\<close> of before, not \<open>EAGAIN\<close>.\<close>

theorem copyfile_data_loses_EAGAIN:
  fixes s :: "('q, 'cb) copyfile_state" and e :: "'x fworld_scheme env"
  assumes "st_mode (sb s) AND S_IFMT = S_IFREG" and "statuscb s = None" and "mem (live e)"
    and "source_block (sb s) (bs (src_fd s)) \<noteq> 0" and "drop (pos (wld e) (src_fd s)) (file_of (wld e) (src_fd s)) \<noteq> []"
  shows "\<exists>e'. copyfile_data (file_system mem bs\<lparr>fc_write := \<lambda>fd buf e. (0, e)\<rparr>) s e
    = Some (-1, s\<lparr>totalCopied := 0, cf_err := e_errno e\<rparr>, e')"
proof -
  let ?io = "file_system mem bs\<lparr>fc_write := \<lambda>fd buf e. (0, e)\<rparr> :: ('q, 'cb, 'x fworld_scheme) file_calls"
  have give_up: "write_loop ?io ob 5 buf s1 e1 = Some (Some (-1), s1\<lparr>cf_err := EAGAIN\<rparr>, e1)" if "buf \<noteq> []" for ob buf and s1 :: "('q, 'cb) copyfile_state" and e1 :: "'x fworld_scheme env"
    using that by (simp add: write_loop.simps)
  have again: "write_loop ?io ob l buf s1 e1 = write_loop ?io ob (l + 1) buf s1 e1" if "buf \<noteq> []" "statuscb s1 = None" "l < 5" for ob l buf and s1 :: "('q, 'cb) copyfile_state" and e1 :: "'x fworld_scheme env"
    using that by (subst write_loop.simps) (simp add: report_progress_def)
  have w: "write_loop ?io ob 0 buf s1 e1 = Some (Some (-1), s1\<lparr>cf_err := EAGAIN\<rparr>, e1)" if "buf \<noteq> []" "statuscb s1 = None" for ob buf and s1 :: "('q, 'cb) copyfile_state" and e1 :: "'x fworld_scheme env"
    using that again [of buf s1 0] again [of buf s1 1] again [of buf s1 2] again [of buf s1 3] again [of buf s1 4] by (simp add: give_up)
  have "0 < unat (source_block (sb s) (bs (src_fd s)))" using assms(4) by (simp add: unat_gt_0)
  then obtain d e1 where r: "file_read (src_fd s) (unat (source_block (sb s) (bs (src_fd s)))) (e\<lparr>live := live e + 1\<rparr>) = (Some d, e1)"
    "d \<noteq> []" "e_errno e1 = e_errno e"
    using assms(5) by (simp add: file_read_def Let_def step_size_def)
  have "copy_loop ?io (source_block (sb s) (bs (src_fd s))) ob (s\<lparr>totalCopied := 0\<rparr>) (e\<lparr>live := live e + 1\<rparr>)
    = Some (Some (-1), s\<lparr>totalCopied := 0, cf_err := EAGAIN\<rparr>, e1)" for ob
    using r assms(2) by (subst copy_loop.simps) (simp add: w)
  then show ?thesis using assms(1,3) r by (simp add: copyfile_data_def new_block_def Let_def)
qed

theorem copyfile_data_loses_EAGAIN_witness:
  "\<exists>s' e'. copyfile_data (file_system (\<lambda>_. True) (\<lambda>_. Some 4)\<lparr>fc_write := \<lambda>fd buf e. (0, e)\<rparr>)
      (fresh_state\<lparr>src_fd := 3, dst_fd := 4, sb := zero_stat\<lparr>st_mode := 0x81A4, st_size := 5\<rparr>\<rparr>)
      \<lparr>e_errno = Errno 0, live = 0, wld = \<lparr>file_of = (\<lambda>fd. [1]), pos = (\<lambda>_. 0), sizes = []\<rparr>\<rparr> = Some (-1, s', e') \<and> cf_err s' = Errno 0"
  using copyfile_data_loses_EAGAIN [of "fresh_state\<lparr>src_fd := 3, dst_fd := 4, sb := zero_stat\<lparr>st_mode := 0x81A4, st_size := 5\<rparr>\<rparr>"
      "\<lambda>_. True" "\<lparr>e_errno = Errno 0, live = 0, wld = \<lparr>file_of = (\<lambda>fd. [1]), pos = (\<lambda>_. 0), sizes = []\<rparr>\<rparr>" "\<lambda>_. Some 4"]
  by (auto simp: S_IFMT_def S_IFREG_def source_block_def onegig_def min_def)

text \<open>A source whose file system reports no block size is not copied: the destination is filled with zeros up to the size,
  and the call succeeds.\<close>

theorem copyfile_data_zero_block:
  fixes s :: "('q, 'cb) copyfile_state" and e :: "'x fworld_scheme env"
  assumes "st_mode (sb s) AND S_IFMT = S_IFREG" and "mem (live e)" and "bs (src_fd s) = Some 0" and "file_of (wld e) (dst_fd s) = []"
  shows "\<exists>e'. copyfile_data (file_system mem bs) s e = Some (0, s\<lparr>totalCopied := 0\<rparr>, e')
    \<and> file_of (wld e') (dst_fd s) = replicate (unat (st_size (sb s))) 0"
proof -
  have "copy_loop (file_system mem bs) 0 ob s1 e1 = Some (None, s1, snd (file_read (src_fd s1) 0 e1))"
    for ob and s1 :: "('q, 'cb) copyfile_state" and e1 :: "'x fworld_scheme env"
    by (subst copy_loop.simps) (simp add: file_read_def Let_def)
  moreover have "file_of (wld (snd (file_read fd 0 e1))) = file_of (wld e1)" for fd and e1 :: "'x fworld_scheme env"
    by (simp add: file_read_def Let_def)
  ultimately show ?thesis using assms
    by (simp add: copyfile_data_def new_block_def source_block_def file_truncate_def Let_def)
qed

theorem copyfile_data_zero_block_witness:
  "\<exists>s' e'. copyfile_data (file_system (\<lambda>_. True) (\<lambda>_. Some 0)) (fresh_state\<lparr>src_fd := 3, dst_fd := 4, sb := zero_stat\<lparr>st_mode := 0x81A4, st_size := 1\<rparr>\<rparr>)
      \<lparr>e_errno = EINTR, live = 0, wld = \<lparr>file_of = (\<lambda>fd. if fd = 3 then [7] else []), pos = (\<lambda>_. 0), sizes = []\<rparr>\<rparr> = Some (0, s', e')
    \<and> file_of (wld e') 4 = [0]"
  using copyfile_data_zero_block [of "fresh_state\<lparr>src_fd := 3, dst_fd := 4, sb := zero_stat\<lparr>st_mode := 0x81A4, st_size := 1\<rparr>\<rparr>"
      "\<lambda>_. True" "\<lparr>e_errno = EINTR, live = 0, wld = \<lparr>file_of = (\<lambda>fd. if fd = 3 then [7] else []), pos = (\<lambda>_. 0), sizes = []\<rparr>\<rparr>" "\<lambda>_. Some 0"]
  by (auto simp: S_IFMT_def S_IFREG_def )

end
