(* ===== verification/Copy_Security.thy ===== *)
theory Copy_Security
  imports Copy_State
begin

text \<open>
  The security part of \<open>copyfile\<close> (\<open>src/copyfile.c\<close>): the entry that lets the copy write to its destination, the merge of
  the access control lists of source and destination, and the restoring of what was not to be changed.

  A list is the Isabelle list of its entries.  The functions of the C library on lists and on \<open>filesec\<close> are modelled as
  documented; whatever they allocate is freed in the same function, so they only consult \<open>mem\<close>.  Adding an entry to a full list
  fails.  The \<open>errno\<close> these functions leave is followed where the code tests it.
\<close>

type_synonym acl = "acl_entry list"

definition ACL_WRITE_DATA :: u32 where "ACL_WRITE_DATA = 0x4"
definition ACL_APPEND_DATA :: u32 where "ACL_APPEND_DATA = 0x20"
definition ACL_WRITE_ATTRIBUTES :: u32 where "ACL_WRITE_ATTRIBUTES = 0x100"
definition ACL_WRITE_EXTATTRIBUTES :: u32 where "ACL_WRITE_EXTATTRIBUTES = 0x400"
definition ACL_WRITE_SECURITY :: u32 where "ACL_WRITE_SECURITY = 0x1000"
definition ACL_EXTENDED_ALLOW :: u32 where "ACL_EXTENDED_ALLOW = 1"
definition ACL_ENTRY_INHERITED :: u32 where "ACL_ENTRY_INHERITED = 0x10"
definition S_IRUSR :: u16 where "S_IRUSR = 0x100"
definition S_IWUSR :: u16 where "S_IWUSR = 0x80"

text \<open>
  \<open>sc_uuid\<close> is \<open>mbr_uid_to_uuid\<close>, \<open>sc_junk\<close> what is in an identifier it did not fill, and \<open>sc_max\<close> the greatest number of
  entries of a list.
\<close>

record 'w sec_calls =
  sc_mem :: "int \<Rightarrow> bool"
  sc_uuid :: "u32 \<Rightarrow> nat option"
  sc_uid :: u32
  sc_euid :: u32
  sc_junk :: nat
  sc_max :: nat
  sc_fstatx :: "int \<Rightarrow> 'w env \<Rightarrow> (stat_t \<times> filesec) option \<times> 'w env"
  sc_fchmodx :: "int \<Rightarrow> filesec \<Rightarrow> 'w env \<Rightarrow> int \<times> 'w env"
  sc_fstat :: "int \<Rightarrow> 'w env \<Rightarrow> stat_t \<times> 'w env"
  sc_fchmod :: "int \<Rightarrow> u16 \<Rightarrow> 'w env \<Rightarrow> int \<times> 'w env"
  sc_fchown :: "int \<Rightarrow> u32 \<Rightarrow> u32 \<Rightarrow> 'w env \<Rightarrow> int \<times> 'w env"
  sc_acl_set_fd :: "int \<Rightarrow> acl \<Rightarrow> 'w env \<Rightarrow> int \<times> 'w env"
  sc_fchflags :: "int \<Rightarrow> u32 \<Rightarrow> 'w env \<Rightarrow> int \<times> 'w env"
  sc_futimes :: "int \<Rightarrow> int \<times> int \<Rightarrow> 'w env \<Rightarrow> int \<times> 'w env"

section \<open>The entry that allows writing\<close>

definition acl_compare_permset_np :: "u32 \<Rightarrow> u32 \<Rightarrow> bool" where
  "acl_compare_permset_np p1 p2 \<longleftrightarrow> p1 = p2"

definition uber_perms :: u32 where
  "uber_perms = (((ACL_WRITE_DATA OR ACL_WRITE_ATTRIBUTES) OR ACL_WRITE_EXTATTRIBUTES) OR ACL_APPEND_DATA) OR ACL_WRITE_SECURITY"

text \<open>\<open>None\<close> is failure; a null list is \<open>None\<close> as well.\<close>

definition add_uberace :: "'w sec_calls \<Rightarrow> acl option \<Rightarrow> acl option" where
  "add_uberace sc acl =
     (case sc_uuid sc (sc_uid sc) of
        None \<Rightarrow> None
      | Some qual \<Rightarrow>
          (case acl of
             None \<Rightarrow> None
           | Some a \<Rightarrow> if sc_max sc \<le> length a then None
                       else Some (\<lparr>ae_tag = ACL_EXTENDED_ALLOW, ae_applicable = qual, ae_flags = 0, ae_perms = uber_perms\<rparr> # a)))"

definition is_uberace :: "'w sec_calls \<Rightarrow> 'w env \<Rightarrow> acl_entry \<Rightarrow> bool" where
  "is_uberace sc e ace =
     (let myuuid = (case sc_uuid sc (sc_euid sc) of None \<Rightarrow> sc_junk sc | Some q \<Rightarrow> q)
      in if \<not> sc_mem sc (live e) then False
         else (case add_uberace sc (Some []) of
                 None \<Rightarrow> False
               | Some tacl \<Rightarrow> ae_tag ace = ACL_EXTENDED_ALLOW \<and> ae_applicable ace = myuuid
                              \<and> acl_compare_permset_np (ae_perms (hd tacl)) (ae_perms ace)))"

section \<open>Properties of a filesec\<close>

definition filesec_get_acl :: "'w sec_calls \<Rightarrow> filesec option \<Rightarrow> 'w env \<Rightarrow> errno + acl" where
  "filesec_get_acl sc f e =
     (case f of
        None \<Rightarrow> Inl EINVAL
      | Some f \<Rightarrow> (case fs_acl f of None \<Rightarrow> Inl ENOENT | Some a \<Rightarrow> if sc_mem sc (live e) then Inr a else Inl ENOMEM))"

definition filesec_set_acl :: "'w sec_calls \<Rightarrow> filesec option \<Rightarrow> acl option \<Rightarrow> 'w env \<Rightarrow> filesec option \<times> bool" where
  "filesec_set_acl sc f a e =
     (case (f, a) of (Some f, Some a) \<Rightarrow> if sc_mem sc (live e) then (Some (f\<lparr>fs_acl := Some a\<rparr>), True) else (Some f, False) | _ \<Rightarrow> (f, False))"

definition filesec_dup :: "'w sec_calls \<Rightarrow> filesec option \<Rightarrow> 'w env \<Rightarrow> filesec option" where
  "filesec_dup sc f e = (if sc_mem sc (live e) then f else None)"

definition copyfile_unset_posix_fsec :: "filesec \<Rightarrow> filesec" where
  "copyfile_unset_posix_fsec f = f\<lparr>fs_owner := None, fs_group := None, fs_mode := None\<rparr>"

text \<open>
  Unsetting a property with a null pointer; the result counts the failures, of which there is none on an existing \<open>filesec\<close>.
\<close>

definition copyfile_unset_acl :: "('q, 'cb) copyfile_state \<Rightarrow> int \<times> ('q, 'cb) copyfile_state" where
  "copyfile_unset_acl s =
     (case fsec s of
        None \<Rightarrow> (3, s)
      | Some f \<Rightarrow> (0, s\<lparr>fsec := Some (f\<lparr>fs_acl := None, fs_uuid := None, fs_grpuuid := None\<rparr>)\<rparr>))"

definition copyfile_fix_perms :: "'w sec_calls \<Rightarrow> filesec option \<Rightarrow> 'w env \<Rightarrow> filesec option" where
  "copyfile_fix_perms sc f e =
     (case filesec_dup sc f e of
        None \<Rightarrow> None
      | Some r \<Rightarrow>
          (case (case filesec_get_acl sc (Some r) e of
                   Inl _ \<Rightarrow> Some r
                 | Inr a \<Rightarrow> (case add_uberace sc (Some a) of
                              None \<Rightarrow> None
                            | Some a \<Rightarrow> (let (r, ok) = filesec_set_acl sc (Some r) (Some a) e in if ok then r else None))) of
             None \<Rightarrow> None
           | Some r \<Rightarrow>
               (case fs_mode r of
                  None \<Rightarrow> Some r
                | Some m \<Rightarrow> if m AND (S_IWUSR OR S_IRUSR) \<noteq> S_IWUSR OR S_IRUSR
                            then Some (r\<lparr>fs_mode := Some (m OR (S_IWUSR OR S_IRUSR))\<rparr>) else Some r)))"

definition remove_uberace :: "'w sec_calls \<Rightarrow> int \<Rightarrow> stat_t \<Rightarrow> 'w env \<Rightarrow> 'w env" where
  "remove_uberace sc fd sbuf e =
     (let noacl = (\<lambda>e. snd (sc_fchmod sc fd (st_mode sbuf AND NOT S_IFMT) e))
      in if \<not> sc_mem sc (live e) then noacl e
         else (case sc_fstatx sc fd e of
                 (None, e) \<Rightarrow> if e_errno e = ENOTSUP then noacl e else e
               | (Some (_, f), e) \<Rightarrow>
                   (case filesec_get_acl sc (Some f) e of
                      Inl _ \<Rightarrow> e
                    | Inr [] \<Rightarrow> e
                    | Inr (entry # rest) \<Rightarrow>
                        if \<not> is_uberace sc e entry then e
                        else (case filesec_set_acl sc (Some f) (Some rest) e of
                                (Some f, True) \<Rightarrow>
                                  (let (r, e) = sc_fchmodx sc fd (f\<lparr>fs_mode := Some (st_mode sbuf AND NOT S_IFMT)\<rparr>) e
                                   in if r \<noteq> 0 then noacl e else e)
                              | _ \<Rightarrow> noacl e))))"

definition reset_security :: "'w sec_calls \<Rightarrow> ('q, 'cb) copyfile_state \<Rightarrow> 'w env \<Rightarrow> 'w env" where
  "reset_security sc s e =
     (if dst_fd s > -1
      then (let (sbuf, e) = (if src_fd s > -1 \<and> flagged COPYFILE_STAT (cf_flags s) then sc_fstat sc (src_fd s) e else sc_fstat sc (dst_fd s) e)
            in if \<not> flagged cfDelayAce (internal_flags s) then remove_uberace sc (dst_fd s) sbuf e else e)
      else e)"

section \<open>Merging the lists\<close>

definition inherited :: "acl_entry \<Rightarrow> bool" where
  "inherited ace \<longleftrightarrow> ae_flags ace AND ACL_ENTRY_INHERITED \<noteq> 0"

definition acl_append :: "'w sec_calls \<Rightarrow> acl option \<Rightarrow> acl_entry \<Rightarrow> acl option" where
  "acl_append sc acl ace = (case acl of None \<Rightarrow> None | Some a \<Rightarrow> if sc_max sc \<le> length a then None else Some (a @ [ace]))"

text \<open>What is kept of the list of the destination, and whether its first entry is the one that allows writing.\<close>

fun keep_loop :: "'w sec_calls \<Rightarrow> 'w env \<Rightarrow> nat \<Rightarrow> acl \<Rightarrow> acl option \<Rightarrow> bool \<Rightarrow> acl option \<times> bool" where
  "keep_loop sc e count [] tmp has = (tmp, has)"
| "keep_loop sc e count (ace # rest) tmp has =
     (if count = 0 \<and> is_uberace sc e ace
      then (case acl_append sc tmp ace of None \<Rightarrow> (None, has) | Some t \<Rightarrow> keep_loop sc e (count + 1) rest (Some t) True)
      else if inherited ace
      then (case acl_append sc tmp ace of None \<Rightarrow> (None, has) | Some t \<Rightarrow> keep_loop sc e (count + 1) rest (Some t) has)
      else keep_loop sc e (count + 1) rest tmp has)"

fun add_loop :: "'w sec_calls \<Rightarrow> acl \<Rightarrow> acl option \<Rightarrow> acl option option" where
  "add_loop sc [] d = Some d"
| "add_loop sc (ace # rest) d =
     (if \<not> inherited ace
      then (case acl_append sc d ace of None \<Rightarrow> None | Some d \<Rightarrow> add_loop sc rest (Some d))
      else add_loop sc rest d)"

text \<open>
  The part of \<open>copyfile_security\<close> for \<open>COPYFILE_ACL\<close>: \<open>None\<close> is the jump to \<open>error_exit\<close>, otherwise the new \<open>fsec\<close> of the
  state.
\<close>

definition merge_acl :: "'w sec_calls \<Rightarrow> ('q, 'cb) copyfile_state \<Rightarrow> 'w env \<Rightarrow> filesec option option \<times> 'w env" where
  "merge_acl sc s e =
     (case (case filesec_get_acl sc (fsec s) e of Inr a \<Rightarrow> Some (Some a) | Inl en \<Rightarrow> if en = ENOENT then Some None else None) of
        None \<Rightarrow> (None, e)
      | Some acl_src \<Rightarrow>
          (case sc_fstatx sc (dst_fd s) e of
             (None, e) \<Rightarrow> (None, e)
           | (Some (_, fsec_dst), e) \<Rightarrow>
               (case (case filesec_get_acl sc (Some fsec_dst) e of
                        Inl en \<Rightarrow> if en = ENOENT then Some (None, False) else None
                      | Inr a \<Rightarrow> if \<not> sc_mem sc (live e) then None
                                 else (case keep_loop sc e 0 a (Some []) False of (None, _) \<Rightarrow> None | (t, has) \<Rightarrow> Some (t, has))) of
                  None \<Rightarrow> (None, e)
                | Some (acl_dst, has_uberace) \<Rightarrow>
                    if acl_src = None \<and> acl_dst = None then (Some (fsec s), e)
                    else (case (case acl_src of
                                  None \<Rightarrow> Some acl_dst
                                | Some a \<Rightarrow> add_loop sc a (if acl_dst = None then (if sc_mem sc (live e) then Some [] else None) else acl_dst)) of
                            None \<Rightarrow> (None, e)
                          | Some acl_dst \<Rightarrow>
                              (case (if \<not> has_uberace \<and> flagged cfDelayAce (internal_flags s)
                                     then map_option Some (add_uberace sc acl_dst) else Some acl_dst) of
                                 None \<Rightarrow> (None, e)
                               | Some acl_dst \<Rightarrow> (Some (fst (filesec_set_acl sc (fsec s) acl_dst e)), e))))))"

definition apply_security :: "'w sec_calls \<Rightarrow> ('q, 'cb) copyfile_state \<Rightarrow> filesec \<Rightarrow> 'w env \<Rightarrow> 'w env" where
  "apply_security sc s tmp e =
     (let (r, e) = sc_fchmodx sc (dst_fd s) tmp e
      in if r < 0
         then (let (_, e) = sc_fchmod sc (dst_fd s) (st_mode (sb s)) e;
                   (_, e) = sc_fchown sc (dst_fd s) (st_uid (sb s)) (st_gid (sb s)) e
               in case filesec_get_acl sc (Some tmp) e of
                    Inl _ \<Rightarrow> e
                  | Inr a \<Rightarrow> snd (sc_acl_set_fd sc (dst_fd s) a e))
         else e)"

definition copyfile_security :: "'w sec_calls \<Rightarrow> ('q, 'cb) copyfile_state \<Rightarrow> 'w env \<Rightarrow> int \<times> ('q, 'cb) copyfile_state \<times> 'w env" where
  "copyfile_security sc s e =
     (if \<not> sc_mem sc (live e) then (-1, s, e)
      else (case (if flagged COPYFILE_ACL (cf_flags s) then merge_acl sc s e else (Some (fsec s), e)) of
              (None, e) \<Rightarrow> (-1, s, e)
            | (Some f, e) \<Rightarrow>
                (let s = s\<lparr>fsec := f\<rparr>
                 in case filesec_dup sc f e of
                      None \<Rightarrow> (-1, s, e)
                    | Some tmp \<Rightarrow>
                        (let which = COPYFILE_SECURITY AND cf_flags s
                         in if which = COPYFILE_ACL then (0, s, apply_security sc s (copyfile_unset_posix_fsec tmp) e)
                            else if which = COPYFILE_ACL OR COPYFILE_STAT then (0, s, apply_security sc s tmp e)
                            else if which = COPYFILE_STAT then (0, s, snd (sc_fchmod sc (dst_fd s) (st_mode (sb s)) e))
                            else (0, s, e)))))"

text \<open>Flags, owner, mode and times; every failure is at most logged.\<close>

definition copyfile_stat :: "'w sec_calls \<Rightarrow> ('q, 'cb) copyfile_state \<Rightarrow> 'w env \<Rightarrow> int \<times> 'w env" where
  "copyfile_stat sc s e =
     (let (_, e) = sc_fchflags sc (dst_fd s) (st_flags (sb s)) e;
          (_, e) = sc_fchown sc (dst_fd s) (st_uid (sb s)) (st_gid (sb s)) e;
          (_, e) = sc_fchmod sc (dst_fd s) (st_mode (sb s) AND NOT S_IFMT) e;
          (_, e) = sc_futimes sc (dst_fd s) (ts_sec (st_atimespec (sb s)), ts_sec (st_mtimespec (sb s))) e
      in (0, e))"

section \<open>A system of files with lists\<close>

text \<open>The world gives the security of each descriptor; \<open>fchmodx_np\<close> sets the properties that are set in its argument.\<close>

definition apply_filesec :: "filesec \<Rightarrow> filesec \<Rightarrow> filesec" where
  "apply_filesec f g = \<lparr>fs_owner = (if fs_owner f = None then fs_owner g else fs_owner f), fs_group = (if fs_group f = None then fs_group g else fs_group f),
     fs_mode = (if fs_mode f = None then fs_mode g else fs_mode f), fs_acl = (if fs_acl f = None then fs_acl g else fs_acl f),
     fs_uuid = (if fs_uuid f = None then fs_uuid g else fs_uuid f), fs_grpuuid = (if fs_grpuuid f = None then fs_grpuuid g else fs_grpuuid f)\<rparr>"

definition stat_of :: "filesec \<Rightarrow> stat_t" where
  "stat_of f = zero_stat\<lparr>st_mode := (case fs_mode f of None \<Rightarrow> 0 | Some m \<Rightarrow> m)\<rparr>"

definition on_file :: "int \<Rightarrow> (filesec \<Rightarrow> filesec) \<Rightarrow> (int \<Rightarrow> filesec) env \<Rightarrow> int \<times> (int \<Rightarrow> filesec) env" where
  "on_file fd g e = (0, e\<lparr>wld := (wld e)(fd := g (wld e fd))\<rparr>)"

definition sec_system :: "(int \<Rightarrow> bool) \<Rightarrow> (u32 \<Rightarrow> nat option) \<Rightarrow> u32 \<Rightarrow> u32 \<Rightarrow> nat \<Rightarrow> (int \<Rightarrow> filesec) sec_calls" where
  "sec_system mem uuid uid euid m =
     \<lparr>sc_mem = mem, sc_uuid = uuid, sc_uid = uid, sc_euid = euid, sc_junk = 0, sc_max = m,
      sc_fstatx = (\<lambda>fd e. (Some (stat_of (wld e fd), wld e fd), e)),
      sc_fchmodx = (\<lambda>fd f. on_file fd (apply_filesec f)),
      sc_fstat = (\<lambda>fd e. (stat_of (wld e fd), e)),
      sc_fchmod = (\<lambda>fd md. on_file fd (\<lambda>g. g\<lparr>fs_mode := Some md\<rparr>)),
      sc_fchown = (\<lambda>fd u gr. on_file fd (\<lambda>g. g\<lparr>fs_owner := Some u, fs_group := Some gr\<rparr>)),
      sc_acl_set_fd = (\<lambda>fd a. on_file fd (\<lambda>g. g\<lparr>fs_acl := Some a\<rparr>)),
      sc_fchflags = (\<lambda>fd n e. (0, e)), sc_futimes = (\<lambda>fd t e. (0, e))\<rparr>"

lemma sec_system_simps [simp]:
  "sc_mem (sec_system mem uuid uid euid m) = mem" "sc_uuid (sec_system mem uuid uid euid m) = uuid"
  "sc_uid (sec_system mem uuid uid euid m) = uid" "sc_euid (sec_system mem uuid uid euid m) = euid"
  "sc_max (sec_system mem uuid uid euid m) = m"
  "sc_fstatx (sec_system mem uuid uid euid m) fd e = (Some (stat_of (wld e fd), wld e fd), e)"
  "sc_fchmodx (sec_system mem uuid uid euid m) fd f = on_file fd (apply_filesec f)"
  "sc_fstat (sec_system mem uuid uid euid m) fd e = (stat_of (wld e fd), e)"
  by (simp_all add: sec_system_def)

section \<open>What the merge is to do\<close>

definition uber_first :: "'w sec_calls \<Rightarrow> 'w env \<Rightarrow> acl \<Rightarrow> bool" where
  "uber_first sc e a \<longleftrightarrow> a \<noteq> [] \<and> is_uberace sc e (hd a)"

definition kept_acl :: "'w sec_calls \<Rightarrow> 'w env \<Rightarrow> acl \<Rightarrow> acl" where
  "kept_acl sc e a = (if uber_first sc e a then hd a # filter inherited (tl a) else filter inherited a)"

definition merged_acl :: "'w sec_calls \<Rightarrow> 'w env \<Rightarrow> bool \<Rightarrow> acl_entry \<Rightarrow> acl \<Rightarrow> acl \<Rightarrow> acl" where
  "merged_acl sc e delay uber a_src a_dst =
     (if delay \<and> \<not> uber_first sc e a_dst then [uber] else []) @ kept_acl sc e a_dst @ filter (\<lambda>ace. \<not> inherited ace) a_src"

lemma keep_rest:
  "length t + length a \<le> sc_max sc \<Longrightarrow> 0 < count \<Longrightarrow> keep_loop sc e count a (Some t) has = (Some (t @ filter inherited a), has)"
  by (induction a arbitrary: t count) (auto simp: acl_append_def)

lemma keep_loop_kept:
  "length a \<le> sc_max sc \<Longrightarrow> keep_loop sc e 0 a (Some []) False = (Some (kept_acl sc e a), uber_first sc e a)"
  by (cases a) (auto simp: acl_append_def kept_acl_def uber_first_def keep_rest)

lemma add_loop_adds:
  "length d + length a \<le> sc_max sc \<Longrightarrow> add_loop sc a (Some d) = Some (Some (d @ filter (\<lambda>ace. \<not> inherited ace) a))"
  by (induction a arbitrary: d) (auto simp: acl_append_def)

lemma kept_acl_length: "length (kept_acl sc e a) \<le> length a"
  by (cases a) (auto simp: kept_acl_def uber_first_def le_SucI)

definition uber_entry :: "nat \<Rightarrow> acl_entry" where
  "uber_entry q = \<lparr>ae_tag = ACL_EXTENDED_ALLOW, ae_applicable = q, ae_flags = 0, ae_perms = uber_perms\<rparr>"

lemma add_uberace_entry:
  "sc_uuid sc (sc_uid sc) = Some q \<Longrightarrow> length a < sc_max sc \<Longrightarrow> add_uberace sc (Some a) = Some (uber_entry q # a)"
  by (simp add: add_uberace_def uber_entry_def)

lemma is_uberace_entry:
  "sc_mem sc (live e) \<Longrightarrow> sc_uuid sc (sc_uid sc) = Some q \<Longrightarrow> 0 < sc_max sc \<Longrightarrow>
     is_uberace sc e (uber_entry p) \<longleftrightarrow> p = (case sc_uuid sc (sc_euid sc) of None \<Rightarrow> sc_junk sc | Some q \<Rightarrow> q)"
  by (simp add: is_uberace_def add_uberace_def uber_entry_def acl_compare_permset_np_def)

lemma merge_acl_merges:
  assumes "sc_mem sc (live e)" and "fsec s = Some f" and "fs_acl f = Some a_src"
    and "sc_fstatx sc (dst_fd s) e = (Some (st, g), e)" and "fs_acl g = Some a_dst"
    and "sc_uuid sc (sc_uid sc) = Some q" and "length a_src + length a_dst < sc_max sc"
  shows "merge_acl sc s e = (Some (Some (f\<lparr>fs_acl := Some (merged_acl sc e (flagged cfDelayAce (internal_flags s)) (uber_entry q) a_src a_dst)\<rparr>)), e)"
proof -
  let ?d = "kept_acl sc e a_dst @ filter (\<lambda>ace. \<not> inherited ace) a_src"
  have k: "keep_loop sc e 0 a_dst (Some []) False = (Some (kept_acl sc e a_dst), uber_first sc e a_dst)"
    using assms(7) by (intro keep_loop_kept) simp
  have a: "add_loop sc a_src (Some (kept_acl sc e a_dst)) = Some (Some ?d)"
    using assms(7) kept_acl_length [of sc e a_dst] by (intro add_loop_adds) simp
  have "length ?d = length (kept_acl sc e a_dst) + length (filter (\<lambda>ace. \<not> inherited ace) a_src)" by (rule length_append)
  then have "length ?d < sc_max sc"
    using kept_acl_length [of sc e a_dst] length_filter_le [of "\<lambda>ace. \<not> inherited ace" a_src] assms(7) by linarith
  then have u: "add_uberace sc (Some ?d) = Some (uber_entry q # ?d)" using add_uberace_entry assms(6) by blast
  show ?thesis
    using assms(1-5) k a u
    by (simp add: merge_acl_def filesec_get_acl_def filesec_set_acl_def merged_acl_def Let_def)
qed

lemma apply_filesec_simps [simp]:
  "fs_acl (apply_filesec f g) = (if fs_acl f = None then fs_acl g else fs_acl f)"
  "fs_mode (apply_filesec f g) = (if fs_mode f = None then fs_mode g else fs_mode f)"
  "fs_owner (apply_filesec f g) = (if fs_owner f = None then fs_owner g else fs_owner f)"
  "fs_group (apply_filesec f g) = (if fs_group f = None then fs_group g else fs_group f)"
  by (simp_all add: apply_filesec_def)

lemma power_and: "2 ^ k AND fl = (if flagged (2 ^ k) fl then 2 ^ k else 0)" for fl :: u32
  unfolding flagged_def by (rule bit_word_eqI) (auto simp: bit_simps and_exp_eq_0_iff_not_bit and.commute [of "2 ^ k"])

lemma security_bits:
  "COPYFILE_SECURITY AND fl = (if flagged COPYFILE_STAT fl then COPYFILE_STAT else 0) OR (if flagged COPYFILE_ACL fl then COPYFILE_ACL else 0)"
proof -
  have "COPYFILE_SECURITY AND fl = 2 ^ 1 AND fl OR 2 ^ 0 AND fl"
    by (simp only: COPYFILE_SECURITY_def bit.conj_disj_distrib2) (simp add: copyfile_flags)
  then show ?thesis unfolding power_and by (simp add: copyfile_flags)
qed

lemma no_overlap [simp]: "COPYFILE_STAT OR COPYFILE_ACL \<noteq> COPYFILE_ACL" "COPYFILE_ACL \<noteq> 0" "COPYFILE_ACL OR COPYFILE_STAT = COPYFILE_STAT OR COPYFILE_ACL"
  by (simp_all add: copyfile_flags)

section \<open>Properties\<close>

text \<open>C14: With \<open>COPYFILE_ACL\<close> the destination ends with the entry that allows writing, where it is there or to be there,
  the entries it inherited and the entries of the source that are not inherited, in their order, and nothing else; owner,
  group and mode become those of the source when \<open>COPYFILE_STAT\<close> is set too and stay otherwise, and no other file is
  changed.\<close>

theorem copyfile_security_merges:
  fixes e :: "(int \<Rightarrow> filesec) env"
  assumes sc_def: "sc = sec_system mem uuid uid euid m"
    and "flagged COPYFILE_ACL (cf_flags s)" and "mem (live e)" and "fsec s = Some f" and "fs_acl f = Some a_src"
    and "fs_acl (wld e (dst_fd s)) = Some a_dst" and "uuid uid = Some q" and "length a_src + length a_dst < m"
  shows "\<exists>s' e'. copyfile_security sc s e = (0, s', e')
    \<and> fs_acl (wld e' (dst_fd s)) = Some (merged_acl sc e (flagged cfDelayAce (internal_flags s)) (uber_entry q) a_src a_dst)
    \<and> (let kept = (if flagged COPYFILE_STAT (cf_flags s) then apply_filesec f (wld e (dst_fd s)) else wld e (dst_fd s))
       in fs_owner (wld e' (dst_fd s)) = fs_owner kept \<and> fs_group (wld e' (dst_fd s)) = fs_group kept \<and> fs_mode (wld e' (dst_fd s)) = fs_mode kept)
    \<and> (\<forall>fd. fd \<noteq> dst_fd s \<longrightarrow> wld e' fd = wld e fd)"
proof -
  let ?acl = "merged_acl sc e (flagged cfDelayAce (internal_flags s)) (uber_entry q) a_src a_dst"
  have m: "merge_acl sc s e = (Some (Some (f\<lparr>fs_acl := Some ?acl\<rparr>)), e)"
    by (rule merge_acl_merges) (use assms in simp_all)
  have x: "sc_fchmodx sc fd g e = (0, e\<lparr>wld := (wld e)(fd := apply_filesec g (wld e fd))\<rparr>)" for fd g
    by (simp add: sc_def on_file_def)
  have mem: "sc_mem sc (live e)" using assms(3) by (simp add: sc_def)
  show ?thesis
  proof (cases "flagged COPYFILE_STAT (cf_flags s)")
    case True
    then show ?thesis using assms(2) m x mem
      by (simp add: copyfile_security_def security_bits filesec_dup_def apply_security_def Let_def)
  next
    case False
    then show ?thesis using assms(2) m x mem
      by (simp add: copyfile_security_def security_bits filesec_dup_def apply_security_def copyfile_unset_posix_fsec_def Let_def)
  qed
qed

theorem copyfile_security_merges_witness:
  "\<exists>s' e'. copyfile_security (sec_system (\<lambda>_. True) (\<lambda>u. Some (unat u)) 5 5 8) (fresh_state\<lparr>dst_fd := 3, cf_flags := COPYFILE_ACL,
        fsec := Some (empty_filesec\<lparr>fs_acl := Some [uber_entry 7]\<rparr>)\<rparr>) \<lparr>e_errno = EINTR, live = 0, wld = (\<lambda>_. empty_filesec\<lparr>fs_acl := Some [uber_entry 5]\<rparr>)\<rparr> = (0, s', e')
     \<and> fs_acl (wld e' 3) = Some [uber_entry 5, uber_entry 7]"
proof -
  let ?sc = "sec_system (\<lambda>_. True) (\<lambda>u. Some (unat u)) 5 5 8"
  let ?e = "\<lparr>e_errno = EINTR, live = 0, wld = (\<lambda>_ :: int. empty_filesec\<lparr>fs_acl := Some [uber_entry 5]\<rparr>)\<rparr>"
  have u: "is_uberace ?sc ?e (uber_entry 5)" by (subst is_uberace_entry [of ?sc ?e 5]) simp_all
  have i: "\<not> inherited (uber_entry n)" for n by (simp add: inherited_def uber_entry_def)
  have "merged_acl ?sc ?e False (uber_entry 5) [uber_entry 7] [uber_entry 5] = [uber_entry 5, uber_entry 7]"
    using u i by (simp add: merged_acl_def kept_acl_def uber_first_def)
  then show ?thesis
    using copyfile_security_merges [OF refl, of "fresh_state\<lparr>dst_fd := 3, cf_flags := COPYFILE_ACL, fsec := Some (empty_filesec\<lparr>fs_acl := Some [uber_entry 7]\<rparr>)\<rparr>"
        "\<lambda>_. True" ?e "empty_filesec\<lparr>fs_acl := Some [uber_entry 7]\<rparr>" "[uber_entry 7]" "[uber_entry 5]" "\<lambda>u. Some (unat u)" 5 5 8 5]
    by (auto simp: copyfile_flags flagged_def cfDelayAce_def)
qed

text \<open>Giving the destination the permissions that let the copy write and taking the entry away again afterwards leaves its
  list as it was, with the mode asked for.\<close>

theorem uberace_removed:
  fixes e :: "(int \<Rightarrow> filesec) env"
  assumes sc_def: "sc = sec_system mem uuid uid uid m"
    and "mem (live e)" and "fs_acl (wld e fd) = Some a" and "length a < m" and "uuid uid = Some q"
  shows "\<exists>f. copyfile_fix_perms sc (Some (wld e fd)) e = Some f \<and> fs_acl f = Some (uber_entry q # a)
    \<and> (\<exists>e'. remove_uberace sc fd st (snd (sc_fchmodx sc fd f e)) = e' \<and> fs_acl (wld e' fd) = Some a
           \<and> fs_mode (wld e' fd) = Some (st_mode st AND NOT S_IFMT) \<and> (\<forall>fd'. fd' \<noteq> fd \<longrightarrow> wld e' fd' = wld e fd'))"
proof -
  have add: "add_uberace sc (Some a) = Some (uber_entry q # a)"
    by (rule add_uberace_entry) (use assms in simp_all)
  have mem: "sc_mem sc (live e)" "sc_mem sc (live (e\<lparr>wld := w\<rparr>))" for w using assms(2) by (simp_all add: sc_def)
  have "0 < sc_max sc" using assms(4) by (simp add: sc_def)
  then have found: "is_uberace sc (e\<lparr>wld := w\<rparr>) (uber_entry q)" for w
    by (subst is_uberace_entry [of _ _ q]) (use assms(5) mem in \<open>simp_all add: sc_def\<close>)
  have "\<exists>f. copyfile_fix_perms sc (Some (wld e fd)) e = Some f \<and> fs_acl f = Some (uber_entry q # a)"
    using add mem assms(3)
    by (cases "fs_mode (wld e fd)") (simp_all add: copyfile_fix_perms_def filesec_dup_def filesec_get_acl_def filesec_set_acl_def)
  then obtain f where f: "copyfile_fix_perms sc (Some (wld e fd)) e = Some f" "fs_acl f = Some (uber_entry q # a)" by blast
  have "remove_uberace sc fd st (snd (sc_fchmodx sc fd f e)) = e\<lparr>wld := (wld e)(fd := apply_filesec ((apply_filesec f (wld e fd))\<lparr>fs_acl := Some a,
      fs_mode := Some (st_mode st AND NOT S_IFMT)\<rparr>) (apply_filesec f (wld e fd)))\<rparr>"
    using found mem f(2)
    by (simp add: remove_uberace_def filesec_get_acl_def filesec_set_acl_def sc_def on_file_def Let_def)
  then show ?thesis using f by simp
qed

theorem uberace_removed_witness:
  "\<exists>f e'. copyfile_fix_perms (sec_system (\<lambda>_. True) (\<lambda>u. Some (unat u)) 5 5 8) (Some (empty_filesec\<lparr>fs_acl := Some []\<rparr>)) \<lparr>e_errno = EINTR, live = 0, wld = (\<lambda>_. empty_filesec\<lparr>fs_acl := Some []\<rparr>)\<rparr> = Some f
     \<and> remove_uberace (sec_system (\<lambda>_. True) (\<lambda>u. Some (unat u)) 5 5 8) 3 zero_stat (snd (sc_fchmodx (sec_system (\<lambda>_. True) (\<lambda>u. Some (unat u)) 5 5 8) 3 f \<lparr>e_errno = EINTR, live = 0, wld = (\<lambda>_. empty_filesec\<lparr>fs_acl := Some []\<rparr>)\<rparr>)) = e'
     \<and> fs_acl (wld e' 3) = Some []"
  using uberace_removed [OF refl, of "\<lambda>_. True" "\<lparr>e_errno = EINTR, live = 0, wld = (\<lambda>_. empty_filesec\<lparr>fs_acl := Some []\<rparr>)\<rparr>" 3 "[]" 8 "\<lambda>u. Some (unat u)" 5 5 zero_stat]
  by auto

text \<open>A program whose effective user is not its real one leaves the entry behind: it is made for the real user and looked
  for as one of the effective user.\<close>

theorem uberace_left_behind:
  assumes "mem (live e)" and "fs_acl (wld e fd) = Some (uber_entry q # a)" and "uuid uid = Some q" and "uuid euid = Some p" and "p \<noteq> q" and "0 < m"
  shows "remove_uberace (sec_system mem uuid uid euid m) fd st e = e"
proof -
  have "\<not> is_uberace (sec_system mem uuid uid euid m) e (uber_entry q)"
    by (subst is_uberace_entry [of _ _ q]) (use assms in simp_all)
  then show ?thesis using assms(1,2) by (simp add: remove_uberace_def filesec_get_acl_def Let_def)
qed

theorem uberace_left_behind_witness:
  "remove_uberace (sec_system (\<lambda>_. True) (\<lambda>u. Some (unat u)) 5 0 8) 3 zero_stat \<lparr>e_errno = EINTR, live = 0, wld = (\<lambda>_. empty_filesec\<lparr>fs_acl := Some [uber_entry (5 :: nat)]\<rparr>)\<rparr>
    = \<lparr>e_errno = EINTR, live = 0, wld = (\<lambda>_. empty_filesec\<lparr>fs_acl := Some [uber_entry 5]\<rparr>)\<rparr>"
  using uberace_left_behind [of "\<lambda>_. True" "\<lparr>e_errno = EINTR, live = 0, wld = (\<lambda>_. empty_filesec\<lparr>fs_acl := Some [uber_entry 5]\<rparr>)\<rparr>" 3 5 "[]" "\<lambda>u. Some (unat u)" 5 0 0 8 zero_stat]
  by simp

end
