(* ===== verification/Copy_Xattr.thy ===== *)
theory Copy_Xattr
  imports Copy_State "HOL-Library.AList" "HOL-Library.Sublist"
begin

text \<open>
  \<open>copyfile_xattr\<close> of \<open>src/copyfile.c\<close>: the extended attributes of the destination are removed and those of the source
  copied, the quarantine attribute excepted.  The name lists are buffers of names each with its terminator, walked as the
  code does; the comparison with the name of the quarantine attribute is \<open>strncmp\<close> bounded by what is left of the buffer.
\<close>

text \<open>
  The calls: \<open>xc_list\<close> and \<open>xc_get\<close> take the size of the buffer, nothing for a null pointer, and give the result and what
  they stored; \<open>xc_set\<close> takes the data, nothing for a null pointer, and the size.
\<close>

record 'w xattr_calls =
  xc_mem :: "int \<Rightarrow> bool"
  xc_list :: "int \<Rightarrow> nat option \<Rightarrow> 'w env \<Rightarrow> (int \<times> string) \<times> 'w env"
  xc_get :: "int \<Rightarrow> string \<Rightarrow> nat option \<Rightarrow> 'w env \<Rightarrow> (int \<times> byte list) \<times> 'w env"
  xc_set :: "int \<Rightarrow> string \<Rightarrow> byte list option \<Rightarrow> nat \<Rightarrow> 'w env \<Rightarrow> int \<times> 'w env"
  xc_remove :: "int \<Rightarrow> string \<Rightarrow> 'w env \<Rightarrow> int \<times> 'w env"

definition NUL :: char where "NUL = CHR 0x00"

text \<open>\<open>strncmp(a, b, n) == 0\<close>.\<close>

definition strncmp_equal :: "string \<Rightarrow> string \<Rightarrow> nat \<Rightarrow> bool" where
  "strncmp_equal a b n \<longleftrightarrow> take n (a @ [NUL]) = take n (b @ [NUL])"

text \<open>The string at the start of what is left of the buffer, and what follows its terminator.\<close>

definition name_at :: "string \<Rightarrow> string" where
  "name_at rest = takeWhile (\<lambda>c. c \<noteq> NUL) rest"

definition after_name :: "string \<Rightarrow> string" where
  "after_name rest = drop (length (name_at rest) + 1) rest"

lemma after_name_shorter: "rest \<noteq> [] \<Longrightarrow> length (after_name rest) < length rest"
  by (simp add: after_name_def)

text \<open>The last byte of the buffer is made a terminator.\<close>

definition end_name :: "string \<Rightarrow> string" where
  "end_name buf = butlast buf @ [NUL]"

function remove_loop :: "'w xattr_calls \<Rightarrow> string \<Rightarrow> int \<Rightarrow> string \<Rightarrow> 'w env \<Rightarrow> 'w env" where
  "remove_loop xc quarantine fd rest e =
     (if rest = [] then e
      else if strncmp_equal (name_at rest) quarantine (length rest - 1) then remove_loop xc quarantine fd (after_name rest) e
      else remove_loop xc quarantine fd (after_name rest) (snd (xc_remove xc fd (name_at rest) e)))"
  by pat_completeness auto
termination
  by (relation "measure (\<lambda>(_, _, _, rest, _). length rest)") (auto simp: after_name_shorter)

declare remove_loop.simps [simp del]

text \<open>
  \<open>buf\<close> is whether the data buffer is not the null pointer, \<open>bufsize\<close> its size.  A failed \<open>realloc\<close> leaves the null pointer
  and the new size.
\<close>

function get_loop :: "'w xattr_calls \<Rightarrow> string \<Rightarrow> ('q, 'cb) copyfile_state \<Rightarrow> string \<Rightarrow> bool \<Rightarrow> int \<Rightarrow> int \<Rightarrow> 'w env \<Rightarrow> (int \<times> bool) \<times> 'w env" where
  "get_loop xc quarantine s rest buf bufsize ret e =
     (if rest = [] then ((ret, buf), e)
      else (let name = name_at rest
            in if strncmp_equal name quarantine (length rest - 1) then get_loop xc quarantine s (after_name rest) buf bufsize ret e
               else (let ((xa_size, _), e) = xc_get xc (src_fd s) name None e
                     in if xa_size < 0 then get_loop xc quarantine s (after_name rest) buf bufsize (-1) e
                        else if xa_size > bufsize \<and> \<not> xc_mem xc (live e)
                        then get_loop xc quarantine s (after_name rest) False xa_size (-1) (free_block (if buf then Some () else None) e)
                        else (let e = (if xa_size > bufsize \<and> \<not> buf then e\<lparr>live := live e + 1\<rparr> else e);
                                  buf = (xa_size > bufsize \<or> buf);
                                  bufsize = max bufsize xa_size;
                                  ((asize, data), e) = xc_get xc (src_fd s) name (if buf then Some (nat xa_size) else None) e
                              in if asize < 0 then get_loop xc quarantine s (after_name rest) buf bufsize (-1) e
                                 else (let (r, e) = xc_set xc (dst_fd s) name (if buf then Some data else None) (nat asize) e
                                       in get_loop xc quarantine s (after_name rest) buf bufsize (if r < 0 then -1 else ret) e)))))"
  by pat_completeness auto
termination
  by (relation "measure (\<lambda>(_, _, _, rest, _). length rest)") (auto simp: after_name_shorter)

declare get_loop.simps [simp del]

definition not_supported :: "'w env \<Rightarrow> int" where
  "not_supported e = (if e_errno e = ENOTSUP \<or> e_errno e = EPERM then 0 else -1)"

text \<open>The first half: the attributes of the destination; \<open>Inl\<close> is a return of the function.\<close>

definition clear_xattrs :: "'w xattr_calls \<Rightarrow> string \<Rightarrow> int \<Rightarrow> 'w env \<Rightarrow> (int + unit) \<times> 'w env" where
  "clear_xattrs xc quarantine fd e =
     (let ((nsize, _), e) = xc_list xc fd None e
      in if nsize > 0
         then (case new_block (xc_mem xc) () e of
                 (None, e) \<Rightarrow> (Inl (-1), e)
               | (namebuf, e) \<Rightarrow>
                   (let ((nsize, names), e) = xc_list xc fd (Some (nat nsize)) e;
                        e = (if nsize > 0 then remove_loop xc quarantine fd (end_name names) e else e)
                    in (Inr (), free_block namebuf e)))
         else if nsize < 0 then (Inl (not_supported e), e)
         else (Inr (), e))"

definition copyfile_xattr :: "'w xattr_calls \<Rightarrow> string \<Rightarrow> ('q, 'cb) copyfile_state \<Rightarrow> 'w env \<Rightarrow> int \<times> 'w env" where
  "copyfile_xattr xc quarantine s e =
     (case clear_xattrs xc quarantine (dst_fd s) e of
        (Inl r, e) \<Rightarrow> (r, e)
      | (Inr _, e) \<Rightarrow>
          (let ((nsize, _), e) = xc_list xc (src_fd s) None e
           in if nsize < 0 then (not_supported e, e)
              else if nsize = 0 then (0, e)
              else (case new_block (xc_mem xc) () e of
                      (None, e) \<Rightarrow> (-1, e)
                    | (namebuf, e) \<Rightarrow>
                        (let ((nsize, names), e) = xc_list xc (src_fd s) (Some (nat nsize)) e
                         in if nsize \<le> 0 then (nsize, free_block namebuf e)
                            else (case new_block (xc_mem xc) () e of
                                    (None, e) \<Rightarrow> (-1, free_block namebuf e)
                                  | (_, e) \<Rightarrow>
                                      (let ((ret, buf), e) = get_loop xc quarantine s (end_name names) True 4096 0 e
                                       in (ret, free_block (if buf then Some () else None) (free_block namebuf e))))))))"

section \<open>Name lists\<close>

definition name_list :: "string list \<Rightarrow> string" where
  "name_list ks = concat (map (\<lambda>k. k @ [NUL]) ks)"

definition good_names :: "string list \<Rightarrow> bool" where
  "good_names ks \<longleftrightarrow> (\<forall>k \<in> set ks. NUL \<notin> set k)"

lemma name_list_Cons: "name_list (k # ks) = k @ NUL # name_list ks"
  by (simp add: name_list_def)

lemma name_list_empty [simp]: "name_list [] = []"
  by (simp add: name_list_def)

lemma takeWhile_name: "NUL \<notin> set k \<Longrightarrow> takeWhile (\<lambda>c. c \<noteq> NUL) (k @ NUL # r) = k"
  by (induction k) auto

lemma name_list_walk:
  assumes "NUL \<notin> set k"
  shows "name_at (name_list (k # ks)) = k" and "after_name (name_list (k # ks)) = name_list ks" and "name_list (k # ks) \<noteq> []"
  using takeWhile_name [OF assms] by (simp_all add: name_at_def after_name_def name_list_Cons)

lemma end_name_list: "ks \<noteq> [] \<Longrightarrow> end_name (name_list ks) = name_list ks"
  by (cases ks rule: rev_cases) (simp_all add: end_name_def name_list_def butlast_append)

text \<open>Which names are taken for that of the quarantine attribute: it itself, and the last name where it is a prefix of it.\<close>

lemma skipped_iff:
  assumes "NUL \<notin> set k" and "NUL \<notin> set q"
  shows "strncmp_equal k q (length (name_list (k # ks)) - 1) \<longleftrightarrow> k = q \<or> ks = [] \<and> prefix k q"
proof (cases "ks = []")
  case True
  have "take (length k) (q @ [NUL]) = k \<longleftrightarrow> prefix k q"
  proof
    assume t: "take (length k) (q @ [NUL]) = k"
    show "prefix k q"
    proof (cases "length k \<le> length q")
      case True
      then have "take (length k) q = k" using t by simp
      then show ?thesis using take_is_prefix [of "length k" q] by simp
    next
      case False
      then have "k = q @ [NUL]" using t by simp
      then show ?thesis using assms(1) by simp
    qed
  qed (auto simp: prefix_def)
  then show ?thesis using True by (auto simp: strncmp_equal_def name_list_Cons)
next
  case False
  then obtain k' r where ks: "ks = k' # r" by (cases ks) auto
  have n: "length (name_list (k # ks)) - 1 \<ge> length k + 1" by (simp add: ks name_list_Cons)
  have eq: "take m (q @ [NUL]) = k @ [NUL] \<longleftrightarrow> k = q" if m: "length k + 1 \<le> m" for m
  proof
    assume t: "take m (q @ [NUL]) = k @ [NUL]"
    show "k = q"
    proof (cases "length (q @ [NUL]) \<le> m")
      case False
      then have "take m q = k @ [NUL]" using t by simp
      then have "NUL \<in> set (take m q)" by simp
      then show ?thesis using assms(2) in_set_takeD by fastforce
    qed (use t in simp)
  qed (use m in simp)
  have "take (length (name_list (k # ks)) - 1) (k @ [NUL]) = k @ [NUL]" using n by (intro take_all) simp
  then have "strncmp_equal k q (length (name_list (k # ks)) - 1) \<longleftrightarrow> take (length (name_list (k # ks)) - 1) (q @ [NUL]) = k @ [NUL]"
    unfolding strncmp_equal_def by metis
  then show ?thesis using eq [OF n] False by simp
qed

section \<open>A system of attributes\<close>

text \<open>The world gives the attributes of each descriptor, in the order they are listed.\<close>

type_synonym xworld = "int \<Rightarrow> (string \<times> byte list) list"

definition x_list :: "int \<Rightarrow> nat option \<Rightarrow> xworld env \<Rightarrow> (int \<times> string) \<times> xworld env" where
  "x_list fd sz e =
     (let l = name_list (map fst (wld e fd))
      in case sz of
           None \<Rightarrow> ((int (length l), []), e)
         | Some n \<Rightarrow> if n < length l then ((-1, []), e\<lparr>e_errno := Errno 34\<rparr>) else ((int (length l), l), e))"

definition x_get :: "int \<Rightarrow> string \<Rightarrow> nat option \<Rightarrow> xworld env \<Rightarrow> (int \<times> byte list) \<times> xworld env" where
  "x_get fd k sz e =
     (case map_of (wld e fd) k of
        None \<Rightarrow> ((-1, []), e\<lparr>e_errno := ENOATTR\<rparr>)
      | Some v \<Rightarrow>
          (case sz of
             None \<Rightarrow> ((int (length v), []), e)
           | Some n \<Rightarrow> if n < length v then ((-1, []), e\<lparr>e_errno := Errno 34\<rparr>) else ((int (length v), v), e)))"

definition x_set :: "int \<Rightarrow> string \<Rightarrow> byte list option \<Rightarrow> nat \<Rightarrow> xworld env \<Rightarrow> int \<times> xworld env" where
  "x_set fd k d n e =
     (case d of None \<Rightarrow> (-1, e\<lparr>e_errno := EINVAL\<rparr>) | Some v \<Rightarrow> (0, e\<lparr>wld := (wld e)(fd := AList.update k (take n v) (wld e fd))\<rparr>))"

definition x_remove :: "int \<Rightarrow> string \<Rightarrow> xworld env \<Rightarrow> int \<times> xworld env" where
  "x_remove fd k e = (0, e\<lparr>wld := (wld e)(fd := AList.delete k (wld e fd))\<rparr>)"

definition xattr_system :: "(int \<Rightarrow> bool) \<Rightarrow> xworld xattr_calls" where
  "xattr_system mem = \<lparr>xc_mem = mem, xc_list = x_list, xc_get = x_get, xc_set = x_set, xc_remove = x_remove\<rparr>"

lemma xattr_system_simps [simp]:
  "xc_mem (xattr_system mem) = mem" "xc_list (xattr_system mem) = x_list" "xc_get (xattr_system mem) = x_get"
  "xc_set (xattr_system mem) = x_set" "xc_remove (xattr_system mem) = x_remove"
  by (simp_all add: xattr_system_def)

text \<open>The names skipped in a list.\<close>

fun skipped :: "string \<Rightarrow> string list \<Rightarrow> string set" where
  "skipped q [] = {}"
| "skipped q (k # ks) = (if k = q \<or> ks = [] \<and> prefix k q then {k} else {}) \<union> skipped q ks"

lemma skipped_subset: "skipped q ks \<subseteq> set ks"
  by (induction ks) auto

lemma remove_all:
  assumes "NUL \<notin> set q" and "good_names ks" and "distinct ks"
  shows "\<exists>w. remove_loop (xattr_system mem) q fd (name_list ks) e = e\<lparr>wld := w\<rparr> \<and> (\<forall>fd'. fd' \<noteq> fd \<longrightarrow> w fd' = wld e fd')
    \<and> map_of (w fd) = map_of (wld e fd) |` (- (set ks - skipped q ks))"
  using assms(2,3)
proof (induction ks arbitrary: e)
  case Nil
  show ?case by (rule exI [of _ "wld e"]) (simp add: remove_loop.simps)
next
  case (Cons k ks)
  then have g: "NUL \<notin> set k" "good_names ks" "distinct ks" "k \<notin> set ks" by (auto simp: good_names_def)
  note walk = name_list_walk [OF g(1), of ks]
  show ?case
  proof (cases "k = q \<or> ks = [] \<and> prefix k q")
    case True
    then have "set (k # ks) - skipped q (k # ks) = set ks - skipped q ks" using skipped_subset [of q ks] g(4) by auto
    moreover have "remove_loop (xattr_system mem) q fd (name_list (k # ks)) e = remove_loop (xattr_system mem) q fd (name_list ks) e"
      using True walk skipped_iff [OF g(1) assms(1), of ks] by (subst remove_loop.simps) simp
    ultimately show ?thesis using Cons.IH [OF g(2,3), of e] by simp
  next
    case False
    let ?e = "snd (x_remove fd k e)"
    have e: "?e = e\<lparr>wld := (wld e)(fd := AList.delete k (wld e fd))\<rparr>" by (simp add: x_remove_def)
    have "remove_loop (xattr_system mem) q fd (name_list (k # ks)) e = remove_loop (xattr_system mem) q fd (name_list ks) ?e"
    proof -
      have "strncmp_equal k q (length (name_list (k # ks)) - 1) = False" using False skipped_iff [OF g(1) assms(1), of ks] by blast
      then show ?thesis by (subst remove_loop.simps) (simp only: walk if_False xattr_system_simps)
    qed
    moreover obtain w where w: "remove_loop (xattr_system mem) q fd (name_list ks) ?e = ?e\<lparr>wld := w\<rparr>"
      "\<forall>fd'. fd' \<noteq> fd \<longrightarrow> w fd' = wld ?e fd'" "map_of (w fd) = map_of (wld ?e fd) |` (- (set ks - skipped q ks))"
      using Cons.IH [OF g(2,3), of ?e] by blast
    moreover have "map_of (AList.delete k (wld e fd)) |` (- (set ks - skipped q ks)) = map_of (wld e fd) |` (- (set (k # ks) - skipped q (k # ks)))"
      using False skipped_subset [of q ks] g(4) by (auto simp: delete_conv restrict_map_def fun_eq_iff)
    ultimately show ?thesis by (intro exI [of _ w]) (simp add: e)
  qed
qed

lemma get_step:
  assumes "map_of (wld e (src_fd s)) k = Some v" and "NUL \<notin> set k"
    and "strncmp_equal k q (length (name_list (k # ks)) - 1) = False"
  shows "\<exists>b. get_loop (xattr_system (\<lambda>_. True)) q s (name_list (k # ks)) True bs ret e
    = get_loop (xattr_system (\<lambda>_. True)) q s (name_list ks) True b ret (e\<lparr>wld := (wld e)(dst_fd s := AList.update k v (wld e (dst_fd s)))\<rparr>)"
proof -
  note walk = name_list_walk [OF assms(2), of ks]
  have g: "x_get (src_fd s) k None e = ((int (length v), []), e)" "x_get (src_fd s) k (Some (length v)) e = ((int (length v), v), e)"
    using assms(1) by (simp_all add: x_get_def)
  have "get_loop (xattr_system (\<lambda>_. True)) q s (name_list (k # ks)) True bs ret e
    = get_loop (xattr_system (\<lambda>_. True)) q s (name_list ks) True (max bs (int (length v))) ret
        (e\<lparr>wld := (wld e)(dst_fd s := AList.update k v (wld e (dst_fd s)))\<rparr>)"
    by (subst get_loop.simps) (simp only: walk if_False assms(3) Let_def, simp add: g x_set_def)
  then show ?thesis by blast
qed

lemma get_all:
  assumes "NUL \<notin> set q" and "src_fd s \<noteq> dst_fd s" and "good_names ks" and "distinct ks"
    and "\<forall>k \<in> set ks. map_of (wld e (src_fd s)) k \<noteq> None"
  shows "\<exists>w. get_loop (xattr_system (\<lambda>_. True)) q s (name_list ks) True bs ret e = ((ret, True), e\<lparr>wld := w\<rparr>)
    \<and> (\<forall>fd. fd \<noteq> dst_fd s \<longrightarrow> w fd = wld e fd)
    \<and> map_of (w (dst_fd s)) = map_of (wld e (dst_fd s)) ++ (map_of (wld e (src_fd s)) |` (set ks - skipped q ks))"
  using assms(3-)
proof (induction ks arbitrary: e bs)
  case Nil
  show ?case by (rule exI [of _ "wld e"]) (simp add: get_loop.simps)
next
  case (Cons k ks)
  then have g: "NUL \<notin> set k" "good_names ks" "distinct ks" "k \<notin> set ks" "\<forall>k \<in> set ks. map_of (wld e (src_fd s)) k \<noteq> None"
    by (auto simp: good_names_def)
  note walk = name_list_walk [OF g(1), of ks]
  show ?case
  proof (cases "k = q \<or> ks = [] \<and> prefix k q")
    case True
    then have "set (k # ks) - skipped q (k # ks) = set ks - skipped q ks" using skipped_subset [of q ks] g(4) by auto
    moreover have "get_loop (xattr_system (\<lambda>_. True)) q s (name_list (k # ks)) True bs ret e = get_loop (xattr_system (\<lambda>_. True)) q s (name_list ks) True bs ret e"
    proof -
      have "strncmp_equal k q (length (name_list (k # ks)) - 1) = True" using True skipped_iff [OF g(1) assms(1), of ks] by blast
      then show ?thesis by (subst get_loop.simps) (simp only: walk if_True if_False Let_def xattr_system_simps)
    qed
    ultimately show ?thesis using Cons.IH [OF g(2,3,5), of bs] by simp
  next
    case False
    then have sk: "strncmp_equal k q (length (name_list (k # ks)) - 1) = False" using skipped_iff [OF g(1) assms(1), of ks] by blast
    obtain v where v: "map_of (wld e (src_fd s)) k = Some v" using Cons.prems(3) by auto
    let ?e = "e\<lparr>wld := (wld e)(dst_fd s := AList.update k v (wld e (dst_fd s)))\<rparr>"
    obtain b where b: "get_loop (xattr_system (\<lambda>_. True)) q s (name_list (k # ks)) True bs ret e
      = get_loop (xattr_system (\<lambda>_. True)) q s (name_list ks) True b ret ?e"
      using get_step [OF v g(1) sk] by blast
    have "\<forall>k \<in> set ks. map_of (wld ?e (src_fd s)) k \<noteq> None" using g(5) assms(2) by simp
    then obtain w where w: "get_loop (xattr_system (\<lambda>_. True)) q s (name_list ks) True b ret ?e = ((ret, True), ?e\<lparr>wld := w\<rparr>)"
      "\<forall>fd. fd \<noteq> dst_fd s \<longrightarrow> w fd = wld ?e fd"
      "map_of (w (dst_fd s)) = map_of (wld ?e (dst_fd s)) ++ (map_of (wld ?e (src_fd s)) |` (set ks - skipped q ks))"
      using Cons.IH [OF g(2,3), of ?e b] by blast
    have "map_of (AList.update k v (wld e (dst_fd s))) ++ (map_of (wld e (src_fd s)) |` (set ks - skipped q ks))
      = map_of (wld e (dst_fd s)) ++ (map_of (wld e (src_fd s)) |` (set (k # ks) - skipped q (k # ks)))"
      using False skipped_subset [of q ks] g(4) v
      by (auto simp: update_conv map_add_def restrict_map_def fun_eq_iff split: option.split)
    then show ?thesis using b w assms(2) by (intro exI [of _ w]) simp
  qed
qed

text \<open>Attributes as the system lists them: each name once, none with a terminator in it.\<close>

definition attributes_ok :: "(string \<times> byte list) list \<Rightarrow> bool" where
  "attributes_ok al \<longleftrightarrow> distinct (map fst al) \<and> good_names (map fst al)"

lemma map_of_outside: "k \<notin> fst ` set al \<Longrightarrow> map_of al k = None"
  by (simp add: map_of_eq_None_iff)

lemma restrict_domain: "map_of al |` (set (map fst al) - S) = map_of al |` (- S)" "map_of al |` (- (set (map fst al) - S)) = map_of al |` S"
  by (auto simp: restrict_map_def fun_eq_iff map_of_outside)

lemma name_list_nonempty: "ks \<noteq> [] \<Longrightarrow> name_list ks \<noteq> []"
  by (cases ks) (simp_all add: name_list_Cons)

lemma clear_all:
  assumes "NUL \<notin> set q" and "attributes_ok (wld e fd)"
  shows "\<exists>w. clear_xattrs (xattr_system (\<lambda>_. True)) q fd e = (Inr (), e\<lparr>wld := w\<rparr>) \<and> (\<forall>fd'. fd' \<noteq> fd \<longrightarrow> w fd' = wld e fd')
    \<and> map_of (w fd) = map_of (wld e fd) |` (skipped q (map fst (wld e fd)))"
proof (cases "wld e fd = []")
  case True
  show ?thesis by (rule exI [of _ "wld e"]) (simp add: True clear_xattrs_def x_list_def)
next
  case False
  let ?ks = "map fst (wld e fd)"
  have ks: "good_names ?ks" "distinct ?ks" "?ks \<noteq> []" using assms(2) False by (simp_all add: attributes_ok_def)
  obtain w where w: "remove_loop (xattr_system (\<lambda>_. True)) q fd (name_list ?ks) (e\<lparr>live := live e + 1\<rparr>) = e\<lparr>live := live e + 1, wld := w\<rparr>"
    "\<forall>fd'. fd' \<noteq> fd \<longrightarrow> w fd' = wld e fd'" "map_of (w fd) = map_of (wld e fd) |` (- (set ?ks - skipped q ?ks))"
    using remove_all [OF assms(1) ks(1,2), of "\<lambda>_. True" fd "e\<lparr>live := live e + 1\<rparr>"] by auto
  have "map_of (wld e fd) |` (- (set ?ks - skipped q ?ks)) = map_of (wld e fd) |` (skipped q ?ks)" by (rule restrict_domain)
  moreover have "clear_xattrs (xattr_system (\<lambda>_. True)) q fd e = (Inr (), e\<lparr>wld := w\<rparr>)"
    using w(1) name_list_nonempty [OF ks(3)] end_name_list [OF ks(3)] by (simp add: clear_xattrs_def x_list_def new_block_def Let_def)
  ultimately show ?thesis using w by metis
qed

lemma skipped_quarantine:
  assumes "\<forall>k \<in> set ks. \<not> strict_prefix k q"
  shows "skipped q ks = {q} \<inter> set ks"
  using assms by (induction ks) auto

lemma copyfile_xattr_step:
  assumes "clear_xattrs (xattr_system (\<lambda>_. True)) q (dst_fd s) e = (Inr (), e1)" and "map fst (wld e1 (src_fd s)) = ks" and "ks \<noteq> []"
    and "get_loop (xattr_system (\<lambda>_. True)) q s (name_list ks) True 4096 0 (e1\<lparr>live := live e1 + 1 + 1\<rparr>) = ((0, True), e2)"
  shows "copyfile_xattr (xattr_system (\<lambda>_. True)) q s e = (0, e2\<lparr>live := live e2 - 1 - 1\<rparr>)"
proof -
  obtain n where n: "length (name_list ks) = Suc n" using name_list_nonempty [OF assms(3)] by (cases "name_list ks") auto
  have l: "x_list (src_fd s) None e1 = ((int (Suc n), []), e1)"
    "x_list (src_fd s) (Some (Suc n)) (e1\<lparr>live := m\<rparr>) = ((int (Suc n), name_list ks), e1\<lparr>live := m\<rparr>)" for m
    using assms(2) n by (simp_all add: x_list_def Let_def)
  have t: "nat (int (Suc n)) = Suc n" "int (Suc n) < 0 \<longleftrightarrow> False" "int (Suc n) = 0 \<longleftrightarrow> False" "int (Suc n) \<le> 0 \<longleftrightarrow> False" by simp_all
  show ?thesis
    unfolding copyfile_xattr_def assms(1) xattr_system_simps new_block_def
    by (simp only: prod.case sum.case Let_def l t if_False if_True option.case xattr_system_simps end_name_list [OF assms(3)]
        env.simps assms(4) free_block_simps add.assoc) (simp add: assms(4) [simplified] free_block_def)
qed

text \<open>The copy on a system whose calls succeed: what of the two lists is left.\<close>

lemma xattr_result:
  assumes "NUL \<notin> set q" and "src_fd s \<noteq> dst_fd s" and "attributes_ok (wld e (src_fd s))" and "attributes_ok (wld e (dst_fd s))"
  shows "\<exists>w. copyfile_xattr (xattr_system (\<lambda>_. True)) q s e = (0, e\<lparr>wld := w\<rparr>) \<and> (\<forall>fd. fd \<noteq> dst_fd s \<longrightarrow> w fd = wld e fd)
    \<and> map_of (w (dst_fd s)) = map_of (wld e (dst_fd s)) |` (skipped q (map fst (wld e (dst_fd s))))
        ++ (map_of (wld e (src_fd s)) |` (- skipped q (map fst (wld e (src_fd s)))))"
proof -
  obtain w where w: "clear_xattrs (xattr_system (\<lambda>_. True)) q (dst_fd s) e = (Inr (), e\<lparr>wld := w\<rparr>)" "\<forall>fd. fd \<noteq> dst_fd s \<longrightarrow> w fd = wld e fd"
    "map_of (w (dst_fd s)) = map_of (wld e (dst_fd s)) |` (skipped q (map fst (wld e (dst_fd s))))"
    using clear_all [OF assms(1,4)] by blast
  have src: "w (src_fd s) = wld e (src_fd s)" using w(2) assms(2) by blast
  let ?ks = "map fst (wld e (src_fd s))"
  show ?thesis
  proof (cases "?ks = []")
    case True
    then show ?thesis using w src by (intro exI [of _ w]) (simp add: copyfile_xattr_def x_list_def)
  next
    case False
    have ks: "good_names ?ks" "distinct ?ks" using assms(3) by (simp_all add: attributes_ok_def)
    let ?e = "e\<lparr>wld := w, live := live e + 1 + 1\<rparr>"
    have all: "\<forall>k \<in> set ?ks. map_of (wld ?e (src_fd s)) k \<noteq> None" using src by (auto simp: map_of_eq_None_iff)
    obtain w' where w': "get_loop (xattr_system (\<lambda>_. True)) q s (name_list ?ks) True 4096 0 ?e = ((0, True), ?e\<lparr>wld := w'\<rparr>)"
      "\<forall>fd. fd \<noteq> dst_fd s \<longrightarrow> w' fd = w fd"
      "map_of (w' (dst_fd s)) = map_of (w (dst_fd s)) ++ (map_of (wld e (src_fd s)) |` (set ?ks - skipped q ?ks))"
      using get_all [OF assms(1,2) ks all, of 4096 0] src by auto
    have "map_of (wld e (src_fd s)) |` (set ?ks - skipped q ?ks) = map_of (wld e (src_fd s)) |` (- skipped q ?ks)" by (rule restrict_domain)
    moreover have "copyfile_xattr (xattr_system (\<lambda>_. True)) q s e = (0, e\<lparr>wld := w'\<rparr>)"
    proof -
      have "map fst (wld (e\<lparr>wld := w\<rparr>) (src_fd s)) = ?ks" by (simp add: src)
      moreover have "(e\<lparr>wld := w\<rparr>)\<lparr>live := live (e\<lparr>wld := w\<rparr>) + 1 + 1\<rparr> = ?e" by simp
      ultimately have "copyfile_xattr (xattr_system (\<lambda>_. True)) q s e = (0, (?e\<lparr>wld := w'\<rparr>)\<lparr>live := live (?e\<lparr>wld := w'\<rparr>) - 1 - 1\<rparr>)"
        using copyfile_xattr_step [OF w(1) _ False] w'(1) by metis
      then show ?thesis by simp
    qed
    ultimately show ?thesis using w(2,3) w'(2,3) by (intro exI [of _ w']) simp
  qed
qed

section \<open>Properties\<close>

text \<open>C15: When no attribute has a name that is a proper beginning of that of the quarantine attribute, the destination ends
  with exactly the attributes of the source, its own quarantine attribute excepted, which it keeps, and nothing else is
  changed or left allocated.\<close>

theorem copyfile_xattr_copies:
  assumes "NUL \<notin> set q" and "src_fd s \<noteq> dst_fd s" and "attributes_ok (wld e (src_fd s))" and "attributes_ok (wld e (dst_fd s))"
    and "\<And>k v fd. (k, v) \<in> set (wld e fd) \<Longrightarrow> \<not> strict_prefix k q"
  shows "\<exists>w. copyfile_xattr (xattr_system (\<lambda>_. True)) q s e = (0, e\<lparr>wld := w\<rparr>) \<and> (\<forall>fd. fd \<noteq> dst_fd s \<longrightarrow> w fd = wld e fd)
    \<and> map_of (w (dst_fd s)) = (map_of (wld e (src_fd s)))(q := map_of (wld e (dst_fd s)) q)"
proof -
  have k: "skipped q (map fst (wld e fd)) = {q} \<inter> set (map fst (wld e fd))" for fd
    by (rule skipped_quarantine) (use assms(5) in auto)
  have "map_of (wld e (dst_fd s)) |` (skipped q (map fst (wld e (dst_fd s)))) ++ (map_of (wld e (src_fd s)) |` (- skipped q (map fst (wld e (src_fd s)))))
    = (map_of (wld e (src_fd s)))(q := map_of (wld e (dst_fd s)) q)"
    unfolding k by (rule ext) (auto simp: map_add_def restrict_map_def map_of_outside split: option.split)
  then show ?thesis using xattr_result [OF assms(1-4)] by simp
qed

theorem copyfile_xattr_copies_witness:
  "\<exists>w. copyfile_xattr (xattr_system (\<lambda>_. True)) ''q'' (fresh_state\<lparr>src_fd := 3, dst_fd := 4\<rparr>)
      \<lparr>e_errno = EINTR, live = 0, wld = (\<lambda>fd. if fd = 3 then [(''a'', [1]), (''q'', [2])] else [(''b'', [3])])\<rparr>
    = (0, \<lparr>e_errno = EINTR, live = 0, wld = w\<rparr>) \<and> map_of (w 4) = [''a'' \<mapsto> [1]]"
  using copyfile_xattr_copies [of "''q''" "fresh_state\<lparr>src_fd := 3, dst_fd := 4\<rparr>"
      "\<lparr>e_errno = EINTR, live = 0, wld = (\<lambda>fd. if fd = 3 then [(''a'', [1]), (''q'', [2])] else [(''b'', [3])])\<rparr>"]
  by (force simp: NUL_def attributes_ok_def good_names_def strict_prefix_def prefix_Cons fun_eq_iff split: if_splits)

text \<open>The last attribute of the source is lost when its name is a beginning of that of the quarantine attribute, and the
  call succeeds.\<close>

theorem copyfile_xattr_loses_prefix:
  assumes "NUL \<notin> set q" and "src_fd s \<noteq> dst_fd s" and "attributes_ok (wld e (src_fd s))" and "attributes_ok (wld e (dst_fd s))"
    and "wld e (src_fd s) = al @ [(k, v)]" and "prefix k q" and "map_of (wld e (dst_fd s)) k = None"
  shows "\<exists>w. copyfile_xattr (xattr_system (\<lambda>_. True)) q s e = (0, e\<lparr>wld := w\<rparr>) \<and> map_of (w (dst_fd s)) k = None"
proof -
  have "k \<in> skipped q (map fst al' @ [k])" for al' :: "(string \<times> byte list) list"
    using assms(6) by (induction al') auto
  then have "k \<in> skipped q (map fst (wld e (src_fd s)))" using assms(5) by simp
  then show ?thesis using xattr_result [OF assms(1-4)] assms(7) by (auto simp: map_add_def restrict_map_def)
qed

theorem copyfile_xattr_loses_prefix_witness:
  "\<exists>w. copyfile_xattr (xattr_system (\<lambda>_. True)) ''com.apple.quarantine'' (fresh_state\<lparr>src_fd := 3, dst_fd := 4\<rparr>)
      \<lparr>e_errno = EINTR, live = 0, wld = (\<lambda>fd. if fd = 3 then [(''com'', [1])] else [])\<rparr>
    = (0, \<lparr>e_errno = EINTR, live = 0, wld = w\<rparr>) \<and> map_of (w 4) ''com'' = None"
  using copyfile_xattr_loses_prefix [of "''com.apple.quarantine''" "fresh_state\<lparr>src_fd := 3, dst_fd := 4\<rparr>"
      "\<lparr>e_errno = EINTR, live = 0, wld = (\<lambda>fd. if fd = 3 then [(''com'', [1])] else [])\<rparr>" "[]" "''com''" "[1]"]
  by (simp add: NUL_def attributes_ok_def good_names_def)

end
