(* ===== verification/Copy_File.thy ===== *)
theory Copy_File
  imports Copy_Data Copy_Security Copy_Xattr
begin

text \<open>
  The frame of \<open>copyfile\<close> (\<open>src/copyfile.c\<close>): opening source and destination, the order of the parts, and the public
  functions \<open>fcopyfile\<close> and \<open>copyfile\<close>.  The copying of trees and the two directions of the AppleDouble format are parameters
  here (\<open>cc_tree\<close>, \<open>cc_pack\<close>, \<open>cc_unpack\<close>), as are the calls of the system; \<open>None\<close> is a copy that does not end or an undefined
  use of a structure that was not filled.
\<close>

definition O_RDONLY :: u32 where "O_RDONLY = 0x0"
definition O_WRONLY :: u32 where "O_WRONLY = 0x1"
definition O_NOFOLLOW :: u32 where "O_NOFOLLOW = 0x100"
definition O_CREAT :: u32 where "O_CREAT = 0x200"
definition O_TRUNC :: u32 where "O_TRUNC = 0x400"
definition O_EXCL :: u32 where "O_EXCL = 0x800"
definition O_SYMLINK :: u32 where "O_SYMLINK = 0x200000"

record ('q, 'cb, 'w) cf_calls =
  cc_io :: "('q, 'cb, 'w) file_calls"
  cc_xa :: "'w xattr_calls"
  cc_sec :: "'w sec_calls"
  cc_qname :: string
  cc_qalloc :: "'w env \<Rightarrow> 'q option \<times> 'w env"
  cc_qinit :: "'q \<Rightarrow> int \<Rightarrow> 'w env \<Rightarrow> (int \<times> 'q) \<times> 'w env"
  cc_qinit_path :: "'q \<Rightarrow> string \<Rightarrow> 'w env \<Rightarrow> int \<times> 'w env"
  cc_qapply :: "'q \<Rightarrow> int \<Rightarrow> 'w env \<Rightarrow> int \<times> 'w env"
  cc_open :: "string \<Rightarrow> u32 \<Rightarrow> u16 \<Rightarrow> 'w env \<Rightarrow> int \<times> 'w env"
  cc_close :: "int \<Rightarrow> 'w env \<Rightarrow> int \<times> 'w env"
  cc_statx :: "bool \<Rightarrow> string \<Rightarrow> 'w env \<Rightarrow> (stat_t \<times> filesec) option \<times> 'w env"
  cc_remove :: "string \<Rightarrow> 'w env \<Rightarrow> int \<times> 'w env"
  cc_unlink :: "string \<Rightarrow> 'w env \<Rightarrow> int \<times> 'w env"
  cc_readlink :: "string \<Rightarrow> nat \<Rightarrow> 'w env \<Rightarrow> string option \<times> 'w env"
  cc_symlink :: "string \<Rightarrow> string \<Rightarrow> 'w env \<Rightarrow> int \<times> 'w env"
  cc_mkdir :: "string \<Rightarrow> u16 \<Rightarrow> 'w env \<Rightarrow> int \<times> 'w env"
  cc_chmod :: "string \<Rightarrow> u16 \<Rightarrow> 'w env \<Rightarrow> int \<times> 'w env"
  cc_chmodx :: "string \<Rightarrow> filesec \<Rightarrow> 'w env \<Rightarrow> int \<times> 'w env"
  cc_listxattr :: "bool \<Rightarrow> string \<Rightarrow> 'w env \<Rightarrow> int \<times> 'w env"
  cc_debug_var :: "string option"
  cc_strtol :: "string \<Rightarrow> u32 \<times> errno"
  cc_tree :: "('q, 'cb) copyfile_state \<Rightarrow> 'w env \<Rightarrow> (int \<times> ('q, 'cb) copyfile_state \<times> 'w env) option"
  cc_pack :: "('q, 'cb) copyfile_state \<Rightarrow> 'w env \<Rightarrow> (int \<times> ('q, 'cb) copyfile_state \<times> 'w env) option"
  cc_unpack :: "('q, 'cb) copyfile_state \<Rightarrow> 'w env \<Rightarrow> (int \<times> ('q, 'cb) copyfile_state \<times> 'w env) option"

definition is_type :: "u16 \<Rightarrow> u16 \<Rightarrow> bool" where
  "is_type t mode \<longleftrightarrow> mode AND S_IFMT = t"

text \<open>A call that takes a path, given the null pointer, fails with \<open>EFAULT\<close>.\<close>

definition path_stat :: "('q, 'cb, 'w) cf_calls \<Rightarrow> bool \<Rightarrow> string option \<Rightarrow> 'w env \<Rightarrow> (stat_t \<times> filesec) option \<times> 'w env" where
  "path_stat c nofollow p e = (case p of None \<Rightarrow> (None, e\<lparr>e_errno := EFAULT\<rparr>) | Some p \<Rightarrow> cc_statx c nofollow p e)"

section \<open>Opening\<close>

text \<open>The source: success, whether it is a link and whether it is a directory.\<close>

definition open_source :: "('q, 'cb, 'w) cf_calls \<Rightarrow> ('q, 'cb) copyfile_state \<Rightarrow> 'w env \<Rightarrow> (bool \<times> bool \<times> bool) \<times> ('q, 'cb) copyfile_state \<times> 'w env" where
  "open_source c s e =
     (case src s of
        None \<Rightarrow> ((True, False, False), s, e)
      | Some path \<Rightarrow>
          if src_fd s \<noteq> -2 then ((True, False, False), s, e)
          else (case cc_statx c (flagged COPYFILE_NOFOLLOW_SRC (cf_flags s)) path e of
                  (None, e) \<Rightarrow> ((False, False, False), s, e)
                | (Some (st, f), e) \<Rightarrow>
                    (let s = s\<lparr>sb := st, fsec := (if fsec s = None then None else Some f)\<rparr>;
                         islnk = is_type S_IFLNK (st_mode st);
                         isdir = is_type S_IFDIR (st_mode st);
                         osrc = (if islnk then O_SYMLINK else 0)
                     in if \<not> islnk \<and> \<not> isdir \<and> \<not> is_type S_IFREG (st_mode st)
                           \<and> \<not> (path = ''/dev/null'' \<and> flagged COPYFILE_METADATA (cf_flags s))
                        then ((False, False, False), s\<lparr>cf_err := ENOTSUP\<rparr>, e)
                        else (let pack = flagged COPYFILE_PACK (cf_flags s);
                                  osrc = (if pack \<and> \<not> islnk then (if flagged COPYFILE_NOFOLLOW_SRC (cf_flags s) then O_NOFOLLOW else 0) else osrc);
                                  (fd, e) = cc_open c path (O_RDONLY OR osrc) 0 e;
                                  s = s\<lparr>src_fd := fd\<rparr>
                              in if fd < 0 then ((False, False, False), s, e)
                                 else (let (_, s, e) = copyfile_quarantine (cc_qalloc c) (cc_qinit c) s e
                                       in ((True, islnk \<and> \<not> pack, isdir \<and> \<not> pack), s, e))))))"

text \<open>
  Opening the destination as a file, again after an existing file, a file one may not open or a directory.  The result is
  the descriptor, negative where the code gives up.
\<close>

partial_function (option) open_loop :: "('q, 'cb, 'w) cf_calls \<Rightarrow> ('q, 'cb) copyfile_state \<Rightarrow> string \<Rightarrow> u32 \<Rightarrow> u32 \<Rightarrow> bool \<Rightarrow> 'w env \<Rightarrow> (int \<times> 'w env) option" where
  "open_loop c s path dsrc oflags isdir e =
     (let (fd, e) = cc_open c path (oflags OR dsrc) (st_mode (sb s) OR S_IWUSR) e
      in if 0 \<le> fd then Some (fd, e)
         else if e_errno e = EEXIST
         then (if flagged COPYFILE_EXCL (cf_flags s) then Some (fd, e)
               else (let oflags = oflags AND NOT O_CREAT;
                         oflags = (if flagged (COPYFILE_PACK OR COPYFILE_DATA) (cf_flags s) then oflags OR O_TRUNC else oflags)
                     in open_loop c s path dsrc oflags isdir e))
         else if e_errno e = EACCES
         then (let (r, e) = cc_chmod c path ((st_mode (sb s) OR S_IWUSR) AND NOT S_IFMT) e
               in if r = 0 then open_loop c s path dsrc oflags isdir e
                  else Some (fd, if e_errno e = ENOENT then e\<lparr>e_errno := EACCES\<rparr> else e))
         else if e_errno e = EISDIR
         then (if (flagged COPYFILE_EXCL (cf_flags s) \<or> \<not> isdir \<and> flagged COPYFILE_DATA (cf_flags s)) \<and> \<not> flagged COPYFILE_UNPACK (cf_flags s)
               then Some (fd, e)
               else open_loop c s path dsrc ((oflags AND NOT (O_WRONLY OR O_CREAT OR O_TRUNC)) OR O_RDONLY) isdir e)
         else Some (fd, e))"

declare open_loop.simps [simp del]

text \<open>The destination as a link or a directory: the descriptor, negative on failure, \<open>-2\<close> where none was opened.\<close>

definition open_link :: "('q, 'cb, 'w) cf_calls \<Rightarrow> ('q, 'cb) copyfile_state \<Rightarrow> string \<Rightarrow> string \<Rightarrow> 'w env \<Rightarrow> (bool \<times> int) \<times> 'w env" where
  "open_link c s from to e =
     (let sz = unat (st_size (sb s)) + 1
      in case new_block (fc_mem (cc_io c)) () e of
           (None, e) \<Rightarrow> ((False, -2), e)
         | (bp, e) \<Rightarrow>
             (case cc_readlink c from (sz - 1) e of
                (None, e) \<Rightarrow> ((False, -2), free_block bp e)
              | (Some target, e) \<Rightarrow>
                  (let (r, e) = cc_symlink c target to e
                   in if r = -1 \<and> (e_errno e \<noteq> EEXIST \<or> flagged COPYFILE_EXCL (cf_flags s))
                      then ((False, -2), free_block bp e)
                      else (let (fd, e) = cc_open c to (O_RDONLY OR O_SYMLINK) 0 (free_block bp e)
                            in ((fd \<noteq> -1, fd), e)))))"

definition open_directory :: "('q, 'cb, 'w) cf_calls \<Rightarrow> ('q, 'cb) copyfile_state \<Rightarrow> string \<Rightarrow> u32 \<Rightarrow> 'w env \<Rightarrow> (bool \<times> int) \<times> 'w env" where
  "open_directory c s to dsrc e =
     (let (r, e) = cc_mkdir c to (st_mode (sb s) AND NOT S_IFMT) e
      in if r = -1 \<and> (e_errno e \<noteq> EEXIST \<or> flagged COPYFILE_EXCL (cf_flags s)) then ((False, -2), e)
         else (let (fd, e) = cc_open c to (O_RDONLY OR dsrc) 0 e in ((fd \<noteq> -1, fd), e)))"

definition open_dest :: "('q, 'cb, 'w) cf_calls \<Rightarrow> bool \<Rightarrow> bool \<Rightarrow> ('q, 'cb) copyfile_state \<Rightarrow> 'w env \<Rightarrow> (bool \<times> ('q, 'cb) copyfile_state \<times> 'w env) option" where
  "open_dest c islnk isdir s e =
     (case dst s of
        None \<Rightarrow> Some (True, s, e)
      | Some path \<Rightarrow>
          if dst_fd s \<noteq> -2 then Some (True, s, e)
          else (let (r, e) = (if flagged COPYFILE_UNLINK (cf_flags s) then cc_remove c path e else (0, e))
                in if r < 0 \<and> e_errno e \<noteq> ENOENT then Some (False, s, e)
                   else (let (dsrc, e) =
                           (if flagged COPYFILE_NOFOLLOW_DST (cf_flags s)
                            then (let (st, e) = cc_statx c True path e
                                  in (case st of Some (st, _) \<Rightarrow> if is_type S_IFLNK (st_mode st) then O_SYMLINK else O_NOFOLLOW
                                      | None \<Rightarrow> O_NOFOLLOW, e))
                            else (0, e))
                         in if islnk
                            then (case src s of
                                    None \<Rightarrow> None
                                  | Some from \<Rightarrow> (let ((ok, fd), e) = open_link c s from path e in Some (ok, s\<lparr>dst_fd := fd\<rparr>, e)))
                            else if isdir
                            then (let ((ok, fd), e) = open_directory c s path dsrc e in Some (ok, s\<lparr>dst_fd := fd\<rparr>, e))
                            else do { (fd, e) \<leftarrow> open_loop c s path dsrc ((O_EXCL OR O_CREAT) OR O_WRONLY) isdir e;
                                      Some (0 \<le> fd, s\<lparr>dst_fd := fd\<rparr>, e) })))"

definition copyfile_open :: "('q, 'cb, 'w) cf_calls \<Rightarrow> ('q, 'cb) copyfile_state \<Rightarrow> 'w env \<Rightarrow> (int \<times> ('q, 'cb) copyfile_state \<times> 'w env) option" where
  "copyfile_open c s e =
     (let ((ok, islnk, isdir), s, e) = open_source c s e
      in if \<not> ok then Some (-1, s, e)
         else do { (ok, s, e) \<leftarrow> open_dest c islnk isdir s e;
                   if \<not> ok then Some (-1, s, e)
                   else if dst_fd s < 0 \<or> src_fd s < 0 then Some (-1, s\<lparr>cf_err := EINVAL\<rparr>, e)
                   else Some (0, s, e) })"

section \<open>What would be copied\<close>

definition copyfile_check :: "('q, 'cb, 'w) cf_calls \<Rightarrow> ('q, 'cb) copyfile_state \<Rightarrow> 'w env \<Rightarrow> int \<times> ('q, 'cb) copyfile_state \<times> 'w env" where
  "copyfile_check c s e =
     (case src s of
        None \<Rightarrow> (-1, s\<lparr>cf_err := EINVAL\<rparr>, e)
      | Some path \<Rightarrow>
          (let nofollow = flagged COPYFILE_NOFOLLOW_SRC (cf_flags s);
               quarantined = (if flagged COPYFILE_XATTR (cf_flags s) then COPYFILE_XATTR else COPYFILE_ACL);
               (n, e) = (if flagged COPYFILE_XATTR (cf_flags s) then cc_listxattr c nofollow path e else (0, e));
               ret = (if n > 0 then COPYFILE_XATTR else 0);
               (s, e) = (if flagged COPYFILE_ACL (cf_flags s)
                         then (case cc_statx c nofollow path e of
                                 (None, e) \<Rightarrow> (s, e)
                               | (Some (st, f), e) \<Rightarrow> (s\<lparr>sb := st, fsec := (if fsec s = None then None else Some f)\<rparr>, e))
                         else (s, e));
               ret = (if flagged COPYFILE_ACL (cf_flags s) \<and> \<not> isl (filesec_get_acl (cc_sec c) (fsec s) e) then ret OR COPYFILE_ACL else ret)
           in if qinfo s \<noteq> None then (uint (ret OR quarantined), s, e)
              else (case cc_qalloc c e of
                      (None, e) \<Rightarrow> (uint ret, s, e)
                    | (Some q, e) \<Rightarrow>
                        (let (st, e) = (if nofollow then cc_statx c True path e else (None, e));
                             link = (case st of None \<Rightarrow> False | Some (st, _) \<Rightarrow> is_type S_IFLNK (st_mode st));
                             (qret, e) = (if link
                                          then (let (fd, e) = cc_open c path (O_RDONLY OR O_SYMLINK) 0 e
                                                in if fd = -1 then (False, e)
                                                   else (let ((r, _), e) = cc_qinit c q fd e; (_, e) = cc_close c fd e in (r = 0, e)))
                                          else (let (r, e) = cc_qinit_path c q path e in (r = 0, e)));
                             e = free_block (Some q) e
                         in (uint (if qret then ret OR quarantined else ret), s, e)))))"

section \<open>The order of the parts\<close>

definition unlink_dst :: "('q, 'cb, 'w) cf_calls \<Rightarrow> ('q, 'cb) copyfile_state \<Rightarrow> 'w env \<Rightarrow> 'w env" where
  "unlink_dst c s e = (case dst s of None \<Rightarrow> e | Some p \<Rightarrow> snd (cc_unlink c p e))"

definition copyfile_internal :: "('q, 'cb, 'w) cf_calls \<Rightarrow> ('q, 'cb) copyfile_state \<Rightarrow> u32 \<Rightarrow> 'w env \<Rightarrow> (int \<times> ('q, 'cb) copyfile_state \<times> 'w env) option" where
  "copyfile_internal c s fl e =
     (if dst_fd s < 0 \<or> src_fd s < 0 then Some (-1, s\<lparr>cf_err := EINVAL\<rparr>, e)
      else if flagged COPYFILE_PACK fl
      then do { (ret, s, e) \<leftarrow> cc_pack c s e; Some (ret, s, if ret < 0 then unlink_dst c s e else e) }
      else if flagged COPYFILE_UNPACK fl
      then do { (ret, s, e) \<leftarrow> cc_unpack c s e; Some (if ret < 0 then -1 else ret, s, e) }
      else (let e = (case qinfo s of None \<Rightarrow> e | Some q \<Rightarrow> snd (cc_qapply c q (dst_fd s) e));
                (ret, e) = (if flagged COPYFILE_XATTR fl then copyfile_xattr (cc_xa c) (cc_qname c) s e else (0, e))
            in if ret < 0 then Some (ret, s, e)
               else do { (ret, s, e) \<leftarrow> (if flagged COPYFILE_DATA fl then copyfile_data (cc_io c) s e else Some (ret, s, e));
                         if ret < 0 then Some (ret, s, unlink_dst c s e)
                         else (let (ret, s, e) = (if flagged COPYFILE_SECURITY fl then copyfile_security (cc_sec c) s e else (ret, s, e))
                               in if ret < 0 then Some (ret, s, e)
                                  else (let (ret, e) = (if flagged COPYFILE_STAT fl then copyfile_stat (cc_sec c) s e else (ret, e))
                                        in Some (ret, s, e))) }))"

section \<open>The public functions\<close>

text \<open>The end of both: the error of the state becomes \<open>errno\<close>, and a state of its own is released.\<close>

definition take_err :: "('q, 'cb) copyfile_state \<Rightarrow> 'w env \<Rightarrow> ('q, 'cb) copyfile_state \<times> 'w env" where
  "take_err s e = (if cf_err s \<noteq> Errno 0 then (s\<lparr>cf_err := Errno 0\<rparr>, e\<lparr>e_errno := cf_err s\<rparr>) else (s, e))"

definition release :: "('q, 'cb, 'w) cf_calls \<Rightarrow> bool \<Rightarrow> ('q, 'cb) copyfile_state \<Rightarrow> 'w env \<Rightarrow> ('q, 'cb) copyfile_state option \<times> 'w env" where
  "release c own s e =
     (if own then (let (_, e') = copyfile_state_free (cc_close c) (Some s) e in (None, e'\<lparr>e_errno := e_errno e\<rparr>)) else (Some s, e))"

text \<open>The result, the state the caller has given or a state that was not released, and the surroundings.\<close>

definition fcopyfile :: "('q, 'cb, 'w) cf_calls \<Rightarrow> int \<Rightarrow> int \<Rightarrow> ('q, 'cb) copyfile_state option \<Rightarrow> u32 \<Rightarrow> 'w env
    \<Rightarrow> (int \<times> ('q, 'cb) copyfile_state option \<times> 'w env) option" where
  "fcopyfile c sfd dfd state fl e =
     (if sfd < 0 \<or> dfd < 0 then Some (-1, state, e\<lparr>e_errno := EINVAL\<rparr>)
      else (case copyfile_preamble (fc_mem (cc_io c)) (cc_debug_var c) (cc_strtol c) state fl e of
              (_, None, e) \<Rightarrow> Some (-1, None, e)
            | (_, Some s, e) \<Rightarrow>
                (let (ok, s, e) =
                   (if src_fd s = -2
                    then (let s = s\<lparr>src_fd := sfd\<rparr>
                          in case sc_fstatx (cc_sec c) sfd e of
                               (Some (st, f), e) \<Rightarrow> (True, s\<lparr>sb := st, fsec := (if fsec s = None then None else Some f)\<rparr>, e)
                             | (None, e) \<Rightarrow> if e_errno e = ENOTSUP \<or> e_errno e = EPERM
                                            then (let (st, e) = sc_fstat (cc_sec c) sfd e in (True, s\<lparr>sb := st\<rparr>, e))
                                            else (False, s, e))
                    else (True, s, e))
                 in if \<not> ok then Some (-1, Some s, e)
                    else if \<not> is_type S_IFLNK (st_mode (sb s)) \<and> \<not> is_type S_IFDIR (st_mode (sb s)) \<and> \<not> is_type S_IFREG (st_mode (sb s))
                    then Some (-1, Some s, e\<lparr>e_errno := ENOTSUP\<rparr>)
                    else (let s = (if dst_fd s = -2 then s\<lparr>dst_fd := dfd\<rparr> else s);
                              (dst_sb, e) = sc_fstat (cc_sec c) (dst_fd s) e;
                              (_, e) = sc_fchmod (cc_sec c) (dst_fd s) ((st_mode dst_sb AND NOT S_IFMT) OR (S_IRUSR OR S_IWUSR)) e;
                              (_, s, e) = copyfile_quarantine (cc_qalloc c) (cc_qinit c) s e
                          in do { (ret, s, e) \<leftarrow> copyfile_internal c s fl e;
                                  let (_, e) = (if 0 \<le> ret \<and> \<not> flagged COPYFILE_STAT (cf_flags s)
                                                then sc_fchmod (cc_sec c) (dst_fd s) (st_mode dst_sb AND NOT S_IFMT) e else (0, e));
                                  let (s, e) = take_err s e;
                                  let (st, e) = release c (state = None) s e;
                                  Some (ret, st, e) }))))"

text \<open>
  The permissions of an existing destination are widened before it is opened.  The result is the state with its copies of
  them, what is known of the destination before (\<open>dst_sb\<close>) and whether it is to be created.
\<close>

definition widen_dst :: "('q, 'cb, 'w) cf_calls \<Rightarrow> ('q, 'cb) copyfile_state \<Rightarrow> 'w env \<Rightarrow> (stat_t option \<times> bool) \<times> ('q, 'cb) copyfile_state \<times> 'w env" where
  "widen_dst c s e =
     (let (l, e) = (if flagged COPYFILE_NOFOLLOW_DST (cf_flags s) then path_stat c True (dst s) e else (None, e))
      in if (case l of None \<Rightarrow> False | Some (st, _) \<Rightarrow> st_mode st AND S_IFLNK \<noteq> 0)
         then ((map_option fst l, False), s\<lparr>permissive_fsec := None\<rparr>, free_block (permissive_fsec s) e)
         else (case path_stat c False (dst s) e of
                 (Some (st, f), e) \<Rightarrow>
                   (let s = s\<lparr>original_fsec := Some f\<rparr>;
                        p = copyfile_fix_perms (cc_sec c) (original_fsec s) e;
                        s = s\<lparr>permissive_fsec := p\<rparr>
                    in case (p, dst s) of
                         (Some pf, Some path) \<Rightarrow>
                           (let e = e\<lparr>live := live e + 1\<rparr>; (r, e) = cc_chmodx c path pf e
                            in if r < 0 \<and> e_errno e \<noteq> ENOTSUP
                               then ((Some st, False), s\<lparr>permissive_fsec := None\<rparr>, free_block p e)
                               else ((Some st, False), s, e))
                       | _ \<Rightarrow> ((Some st, False), s, e))
               | (None, e) \<Rightarrow> ((map_option fst l, e_errno e = ENOENT), s, e)))"

text \<open>\<open>dst_sb\<close> is used where it may not have been filled; that is \<open>None\<close>.\<close>

definition restore_dst :: "('q, 'cb, 'w) cf_calls \<Rightarrow> ('q, 'cb) copyfile_state \<Rightarrow> u32 \<Rightarrow> stat_t option \<times> bool \<Rightarrow> 'w env \<Rightarrow> 'w env option" where
  "restore_dst c s fl d e =
     (if \<not> flagged COPYFILE_STAT fl \<and> \<not> snd d
      then (case fst d of
              None \<Rightarrow> None
            | Some st \<Rightarrow>
                (let (_, e) = sc_fchown (cc_sec c) (dst_fd s) (st_uid st) (st_gid st) e;
                     (_, e) = sc_fchmod (cc_sec c) (dst_fd s) (st_mode st) e
                 in Some e))
      else Some e)"

text \<open>\<open>own\<close> is whether the state is one of the call; an error exit takes the error of the state.\<close>

definition copyfile_error :: "('q, 'cb, 'w) cf_calls \<Rightarrow> bool \<Rightarrow> ('q, 'cb) copyfile_state \<Rightarrow> 'w env \<Rightarrow> int \<times> ('q, 'cb) copyfile_state option \<times> 'w env" where
  "copyfile_error c own s e = (let (s, e) = take_err s e; (st, e) = release c own s e in (-1, st, e))"

definition copyfile :: "('q, 'cb, 'w) cf_calls \<Rightarrow> string option \<Rightarrow> string option \<Rightarrow> ('q, 'cb) copyfile_state option \<Rightarrow> u32 \<Rightarrow> 'w env
    \<Rightarrow> (int \<times> ('q, 'cb) copyfile_state option \<times> 'w env) option" where
  "copyfile c from to state fl e =
     (if from = None \<and> to = None then Some (-1, state, e\<lparr>e_errno := EINVAL\<rparr>)
      else (case copyfile_preamble (fc_mem (cc_io c)) (cc_debug_var c) (cc_strtol c) state fl e of
              (_, None, e) \<Rightarrow> Some (-1, None, e)
            | (_, Some s, e) \<Rightarrow>
                (let own = (state = None);
                     (ok, (n, fd), e) = COPYFILE_SET_FNAME (cc_close c) (fc_mem (cc_io c)) from (src s, src_fd s) e;
                     s = s\<lparr>src := n, src_fd := fd\<rparr>
                 in if \<not> ok then Some (-1, Some s, e)
                    else (let (ok, (n, fd), e) = COPYFILE_SET_FNAME (cc_close c) (fc_mem (cc_io c)) to (dst s, dst_fd s) e;
                              s = s\<lparr>dst := n, dst_fd := fd\<rparr>
                          in if \<not> ok then Some (-1, Some s, e)
                             else if flagged COPYFILE_RECURSIVE (cf_flags s)
                             then do { (ret, s, e) \<leftarrow> cc_tree c s e; let (st, e) = release c own s e; Some (ret, st, e) }
                             else (case filesec_init (fc_mem (cc_io c)) e of
                                     (None, e) \<Rightarrow> Some (copyfile_error c own (s\<lparr>original_fsec := None\<rparr>) e)
                                   | (f, e) \<Rightarrow>
                                       (let (d, s, e) = widen_dst c (s\<lparr>original_fsec := f\<rparr>) e
                                        in if flagged COPYFILE_CHECK fl
                                           then (let (ret, s, e) = copyfile_check c s e; (st, e) = release c own s e in Some (ret, st, e))
                                           else do { (ret, s, e) \<leftarrow> copyfile_open c s e;
                                                     if ret < 0 then Some (copyfile_error c own s e)
                                                     else do { (ret, s, e) \<leftarrow> copyfile_internal c s fl e;
                                                               if ret = -1 then Some (copyfile_error c own s e)
                                                               else do { e \<leftarrow> restore_dst c s fl d e;
                                                                         let e = reset_security (cc_sec c) s e;
                                                                         let (st, e) = release c own s e;
                                                                         Some (ret, st, e) } } }))))))"

section \<open>A plain file system\<close>

text \<open>
  Files and directories by number; a descriptor is the number of its file, and each name is a whole path.  There are no attributes, lists or quarantine
  information, and \<open>opened\<close> counts the descriptors in use.
\<close>

record fsw = fworld +
  names :: "string \<Rightarrow> int option"
  modes :: "int \<Rightarrow> u16"
  owners :: "int \<Rightarrow> u32 \<times> u32"
  nextfd :: int
  opened :: int

definition stat_file :: "'x fsw_scheme \<Rightarrow> int \<Rightarrow> stat_t \<times> filesec" where
  "stat_file w n = (zero_stat\<lparr>st_mode := modes w n, st_uid := fst (owners w n), st_gid := snd (owners w n), st_size := of_nat (length (file_of w n)), st_blksize := 4096\<rparr>,
     empty_filesec\<lparr>fs_mode := Some (modes w n)\<rparr>)"

definition plain_open :: "string \<Rightarrow> u32 \<Rightarrow> u16 \<Rightarrow> 'x fsw_scheme env \<Rightarrow> int \<times> 'x fsw_scheme env" where
  "plain_open path fl mode e =
     (let w = wld e
      in case names w path of
           Some n \<Rightarrow> if flagged O_CREAT fl \<and> flagged O_EXCL fl then (-1, e\<lparr>e_errno := EEXIST\<rparr>)
                     else (n, e\<lparr>wld := w\<lparr>pos := (pos w)(n := 0), file_of := (file_of w)(n := if flagged O_TRUNC fl then [] else file_of w n), opened := opened w + 1\<rparr>\<rparr>)
         | None \<Rightarrow> if flagged O_CREAT fl
                   then (nextfd w, e\<lparr>wld := w\<lparr>pos := (pos w)(nextfd w := 0), file_of := (file_of w)(nextfd w := []), names := (names w)(path \<mapsto> nextfd w),
                           modes := (modes w)(nextfd w := mode), nextfd := nextfd w + 1, opened := opened w + 1\<rparr>\<rparr>)
                   else (-1, e\<lparr>e_errno := ENOENT\<rparr>))"

definition plain_stat :: "bool \<Rightarrow> string \<Rightarrow> 'x fsw_scheme env \<Rightarrow> (stat_t \<times> filesec) option \<times> 'x fsw_scheme env" where
  "plain_stat nofollow path e =
     (case names (wld e) path of None \<Rightarrow> (None, e\<lparr>e_errno := ENOENT\<rparr>) | Some n \<Rightarrow> (Some (stat_file (wld e) n), e))"

definition plain_close :: "int \<Rightarrow> 'x fsw_scheme env \<Rightarrow> int \<times> 'x fsw_scheme env" where
  "plain_close fd e = (0, e\<lparr>wld := (wld e)\<lparr>opened := opened (wld e) - 1\<rparr>\<rparr>)"

definition set_mode :: "int \<Rightarrow> u16 \<Rightarrow> 'x fsw_scheme env \<Rightarrow> int \<times> 'x fsw_scheme env" where
  "set_mode n m e = (0, e\<lparr>wld := (wld e)\<lparr>modes := (modes (wld e))(n := m AND NOT S_IFMT OR (modes (wld e) n AND S_IFMT))\<rparr>\<rparr>)"

definition set_owner :: "int \<Rightarrow> u32 \<Rightarrow> u32 \<Rightarrow> 'x fsw_scheme env \<Rightarrow> int \<times> 'x fsw_scheme env" where
  "set_owner n u g e = (0, e\<lparr>wld := (wld e)\<lparr>owners := (owners (wld e))(n := (u, g))\<rparr>\<rparr>)"

definition set_file_mode :: "string \<Rightarrow> u16 \<Rightarrow> 'x fsw_scheme env \<Rightarrow> int \<times> 'x fsw_scheme env" where
  "set_file_mode path m e = (case names (wld e) path of None \<Rightarrow> (-1, e\<lparr>e_errno := ENOENT\<rparr>) | Some n \<Rightarrow> set_mode n m e)"

definition unlink_file :: "string \<Rightarrow> 'x fsw_scheme env \<Rightarrow> int \<times> 'x fsw_scheme env" where
  "unlink_file path e = (case names (wld e) path of None \<Rightarrow> (-1, e\<lparr>e_errno := ENOENT\<rparr>)
     | Some n \<Rightarrow> (0, e\<lparr>wld := (wld e)\<lparr>names := (names (wld e))(path := None)\<rparr>\<rparr>))"

definition plain_mkdir :: "string \<Rightarrow> u16 \<Rightarrow> 'x fsw_scheme env \<Rightarrow> int \<times> 'x fsw_scheme env" where
  "plain_mkdir path m e = (case names (wld e) path of Some n \<Rightarrow> (-1, e\<lparr>e_errno := EEXIST\<rparr>)
     | None \<Rightarrow> (let w = wld e; n = nextfd w
               in (0, e\<lparr>wld := w\<lparr>file_of := (file_of w)(n := []), names := (names w)(path \<mapsto> n), modes := (modes w)(n := m OR S_IFDIR), nextfd := n + 1\<rparr>\<rparr>)))"

definition no_call :: "'x fsw_scheme env \<Rightarrow> int \<times> 'x fsw_scheme env" where
  "no_call e = (-1, e\<lparr>e_errno := ENOTSUP\<rparr>)"

definition plain_sec :: "'x fsw_scheme sec_calls" where
  "plain_sec = \<lparr>sc_mem = (\<lambda>_. True), sc_uuid = (\<lambda>u. Some (unat u)), sc_uid = 0, sc_euid = 0, sc_junk = 0, sc_max = 128,
     sc_fstatx = (\<lambda>fd e. (Some (stat_file (wld e) fd), e)),
     sc_fchmodx = (\<lambda>fd f e. case fs_mode f of None \<Rightarrow> (0, e) | Some m \<Rightarrow> set_mode fd m e),
     sc_fstat = (\<lambda>fd e. (fst (stat_file (wld e) fd), e)), sc_fchmod = set_mode, sc_fchown = set_owner,
     sc_acl_set_fd = (\<lambda>fd a. no_call), sc_fchflags = (\<lambda>fd n e. (0, e)), sc_futimes = (\<lambda>fd t e. (0, e))\<rparr>"

definition plain_calls :: "('q, 'cb, 'x fsw_scheme) cf_calls" where
  "plain_calls = \<lparr>cc_io = file_system (\<lambda>_. True) (\<lambda>_. Some 4096),
     cc_xa = \<lparr>xc_mem = (\<lambda>_. True), xc_list = (\<lambda>fd n e. ((0, []), e)), xc_get = (\<lambda>fd k n e. ((-1, []), e)), xc_set = (\<lambda>fd k d n. no_call), xc_remove = (\<lambda>fd k. no_call)\<rparr>,
     cc_sec = plain_sec, cc_qname = ''com.apple.quarantine'', cc_qalloc = (\<lambda>e. (None, e)), cc_qinit = (\<lambda>q fd e. ((-1, q), e)), cc_qinit_path = (\<lambda>q p. no_call),
     cc_qapply = (\<lambda>q fd. no_call), cc_open = plain_open, cc_close = plain_close, cc_statx = plain_stat, cc_remove = unlink_file, cc_unlink = unlink_file,
     cc_readlink = (\<lambda>p n e. (None, e)), cc_symlink = (\<lambda>a b. no_call), cc_mkdir = plain_mkdir, cc_chmod = set_file_mode,
     cc_chmodx = (\<lambda>p f e. case fs_mode f of None \<Rightarrow> (0, e) | Some m \<Rightarrow> set_file_mode p m e),
     cc_listxattr = (\<lambda>n p e. (0, e)), cc_debug_var = None, cc_strtol = (\<lambda>_. (0, Errno 0)), cc_tree = (\<lambda>s e. None), cc_pack = (\<lambda>s e. None), cc_unpack = (\<lambda>s e. None)\<rparr>"

lemma plain_simps [simp]:
  "cc_io plain_calls = file_system (\<lambda>_. True) (\<lambda>_. Some 4096)" "cc_sec plain_calls = plain_sec" "cc_qalloc plain_calls e = (None, e)"
  "cc_open plain_calls = plain_open" "cc_close plain_calls = plain_close" "cc_statx plain_calls = plain_stat" "cc_chmod plain_calls = set_file_mode"
  "cc_debug_var plain_calls = None" "cc_mkdir plain_calls = plain_mkdir"
  by (simp_all add: plain_calls_def)

lemma data_only [simp]:
  "flagged COPYFILE_DATA COPYFILE_DATA" "\<not> flagged COPYFILE_XATTR COPYFILE_DATA" "\<not> flagged COPYFILE_SECURITY COPYFILE_DATA" "\<not> flagged COPYFILE_STAT COPYFILE_DATA"
  "\<not> flagged COPYFILE_PACK COPYFILE_DATA" "\<not> flagged COPYFILE_UNPACK COPYFILE_DATA" "\<not> flagged COPYFILE_RECURSIVE COPYFILE_DATA" "\<not> flagged COPYFILE_CHECK COPYFILE_DATA"
  "\<not> flagged COPYFILE_NOFOLLOW_SRC COPYFILE_DATA" "\<not> flagged COPYFILE_NOFOLLOW_DST COPYFILE_DATA" "\<not> flagged COPYFILE_UNLINK COPYFILE_DATA" "\<not> flagged COPYFILE_EXCL COPYFILE_DATA"
  "\<not> flagged COPYFILE_DEBUG COPYFILE_DATA" "flagged (COPYFILE_PACK OR COPYFILE_DATA) COPYFILE_DATA" "\<not> flagged cfDelayAce 0"
  by (simp_all add: flagged_def copyfile_flags cfDelayAce_def)

lemma regular_type: "is_type S_IFREG m \<Longrightarrow> \<not> is_type S_IFLNK m \<and> \<not> is_type S_IFDIR m"
  by (auto simp: is_type_def S_IFREG_def S_IFLNK_def S_IFDIR_def)

lemma open_source_plain:
  assumes "names (wld e) from = Some n" and "is_type S_IFREG (modes (wld e) n)" and "0 \<le> n"
    and "src s = Some from" and "src_fd s = -2" and "cf_flags s = COPYFILE_DATA" and "qinfo s = None" and "fsec s = Some f"
  shows "open_source plain_calls s e = ((True, False, False), s\<lparr>sb := fst (stat_file (wld e) n), fsec := Some (snd (stat_file (wld e) n)), src_fd := n\<rparr>,
    e\<lparr>wld := (wld e)\<lparr>pos := (pos (wld e))(n := 0), opened := opened (wld e) + 1\<rparr>\<rparr>)"
proof -
  have m: "st_mode (fst (stat_file (wld e) n)) = modes (wld e) n" by (simp add: stat_file_def)
  have o: "plain_open from (O_RDONLY OR 0) 0 e = (n, e\<lparr>wld := (wld e)\<lparr>pos := (pos (wld e))(n := 0), opened := opened (wld e) + 1\<rparr>\<rparr>)"
    using assms(1) by (simp add: plain_open_def flagged_def O_RDONLY_def O_CREAT_def O_TRUNC_def Let_def)
  obtain st fs where sf: "stat_file (wld e) n = (st, fs)" by (cases "stat_file (wld e) n")
  show ?thesis
    using assms regular_type [OF assms(2)] m o sf
    by (simp add: open_source_def plain_stat_def copyfile_quarantine_def Let_def)
qed

text \<open>The number of the destination's file, and the modes where it is opened for a source with mode \<open>m\<close>.\<close>

definition target :: "'x fsw_scheme \<Rightarrow> string \<Rightarrow> int" where
  "target w to = (case names w to of Some m \<Rightarrow> m | None \<Rightarrow> nextfd w)"

definition opened_modes :: "'x fsw_scheme \<Rightarrow> string \<Rightarrow> u16 \<Rightarrow> int \<Rightarrow> u16" where
  "opened_modes w to m = (case names w to of Some _ \<Rightarrow> modes w | None \<Rightarrow> (modes w)(nextfd w := m OR S_IWUSR))"

lemma open_dest_plain:
  assumes "dst s = Some to" and "dst_fd s = -2" and "cf_flags s = COPYFILE_DATA" and "0 \<le> target (wld e) to"
  shows "\<exists>e'. open_dest plain_calls False False s e = Some (True, s\<lparr>dst_fd := target (wld e) to\<rparr>, e')
    \<and> live e' = live e \<and> file_of (wld e') = (file_of (wld e))(target (wld e) to := []) \<and> pos (wld e') = (pos (wld e))(target (wld e) to := 0)
    \<and> names (wld e') = (names (wld e))(to \<mapsto> target (wld e) to) \<and> opened (wld e') = opened (wld e) + 1
    \<and> modes (wld e') = opened_modes (wld e) to (st_mode (sb s)) \<and> owners (wld e') = owners (wld e)"
proof -
  let ?fl = "(O_EXCL OR O_CREAT) OR O_WRONLY"
  let ?fl2 = "(?fl AND NOT O_CREAT) OR O_TRUNC"
  have f: "flagged O_CREAT (?fl OR 0)" "flagged O_EXCL (?fl OR 0)" "\<not> flagged O_CREAT (?fl2 OR 0)" "flagged O_TRUNC (?fl2 OR 0)"
    by (simp_all add: flagged_def O_EXCL_def O_CREAT_def O_WRONLY_def O_TRUNC_def)
  have d: "open_dest plain_calls False False s e = map_option (\<lambda>(fd, e). (0 \<le> fd, s\<lparr>dst_fd := fd\<rparr>, e)) (open_loop plain_calls s to 0 ?fl False e)"
    using assms(1-3) by (simp add: open_dest_def Let_def map_option_case bind_eq_Some_conv split: option.split)
  show ?thesis
  proof (cases "names (wld e) to")
    case None
    then show ?thesis using d f assms(4)
      by (subst (asm) open_loop.simps) (simp add: plain_open_def target_def opened_modes_def Let_def)
  next
    case (Some m)
    have "open_loop plain_calls s to 0 ?fl False e = open_loop plain_calls s to 0 ?fl2 False (e\<lparr>e_errno := EEXIST\<rparr>)"
      using Some f assms(3) by (subst open_loop.simps) (simp add: plain_open_def Let_def)
    also have "\<dots> = Some (m, snd (plain_open to (?fl2 OR 0) (st_mode (sb s) OR S_IWUSR) (e\<lparr>e_errno := EEXIST\<rparr>)))"
      using Some f assms(4) by (subst open_loop.simps) (simp add: plain_open_def target_def Let_def)
    finally show ?thesis using d f Some assms(4) by (simp add: plain_open_def target_def opened_modes_def Let_def fun_upd_idem)
  qed
qed

lemma same_more: "fworld.more (w :: 'x fsw_scheme) = fworld.more v \<Longrightarrow>
    names w = names v \<and> opened w = opened v \<and> modes w = modes v \<and> owners w = owners v \<and> nextfd w = nextfd v \<and> fsw.more w = fsw.more v"
  by (cases w; cases v) simp

text \<open>What opening and copying keep of a state.\<close>

definition same_blocks :: "('q, 'cb) copyfile_state \<Rightarrow> ('q, 'cb) copyfile_state \<Rightarrow> bool" where
  "same_blocks s t \<longleftrightarrow> src t = src s \<and> dst t = dst s \<and> fsec t \<noteq> None \<and> original_fsec t = original_fsec s \<and> permissive_fsec t = permissive_fsec s
     \<and> qinfo t = qinfo s \<and> internal_flags t = internal_flags s"

lemma open_and_copy:
  fixes s :: "('q, 'cb) copyfile_state"
  assumes "names (wld e) from = Some n" and "is_type S_IFREG (modes (wld e) n)" and "0 \<le> n" and "0 \<le> target (wld e) to" and "target (wld e) to \<noteq> n"
    and "length (file_of (wld e) n) < 2 ^ 64"
    and "src s = Some from" and "dst s = Some to" and "src_fd s = -2" and "dst_fd s = -2" and "cf_flags s = COPYFILE_DATA" and "qinfo s = None"
    and "fsec s = Some f" and "statuscb s = None"
  shows "\<exists>s1 e1 s2 e2. copyfile_open plain_calls s e = Some (0, s1, e1) \<and> copyfile_internal plain_calls s1 COPYFILE_DATA e1 = Some (0, s2, e2)
    \<and> same_blocks s s2 \<and> src_fd s2 = n \<and> dst_fd s2 = target (wld e) to \<and> live e2 = live e \<and> names (wld e2) = (names (wld e))(to \<mapsto> target (wld e) to)
    \<and> file_of (wld e2) = (file_of (wld e))(target (wld e) to := file_of (wld e) n) \<and> opened (wld e2) = opened (wld e) + 2
    \<and> modes (wld e2) = opened_modes (wld e) to (modes (wld e) n) \<and> owners (wld e2) = owners (wld e)"
proof -
  let ?m = "target (wld e) to"
  let ?sa = "s\<lparr>sb := fst (stat_file (wld e) n), fsec := Some (snd (stat_file (wld e) n)), src_fd := n\<rparr>"
  let ?ea = "e\<lparr>wld := (wld e)\<lparr>pos := (pos (wld e))(n := 0), opened := opened (wld e) + 1\<rparr>\<rparr>"
  let ?s1 = "?sa\<lparr>dst_fd := ?m\<rparr>"
  have a: "open_source plain_calls s e = ((True, False, False), ?sa, ?ea)"
    using open_source_plain assms by blast
  have t: "target (wld ?ea) to = ?m" by (simp add: target_def split: option.split)
  have om: "opened_modes (wld ?ea) to k = opened_modes (wld e) to k" for k by (simp add: opened_modes_def split: option.split)
  have sm: "st_mode (sb ?sa) = modes (wld e) n" by (simp add: stat_file_def)
  obtain e1 where d: "open_dest plain_calls False False ?sa ?ea = Some (True, ?s1, e1)" "live e1 = live e"
    "file_of (wld e1) = (file_of (wld e))(?m := [])" "pos (wld e1) = ((pos (wld e))(n := 0))(?m := 0)"
    "names (wld e1) = (names (wld e))(to \<mapsto> ?m)" "opened (wld e1) = opened (wld e) + 2"
    "modes (wld e1) = opened_modes (wld e) to (modes (wld e) n)" "owners (wld e1) = owners (wld e)"
    using open_dest_plain [of ?sa to ?ea] assms t unfolding om sm by auto
  have o: "copyfile_open plain_calls s e = Some (0, ?s1, e1)" using a d(1) assms(3,4) by (simp add: copyfile_open_def)
  have sz: "unat (of_nat (length (file_of (wld e) n)) :: u64) = length (file_of (wld e) n)"
    using assms(6) by (simp add: unat_of_nat take_bit_nat_eq_self)
  have fn: "file_of (wld e1) n = file_of (wld e) n" using d(3) assms(5) by simp
  have "\<exists>e2. copyfile_data (file_system (\<lambda>_. True) (\<lambda>_. Some 4096)) ?s1 e1 = Some (0, ?s1\<lparr>totalCopied := st_size (sb ?s1)\<rparr>, e2)
    \<and> file_of (wld e2) = (file_of (wld e1))(dst_fd ?s1 := file_of (wld e1) (src_fd ?s1)) \<and> live e2 = live e1 \<and> fworld.more (wld e2) = fworld.more (wld e1)"
    by (rule data_copied) (use assms d(4) sz fn in \<open>simp_all add: is_type_def stat_file_def source_block_def onegig_def min_def\<close>)
  then obtain e2 where c: "copyfile_data (file_system (\<lambda>_. True) (\<lambda>_. Some 4096)) ?s1 e1 = Some (0, ?s1\<lparr>totalCopied := st_size (sb ?s1)\<rparr>, e2)"
    "file_of (wld e2) = (file_of (wld e1))(?m := file_of (wld e1) n)" "live e2 = live e1" "fworld.more (wld e2) = fworld.more (wld e1)" by auto
  have m: "names (wld e2) = names (wld e1)" "opened (wld e2) = opened (wld e1)" "modes (wld e2) = modes (wld e1)" "owners (wld e2) = owners (wld e1)"
    using same_more [OF c(4)] by simp_all
  have "copyfile_internal plain_calls ?s1 COPYFILE_DATA e1 = Some (0, ?s1\<lparr>totalCopied := st_size (sb ?s1)\<rparr>, e2)"
    using c(1) assms(3,4,12) by (simp add: copyfile_internal_def)
  then show ?thesis using o c d m assms fn by (auto simp: same_blocks_def)
qed

text \<open>The calls around it: the permissions of an existing destination, and the release of the state.\<close>

definition widened :: "('q, 'cb) copyfile_state \<Rightarrow> ('q, 'cb) copyfile_state \<Rightarrow> bool" where
  "widened s t \<longleftrightarrow> src t = src s \<and> dst t = dst s \<and> src_fd t = src_fd s \<and> dst_fd t = dst_fd s \<and> cf_flags t = cf_flags s \<and> qinfo t = qinfo s
     \<and> fsec t = fsec s \<and> statuscb t = statuscb s \<and> internal_flags t = internal_flags s \<and> original_fsec t \<noteq> None"

lemma type_kept: "(k AND NOT S_IFMT OR (m AND S_IFMT)) AND S_IFMT = m AND S_IFMT"
  by (rule bit_eqI) (auto simp: bit_and_iff bit_or_iff bit_not_iff)

lemma mode_back: "(k :: u16) AND S_IFMT = m AND S_IFMT \<Longrightarrow> m AND NOT S_IFMT OR (k AND S_IFMT) = m"
proof -
  assume "k AND S_IFMT = m AND S_IFMT"
  then show ?thesis by (simp only:) (rule bit_eqI, auto simp: bit_and_iff bit_or_iff bit_not_iff)
qed

lemma widen_plain:
  fixes s :: "('q, 'cb) copyfile_state" and e :: "'x fsw_scheme env"
  assumes "dst s = Some to" and "cf_flags s = COPYFILE_DATA" and "permissive_fsec s = None" and "original_fsec s \<noteq> None"
  shows "\<exists>d s' e'. widen_dst plain_calls s e = ((d, names (wld e) to = None), s', e') \<and> (\<forall>m. names (wld e) to = Some m \<longrightarrow> d = Some (fst (stat_file (wld e) m)) \<and> modes (wld e') m AND S_IFMT = modes (wld e) m AND S_IFMT)
    \<and> widened s s' \<and> live e' = live e + of_bool (permissive_fsec s' \<noteq> None)
    \<and> file_of (wld e') = file_of (wld e) \<and> names (wld e') = names (wld e) \<and> opened (wld e') = opened (wld e) \<and> nextfd (wld e') = nextfd (wld e)
    \<and> (\<forall>n. names (wld e) to \<noteq> Some n \<longrightarrow> modes (wld e') n = modes (wld e) n) \<and> owners (wld e') = owners (wld e)"
proof (cases "names (wld e) to")
  case None
  then show ?thesis using assms
    by (auto simp: widen_dst_def path_stat_def plain_stat_def widened_def)
next
  case (Some m)
  let ?f = "snd (stat_file (wld e) m)"
  have "\<exists>r. copyfile_fix_perms plain_sec (Some ?f) e = Some r \<and> fs_mode r \<noteq> None"
    by (simp add: copyfile_fix_perms_def filesec_dup_def filesec_get_acl_def stat_file_def plain_sec_def empty_filesec_def)
  then obtain r md where r: "copyfile_fix_perms plain_sec (Some ?f) e = Some r" and md: "fs_mode r = Some md" by blast
  have x: "cc_chmodx (plain_calls :: ('q, 'cb, 'x fsw_scheme) cf_calls) to r e' = set_file_mode to md e'" for e' by (simp add: plain_calls_def md)
  obtain st f where sf: "stat_file (wld e) m = (st, f)" by (cases "stat_file (wld e) m")
  have r': "copyfile_fix_perms plain_sec (Some f) e = Some r" using r sf by simp
  have w: "widen_dst plain_calls s e = ((Some st, False), s\<lparr>original_fsec := Some f, permissive_fsec := Some r\<rparr>,
      snd (set_mode m md (e\<lparr>live := live e + 1\<rparr>)))"
    using Some assms r' x by (simp add: widen_dst_def path_stat_def plain_stat_def sf set_file_mode_def set_mode_def Let_def)
  show ?thesis using Some assms by (simp add: w widened_def set_mode_def sf type_kept)
qed

lemma release_plain:
  assumes "0 \<le> src_fd s" and "0 \<le> dst_fd s" and "src s \<noteq> None" and "dst s \<noteq> None" and "fsec s \<noteq> None" and "original_fsec s \<noteq> None" and "qinfo s = None"
  shows "\<exists>e'. release plain_calls True s e = (None, e') \<and> live e' = live e - 5 - of_bool (permissive_fsec s \<noteq> None)
    \<and> opened (wld e') = opened (wld e) - 2 \<and> file_of (wld e') = file_of (wld e) \<and> names (wld e') = names (wld e)
    \<and> modes (wld e') = modes (wld e) \<and> owners (wld e') = owners (wld e)"
  using assms by (auto simp: release_def copyfile_state_free_def copyfile_close_def plain_close_def Let_def)

lemma reset_plain:
  assumes "dst_fd s > -1"
  shows "reset_security plain_sec s e = e"
  using assms
  by (simp add: reset_security_def remove_uberace_def filesec_get_acl_def plain_sec_def stat_file_def empty_filesec_def cfDelayAce_def flagged_def)

lemma restore_new: "restore_dst plain_calls s COPYFILE_DATA (d, True) e = Some e"
  by (simp add: restore_dst_def)

lemma restore_old:
  assumes "modes (wld e) (dst_fd s) AND S_IFMT = st_mode st AND S_IFMT"
  shows "\<exists>e'. restore_dst plain_calls s COPYFILE_DATA (Some st, False) e = Some e' \<and> live e' = live e \<and> opened (wld e') = opened (wld e)
    \<and> file_of (wld e') = file_of (wld e) \<and> names (wld e') = names (wld e) \<and> modes (wld e') = (modes (wld e))(dst_fd s := st_mode st)
    \<and> owners (wld e') = (owners (wld e))(dst_fd s := (st_uid st, st_gid st))"
  using mode_back [OF assms] by (simp add: restore_dst_def plain_sec_def set_mode_def set_owner_def)

text \<open>The mode of a file whose owner may read and write it.\<close>

lemma fix_mode: "(if m AND (S_IWUSR OR S_IRUSR) \<noteq> S_IWUSR OR S_IRUSR then m OR (S_IWUSR OR S_IRUSR) else m) = m OR (S_IWUSR OR S_IRUSR)"
proof (cases "m AND (S_IWUSR OR S_IRUSR) = S_IWUSR OR S_IRUSR")
  case True
  have "bit (S_IWUSR OR S_IRUSR) k \<Longrightarrow> bit m k" for k using True by (metis bit_and_iff)
  then have "m OR (S_IWUSR OR S_IRUSR) = m" by (intro bit_eqI) (auto simp: bit_or_iff)
  then show ?thesis using True by simp
qed simp

lemma same_type_mode: "(m OR (S_IWUSR OR S_IRUSR)) AND NOT S_IFMT OR (m AND S_IFMT) = m OR (S_IWUSR OR S_IRUSR)"
proof -
  have "(S_IWUSR OR S_IRUSR) AND S_IFMT = 0" by (simp add: S_IWUSR_def S_IRUSR_def S_IFMT_def)
  then have "m AND S_IFMT = (m OR (S_IWUSR OR S_IRUSR)) AND S_IFMT" by (simp add: bit.conj_disj_distrib2)
  then show ?thesis by (metis bit.conj_cancel_right bit.conj_disj_distrib bit.disj_cancel_left and.right_neutral or.commute)
qed

lemma widen_mode:
  fixes s :: "('q, 'cb) copyfile_state" and e :: "'x fsw_scheme env"
  assumes "names (wld e) to = Some m" and "dst s = Some to" and "\<not> flagged COPYFILE_NOFOLLOW_DST (cf_flags s)"
  shows "\<exists>st f r e'. widen_dst plain_calls s e = ((Some st, False), s\<lparr>original_fsec := Some f, permissive_fsec := Some r\<rparr>, e')
    \<and> modes (wld e') m = modes (wld e) m OR (S_IWUSR OR S_IRUSR) \<and> names (wld e') = names (wld e)"
proof -
  obtain st f where sf: "stat_file (wld e) m = (st, f)" by (cases "stat_file (wld e) m")
  then have f: "f = empty_filesec\<lparr>fs_mode := Some (modes (wld e) m)\<rparr>" by (simp add: stat_file_def)
  have "\<exists>r. copyfile_fix_perms plain_sec (Some f) e = Some r \<and> fs_mode r = Some (modes (wld e) m OR (S_IWUSR OR S_IRUSR))"
    using fix_mode [of "modes (wld e) m"]
    by (auto simp: f copyfile_fix_perms_def filesec_dup_def filesec_get_acl_def plain_sec_def empty_filesec_def split: if_splits)
  then obtain r where r: "copyfile_fix_perms plain_sec (Some f) e = Some r" "fs_mode r = Some (modes (wld e) m OR (S_IWUSR OR S_IRUSR))" by blast
  have x: "cc_chmodx (plain_calls :: ('q, 'cb, 'x fsw_scheme) cf_calls) to r e' = set_file_mode to (modes (wld e) m OR (S_IWUSR OR S_IRUSR)) e'" for e'
    by (simp add: plain_calls_def r(2))
  have w: "widen_dst plain_calls s e = ((Some st, False), s\<lparr>original_fsec := Some f, permissive_fsec := Some r\<rparr>,
      snd (set_mode m (modes (wld e) m OR (S_IWUSR OR S_IRUSR)) (e\<lparr>live := live e + 1\<rparr>)))"
    using assms r(1) x by (simp add: widen_dst_def path_stat_def plain_stat_def sf set_file_mode_def set_mode_def Let_def)
  show ?thesis unfolding w by (intro exI conjI, rule refl, simp_all add: set_mode_def same_type_mode)
qed

lemma check_flags [simp]:
  "flagged COPYFILE_CHECK COPYFILE_CHECK" "\<not> flagged COPYFILE_RECURSIVE COPYFILE_CHECK" "\<not> flagged COPYFILE_NOFOLLOW_DST COPYFILE_CHECK"
  "\<not> flagged COPYFILE_NOFOLLOW_SRC COPYFILE_CHECK" "\<not> flagged COPYFILE_DEBUG COPYFILE_CHECK" "\<not> flagged COPYFILE_XATTR COPYFILE_CHECK" "\<not> flagged COPYFILE_ACL COPYFILE_CHECK"
  by (simp_all add: flagged_def copyfile_flags)

section \<open>Properties\<close>

text \<open>C9: Copying the data of a regular file by name ends and succeeds, whether the destination exists or not: afterwards the
  name of the destination names a file with exactly the contents of the source.  A destination that existed has its mode and
  its owner again, although both were open to change during the copy; a new one has the mode of the source, and its owner may
  write it.  No other name and no other file is changed, in contents, mode or owner, and every block and descriptor the call
  has taken is released.\<close>

theorem copyfile_copies_file:
  assumes "names (wld e) from = Some n" and "is_type S_IFREG (modes (wld e) n)" and "0 \<le> n" and "0 \<le> target (wld e) to" and "target (wld e) to \<noteq> n"
    and "length (file_of (wld e) n) < 2 ^ 64"
  shows "\<exists>e'. copyfile (plain_calls :: ('q, 'cb, 'x fsw_scheme) cf_calls) (Some from) (Some to) None COPYFILE_DATA e = Some (0, None, e')
    \<and> names (wld e') = (names (wld e))(to \<mapsto> target (wld e) to)
    \<and> file_of (wld e') = (file_of (wld e))(target (wld e) to := file_of (wld e) n)
    \<and> modes (wld e') = (if names (wld e) to = None then (modes (wld e))(nextfd (wld e) := modes (wld e) n OR S_IWUSR) else modes (wld e))
    \<and> owners (wld e') = owners (wld e) \<and> live e' = live e \<and> opened (wld e') = opened (wld e)"
proof -
  let ?s = "fresh_state\<lparr>fsec := Some empty_filesec, cf_flags := COPYFILE_DATA, src := Some from, src_fd := -2, dst := Some to, dst_fd := -2, original_fsec := Some empty_filesec\<rparr> :: ('q, 'cb) copyfile_state"
  let ?e = "e\<lparr>live := live e + 5\<rparr>"
  let ?m = "target (wld e) to"
  obtain d s1 e1 where w: "widen_dst plain_calls ?s ?e = ((d, names (wld e) to = None), s1, e1)"
    "\<forall>m. names (wld e) to = Some m \<longrightarrow> d = Some (fst (stat_file (wld e) m)) \<and> modes (wld e1) m AND S_IFMT = modes (wld e) m AND S_IFMT"
    "widened ?s s1" "live e1 = live e + 5 + of_bool (permissive_fsec s1 \<noteq> None)"
    "file_of (wld e1) = file_of (wld e)" "names (wld e1) = names (wld e)" "opened (wld e1) = opened (wld e)" "nextfd (wld e1) = nextfd (wld e)"
    "\<forall>n. names (wld e) to \<noteq> Some n \<longrightarrow> modes (wld e1) n = modes (wld e) n" "owners (wld e1) = owners (wld e)"
    using widen_plain [of ?s to ?e] by auto
  have t: "target (wld e1) to = ?m" using w(6,8) by (simp add: target_def split: option.split)
  have "names (wld e) to \<noteq> Some n" using assms(5) by (auto simp: target_def)
  then have n: "is_type S_IFREG (modes (wld e1) n)" "modes (wld e1) n = modes (wld e) n" using w(9) assms(2) by simp_all
  obtain s2 e2 s3 e3 where c: "copyfile_open plain_calls s1 e1 = Some (0, s2, e2)" "copyfile_internal plain_calls s2 COPYFILE_DATA e2 = Some (0, s3, e3)"
    "same_blocks s1 s3" "src_fd s3 = n" "dst_fd s3 = ?m" "live e3 = live e1" "names (wld e3) = (names (wld e1))(to \<mapsto> ?m)"
    "file_of (wld e3) = (file_of (wld e1))(?m := file_of (wld e1) n)" "opened (wld e3) = opened (wld e1) + 2"
    "modes (wld e3) = opened_modes (wld e1) to (modes (wld e1) n)" "owners (wld e3) = owners (wld e1)"
    using open_and_copy [of e1 "from" n "to" s1 empty_filesec] n w(3,5,6) t assms by (auto simp: widened_def)
  obtain e4 where r: "restore_dst plain_calls s3 COPYFILE_DATA (d, names (wld e) to = None) e3 = Some e4" "live e4 = live e3" "opened (wld e4) = opened (wld e3)"
    "file_of (wld e4) = file_of (wld e3)" "names (wld e4) = names (wld e3)" "owners (wld e4) = owners (wld e)"
    "modes (wld e4) = (if names (wld e) to = None then (modes (wld e))(nextfd (wld e) := modes (wld e) n OR S_IWUSR) else modes (wld e))"
  proof (cases "names (wld e) to")
    case None
    then have "modes (wld e1) = modes (wld e)" using w(9) by auto
    then show ?thesis using that [of e3] None restore_new [of s3 d e3] c(10,11) w(6,8,10) n(2) by (simp add: opened_modes_def)
  next
    case (Some m)
    then have m: "?m = m" "d = Some (fst (stat_file (wld e) m))" "modes (wld e3) = modes (wld e1)"
      using w(2,6) c(10) by (simp_all add: target_def opened_modes_def)
    have "modes (wld e3) (dst_fd s3) AND S_IFMT = st_mode (fst (stat_file (wld e) m)) AND S_IFMT"
      using w(2) Some m c(5) by (simp add: stat_file_def)
    from restore_old [OF this] obtain e4 where "restore_dst plain_calls s3 COPYFILE_DATA (d, False) e3 = Some e4" "live e4 = live e3" "opened (wld e4) = opened (wld e3)"
      "file_of (wld e4) = file_of (wld e3)" "names (wld e4) = names (wld e3)" "modes (wld e4) = (modes (wld e3))(m := modes (wld e) m)"
      "owners (wld e4) = (owners (wld e3))(m := owners (wld e) m)" using m c(5) by (auto simp: stat_file_def)
    moreover have "(modes (wld e3))(m := modes (wld e) m) = modes (wld e)" using w(9) m(3) Some by auto
    ultimately show ?thesis using that [of e4] Some c(11) w(10) by simp
  qed
  have i: "reset_security plain_sec s3 e4 = e4"
    by (rule reset_plain) (use w(3) c(3,5) assms(4) in \<open>simp_all add: widened_def same_blocks_def\<close>)
  obtain e5 where f: "release plain_calls True s3 e4 = (None, e5)" "live e5 = live e4 - 5 - of_bool (permissive_fsec s3 \<noteq> None)"
    "opened (wld e5) = opened (wld e4) - 2" "file_of (wld e5) = file_of (wld e4)" "names (wld e5) = names (wld e4)"
    "modes (wld e5) = modes (wld e4)" "owners (wld e5) = owners (wld e4)"
    using release_plain [of s3 e4] w(3) c(3,4,5) assms(3,4) by (auto simp: widened_def same_blocks_def)
  have "copyfile (plain_calls :: ('q, 'cb, 'x fsw_scheme) cf_calls) (Some from) (Some to) None COPYFILE_DATA e = Some (0, None, e5)"
    using w(1) c(1,2) r(1) i f(1)
    by (simp add: copyfile_def copyfile_preamble_def copyfile_state_alloc_def filesec_init_def new_block_def COPYFILE_SET_FNAME_def add.assoc)
  moreover have "permissive_fsec s3 = permissive_fsec s1" using c(3) by (simp add: same_blocks_def)
  ultimately show ?thesis using f r c w by auto
qed

definition two_files :: fsw where
  "two_files = \<lparr>file_of = (\<lambda>n. if n = 3 then [1, 2, 3] else [9]), pos = (\<lambda>_. 5), sizes = [0], names = [''a'' \<mapsto> 3, ''b'' \<mapsto> 4],
     modes = (\<lambda>n. if n = 3 then 0x81A4 else 0x8124), owners = (\<lambda>_. (5, 6)), nextfd = 5, opened = 0\<rparr>"

theorem copyfile_copies_file_witness:
  "\<exists>e'. copyfile plain_calls (Some ''a'') (Some ''b'') None COPYFILE_DATA \<lparr>e_errno = EINTR, live = 7, wld = two_files\<rparr> = Some (0, None, e')
     \<and> file_of (wld e') 4 = [1, 2, 3] \<and> modes (wld e') 4 = 0x8124 \<and> live e' = 7"
  using copyfile_copies_file [of "\<lparr>e_errno = EINTR, live = 7, wld = two_files\<rparr>" "''a''" 3 "''b''"]
  by (auto simp: two_files_def target_def is_type_def S_IFREG_def S_IFMT_def)

text \<open>Asking with \<open>COPYFILE_CHECK\<close> what would be copied changes an existing destination: its owner gets the right to read
  and write it, which is not taken back.\<close>

theorem check_widens_destination:
  assumes "names (wld e) to = Some m"
  shows "\<exists>e'. copyfile (plain_calls :: ('q, 'cb, 'x fsw_scheme) cf_calls) (Some from) (Some to) None COPYFILE_CHECK e = Some (0, None, e')
    \<and> modes (wld e') m = modes (wld e) m OR (S_IWUSR OR S_IRUSR)"
proof -
  let ?s = "fresh_state\<lparr>fsec := Some empty_filesec, cf_flags := COPYFILE_CHECK, src := Some from, src_fd := -2, dst := Some to, dst_fd := -2, original_fsec := Some empty_filesec\<rparr> :: ('q, 'cb) copyfile_state"
  obtain st f r e' where w: "widen_dst plain_calls ?s (e\<lparr>live := live e + 5\<rparr>) = ((Some st, False), ?s\<lparr>original_fsec := Some f, permissive_fsec := Some r\<rparr>, e')"
    "modes (wld e') m = modes (wld e) m OR (S_IWUSR OR S_IRUSR)"
    using widen_mode [of "e\<lparr>live := live e + 5\<rparr>" "to" m ?s] assms by auto
  show ?thesis using w
    by (simp add: copyfile_def copyfile_preamble_def copyfile_state_alloc_def filesec_init_def new_block_def COPYFILE_SET_FNAME_def add.assoc
        copyfile_check_def release_def copyfile_state_free_def copyfile_close_def Let_def)
qed

theorem check_widens_destination_witness:
  "\<exists>e'. copyfile plain_calls (Some ''a'') (Some ''b'') None COPYFILE_CHECK \<lparr>e_errno = EINTR, live = 0, wld = \<lparr>file_of = (\<lambda>n. []), pos = (\<lambda>_. 0), sizes = [],
      names = [''b'' \<mapsto> 4], modes = (\<lambda>_. 0x8124), owners = (\<lambda>_. (0, 0)), nextfd = 5, opened = 0\<rparr>\<rparr> = Some (0, None, e') \<and> modes (wld e') 4 = 0x81A4"
  using check_widens_destination [of "\<lparr>e_errno = EINTR, live = 0, wld = \<lparr>file_of = (\<lambda>n. []), pos = (\<lambda>_. 0), sizes = [],
      names = [''b'' \<mapsto> 4], modes = (\<lambda>_. 0x8124), owners = (\<lambda>_. (0, 0)), nextfd = 5, opened = 0\<rparr>\<rparr>" "''b''" 4 "''a''"]
  by (simp add: S_IWUSR_def S_IRUSR_def)

end
