(* ===== verification/Apple_Double.thy ===== *)
theory Apple_Double
  imports Packet Copy_State
begin

text \<open>
  The AppleDouble format of \<open>src/copyfile.c\<close>: the layout of its headers, the swapping of their fields between the byte order
  of the machine (\<open>le\<close> for little endian) and that of the file, and the images of headers and entries the proofs use.  A
  header in memory is the bytes of its buffer; a pointer into it is a position.
\<close>

section \<open>Layout\<close>

definition ADH_MAGIC :: nat where "ADH_MAGIC = 0x51607"
definition ADH_VERSION :: nat where "ADH_VERSION = 0x20000"
definition AD_RESOURCE :: nat where "AD_RESOURCE = 2"
definition AD_FINDERINFO :: nat where "AD_FINDERINFO = 9"
definition ATTR_HDR_MAGIC :: nat where "ATTR_HDR_MAGIC = 0x41545452"
definition ATTR_MAX_SIZE :: nat where "ATTR_MAX_SIZE = 128 * 1024"
definition ATTR_MAX_HDR_SIZE :: nat where "ATTR_MAX_HDR_SIZE = 65536 + 18"
definition XATTR_MAXNAMELEN :: nat where "XATTR_MAXNAMELEN = 127"
definition XATTR_MAXATTRLEN :: nat where "XATTR_MAXATTRLEN = 4 * 1024"
definition FINDERINFOSIZE :: nat where "FINDERINFOSIZE = 32"

text \<open>Offsets in \<open>apple_double_header_t\<close>, where \<open>pad\<close> is its last member, in \<open>attr_header_t\<close>, and in \<open>attr_entry_t\<close>.\<close>

definition AD_NUM :: nat where "AD_NUM = 24"
definition AD_ENTRY :: "nat \<Rightarrow> nat" where "AD_ENTRY i = 26 + 12 * i"
definition AD_FINFO :: nat where "AD_FINFO = 50"
definition AD_PAD :: nat where "AD_PAD = 82"
definition ATTR_HDR :: nat where "ATTR_HDR = 84"
definition ATTR_COUNT :: nat where "ATTR_COUNT = 118"
definition ATTR_HDR_SIZE :: nat where "ATTR_HDR_SIZE = 120"
definition ENTRY_NAMELEN :: nat where "ENTRY_NAMELEN = 10"
definition ENTRY_NAME :: nat where "ENTRY_NAME = 11"
definition ENTRY_SIZE :: nat where "ENTRY_SIZE = 12"

lemmas layout = AD_NUM_def AD_ENTRY_def AD_FINFO_def AD_PAD_def ATTR_HDR_def ATTR_COUNT_def ATTR_HDR_SIZE_def ENTRY_NAMELEN_def
  ENTRY_NAME_def ENTRY_SIZE_def

lemmas ad_limits = ATTR_MAX_SIZE_def ATTR_MAX_HDR_SIZE_def XATTR_MAXNAMELEN_def XATTR_MAXATTRLEN_def FINDERINFOSIZE_def

definition ATTR_ENTRY_LENGTH :: "nat \<Rightarrow> nat" where
  "ATTR_ENTRY_LENGTH namelen = (ENTRY_SIZE - 1 + namelen + 3) div 4 * 4"

definition XATTR_SECURITY_NAME :: string where "XATTR_SECURITY_NAME = ''com.apple.acl.text''"
definition XATTR_FINDERINFO_NAME :: string where "XATTR_FINDERINFO_NAME = ''com.apple.FinderInfo''"
definition XATTR_RESOURCEFORK_NAME :: string where "XATTR_RESOURCEFORK_NAME = ''com.apple.ResourceFork''"

lemmas xattr_names = XATTR_SECURITY_NAME_def XATTR_FINDERINFO_NAME_def XATTR_RESOURCEFORK_NAME_def

section \<open>Swapping\<close>

fun swap_fields :: "(nat \<times> nat) list \<Rightarrow> byte list \<Rightarrow> byte list option" where
  "swap_fields [] m = Some m"
| "swap_fields ((p, n) # fs) m = do { m \<leftarrow> byte_swap m p n; swap_fields fs m }"

text \<open>The entries \<open>i\<close> up to \<open>count\<close> of the AppleDouble header.\<close>

fun swap_ad_loop :: "nat \<Rightarrow> nat \<Rightarrow> byte list \<Rightarrow> byte list option" where
  "swap_ad_loop 0 i m = Some m"
| "swap_ad_loop (Suc n) i m =
     do { m \<leftarrow> swap_fields [(AD_ENTRY i, 4), (AD_ENTRY i + 4, 4), (AD_ENTRY i + 8, 4)] m; swap_ad_loop n (i + 1) m }"

definition swap_adhdr :: "bool \<Rightarrow> byte list \<Rightarrow> byte list option" where
  "swap_adhdr le m =
     (if le
      then do { magic \<leftarrow> ld le 4 m 0;
                count \<leftarrow> ld (if magic = ADH_MAGIC then le else \<not> le) 2 m AD_NUM;
                m \<leftarrow> swap_fields [(0, 4), (4, 4), (AD_NUM, 2)] m;
                swap_ad_loop count 0 m }
      else Some m)"

text \<open>The attribute entries from position \<open>ae\<close>; the next one is found before the fields are swapped.\<close>

fun swap_attr_loop :: "nat \<Rightarrow> nat \<Rightarrow> byte list \<Rightarrow> byte list option" where
  "swap_attr_loop 0 ae m = Some m"
| "swap_attr_loop (Suc n) ae m =
     do { namelen \<leftarrow> mread m (ae + ENTRY_NAMELEN);
          m \<leftarrow> swap_fields [(ae, 4), (ae + 4, 4), (ae + 8, 2)] m;
          swap_attr_loop n (ae + ATTR_ENTRY_LENGTH (unat namelen)) m }"

definition swap_attrhdr :: "bool \<Rightarrow> byte list \<Rightarrow> byte list option" where
  "swap_attrhdr le m =
     (if le
      then do { magic \<leftarrow> ld le 4 m ATTR_HDR;
                count \<leftarrow> ld (if magic = ATTR_HDR_MAGIC then le else \<not> le) 2 m ATTR_COUNT;
                m \<leftarrow> swap_fields [(ATTR_HDR, 4), (ATTR_HDR + 4, 4), (ATTR_HDR + 8, 4), (ATTR_HDR + 12, 4), (ATTR_HDR + 16, 4),
                                  (ATTR_HDR + 32, 2), (ATTR_COUNT, 2)] m;
                swap_attr_loop count ATTR_HDR_SIZE m }
      else Some m)"

section \<open>Headers as values\<close>

record ad_entry =
  ad_type :: u32
  ad_offset :: u32
  ad_length :: u32

record attr_header =
  adh_magic :: u32
  adh_version :: u32
  adh_filler :: "byte list"
  adh_num :: u16
  adh_entry0 :: ad_entry
  adh_entry1 :: ad_entry
  adh_finfo :: "byte list"
  adh_pad :: "byte list"
  ah_magic :: u32
  ah_debug :: u32
  ah_total :: u32
  ah_start :: u32
  ah_length :: u32
  ah_reserved :: "byte list"
  ah_flags :: u16
  ah_count :: u16

definition zero_entry :: ad_entry where
  "zero_entry = \<lparr>ad_type = 0, ad_offset = 0, ad_length = 0\<rparr>"

definition zero_header :: attr_header where
  "zero_header = \<lparr>adh_magic = 0, adh_version = 0, adh_filler = replicate 16 0, adh_num = 0, adh_entry0 = zero_entry, adh_entry1 = zero_entry,
     adh_finfo = replicate 32 0, adh_pad = replicate 2 0, ah_magic = 0, ah_debug = 0, ah_total = 0, ah_start = 0, ah_length = 0,
     ah_reserved = replicate 12 0, ah_flags = 0, ah_count = 0\<rparr>"

definition sized_header :: "attr_header \<Rightarrow> bool" where
  "sized_header h \<longleftrightarrow> length (adh_filler h) = 16 \<and> length (adh_finfo h) = 32 \<and> length (adh_pad h) = 2 \<and> length (ah_reserved h) = 12"

text \<open>The members of the two structures as they lie in memory.\<close>

definition ad_fields :: "bool \<Rightarrow> attr_header \<Rightarrow> byte list list" where
  "ad_fields le h =
     [store le 4 (unat (adh_magic h)), store le 4 (unat (adh_version h)), adh_filler h, store le 2 (unat (adh_num h)),
      store le 4 (unat (ad_type (adh_entry0 h))), store le 4 (unat (ad_offset (adh_entry0 h))), store le 4 (unat (ad_length (adh_entry0 h))),
      store le 4 (unat (ad_type (adh_entry1 h))), store le 4 (unat (ad_offset (adh_entry1 h))), store le 4 (unat (ad_length (adh_entry1 h))),
      adh_finfo h]"

definition attr_fields :: "bool \<Rightarrow> attr_header \<Rightarrow> byte list list" where
  "attr_fields le h =
     [adh_pad h, store le 4 (unat (ah_magic h)), store le 4 (unat (ah_debug h)), store le 4 (unat (ah_total h)), store le 4 (unat (ah_start h)),
      store le 4 (unat (ah_length h)), ah_reserved h, store le 2 (unat (ah_flags h)), store le 2 (unat (ah_count h))]"

definition header_image :: "bool \<Rightarrow> attr_header \<Rightarrow> byte list" where
  "header_image le h = concat (ad_fields le h @ attr_fields le h)"

text \<open>An entry: its offset, the length of its data and its name without the terminator.\<close>

type_synonym attr_item = "u32 \<times> u32 \<times> byte list"

definition entry_image :: "bool \<Rightarrow> attr_item \<Rightarrow> byte list" where
  "entry_image le x =
     (case x of (off, len, name) \<Rightarrow>
        store le 4 (unat off) @ store le 4 (unat len) @ store le 2 0 @ of_nat (length name + 1) # name
        @ replicate (ATTR_ENTRY_LENGTH (length name + 1) - ENTRY_NAME - length name) 0)"

definition entries_image :: "bool \<Rightarrow> attr_item list \<Rightarrow> byte list" where
  "entries_image le xs = concat (map (entry_image le) xs)"

section \<open>Accesses to a sequence of fields\<close>

lemma rev_store [simp]: "rev (store le n v) = store (\<not> le) n v"
  by (simp add: store_def)

lemma byte_swap_field:
  assumes "i < length fs" and "p = length (concat (take i fs))" and "n = length (fs ! i)"
  shows "byte_swap (concat fs @ r) p n = Some (concat (fs[i := rev (fs ! i)]) @ r)"
proof -
  have c: "concat fs @ r = concat (take i fs) @ (fs ! i) @ (concat (drop (Suc i) fs) @ r)"
    using assms(1) id_take_nth_drop [of i fs] by (metis append.assoc concat.simps(2) concat_append)
  have d: "concat (fs[i := rev (fs ! i)]) @ r = concat (take i fs) @ rev (fs ! i) @ (concat (drop (Suc i) fs) @ r)"
    using assms(1) by (simp add: upd_conv_take_nth_drop)
  show ?thesis unfolding c d using byte_swap_mid [of 0 n "fs ! i" "concat (take i fs)" "concat (drop (Suc i) fs) @ r"] assms(2,3) by simp
qed

lemma ld_field:
  assumes "i < length fs" and "p = length (concat (take i fs))" and "n = length (fs ! i)"
  shows "ld le n (concat fs @ r) p = Some (load le (fs ! i))"
proof -
  have c: "concat fs @ r = concat (take i fs) @ (fs ! i) @ (concat (drop (Suc i) fs) @ r)"
    using assms(1) id_take_nth_drop [of i fs] by (metis append.assoc concat.simps(2) concat_append)
  show ?thesis unfolding c by (simp add: ld_def mslice_def assms(2,3))
qed

lemma load_store32 [simp]: "load le (store le 4 (unat (v :: u32))) = unat v"
proof -
  have "unat v < 2 ^ LENGTH(32)" by (rule unsigned_less)
  then show ?thesis by (intro load_store) simp
qed

lemma load_store16 [simp]: "load le (store le 2 (unat (v :: u16))) = unat v"
proof -
  have "unat v < 2 ^ LENGTH(16)" by (rule unsigned_less)
  then show ?thesis by (intro load_store) simp
qed

text \<open>Fields seen from a machine of the other order.\<close>

lemma load_other: "load True (store False n v) = load False (store True n v)"
  by (metis load_rev rev_store)

lemma length_upd_rev: "length (concat (take j (fs[i := rev (fs ! i)]))) = length (concat (take j fs))"
proof (cases "i < length fs")
  case True
  have "map length (fs[i := rev (fs ! i)]) = map length fs" using True by (simp add: map_update list_update_same_conv)
  then have "map length (take j (fs[i := rev (fs ! i)])) = map length (take j fs)" by (metis take_map)
  then show ?thesis by (simp only: length_concat)
qed (simp add: list_update_beyond)

definition swap_at :: "nat list \<Rightarrow> byte list list \<Rightarrow> byte list list" where
  "swap_at js fs = foldl (\<lambda>fs j. fs[j := rev (fs ! j)]) fs js"

lemma swap_at_simps [simp]: "swap_at [] fs = fs" "swap_at (j # js) fs = swap_at js (fs[j := rev (fs ! j)])"
  by (simp_all add: swap_at_def)

definition field_at :: "byte list list \<Rightarrow> nat \<Rightarrow> nat \<times> nat" where
  "field_at fs j = (length (concat (take j fs)), length (fs ! j))"

lemma field_at_upd: "field_at (fs[i := rev (fs ! i)]) j = field_at fs j"
proof -
  have "length (fs[i := rev (fs ! i)] ! j) = length (fs ! j)"
    by (cases "i < length fs"; cases "i = j") (auto simp: list_update_beyond)
  then show ?thesis by (simp add: field_at_def length_upd_rev)
qed

lemma swap_fields_at:
  "\<forall>j \<in> set js. j < length fs \<Longrightarrow> swap_fields (map (field_at fs) js) (concat fs @ r) = Some (concat (swap_at js fs) @ r)"
proof (induction js arbitrary: fs)
  case (Cons j js)
  let ?fs = "fs[j := rev (fs ! j)]"
  have "byte_swap (concat fs @ r) (fst (field_at fs j)) (snd (field_at fs j)) = Some (concat ?fs @ r)"
    by (rule byte_swap_field) (use Cons.prems in \<open>simp_all add: field_at_def\<close>)
  moreover have "map (field_at fs) js = map (field_at ?fs) js" by (simp add: field_at_upd)
  moreover have "swap_fields (map (field_at ?fs) js) (concat ?fs @ r) = Some (concat (swap_at js ?fs) @ r)"
    by (rule Cons.IH) (use Cons.prems in simp)
  ultimately show ?case by (cases "field_at fs j") (simp del: map_eq_conv)
qed simp

section \<open>Swapping an image\<close>

text \<open>On a little-endian machine an image in one order becomes the image in the other.\<close>

lemma length_ad_fields: "sized_header h \<Longrightarrow> length (concat (ad_fields le h)) = 82"
  by (simp add: ad_fields_def sized_header_def)

lemma length_header_image: "sized_header h \<Longrightarrow> length (header_image le h) = 120"
  by (simp add: header_image_def ad_fields_def attr_fields_def sized_header_def)

lemma swapped_magic:
  "load True (store b 4 ADH_MAGIC) = ADH_MAGIC \<longleftrightarrow> b" "load True (store b 4 ATTR_HDR_MAGIC) = ATTR_HDR_MAGIC \<longleftrightarrow> b"
proof -
  have four: "(4 :: nat) = Suc (Suc (Suc (Suc 0)))" by simp
  show "load True (store b 4 ADH_MAGIC) = ADH_MAGIC \<longleftrightarrow> b"
    by (cases b; simp only: four; simp add: load_def store_def ADH_MAGIC_def)
  show "load True (store b 4 ATTR_HDR_MAGIC) = ATTR_HDR_MAGIC \<longleftrightarrow> b"
    by (cases b; simp only: four; simp add: load_def store_def ATTR_HDR_MAGIC_def)
qed

text \<open>What a swap does: the magic number tells the order the header is in, and in that order the count of its entries is read.\<close>

lemma swap_adhdr_image:
  assumes "adh_magic h = of_nat ADH_MAGIC" and "adh_num h = 2" and "sized_header h"
  shows "swap_adhdr True (concat (ad_fields b h) @ r) = Some (concat (ad_fields (\<not> b) h) @ r)"
proof -
  let ?f = "ad_fields b h"
  let ?g = "swap_at [0, 1, 3] ?f"
  note l = assms(3) [unfolded sized_header_def]
  have m: "unat (adh_magic h) = ADH_MAGIC" by (simp add: assms(1) ADH_MAGIC_def)
  have g: "ld True 4 (concat ?f @ r) 0 = Some (load True (?f ! 0))" "ld b 2 (concat ?f @ r) AD_NUM = Some (load b (?f ! 3))"
    by (rule ld_field; use l in \<open>simp add: ad_fields_def layout\<close>)+
  have c: "load True (?f ! 0) = load True (store b 4 ADH_MAGIC)" "load b (?f ! 3) = 2"
    using assms(2) m load_store16 [of b 2] by (simp_all add: ad_fields_def)
  have "map (field_at ?f) [0, 1, 3] = [(0, 4), (4, 4), (AD_NUM, 2)]" using l by (simp add: field_at_def ad_fields_def layout)
  then have s: "swap_fields [(0, 4), (4, 4), (AD_NUM, 2)] (concat ?f @ r) = Some (concat ?g @ r)"
    using swap_fields_at [of "[0, 1, 3]" ?f r] by (simp add: ad_fields_def)
  have e: "map (field_at ?g) [4, 5, 6] = [(AD_ENTRY 0, 4), (AD_ENTRY 0 + 4, 4), (AD_ENTRY 0 + 8, 4)]"
    "map (field_at (swap_at [4, 5, 6] ?g)) [7, 8, 9] = [(AD_ENTRY 1, 4), (AD_ENTRY 1 + 4, 4), (AD_ENTRY 1 + 8, 4)]"
    using l by (simp_all add: field_at_upd, simp_all add: field_at_def ad_fields_def layout)
  have n: "length (swap_at js fs) = length fs" for js fs by (induction js arbitrary: fs) simp_all
  have "swap_ad_loop 2 0 (concat ?g @ r) = Some (concat (swap_at [7, 8, 9] (swap_at [4, 5, 6] ?g)) @ r)"
    using swap_fields_at [of "[4, 5, 6]" ?g r] swap_fields_at [of "[7, 8, 9]" "swap_at [4, 5, 6] ?g" r] e
    by (simp add: numeral_2_eq_2 n del: swap_at_simps swap_fields.simps, simp add: ad_fields_def)
  moreover have "swap_at [7, 8, 9] (swap_at [4, 5, 6] ?g) = ad_fields (\<not> b) h" by (simp add: ad_fields_def)
  ultimately show ?thesis
    using g c s swapped_magic(1) [of b] by (cases b) (simp_all add: swap_adhdr_def del: swap_fields.simps)
qed

lemma length_swap_at: "length (swap_at js fs) = length fs"
  by (induction js arbitrary: fs) simp_all

lemma ATTR_ENTRY_LENGTH_bounds: "ENTRY_NAME + n \<le> ATTR_ENTRY_LENGTH n" "ATTR_ENTRY_LENGTH n \<le> ENTRY_NAME + n + 3"
  unfolding ATTR_ENTRY_LENGTH_def layout by presburger+

lemma length_entry_image: "length (entry_image le (off, len, name)) = ATTR_ENTRY_LENGTH (length name + 1)"
  using ATTR_ENTRY_LENGTH_bounds(1) [of "length name + 1"] by (simp add: entry_image_def layout)

lemma entries_image_simps [simp]: "entries_image le [] = []" "entries_image le (x # xs) = entry_image le x @ entries_image le xs"
  by (simp_all add: entries_image_def)

text \<open>A name of an entry: its length with the terminator fits into the byte for it.\<close>

definition fits :: "attr_item \<Rightarrow> bool" where
  "fits x \<longleftrightarrow> length (snd (snd x)) < 255"

lemma swap_entry_image:
  "swap_fields [(length pre, 4), (length pre + 4, 4), (length pre + 8, 2)] (pre @ entry_image b x @ r) = Some (pre @ entry_image (\<not> b) x @ r)"
proof -
  obtain off len name where x: "x = (off, len, name)" by (cases x)
  let ?t = "of_nat (length name + 1) # name @ replicate (ATTR_ENTRY_LENGTH (length name + 1) - ENTRY_NAME - length name) 0"
  let ?f = "[pre, store b 4 (unat off), store b 4 (unat len), store b 2 0, ?t]"
  have "map (field_at ?f) [1, 2, 3] = [(length pre, 4), (length pre + 4, 4), (length pre + 8, 2)]" by (simp add: field_at_def)
  then show ?thesis using swap_fields_at [of "[1, 2, 3]" ?f r] by (simp add: x entry_image_def del: swap_fields.simps)
qed

lemma unat_of_nat_byte: "k < 256 \<Longrightarrow> unat (of_nat k :: byte) = k"
  by (simp add: unat_of_nat take_bit_nat_eq_self)

lemma entry_namelen: "mread (pre @ entry_image b (off, len, name) @ r) (length pre + ENTRY_NAMELEN) = Some (of_nat (length name + 1))"
  by (simp add: mread_def entry_image_def layout nth_append)

lemma swap_attr_loop_image:
  "\<forall>x \<in> set xs. fits x \<Longrightarrow>
     swap_attr_loop (length xs) (length pre) (pre @ entries_image b xs @ r) = Some (pre @ entries_image (\<not> b) xs @ r)"
proof (induction xs arbitrary: pre)
  case (Cons x xs)
  obtain off len name where x: "x = (off, len, name)" by (cases x)
  have f: "unat (of_nat (length name + 1) :: byte) = length name + 1" using Cons.prems x by (intro unat_of_nat_byte) (simp add: fits_def)
  have "swap_attr_loop (length xs) (length (pre @ entry_image (\<not> b) x)) ((pre @ entry_image (\<not> b) x) @ entries_image b xs @ r)
      = Some ((pre @ entry_image (\<not> b) x) @ entries_image (\<not> b) xs @ r)"
    by (rule Cons.IH) (use Cons.prems in simp)
  then show ?case
    using f entry_namelen [of pre b off len name "entries_image b xs @ r"] swap_entry_image [of pre b x "entries_image b xs @ r"]
    by (simp add: x length_entry_image del: swap_fields.simps of_nat_add)
qed simp

lemma swap_attrhdr_fields:
  assumes "ah_magic h = of_nat ATTR_HDR_MAGIC" and "sized_header h"
  shows "swap_attrhdr True (concat (ad_fields c h @ attr_fields b h) @ r)
    = swap_attr_loop (unat (ah_count h)) ATTR_HDR_SIZE (concat (ad_fields c h @ attr_fields (\<not> b) h) @ r)"
proof -
  let ?f = "concat (ad_fields c h) # attr_fields b h"
  let ?g = "swap_at [2, 3, 4, 5, 6, 8, 9] ?f"
  note l = assms(2) [unfolded sized_header_def] length_ad_fields [OF assms(2), of c]
  have m: "unat (ah_magic h) = ATTR_HDR_MAGIC" by (simp add: assms(1) ATTR_HDR_MAGIC_def)
  have a: "concat (ad_fields c h @ attr_fields b' h) = concat (concat (ad_fields c h) # attr_fields b' h)" for b' by simp
  have g: "ld True 4 (concat ?f @ r) ATTR_HDR = Some (load True (?f ! 2))" "ld b 2 (concat ?f @ r) ATTR_COUNT = Some (load b (?f ! 9))"
    by (rule ld_field; use l in \<open>simp add: attr_fields_def layout\<close>)+
  have n: "load True (?f ! 2) = load True (store b 4 ATTR_HDR_MAGIC)" "load b (?f ! 9) = unat (ah_count h)"
    using m by (simp_all add: attr_fields_def)
  have "map (field_at ?f) [2, 3, 4, 5, 6, 8, 9] = [(ATTR_HDR, 4), (ATTR_HDR + 4, 4), (ATTR_HDR + 8, 4), (ATTR_HDR + 12, 4), (ATTR_HDR + 16, 4),
      (ATTR_HDR + 32, 2), (ATTR_COUNT, 2)]"
    using l by (simp add: field_at_def attr_fields_def layout)
  then have s: "swap_fields [(ATTR_HDR, 4), (ATTR_HDR + 4, 4), (ATTR_HDR + 8, 4), (ATTR_HDR + 12, 4), (ATTR_HDR + 16, 4), (ATTR_HDR + 32, 2),
      (ATTR_COUNT, 2)] (concat ?f @ r) = Some (concat ?g @ r)"
    using swap_fields_at [of "[2, 3, 4, 5, 6, 8, 9]" ?f r] by (simp add: attr_fields_def del: swap_fields.simps swap_at_simps)
  have e: "?g = concat (ad_fields c h) # attr_fields (\<not> b) h" by (simp add: attr_fields_def)
  show ?thesis
    using g n s e swapped_magic(2) [of b] unfolding a by (cases b) (simp_all add: swap_attrhdr_def del: swap_fields.simps)
qed

lemma length_fields:
  assumes "sized_header h"
  shows "length (concat (ad_fields c h @ attr_fields b h)) = ATTR_HDR_SIZE"
  using assms length_ad_fields [OF assms, of c] by (simp add: attr_fields_def layout sized_header_def)

lemma swap_attrhdr_image:
  assumes "ah_magic h = of_nat ATTR_HDR_MAGIC" and "unat (ah_count h) = length xs" and "sized_header h" and "\<forall>x \<in> set xs. fits x"
  shows "swap_attrhdr True (concat (ad_fields c h @ attr_fields b h) @ entries_image b xs @ r)
    = Some (concat (ad_fields c h @ attr_fields (\<not> b) h) @ entries_image (\<not> b) xs @ r)"
  using swap_attrhdr_fields [OF assms(1,3)] assms(2) length_fields [OF assms(3), of c "\<not> b"]
    swap_attr_loop_image [OF assms(4), of "concat (ad_fields c h @ attr_fields (\<not> b) h)" b r]
  by (simp del: concat_append)

text \<open>What a member of the header is read as.\<close>

lemma ld_ad_field:
  assumes "sized_header h"
  shows "ld le 4 (concat (ad_fields le h) @ r) (AD_ENTRY 0) = Some (unat (ad_type (adh_entry0 h)))"
    and "ld le 4 (concat (ad_fields le h) @ r) (AD_ENTRY 0 + 4) = Some (unat (ad_offset (adh_entry0 h)))"
    and "ld le 4 (concat (ad_fields le h) @ r) (AD_ENTRY 0 + 8) = Some (unat (ad_length (adh_entry0 h)))"
    and "ld le 4 (concat (ad_fields le h) @ r) (AD_ENTRY 1) = Some (unat (ad_type (adh_entry1 h)))"
    and "ld le 4 (concat (ad_fields le h) @ r) (AD_ENTRY 1 + 4) = Some (unat (ad_offset (adh_entry1 h)))"
    and "ld le 4 (concat (ad_fields le h) @ r) (AD_ENTRY 1 + 8) = Some (unat (ad_length (adh_entry1 h)))"
    and "ld le 4 (concat (ad_fields le h) @ r) 0 = Some (unat (adh_magic h))"
    and "ld le 4 (concat (ad_fields le h) @ r) 4 = Some (unat (adh_version h))"
    and "ld le 2 (concat (ad_fields le h) @ r) AD_NUM = Some (unat (adh_num h))"
proof -
  note l = assms [unfolded sized_header_def]
  show "ld le 4 (concat (ad_fields le h) @ r) (AD_ENTRY 0) = Some (unat (ad_type (adh_entry0 h)))"
    by (subst ld_field [where i = 4]) (use l in \<open>simp_all add: ad_fields_def layout\<close>)
  show "ld le 4 (concat (ad_fields le h) @ r) (AD_ENTRY 0 + 4) = Some (unat (ad_offset (adh_entry0 h)))"
    by (subst ld_field [where i = 5]) (use l in \<open>simp_all add: ad_fields_def layout\<close>)
  show "ld le 4 (concat (ad_fields le h) @ r) (AD_ENTRY 0 + 8) = Some (unat (ad_length (adh_entry0 h)))"
    by (subst ld_field [where i = 6]) (use l in \<open>simp_all add: ad_fields_def layout\<close>)
  show "ld le 4 (concat (ad_fields le h) @ r) (AD_ENTRY 1) = Some (unat (ad_type (adh_entry1 h)))"
    by (subst ld_field [where i = 7]) (use l in \<open>simp_all add: ad_fields_def layout\<close>)
  show "ld le 4 (concat (ad_fields le h) @ r) (AD_ENTRY 1 + 4) = Some (unat (ad_offset (adh_entry1 h)))"
    by (subst ld_field [where i = 8]) (use l in \<open>simp_all add: ad_fields_def layout\<close>)
  show "ld le 4 (concat (ad_fields le h) @ r) (AD_ENTRY 1 + 8) = Some (unat (ad_length (adh_entry1 h)))"
    by (subst ld_field [where i = 9]) (use l in \<open>simp_all add: ad_fields_def layout\<close>)
  show "ld le 4 (concat (ad_fields le h) @ r) 0 = Some (unat (adh_magic h))"
    by (subst ld_field [where i = 0]) (use l in \<open>simp_all add: ad_fields_def layout\<close>)
  show "ld le 4 (concat (ad_fields le h) @ r) 4 = Some (unat (adh_version h))"
    by (subst ld_field [where i = 1]) (use l in \<open>simp_all add: ad_fields_def layout\<close>)
  show "ld le 2 (concat (ad_fields le h) @ r) AD_NUM = Some (unat (adh_num h))"
    by (subst ld_field [where i = 3]) (use l in \<open>simp_all add: ad_fields_def layout\<close>)
qed

lemma ld_attr_field:
  assumes "sized_header h"
  shows "ld le 4 (concat (ad_fields c h @ attr_fields le h) @ r) ATTR_HDR = Some (unat (ah_magic h))"
    and "ld le 2 (concat (ad_fields c h @ attr_fields le h) @ r) ATTR_COUNT = Some (unat (ah_count h))"
proof -
  note l = assms [unfolded sized_header_def]
  show "ld le 4 (concat (ad_fields c h @ attr_fields le h) @ r) ATTR_HDR = Some (unat (ah_magic h))"
    by (subst ld_field [where i = 12]) (use l in \<open>simp_all add: ad_fields_def attr_fields_def layout\<close>)
  show "ld le 2 (concat (ad_fields c h @ attr_fields le h) @ r) ATTR_COUNT = Some (unat (ah_count h))"
    by (subst ld_field [where i = 19]) (use l in \<open>simp_all add: ad_fields_def attr_fields_def layout\<close>)
qed

text \<open>The swap between the order of the machine and that of the file, on any machine.\<close>

lemma swap_adhdr_both:
  assumes "adh_magic h = of_nat ADH_MAGIC" and "adh_num h = 2" and "sized_header h"
  shows "swap_adhdr le (concat (ad_fields False h) @ r) = Some (concat (ad_fields le h) @ r)"
    and "swap_adhdr le (concat (ad_fields le h) @ r) = Some (concat (ad_fields False h) @ r)"
  using swap_adhdr_image [OF assms] by (cases le; simp add: swap_adhdr_def)+

lemma swap_attrhdr_both:
  assumes "ah_magic h = of_nat ATTR_HDR_MAGIC" and "unat (ah_count h) = length xs" and "sized_header h" and "\<forall>x \<in> set xs. fits x"
  shows "swap_attrhdr le (concat (ad_fields c h @ attr_fields False h) @ entries_image False xs @ r)
      = Some (concat (ad_fields c h @ attr_fields le h) @ entries_image le xs @ r)"
    and "swap_attrhdr le (concat (ad_fields c h @ attr_fields le h) @ entries_image le xs @ r)
      = Some (concat (ad_fields c h @ attr_fields False h) @ entries_image False xs @ r)"
  using swap_attrhdr_image [OF assms] by (cases le; simp add: swap_attrhdr_def)+

end
