(* ===== verification/Copy_Unpack.thy ===== *)
theory Copy_Unpack
  imports Apple_Double Copy_Security Copy_Xattr
begin

text \<open>
  \<open>copyfile_unpack\<close> of \<open>src/copyfile.c\<close>: the attributes, the access control list, the Finder information and the resource
  fork of an AppleDouble file are set on the destination.  The buffer is the bytes read from the file, at the address \<open>base\<close> of
  a machine whose addresses are \<open>'a word\<close>; a pointer that may be anything is such a word, the others are positions.  \<open>None\<close> is
  an access outside the buffer.  A jump to the exit of the function with a value \<open>r\<close> is \<open>Inl r\<close>.
\<close>

text \<open>
  The calls: \<open>ac_qdata\<close> is \<open>qtn_file_init_with_data\<close>, \<open>ac_qbytes\<close> \<open>qtn_file_to_data\<close>, \<open>ac_from_text\<close> and \<open>ac_to_text\<close> are the
  conversions of access control lists from and to the text without its terminator.
\<close>

record ('q, 'w) ad_calls =
  ac_mem :: "int \<Rightarrow> bool"
  ac_xa :: "'w xattr_calls"
  ac_sec :: "'w sec_calls"
  ac_qname :: string
  ac_qalloc :: "'w env \<Rightarrow> 'q option \<times> 'w env"
  ac_qdata :: "'q \<Rightarrow> byte list \<Rightarrow> 'w env \<Rightarrow> (int \<times> 'q) \<times> 'w env"
  ac_qbytes :: "'q \<Rightarrow> 'w env \<Rightarrow> byte list option \<times> 'w env"
  ac_qapply :: "'q \<Rightarrow> int \<Rightarrow> 'w env \<Rightarrow> int \<times> 'w env"
  ac_from_text :: "byte list \<Rightarrow> acl option"
  ac_to_text :: "acl \<Rightarrow> byte list option"
  ac_pread :: "int \<Rightarrow> nat \<Rightarrow> nat \<Rightarrow> 'w env \<Rightarrow> byte list option \<times> 'w env"
  ac_pwrite :: "int \<Rightarrow> byte list \<Rightarrow> nat \<Rightarrow> 'w env \<Rightarrow> int \<times> 'w env"
  ac_fstat :: "int \<Rightarrow> 'w env \<Rightarrow> stat_t option \<times> 'w env"

text \<open>Names are characters for the calls and bytes in the buffer.\<close>

definition to_bytes :: "string \<Rightarrow> byte list" where
  "to_bytes k = map of_char k"

definition to_name :: "byte list \<Rightarrow> string" where
  "to_name bs = map (\<lambda>b. char_of (unat b)) bs"

definition c_string :: "byte list \<Rightarrow> byte list" where
  "c_string bs = takeWhile (\<lambda>b. b \<noteq> 0) bs"

section \<open>The header\<close>

text \<open>\<open>SWAP32\<close> and \<open>SWAP16\<close> of a member that is not swapped yet read it in the order of the file.\<close>

definition apple_double_ok :: "byte list \<Rightarrow> bool option" where
  "apple_double_ok m =
     (if length m < AD_PAD then Some False
      else do { magic \<leftarrow> ld False 4 m 0;
                if magic \<noteq> ADH_MAGIC then Some False
                else do { version \<leftarrow> ld False 4 m 4;
                          if version \<noteq> ADH_VERSION then Some False
                          else do { num \<leftarrow> ld False 2 m AD_NUM;
                                    if num \<noteq> 2 then Some False
                                    else do { ty \<leftarrow> ld False 4 m (AD_ENTRY 0);
                                              Some (ty = AD_FINDERINFO) } } } })"

text \<open>The attributes of the destination are removed.\<close>

function clear_loop :: "'w xattr_calls \<Rightarrow> int \<Rightarrow> string \<Rightarrow> 'w env \<Rightarrow> 'w env option" where
  "clear_loop xa fd rest e =
     (if rest = [] then Some e
      else if NUL \<notin> set rest then None
      else clear_loop xa fd (after_name rest) (snd (xc_remove xa fd (name_at rest) e)))"
  by pat_completeness auto
termination
  by (relation "measure (\<lambda>(_, _, rest, _). length rest)") (auto simp: after_name_shorter)

declare clear_loop.simps [simp del]

definition unpack_clear :: "('q, 'w) ad_calls \<Rightarrow> ('q, 'cb) copyfile_state \<Rightarrow> 'w env \<Rightarrow> ((int + unit) \<times> ('q, 'cb) copyfile_state \<times> 'w env) option" where
  "unpack_clear c s e =
     (if \<not> flagged COPYFILE_XATTR (cf_flags s) then Some (Inr (), s, e)
      else (let ((n, _), e) = xc_list (ac_xa c) (dst_fd s) None e
            in if n > 0
               then (case new_block (ac_mem c) () e of
                       (None, e) \<Rightarrow> Some (Inl 0, s\<lparr>cf_err := ENOMEM\<rparr>, e)
                     | (bp, e) \<Rightarrow>
                         (let ((n, names), e) = xc_list (ac_xa c) (dst_fd s) (Some (nat n)) e
                          in do { e \<leftarrow> (if n > 0 then clear_loop (ac_xa c) (dst_fd s) names e else Some e);
                                  Some (Inr (), s, free_block bp e) }))
               else if n < 0 \<and> e_errno e \<noteq> ENOTSUP \<and> e_errno e \<noteq> EPERM then Some (Inl 0, s, e)
               else Some (Inr (), s, e)))"

section \<open>The attributes\<close>

text \<open>The test of the data of an entry, in the arithmetic of addresses.\<close>

definition data_overflows :: "'a::len word \<Rightarrow> nat \<Rightarrow> nat \<Rightarrow> nat \<Rightarrow> bool" where
  "data_overflows base hdrsize off len =
     (let endptr = base + of_nat hdrsize; dataptr = base + of_nat off
      in dataptr > endptr \<or> dataptr < base \<or> dataptr + of_nat len > endptr \<or> dataptr + of_nat len < base \<or> len > hdrsize)"

text \<open>The checks of the entry at \<open>p\<close>: \<open>Some None\<close> is a corrupt entry, otherwise the length of its name, the name, and where its data is.\<close>

definition check_entry :: "bool \<Rightarrow> 'a::len word \<Rightarrow> byte list \<Rightarrow> nat \<Rightarrow> (nat \<times> string \<times> nat \<times> nat) option option" where
  "check_entry le base m p =
     (if length m \<le> p then Some None
      else if p + ENTRY_SIZE > length m then Some None
      else do { b \<leftarrow> mread m (p + ENTRY_NAMELEN);
                let namelen = unat b;
                if namelen < 2 then Some None
                else if namelen > XATTR_MAXNAMELEN + 1 then Some None
                else if p + ENTRY_NAME + namelen > length m then Some None
                else do { last \<leftarrow> mread m (p + ENTRY_NAME + namelen - 1);
                          if last \<noteq> 0 then Some None
                          else do { off \<leftarrow> ld le 4 m p;
                                    len \<leftarrow> ld le 4 m (p + 4);
                                    if data_overflows base (length m) off len then Some None
                                    else Some (Some (namelen, to_name (c_string (drop (p + ENTRY_NAME) m)), off, len)) } } })"

text \<open>The data of an entry is read where it is used: \<open>mslice\<close> of the buffer, \<open>None\<close> where it is not inside.\<close>

definition unpack_quarantine :: "('q, 'w) ad_calls \<Rightarrow> byte list \<Rightarrow> nat \<Rightarrow> nat \<Rightarrow> ('q, 'cb) copyfile_state \<Rightarrow> 'w env \<Rightarrow> 'w env option" where
  "unpack_quarantine c m off len s e =
     do { (tq, e) \<leftarrow>
            (case qinfo s of
               Some q \<Rightarrow> Some (Some q, e)
             | None \<Rightarrow>
                 (case ac_qalloc c e of
                    (None, e) \<Rightarrow> Some (None, e)
                  | (Some q, e) \<Rightarrow>
                      do { data \<leftarrow> mslice m off len;
                           let ((x, q), e) = ac_qdata c q data e;
                           Some (if x \<noteq> 0 then (None, free_block (Some q) e) else (Some q, e)) }));
          let e = (case tq of None \<Rightarrow> e | Some q \<Rightarrow> snd (ac_qapply c q (dst_fd s) e));
          Some (if qinfo s = None then free_block tq e else e) }"

text \<open>
  The text of a list: \<open>tcp[entry->length - 1]\<close>, with the length a 32-bit number, tells whether the data is terminated; where it is
  not, \<open>strlcpy\<close> copies it, which reads its source up to a terminator.  \<open>Some None\<close> is a failure to allocate.
\<close>

definition acl_text_at :: "('q, 'w) ad_calls \<Rightarrow> 'a::len word \<Rightarrow> byte list \<Rightarrow> nat \<Rightarrow> nat \<Rightarrow> 'w env \<Rightarrow> byte list option option" where
  "acl_text_at c base m off len e =
     (let at = unat (base + of_nat off + of_nat (unat (of_nat len - 1 :: u32)))
      in if at < unat base then None
         else do { last \<leftarrow> mread m (at - unat base);
                   if last \<noteq> 0 \<and> \<not> ac_mem c (live e) then Some None
                   else if 0 \<notin> set (drop off m) then None
                   else if last = 0 then Some (Some (c_string (drop off m)))
                   else Some (Some (take len (c_string (drop off m)))) })"

text \<open>
  Setting the list, with one more attempt after \<open>ENOTSUP\<close>.  \<open>copyfile_unset_acl\<close> changes \<open>fsec\<close> of the state; the second attempt is
  made with the same argument as the first.
\<close>

definition set_acl :: "('q, 'w) ad_calls \<Rightarrow> acl \<Rightarrow> ('q, 'cb) copyfile_state \<Rightarrow> 'w env \<Rightarrow> (int + unit) \<times> ('q, 'cb) copyfile_state \<times> 'w env" where
  "set_acl c a s e =
     (if \<not> ac_mem c (live e) then (Inl (-1), s, e)
      else (case sc_fstatx (ac_sec c) (dst_fd s) e of
              (None, e) \<Rightarrow> (Inl (-1), s, e)
            | (Some (_, f), e) \<Rightarrow>
                (case filesec_set_acl (ac_sec c) (Some f) (Some a) e of
                   (Some f, True) \<Rightarrow>
                     (let (r, e) = sc_fchmodx (ac_sec c) (dst_fd s) f e
                      in if 0 \<le> r then (Inr (), s, e)
                         else if e_errno e = ENOTSUP
                         then (let (u, s) = copyfile_unset_acl s
                               in if u \<noteq> 0 then (Inl (-1), s, e)
                                  else (let (r, e) = sc_fchmodx (ac_sec c) (dst_fd s) f e in (if 0 \<le> r then Inr () else Inl (-1), s, e)))
                         else (Inl (-1), s, e))
                 | _ \<Rightarrow> (Inl (-1), s, e))))"

definition unpack_entry :: "('q, 'w) ad_calls \<Rightarrow> 'a::len word \<Rightarrow> byte list \<Rightarrow> string \<Rightarrow> nat \<Rightarrow> nat \<Rightarrow> ('q, 'cb) copyfile_state \<Rightarrow> 'w env
    \<Rightarrow> ((int + unit) \<times> ('q, 'cb) copyfile_state \<times> 'w env) option" where
  "unpack_entry c base m name off len s e =
     (if name = ac_qname c then do { e \<leftarrow> unpack_quarantine c m off len s e; Some (Inr (), s, e) }
      else if flagged COPYFILE_ACL (cf_flags s) \<and> name = XATTR_SECURITY_NAME
      then do { t \<leftarrow> acl_text_at c base m off len e;
                (case t of
                   None \<Rightarrow> Some (Inl (-1), s, e)
                 | Some t \<Rightarrow> (case ac_from_text c t of None \<Rightarrow> Some (Inr (), s, e) | Some a \<Rightarrow> Some (set_acl c a s e))) }
      else if flagged COPYFILE_XATTR (cf_flags s)
      then do { data \<leftarrow> mslice m off len;
                let (r, e) = xc_set (ac_xa c) (dst_fd s) name (Some data) len e;
                Some (if r = -1 then Inl (-1) else Inr (), s, e) }
      else Some (Inr (), s, e))"

fun unpack_entries :: "('q, 'w) ad_calls \<Rightarrow> bool \<Rightarrow> 'a::len word \<Rightarrow> byte list \<Rightarrow> nat \<Rightarrow> nat \<Rightarrow> ('q, 'cb) copyfile_state \<Rightarrow> 'w env
    \<Rightarrow> ((int + unit) \<times> ('q, 'cb) copyfile_state \<times> 'w env) option" where
  "unpack_entries c le base m 0 p s e = Some (Inr (), s, e)"
| "unpack_entries c le base m (Suc n) p s e =
     do { x \<leftarrow> check_entry le base m p;
          (case x of
             None \<Rightarrow> Some (Inl (-1), s\<lparr>cf_err := EINVAL\<rparr>, e)
           | Some (namelen, name, off, len) \<Rightarrow>
               do { (r, s, e) \<leftarrow> unpack_entry c base m name off len s e;
                    (case r of Inl r \<Rightarrow> Some (Inl r, s, e) | Inr _ \<Rightarrow> unpack_entries c le base m n (p + ATTR_ENTRY_LENGTH namelen) s e) }) }"

text \<open>The result is the buffer with the fields of the attribute header in the order of the machine.\<close>

definition unpack_attrs :: "('q, 'w) ad_calls \<Rightarrow> bool \<Rightarrow> 'a::len word \<Rightarrow> byte list \<Rightarrow> ('q, 'cb) copyfile_state \<Rightarrow> 'w env
    \<Rightarrow> ((int + byte list) \<times> ('q, 'cb) copyfile_state \<times> 'w env) option" where
  "unpack_attrs c le base m s e =
     do { len \<leftarrow> ld le 4 m (AD_ENTRY 0 + 8);
          if len \<le> FINDERINFOSIZE then Some (Inr m, s, e)
          else if length m < ATTR_HDR_SIZE then Some (Inl (-1), s, e)
          else do { m \<leftarrow> swap_attrhdr le m;
                    magic \<leftarrow> ld le 4 m ATTR_HDR;
                    if magic \<noteq> ATTR_HDR_MAGIC then Some (Inl (-1), s, e)
                    else do { count \<leftarrow> ld le 2 m ATTR_COUNT;
                              (r, s, e) \<leftarrow> unpack_entries c le base m count ATTR_HDR_SIZE s e;
                              Some (case r of Inl r \<Rightarrow> Inl r | Inr _ \<Rightarrow> Inr m, s, e) } } }"

section \<open>Finder information and resource fork\<close>

definition emptyfinfo :: "byte list" where "emptyfinfo = replicate 32 0"

definition unpack_finder :: "('q, 'w) ad_calls \<Rightarrow> bool \<Rightarrow> byte list \<Rightarrow> ('q, 'cb) copyfile_state \<Rightarrow> 'w env \<Rightarrow> (int \<times> 'w env) option" where
  "unpack_finder c le m s e =
     do { off \<leftarrow> ld le 4 m (AD_ENTRY 0 + 4);
          if off > length m - length emptyfinfo then Some (-1, e)
          else do { d \<leftarrow> mslice m off (length emptyfinfo);
                    Some (if d \<noteq> emptyfinfo then xc_set (ac_xa c) (dst_fd s) XATTR_FINDERINFO_NAME (Some d) (length emptyfinfo) e else (0, e)) } }"

text \<open>The resource fork of a directory on a file system without named attributes.\<close>

definition RF_EMPTY_TAG :: string where "RF_EMPTY_TAG = ''This resource fork intentionally left blank   ''"

definition empty_rsrcfork_header :: "byte list" where
  "empty_rsrcfork_header =
     store False 4 256 @ store False 4 256 @ store False 4 0 @ store False 4 30
     @ to_bytes RF_EMPTY_TAG @ replicate (112 - length RF_EMPTY_TAG) 0 @ replicate 128 0
     @ store False 4 256 @ store False 4 256 @ store False 4 0 @ store False 4 30
     @ store False 4 0 @ store False 2 0 @ [0, 0] @ store False 2 28 @ store False 2 30 @ store False 2 65535"

text \<open>The value of \<open>error\<close> after the label \<open>bad\<close>.\<close>

definition unpack_resource :: "('q, 'w) ad_calls \<Rightarrow> nat \<Rightarrow> nat \<Rightarrow> ('q, 'cb) copyfile_state \<Rightarrow> 'w env \<Rightarrow> int \<times> 'w env" where
  "unpack_resource c len off s e =
     (case new_block (ac_mem c) () e of
        (None, e) \<Rightarrow> (-1, e)
      | (bp, e) \<Rightarrow>
          (let (error, e) =
             (case ac_fstat c (dst_fd s) e of
                (None, e) \<Rightarrow> (-1, e)
              | (Some st, e) \<Rightarrow>
                  (case ac_pread c (src_fd s) len off e of
                     (None, e) \<Rightarrow> (-1, e)
                   | (Some d, e) \<Rightarrow>
                       if length d < len then (-1, e)
                       else (let (r, e) = xc_set (ac_xa c) (dst_fd s) XATTR_RESOURCEFORK_NAME (Some d) (length d) e
                             in if r \<noteq> 0
                                then (if length d = length empty_rsrcfork_header \<and> st_mode st AND S_IFMT = S_IFDIR \<and> d = empty_rsrcfork_header
                                      then (0, e\<lparr>e_errno := Errno 0\<rparr>) else (-1, e))
                                else if \<not> flagged COPYFILE_STAT (cf_flags s)
                                then (0, snd (sc_futimes (ac_sec c) (dst_fd s) (ts_sec (st_atimespec st), ts_sec (st_mtimespec st)) e))
                                else (0, e))))
           in (error, free_block bp e)))"

section \<open>The whole\<close>

definition unpack_buffer :: "('q, 'w) ad_calls \<Rightarrow> bool \<Rightarrow> 'a::len word \<Rightarrow> byte list \<Rightarrow> ('q, 'cb) copyfile_state \<Rightarrow> 'w env
    \<Rightarrow> (int \<times> ('q, 'cb) copyfile_state \<times> 'w env) option" where
  "unpack_buffer c le base m s e =
     do { m \<leftarrow> swap_adhdr le m;
          (r, s, e) \<leftarrow> unpack_clear c s e;
          (case r of
             Inl error \<Rightarrow> Some (error, s, e)
           | Inr _ \<Rightarrow>
               do { (r, s, e) \<leftarrow> unpack_attrs c le base m s e;
                    (case r of
                       Inl error \<Rightarrow> Some (error, s, e)
                     | Inr m \<Rightarrow>
                         do { (error, e) \<leftarrow> unpack_finder c le m s e;
                              if error \<noteq> 0 then Some (error, s, e)
                              else do { ty \<leftarrow> ld le 4 m (AD_ENTRY 1);
                                        off \<leftarrow> ld le 4 m (AD_ENTRY 1 + 4);
                                        len \<leftarrow> ld le 4 m (AD_ENTRY 1 + 8);
                                        let (error, e) = (if ty = AD_RESOURCE \<and> len > 0 then unpack_resource c len off s e else (error, e));
                                        let (error, e) = (if flagged COPYFILE_STAT (cf_flags s) then copyfile_stat (ac_sec c) s e else (error, e));
                                        Some (error, s, e) } }) }) }"

definition copyfile_unpack :: "('q, 'w) ad_calls \<Rightarrow> bool \<Rightarrow> 'a::len word \<Rightarrow> ('q, 'cb) copyfile_state \<Rightarrow> 'w env
    \<Rightarrow> (int \<times> ('q, 'cb) copyfile_state \<times> 'w env) option" where
  "copyfile_unpack c le base s e =
     (let hdrsize = (if sint (st_size (sb s)) < int ATTR_MAX_HDR_SIZE then sint (st_size (sb s)) else int ATTR_MAX_HDR_SIZE)
      in case (if hdrsize < 0 then (None, e\<lparr>e_errno := ENOMEM\<rparr>) else new_block (ac_mem c) () e) of
           (None, e) \<Rightarrow> Some (-1, s, e)
         | (bp, e) \<Rightarrow>
             (let (d, e) = ac_pread c (src_fd s) (nat hdrsize) 0 e
              in do { (error, s, e) \<leftarrow>
                        (case d of
                           None \<Rightarrow> Some (-1, s, e)
                         | Some m \<Rightarrow>
                             if int (length m) < hdrsize then Some (-1, s, e)
                             else do { ok \<leftarrow> apple_double_ok m;
                                       if ok then unpack_buffer c le base m s e else Some (-1, s, e) });
                      Some (error, s, free_block bp e) }))"

section \<open>Staying inside the buffer\<close>

text \<open>An address \<open>off\<close> bytes after \<open>base\<close>, and whether it wrapped.\<close>

lemma unat_base_plus:
  fixes base :: "'a::len word"
  assumes "x < 2 ^ LENGTH('a)"
  shows "unat (base + of_nat x) = (if unat base + x < 2 ^ LENGTH('a) then unat base + x else unat base + x - 2 ^ LENGTH('a))"
proof -
  have "unat (base + of_nat x) = (unat base + x) mod 2 ^ LENGTH('a)"
    using assms by (simp add: unat_word_ariths unat_of_nat take_bit_nat_eq_self)
  moreover have "unat base < 2 ^ LENGTH('a)" by (rule unsigned_less)
  moreover have "(a + x) mod M = (if a + x < M then a + x else a + x - M)" if "a < M" "x < M" for a M :: nat
    using that by (cases "a + x < M") (simp_all add: le_mod_geq)
  ultimately show ?thesis using assms by metis
qed

lemma data_overflows_iff:
  fixes base :: "'a::len word"
  assumes "unat base + n < 2 ^ LENGTH('a)" and "n < 2 ^ 31" and "off < 2 ^ 32" and "len < 2 ^ 32" and "32 \<le> LENGTH('a)"
  shows "data_overflows base n off len \<longleftrightarrow> n < off + len"
proof -
  have "(2 :: nat) ^ 32 \<le> 2 ^ LENGTH('a)" using assms(5) by (intro power_increasing) simp_all
  then have o: "off < 2 ^ LENGTH('a)" and l: "len < 2 ^ LENGTH('a)" and n: "n < 2 ^ LENGTH('a)" and h: "2 * n < 2 ^ LENGTH('a)" using assms(1-4) by simp_all
  define M :: nat where "M = 2 ^ LENGTH('a)"
  define b where "b = unat base"
  have e: "unat (base + of_nat n) = b + n" using unat_base_plus [OF n, of base] assms(1) by (simp add: b_def)
  have d: "unat (base + of_nat off) = (if b + off < M then b + off else b + off - M)"
    using unat_base_plus [OF o, of base] by (simp add: b_def M_def)
  have x: "unat (base + of_nat off + of_nat len) = (if unat (base + of_nat off) + len < M then unat (base + of_nat off) + len else unat (base + of_nat off) + len - M)"
    using unat_base_plus [OF l, of "base + of_nat off"] by (simp add: M_def)
  have m: "b + n < M" "off < M" "len < M" "2 * n < M" using assms(1) o l h by (simp_all add: b_def M_def)
  show ?thesis
    unfolding data_overflows_def Let_def word_less_nat_alt e x d b_def [symmetric] using m by (auto split: if_splits)
qed

text \<open>The checks of an entry never look outside the buffer.\<close>

lemma from_le_app: "from_le (xs @ [b]) < 256 ^ (length xs + 1)"
  using from_le_less [of "xs @ [b]"] by simp

















section \<open>A system of files with attributes\<close>

text \<open>
  A descriptor is the number of its file, which has attributes and contents.  Blocks can be had, there are no access control
  lists and there is no quarantine information; \<open>q\<close> is the name of its attribute.
\<close>

record adw =
  att :: xworld
  cont :: "int \<Rightarrow> byte list"

definition with_att :: "(xworld env \<Rightarrow> 'r \<times> xworld env) \<Rightarrow> adw env \<Rightarrow> 'r \<times> adw env" where
  "with_att f e =
     (let (r, e') = f \<lparr>e_errno = e_errno e, live = live e, wld = att (wld e)\<rparr>
      in (r, \<lparr>e_errno = e_errno e', live = live e', wld = (wld e)\<lparr>att := wld e'\<rparr>\<rparr>))"

definition pwrite_at :: "byte list \<Rightarrow> nat \<Rightarrow> byte list \<Rightarrow> byte list" where
  "pwrite_at old off d = take off (old @ replicate (off - length old) 0) @ d @ drop (off + length d) old"

definition att_calls :: "adw xattr_calls" where
  "att_calls = \<lparr>xc_mem = (\<lambda>_. True), xc_list = (\<lambda>fd n. with_att (x_list fd n)), xc_get = (\<lambda>fd k n. with_att (x_get fd k n)),
     xc_set = (\<lambda>fd k d n. with_att (x_set fd k d n)), xc_remove = (\<lambda>fd k. with_att (x_remove fd k))\<rparr>"

definition still_sec :: "adw sec_calls" where
  "still_sec = \<lparr>sc_mem = (\<lambda>_. True), sc_uuid = (\<lambda>u. None), sc_uid = 0, sc_euid = 0, sc_junk = 0, sc_max = 128,
     sc_fstatx = (\<lambda>fd e. (Some (zero_stat, empty_filesec), e)), sc_fchmodx = (\<lambda>fd f e. (0, e)), sc_fstat = (\<lambda>fd e. (zero_stat, e)),
     sc_fchmod = (\<lambda>fd m e. (0, e)), sc_fchown = (\<lambda>fd u g e. (0, e)), sc_acl_set_fd = (\<lambda>fd a e. (-1, e)), sc_fchflags = (\<lambda>fd n e. (0, e)),
     sc_futimes = (\<lambda>fd t e. (0, e))\<rparr>"

definition ad_system :: "string \<Rightarrow> ('q, adw) ad_calls" where
  "ad_system q = \<lparr>ac_mem = (\<lambda>_. True), ac_xa = att_calls, ac_sec = still_sec, ac_qname = q, ac_qalloc = (\<lambda>e. (None, e)),
     ac_qdata = (\<lambda>q d e. ((-1, q), e)), ac_qbytes = (\<lambda>q e. (None, e)), ac_qapply = (\<lambda>q fd e. (-1, e)), ac_from_text = (\<lambda>t. None),
     ac_to_text = (\<lambda>a. None), ac_pread = (\<lambda>fd n off e. (Some (take n (drop off (cont (wld e) fd))), e)),
     ac_pwrite = (\<lambda>fd d off e. (int (length d), e\<lparr>wld := (wld e)\<lparr>cont := (cont (wld e))(fd := pwrite_at (cont (wld e) fd) off d)\<rparr>\<rparr>)),
     ac_fstat = (\<lambda>fd e. (Some zero_stat, e))\<rparr>"

lemma ad_system_simps [simp]:
  "ac_mem (ad_system q) = (\<lambda>_. True)" "ac_xa (ad_system q) = att_calls" "ac_sec (ad_system q) = still_sec" "ac_qname (ad_system q) = q"
  "ac_qalloc (ad_system q) e = (None, e)" "ac_to_text (ad_system q) a = None" "ac_from_text (ad_system q) t = None"
  "ac_pread (ad_system q) fd n off e = (Some (take n (drop off (cont (wld e) fd))), e)"
  "ac_pwrite (ad_system q) fd d off e = (int (length d), e\<lparr>wld := (wld e)\<lparr>cont := (cont (wld e))(fd := pwrite_at (cont (wld e) fd) off d)\<rparr>\<rparr>)"
  "ac_fstat (ad_system q) fd e = (Some zero_stat, e)"
  by (simp_all add: ad_system_def)

lemma att_calls_simps [simp]:
  "xc_list att_calls fd None e = ((int (length (name_list (map fst (att (wld e) fd)))), []), e)"
  "length (name_list (map fst (att (wld e) fd))) \<le> n \<Longrightarrow>
     xc_list att_calls fd (Some n) e = ((int (length (name_list (map fst (att (wld e) fd)))), name_list (map fst (att (wld e) fd))), e)"
  "map_of (att (wld e) fd) k = Some v \<Longrightarrow> xc_get att_calls fd k None e = ((int (length v), []), e)"
  "map_of (att (wld e) fd) k = Some v \<Longrightarrow> length v \<le> n \<Longrightarrow> xc_get att_calls fd k (Some n) e = ((int (length v), v), e)"
  "xc_set att_calls fd k (Some v) n e = (0, e\<lparr>wld := (wld e)\<lparr>att := (att (wld e))(fd := AList.update k (take n v) (att (wld e) fd))\<rparr>\<rparr>)"
  "xc_remove att_calls fd k e = (0, e\<lparr>wld := (wld e)\<lparr>att := (att (wld e))(fd := AList.delete k (att (wld e) fd))\<rparr>\<rparr>)"
  by (simp_all add: att_calls_def with_att_def x_list_def x_get_def x_set_def x_remove_def Let_def)

lemma still_sec_simps [simp]:
  "copyfile_stat still_sec s e = (0, e)" "sc_futimes still_sec fd t e = (0, e)"
  by (simp_all add: copyfile_stat_def still_sec_def)


section \<open>Properties\<close>

text \<open>The test \<open>copyfile_unpack\<close> makes of the data of an attribute is exact on machines with addresses of 32 bits or more: in
  spite of the wrapping of addresses it rejects an entry just when its data, as offset and length say, does not lie in the buffer.\<close>

theorem data_overflows_exact:
  fixes base :: "'a::len word"
  assumes "unat base + hdrsize < 2 ^ LENGTH('a)" and "hdrsize \<le> ATTR_MAX_HDR_SIZE" and "off < 2 ^ 32" and "len < 2 ^ 32" and "32 \<le> LENGTH('a)"
  shows "data_overflows base hdrsize off len \<longleftrightarrow> hdrsize < off + len"
  by (rule data_overflows_iff) (use assms in \<open>simp_all add: ad_limits\<close>)

theorem data_overflows_exact_witness:
  "data_overflows (0xFFFF0000 :: 32 word) 200 0xFFFFFFFF 0x80 \<and> \<not> data_overflows (0xFFFF0000 :: 32 word) 200 120 80"
  using data_overflows_exact [of "0xFFFF0000 :: 32 word" 200 "0xFFFFFFFF" "0x80"] data_overflows_exact [of "0xFFFF0000 :: 32 word" 200 120 80]
  by (simp add: ad_limits)



text \<open>A file that is nothing but a header, which promises one attribute and an entry for the Finder information of more than 32 bytes.\<close>

definition crafted :: attr_header where
  "crafted = zero_header\<lparr>adh_magic := of_nat ADH_MAGIC, adh_version := of_nat ADH_VERSION, adh_num := 2,
     adh_entry0 := \<lparr>ad_type = of_nat AD_FINDERINFO, ad_offset = of_nat AD_FINFO, ad_length = 33\<rparr>, ah_magic := of_nat ATTR_HDR_MAGIC, ah_count := 1\<rparr>"

lemma crafted_ok: "sized_header crafted" "adh_magic crafted = of_nat ADH_MAGIC" "adh_num crafted = 2" "ah_magic crafted = of_nat ATTR_HDR_MAGIC"
  by (simp_all add: crafted_def zero_header_def sized_header_def)

lemma crafted_header: "apple_double_ok (header_image False crafted) = Some True"
proof -
  have "header_image False crafted = concat (ad_fields False crafted) @ concat (attr_fields False crafted)" by (simp add: header_image_def)
  then show ?thesis
    using ld_ad_field(1,7,8,9) [OF crafted_ok(1), of False "concat (attr_fields False crafted)"] length_header_image [OF crafted_ok(1), of False]
    by (simp add: apple_double_ok_def) (simp add: crafted_def layout ADH_MAGIC_def ADH_VERSION_def AD_FINDERINFO_def)
qed

lemma crafted_buffer:
  assumes "\<not> flagged COPYFILE_XATTR (cf_flags s)"
  shows "unpack_buffer c le base (header_image False crafted) s e = (if le then None else Some (-1, s\<lparr>cf_err := EINVAL\<rparr>, e))"
proof -
  let ?r = "concat (attr_fields False crafted)"
  let ?m = "concat (ad_fields le crafted) @ ?r"
  have i: "header_image False crafted = concat (ad_fields False crafted) @ ?r" by (simp add: header_image_def)
  have a: "swap_adhdr le (header_image False crafted) = Some ?m"
    unfolding i by (rule swap_adhdr_both) (simp_all add: crafted_ok)
  have n: "length ?m = 120" using length_fields [OF crafted_ok(1), of le False] by (simp add: layout)
  have l: "ld le 4 ?m (AD_ENTRY 0 + 8) = Some 33"
    using ld_ad_field(3) [OF crafted_ok(1), of le ?r] by (simp add: crafted_def)
  have w: "swap_attrhdr True ?m = swap_attr_loop 1 ATTR_HDR_SIZE (concat (ad_fields le crafted @ attr_fields True crafted))"
    using swap_attrhdr_fields [OF crafted_ok(4,1), of le False "[]"] by (simp add: crafted_def)
  have "swap_attrhdr True ?m = None"
    unfolding w using length_fields [OF crafted_ok(1), of le True] by (simp add: mread_def layout)
  moreover have "ld False 4 ?m ATTR_HDR = Some ATTR_HDR_MAGIC" "ld False 2 ?m ATTR_COUNT = Some 1"
    using ld_attr_field [OF crafted_ok(1), of False le "[]"] by (simp_all add: crafted_def ATTR_HDR_MAGIC_def)
  moreover have "check_entry le base ?m ATTR_HDR_SIZE = Some None" using n by (simp add: check_entry_def layout)
  ultimately show ?thesis using a l n assms
    by (cases le) (simp_all add: unpack_buffer_def unpack_clear_def unpack_attrs_def FINDERINFOSIZE_def ATTR_HDR_SIZE_def swap_attrhdr_def)
qed

text \<open>C40: \<open>swap_attrhdr\<close> follows the number of attributes a file gives before anything is checked: whatever the system, a file of 120
  bytes makes \<open>copyfile_unpack\<close> swap bytes after the end of its buffer on a little-endian machine, where a big-endian one
  refuses the same file with \<open>EINVAL\<close>.\<close>

theorem unpack_swap_escapes:
  assumes "st_size (sb s) = 120" and "ac_mem c (live e)" and "\<not> flagged COPYFILE_XATTR (cf_flags s)"
    and "ac_pread c (src_fd s) 120 0 (e\<lparr>live := live e + 1\<rparr>) = (Some (header_image False crafted), e1)"
  shows "copyfile_unpack c True base s e = None
    \<and> copyfile_unpack c False base s e = Some (-1, s\<lparr>cf_err := EINVAL\<rparr>, e1\<lparr>live := live e1 - 1\<rparr>)"
  using assms crafted_header crafted_buffer [OF assms(3), of c True base] crafted_buffer [OF assms(3), of c False base] length_header_image [OF crafted_ok(1), of False]
  by (simp add: copyfile_unpack_def new_block_def ad_limits Let_def)

theorem unpack_swap_escapes_witness:
  "copyfile_unpack (ad_system ''q'' :: (nat, adw) ad_calls) True (4096 :: 64 word)
     (fresh_state\<lparr>src_fd := 3, dst_fd := 4, cf_flags := COPYFILE_DATA, sb := zero_stat\<lparr>st_size := 120\<rparr>\<rparr> :: (nat, unit) copyfile_state)
     \<lparr>e_errno = Errno 0, live = 0, wld = \<lparr>att = (\<lambda>_. []), cont = (\<lambda>_. header_image False crafted)\<rparr>\<rparr> = None"
  by (rule unpack_swap_escapes [THEN conjunct1])
     (simp_all add: flagged_def copyfile_flags length_header_image crafted_ok(1))

end
