(* ===== verification/Copy_Pack.thy ===== *)
theory Copy_Pack
  imports Copy_Unpack
begin

text \<open>
  \<open>copyfile_pack\<close> of \<open>src/copyfile.c\<close>: the attributes, the access control list, the quarantine information, the Finder
  information and the resource fork of a file are written as an AppleDouble file.  The header of 128K is the value of its
  structure (\<open>attr_header\<close>) and the bytes after it, in which positions are counted from the end of the structure; before it is
  written it becomes bytes in the order of the machine, and these are swapped.  \<open>None\<close> is an access outside a buffer, a use of a
  variable that was not set, or of a block that was freed.
\<close>

section \<open>The names\<close>

text \<open>
  What is in front of the names: the one that stands for the access control list, where the file has one.
\<close>

definition acl_prefix :: "('q, 'w) ad_calls \<Rightarrow> ('q, 'cb) copyfile_state \<Rightarrow> 'w env \<Rightarrow> string" where
  "acl_prefix c s e =
     (if flagged COPYFILE_ACL (cf_flags s) \<and> \<not> isl (filesec_get_acl (ac_sec c) (fsec s) e) then XATTR_SECURITY_NAME @ [NUL] else [])"

text \<open>
  The loop that makes an entry for each name: \<open>rest\<close> is what follows the name pointer in the buffer, \<open>left\<close> how much of it
  belongs to the list, \<open>p\<close> where the next entry is.  The result is the header, the bytes after it, and whether the quarantine
  attribute was seen.
\<close>

function names_loop :: "string \<Rightarrow> string \<Rightarrow> int \<Rightarrow> nat \<Rightarrow> attr_header \<Rightarrow> byte list \<Rightarrow> bool \<Rightarrow> (int + attr_header \<times> byte list \<times> bool) option" where
  "names_loop qname rest left p h body seenq =
     (if left \<le> 0 then Some (Inr (h, body, seenq))
      else if NUL \<notin> set rest then None
      else (let name = name_at rest; namelen = length name + 1
            in if name = XATTR_FINDERINFO_NAME \<or> name = XATTR_RESOURCEFORK_NAME
               then names_loop qname (drop namelen rest) (left - int namelen) p h body seenq
               else (let seenq = (seenq \<or> name = qname); namelen = min namelen (XATTR_MAXNAMELEN + 1)
                     in do { body \<leftarrow> mwrite body (p + ENTRY_NAMELEN) (of_nat namelen);
                             body \<leftarrow> mblit body (p + 8) [0, 0];
                             if int namelen > left then Some (Inl (-1))
                             else do { body \<leftarrow> mblit body (p + ENTRY_NAME) (to_bytes (take namelen rest));
                                       let entrylen = ATTR_ENTRY_LENGTH namelen;
                                       if ATTR_HDR_SIZE + p + entrylen \<ge> ATTR_MAX_SIZE then Some (Inl (-1))
                                       else names_loop qname (drop namelen rest) (left - int namelen) (p + entrylen)
                                              (h\<lparr>ah_count := ah_count h + 1, ah_start := ah_start h + of_nat entrylen\<rparr>) body seenq } })))"
  by pat_completeness auto
termination
  by (relation "measure (\<lambda>(_, _, left, _). nat left)") auto

declare names_loop.simps [simp del]

text \<open>
  The list of names: its buffer, its size, and the header with the entries.
\<close>

definition pack_names :: "('q, 'w) ad_calls \<Rightarrow> ('q, 'cb) copyfile_state \<Rightarrow> attr_header \<Rightarrow> byte list \<Rightarrow> 'w env
    \<Rightarrow> ((int + string \<times> int \<times> attr_header \<times> byte list) \<times> 'w env) option" where
  "pack_names c s h body e =
     (let pre = acl_prefix c s e; offset = length pre;
          buf = pre @ replicate (ATTR_MAX_HDR_SIZE - offset) NUL
      in do { (x, e) \<leftarrow>
                (if flagged COPYFILE_XATTR (cf_flags s)
                 then (let left = ATTR_MAX_HDR_SIZE - offset;
                           ((n, names), e) = xc_list (ac_xa c) (src_fd s) (Some left) e;
                           listsize = min n (int left) + int offset
                       in do { buf \<leftarrow> mblit buf offset names;
                               if listsize > int ATTR_MAX_HDR_SIZE then Some (Inl (-1), e)
                               else do { r \<leftarrow> names_loop (ac_qname c) buf listsize 0 h body False;
                                         Some (map_sum id (\<lambda>(h, body, seenq). (buf, listsize, h, body, seenq)) r, e) } })
                 else Some (Inr (buf, 0, h, body, False), e));
              (case x of
                 Inl r \<Rightarrow> Some (Inl r, e)
               | Inr (buf, listsize, h, body, seenq) \<Rightarrow>
                   do { buf \<leftarrow> (if qinfo s \<noteq> None \<and> \<not> seenq
                               then mblit buf offset (take (ATTR_MAX_HDR_SIZE - offset - 1) (ac_qname c) @ [NUL]) else Some buf);
                        Some (Inr (buf, listsize, h, body), e) }) })"

section \<open>The data\<close>

text \<open>The local variables of the second half: \<open>databuf\<close> may be a block, null, or a block that was freed; \<open>datasize\<close> may not be set.\<close>

datatype data_ptr = Null_ptr | Block "byte list" | Freed

record pack =
  pk_hdr :: attr_header
  pk_body :: "byte list"
  pk_entry :: nat
  pk_data :: data_ptr
  pk_size :: "int option"
  pk_rsrc :: bool
  pk_error :: int

definition copyfile_pack_quarantine :: "('q, 'w) ad_calls \<Rightarrow> ('q, 'cb) copyfile_state \<Rightarrow> pack \<Rightarrow> 'w env \<Rightarrow> pack \<times> 'w env" where
  "copyfile_pack_quarantine c s pk e =
     (case qinfo s of
        None \<Rightarrow> (pk, e)
      | Some q \<Rightarrow>
          (case ac_qbytes c q e of
             (None, e) \<Rightarrow> (pk, e)
           | (Some d, e) \<Rightarrow>
               (case new_block (ac_mem c) d e of
                  (None, e) \<Rightarrow> (pk\<lparr>pk_data := Null_ptr\<rparr>, e)
                | (Some d, e) \<Rightarrow> (pk\<lparr>pk_data := Block d, pk_size := Some (int (length d))\<rparr>, e))))"

definition copyfile_pack_acl :: "('q, 'w) ad_calls \<Rightarrow> ('q, 'cb) copyfile_state \<Rightarrow> pack \<Rightarrow> 'w env \<Rightarrow> pack \<times> 'w env" where
  "copyfile_pack_acl c s pk e =
     (case filesec_get_acl (ac_sec c) (fsec s) e of
        Inl _ \<Rightarrow> (pk\<lparr>pk_size := Some 0\<rparr>, e)
      | Inr a \<Rightarrow>
          (case ac_to_text c a of
             None \<Rightarrow> (pk, e)
           | Some t \<Rightarrow>
               (case new_block (ac_mem c) (t @ [0]) e of
                  (None, e) \<Rightarrow> (pk\<lparr>pk_data := Null_ptr, pk_size := Some 0\<rparr>, e)
                | (Some d, e) \<Rightarrow> (pk\<lparr>pk_data := Block d, pk_size := Some (int (length t) + 1)\<rparr>, e))))"

definition bump_entry :: "pack \<Rightarrow> pack option" where
  "bump_entry pk = do { n \<leftarrow> mread (pk_body pk) (pk_entry pk + ENTRY_NAMELEN); Some (pk\<lparr>pk_entry := pk_entry pk + ATTR_ENTRY_LENGTH (unat n)\<rparr>) }"

text \<open>The source of \<open>bcopy(databuf, ..., n)\<close>, and \<open>free(databuf)\<close>.\<close>

definition data_bytes :: "data_ptr \<Rightarrow> int \<Rightarrow> byte list option" where
  "data_bytes d n =
     (if n < 0 then None else if n = 0 then Some []
      else (case d of Block bs \<Rightarrow> if n \<le> int (length bs) then Some (take (nat n) bs) else None | _ \<Rightarrow> None))"

definition free_data :: "data_ptr \<Rightarrow> 'w env \<Rightarrow> 'w env option" where
  "free_data d e = (case d of Null_ptr \<Rightarrow> Some e | Block _ \<Rightarrow> Some (e\<lparr>live := live e - 1\<rparr>) | Freed \<Rightarrow> None)"

text \<open>From the label after the branches to the next entry.\<close>

definition store_data :: "bool \<Rightarrow> pack \<Rightarrow> 'w env \<Rightarrow> (pack \<times> 'w env) option" where
  "store_data le pk e =
     do { n \<leftarrow> pk_size pk;
          let h = pk_hdr pk;
          let p = pk_entry pk;
          let off = ah_start h + ah_length h;
          body \<leftarrow> mblit (pk_body pk) (p + 4) (store le 4 (nat (n mod 2 ^ 32)));
          body \<leftarrow> mblit body p (store le 4 (unat off));
          (body, err) \<leftarrow>
            (if unat off > ATTR_MAX_SIZE \<or> int (unat off) + n > int ATTR_MAX_SIZE then Some (body, 1)
             else if unat off < ATTR_HDR_SIZE then None
             else do { d \<leftarrow> data_bytes (pk_data pk) n; body \<leftarrow> mblit body (unat off - ATTR_HDR_SIZE) d; Some (body, pk_error pk) });
          e \<leftarrow> free_data (pk_data pk) e;
          pk \<leftarrow> bump_entry (pk\<lparr>pk_hdr := h\<lparr>ah_length := ah_length h + word_of_int n\<rparr>, pk_body := body, pk_data := (if pk_data pk = Null_ptr then Null_ptr else Freed), pk_error := err\<rparr>);
          Some (pk, e) }"

definition pack_name :: "('q, 'w) ad_calls \<Rightarrow> bool \<Rightarrow> ('q, 'cb) copyfile_state \<Rightarrow> string \<Rightarrow> pack \<Rightarrow> 'w env \<Rightarrow> (pack \<times> 'w env) option" where
  "pack_name c le s name pk e =
     (if name = XATTR_SECURITY_NAME then (let (pk, e) = copyfile_pack_acl c s pk e in store_data le pk e)
      else if qinfo s \<noteq> None \<and> name = ac_qname c then (let (pk, e) = copyfile_pack_quarantine c s pk e in store_data le pk e)
      else if name = XATTR_FINDERINFO_NAME
      then (let ((n, d), e) = xc_get (ac_xa c) (src_fd s) name (Some 32) e
            in do { f \<leftarrow> mblit (adh_finfo (pk_hdr pk)) 0 d;
                    Some (pk\<lparr>pk_hdr := (pk_hdr pk)\<lparr>adh_finfo := f\<rparr>, pk_size := Some n\<rparr>, e) })
      else if name = XATTR_RESOURCEFORK_NAME then Some (pk\<lparr>pk_rsrc := True\<rparr>, e)
      else (let ((n, _), e) = xc_get (ac_xa c) (src_fd s) name None e;
                pk = pk\<lparr>pk_size := Some n\<rparr>
            in if n = 0 \<or> n < 0 \<or> n > int XATTR_MAXATTRLEN then do { pk \<leftarrow> bump_entry pk; Some (pk, e) }
               else (case new_block (ac_mem c) () e of
                       (None, e) \<Rightarrow> Some (pk\<lparr>pk_data := Null_ptr, pk_error := -1\<rparr>, e)
                     | (_, e) \<Rightarrow>
                         (let ((n, d), e) = xc_get (ac_xa c) (src_fd s) name (Some (nat n)) e
                          in store_data le (pk\<lparr>pk_data := Block d, pk_size := Some n\<rparr>) e))))"

function data_loop :: "('q, 'w) ad_calls \<Rightarrow> bool \<Rightarrow> ('q, 'cb) copyfile_state \<Rightarrow> string \<Rightarrow> int \<Rightarrow> pack \<Rightarrow> 'w env \<Rightarrow> (pack \<times> 'w env) option" where
  "data_loop c le s rest left pk e =
     (if left \<le> 0 then Some (pk, e)
      else if NUL \<notin> set rest then None
      else do { (pk, e) \<leftarrow> pack_name c le s (name_at rest) pk e;
                data_loop c le s (after_name rest) (left - int (length (name_at rest) + 1)) pk e })"
  by pat_completeness auto
termination
  by (relation "measure (\<lambda>(_, _, _, _, left, _). nat left)") auto

declare data_loop.simps [simp del]

section \<open>The resource fork\<close>

definition copyfile_pack_rsrcfork :: "('q, 'w) ad_calls \<Rightarrow> ('q, 'cb) copyfile_state \<Rightarrow> attr_header \<Rightarrow> 'w env
    \<Rightarrow> int \<times> ('q, 'cb) copyfile_state \<times> attr_header \<times> 'w env" where
  "copyfile_pack_rsrcfork c s h e =
     (let ((n, _), e) = xc_get (ac_xa c) (src_fd s) XATTR_RESOURCEFORK_NAME None e
      in if n < 0 then (-1, s, h, e)
         else if n > 0x7FFFFFFF then (-1, s\<lparr>cf_err := EINVAL\<rparr>, h, e)
         else (case new_block (ac_mem c) () e of
                 (None, e) \<Rightarrow> (-1, s, h, e)
               | (bp, e) \<Rightarrow>
                   (let ((got, d), e) = xc_get (ac_xa c) (src_fd s) XATTR_RESOURCEFORK_NAME (Some (nat n)) e
                    in if got \<noteq> n then (-1, s, h, free_block bp e)
                       else (let (_, e) = ac_pwrite c (dst_fd s) d (unat (ad_offset (adh_entry1 h))) e
                             in (0, s, h\<lparr>adh_entry1 := (adh_entry1 h)\<lparr>ad_length := word_of_int n\<rparr>\<rparr>, free_block bp e)))))"

section \<open>The whole\<close>

definition ADH_MACOSX :: string where "ADH_MACOSX = ''Mac OS X        ''"

definition pack_header :: "u32 \<Rightarrow> attr_header" where
  "pack_header ino =
     zero_header\<lparr>adh_magic := of_nat ADH_MAGIC, adh_version := of_nat ADH_VERSION, adh_num := 2,
       adh_entry0 := \<lparr>ad_type = of_nat AD_FINDERINFO, ad_offset = of_nat AD_FINFO, ad_length = of_nat FINDERINFOSIZE\<rparr>,
       adh_entry1 := \<lparr>ad_type = of_nat AD_RESOURCE, ad_offset = of_nat AD_PAD, ad_length = 0\<rparr>,
       adh_filler := to_bytes ADH_MACOSX, ah_magic := of_nat ATTR_HDR_MAGIC, ah_debug := ino, ah_start := of_nat ATTR_HDR_SIZE\<rparr>"

text \<open>The sizes in the header, once the data is collected.\<close>

definition finish_header :: "attr_header \<Rightarrow> attr_header" where
  "finish_header h =
     (if ah_length h > 0
      then (let end = ah_start h + ah_length h
            in h\<lparr>adh_entry1 := (adh_entry1 h)\<lparr>ad_offset := end\<rparr>, adh_entry0 := (adh_entry0 h)\<lparr>ad_length := end - ad_offset (adh_entry0 h)\<rparr>, ah_total := end\<rparr>)
      else h)"

text \<open>Swapping and writing: \<open>m\<close> is the memory of the header.\<close>

definition write_header :: "('q, 'w) ad_calls \<Rightarrow> bool \<Rightarrow> ('q, 'cb) copyfile_state \<Rightarrow> nat \<Rightarrow> byte list \<Rightarrow> 'w env \<Rightarrow> (bool \<times> 'w env) option" where
  "write_header c le s n m e =
     do { m \<leftarrow> swap_adhdr le m;
          m \<leftarrow> swap_attrhdr le m;
          d \<leftarrow> mslice m 0 n;
          let (r, e) = ac_pwrite c (dst_fd s) d 0 e;
          Some (r = int n, e) }"

definition pack_file :: "('q, 'w) ad_calls \<Rightarrow> bool \<Rightarrow> ('q, 'cb) copyfile_state \<Rightarrow> 'w env \<Rightarrow> (int \<times> ('q, 'cb) copyfile_state \<times> 'w env) option" where
  "pack_file c le s e =
     do { (x, e) \<leftarrow> pack_names c s (pack_header (st_ino (sb s))) (replicate (ATTR_MAX_SIZE - ATTR_HDR_SIZE) 0) e;
          (case x of
             Inl r \<Rightarrow> Some (r, s, e)
           | Inr (buf, listsize, h, body) \<Rightarrow>
               do { (pk, e) \<leftarrow> data_loop c le s buf listsize
                                \<lparr>pk_hdr = h, pk_body = body, pk_entry = 0, pk_data = Null_ptr, pk_size = None, pk_rsrc = False, pk_error = 0\<rparr> e;
                    let h = finish_header (pk_hdr pk);
                    let (error, s, h, e) = (if pk_rsrc pk then copyfile_pack_rsrcfork c s h e else (pk_error pk, s, h, e));
                    if pk_rsrc pk \<and> error \<noteq> 0 then Some (error, s, e)
                    else do { (ok, e) \<leftarrow> write_header c le s (unat (ad_offset (adh_entry1 h))) (header_image le h @ pk_body pk) e;
                              Some (if ok then error else -1, s, e) } }) }"

definition copyfile_pack :: "('q, 'w) ad_calls \<Rightarrow> bool \<Rightarrow> ('q, 'cb) copyfile_state \<Rightarrow> 'w env \<Rightarrow> (int \<times> ('q, 'cb) copyfile_state \<times> 'w env) option" where
  "copyfile_pack c le s e =
     (case new_block (ac_mem c) () e of
        (None, e) \<Rightarrow> Some (-1, s, e)
      | (filehdr, e) \<Rightarrow>
          (case new_block (ac_mem c) () e of
             (None, e) \<Rightarrow> Some (-1, s, free_block filehdr e)
           | (attrnamebuf, e) \<Rightarrow>
               do { (error, s, e) \<leftarrow> pack_file c le s e;
                    let e = free_block attrnamebuf (free_block filehdr e);
                    Some (if error \<noteq> 0 then (error, s, e) else (let (r, e) = copyfile_stat (ac_sec c) s e in (r, s, e))) }))"

end
