(* ===== verification/Copy_Archive.thy ===== *)
theory Copy_Archive
  imports Copy_Pack
begin

text \<open>
  The two directions of the AppleDouble format together: what \<open>copyfile_pack\<close> writes, and that \<open>copyfile_unpack\<close> restores it.
\<close>

section \<open>Names and bytes\<close>

lemma to_bytes_simps [simp]: "length (to_bytes k) = length k" "to_bytes [] = []" "to_bytes (a # k) = of_char a # to_bytes k"
  "to_bytes (k @ l) = to_bytes k @ to_bytes l"
  by (simp_all add: to_bytes_def)

lemma unat_of_char: "unat (of_char ch :: byte) = of_char ch"
proof -
  have "(of_char ch :: byte) = of_nat (of_char ch)" by (simp only: of_nat_of_char)
  moreover have "(of_char ch :: nat) = of_char ch mod 256" by simp
  then have "(of_char ch :: nat) < 256" by (metis mod_less_divisor zero_less_numeral)
  ultimately show ?thesis by (simp only: unat_of_nat_byte)
qed

lemma to_name_bytes: "to_name (to_bytes k) = k"
  by (simp add: to_name_def to_bytes_def unat_of_char comp_def)

lemma of_char_zero: "(of_char ch :: byte) = 0 \<longleftrightarrow> ch = NUL"
proof -
  have "(of_char ch :: byte) = 0 \<longleftrightarrow> (of_char ch :: nat) = of_char NUL"
    unfolding unat_of_char [symmetric] by (simp add: NUL_def unat_0_iff)
  then show ?thesis by simp
qed

lemma c_string_bytes: "NUL \<notin> set k \<Longrightarrow> c_string (to_bytes k @ 0 # r) = to_bytes k"
  by (induction k) (auto simp: c_string_def of_char_zero)

lemma store_zero [simp]: "store le n 0 = replicate n 0"
proof -
  have "to_le n 0 = replicate n 0" by (induction n) simp_all
  then show ?thesis by (simp add: store_def)
qed

section \<open>The entries\<close>

definition special :: "string \<Rightarrow> bool" where
  "special k \<longleftrightarrow> k = XATTR_FINDERINFO_NAME \<or> k = XATTR_RESOURCEFORK_NAME"

definition stub :: "string \<Rightarrow> attr_item" where
  "stub k = (0, 0, to_bytes k)"

definition table_size :: "string list \<Rightarrow> nat" where
  "table_size ks = sum_list (map (\<lambda>k. ATTR_ENTRY_LENGTH (length k + 1)) ks)"

lemma table_size_simps [simp]: "table_size [] = 0" "table_size (k # ks) = ATTR_ENTRY_LENGTH (length k + 1) + table_size ks"
  by (simp_all add: table_size_def)

lemma length_stub: "length (entry_image le (stub k)) = ATTR_ENTRY_LENGTH (length k + 1)"
  by (simp add: stub_def length_entry_image)

lemma length_stubs: "length (entries_image le (map stub ks)) = table_size ks"
  by (induction ks) (simp_all add: length_stub)

text \<open>The stores that make an entry where there are zeros.\<close>

lemma make_stub:
  assumes "ATTR_ENTRY_LENGTH (length k + 1) \<le> r"
  shows "do { body \<leftarrow> mwrite (E @ replicate r 0) (length E + ENTRY_NAMELEN) (of_nat (length k + 1));
              body \<leftarrow> mblit body (length E + 8) [0, 0];
              mblit body (length E + ENTRY_NAME) (to_bytes (k @ [NUL])) }
    = Some (E @ entry_image le (stub k) @ replicate (r - ATTR_ENTRY_LENGTH (length k + 1)) (0 :: byte))"
proof -
  let ?L = "ATTR_ENTRY_LENGTH (length k + 1)"
  let ?n = "of_nat (length k + 1) :: byte"
  obtain z where z: "?L = 11 + (length k + 1) + z"
    using ATTR_ENTRY_LENGTH_bounds(1) [of "length k + 1"] le_Suc_ex by (auto simp: layout)
  obtain t where t: "r = ?L + t" using assms le_Suc_ex by blast
  have "replicate r (0 :: byte) = replicate (8 + (2 + (1 + ((length k + 1) + (z + t))))) 0"
    by (rule arg_cong [where f = "\<lambda>n. replicate n 0"]) (use t z in simp)
  also have "\<dots> = replicate 8 0 @ [0, 0] @ [0] @ replicate (length k + 1) 0 @ replicate z 0 @ replicate t 0"
    unfolding replicate_add by (simp add: numeral_2_eq_2)
  finally have r: "replicate r (0 :: byte) = replicate 8 0 @ [0, 0] @ [0] @ replicate (length k + 1) 0 @ replicate z 0 @ replicate (r - ?L) 0"
    by (simp add: t)
  have u: "(A @ x # B)[length A := y] = A @ y # B" for A B :: "byte list" and x y by simp
  have w: "mwrite (E @ replicate r 0) (length E + ENTRY_NAMELEN) ?n
      = Some ((E @ replicate 8 0) @ [0, 0] @ ([?n] @ replicate (length k + 1) 0 @ replicate z 0 @ replicate (r - ?L) 0))"
    using u [of "E @ replicate 8 0 @ [0, 0]" 0 _ ?n] unfolding r by (simp add: mwrite_def layout)
  have b: "mblit ((E @ replicate 8 0) @ [0, 0] @ X) (length E + 8) [0, 0] = Some ((E @ replicate 8 0) @ [0, 0] @ X)" for X :: "byte list"
    using mblit_mid [of "[0, 0]" "[0, 0]" "E @ replicate 8 0" X] by simp
  have c: "mblit (((E @ replicate 8 0) @ [0, 0] @ [?n]) @ replicate (length k + 1) 0 @ X) (length E + ENTRY_NAME) (to_bytes (k @ [NUL]))
      = Some (((E @ replicate 8 0) @ [0, 0] @ [?n]) @ to_bytes (k @ [NUL]) @ X)" for X :: "byte list"
    using mblit_mid [of "to_bytes (k @ [NUL])" "replicate (length k + 1) 0" "(E @ replicate 8 0) @ [0, 0] @ [?n]" X] by (simp add: layout)
  have q: "replicate 4 0 @ replicate 4 0 @ replicate 2 0 @ X = replicate 8 0 @ [0, 0] @ X" for X :: "byte list"
    by (simp add: numeral_eq_Suc)
  have e: "entry_image le (stub k) = replicate 8 0 @ [0, 0] @ [?n] @ to_bytes (k @ [NUL]) @ replicate z 0"
    using z q [of "?n # to_bytes k @ replicate (1 + z) 0"] by (simp add: entry_image_def stub_def layout of_char_zero)
  show ?thesis using w b [of "[?n] @ replicate (length k + 1) 0 @ replicate z 0 @ replicate (r - ?L) 0"] c [of "replicate z 0 @ replicate (r - ?L) 0"]
    by (simp add: e)
qed

definition ordinary :: "string list \<Rightarrow> string list" where
  "ordinary ks = filter (\<lambda>k. \<not> special k) ks"

lemma ordinary_simps [simp]: "ordinary [] = []" "ordinary (k # ks) = (if special k then ordinary ks else k # ordinary ks)"
  by (simp_all add: ordinary_def)

definition short_names :: "string list \<Rightarrow> bool" where
  "short_names ks \<longleftrightarrow> (\<forall>k \<in> set ks. NUL \<notin> set k \<and> length k \<le> XATTR_MAXNAMELEN)"

lemma first_name:
  assumes "NUL \<notin> set k"
  shows "name_at (name_list (k # ks) @ z) = k" and "NUL \<in> set (name_list (k # ks) @ z)"
    and "drop (length k + 1) (name_list (k # ks) @ z) = name_list ks @ z" and "take (length k + 1) (name_list (k # ks) @ z) = k @ [NUL]"
    and "after_name (name_list (k # ks) @ z) = name_list ks @ z"
  using takeWhile_name [OF assms, of "name_list ks @ z"] by (simp_all add: name_at_def after_name_def name_list_Cons)

lemma names_loop_stubs:
  "short_names ks \<Longrightarrow> ATTR_HDR_SIZE + length E + table_size (ordinary ks) < ATTR_MAX_SIZE \<Longrightarrow> length E + r = ATTR_MAX_SIZE - ATTR_HDR_SIZE \<Longrightarrow>
     names_loop q (name_list ks @ z) (int (length (name_list ks))) (length E) h (E @ replicate r 0) seen
     = Some (Inr (h\<lparr>ah_count := ah_count h + of_nat (length (ordinary ks)), ah_start := ah_start h + of_nat (table_size (ordinary ks))\<rparr>,
         E @ entries_image le (map stub (ordinary ks)) @ replicate (r - table_size (ordinary ks)) 0, seen \<or> q \<in> set (ordinary ks)))"
proof (induction ks arbitrary: E r h seen)
  case Nil
  show ?case by (simp add: names_loop.simps)
next
  case (Cons k ks)
  let ?L = "ATTR_ENTRY_LENGTH (length k + 1)"
  have k: "NUL \<notin> set k" "length k \<le> 127" and ks: "short_names ks" using Cons.prems(1) by (auto simp: short_names_def ad_limits)
  note f = first_name [OF k(1), of ks z]
  have l: "int (length (name_list (k # ks))) - int (length k + 1) = int (length (name_list ks))" "\<not> int (length (name_list (k # ks))) \<le> 0"
    "\<not> int (length k + 1) > int (length (name_list (k # ks)))"
    by (simp_all add: name_list_Cons)
  have m: "min (length k + 1) (XATTR_MAXNAMELEN + 1) = length k + 1" using k(2) by (simp add: ad_limits)
  show ?case
  proof (cases "special k")
    case True
    have "names_loop q (name_list (k # ks) @ z) (int (length (name_list (k # ks)))) (length E) h (E @ replicate r 0) seen
      = names_loop q (name_list ks @ z) (int (length (name_list ks))) (length E) h (E @ replicate r 0) seen"
      using True by (subst names_loop.simps) (simp only: f l Let_def special_def if_True if_False simp_thms)
    then show ?thesis using Cons.IH [OF ks, of E r h seen] Cons.prems(2,3) True by simp
  next
    case False
    then have nf: "(k = XATTR_FINDERINFO_NAME \<or> k = XATTR_RESOURCEFORK_NAME) = False" by (simp add: special_def)
    have b: "?L \<le> r" "(ATTR_HDR_SIZE + length E + ?L \<ge> ATTR_MAX_SIZE) = False" using Cons.prems(2,3) False by (simp_all add: ad_limits layout)
    let ?E = "E @ entry_image le (stub k)"
    let ?h = "h\<lparr>ah_count := ah_count h + 1, ah_start := ah_start h + of_nat ?L\<rparr>"
    obtain b1 b2 where s: "mwrite (E @ replicate r 0) (length E + ENTRY_NAMELEN) (of_nat (length k + 1)) = Some b1"
      "mblit b1 (length E + 8) [0, 0] = Some b2"
      "mblit b2 (length E + ENTRY_NAME) (to_bytes (k @ [NUL])) = Some (?E @ replicate (r - ?L) 0)"
      using make_stub [OF b(1), of E le] by (auto simp: bind_eq_Some_conv)
    have "names_loop q (name_list (k # ks) @ z) (int (length (name_list (k # ks)))) (length E) h (E @ replicate r 0) seen
      = names_loop q (name_list ks @ z) (int (length (name_list ks))) (length E + ?L) ?h (?E @ replicate (r - ?L) 0) (seen \<or> k = q)"
      by (subst names_loop.simps) (simp only: f l m nf b s Let_def if_False bind.bind_lunit simp_thms)
    also have "length E + ?L = length ?E" by (simp add: length_stub)
    also have "names_loop q (name_list ks @ z) (int (length (name_list ks))) (length ?E) ?h (?E @ replicate (r - ?L) 0) (seen \<or> k = q)
      = Some (Inr (?h\<lparr>ah_count := ah_count ?h + of_nat (length (ordinary ks)), ah_start := ah_start ?h + of_nat (table_size (ordinary ks))\<rparr>,
         ?E @ entries_image le (map stub (ordinary ks)) @ replicate (r - ?L - table_size (ordinary ks)) 0, (seen \<or> k = q) \<or> q \<in> set (ordinary ks)))"
      by (rule Cons.IH) (use ks Cons.prems(2,3) False b in \<open>simp_all add: length_stub\<close>)
    finally show ?thesis using False by (simp add: algebra_simps) blast
  qed
qed

section \<open>The data\<close>

lemma entry_tail:
  obtains T where "entry_image le (stub k) = replicate 4 0 @ replicate 4 0 @ T"
    and "\<And>off len. entry_image le (off, len, to_bytes k) = store le 4 (unat off) @ store le 4 (unat len) @ T"
  by (rule that [of "store le 2 0 @ of_nat (length k + 1) # to_bytes k @ replicate (ATTR_ENTRY_LENGTH (length k + 1) - ENTRY_NAME - length k) 0"])
     (simp_all add: entry_image_def stub_def)

lemma nat_int_mod: "nat (int n mod 2 ^ 32) = unat (of_nat n :: u32)"
proof -
  have "nat (int n mod 2 ^ 32) = n mod 2 ^ 32" by (metis nat_int of_nat_mod of_nat_numeral of_nat_power)
  then show ?thesis by (simp add: unat_of_nat take_bit_eq_mod)
qed

lemma store_data_item:
  assumes "pk_body pk = pre @ entry_image le (stub k) @ mid @ replicate r 0" and "pk_entry pk = length pre"
    and "pk_data pk = Block v" and "pk_size pk = Some (int (length v))" and "length v \<le> r" and "length k \<le> XATTR_MAXNAMELEN" and "v \<noteq> []"
    and "unat (ah_start (pk_hdr pk) + ah_length (pk_hdr pk)) = ATTR_HDR_SIZE + length (pre @ entry_image le (stub k) @ mid)"
    and "ATTR_HDR_SIZE + length (pre @ entry_image le (stub k) @ mid) + length v \<le> ATTR_MAX_SIZE"
  shows "store_data le pk e = Some (pk\<lparr>pk_hdr := (pk_hdr pk)\<lparr>ah_length := ah_length (pk_hdr pk) + of_nat (length v)\<rparr>,
     pk_body := pre @ entry_image le (ah_start (pk_hdr pk) + ah_length (pk_hdr pk), of_nat (length v), to_bytes k) @ mid @ v @ replicate (r - length v) 0,
     pk_entry := length pre + ATTR_ENTRY_LENGTH (length k + 1), pk_data := Freed\<rparr>, e\<lparr>live := live e - 1\<rparr>)"
proof -
  let ?off = "ah_start (pk_hdr pk) + ah_length (pk_hdr pk)"
  let ?len = "of_nat (length v) :: u32"
  obtain T where T: "entry_image le (stub k) = replicate 4 0 @ replicate 4 0 @ T"
    "\<And>off len. entry_image le (off, len, to_bytes k) = store le 4 (unat off) @ store le 4 (unat len) @ T" using entry_tail by metis
  let ?R = "mid @ replicate r 0"
  let ?I = "entry_image le (?off, ?len, to_bytes k)"
  have a: "mblit (pk_body pk) (length pre + 4) (store le 4 (unat ?len)) = Some (pre @ replicate 4 0 @ store le 4 (unat ?len) @ T @ ?R)"
    using mblit_mid [of "store le 4 (unat ?len)" "replicate 4 0" "pre @ replicate 4 0" "T @ ?R"] by (simp add: assms(1) T(1))
  have b: "mblit (pre @ replicate 4 0 @ store le 4 (unat ?len) @ T @ ?R) (length pre) (store le 4 (unat ?off)) = Some (pre @ ?I @ ?R)"
    using mblit_mid [of "store le 4 (unat ?off)" "replicate 4 0" pre "store le 4 (unat ?len) @ T @ ?R"] by (simp add: T(2))
  have li: "length ?I = length (entry_image le (stub k))" by (simp add: T)
  have c: "mblit (pre @ ?I @ ?R) (unat ?off - ATTR_HDR_SIZE) v = Some (pre @ ?I @ mid @ v @ replicate (r - length v) 0)"
    using mblit_mid [of v "replicate r 0" "pre @ ?I @ mid" "[]"] assms(5,8) li by simp
  have d: "data_bytes (pk_data pk) (int (length v)) = Some v" using assms(3,7) by (simp add: data_bytes_def)
  have g: "\<not> (unat ?off > ATTR_MAX_SIZE \<or> int (unat ?off) + int (length v) > int ATTR_MAX_SIZE)" "\<not> unat ?off < ATTR_HDR_SIZE"
    unfolding assms(8) using assms(9) by simp_all
  have m: "mread (pre @ ?I @ Z) (length pre + ENTRY_NAMELEN) = Some (of_nat (length k + 1))" for Z
    using entry_namelen [of pre le ?off ?len "to_bytes k" Z] by simp
  have u: "unat (of_nat (length k + 1) :: byte) = length k + 1" using assms(6) by (intro unat_of_nat_byte) (simp add: ad_limits)
  show ?thesis
    unfolding store_data_def assms(2,4) Let_def nat_int_mod a b bind.bind_lunit if_not_P [OF g(1)] if_not_P [OF g(2)] d c
    using m [of "mid @ v @ replicate (r - length v) 0"] u assms(2,3) by (simp add: free_data_def bump_entry_def)
qed

type_synonym attrs = "(string \<times> byte list) list"

definition plain :: "attrs \<Rightarrow> attrs" where
  "plain as = filter (\<lambda>x. \<not> special (fst x)) as"

definition data_size :: "attrs \<Rightarrow> nat" where
  "data_size as = sum_list (map (\<lambda>x. length (snd x)) as)"

fun finfo_of :: "attrs \<Rightarrow> byte list \<Rightarrow> byte list" where
  "finfo_of [] f = f"
| "finfo_of ((k, v) # as) f = finfo_of as (if k = XATTR_FINDERINFO_NAME then v else f)"

text \<open>The entries for attributes whose data starts at \<open>off\<close>.\<close>

fun items :: "nat \<Rightarrow> attrs \<Rightarrow> attr_item list" where
  "items off [] = []"
| "items off ((k, v) # as) = (of_nat off, of_nat (length v), to_bytes k) # items (off + length v) as"

lemma plain_attrs_simps [simp]: "plain [] = []" "plain ((k, v) # as) = (if special k then plain as else (k, v) # plain as)"
  by (simp_all add: plain_def)

lemma data_size_simps [simp]: "data_size [] = 0" "data_size ((k, v) # as) = length v + data_size as"
  by (simp_all add: data_size_def)

lemma ordinary_plain: "ordinary (map fst as) = map fst (plain as)"
  by (induction as) auto

text \<open>
  Attributes the format can carry: names and data within the limits, no name that stands for something else in the file (\<open>q\<close> is
  that of the quarantine attribute), and nothing empty.
\<close>

definition packable :: "string \<Rightarrow> string \<times> byte list \<Rightarrow> bool" where
  "packable q x \<longleftrightarrow> (case x of (k, v) \<Rightarrow>
     NUL \<notin> set k \<and> k \<noteq> [] \<and> length k \<le> XATTR_MAXNAMELEN \<and> k \<noteq> XATTR_SECURITY_NAME \<and> k \<noteq> q \<and> v \<noteq> []
     \<and> (if k = XATTR_FINDERINFO_NAME then length v = FINDERINFOSIZE \<and> v \<noteq> emptyfinfo
        else if k = XATTR_RESOURCEFORK_NAME then length v < 2 ^ 31 else length v \<le> XATTR_MAXATTRLEN))"

lemma special_names [simp]: "special XATTR_FINDERINFO_NAME" "special XATTR_RESOURCEFORK_NAME" "XATTR_RESOURCEFORK_NAME \<noteq> XATTR_FINDERINFO_NAME"
  by (simp_all add: special_def xattr_names)

lemma pack_plain:
  fixes s :: "('q, 'cb) copyfile_state"
  assumes "packable q (k, v)" and "\<not> special k" and "map_of (att (wld e) (src_fd s)) k = Some v" and "qinfo s = None"
  shows "pack_name (ad_system q :: ('q, adw) ad_calls) le s k pk e = store_data le (pk\<lparr>pk_data := Block v, pk_size := Some (int (length v))\<rparr>) (e\<lparr>live := live e + 1\<rparr>)"
  using assms by (simp add: pack_name_def packable_def special_def new_block_def Let_def)

lemma pack_finder:
  fixes s :: "('q, 'cb) copyfile_state"
  assumes "packable q (XATTR_FINDERINFO_NAME, v)" and "map_of (att (wld e) (src_fd s)) XATTR_FINDERINFO_NAME = Some v" and "qinfo s = None"
    and "length (adh_finfo (pk_hdr pk)) = FINDERINFOSIZE"
  shows "pack_name (ad_system q :: ('q, adw) ad_calls) le s XATTR_FINDERINFO_NAME pk e
    = Some (pk\<lparr>pk_hdr := (pk_hdr pk)\<lparr>adh_finfo := v\<rparr>, pk_size := Some 32\<rparr>, e)"
  using assms by (simp add: pack_name_def packable_def mblit_def ad_limits)

lemma pack_resource:
  fixes s :: "('q, 'cb) copyfile_state"
  assumes "packable q (XATTR_RESOURCEFORK_NAME, v)" and "qinfo s = None"
  shows "pack_name (ad_system q :: ('q, adw) ad_calls) le s XATTR_RESOURCEFORK_NAME pk e = Some (pk\<lparr>pk_rsrc := True\<rparr>, e)"
  using assms by (simp add: pack_name_def packable_def)

text \<open>What the loop has to find, and what it makes.\<close>

definition ready :: "bool \<Rightarrow> attr_item list \<Rightarrow> byte list \<Rightarrow> nat \<Rightarrow> attrs \<Rightarrow> pack \<Rightarrow> bool" where
  "ready le I D r as pk \<longleftrightarrow>
     pk_body pk = entries_image le I @ entries_image le (map stub (map fst (plain as))) @ D @ replicate r 0
     \<and> pk_entry pk = length (entries_image le I)
     \<and> ah_start (pk_hdr pk) = of_nat (ATTR_HDR_SIZE + length (entries_image le I) + table_size (map fst (plain as)))
     \<and> ah_length (pk_hdr pk) = of_nat (length D) \<and> length (adh_finfo (pk_hdr pk)) = FINDERINFOSIZE
     \<and> data_size (plain as) \<le> r
     \<and> ATTR_HDR_SIZE + length (entries_image le I) + table_size (map fst (plain as)) + length D + data_size (plain as) \<le> ATTR_MAX_SIZE"

definition collected :: "bool \<Rightarrow> attr_item list \<Rightarrow> byte list \<Rightarrow> nat \<Rightarrow> attrs \<Rightarrow> pack \<Rightarrow> pack \<Rightarrow> bool" where
  "collected le I D r as pk pk' \<longleftrightarrow>
     pk_hdr pk' = (pk_hdr pk)\<lparr>adh_finfo := finfo_of as (adh_finfo (pk_hdr pk)), ah_length := of_nat (length D + data_size (plain as))\<rparr>
     \<and> pk_body pk' = entries_image le (I @ items (unat (ah_start (pk_hdr pk)) + length D) (plain as))
         @ D @ concat (map snd (plain as)) @ replicate (r - data_size (plain as)) 0
     \<and> pk_rsrc pk' = (pk_rsrc pk \<or> XATTR_RESOURCEFORK_NAME \<in> set (map fst as)) \<and> pk_error pk' = pk_error pk"

lemma entries_image_append [simp]: "entries_image le (xs @ ys) = entries_image le xs @ entries_image le ys"
  by (simp add: entries_image_def)

lemma data_loop_step:
  assumes "NUL \<notin> set k"
  shows "data_loop c le s (name_list (k # ks) @ z) (int (length (name_list (k # ks)))) pk e
    = do { (pk, e) \<leftarrow> pack_name c le s k pk e; data_loop c le s (name_list ks @ z) (int (length (name_list ks))) pk e }"
proof -
  have "\<not> int (length (name_list (k # ks))) \<le> 0" "int (length (name_list (k # ks))) - int (length k + 1) = int (length (name_list ks))"
    by (simp_all add: name_list_Cons)
  then show ?thesis by (subst data_loop.simps) (simp only: first_name [OF assms, of ks z] if_False not_False_eq_True simp_thms)
qed

lemma data_loop_collects:
  fixes s :: "('q, 'cb) copyfile_state"
  assumes "\<forall>x \<in> set as. packable q x \<and> map_of (att (wld e) (src_fd s)) (fst x) = Some (snd x)" and "qinfo s = None" and "ready le I D r as pk"
  shows "\<exists>pk'. data_loop (ad_system q :: ('q, adw) ad_calls) le s (name_list (map fst as) @ z) (int (length (name_list (map fst as)))) pk e = Some (pk', e)
    \<and> collected le I D r as pk pk'"
  using assms
proof (induction as arbitrary: I D r pk)
  case Nil
  then show ?case by (simp add: data_loop.simps ready_def collected_def)
next
  case (Cons x as)
  obtain k v where x: "x = (k, v)" by (cases x)
  have p: "packable q (k, v)" "map_of (att (wld e) (src_fd s)) k = Some v" and all: "\<forall>x \<in> set as. packable q x \<and> map_of (att (wld e) (src_fd s)) (fst x) = Some (snd x)"
    using Cons.prems(1) x by auto
  have nul: "NUL \<notin> set k" using p(1) by (simp add: packable_def)
  have step: "data_loop (ad_system q :: ('q, adw) ad_calls) le s (name_list (map fst (x # as)) @ z) (int (length (name_list (map fst (x # as))))) pk e
    = do { (pk, e) \<leftarrow> pack_name (ad_system q) le s k pk e; data_loop (ad_system q) le s (name_list (map fst as) @ z) (int (length (name_list (map fst as)))) pk e }"
    using data_loop_step [OF nul, of "ad_system q :: ('q, adw) ad_calls" le s "map fst as" z pk e] x by simp
  consider "k = XATTR_FINDERINFO_NAME" | "k = XATTR_RESOURCEFORK_NAME" | "\<not> special k" by (auto simp: special_def)
  then show ?case
  proof cases
    case 1
    let ?pk = "pk\<lparr>pk_hdr := (pk_hdr pk)\<lparr>adh_finfo := v\<rparr>, pk_size := Some 32\<rparr>"
    have r: "ready le I D r as ?pk" using Cons.prems(3) p(1) 1 x by (simp add: ready_def packable_def)
    have s: "pack_name (ad_system q :: ('q, adw) ad_calls) le s k pk e = Some (?pk, e)"
      using pack_finder [of q v e s pk le] p 1 Cons.prems(2,3) by (simp add: ready_def)
    obtain pk' where pk': "data_loop (ad_system q :: ('q, adw) ad_calls) le s (name_list (map fst as) @ z) (int (length (name_list (map fst as)))) ?pk e = Some (pk', e)"
      "collected le I D r as ?pk pk'" using Cons.IH [OF all Cons.prems(2) r] by blast
    have "collected le I D r (x # as) pk pk'" using pk'(2) 1 x by (simp add: collected_def)
    then show ?thesis unfolding step s using pk'(1) by simp
  next
    case 2
    let ?pk = "pk\<lparr>pk_rsrc := True\<rparr>"
    have r: "ready le I D r as ?pk" using Cons.prems(3) 2 x by (simp add: ready_def)
    have s: "pack_name (ad_system q :: ('q, adw) ad_calls) le s k pk e = Some (?pk, e)"
      using pack_resource [of q v s] p 2 Cons.prems(2) by simp
    obtain pk' where pk': "data_loop (ad_system q :: ('q, adw) ad_calls) le s (name_list (map fst as) @ z) (int (length (name_list (map fst as)))) ?pk e = Some (pk', e)"
      "collected le I D r as ?pk pk'" using Cons.IH [OF all Cons.prems(2) r] by blast
    have "collected le I D r (x # as) pk pk'" using pk'(2) 2 x by (simp add: collected_def)
    then show ?thesis unfolding step s using pk'(1) by simp
  next
    case 3
    let ?pka = "pk\<lparr>pk_data := Block v, pk_size := Some (int (length v))\<rparr>"
    let ?mid = "entries_image le (map stub (map fst (plain as))) @ D"
    let ?pre = "entries_image le I"
    let ?h = "pk_hdr pk"
    let ?off = "ah_start ?h + ah_length ?h"
    let ?it = "(?off, of_nat (length v) :: u32, to_bytes k)"
    let ?pk = "?pka\<lparr>pk_hdr := ?h\<lparr>ah_length := ah_length ?h + of_nat (length v)\<rparr>,
      pk_body := ?pre @ entry_image le ?it @ ?mid @ v @ replicate (r - length v) 0,
      pk_entry := length ?pre + ATTR_ENTRY_LENGTH (length k + 1), pk_data := Freed\<rparr>"
    let ?S = "ATTR_HDR_SIZE + length ?pre + table_size (map fst (plain (x # as)))"
    note rd = Cons.prems(3) [unfolded ready_def]
    have S: "?S = ATTR_HDR_SIZE + length (?pre @ entry_image le (stub k) @ entries_image le (map stub (map fst (plain as))))"
      using 3 x by (simp add: length_stub length_stubs del: map_map)
    have bnd: "?S + length D + (length v + data_size (plain as)) \<le> ATTR_MAX_SIZE" "length v + data_size (plain as) \<le> r"
      using rd 3 x by simp_all
    then have "length v \<le> r" "data_size (plain as) \<le> r - length v" by linarith+
    note bnd = bnd this
    have off: "?off = of_nat (?S + length D)" using rd by simp
    have uoff: "unat ?off = ?S + length D" unfolding off using bnd(1) by (intro unat_of_nat_u32) (simp add: ad_limits)
    have us: "unat (ah_start ?h) = ?S" using rd bnd(1) by (simp only:) (rule unat_of_nat_u32, simp add: ad_limits)
    have body: "pk_body ?pka = ?pre @ entry_image le (stub k) @ ?mid @ replicate r 0" "pk_entry ?pka = length ?pre" using rd 3 x by simp_all
    have o: "unat (ah_start (pk_hdr ?pka) + ah_length (pk_hdr ?pka)) = ATTR_HDR_SIZE + length (?pre @ entry_image le (stub k) @ ?mid)"
      using uoff S by simp
    have "store_data le ?pka (e\<lparr>live := live e + 1\<rparr>) = Some (?pka\<lparr>pk_hdr := (pk_hdr ?pka)\<lparr>ah_length := ah_length (pk_hdr ?pka) + of_nat (length v)\<rparr>,
       pk_body := ?pre @ entry_image le (ah_start (pk_hdr ?pka) + ah_length (pk_hdr ?pka), of_nat (length v), to_bytes k) @ ?mid @ v @ replicate (r - length v) 0,
       pk_entry := length ?pre + ATTR_ENTRY_LENGTH (length k + 1), pk_data := Freed\<rparr>, e\<lparr>live := live e + 1\<rparr>\<lparr>live := live (e\<lparr>live := live e + 1\<rparr>) - 1\<rparr>)"
      by (rule store_data_item [OF body]) (use bnd p(1) o uoff S in \<open>simp_all add: packable_def\<close>)
    then have s: "pack_name (ad_system q :: ('q, adw) ad_calls) le s k pk e = Some (?pk, e)"
      unfolding pack_plain [OF p(1) 3 p(2) Cons.prems(2), of le pk] by simp
    have it: "length (entry_image le ?it) = ATTR_ENTRY_LENGTH (length k + 1)" by (simp add: length_entry_image)
    have r: "ready le (I @ [?it]) (D @ v) (r - length v) as ?pk"
      using rd bnd 3 x it by (simp add: ready_def del: map_map)
    obtain pk' where pk': "data_loop (ad_system q :: ('q, adw) ad_calls) le s (name_list (map fst as) @ z) (int (length (name_list (map fst as)))) ?pk e = Some (pk', e)"
      "collected le (I @ [?it]) (D @ v) (r - length v) as ?pk pk'" using Cons.IH [OF all Cons.prems(2) r] by blast
    have "collected le I D r (x # as) pk pk'"
      using pk'(2) 3 x us off not_sym [of k XATTR_RESOURCEFORK_NAME] by (simp add: collected_def add.assoc special_def)
    then show ?thesis unfolding step s using pk'(1) by simp
  qed
qed

section \<open>What is written\<close>

definition fork :: "attrs \<Rightarrow> byte list" where
  "fork as = (case map_of as XATTR_RESOURCEFORK_NAME of None \<Rightarrow> [] | Some v \<Rightarrow> v)"

definition data_start :: "attrs \<Rightarrow> nat" where
  "data_start as = ATTR_HDR_SIZE + table_size (map fst (plain as))"

definition collected_header :: "u32 \<Rightarrow> attrs \<Rightarrow> attr_header" where
  "collected_header ino as = (pack_header ino)\<lparr>ah_count := of_nat (length (plain as)), ah_start := of_nat (data_start as),
     adh_finfo := finfo_of as emptyfinfo, ah_length := of_nat (data_size (plain as))\<rparr>"

definition archive_header :: "u32 \<Rightarrow> attrs \<Rightarrow> attr_header" where
  "archive_header ino as =
     (let h = finish_header (collected_header ino as)
      in h\<lparr>adh_entry1 := (adh_entry1 h)\<lparr>ad_length := of_nat (length (fork as))\<rparr>\<rparr>)"

definition archive_front :: "bool \<Rightarrow> u32 \<Rightarrow> attrs \<Rightarrow> byte list" where
  "archive_front le ino as =
     (if plain as = [] then concat (ad_fields le (archive_header ino as))
      else concat (ad_fields le (archive_header ino as) @ attr_fields le (archive_header ino as))
        @ entries_image le (items (data_start as) (plain as)) @ concat (map snd (plain as)))"

definition archive :: "u32 \<Rightarrow> attrs \<Rightarrow> byte list" where
  "archive ino as = archive_front False ino as @ fork as"

text \<open>Attributes that fit into the part of a file that \<open>copyfile_unpack\<close> reads.\<close>

definition archivable :: "string \<Rightarrow> attrs \<Rightarrow> bool" where
  "archivable q as \<longleftrightarrow> distinct (map fst as) \<and> (\<forall>x \<in> set as. packable q x) \<and> length (name_list (map fst as)) \<le> ATTR_MAX_HDR_SIZE
     \<and> data_start as + data_size (plain as) \<le> ATTR_MAX_HDR_SIZE"

lemma finfo_length: "\<forall>x \<in> set as. packable q x \<Longrightarrow> length f = FINDERINFOSIZE \<Longrightarrow> length (finfo_of as f) = FINDERINFOSIZE"
  by (induction as f rule: finfo_of.induct) (auto simp: packable_def)

lemma archive_header_ok:
  assumes "\<forall>x \<in> set as. packable q x"
  shows "sized_header (archive_header ino as)" "adh_magic (archive_header ino as) = of_nat ADH_MAGIC" "adh_num (archive_header ino as) = 2"
    "ah_magic (archive_header ino as) = of_nat ATTR_HDR_MAGIC" "ah_count (archive_header ino as) = of_nat (length (plain as))"
    "adh_finfo (archive_header ino as) = finfo_of as emptyfinfo" "adh_version (archive_header ino as) = of_nat ADH_VERSION"
    "ad_type (adh_entry0 (archive_header ino as)) = of_nat AD_FINDERINFO" "ad_offset (adh_entry0 (archive_header ino as)) = of_nat AD_FINFO"
    "ad_type (adh_entry1 (archive_header ino as)) = of_nat AD_RESOURCE" "ad_length (adh_entry1 (archive_header ino as)) = of_nat (length (fork as))"
  using finfo_length [OF assms, of emptyfinfo]
  by (simp_all add: archive_header_def finish_header_def collected_header_def pack_header_def zero_header_def sized_header_def Let_def
      emptyfinfo_def FINDERINFOSIZE_def ADH_MACOSX_def)

lemma data_positive:
  assumes "\<forall>x \<in> set as. packable q x" and "plain as \<noteq> []"
  shows "0 < data_size (plain as)"
proof -
  obtain k v r where r: "plain as = (k, v) # r" using assms(2) by (cases "plain as") auto
  then have "(k, v) \<in> set as" by (metis filter_is_subset list.set_intros(1) plain_def subsetD)
  then have "v \<noteq> []" using assms(1) by (auto simp: packable_def)
  then show ?thesis by (simp add: r)
qed

text \<open>Where the resource fork is, and what the size of the Finder information says.\<close>

lemma archive_offsets:
  assumes "archivable q as"
  shows "unat (ad_offset (adh_entry1 (archive_header ino as))) = (if plain as = [] then AD_PAD else data_start as + data_size (plain as))"
    and "unat (ad_length (adh_entry0 (archive_header ino as))) = (if plain as = [] then FINDERINFOSIZE else data_start as + data_size (plain as) - AD_FINFO)"
proof -
  let ?S = "data_start as"
  let ?D = "data_size (plain as)"
  have b: "?S + ?D \<le> ATTR_MAX_HDR_SIZE" and pk: "\<forall>x \<in> set as. packable q x" using assms by (simp_all add: archivable_def)
  have e: "unat (of_nat ?S + of_nat ?D :: u32) = ?S + ?D"
    unfolding of_nat_add [symmetric] using b by (intro unat_of_nat_u32) (simp add: ad_limits)
  have d: "unat (of_nat ?D :: u32) = ?D" using b by (intro unat_of_nat_u32) (simp add: ad_limits)
  have "AD_FINFO \<le> ?S + ?D" by (simp add: data_start_def layout)
  then have "(of_nat ?S + of_nat ?D :: u32) - of_nat AD_FINFO = of_nat (?S + ?D - AD_FINFO)" by (simp add: of_nat_diff)
  then have f: "unat ((of_nat ?S + of_nat ?D :: u32) - of_nat AD_FINFO) = ?S + ?D - AD_FINFO"
    using b by (simp only:) (intro unat_of_nat_u32, simp add: ad_limits)
  have z: "plain as = [] \<Longrightarrow> \<not> (0 :: u32) < of_nat ?D" by simp
  have p: "plain as \<noteq> [] \<Longrightarrow> (0 :: u32) < of_nat ?D" using data_positive [OF pk] d by (simp add: word_less_nat_alt)
  show "unat (ad_offset (adh_entry1 (archive_header ino as))) = (if plain as = [] then AD_PAD else ?S + ?D)"
    using z p e by (cases "plain as = []") (simp_all add: archive_header_def finish_header_def collected_header_def pack_header_def Let_def AD_PAD_def)
  show "unat (ad_length (adh_entry0 (archive_header ino as))) = (if plain as = [] then FINDERINFOSIZE else ?S + ?D - AD_FINFO)"
    using z p f by (cases "plain as = []") (simp_all add: archive_header_def finish_header_def collected_header_def pack_header_def Let_def FINDERINFOSIZE_def)
qed

lemma length_items: "length (items off as) = length as"
  by (induction off as rule: items.induct) simp_all

lemma length_items_image: "length (entries_image le (items off as)) = table_size (map fst as)"
  by (induction off as rule: items.induct) (simp_all add: length_entry_image)

lemma length_concat_data: "length (concat (map snd as)) = data_size as"
  by (induction as) auto

lemma length_front:
  assumes "archivable q as"
  shows "length (archive_front le ino as) = unat (ad_offset (adh_entry1 (archive_header ino as)))"
  using assms archive_offsets(1) [OF assms, of ino] length_fields [of "archive_header ino as" le le] length_ad_fields [of "archive_header ino as" le]
    archive_header_ok(1) [of as q ino]
  by (simp add: archive_front_def archivable_def length_items_image length_concat_data data_start_def layout)

section \<open>Packing\<close>

lemma items_fit: "\<forall>x \<in> set as. packable q x \<Longrightarrow> \<forall>y \<in> set (items off as). fits y"
  by (induction off as rule: items.induct) (auto simp: fits_def packable_def ad_limits)

lemma plain_subset: "set (plain as) \<subseteq> set as"
  by (auto simp: plain_def)

lemma fork_listed: "(XATTR_RESOURCEFORK_NAME \<in> set (map fst as)) = (map_of as XATTR_RESOURCEFORK_NAME \<noteq> None)"
  by (simp add: map_of_eq_None_iff)

lemma length_plain: "16 * length (plain as) \<le> table_size (map fst (plain as))" if "\<forall>x \<in> set as. packable q x"
proof -
  have "16 * length xs \<le> table_size (map fst xs)" if "\<forall>x \<in> set xs. packable q x" for xs
    using that
  proof (induction xs)
    case (Cons x xs)
    obtain k v where x: "x = (k, v)" by (cases x)
    have "1 \<le> length k" using Cons.prems x by (cases k) (auto simp: packable_def)
    then have "16 \<le> ATTR_ENTRY_LENGTH (length k + 1)" unfolding ATTR_ENTRY_LENGTH_def layout by presburger
    then show ?case using Cons x by simp
  qed simp
  then show ?thesis using that plain_subset [of as] by blast
qed

lemma archive_count:
  assumes "archivable q as"
  shows "unat (ah_count (archive_header ino as)) = length (plain as)"
proof -
  have pk: "\<forall>x \<in> set as. packable q x" using assms by (simp add: archivable_def)
  have "length (plain as) < 2 ^ 16" using length_plain [OF pk] assms by (simp add: archivable_def data_start_def ad_limits)
  then show ?thesis using archive_header_ok(5) [OF pk, of ino] by (simp add: unat_of_nat take_bit_nat_eq_self)
qed

text \<open>The names of the attributes become entries.\<close>

lemma pack_names_stubs:
  fixes s :: "('q, 'cb) copyfile_state"
  assumes "short_names (map fst (att (wld e) (src_fd s)))" and "length (name_list (map fst (att (wld e) (src_fd s)))) \<le> ATTR_MAX_HDR_SIZE"
    and "data_start (att (wld e) (src_fd s)) < ATTR_MAX_SIZE"
    and "flagged COPYFILE_XATTR (cf_flags s)" and "\<not> flagged COPYFILE_ACL (cf_flags s)" and "qinfo s = None"
  shows "\<exists>z. pack_names (ad_system q :: ('q, adw) ad_calls) s (pack_header ino) (replicate (ATTR_MAX_SIZE - ATTR_HDR_SIZE) 0) e
    = Some (Inr (name_list (map fst (att (wld e) (src_fd s))) @ z, int (length (name_list (map fst (att (wld e) (src_fd s))))),
        (pack_header ino)\<lparr>ah_count := of_nat (length (plain (att (wld e) (src_fd s)))), ah_start := of_nat (data_start (att (wld e) (src_fd s)))\<rparr>,
        entries_image le (map stub (map fst (plain (att (wld e) (src_fd s)))))
          @ replicate (ATTR_MAX_SIZE - ATTR_HDR_SIZE - table_size (map fst (plain (att (wld e) (src_fd s))))) 0), e)"
proof -
  let ?as = "att (wld e) (src_fd s)"
  let ?l = "name_list (map fst ?as)"
  let ?z = "replicate (ATTR_MAX_HDR_SIZE - length ?l) NUL"
  have b: "mblit (replicate ATTR_MAX_HDR_SIZE NUL) 0 ?l = Some (?l @ ?z)" using assms(2) by (simp add: mblit_def)
  have n: "names_loop q (?l @ ?z) (int (length ?l)) (length ([] :: byte list)) (pack_header ino) ([] @ replicate (ATTR_MAX_SIZE - ATTR_HDR_SIZE) 0) False
      = Some (Inr ((pack_header ino)\<lparr>ah_count := ah_count (pack_header ino) + of_nat (length (ordinary (map fst ?as))),
          ah_start := ah_start (pack_header ino) + of_nat (table_size (ordinary (map fst ?as)))\<rparr>,
        [] @ entries_image le (map stub (ordinary (map fst ?as))) @ replicate (ATTR_MAX_SIZE - ATTR_HDR_SIZE - table_size (ordinary (map fst ?as))) 0,
        False \<or> q \<in> set (ordinary (map fst ?as))))"
    using assms(1,3) by (intro names_loop_stubs) (simp_all add: ordinary_plain data_start_def)
  have h: "ah_count (pack_header ino) = 0" "ah_start (pack_header ino) = of_nat ATTR_HDR_SIZE" by (simp_all add: pack_header_def zero_header_def)
  show ?thesis
    using assms(2,4-6) b n by (intro exI [of _ ?z]) (simp add: pack_names_def acl_prefix_def ordinary_plain h data_start_def del: map_map)
qed

lemma archivable_names:
  assumes "archivable q as"
  shows "short_names (map fst as)" and "length (name_list (map fst as)) \<le> ATTR_MAX_HDR_SIZE" and "data_start as < ATTR_MAX_SIZE"
  using assms by (force simp: archivable_def short_names_def packable_def ad_limits)+

text \<open>The two writes at the end: the resource fork behind what the header takes, and then the header.\<close>

lemma fork_then_front: "pwrite_at (pwrite_at [] (length d) v) 0 d = d @ v" and only_front: "pwrite_at [] 0 d = d"
  by (simp_all add: pwrite_at_def)

lemma write_front:
  fixes s :: "('q, 'cb) copyfile_state"
  assumes "archivable q as"
  shows "write_header (ad_system q' :: ('q, adw) ad_calls) le s (unat (ad_offset (adh_entry1 (archive_header ino as))))
      (header_image le (archive_header ino as) @ entries_image le (items (data_start as) (plain as)) @ concat (map snd (plain as)) @ r) e
    = Some (True, e\<lparr>wld := (wld e)\<lparr>cont := (cont (wld e))(dst_fd s := pwrite_at (cont (wld e) (dst_fd s)) 0 (archive_front False ino as))\<rparr>\<rparr>)"
proof -
  let ?h = "archive_header ino as"
  let ?I = "\<lambda>le. entries_image le (items (data_start as) (plain as))"
  let ?r = "concat (map snd (plain as)) @ r"
  have pk: "\<forall>x \<in> set as. packable q x" using assms by (simp add: archivable_def)
  note ok = archive_header_ok [OF pk, of ino]
  have a: "swap_adhdr le (header_image le ?h @ ?I le @ ?r) = Some (concat (ad_fields False ?h @ attr_fields le ?h) @ ?I le @ ?r)"
    using swap_adhdr_both(2) [OF ok(2,3,1), of le "concat (attr_fields le ?h) @ ?I le @ ?r"] by (simp add: header_image_def)
  have "\<forall>y \<in> set (items (data_start as) (plain as)). fits y" using pk plain_subset [of as] by (intro items_fit [of _ q]) blast
  then have b: "swap_attrhdr le (concat (ad_fields False ?h @ attr_fields le ?h) @ ?I le @ ?r)
      = Some (concat (ad_fields False ?h @ attr_fields False ?h) @ ?I False @ ?r)"
    using archive_count [OF assms, of ino] by (intro swap_attrhdr_both(2)) (simp_all add: ok length_items)
  have c: "mslice (concat (ad_fields False ?h @ attr_fields False ?h) @ ?I False @ ?r) 0 (length (archive_front False ino as)) = Some (archive_front False ino as)"
    by (auto simp: mslice_def archive_front_def)
  show ?thesis
    using a b c by (simp add: write_header_def length_front [OF assms, of False ino, symmetric])
qed

lemma no_fork_header: "fork as = [] \<Longrightarrow> archive_header ino as = finish_header (collected_header ino as)"
proof -
  assume f: "fork as = []"
  have "ad_length (adh_entry1 (finish_header (collected_header ino as))) = 0"
    by (simp add: finish_header_def collected_header_def pack_header_def Let_def)
  then have "(adh_entry1 (finish_header (collected_header ino as)))\<lparr>ad_length := 0\<rparr> = adh_entry1 (finish_header (collected_header ino as))"
    by simp
  then show ?thesis using f by (simp add: archive_header_def Let_def)
qed

lemma fork_size:
  assumes "\<forall>x \<in> set as. packable q x" and "map_of as XATTR_RESOURCEFORK_NAME = Some v"
  shows "fork as = v" and "v \<noteq> []" and "length v < 2 ^ 31"
  using assms(1) map_of_SomeD [OF assms(2)] assms(2) by (auto simp: fork_def packable_def)

lemma pack_fork:
  fixes s :: "('q, 'cb) copyfile_state"
  assumes "\<forall>x \<in> set (att (wld e) (src_fd s)). packable q x" and "map_of (att (wld e) (src_fd s)) XATTR_RESOURCEFORK_NAME = Some v"
  shows "copyfile_pack_rsrcfork (ad_system q :: ('q, adw) ad_calls) s (finish_header (collected_header ino (att (wld e) (src_fd s)))) e
    = (0, s, archive_header ino (att (wld e) (src_fd s)), e\<lparr>wld := (wld e)\<lparr>cont := (cont (wld e))(dst_fd s :=
        pwrite_at (cont (wld e) (dst_fd s)) (unat (ad_offset (adh_entry1 (archive_header ino (att (wld e) (src_fd s)))))) v)\<rparr>\<rparr>)"
  using fork_size [OF assms] assms(2) by (simp add: copyfile_pack_rsrcfork_def new_block_def archive_header_def Let_def)

lemma pack_file_archives:
  fixes s :: "('q, 'cb) copyfile_state"
  assumes "archivable q (att (wld e) (src_fd s))" and "flagged COPYFILE_XATTR (cf_flags s)" and "\<not> flagged COPYFILE_ACL (cf_flags s)" and "qinfo s = None"
    and "cont (wld e) (dst_fd s) = []"
  shows "pack_file (ad_system q :: ('q, adw) ad_calls) le s e
    = Some (0, s, e\<lparr>wld := (wld e)\<lparr>cont := (cont (wld e))(dst_fd s := archive (st_ino (sb s)) (att (wld e) (src_fd s)))\<rparr>\<rparr>)"
proof -
  let ?as = "att (wld e) (src_fd s)"
  let ?ino = "st_ino (sb s)"
  let ?h = "archive_header ?ino ?as"
  let ?o = "unat (ad_offset (adh_entry1 ?h))"
  let ?r = "ATTR_MAX_SIZE - ATTR_HDR_SIZE - table_size (map fst (plain ?as))"
  have pk: "\<forall>x \<in> set ?as. packable q x" and dist: "distinct (map fst ?as)" using assms(1) by (simp_all add: archivable_def)
  let ?c = "(pack_header ?ino)\<lparr>ah_count := of_nat (length (plain ?as)), ah_start := of_nat (data_start ?as)\<rparr>"
  let ?B = "entries_image le (map stub (map fst (plain ?as))) @ replicate ?r 0"
  let ?pk = "\<lparr>pk_hdr = ?c, pk_body = ?B, pk_entry = 0, pk_data = Null_ptr, pk_size = None, pk_rsrc = False, pk_error = 0\<rparr>"
  obtain z where n: "pack_names (ad_system q :: ('q, adw) ad_calls) s (pack_header ?ino) (replicate (ATTR_MAX_SIZE - ATTR_HDR_SIZE) 0) e
      = Some (Inr (name_list (map fst ?as) @ z, int (length (name_list (map fst ?as))), ?c, ?B), e)"
    using pack_names_stubs [OF archivable_names [OF assms(1)] assms(2-4), of q ?ino le] by blast
  have f0: "adh_finfo ?c = emptyfinfo" by (simp add: pack_header_def zero_header_def emptyfinfo_def)
  have "data_start ?as + data_size (plain ?as) \<le> ATTR_MAX_HDR_SIZE" using assms(1) by (simp add: archivable_def)
  then have "data_size (plain ?as) \<le> ?r" unfolding data_start_def ad_limits layout by linarith
  then have "ready le [] [] ?r ?as ?pk"
    using assms(1) f0 by (simp add: ready_def archivable_def data_start_def pack_header_def zero_header_def ad_limits emptyfinfo_def)
  moreover have "\<forall>x \<in> set ?as. packable q x \<and> map_of ?as (fst x) = Some (snd x)" using pk dist by auto
  ultimately obtain pk' where l: "data_loop (ad_system q :: ('q, adw) ad_calls) le s (name_list (map fst ?as) @ z) (int (length (name_list (map fst ?as)))) ?pk e = Some (pk', e)"
    and c: "collected le [] [] ?r ?as ?pk pk'" using data_loop_collects [OF _ assms(4)] by blast
  have us: "unat (of_nat (data_start ?as) :: u32) = data_start ?as"
    using assms(1) by (intro unat_of_nat_u32) (simp add: archivable_def ad_limits)
  have hdr: "pk_hdr pk' = collected_header ?ino ?as" using c f0 by (simp add: collected_def collected_header_def)
  obtain w where body: "pk_body pk' = entries_image le (items (data_start ?as) (plain ?as)) @ concat (map snd (plain ?as)) @ w"
    using c us by (auto simp: collected_def)
  have rs: "pk_rsrc pk' = (map_of ?as XATTR_RESOURCEFORK_NAME \<noteq> None)" "pk_error pk' = 0"
    using c fork_listed [of ?as] by (simp_all add: collected_def)
  note wr = write_front [OF assms(1), of q le s ?ino w]
  have lf: "?o = length (archive_front False ?ino ?as)" using length_front [OF assms(1)] by simp
  show ?thesis
  proof (cases "map_of ?as XATTR_RESOURCEFORK_NAME")
    case None
    then have fk: "fork ?as = []" by (simp add: fork_def)
    show ?thesis
      using n l rs None wr [of e] hdr body no_fork_header [OF fk, of ?ino, symmetric] assms(5)
      by (simp add: pack_file_def archive_def fk only_front)
  next
    case (Some v)
    let ?e = "e\<lparr>wld := (wld e)\<lparr>cont := (cont (wld e))(dst_fd s := pwrite_at (cont (wld e) (dst_fd s)) ?o v)\<rparr>\<rparr>"
    have fk: "fork ?as = v" using fork_size(1) [OF pk Some] .
    show ?thesis
      using n l rs Some wr [of ?e] hdr body pack_fork [OF pk Some, of ?ino] assms(5) fork_then_front [of "archive_front False ?ino ?as" v]
      by (simp add: pack_file_def archive_def fk lf)
  qed
qed

section \<open>Unpacking\<close>

lemma update_fresh: "k \<notin> fst ` set l \<Longrightarrow> AList.update k v l = l @ [(k, v)]"
  by (induction l) auto

lemma delete_all: "fold AList.delete ks l = filter (\<lambda>x. fst x \<notin> set ks) l"
proof (induction ks arbitrary: l)
  case (Cons k ks)
  have "AList.delete k l = filter (\<lambda>x. fst x \<noteq> k) l" by (auto simp: AList.delete_eq intro: filter_cong)
  then show ?case using Cons by simp
qed simp

lemma clear_listed:
  "good_names ks \<Longrightarrow> clear_loop att_calls fd (name_list ks) e
     = Some (e\<lparr>wld := (wld e)\<lparr>att := (att (wld e))(fd := fold AList.delete ks (att (wld e) fd))\<rparr>\<rparr>)"
proof (induction ks arbitrary: e)
  case (Cons k ks)
  then have g: "NUL \<notin> set k" "good_names ks" by (auto simp: good_names_def)
  let ?e = "e\<lparr>wld := (wld e)\<lparr>att := (att (wld e))(fd := AList.delete k (att (wld e) fd))\<rparr>\<rparr>"
  have "NUL \<in> set (name_list (k # ks))" by (simp add: name_list_Cons)
  then have "clear_loop att_calls fd (name_list (k # ks)) e = clear_loop att_calls fd (name_list ks) ?e"
    using name_list_walk [OF g(1), of ks] by (subst clear_loop.simps) simp
  then show ?case using Cons.IH [OF g(2), of ?e] by (simp cong: if_cong)
qed (simp add: clear_loop.simps)

lemma unpack_clear_all:
  fixes s :: "('q, 'cb) copyfile_state"
  assumes "good_names (map fst (att (wld e) (dst_fd s)))" and "flagged COPYFILE_XATTR (cf_flags s)"
  shows "unpack_clear (ad_system q :: ('q, adw) ad_calls) s e = Some (Inr (), s, e\<lparr>wld := (wld e)\<lparr>att := (att (wld e))(dst_fd s := [])\<rparr>\<rparr>)"
proof -
  let ?l = "att (wld e) (dst_fd s)"
  have d: "fold AList.delete (map fst ?l) ?l = []" by (simp add: delete_all filter_empty_conv)
  show ?thesis
  proof (cases "?l = []")
    case True
    then have "e\<lparr>wld := (wld e)\<lparr>att := (att (wld e))(dst_fd s := [])\<rparr>\<rparr> = e" by (simp add: fun_upd_idem)
    then show ?thesis using assms(2) True by (simp add: unpack_clear_def)
  next
    case False
    then have "length (name_list (map fst ?l)) > 0" by (cases ?l) (simp_all add: name_list_Cons)
    then show ?thesis using assms clear_listed [OF assms(1), of "dst_fd s" "e\<lparr>live := live e + 1\<rparr>"] d
      by (simp add: unpack_clear_def new_block_def)
  qed
qed

text \<open>The data of attributes lies one after the other from \<open>off\<close>.\<close>

fun data_at :: "byte list \<Rightarrow> nat \<Rightarrow> attrs \<Rightarrow> bool" where
  "data_at m off [] = True"
| "data_at m off ((k, v) # as) = (off + length v \<le> length m \<and> take (length v) (drop off m) = v \<and> data_at m (off + length v) as)"

lemma data_at_concat: "data_at (pre @ concat (map snd as) @ post) (length pre) as"
proof (induction as arbitrary: pre)
  case (Cons x as)
  then show ?case using Cons.IH [of "pre @ snd x"] by (cases x) simp
qed simp

lemma check_item:
  fixes base :: "'a::len word"
  assumes "m = pre @ entry_image le (of_nat off, of_nat (length v), to_bytes k) @ post" and "packable q (k, v)"
    and "off + length v \<le> length m" and "length m \<le> ATTR_MAX_HDR_SIZE" and "unat base + length m < 2 ^ LENGTH('a)" and "32 \<le> LENGTH('a)"
  shows "check_entry le base m (length pre) = Some (Some (length k + 1, k, off, length v))"
proof -
  let ?z = "ATTR_ENTRY_LENGTH (length k + 1) - ENTRY_NAME - length k"
  have nul: "NUL \<notin> set k" and k: "k \<noteq> []" "length k \<le> 127" using assms(2) by (simp_all add: packable_def ad_limits)
  have z: "?z = Suc (?z - 1)" using ATTR_ENTRY_LENGTH_bounds(1) [of "length k + 1"] by (simp add: layout)
  have o: "unat (of_nat off :: u32) = off" "unat (of_nat (length v) :: u32) = length v"
    using assms(3,4) by (auto intro!: unat_of_nat_u32 simp: ad_limits)
  obtain x where img: "entry_image le (of_nat off, of_nat (length v), to_bytes k) = store le 4 off @ store le 4 (length v) @ replicate 2 0 @ of_nat (length k + 1) # to_bytes k @ 0 # x"
    using z o by (auto simp: entry_image_def)
  have m: "m = concat [pre, store le 4 off, store le 4 (length v), replicate 2 0, [of_nat (length k + 1)], to_bytes k, [0]] @ x @ post"
    unfolding assms(1) img by simp
  have b: "off < 256 ^ 4" "length v < 256 ^ 4" using assms(3,4) by (simp_all add: ad_limits)
  have "ld le 4 m (length pre) = Some (load le (store le 4 off))" unfolding m by (subst ld_field [where i = 1]) simp_all
  then have l1: "ld le 4 m (length pre) = Some off" using load_store [OF b(1)] by simp
  have "ld le 4 m (length pre + 4) = Some (load le (store le 4 (length v)))" unfolding m by (subst ld_field [where i = 2]) simp_all
  then have l2: "ld le 4 m (length pre + 4) = Some (length v)" using load_store [OF b(2)] by simp
  have n: "mread m (length pre + ENTRY_NAMELEN) = Some (of_nat (length k + 1))" unfolding m by (simp add: mread_def layout nth_append)
  have t: "mread m (length pre + ENTRY_NAME + (length k + 1) - 1) = Some 0" unfolding m by (simp add: mread_def layout nth_append)
  have d: "drop (length pre + ENTRY_NAME) m = to_bytes k @ 0 # x @ post" unfolding m by (simp add: layout)
  have ov: "\<not> data_overflows base (length m) off (length v)"
    by (subst data_overflows_iff) (use assms(3-6) in \<open>simp_all add: ad_limits\<close>)
  have u: "unat (of_nat (length k + 1) :: byte) = length k + 1" using k by (intro unat_of_nat_byte) simp
  have s: "\<not> length m \<le> length pre" "\<not> length pre + ENTRY_SIZE > length m" "\<not> length pre + ENTRY_NAME + (length k + 1) > length m"
    unfolding m using k by (simp_all add: layout Suc_le_eq)
  have kk: "\<not> length k + 1 < 2" "\<not> length k + 1 > XATTR_MAXNAMELEN + 1" using k by (simp_all add: ad_limits Suc_le_eq)
  show ?thesis
    unfolding check_entry_def if_not_P [OF s(1)] if_not_P [OF s(2)] n bind.bind_lunit Let_def u if_not_P [OF kk(1)] if_not_P [OF kk(2)] if_not_P [OF s(3)] t l1 l2 d
    using ov by (simp add: c_string_bytes [OF nul] to_name_bytes)
qed

lemma unpack_items:
  fixes base :: "'a::len word" and s :: "('q, 'cb) copyfile_state"
  assumes "m = pre @ entries_image le (items off as) @ post" and "\<forall>x \<in> set as. packable q x \<and> \<not> special (fst x)" and "data_at m off as"
    and "distinct (map fst as)" and "fst ` set (att (wld e) (dst_fd s)) \<inter> fst ` set as = {}"
    and "length m \<le> ATTR_MAX_HDR_SIZE" and "unat base + length m < 2 ^ LENGTH('a)" and "32 \<le> LENGTH('a)"
    and "flagged COPYFILE_XATTR (cf_flags s)" and "\<not> flagged COPYFILE_ACL (cf_flags s)"
  shows "unpack_entries (ad_system q :: ('q, adw) ad_calls) le base m (length as) (length pre) s e
    = Some (Inr (), s, e\<lparr>wld := (wld e)\<lparr>att := (att (wld e))(dst_fd s := att (wld e) (dst_fd s) @ as)\<rparr>\<rparr>)"
  using assms(1-5)
proof (induction as arbitrary: pre off e)
  case Nil
  then show ?case by simp
next
  case (Cons x as)
  obtain k v where x: "x = (k, v)" by (cases x)
  let ?it = "entry_image le (of_nat off, of_nat (length v), to_bytes k)"
  let ?d = "att (wld e) (dst_fd s)"
  let ?e = "e\<lparr>wld := (wld e)\<lparr>att := (att (wld e))(dst_fd s := ?d @ [(k, v)])\<rparr>\<rparr>"
  have p: "packable q (k, v)" using Cons.prems(2) x by simp
  have d: "off + length v \<le> length m" "take (length v) (drop off m) = v" "data_at m (off + length v) as" using Cons.prems(3) x by simp_all
  have m: "m = pre @ ?it @ (entries_image le (items (off + length v) as) @ post)" using Cons.prems(1) x by simp
  have c: "check_entry le base m (length pre) = Some (Some (length k + 1, k, off, length v))"
    by (rule check_item [OF m p d(1) assms(6-8)])
  have "k \<notin> fst ` set ?d" using Cons.prems(5) x by auto
  then have u: "AList.update k v ?d = ?d @ [(k, v)]" by (rule update_fresh)
  have s: "unpack_entry (ad_system q :: ('q, adw) ad_calls) base m k off (length v) s e = Some (Inr (), s, ?e)"
    using p assms(9,10) d(1,2) u by (simp add: unpack_entry_def packable_def mslice_def)
  have l: "length pre + ATTR_ENTRY_LENGTH (length k + 1) = length (pre @ ?it)" by (simp add: length_entry_image)
  have "unpack_entries (ad_system q :: ('q, adw) ad_calls) le base m (length as) (length (pre @ ?it)) s ?e
    = Some (Inr (), s, ?e\<lparr>wld := (wld ?e)\<lparr>att := (att (wld ?e))(dst_fd s := att (wld ?e) (dst_fd s) @ as)\<rparr>\<rparr>)"
    by (rule Cons.IH) (use m Cons.prems x d(3) in auto)
  then show ?case using c s l x by (simp add: fun_upd_def cong: if_cong)
qed

text \<open>The buffer: what the headers and the data of the attributes take, and a part of the resource fork.\<close>

lemma front_prefix: "\<exists>r'. archive_front le ino as @ r = concat (ad_fields le (archive_header ino as)) @ r'"
  by (cases "plain as = []") (simp_all add: archive_front_def)

lemma front_ok:
  assumes "archivable q as"
  shows "apple_double_ok (archive_front False ino as @ r) = Some True"
proof -
  have pk: "\<forall>x \<in> set as. packable q x" using assms by (simp add: archivable_def)
  note ok = archive_header_ok [OF pk, of ino]
  obtain r' where r': "archive_front False ino as @ r = concat (ad_fields False (archive_header ino as)) @ r'" using front_prefix by blast
  show ?thesis
    unfolding r' apple_double_ok_def using ld_ad_field(1,7,8,9) [OF ok(1), of False r'] length_ad_fields [OF ok(1), of False] ok
    by (simp add: AD_PAD_def ADH_MAGIC_def ADH_VERSION_def AD_FINDERINFO_def)
qed

lemma ld_front:
  assumes "archivable q as"
  shows "ld le 4 (archive_front le ino as @ r) (AD_ENTRY 0 + 4) = Some AD_FINFO"
    and "ld le 4 (archive_front le ino as @ r) (AD_ENTRY 1) = Some AD_RESOURCE"
    and "ld le 4 (archive_front le ino as @ r) (AD_ENTRY 1 + 4) = Some (length (archive_front le ino as))"
    and "ld le 4 (archive_front le ino as @ r) (AD_ENTRY 1 + 8) = Some (unat (of_nat (length (fork as)) :: u32))"
    and "mslice (archive_front le ino as @ r) AD_FINFO 32 = Some (finfo_of as emptyfinfo)"
proof -
  have pk: "\<forall>x \<in> set as. packable q x" using assms by (simp add: archivable_def)
  note ok = archive_header_ok [OF pk, of ino]
  let ?h = "archive_header ino as"
  obtain r' where r': "archive_front le ino as @ r = concat (ad_fields le ?h) @ r'" using front_prefix by blast
  note l = ld_ad_field [OF ok(1), of le r']
  show "ld le 4 (archive_front le ino as @ r) (AD_ENTRY 0 + 4) = Some AD_FINFO" "ld le 4 (archive_front le ino as @ r) (AD_ENTRY 1) = Some AD_RESOURCE"
    "ld le 4 (archive_front le ino as @ r) (AD_ENTRY 1 + 4) = Some (length (archive_front le ino as))"
    "ld le 4 (archive_front le ino as @ r) (AD_ENTRY 1 + 8) = Some (unat (of_nat (length (fork as)) :: u32))"
    unfolding r' using l ok length_front [OF assms, of le ino] by (simp_all add: AD_FINFO_def AD_RESOURCE_def)
  have "concat (ad_fields le ?h) @ r' = concat (take 10 (ad_fields le ?h)) @ adh_finfo ?h @ r'" by (simp add: ad_fields_def)
  moreover have "length (concat (take 10 (ad_fields le ?h))) = AD_FINFO" "length (adh_finfo ?h) = 32"
    using ok(1) by (simp_all add: ad_fields_def sized_header_def layout)
  ultimately show "mslice (archive_front le ino as @ r) AD_FINFO 32 = Some (finfo_of as emptyfinfo)"
    unfolding r' using ok(6) by (simp add: mslice_def)
qed

text \<open>The buffer after the AppleDouble header was swapped and the attribute header not yet.\<close>

definition half_swapped :: "bool \<Rightarrow> u32 \<Rightarrow> attrs \<Rightarrow> byte list" where
  "half_swapped le ino as =
     (if plain as = [] then concat (ad_fields le (archive_header ino as))
      else concat (ad_fields le (archive_header ino as) @ attr_fields False (archive_header ino as))
        @ entries_image False (items (data_start as) (plain as)) @ concat (map snd (plain as)))"

lemma swap_front:
  assumes "archivable q as"
  shows "swap_adhdr le (archive_front False ino as @ r) = Some (half_swapped le ino as @ r)"
proof -
  have pk: "\<forall>x \<in> set as. packable q x" using assms by (simp add: archivable_def)
  note ok = archive_header_ok [OF pk, of ino]
  show ?thesis using swap_adhdr_both(1) [OF ok(2,3,1)] by (cases "plain as = []") (simp_all add: archive_front_def half_swapped_def)
qed

lemma unpack_attrs_archive:
  fixes base :: "'a::len word" and s :: "('q, 'cb) copyfile_state"
  assumes "archivable q as" and "att (wld e) (dst_fd s) = []" and "flagged COPYFILE_XATTR (cf_flags s)" and "\<not> flagged COPYFILE_ACL (cf_flags s)"
    and "length (archive_front le ino as @ r) \<le> ATTR_MAX_HDR_SIZE" and "unat base + ATTR_MAX_HDR_SIZE < 2 ^ LENGTH('a)" and "32 \<le> LENGTH('a)"
  shows "unpack_attrs (ad_system q :: ('q, adw) ad_calls) le base (half_swapped le ino as @ r) s e
    = Some (Inr (archive_front le ino as @ r), s, e\<lparr>wld := (wld e)\<lparr>att := (att (wld e))(dst_fd s := plain as)\<rparr>\<rparr>)"
proof -
  let ?h = "archive_header ino as"
  let ?x = "items (data_start as) (plain as)"
  have pk: "\<forall>x \<in> set as. packable q x" and dist: "distinct (map fst as)" using assms(1) by (simp_all add: archivable_def)
  note ok = archive_header_ok [OF pk, of ino]
  obtain r' where r': "half_swapped le ino as @ r = concat (ad_fields le ?h) @ r'"
    by (cases "plain as = []") (simp_all add: half_swapped_def)
  have l0: "ld le 4 (half_swapped le ino as @ r) (AD_ENTRY 0 + 8) = Some (if plain as = [] then FINDERINFOSIZE else data_start as + data_size (plain as) - AD_FINFO)"
    unfolding r' using ld_ad_field(3) [OF ok(1), of le r'] archive_offsets(2) [OF assms(1), of ino] by simp
  show ?thesis
  proof (cases "plain as = []")
    case True
    then have "e\<lparr>wld := (wld e)\<lparr>att := (att (wld e))(dst_fd s := plain as)\<rparr>\<rparr> = e" using assms(2) by (simp add: fun_upd_idem)
    then show ?thesis using True l0 by (simp add: unpack_attrs_def half_swapped_def archive_front_def)
  next
    case False
    let ?d = "concat (map snd (plain as)) @ r"
    let ?b = "concat (ad_fields le ?h @ attr_fields le ?h)"
    have h: "half_swapped le ino as @ r = concat (ad_fields le ?h @ attr_fields False ?h) @ entries_image False ?x @ ?d"
      and f: "archive_front le ino as @ r = ?b @ entries_image le ?x @ ?d" using False by (simp_all add: half_swapped_def archive_front_def)
    have "\<forall>y \<in> set ?x. fits y" using pk plain_subset [of as] by (intro items_fit [of _ q]) blast
    then have w: "swap_attrhdr le (half_swapped le ino as @ r) = Some (archive_front le ino as @ r)"
      unfolding h f using archive_count [OF assms(1), of ino] by (intro swap_attrhdr_both(1)) (simp_all add: ok length_items)
    have g: "ld le 4 (archive_front le ino as @ r) ATTR_HDR = Some ATTR_HDR_MAGIC" "ld le 2 (archive_front le ino as @ r) ATTR_COUNT = Some (length (plain as))"
      unfolding f using ld_attr_field [OF ok(1), of le le "entries_image le ?x @ ?d"] ok(4) archive_count [OF assms(1), of ino] by (simp_all add: ATTR_HDR_MAGIC_def)
    have b: "length ?b = ATTR_HDR_SIZE" by (rule length_fields [OF ok(1)])
    have da: "data_at (archive_front le ino as @ r) (data_start as) (plain as)"
    proof -
      have "length (?b @ entries_image le ?x) = data_start as" by (simp only: length_append [of ?b] b length_items_image data_start_def)
      then show ?thesis using data_at_concat [of "?b @ entries_image le ?x" "plain as" r] unfolding f by (simp only: append_assoc)
    qed
    have "unpack_entries (ad_system q :: ('q, adw) ad_calls) le base (archive_front le ino as @ r) (length (plain as)) (length ?b) s e
      = Some (Inr (), s, e\<lparr>wld := (wld e)\<lparr>att := (att (wld e))(dst_fd s := att (wld e) (dst_fd s) @ plain as)\<rparr>\<rparr>)"
      by (rule unpack_items [OF f _ da]) (use assms pk dist in \<open>auto simp: plain_def distinct_map intro: inj_on_subset\<close>)
    moreover have n: "\<not> data_start as + data_size (plain as) - AD_FINFO \<le> FINDERINFOSIZE" by (simp add: data_start_def layout FINDERINFOSIZE_def)
    moreover have "length (half_swapped le ino as @ r) = length (archive_front le ino as @ r)"
      unfolding h f using length_fields [OF ok(1), of le False] b by (simp add: length_items_image)
    then have "\<not> length (half_swapped le ino as @ r) < ATTR_HDR_SIZE" unfolding f using b by simp
    ultimately show ?thesis using w g l0 False b assms(2) by (simp add: unpack_attrs_def)
  qed
qed

text \<open>The attributes as they are set: those with an entry, then the Finder information and the resource fork.\<close>

definition at_name :: "string \<Rightarrow> attrs \<Rightarrow> attrs" where
  "at_name k as = (case map_of as k of None \<Rightarrow> [] | Some v \<Rightarrow> [(k, v)])"

definition restored :: "attrs \<Rightarrow> attrs" where
  "restored as = plain as @ at_name XATTR_FINDERINFO_NAME as @ at_name XATTR_RESOURCEFORK_NAME as"

lemma map_of_plain: "map_of (plain as) k = (if special k then None else map_of as k)"
  by (induction as) auto

lemma map_of_restored: "map_of (restored as) = map_of as"
  by (rule ext) (auto simp: restored_def at_name_def map_add_def map_of_plain special_def split: option.split)

lemma finfo_of_map: "distinct (map fst as) \<Longrightarrow> finfo_of as f = (case map_of as XATTR_FINDERINFO_NAME of None \<Rightarrow> f | Some v \<Rightarrow> v)"
proof (induction as f rule: finfo_of.induct)
  case (2 k v as f)
  then show ?case by (cases "k = XATTR_FINDERINFO_NAME") (simp_all add: map_of_eq_None_iff [THEN iffD2])
qed simp

lemma plain_names: "fst ` set (plain as) \<inter> {k. special k} = {}"
  by (auto simp: plain_def)

lemma set_special: "special k \<Longrightarrow> AList.update k v (plain as) = plain as @ [(k, v)]"
  using plain_names [of as] by (intro update_fresh) blast

lemma unpack_finder_archive:
  fixes s :: "('q, 'cb) copyfile_state"
  assumes "archivable q as" and "att (wld e) (dst_fd s) = plain as"
  shows "unpack_finder (ad_system q :: ('q, adw) ad_calls) le (archive_front le ino as @ r) s e
    = Some (0, e\<lparr>wld := (wld e)\<lparr>att := (att (wld e))(dst_fd s := plain as @ at_name XATTR_FINDERINFO_NAME as)\<rparr>\<rparr>)"
proof -
  have pk: "\<forall>x \<in> set as. packable q x" and dist: "distinct (map fst as)" using assms(1) by (simp_all add: archivable_def)
  have "82 \<le> length (archive_front le ino as @ r)"
    using length_ad_fields [OF archive_header_ok(1) [OF pk], of le ino] by (cases "plain as = []") (simp_all add: archive_front_def)
  then have o: "\<not> AD_FINFO > length (archive_front le ino as @ r) - length emptyfinfo" by (simp add: layout emptyfinfo_def)
  note l = ld_front(1,5) [OF assms(1), of le ino r]
  show ?thesis
  proof (cases "map_of as XATTR_FINDERINFO_NAME")
    case None
    then have "e\<lparr>wld := (wld e)\<lparr>att := (att (wld e))(dst_fd s := plain as @ at_name XATTR_FINDERINFO_NAME as)\<rparr>\<rparr> = e"
      using assms(2) by (simp add: at_name_def fun_upd_idem)
    then show ?thesis using l o None finfo_of_map [OF dist, of emptyfinfo] by (simp add: unpack_finder_def emptyfinfo_def)
  next
    case (Some v)
    have "(XATTR_FINDERINFO_NAME, v) \<in> set as" using Some by (rule map_of_SomeD)
    then have v: "v \<noteq> emptyfinfo" "length v = 32" using pk by (auto simp: packable_def ad_limits)
    show ?thesis
      using l o Some finfo_of_map [OF dist, of emptyfinfo] v assms(2) set_special [of XATTR_FINDERINFO_NAME v as]
      by (simp add: unpack_finder_def at_name_def) (simp add: emptyfinfo_def)
  qed
qed

lemma unpack_fork_archive:
  fixes s :: "('q, 'cb) copyfile_state"
  assumes "archivable q as" and "att (wld e) (dst_fd s) = plain as @ at_name XATTR_FINDERINFO_NAME as" and "map_of as XATTR_RESOURCEFORK_NAME = Some v"
    and "cont (wld e) (src_fd s) = archive ino as"
  shows "unpack_resource (ad_system q :: ('q, adw) ad_calls) (length v) (length (archive_front False ino as)) s e
    = (0, e\<lparr>wld := (wld e)\<lparr>att := (att (wld e))(dst_fd s := restored as)\<rparr>\<rparr>)"
proof -
  have pk: "\<forall>x \<in> set as. packable q x" using assms(1) by (simp add: archivable_def)
  have f: "fork as = v" by (rule fork_size(1) [OF pk assms(3)])
  have "XATTR_RESOURCEFORK_NAME \<notin> fst ` set (plain as @ at_name XATTR_FINDERINFO_NAME as)"
    using plain_names [of as] by (auto simp: at_name_def split: option.splits)
  then have u: "AList.update XATTR_RESOURCEFORK_NAME v (plain as @ at_name XATTR_FINDERINFO_NAME as) = restored as"
    by (subst update_fresh) (simp_all add: restored_def at_name_def assms(3))
  have d: "take (length v) (drop (length (archive_front False ino as)) (archive ino as)) = v"
    and "length (archive ino as) = length (archive_front False ino as) + length v" by (simp_all add: archive_def f)
  then show ?thesis using assms(2,4) u by (simp add: unpack_resource_def new_block_def)
qed

lemma unpack_buffer_archive:
  fixes base :: "'a::len word" and s :: "('q, 'cb) copyfile_state"
  assumes "archivable q as" and "good_names (map fst (att (wld e) (dst_fd s)))" and "flagged COPYFILE_XATTR (cf_flags s)" and "\<not> flagged COPYFILE_ACL (cf_flags s)"
    and "length (archive_front False ino as @ r) \<le> ATTR_MAX_HDR_SIZE" and "unat base + ATTR_MAX_HDR_SIZE < 2 ^ LENGTH('a)" and "32 \<le> LENGTH('a)"
    and "cont (wld e) (src_fd s) = archive ino as"
  shows "unpack_buffer (ad_system q :: ('q, adw) ad_calls) le base (archive_front False ino as @ r) s e
    = Some (0, s, e\<lparr>wld := (wld e)\<lparr>att := (att (wld e))(dst_fd s := restored as)\<rparr>\<rparr>)"
proof -
  let ?F = "archive_front le ino as"
  let ?e1 = "e\<lparr>wld := (wld e)\<lparr>att := (att (wld e))(dst_fd s := [])\<rparr>\<rparr>"
  let ?e2 = "e\<lparr>wld := (wld e)\<lparr>att := (att (wld e))(dst_fd s := plain as)\<rparr>\<rparr>"
  let ?e3 = "e\<lparr>wld := (wld e)\<lparr>att := (att (wld e))(dst_fd s := plain as @ at_name XATTR_FINDERINFO_NAME as)\<rparr>\<rparr>"
  let ?e4 = "e\<lparr>wld := (wld e)\<lparr>att := (att (wld e))(dst_fd s := restored as)\<rparr>\<rparr>"
  have pk: "\<forall>x \<in> set as. packable q x" using assms(1) by (simp add: archivable_def)
  have lf: "length ?F = length (archive_front False ino as)" using length_front [OF assms(1)] by simp
  have a: "unpack_clear (ad_system q :: ('q, adw) ad_calls) s e = Some (Inr (), s, ?e1)"
    by (rule unpack_clear_all [OF assms(2,3)])
  have "unpack_attrs (ad_system q :: ('q, adw) ad_calls) le base (half_swapped le ino as @ r) s ?e1
    = Some (Inr (?F @ r), s, ?e1\<lparr>wld := (wld ?e1)\<lparr>att := (att (wld ?e1))(dst_fd s := plain as)\<rparr>\<rparr>)"
    by (rule unpack_attrs_archive) (use assms lf in simp_all)
  then have b: "unpack_attrs (ad_system q :: ('q, adw) ad_calls) le base (half_swapped le ino as @ r) s ?e1 = Some (Inr (?F @ r), s, ?e2)"
    by simp
  have "unpack_finder (ad_system q :: ('q, adw) ad_calls) le (?F @ r) s ?e2
    = Some (0, ?e2\<lparr>wld := (wld ?e2)\<lparr>att := (att (wld ?e2))(dst_fd s := plain as @ at_name XATTR_FINDERINFO_NAME as)\<rparr>\<rparr>)"
    by (rule unpack_finder_archive [OF assms(1)]) simp
  then have c: "unpack_finder (ad_system q :: ('q, adw) ad_calls) le (?F @ r) s ?e2 = Some (0, ?e3)" by simp
  note l = ld_front(2-4) [OF assms(1), of le ino r, unfolded lf]
  show ?thesis
  proof (cases "map_of as XATTR_RESOURCEFORK_NAME")
    case None
    then have "fork as = []" "?e3 = ?e4" by (simp_all add: fork_def restored_def at_name_def)
    then show ?thesis using swap_front [OF assms(1), of le ino r] a b c l by (simp add: unpack_buffer_def)
  next
    case (Some v)
    note f = fork_size [OF pk Some]
    have n: "unat (of_nat (length (fork as)) :: u32) = length v" using f by (simp add: unat_of_nat_u32)
    have "unpack_resource (ad_system q :: ('q, adw) ad_calls) (length v) (length (archive_front False ino as)) s ?e3
      = (0, ?e3\<lparr>wld := (wld ?e3)\<lparr>att := (att (wld ?e3))(dst_fd s := restored as)\<rparr>\<rparr>)"
      by (rule unpack_fork_archive [OF assms(1) _ Some]) (use assms(8) in simp_all)
    then have "unpack_resource (ad_system q :: ('q, adw) ad_calls) (length v) (length (archive_front False ino as)) s ?e3 = (0, ?e4)" by simp
    then show ?thesis using swap_front [OF assms(1), of le ino r] a b c l n f(2) by (simp add: unpack_buffer_def)
  qed
qed

text \<open>What is read of an archive first.\<close>

lemma archive_read:
  assumes "archivable q as" and "st_size (sb s) = of_nat (length (archive ino as))"
  obtains n r where "(if sint (st_size (sb s)) < int ATTR_MAX_HDR_SIZE then sint (st_size (sb s)) else int ATTR_MAX_HDR_SIZE) = int n"
    and "take n (archive ino as) = archive_front False ino as @ r" and "length (archive_front False ino as @ r) = n"
    and "min (length (archive ino as)) n = n" and "n \<le> ATTR_MAX_HDR_SIZE"
proof -
  let ?F = "archive ino as"
  define n where "n = min (length ?F) ATTR_MAX_HDR_SIZE"
  have pk: "\<forall>x \<in> set as. packable q x" using assms(1) by (simp add: archivable_def)
  have "length (fork as) < 2 ^ 31" using fork_size [OF pk] by (cases "map_of as XATTR_RESOURCEFORK_NAME") (simp_all add: fork_def)
  moreover have fr: "length (archive_front False ino as) \<le> ATTR_MAX_HDR_SIZE"
    using length_front [OF assms(1), of False ino] archive_offsets(1) [OF assms(1), of ino] assms(1) by (simp add: archivable_def layout ad_limits)
  ultimately have "length ?F < 2 ^ 63" by (simp add: archive_def ad_limits)
  then have "sint (st_size (sb s)) = int (length ?F)"
    unfolding assms(2) by (simp add: sint_uint uint_nat unat_of_nat take_bit_nat_eq_self signed_take_bit_int_eq_self)
  then have hdr: "(if sint (st_size (sb s)) < int ATTR_MAX_HDR_SIZE then sint (st_size (sb s)) else int ATTR_MAX_HDR_SIZE) = int n" by (simp add: n_def)
  obtain r where m: "take n ?F = archive_front False ino as @ r" using fr by (simp add: archive_def n_def)
  have "length (archive_front False ino as @ r) = n" unfolding m [symmetric] by (simp add: n_def)
  then show thesis using that hdr m by (simp add: n_def)
qed

lemma unpack_archive:
  fixes base :: "'a::len word" and s :: "('q, 'cb) copyfile_state"
  assumes "archivable q as" and "good_names (map fst (att (wld e) (dst_fd s)))" and "flagged COPYFILE_XATTR (cf_flags s)" and "\<not> flagged COPYFILE_ACL (cf_flags s)"
    and "unat base + ATTR_MAX_HDR_SIZE < 2 ^ LENGTH('a)" and "32 \<le> LENGTH('a)"
    and "cont (wld e) (src_fd s) = archive ino as" and "st_size (sb s) = of_nat (length (archive ino as))"
  shows "copyfile_unpack (ad_system q :: ('q, adw) ad_calls) le base s e
    = Some (0, s, e\<lparr>wld := (wld e)\<lparr>att := (att (wld e))(dst_fd s := restored as)\<rparr>\<rparr>)"
proof -
  obtain n r where hdr: "(if sint (st_size (sb s)) < int ATTR_MAX_HDR_SIZE then sint (st_size (sb s)) else int ATTR_MAX_HDR_SIZE) = int n"
    and m: "take n (archive ino as) = archive_front False ino as @ r" and lm: "length (archive_front False ino as @ r) = n"
    and mn: "min (length (archive ino as)) n = n" and n: "n \<le> ATTR_MAX_HDR_SIZE" using archive_read [OF assms(1,8)] by metis
  have "unpack_buffer (ad_system q :: ('q, adw) ad_calls) le base (archive_front False ino as @ r) s (e\<lparr>live := live e + 1\<rparr>)
    = Some (0, s, e\<lparr>live := live e + 1\<rparr>\<lparr>wld := (wld (e\<lparr>live := live e + 1\<rparr>))\<lparr>att := (att (wld (e\<lparr>live := live e + 1\<rparr>)))(dst_fd s := restored as)\<rparr>\<rparr>)"
    by (rule unpack_buffer_archive) (use assms lm n in simp_all)
  then show ?thesis
    unfolding copyfile_unpack_def hdr using m lm mn front_ok [OF assms(1), of ino r] assms(7) by (simp add: new_block_def)
qed

section \<open>Properties\<close>

section \<open>The file, byte by byte\<close>

text \<open>
  The file as the comment in front of \<open>copyfile_pack\<close>'s structures lays it out, with every number in big-endian order: an entry of
  the table is the offset and the length of the data, two bytes of flags, the length of the name with its terminator, the name,
  and zeros up to a multiple of four; the table starts at byte 120, the data follows the table, and the resource fork the data.
\<close>

abbreviation be :: "nat \<Rightarrow> nat \<Rightarrow> byte list" where "be \<equiv> store False"

fun attr_table :: "nat \<Rightarrow> attrs \<Rightarrow> byte list" where
  "attr_table off [] = []"
| "attr_table off ((k, v) # as) =
     be 4 off @ be 4 (length v) @ [0, 0] @ [of_nat (length k + 1)] @ to_bytes k @ [0] @ replicate ((4 - length k mod 4) mod 4) 0
     @ attr_table (off + length v) as"

definition finder_info :: "attrs \<Rightarrow> byte list" where
  "finder_info as = (case map_of as ''com.apple.FinderInfo'' of None \<Rightarrow> replicate 32 0 | Some v \<Rightarrow> v)"

definition apple_double :: "u32 \<Rightarrow> attrs \<Rightarrow> byte list" where
  "apple_double ino as =
     (let start = 120 + length (attr_table 0 (plain as)); end = start + data_size (plain as)
      in be 4 0x00051607 @ be 4 0x00020000 @ to_bytes ''Mac OS X        '' @ be 2 2
         @ be 4 9 @ be 4 50 @ be 4 (if plain as = [] then 32 else end - 50)
         @ be 4 2 @ be 4 (if plain as = [] then 82 else end) @ be 4 (length (fork as))
         @ finder_info as
         @ (if plain as = [] then []
            else [0, 0] @ be 4 0x41545452 @ be 4 (unat ino) @ be 4 end @ be 4 start @ be 4 (data_size (plain as)) @ replicate 12 0
              @ be 2 0 @ be 2 (length (plain as)) @ attr_table start (plain as) @ concat (map snd (plain as)))
         @ fork as)"

lemma entry_length: "ATTR_ENTRY_LENGTH (n + 1) = 12 + n + (4 - n mod 4) mod 4"
proof -
  obtain i r where n: "n = r + i * 4" and r: "r < 4" using mod_div_mult_eq [of n 4] by (metis mod_less_divisor zero_less_numeral)
  have "(r + 15 + i * 4) div 4 = (r + 15) div 4 + i" by simp
  moreover have "n mod 4 = r" using n r by simp
  moreover have "r = 0 \<or> r = 1 \<or> r = 2 \<or> r = 3" using r by linarith
  ultimately show ?thesis unfolding ATTR_ENTRY_LENGTH_def layout using n by (elim disjE) (simp_all add: ac_simps)
qed

lemma entry_padding: "ATTR_ENTRY_LENGTH (n + 1) - ENTRY_NAME - n = Suc ((4 - n mod 4) mod 4)"
  unfolding entry_length by (simp add: layout)

lemma table_image:
  "off + data_size as < 2 ^ 32 \<Longrightarrow> entries_image False (items off as) = attr_table off as"
proof (induction off as rule: items.induct)
  case (2 off k v as)
  have "unat (of_nat off :: u32) = off" "unat (of_nat (length v) :: u32) = length v"
    using "2.prems" by (auto intro!: unat_of_nat_u32)
  then show ?case using 2 entry_padding [of "length k"] by (simp add: entry_image_def) (simp add: numeral_2_eq_2)
qed simp

lemma length_attr_table: "length (attr_table off as) = table_size (map fst as)"
proof (induction off as rule: attr_table.induct)
  case (2 off k v as)
  then show ?case using entry_length [of "length k"] by simp
qed simp

lemma archive_bytes:
  assumes "archivable q as"
  shows "archive ino as = apple_double ino as"
proof -
  let ?h = "archive_header ino as"
  have pk: "\<forall>x \<in> set as. packable q x" and b: "data_start as + data_size (plain as) \<le> ATTR_MAX_HDR_SIZE" and d: "distinct (map fst as)"
    using assms by (simp_all add: archivable_def)
  have start: "data_start as = 120 + length (attr_table 0 (plain as))" by (simp add: data_start_def length_attr_table layout)
  have u: "unat (of_nat n :: u32) = n" if "n \<le> data_start as + data_size (plain as)" for n
    using that b by (intro unat_of_nat_u32) (simp add: ad_limits)
  have fork: "unat (of_nat (length (fork as)) :: u32) = length (fork as)"
  proof (cases "map_of as XATTR_RESOURCEFORK_NAME")
    case None
    then show ?thesis by (simp add: fork_def)
  next
    case (Some v)
    then show ?thesis using fork_size [OF pk Some] by (intro unat_of_nat_u32) simp
  qed
  have "data_start as + data_size (plain as) < 2 ^ 32" using b by (simp add: ad_limits)
  then have tab: "entries_image False (items (data_start as) (plain as)) = attr_table (data_start as) (plain as)"
    by (rule table_image)
  have fi: "adh_finfo ?h = finder_info as"
    using archive_header_ok(6) [OF pk, of ino] finfo_of_map [OF d, of emptyfinfo]
    by (simp add: finder_info_def xattr_names) (simp add: emptyfinfo_def split: option.split)
  have ad: "concat (ad_fields False ?h) = be 4 0x00051607 @ be 4 0x00020000 @ to_bytes ''Mac OS X        '' @ be 2 2
     @ be 4 9 @ be 4 50 @ be 4 (if plain as = [] then 32 else data_start as + data_size (plain as) - 50)
     @ be 4 2 @ be 4 (if plain as = [] then 82 else data_start as + data_size (plain as)) @ be 4 (length (fork as)) @ finder_info as"
    using archive_header_ok [OF pk, of ino] archive_offsets [OF assms, of ino] fi fork
    by (simp add: ad_fields_def ADH_MAGIC_def ADH_VERSION_def AD_FINDERINFO_def AD_RESOURCE_def layout FINDERINFOSIZE_def,
        simp add: archive_header_def finish_header_def collected_header_def pack_header_def ADH_MACOSX_def Let_def)
  have at: "concat (attr_fields False ?h) = [0, 0] @ be 4 0x41545452 @ be 4 (unat ino) @ be 4 (data_start as + data_size (plain as)) @ be 4 (data_start as)
      @ be 4 (data_size (plain as)) @ replicate 12 0 @ be 2 0 @ be 2 (length (plain as))" if ne: "plain as \<noteq> []"
  proof -
    have "(0 :: u32) < of_nat (data_size (plain as))"
      using data_positive [OF pk ne] u [of "data_size (plain as)"] by (simp add: word_less_nat_alt)
    then have "unat (ah_total ?h) = data_start as + data_size (plain as)" "unat (ah_start ?h) = data_start as" "unat (ah_length ?h) = data_size (plain as)"
      "ah_debug ?h = ino" "adh_pad ?h = [0, 0]" "ah_reserved ?h = replicate 12 0" "ah_flags ?h = 0"
      using u [of "data_start as + data_size (plain as)"] u [of "data_start as"] u [of "data_size (plain as)"]
      by (simp_all add: archive_header_def finish_header_def collected_header_def pack_header_def zero_header_def Let_def numeral_2_eq_2)
    then show ?thesis using archive_header_ok(4) [OF pk, of ino] archive_count [OF assms, of ino] by (simp add: attr_fields_def ATTR_HDR_MAGIC_def)
  qed
  show ?thesis
    using ad at tab unfolding archive_def archive_front_def apple_double_def Let_def start [symmetric] by (simp del: store_zero)
qed

text \<open>C11: What \<open>copyfile_pack\<close> writes for a file with attributes the format can carry is, on a machine of either byte order, the file
  \<open>apple_double\<close> spells out: the AppleDouble header with its two entries and the Finder information, and, where there are other
  attributes, the attribute header with the size of both headers and the data, where the data starts and how long it is, the
  table of the attributes and their data; then the resource fork.  Nothing else changes, no block is lost, and the copy succeeds.\<close>

theorem pack_writes_archive:
  fixes s :: "('q, 'cb) copyfile_state"
  assumes "archivable q (att (wld e) (src_fd s))" and "flagged COPYFILE_XATTR (cf_flags s)" and "\<not> flagged COPYFILE_ACL (cf_flags s)" and "qinfo s = None"
    and "cont (wld e) (dst_fd s) = []"
  shows "copyfile_pack (ad_system q :: ('q, adw) ad_calls) le s e
    = Some (0, s, e\<lparr>wld := (wld e)\<lparr>cont := (cont (wld e))(dst_fd s := apple_double (st_ino (sb s)) (att (wld e) (src_fd s)))\<rparr>\<rparr>)"
  using pack_file_archives [of q "e\<lparr>live := live e + 1 + 1\<rparr>" s le] assms archive_bytes [OF assms(1)]
  by (simp add: copyfile_pack_def new_block_def)

definition demo_attrs :: attrs where
  "demo_attrs = [(''a'', [1, 2]), (XATTR_FINDERINFO_NAME, replicate 32 7), (''note'', [3]), (XATTR_RESOURCEFORK_NAME, [9, 9])]"

lemma demo_archivable: "archivable ''q'' demo_attrs"
  by (simp add: archivable_def demo_attrs_def packable_def special_def xattr_names name_list_def NUL_def data_start_def ATTR_ENTRY_LENGTH_def layout
      ad_limits emptyfinfo_def replicate_eq_replicate)

theorem pack_writes_archive_witness:
  "copyfile_pack (ad_system ''q'' :: (nat, adw) ad_calls) True (fresh_state\<lparr>src_fd := 3, dst_fd := 4, cf_flags := COPYFILE_XATTR\<rparr> :: (nat, unit) copyfile_state)
     \<lparr>e_errno = Errno 0, live = 7, wld = \<lparr>att = (\<lambda>fd. if fd = 3 then demo_attrs else []), cont = (\<lambda>_. [])\<rparr>\<rparr>
   = Some (0, fresh_state\<lparr>src_fd := 3, dst_fd := 4, cf_flags := COPYFILE_XATTR\<rparr>,
       \<lparr>e_errno = Errno 0, live = 7, wld = \<lparr>att = (\<lambda>fd. if fd = 3 then demo_attrs else []), cont = (\<lambda>_. [])(4 := apple_double 0 demo_attrs)\<rparr>\<rparr>)"
  by (subst pack_writes_archive) (simp_all add: demo_archivable flagged_def copyfile_flags zero_stat_def)

text \<open>C10: Packing the attributes of a file and unpacking the result restores them: for attributes the format can carry, on machines
  of any byte order and address width, the destination has afterwards exactly the attributes of the source, whatever well
  named attributes it had before; both copies succeed, no block is lost and nothing else changes.\<close>

theorem pack_unpack_roundtrip:
  fixes base :: "'a::len word" and s1 s2 :: "('q, 'cb) copyfile_state"
  assumes "archivable q (att (wld e) (src_fd s1))" and "cont (wld e) (dst_fd s1) = []"
    and "good_names (map fst (att (wld e) (dst_fd s2)))" and "src_fd s2 = dst_fd s1"
    and "st_size (sb s2) = of_nat (length (archive (st_ino (sb s1)) (att (wld e) (src_fd s1))))"
    and "\<forall>s \<in> {s1, s2}. flagged COPYFILE_XATTR (cf_flags s) \<and> \<not> flagged COPYFILE_ACL (cf_flags s)" and "qinfo s1 = None"
    and "unat base + ATTR_MAX_HDR_SIZE < 2 ^ LENGTH('a)" and "32 \<le> LENGTH('a)"
  shows "\<exists>e1 e2. copyfile_pack (ad_system q :: ('q, adw) ad_calls) le1 s1 e = Some (0, s1, e1)
    \<and> copyfile_unpack (ad_system q :: ('q, adw) ad_calls) le2 base s2 e1 = Some (0, s2, e2)
    \<and> map_of (att (wld e2) (dst_fd s2)) = map_of (att (wld e) (src_fd s1))
    \<and> (\<forall>fd. fd \<noteq> dst_fd s2 \<longrightarrow> att (wld e2) fd = att (wld e) fd) \<and> live e2 = live e"
proof -
  let ?as = "att (wld e) (src_fd s1)"
  let ?e1 = "e\<lparr>wld := (wld e)\<lparr>cont := (cont (wld e))(dst_fd s1 := archive (st_ino (sb s1)) ?as)\<rparr>\<rparr>"
  have "pack_file (ad_system q :: ('q, adw) ad_calls) le1 s1 (e\<lparr>live := live e + 1 + 1\<rparr>)
    = Some (0, s1, e\<lparr>live := live e + 1 + 1\<rparr>\<lparr>wld := (wld e)\<lparr>cont := (cont (wld e))(dst_fd s1 := archive (st_ino (sb s1)) ?as)\<rparr>\<rparr>)"
    using pack_file_archives [of q "e\<lparr>live := live e + 1 + 1\<rparr>" s1 le1] assms by simp
  then have p: "copyfile_pack (ad_system q :: ('q, adw) ad_calls) le1 s1 e = Some (0, s1, ?e1)" by (simp add: copyfile_pack_def new_block_def)
  have u: "copyfile_unpack (ad_system q :: ('q, adw) ad_calls) le2 base s2 ?e1
    = Some (0, s2, ?e1\<lparr>wld := (wld ?e1)\<lparr>att := (att (wld ?e1))(dst_fd s2 := restored ?as)\<rparr>\<rparr>)"
    by (rule unpack_archive [OF assms(1)]) (use assms in simp_all)
  show ?thesis by (intro exI conjI, rule p, rule u) (simp_all add: map_of_restored)
qed

theorem pack_unpack_roundtrip_witness:
  "\<exists>e1 e2. copyfile_pack (ad_system ''q'' :: (nat, adw) ad_calls) True (fresh_state\<lparr>src_fd := 3, dst_fd := 4, cf_flags := COPYFILE_XATTR\<rparr> :: (nat, unit) copyfile_state)
       \<lparr>e_errno = Errno 0, live = 7, wld = \<lparr>att = (\<lambda>fd. if fd = 3 then demo_attrs else [(''old'', [1])]), cont = (\<lambda>_. [])\<rparr>\<rparr>
      = Some (0, fresh_state\<lparr>src_fd := 3, dst_fd := 4, cf_flags := COPYFILE_XATTR\<rparr>, e1)
    \<and> copyfile_unpack (ad_system ''q'' :: (nat, adw) ad_calls) False (4096 :: 32 word)
        (fresh_state\<lparr>src_fd := 4, dst_fd := 5, cf_flags := COPYFILE_XATTR, sb := zero_stat\<lparr>st_size := of_nat (length (archive 0 demo_attrs))\<rparr>\<rparr> :: (nat, unit) copyfile_state) e1
      = Some (0, fresh_state\<lparr>src_fd := 4, dst_fd := 5, cf_flags := COPYFILE_XATTR, sb := zero_stat\<lparr>st_size := of_nat (length (archive 0 demo_attrs))\<rparr>\<rparr>, e2)
    \<and> map_of (att (wld e2) 5) = map_of demo_attrs"
  using pack_unpack_roundtrip [of "''q''" "\<lparr>e_errno = Errno 0, live = 7, wld = \<lparr>att = (\<lambda>fd. if fd = 3 then demo_attrs else [(''old'', [1])]), cont = (\<lambda>_. [])\<rparr>\<rparr>"
      "fresh_state\<lparr>src_fd := 3, dst_fd := 4, cf_flags := COPYFILE_XATTR\<rparr> :: (nat, unit) copyfile_state"
      "fresh_state\<lparr>src_fd := 4, dst_fd := 5, cf_flags := COPYFILE_XATTR, sb := zero_stat\<lparr>st_size := of_nat (length (archive 0 demo_attrs))\<rparr>\<rparr> :: (nat, unit) copyfile_state"
      "4096 :: 32 word" True False]
  by (simp add: demo_archivable flagged_def copyfile_flags ad_limits good_names_def NUL_def) (auto simp: zero_stat_def)

text \<open>Storing data again when the block was freed.\<close>

lemma store_freed: "pk_data pk = Freed \<Longrightarrow> store_data le pk e = None"
  by (auto simp: store_data_def free_data_def Let_def split: option.split prod.split Option.bind_split)

lemma store_frees: "store_data le (pk\<lparr>pk_data := Block v, pk_size := sz\<rparr>) e = Some (pk', e') \<Longrightarrow> pk_data pk' = Freed"
  by (auto simp: store_data_def bump_entry_def Let_def bind_eq_Some_conv split: if_splits)

lemma security_name: "NUL \<notin> set XATTR_SECURITY_NAME" "length XATTR_SECURITY_NAME = 18" "\<not> special XATTR_SECURITY_NAME"
  by (simp_all add: xattr_names special_def NUL_def)

text \<open>Without a list, a name that stands for it makes the loop free the block of the attribute before it.\<close>

lemma security_name_frees:
  fixes s :: "('q, 'cb) copyfile_state"
  assumes "fsec s = Some empty_filesec" and "pk_data pk = Freed"
  shows "data_loop (ad_system q :: ('q, adw) ad_calls) le s (name_list [XATTR_SECURITY_NAME] @ z) (int (length (name_list [XATTR_SECURITY_NAME]))) pk e = None"
proof -
  have "pack_name (ad_system q :: ('q, adw) ad_calls) le s XATTR_SECURITY_NAME pk e = None"
    using assms by (simp add: pack_name_def copyfile_pack_acl_def filesec_get_acl_def empty_filesec_def store_freed)
  then show ?thesis unfolding data_loop_step [OF security_name(1)] by simp
qed

text \<open>The name under which \<open>copyfile_pack\<close> stores the access control list is also one a file's own attribute may have, as one that
  \<open>copyfile_unpack\<close> has made without \<open>COPYFILE_ACL\<close>: when such an attribute follows another one, the file has no list, and lists are not
  asked for, the data of the other attribute is freed twice.\<close>

theorem pack_frees_twice:
  fixes s :: "('q, 'cb) copyfile_state"
  assumes "att (wld e) (src_fd s) = [(k, v), (XATTR_SECURITY_NAME, w)]" and "packable q (k, v)" and "\<not> special k" and "qinfo s = None"
    and "flagged COPYFILE_XATTR (cf_flags s)" and "\<not> flagged COPYFILE_ACL (cf_flags s)" and "fsec s = Some empty_filesec"
  shows "copyfile_pack (ad_system q :: ('q, adw) ad_calls) le s e = None"
proof -
  let ?as = "att (wld e) (src_fd s)"
  let ?e = "e\<lparr>live := live e + 1 + 1\<rparr>"
  let ?ino = "st_ino (sb s)"
  let ?c = "(pack_header ?ino)\<lparr>ah_count := of_nat (length (plain ?as)), ah_start := of_nat (data_start ?as)\<rparr>"
  let ?r = "ATTR_MAX_SIZE - ATTR_HDR_SIZE - table_size (map fst (plain ?as))"
  let ?B = "entries_image le (map stub (map fst (plain ?as))) @ replicate ?r 0"
  let ?pk = "\<lparr>pk_hdr = ?c, pk_body = ?B, pk_entry = 0, pk_data = Null_ptr, pk_size = None, pk_rsrc = False, pk_error = 0\<rparr>"
  have k: "NUL \<notin> set k" "length k \<le> 127" using assms(2) by (simp_all add: packable_def ad_limits)
  note sec = security_name
  have tb: "ATTR_ENTRY_LENGTH (length k + 1) \<le> 200" "ATTR_ENTRY_LENGTH (18 + 1) \<le> 40"
    using k(2) ATTR_ENTRY_LENGTH_bounds(2) [of "length k + 1"] by (simp_all add: layout ATTR_ENTRY_LENGTH_def)
  have n1: "short_names (map fst ?as)" using k sec by (simp add: assms(1) short_names_def ad_limits)
  have n2: "length (name_list (map fst ?as)) \<le> ATTR_MAX_HDR_SIZE" using k(2) sec(2) by (simp add: assms(1) name_list_def ad_limits)
  have n3: "data_start ?as < ATTR_MAX_SIZE" using tb sec(2,3) assms(1,3) by (simp add: data_start_def layout ad_limits)
  obtain z where n: "pack_names (ad_system q :: ('q, adw) ad_calls) s (pack_header ?ino) (replicate (ATTR_MAX_SIZE - ATTR_HDR_SIZE) 0) ?e
      = Some (Inr (name_list (map fst ?as) @ z, int (length (name_list (map fst ?as))), ?c, ?B), ?e)"
    using pack_names_stubs [of ?e s q ?ino le] n1 n2 n3 assms(4-6) by auto
  let ?first = "store_data le (?pk\<lparr>pk_data := Block v, pk_size := Some (int (length v))\<rparr>) (?e\<lparr>live := live ?e + 1\<rparr>)"
  have pn: "pack_name (ad_system q :: ('q, adw) ad_calls) le s k ?pk ?e = ?first" by (rule pack_plain) (use assms in simp_all)
  have "data_loop (ad_system q :: ('q, adw) ad_calls) le s (name_list [k, XATTR_SECURITY_NAME] @ z) (int (length (name_list [k, XATTR_SECURITY_NAME]))) ?pk ?e = None"
  proof (cases ?first)
    case (Some x)
    obtain pk' e' where x: "x = (pk', e')" by (cases x)
    have "pk_data pk' = Freed" using store_frees Some unfolding x by blast
    then show ?thesis unfolding data_loop_step [OF k(1)] pn Some x using security_name_frees [OF assms(7)] by simp
  qed (simp only: data_loop_step [OF k(1)] pn bind.bind_lzero)
  then show ?thesis using n assms(1) by (simp add: copyfile_pack_def new_block_def pack_file_def)
qed

theorem pack_frees_twice_witness:
  "copyfile_pack (ad_system ''q'' :: (nat, adw) ad_calls) True
     (fresh_state\<lparr>src_fd := 3, dst_fd := 4, cf_flags := COPYFILE_XATTR, fsec := Some empty_filesec\<rparr> :: (nat, unit) copyfile_state)
     \<lparr>e_errno = Errno 0, live = 7, wld = \<lparr>att = (\<lambda>_. [(''a'', [1, 2]), (XATTR_SECURITY_NAME, [])]), cont = (\<lambda>_. [])\<rparr>\<rparr> = None"
  by (rule pack_frees_twice [where k = "''a''" and v = "[1, 2]" and w = "[]"])
     (simp_all add: packable_def special_def xattr_names flagged_def copyfile_flags NUL_def ad_limits)

text \<open>A system that does not store attributes.\<close>

definition attribute_less :: "string \<Rightarrow> ('q, adw) ad_calls" where
  "attribute_less q = (ad_system q)\<lparr>ac_xa := att_calls\<lparr>xc_set := \<lambda>fd k d n e. (-1, e\<lparr>e_errno := ENOTSUP\<rparr>)\<rparr>\<rparr>"

text \<open>With \<open>COPYFILE_STAT\<close>, \<open>copyfile_unpack\<close> reports success although the resource fork of the file could not be set on the
  destination; without it the same failure is reported.\<close>

theorem unpack_stat_hides_failure:
  fixes base :: "'a::len word" and s :: "('q, 'cb) copyfile_state"
  assumes "packable q (XATTR_RESOURCEFORK_NAME, v)" and "cont (wld e) (src_fd s) = archive ino [(XATTR_RESOURCEFORK_NAME, v)]"
    and "st_size (sb s) = of_nat (length (archive ino [(XATTR_RESOURCEFORK_NAME, v)]))"
    and "\<not> flagged COPYFILE_XATTR (cf_flags s)"
  shows "copyfile_unpack (attribute_less q :: ('q, adw) ad_calls) le base s e
    = Some (if flagged COPYFILE_STAT (cf_flags s) then 0 else -1, s, e\<lparr>e_errno := ENOTSUP\<rparr>)"
proof -
  let ?as = "[(XATTR_RESOURCEFORK_NAME, v)]"
  let ?F = "archive ino ?as"
  let ?h = "archive_header ino ?as"
  let ?e = "e\<lparr>live := live e + 1\<rparr>"
  let ?c = "attribute_less q :: ('q, adw) ad_calls"
  have v: "v \<noteq> []" "length v < 2 ^ 31" using assms(1) by (simp_all add: packable_def)
  have ar: "archivable q ?as" using assms(1) by (simp add: archivable_def name_list_def xattr_names data_start_def layout ad_limits special_def)
  have pl: "plain ?as = []" "fork ?as = v" by (simp_all add: fork_def)
  have fr: "length (archive_front False ino ?as) = 82"
    using length_front [OF ar, of False ino] archive_offsets(1) [OF ar, of ino] pl by (simp add: AD_PAD_def)
  obtain n r where hdr: "(if sint (st_size (sb s)) < int ATTR_MAX_HDR_SIZE then sint (st_size (sb s)) else int ATTR_MAX_HDR_SIZE) = int n"
    and m: "take n ?F = archive_front False ino ?as @ r" and lm: "length (archive_front False ino ?as @ r) = n"
    and mn: "min (length ?F) n = n" using archive_read [OF ar assms(3)] by metis
  have hf: "half_swapped le ino ?as = archive_front le ino ?as" by (simp add: half_swapped_def archive_front_def)
  have pk: "\<forall>x \<in> set ?as. packable q x" using assms(1) by simp
  obtain r' where r': "archive_front le ino ?as @ r = concat (ad_fields le ?h) @ r'" using front_prefix by blast
  have l0: "ld le 4 (archive_front le ino ?as @ r) (AD_ENTRY 0 + 8) = Some FINDERINFOSIZE"
    unfolding r' using ld_ad_field(3) [OF archive_header_ok(1) [OF pk], of le ino r'] archive_offsets(2) [OF ar, of ino] pl by simp
  have a: "unpack_attrs ?c le base (archive_front le ino ?as @ r) s ?e = Some (Inr (archive_front le ino ?as @ r), s, ?e)"
    using l0 by (simp add: unpack_attrs_def)
  have lf: "length (archive_front le ino ?as) = 82" using length_front [OF ar] fr by metis
  have fi: "finfo_of ?as emptyfinfo = emptyfinfo" by simp
  have b: "unpack_finder ?c le (archive_front le ino ?as @ r) s ?e = Some (0, ?e)"
    using ld_front(1,5) [OF ar, of le ino r] lf fi by (simp add: unpack_finder_def) (simp add: emptyfinfo_def layout)
  have d: "take (length v) (drop 82 ?F) = v" "length ?F = 82 + length v" using fr pl(2) by (simp_all add: archive_def)
  have g: "unpack_resource ?c (length v) 82 s ?e = (-1, ?e\<lparr>e_errno := ENOTSUP\<rparr>)"
    using assms(2) d by (simp add: unpack_resource_def new_block_def attribute_less_def zero_stat_def S_IFMT_def S_IFDIR_def)
  have nv: "unat (of_nat (length (fork ?as)) :: u32) = length v" using v(2) pl(2) by (simp add: unat_of_nat_u32)
  have st: "copyfile_stat (ac_sec ?c) s e' = (0, e')" for e' by (simp add: attribute_less_def)
  have cl: "unpack_clear ?c s ?e = Some (Inr (), s, ?e)" using assms(4) by (simp add: unpack_clear_def)
  have "unpack_buffer ?c le base (archive_front False ino ?as @ r) s ?e
    = Some (if flagged COPYFILE_STAT (cf_flags s) then 0 else -1, s, ?e\<lparr>e_errno := ENOTSUP\<rparr>)"
    using swap_front [OF ar, of le ino r] cl a b g st ld_front(2-4) [OF ar, of le ino r] lf nv v(1) by (simp add: unpack_buffer_def hf)
  then show ?thesis
    unfolding copyfile_unpack_def hdr using m lm mn front_ok [OF ar, of ino r] assms(2)
    by (simp add: new_block_def attribute_less_def)
qed

theorem unpack_stat_hides_failure_witness:
  "copyfile_unpack (attribute_less ''q'' :: (nat, adw) ad_calls) True (4096 :: 64 word)
     (fresh_state\<lparr>src_fd := 3, dst_fd := 4, cf_flags := COPYFILE_STAT, sb := zero_stat\<lparr>st_size := of_nat (length (archive 0 [(XATTR_RESOURCEFORK_NAME, [9])]))\<rparr>\<rparr> :: (nat, unit) copyfile_state)
     \<lparr>e_errno = Errno 0, live = 7, wld = \<lparr>att = (\<lambda>_. []), cont = (\<lambda>_. archive 0 [(XATTR_RESOURCEFORK_NAME, [9])])\<rparr>\<rparr>
   = Some (0, fresh_state\<lparr>src_fd := 3, dst_fd := 4, cf_flags := COPYFILE_STAT, sb := zero_stat\<lparr>st_size := of_nat (length (archive 0 [(XATTR_RESOURCEFORK_NAME, [9])]))\<rparr>\<rparr>,
       \<lparr>e_errno = ENOTSUP, live = 7, wld = \<lparr>att = (\<lambda>_. []), cont = (\<lambda>_. archive 0 [(XATTR_RESOURCEFORK_NAME, [9])])\<rparr>\<rparr>)"
  by (subst unpack_stat_hides_failure [where v = "[9]" and ino = 0])
     (simp_all add: packable_def special_def xattr_names flagged_def copyfile_flags NUL_def ad_limits)

end
