(* ===== verification/Copy_Tree.thy ===== *)
theory Copy_Tree
  imports Copy_File
begin

text \<open>
  \<open>copytree\<close> of \<open>src/copyfile.c\<close>: a hierarchy is walked with the functions of \<open>fts\<close>, and each object it delivers is copied by
  \<open>copyfile\<close> itself, with a state of its own.  The walk is part of the world: \<open>tc_read\<close> delivers its next object.  A callback
  may act on the world, but not change a state.  \<open>None\<close> is a walk that does not end, a pointer behind the end of a name, or
  a use of a structure that was not filled.
\<close>

section \<open>Data\<close>

datatype fts_info = FTS_D | FTS_DC | FTS_DEFAULT | FTS_DNR | FTS_DOT | FTS_DP | FTS_ERR | FTS_F | FTS_NS | FTS_NSOK | FTS_SL | FTS_SLNONE

record ftsent =
  ent_info :: fts_info
  ent_path :: string
  ent_errno :: errno


definition COPYFILE_RECURSE_DIR_CLEANUP :: int where "COPYFILE_RECURSE_DIR_CLEANUP = 3"
definition COPYFILE_START :: int where "COPYFILE_START = 1"
definition COPYFILE_FINISH :: int where "COPYFILE_FINISH = 2"

text \<open>
  \<open>tc_stat\<close> is \<open>lstat\<close> or \<open>stat\<close>, \<open>tc_basename\<close> whether \<open>basename\<close> succeeds, \<open>tc_open\<close> whether \<open>fts_open\<close> does, and \<open>tc_skip\<close> is
  \<open>fts_set\<close> with \<open>FTS_SKIP\<close>.  The status callback gets the stage, the state, and the two names.
\<close>

record ('q, 'cb, 'w) tree_calls =
  tc_stat :: "bool \<Rightarrow> string \<Rightarrow> 'w env \<Rightarrow> stat_t option \<times> 'w env"
  tc_basename :: "string \<Rightarrow> bool"
  tc_open :: "string \<Rightarrow> u32 \<Rightarrow> 'w env \<Rightarrow> bool \<times> 'w env"
  tc_read :: "'w env \<Rightarrow> ftsent option \<times> 'w env"
  tc_skip :: "ftsent \<Rightarrow> 'w env \<Rightarrow> int \<times> 'w env"
  tc_close :: "'w env \<Rightarrow> 'w env"
  tc_status :: "'cb \<Rightarrow> int \<Rightarrow> int \<Rightarrow> ('q, 'cb) copyfile_state \<Rightarrow> string \<Rightarrow> string \<Rightarrow> u64 \<Rightarrow> 'w env \<Rightarrow> int \<times> 'w env"

section \<open>One object\<close>

text \<open>The call of the callback, where there is one, with a command and a stage.\<close>

definition tell :: "('q, 'cb, 'w) tree_calls \<Rightarrow> ('q, 'cb) copyfile_state \<Rightarrow> ('q, 'cb) copyfile_state \<Rightarrow> string \<Rightarrow> string \<Rightarrow> 'cb \<Rightarrow> int \<Rightarrow> int \<Rightarrow> 'w env \<Rightarrow> int \<times> 'w env" where
  "tell t s ts path dstfile cb cmd stage e = tc_status t cb cmd stage ts path dstfile (ctx s) e"




text \<open>The end of a directory.  Where the callback quits after it, the code sets \<open>rv\<close> and not \<open>retval\<close>.\<close>

definition tree_cleanup :: "('q, 'cb, 'w) cf_calls \<Rightarrow> ('q, 'cb, 'w) tree_calls \<Rightarrow> ('q, 'cb) copyfile_state \<Rightarrow> ('q, 'cb) copyfile_state \<Rightarrow> ftsent \<Rightarrow> string \<Rightarrow> 'w env
    \<Rightarrow> (int \<times> 'w env) option" where
  "tree_cleanup c t s ts ent dstfile e =
     (let (rv, e) = (case statuscb s of None \<Rightarrow> (COPYFILE_CONTINUE, e)
                     | Some cb \<Rightarrow> tell t s ts (ent_path ent) dstfile cb COPYFILE_RECURSE_DIR_CLEANUP COPYFILE_START e)
      in if rv = COPYFILE_QUIT then Some (-1, e\<lparr>e_errno := Errno 0\<rparr>)
         else if rv = COPYFILE_SKIP then Some (0, e)
         else (let (tfd, e) = cc_open c dstfile O_RDONLY 0 e
               in if tfd \<noteq> -1
                  then (let (st, e) = (if flagged COPYFILE_STAT (cf_flags s)
                                       then tc_stat t (flagged COPYFILE_NOFOLLOW_SRC (cf_flags s)) (ent_path ent) e
                                       else tc_stat t (flagged COPYFILE_NOFOLLOW_DST (cf_flags s)) dstfile e)
                        in do { st \<leftarrow> st;
                                let e = remove_uberace (cc_sec c) tfd st e;
                                let (_, e) = cc_close c tfd e;
                                (case statuscb s of
                                   None \<Rightarrow> Some (0, e)
                                 | Some cb \<Rightarrow>
                                     (let (rv, e) = tell t s ts (ent_path ent) dstfile cb COPYFILE_RECURSE_DIR_CLEANUP COPYFILE_FINISH e
                                      in Some (0, if rv = COPYFILE_QUIT then e\<lparr>e_errno := Errno 0\<rparr> else e))) })
                  else (case statuscb s of
                          None \<Rightarrow> Some (-1, e)
                        | Some cb \<Rightarrow>
                            (let (rv, e) = tell t s ts (ent_path ent) dstfile cb COPYFILE_RECURSE_DIR_CLEANUP COPYFILE_ERR e
                             in Some (if rv = COPYFILE_QUIT then (-1, e)
                                      else (0, if rv = COPYFILE_CONTINUE then e\<lparr>e_errno := Errno 0\<rparr> else e))))))"





section \<open>The whole\<close>




section \<open>A walk over plain files and directories\<close>

text \<open>The plain file system with the objects the walk has still to deliver.\<close>

record treew = fsw +
  script :: "ftsent list"

definition script_read :: "treew env \<Rightarrow> ftsent option \<times> treew env" where
  "script_read e = (case script (wld e) of [] \<Rightarrow> (None, e\<lparr>e_errno := Errno 0\<rparr>) | x # xs \<Rightarrow> (Some x, e\<lparr>wld := (wld e)\<lparr>script := xs\<rparr>\<rparr>))"

definition tree_system :: "('q, 'cb, treew) tree_calls" where
  "tree_system = \<lparr>tc_stat = (\<lambda>nofollow p e. let (x, e) = plain_stat nofollow p e in (map_option fst x, e)), tc_basename = (\<lambda>_. True),
     tc_open = (\<lambda>p fl e. (True, e)), tc_read = script_read, tc_skip = (\<lambda>x e. (-1, e)), tc_close = (\<lambda>e. e), tc_status = (\<lambda>cb cmd stage ts a b x e. (0, e))\<rparr>"

lemma tree_system_simps [simp]:
  "tc_stat tree_system nofollow p e = (let (x, e) = plain_stat nofollow p e in (map_option fst x, e))" "tc_basename tree_system p"
  "tc_open tree_system p fl e = (True, e)" "tc_read tree_system = script_read" "tc_close tree_system e = e"
  by (simp_all add: tree_system_def)














section \<open>The walk\<close>


















section \<open>The whole copy\<close>









section \<open>What goes wrong\<close>

text \<open>The test for \<open>COPYFILE_NOFOLLOW_SRC\<close> sets the bit where it should read it: links are never followed by the walk.\<close>

lemma walk_is_physical: "(fl :: u32) OR COPYFILE_NOFOLLOW_SRC \<noteq> 0"
proof -
  have "bit (fl OR COPYFILE_NOFOLLOW_SRC) 18" by (simp add: bit_or_iff copyfile_flags)
  then show ?thesis by auto
qed

text \<open>A callback that asks to quit after the end of a directory is not obeyed.\<close>

lemma cleanup_ignores_quit:
  assumes "statuscb s = Some cb" and "cc_open c dstfile O_RDONLY 0 e' = (fd, e1)" and "fd \<noteq> -1"
    and "tell t s ts (ent_path x) dstfile cb COPYFILE_RECURSE_DIR_CLEANUP COPYFILE_START e = (COPYFILE_CONTINUE, e')"
    and "tc_stat t (flagged COPYFILE_NOFOLLOW_DST (cf_flags s)) dstfile e1 = (Some st, e2)" and "\<not> flagged COPYFILE_STAT (cf_flags s)"
    and "tell t s ts (ent_path x) dstfile cb COPYFILE_RECURSE_DIR_CLEANUP COPYFILE_FINISH (snd (cc_close c fd (remove_uberace (cc_sec c) fd st e2))) = (COPYFILE_QUIT, e3)"
  shows "tree_cleanup c t s ts x dstfile e = Some (0, e3\<lparr>e_errno := Errno 0\<rparr>)"
  using assms by (simp add: tree_cleanup_def COPYFILE_CONTINUE_def COPYFILE_QUIT_def COPYFILE_SKIP_def case_prod_beta)

end
