(* ===== verification/Tool_Base.thy ===== *)
theory Tool_Base
  imports Clocks
begin

text \<open>
  What the programs under \<open>tools/\<close> share: printing, the numbers of the command line, the description of the system, and the
  loading of the library to be examined.  What a program prints is the list of the texts it hands to \<open>printf\<close> or
  \<open>fprintf\<close>, with the stream.  The functions of \<open>libgen\<close>, \<open>dlfcn\<close> and \<open>sysctl\<close> are parameters, as is the text of an error.
\<close>

section \<open>Printing\<close>

datatype stream = Stdout | Stderr

record tool =
  printed :: "(stream \<times> string) list"
  t_errno :: errno
  handles :: "nat set"

definition say :: "stream \<Rightarrow> string \<Rightarrow> 'x tool_scheme \<Rightarrow> 'x tool_scheme" where
  "say d s w = w\<lparr>printed := printed w @ [(d, s)]\<rparr>"

lemma say_simps [simp]:
  "handles (say d s w) = handles w" "t_errno (say d s w) = t_errno w" "printed (say d s w) = printed w @ [(d, s)]" "tool.more (say d s w) = tool.more w"
  by (simp_all add: say_def)

definition newline :: string where "newline = [char_of (10 :: nat)]"

text \<open>The conversions of \<open>printf\<close> the programs use.\<close>

definition digit :: "nat \<Rightarrow> char" where
  "digit d = char_of (if d < 10 then 48 + d else 55 + d)"

function radix :: "nat \<Rightarrow> nat \<Rightarrow> string" where
  "radix b n = (if n < b \<or> b < 2 then [digit n] else radix b (n div b) @ [digit (n mod b)])"
  by auto
termination by (relation "measure snd") (auto intro: div_less_dividend)

declare radix.simps [simp del]

definition pad :: "nat \<Rightarrow> string \<Rightarrow> string" where "pad n s = replicate (n - length s) CHR '' '' @ s"
definition pad_zero :: "nat \<Rightarrow> string \<Rightarrow> string" where "pad_zero n s = replicate (n - length s) CHR ''0'' @ s"

text \<open>\<open>%d\<close> and \<open>%lld\<close>, \<open>%+lld\<close>, \<open>%llu\<close>, and \<open>%0nX\<close>.\<close>

definition dec :: "int \<Rightarrow> string" where
  "dec i = (if i < 0 then CHR ''-'' # radix 10 (nat (- i)) else radix 10 (nat i))"

definition dec_plus :: "int \<Rightarrow> string" where
  "dec_plus i = (if i < 0 then dec i else CHR ''+'' # dec i)"

definition dec_unsigned :: "u64 \<Rightarrow> string" where "dec_unsigned x = radix 10 (unat x)"
definition hex :: "nat \<Rightarrow> nat \<Rightarrow> string" where "hex n x = pad_zero n (radix 16 x)"

section \<open>The numbers of the command line\<close>

text \<open>\<open>strtol\<close> and \<open>strtoul\<close> with base 0: the sign and the number, and the rest of the text.\<close>

definition isspace :: "char \<Rightarrow> bool" where
  "isspace ch \<longleftrightarrow> ch = CHR '' '' \<or> (9 \<le> (of_char ch :: nat) \<and> (of_char ch :: nat) \<le> 13)"

definition digit_value :: "char \<Rightarrow> nat" where
  "digit_value ch =
     (let n = of_char ch
      in if 48 \<le> n \<and> n \<le> 57 then n - 48 else if 65 \<le> n \<and> n \<le> 90 then n - 55 else if 97 \<le> n \<and> n \<le> 122 then n - 87 else 36)"

fun number :: "nat \<Rightarrow> nat \<Rightarrow> string \<Rightarrow> nat" where
  "number b n [] = n"
| "number b n (ch # s) = number b (n * b + digit_value ch) s"

definition sign_of :: "string \<Rightarrow> bool \<times> string" where
  "sign_of s = (case s of ch # r \<Rightarrow> if ch = CHR ''-'' then (True, r) else if ch = CHR ''+'' then (False, r) else (False, s) | [] \<Rightarrow> (False, s))"

definition base_of :: "string \<Rightarrow> nat \<times> string" where
  "base_of s =
     (case s of
        a # b # c # r \<Rightarrow> if a = CHR ''0'' \<and> (b = CHR ''x'' \<or> b = CHR ''X'') \<and> digit_value c < 16 then (16, c # r)
                          else if a = CHR ''0'' then (8, s) else (10, s)
      | a # r \<Rightarrow> if a = CHR ''0'' then (8, s) else (10, s)
      | [] \<Rightarrow> (10, s))"

definition scan :: "string \<Rightarrow> (bool \<times> nat \<times> string) option" where
  "scan s =
     (let (neg, r) = sign_of (dropWhile isspace s); (b, r) = base_of r; ds = takeWhile (\<lambda>ch. digit_value ch < b) r
      in if ds = [] then None else Some (neg, number b 0 ds, drop (length ds) r))"

definition strtol :: "string \<Rightarrow> int \<times> string" where
  "strtol s = (case scan s of None \<Rightarrow> (0, s)
     | Some (neg, n, r) \<Rightarrow> (if neg then max (- (2 ^ 63)) (- int n) else min (2 ^ 63 - 1) (int n), r))"

definition strtoul :: "string \<Rightarrow> u64 \<times> string" where
  "strtoul s = (case scan s of None \<Rightarrow> (0, s)
     | Some (neg, n, r) \<Rightarrow> (if n \<ge> 2 ^ 64 then - 1 else if neg then - of_nat n else of_nat n, r))"

section \<open>The system and the library\<close>

datatype handle = Library nat | RTLD_NEXT

text \<open>
  \<open>td_sym\<close> is \<open>dlsym\<close>, \<open>td_open\<close> the handle \<open>dlopen\<close> answers with, \<open>td_close\<close> whether \<open>dlclose\<close> succeeds,
  \<open>td_offender\<close> what \<open>realpath\<close> leaves in the buffer when it fails; \<open>td_osrelease\<close>,
  \<open>td_native\<close> and \<open>td_translated\<close> are what \<open>sysctl\<close> says.
\<close>

record tool_system =
  td_sym :: "handle \<Rightarrow> string \<Rightarrow> nat option"
  td_open :: "string \<Rightarrow> nat option"
  td_close :: "nat \<Rightarrow> bool"
  td_dlerror :: string
  td_dirname :: "string \<Rightarrow> string"
  td_basename :: "string \<Rightarrow> string"
  td_realpath :: "string \<Rightarrow> string option"
  td_offender :: "string \<Rightarrow> string"
  td_strerror :: "errno \<Rightarrow> string"
  td_number :: "errno \<Rightarrow> int"
  td_osrelease :: "(string \<times> nat) option"
  td_native :: "int option"
  td_translated :: "int option"

text \<open>The release: \<open>sysctl\<close> fills the buffer of 256 bytes and stores a length, which may count the final zero.\<close>

definition get_osver :: "tool_system \<Rightarrow> int \<times> string" where
  "get_osver y =
     (case td_osrelease y of
        None \<Rightarrow> (-1, [])
      | Some (s, len) \<Rightarrow>
          if len = 0 \<or> len \<ge> 256 then (-1, [])
          else (let t = take len (s @ replicate (len - length s) (char_of (0 :: nat)));
                    t = (if last t = char_of (10 :: nat) then butlast t else t)
                in (0, takeWhile (\<lambda>ch. ch \<noteq> char_of (0 :: nat)) t)))"

definition tool_check_rosetta :: "tool_system \<Rightarrow> int" where
  "tool_check_rosetta y =
     (case td_native y of
        None \<Rightarrow> -1
      | Some native \<Rightarrow> if native = 0 then 1
                        else (case td_translated y of None \<Rightarrow> -1 | Some t \<Rightarrow> if t \<noteq> 0 then 2 else -1))"

definition rosetta_name :: "int \<Rightarrow> string" where
  "rosetta_name n = (if n = -1 then ''native'' else if n = 1 then ''Rosetta 1'' else if n = 2 then ''Rosetta 2'' else ''???'')"

definition MPLSLIB :: string where "MPLSLIB = ''/opt/local/lib/libMacportsLegacySupport.dylib''"
definition LOCALLSLIB :: string where "LOCALLSLIB = ''../lib/libMacportsLegacySupport.dylib''"

text \<open>The messages go to \<open>d\<close>: the standard output in some programs, the standard error in others.\<close>

definition load_lib :: "tool_system \<Rightarrow> stream \<Rightarrow> int \<Rightarrow> string \<Rightarrow> bool \<Rightarrow> 'x tool_scheme \<Rightarrow> nat option \<times> 'x tool_scheme" where
  "load_lib y d legacy progname verbose w =
     (let open_it = (\<lambda>path w.
            case td_open y path of
              None \<Rightarrow> (None, say d (''Unable to open library: '' @ td_dlerror y @ newline) w)
            | Some h \<Rightarrow> (let w = w\<lparr>handles := insert h (handles w)\<rparr>
                         in (Some h, if verbose then say Stdout (''    Loaded '' @ path @ '', handle = 0x'' @ hex 16 h @ newline) w else w)))
      in if legacy > 0 then open_it MPLSLIB w
         else (let lslib = take (PATH_MAX - 1) (td_dirname y progname @ ''/'' @ LOCALLSLIB)
               in case td_realpath y lslib of
                    None \<Rightarrow> (None, say d (''Unable to resolve library path '' @ [char_of (39 :: nat)] @ lslib @ [char_of (39 :: nat)] @ '': '' @ td_strerror y (t_errno w) @ newline) w)
                  | Some path \<Rightarrow> open_it path w))"

definition close_lib :: "tool_system \<Rightarrow> stream \<Rightarrow> nat option \<Rightarrow> 'x tool_scheme \<Rightarrow> 'x tool_scheme" where
  "close_lib y d h w =
     (case h of
        None \<Rightarrow> w
      | Some n \<Rightarrow> if td_close y n then w\<lparr>handles := handles w - {n}\<rparr> else say d (''Unable to close library: '' @ td_dlerror y @ newline) w)"

text \<open>\<open>loud\<close>: a function that is not found is reported in any case (\<open>fileinfo.c\<close>) or only with \<open>-v\<close> (\<open>boottime.c\<close>).\<close>

definition located :: "handle \<Rightarrow> string \<Rightarrow> string" where
  "located h name = ''    Located '' @ name @ '' in library handle '' @ (case h of RTLD_NEXT \<Rightarrow> ''RTLD_NEXT'' | Library n \<Rightarrow> ''0x'' @ hex 16 n) @ newline"

definition func_lookup :: "tool_system \<Rightarrow> bool \<Rightarrow> string \<Rightarrow> nat option \<Rightarrow> bool \<Rightarrow> 'x tool_scheme \<Rightarrow> nat option \<times> 'x tool_scheme" where
  "func_lookup y loud name lib verbose w =
     (let adr = (case lib of None \<Rightarrow> None | Some n \<Rightarrow> td_sym y (Library n) name);
          (adr, h) = (if adr = None then (td_sym y RTLD_NEXT name, RTLD_NEXT) else (adr, (case lib of None \<Rightarrow> RTLD_NEXT | Some n \<Rightarrow> Library n)))
      in (adr, if adr = None
               then (if verbose \<or> loud then say Stdout (''    '' @ name @ '' not found'' @ newline) w else w)
               else if verbose then say Stdout (located h name) w else w))"

text \<open>The options of \<open>boottime\<close> and \<open>fileinfo\<close>: \<open>verbose\<close>, \<open>legacy\<close> and the arguments behind them.\<close>

fun option_chars :: "string \<Rightarrow> nat \<times> int \<Rightarrow> nat \<times> int" where
  "option_chars [] p = p"
| "option_chars (ch # s) (verbose, legacy) =
     option_chars s (if ch = CHR ''v'' then (Suc verbose, legacy) else if ch = CHR ''y'' then (verbose, 1) else if ch = CHR ''Y'' then (verbose, -1) else (verbose, legacy))"

fun options :: "string list \<Rightarrow> nat \<times> int \<Rightarrow> (nat \<times> int) \<times> string list" where
  "options [] p = (p, [])"
| "options (a # as) p = (case a of ch # s \<Rightarrow> if ch = CHR ''-'' then options as (option_chars s p) else (p, a # as) | [] \<Rightarrow> (p, a # as))"

section \<open>Printing and reading a number\<close>

lemma digit_value_digit [simp]: "d < 36 \<Longrightarrow> digit_value (digit d) = d"
  by (auto simp: digit_value_def digit_def of_char_of Let_def)

lemma digit_value_mod [simp]: "2 \<le> b \<Longrightarrow> b \<le> 36 \<Longrightarrow> digit_value (digit (n mod b)) = n mod b"
  by (rule digit_value_digit, rule less_le_trans [of _ b]) auto

lemma number_append: "number b n (s @ t) = number b (number b n s) t"
  by (induction s arbitrary: n) auto

lemma radix_digits: "2 \<le> b \<Longrightarrow> b \<le> 36 \<Longrightarrow> ch \<in> set (radix b n) \<Longrightarrow> digit_value ch < b"
  by (induction b n rule: radix.induct) (subst (asm) (2) radix.simps, auto split: if_splits)

lemma number_radix: "2 \<le> b \<Longrightarrow> b \<le> 36 \<Longrightarrow> number b 0 (radix b n) = n"
  by (induction b n rule: radix.induct) (subst radix.simps, auto simp: number_append)

lemma radix_nonempty [simp]: "radix b n \<noteq> []"
  by (subst radix.simps) simp

lemma radix_head: "2 \<le> b \<Longrightarrow> b \<le> 36 \<Longrightarrow> 0 < n \<Longrightarrow> digit_value (hd (radix b n)) \<noteq> 0"
  by (induction b n rule: radix.induct) (subst radix.simps, auto simp: div_greater_zero_iff)

lemma takeWhile_digits: "2 \<le> b \<Longrightarrow> b \<le> 36 \<Longrightarrow> takeWhile (\<lambda>ch. digit_value ch < b) (radix b n) = radix b n"
  using radix_digits by (simp add: takeWhile_eq_all_conv)

lemma not_special: "digit_value ch < 36 \<Longrightarrow> \<not> isspace ch \<and> ch \<noteq> CHR ''-'' \<and> ch \<noteq> CHR ''+''"
  by (auto simp: isspace_def digit_value_def Let_def split: if_splits)

lemma base_of_radix: "0 < n \<Longrightarrow> base_of (radix 10 n) = (10, radix 10 n)"
  using radix_head [of 10 n] by (cases "radix 10 n") (auto simp: base_of_def digit_value_def split: list.split)

lemma scan_radix:
  assumes "0 < n" and "sign_of (dropWhile isspace s) = (neg, radix 10 n)"
  shows "scan s = Some (neg, n, [])"
  using assms by (simp add: scan_def base_of_radix number_radix takeWhile_digits)

lemma scan_dec:
  assumes "i \<noteq> 0"
  shows "scan (dec i) = Some (i < 0, nat \<bar>i\<bar>, [])"
proof -
  obtain ch r where c: "radix 10 (nat \<bar>i\<bar>) = ch # r" by (cases "radix 10 (nat \<bar>i\<bar>)") auto
  have "digit_value ch < 36" using radix_digits [of 10 ch "nat \<bar>i\<bar>"] c by simp
  then have "sign_of (dropWhile isspace (dec i)) = (i < 0, radix 10 (nat \<bar>i\<bar>))"
    using c not_special [of ch] by (auto simp: dec_def sign_of_def isspace_def)
  then show ?thesis using assms by (intro scan_radix) auto
qed

lemma digit_zero: "digit 0 = CHR ''0''"
  by code_simp

text \<open>What the programs print with \<open>%d\<close> or \<open>%lld\<close>, they read back as an argument, whatever the sign, up to the limits of
  \<open>long\<close>; beyond them \<open>strtol\<close> answers with the nearest limit.\<close>

lemma strtol_dec: "strtol (dec i) = (max (- (2 ^ 63)) (min (2 ^ 63 - 1) i), [])"
proof (cases "i = 0")
  case True
  then show ?thesis
    by (simp add: strtol_def dec_def radix.simps scan_def sign_of_def base_of_def isspace_def digit_zero digit_value_def)
next
  case False
  then show ?thesis by (simp add: strtol_def scan_dec)
qed

end
