(* ===== verification/Clock_Hist.thy ===== *)
theory Clock_Hist
  imports Legacy_Prelude "HOL-Library.Multiset"
begin

text \<open>
  The histogram of \<open>tools/clock_info.c\<close>: the differences of successive samples are stored in a buffer, sorted with \<open>qsort\<close>, and
  runs of equal differences are compressed in place, one index reading and the other writing.  Samples are unsigned words that
  the code converts to signed numbers; the overflow of a signed difference is checked.
\<close>

section \<open>The buffer and its steps\<close>

record histent =
  h_diff :: int
  h_count :: int

text \<open>\<open>e\<close> is the index of the last sample.\<close>

function deltas_loop :: "u64 list \<Rightarrow> nat \<Rightarrow> nat \<Rightarrow> int \<Rightarrow> histent list \<Rightarrow> nat \<Rightarrow> histent list option" where
  "deltas_loop ns e nsp prev hbuf hp =
     (if nsp \<le> e
      then do { v \<leftarrow> mread ns nsp;
                let cur = sint v;
                d \<leftarrow> s64 (cur - prev);
                hbuf \<leftarrow> mwrite hbuf hp \<lparr>h_diff = d, h_count = 0\<rparr>;
                deltas_loop ns e (Suc nsp) cur hbuf (Suc hp) }
      else Some hbuf)"
  by auto
termination by (relation "measure (\<lambda>(ns, e, nsp, _). Suc e - nsp)") auto

declare deltas_loop.simps [simp del]

definition gen_deltas :: "u64 list \<Rightarrow> nat \<Rightarrow> histent list \<Rightarrow> histent list option" where
  "gen_deltas ns e hbuf = do { v \<leftarrow> mread ns 0; deltas_loop ns e 1 (sint v) hbuf 0 }"

text \<open>
  The offsets of interleaved samples: \<open>rb\<close> are the readings of the reference clock and \<open>rns\<close> their nanoseconds, \<open>conv\<close>
  converts a reading.  The sums and their halves are unsigned.
\<close>

function offsets_loop :: "u64 list \<Rightarrow> u64 list \<Rightarrow> nat \<Rightarrow> int \<Rightarrow> nat \<Rightarrow> histent list \<Rightarrow> histent list option" where
  "offsets_loop ns rns n mean_diff i hbuf =
     (if i < n
      then do { cur \<leftarrow> mread rns i;
                next \<leftarrow> mread rns (i + 1);
                let mean = (cur + next) div 2;
                tstcur \<leftarrow> mread ns i;
                let diff = sint (tstcur - mean);
                d \<leftarrow> s64 (diff - mean_diff);
                hbuf \<leftarrow> mwrite hbuf i \<lparr>h_diff = d, h_count = 0\<rparr>;
                offsets_loop ns rns n mean_diff (Suc i) hbuf }
      else Some hbuf)"
  by auto
termination by (relation "measure (\<lambda>(ns, rns, n, _, i, _). n - i)") auto

declare offsets_loop.simps [simp del]

definition gen_offsets :: "(u64 \<Rightarrow> u64 option) \<Rightarrow> u64 list \<Rightarrow> u64 list \<Rightarrow> u64 list \<Rightarrow> nat \<Rightarrow> histent list \<Rightarrow> (int \<times> histent list) option" where
  "gen_offsets conv ns rb rns n hbuf =
     do { a \<leftarrow> mread rb 0; b \<leftarrow> mread rb 1; c \<leftarrow> mread rb (n - 1); d \<leftarrow> mread rb n;
          r \<leftarrow> conv (a + b + c + d);
          let ref_mean = sint (r div 4);
          p \<leftarrow> mread ns 0; q \<leftarrow> mread ns (n - 1);
          let tst_mean = sint ((p + q) div 2);
          mean_diff \<leftarrow> s64 (tst_mean - ref_mean);
          hbuf \<leftarrow> offsets_loop ns rns n mean_diff 0 hbuf;
          Some (mean_diff, hbuf) }"

definition hcomp_diff :: "histent \<Rightarrow> histent \<Rightarrow> int" where
  "hcomp_diff a b = (if h_diff a = h_diff b then 0 else if h_diff a < h_diff b then -1 else 1)"

text \<open>\<open>qsort\<close>: a sorted arrangement of the elements; which one does not matter, as \<open>hsort_unique\<close> shows.\<close>

fun sort_in :: "('a \<Rightarrow> 'a \<Rightarrow> int) \<Rightarrow> 'a \<Rightarrow> 'a list \<Rightarrow> 'a list" where
  "sort_in cmp x [] = [x]"
| "sort_in cmp x (y # ys) = (if cmp x y \<le> 0 then x # y # ys else y # sort_in cmp x ys)"

definition qsort :: "('a \<Rightarrow> 'a \<Rightarrow> int) \<Rightarrow> 'a list \<Rightarrow> 'a list" where
  "qsort cmp xs = foldr (sort_in cmp) xs []"

definition hsort_diff :: "histent list \<Rightarrow> histent list" where
  "hsort_diff h = qsort hcomp_diff h"

text \<open>The compression in place: \<open>hpi\<close> reads and \<open>hpo\<close> writes.  An entry that differs is copied and met again.\<close>

function coll_loop :: "nat \<Rightarrow> histent list \<Rightarrow> nat \<Rightarrow> nat \<Rightarrow> (histent list \<times> nat) option" where
  "coll_loop n h hpi hpo =
     (if hpi < n
      then if hpi < length h \<and> hpo < length h
           then if h_diff (h ! hpi) = h_diff (h ! hpo)
                then do { c \<leftarrow> s32 (h_count (h ! hpo) + 1); coll_loop n (h[hpo := (h ! hpo)\<lparr>h_count := c\<rparr>]) (Suc hpi) hpo }
                else if Suc hpo < length h then coll_loop n (h[Suc hpo := h ! hpi]) hpi (Suc hpo) else None
           else None
      else Some (h, hpo + 1))"
  by auto
termination
  by (relation "measure (\<lambda>(n, h, hpi, hpo). 2 * (n - hpi) + (if hpi < n \<and> h_diff (h ! hpi) \<noteq> h_diff (h ! hpo) then 1 else 0))")
    (auto simp: nth_list_update)

declare coll_loop.simps [simp del]

definition hcoll_diff :: "nat \<Rightarrow> histent list \<Rightarrow> (histent list \<times> nat) option" where
  "hcoll_diff n h = coll_loop n h 0 0"

definition gen_hist :: "u64 list \<Rightarrow> nat \<Rightarrow> histent list \<Rightarrow> (histent list \<times> nat) option" where
  "gen_hist ns n hbuf = do { h \<leftarrow> gen_deltas ns n hbuf; hcoll_diff n (hsort_diff h) }"

definition gen_hist2 :: "(u64 \<Rightarrow> u64 option) \<Rightarrow> u64 list \<Rightarrow> u64 list \<Rightarrow> u64 list \<Rightarrow> nat \<Rightarrow> histent list \<Rightarrow> (int \<times> histent list \<times> nat) option" where
  "gen_hist2 conv ns rb rns n hbuf =
     do { (mean_diff, h) \<leftarrow> gen_offsets conv ns rb rns n hbuf; (h, e) \<leftarrow> hcoll_diff n (hsort_diff h); Some (mean_diff, h, e) }"

section \<open>Sorting\<close>

definition entry :: "int \<Rightarrow> histent" where "entry d = \<lparr>h_diff = d, h_count = 0\<rparr>"

lemma entry_simps [simp]: "h_diff (entry d) = d" "h_count (entry d) = 0" "entry d = entry d' \<longleftrightarrow> d = d'"
  by (simp_all add: entry_def)

lemma sort_in_entry: "sort_in hcomp_diff (entry d) (map entry ds) = map entry (insort d ds)"
  by (induction ds) (auto simp: hcomp_diff_def)

lemma hsort_entries: "hsort_diff (map entry ds) = map entry (sort ds)"
  by (induction ds) (simp_all add: hsort_diff_def qsort_def sort_in_entry)

text \<open>Any arrangement that the comparison function finds sorted is this one.\<close>

lemma hsort_unique:
  assumes "mset h = mset (map entry ds)" and "sorted_wrt (\<lambda>a b. hcomp_diff a b \<le> 0) h"
  shows "h = hsort_diff (map entry ds)"
proof -
  have "\<forall>x \<in> set h. x = entry (h_diff x)" using mset_eq_setD [OF assms(1)] by auto
  then have h: "h = map entry (map h_diff h)" by (simp add: map_idI)
  have "mset (map h_diff h) = mset (map h_diff (map entry ds))" using assms(1) by (metis mset_map)
  then have m: "mset (map h_diff h) = mset ds" by (simp add: comp_def)
  have "sorted_wrt (\<lambda>a b. h_diff a \<le> h_diff b) h" by (rule sorted_wrt_mono_rel [OF _ assms(2)]) (auto simp: hcomp_diff_def split: if_splits)
  then have "sorted (map h_diff h)" by (simp add: sorted_map)
  then have "map h_diff h = sort ds" using m by (metis properties_for_sort)
  then show ?thesis using h hsort_entries by metis
qed

section \<open>Differences\<close>

text \<open>The samples a clock may deliver: below \<open>2 ^ 63\<close>, so that the conversion keeps them.\<close>

definition samples_ok :: "u64 list \<Rightarrow> bool" where
  "samples_ok ns \<longleftrightarrow> (\<forall>v \<in> set ns. uint v < 2 ^ 63)"

definition deltas :: "u64 list \<Rightarrow> int list" where
  "deltas ns = map (\<lambda>i. uint (ns ! Suc i) - uint (ns ! i)) [0..<length ns - 1]"

lemma sample_sint: "samples_ok ns \<Longrightarrow> i < length ns \<Longrightarrow> sint (ns ! i) = uint (ns ! i)"
  by (metis nth_mem samples_ok_def sint_negative_uint sint_nonneg_uint linorder_not_le)

lemma sample_diff:
  assumes "samples_ok ns" and "i < length ns" and "j < length ns"
  shows "s64 (uint (ns ! i) - uint (ns ! j)) = Some (uint (ns ! i) - uint (ns ! j))"
proof -
  have "uint (ns ! i) < 2 ^ 63" "uint (ns ! j) < 2 ^ 63" "0 \<le> uint (ns ! i)" "0 \<le> uint (ns ! j)"
    using assms by (auto simp: samples_ok_def)
  moreover have "s64 (a - b) = Some (a - b)" if "a < 2 ^ 63" "b < 2 ^ 63" "0 \<le> a" "0 \<le> b" for a b
    using that by (simp add: s64_def)
  ultimately show ?thesis by blast
qed

lemma deltas_loop_result:
  assumes "samples_ok ns" and "length ns = Suc n" and "length hbuf = n" and "k \<le> n"
  shows "deltas_loop ns n (Suc k) (uint (ns ! k)) hbuf k = Some (take k hbuf @ map entry (drop k (deltas ns)))"
  using assms(3,4)
proof (induction "n - k" arbitrary: k hbuf)
  case 0
  then show ?case using assms(2) by (subst deltas_loop.simps) (simp add: deltas_def)
next
  case (Suc m)
  let ?d = "uint (ns ! Suc k) - uint (ns ! k)"
  have k: "k < n" using Suc.hyps(2) by simp
  have "deltas_loop ns n (Suc (Suc k)) (uint (ns ! Suc k)) (hbuf[k := entry ?d]) (Suc k)
      = Some (take (Suc k) (hbuf[k := entry ?d]) @ map entry (drop (Suc k) (deltas ns)))"
    using Suc.hyps(1) [of "Suc k" "hbuf[k := entry ?d]"] Suc.hyps(2) Suc.prems k by simp
  moreover have "drop k (deltas ns) = ?d # drop (Suc k) (deltas ns)"
    using k assms(2) by (subst Cons_nth_drop_Suc [symmetric]) (simp_all add: deltas_def)
  moreover have "take (Suc k) (hbuf[k := entry ?d]) = take k hbuf @ [entry ?d]"
    using k Suc.prems by (simp add: take_Suc_conv_app_nth)
  ultimately show ?case
    using k Suc.prems assms(1,2) sample_sint [OF assms(1), of "Suc k"] sample_diff [OF assms(1), of "Suc k" k]
    by (subst deltas_loop.simps) (simp add: mem_simps flip: entry_def)
qed

lemma gen_deltas_result:
  assumes "samples_ok ns" and "length ns = Suc n" and "length hbuf = n"
  shows "gen_deltas ns n hbuf = Some (map entry (deltas ns))"
  using deltas_loop_result [OF assms, of 0] sample_sint [OF assms(1), of 0] assms(2) by (simp add: gen_deltas_def mem_simps)

section \<open>Compression\<close>

definition tally :: "int list \<Rightarrow> int \<Rightarrow> histent" where
  "tally xs d = \<lparr>h_diff = d, h_count = int (count_list xs d)\<rparr>"

lemma tally_simps [simp]: "h_diff (tally xs d) = d" "h_count (tally xs d) = int (count_list xs d)"
  by (simp_all add: tally_def)

text \<open>
  The buffer between two rounds: what was written tallies what was read, with one entry for each difference, in order, and
  what is still to be read is as it was.  The last entry may be a copy of the next one to be read, with no count yet.
\<close>

definition coll_inv :: "int list \<Rightarrow> histent list \<Rightarrow> nat \<Rightarrow> nat \<Rightarrow> int list \<Rightarrow> bool" where
  "coll_inv xs h hpi hpo ys \<longleftrightarrow> length h = length xs \<and> sorted xs \<and> hpi \<le> length xs \<and> hpo \<le> hpi \<and> hpo < length xs
     \<and> length ys = Suc hpo \<and> take (Suc hpo) h = map (tally (take hpi xs)) ys \<and> sorted_wrt (<) ys \<and> set (take hpi xs) \<subseteq> set ys \<and> set ys \<subseteq> set xs
     \<and> (\<forall>j. hpi \<le> j \<and> j < length xs \<longrightarrow> h ! j = entry (xs ! j) \<and> last ys \<le> xs ! j)"

lemma coll_inv_start: "sorted xs \<Longrightarrow> xs \<noteq> [] \<Longrightarrow> coll_inv xs (map entry xs) 0 0 [hd xs]"
  by (cases xs) (auto simp: coll_inv_def entry_def tally_def nth_Cons split: nat.split)

lemma coll_inv_last:
  assumes "coll_inv xs h hpi hpo ys"
  shows "h ! hpo = tally (take hpi xs) (last ys)" and "hpo < length h" and "ys = take hpo ys @ [last ys]"
proof -
  have l: "length ys = Suc hpo" "take (Suc hpo) h = map (tally (take hpi xs)) ys" using assms by (simp_all add: coll_inv_def)
  then have "ys \<noteq> []" by auto
  then have y: "last ys = ys ! hpo" using l(1) by (simp add: last_conv_nth)
  show "hpo < length h" using assms by (simp add: coll_inv_def)
  have "h ! hpo = take (Suc hpo) h ! hpo" by simp
  then show "h ! hpo = tally (take hpi xs) (last ys)" using l y by simp
  show "ys = take hpo ys @ [last ys]" using l(1) y by (metis lessI take_Suc_conv_app_nth take_all_iff order_refl)
qed

lemma coll_inv_count:
  assumes "coll_inv xs h hpi hpo ys" and "hpi < length xs" and "xs ! hpi = last ys"
  shows "coll_inv xs (h[hpo := tally (take (Suc hpi) xs) (last ys)]) (Suc hpi) hpo ys"
proof -
  note l = coll_inv_last [OF assms(1)]
  have t: "take (Suc hpi) xs = take hpi xs @ [last ys]" using assms(2,3) by (simp add: take_Suc_conv_app_nth)
  have "sorted_wrt (<) (take hpo ys @ [last ys])" using assms(1) l(3) by (simp add: coll_inv_def)
  then have "\<forall>d \<in> set (take hpo ys). d \<noteq> last ys" by (auto simp: sorted_wrt_append)
  then have m: "map (tally (take (Suc hpi) xs)) (take hpo ys) = map (tally (take hpi xs)) (take hpo ys)" by (auto simp: t tally_def)
  have "take hpo h = take hpo (take (Suc hpo) h)" by simp
  also have "\<dots> = map (tally (take hpi xs)) (take hpo ys)" using assms(1) by (simp add: coll_inv_def take_map)
  finally have "take (Suc hpo) (h[hpo := tally (take (Suc hpi) xs) (last ys)]) = map (tally (take (Suc hpi) xs)) (take hpo ys) @ [tally (take (Suc hpi) xs) (last ys)]"
    using l(2) m by (simp add: take_Suc_conv_app_nth)
  also have "\<dots> = map (tally (take (Suc hpi) xs)) ys" using l(3) by (metis list.simps(8,9) map_append)
  finally have "take (Suc hpo) (h[hpo := tally (take (Suc hpi) xs) (last ys)]) = map (tally (take (Suc hpi) xs)) ys" .
  moreover have "last ys \<in> set ys" using l(3) by (metis in_set_conv_decomp)
  ultimately show ?thesis using assms t by (auto simp: coll_inv_def)
qed

lemma coll_inv_copy:
  assumes "coll_inv xs h hpi hpo ys" and "hpi < length xs" and "xs ! hpi \<noteq> last ys"
  shows "coll_inv xs (h[Suc hpo := entry (xs ! hpi)]) hpi (Suc hpo) (ys @ [xs ! hpi])" and "Suc hpo \<le> hpi"
proof -
  note l = coll_inv_last [OF assms(1)]
  have less: "last ys < xs ! hpi" using assms by (auto simp: coll_inv_def)
  have "h ! hpi = entry (xs ! hpi)" using assms(1,2) by (simp add: coll_inv_def)
  then have "hpo \<noteq> hpi" using assms(3) l(1) by (metis entry_simps(1) tally_simps(1))
  then show o: "Suc hpo \<le> hpi" using assms(1) by (simp add: coll_inv_def)
  have y: "sorted_wrt (<) (take hpo ys @ [last ys])" using assms(1) l(3) by (simp add: coll_inv_def)
  have above: "d < xs ! hpi" if "d \<in> set ys" for d
  proof -
    have "d \<in> set (take hpo ys @ [last ys])" using that l(3) by simp
    then show ?thesis using y less by (auto simp: sorted_wrt_append dest: less_trans)
  qed
  then have "xs ! hpi \<notin> set (take hpi xs)" using assms(1) by (auto simp: coll_inv_def)
  then have e: "entry (xs ! hpi) = tally (take hpi xs) (xs ! hpi)" by (simp add: entry_def tally_def)
  have "take (Suc (Suc hpo)) (h[Suc hpo := entry (xs ! hpi)]) = take (Suc hpo) h @ [entry (xs ! hpi)]"
    using assms(1,2) o by (simp add: coll_inv_def take_Suc_conv_app_nth)
  then have "take (Suc (Suc hpo)) (h[Suc hpo := entry (xs ! hpi)]) = map (tally (take hpi xs)) (ys @ [xs ! hpi])"
    using assms(1) e by (simp add: coll_inv_def)
  moreover have "xs ! hpi \<le> xs ! j" if "hpi \<le> j" "j < length xs" for j using assms(1) that by (simp add: coll_inv_def sorted_nth_mono)
  ultimately show "coll_inv xs (h[Suc hpo := entry (xs ! hpi)]) hpi (Suc hpo) (ys @ [xs ! hpi])"
    using assms o above by (auto simp: coll_inv_def sorted_wrt_append nth_list_update)
qed

lemma coll_loop_result:
  assumes "coll_inv xs h hpi hpo ys" and "length xs < 2 ^ 31"
  shows "\<exists>h' e zs. coll_loop (length xs) h hpi hpo = Some (h', Suc e) \<and> coll_inv xs h' (length xs) e zs"
  using assms(1)
proof (induction "length xs" h hpi hpo arbitrary: ys rule: coll_loop.induct)
  case (1 h hpi hpo)
  note l = coll_inv_last [OF "1.prems"]
  show ?case
  proof (cases "hpi < length xs")
    case False
    then have "hpi = length xs" using "1.prems" by (simp add: coll_inv_def)
    then show ?thesis using "1.prems" by (subst coll_loop.simps) auto
  next
    case True
    have b: "hpi < length h" "h ! hpi = entry (xs ! hpi)" using "1.prems" True by (simp_all add: coll_inv_def)
    show ?thesis
    proof (cases "xs ! hpi = last ys")
      case eq: True
      have n: "count_list (take hpi xs) (last ys) \<le> hpi" using count_le_length [of "take hpi xs" "last ys"] by simp
      then have s: "s32 (h_count (h ! hpo) + 1) = Some (int (count_list (take (Suc hpi) xs) (last ys)))"
        using l(1) True eq assms(2) by (simp add: take_Suc_conv_app_nth s32_def)
      have u: "tally (take hpi xs) (last ys)\<lparr>h_count := int (count_list (take (Suc hpi) xs) (last ys))\<rparr> = tally (take (Suc hpi) xs) (last ys)"
        by (simp add: tally_def)
      show ?thesis using "1.hyps"(1) [OF True _ _ s, unfolded l(1) u, OF _ _ coll_inv_count [OF "1.prems" True eq]] b l(1,2) s eq True
        by (subst coll_loop.simps) (simp add: u)
    next
      case ne: False
      note c = coll_inv_copy [OF "1.prems" True ne]
      have k: "Suc hpo < length h" using c(2) b(1) by simp
      show ?thesis using "1.hyps"(2) [OF True _ _ k, unfolded b(2), OF _ _ c(1)] b l(1,2) k ne True
        by (subst coll_loop.simps) simp
    qed
  qed
qed

lemma hcoll_result:
  assumes "xs \<noteq> []" and "length xs < 2 ^ 31"
  shows "\<exists>h e. hcoll_diff (length xs) (hsort_diff (map entry xs)) = Some (h, e) \<and> length h = length xs \<and> e \<le> length xs
    \<and> take e h = map (tally xs) (sorted_list_of_set (set xs))"
proof -
  let ?s = "sort xs"
  have "coll_inv ?s (map entry ?s) 0 0 [hd ?s]" by (rule coll_inv_start) (use assms(1) in \<open>simp, metis length_0_conv length_sort\<close>)
  then obtain h e zs where r: "coll_loop (length xs) (map entry ?s) 0 0 = Some (h, Suc e)" "coll_inv ?s h (length xs) e zs"
    using coll_loop_result [of ?s] assms(2) by fastforce
  have z: "sorted_wrt (<) zs" "set zs = set xs" using r(2) by (auto simp: coll_inv_def)
  then have "zs = sorted_list_of_set (set xs)" by (metis List.finite_set strict_sorted_equal strict_sorted_list_of_set set_sorted_list_of_set)
  moreover have "tally ?s = tally xs" by (simp add: fun_eq_iff tally_def flip: count_mset)
  ultimately show ?thesis using r by (auto simp: hcoll_diff_def hsort_entries coll_inv_def)
qed

lemma gen_hist_result:
  assumes "samples_ok ns" and "length ns = Suc n" and "length hbuf = n" and "0 < n" and "n < 2 ^ 31"
  shows "\<exists>h e. gen_hist ns n hbuf = Some (h, e) \<and> length h = n \<and> e \<le> n \<and> take e h = map (tally (deltas ns)) (sorted_list_of_set (set (deltas ns)))"
proof -
  have l: "length (deltas ns) = n" using assms(2) by (simp add: deltas_def)
  then have "deltas ns \<noteq> []" using assms(4) by auto
  then show ?thesis using hcoll_result [of "deltas ns"] l assms(5) gen_deltas_result [OF assms(1-3)] by (simp add: gen_hist_def)
qed

text \<open>C28: the histogram.  For any samples below \<open>2 ^ 63\<close>, sorting the differences and compressing them in place yields, in order,
  every difference that occurs, once, with the number of times it occurs; nothing outside the buffer is touched.\<close>

theorem gen_hist_correct:
  assumes "samples_ok ns" and "length ns = Suc n" and "length hbuf = n" and "0 < n" and "n < 2 ^ 31"
  shows "\<exists>h e. gen_hist ns n hbuf = Some (h, e) \<and> length h = n \<and> e \<le> n \<and> take e h = map (tally (deltas ns)) (sorted_list_of_set (set (deltas ns)))"
  using assms by (rule gen_hist_result)

lemma gen_hist_correct_witness:
  "\<exists>h e. gen_hist [10, 15, 20, 27, 32] 4 (replicate 4 (entry 0)) = Some (h, e) \<and> take e h = [\<lparr>h_diff = 5, h_count = 3\<rparr>, \<lparr>h_diff = 7, h_count = 1\<rparr>]"
proof -
  have d: "deltas [10, 15, 20, 27, 32] = [5, 5, 7, 5]" by (simp add: deltas_def upt_rec)
  then have "map (tally (deltas [10, 15, 20, 27, 32])) (sorted_list_of_set (set (deltas [10, 15, 20, 27, 32]))) = [\<lparr>h_diff = 5, h_count = 3\<rparr>, \<lparr>h_diff = 7, h_count = 1\<rparr>]"
    by (simp add: tally_def insert_commute)
  then show ?thesis using gen_hist_correct [of "[10, 15, 20, 27, 32]" 4 "replicate 4 (entry 0)"] by (auto simp: samples_ok_def)
qed

section \<open>Offsets\<close>

definition offset :: "u64 list \<Rightarrow> u64 list \<Rightarrow> nat \<Rightarrow> int" where
  "offset ns rns i = sint (ns ! i - (rns ! i + rns ! Suc i) div 2)"

lemma offsets_loop_result:
  assumes "length ns \<ge> n" and "length rns = Suc n" and "length hbuf = n" and "k \<le> n" and "\<forall>i<n. - (2 ^ 63) \<le> offset ns rns i - m \<and> offset ns rns i - m < 2 ^ 63"
  shows "offsets_loop ns rns n m k hbuf = Some (take k hbuf @ map (\<lambda>i. entry (offset ns rns i - m)) [k..<n])"
  using assms(3,4)
proof (induction "n - k" arbitrary: k hbuf)
  case 0
  then show ?case by (subst offsets_loop.simps) simp
next
  case (Suc j)
  have k: "k < n" using Suc.hyps(2) by simp
  let ?h = "hbuf[k := entry (offset ns rns k - m)]"
  have r: "offsets_loop ns rns n m (Suc k) ?h = Some (take (Suc k) ?h @ map (\<lambda>i. entry (offset ns rns i - m)) [Suc k..<n])"
    using Suc.hyps(1) [of "Suc k" ?h] Suc.hyps(2) Suc.prems k by simp
  moreover have "[k..<n] = k # [Suc k..<n]" using k by (simp add: upt_conv_Cons)
  moreover have "take (Suc k) ?h = take k hbuf @ [entry (offset ns rns k - m)]" using k Suc.prems by (simp add: take_Suc_conv_app_nth)
  moreover have "s64 (offset ns rns k - m) = Some (offset ns rns k - m)" using assms(5) k by (simp add: s64_def)
  ultimately show ?case
    using k Suc.prems assms(1,2) by (subst offsets_loop.simps) (simp add: mem_simps offset_def flip: entry_def)
qed

text \<open>A sample that was taken between two readings of the reference is off their mean by at most half of what lies between them.\<close>

lemma offset_bounded:
  assumes "rns ! i \<le> ns ! i" and "ns ! i \<le> rns ! Suc i" and "uint (rns ! Suc i) < 2 ^ 63"
  shows "2 * \<bar>offset ns rns i\<bar> \<le> uint (rns ! Suc i) - uint (rns ! i) + 1"
proof -
  let ?a = "uint (rns ! i)" and ?b = "uint (rns ! Suc i)" and ?v = "uint (ns ! i)"
  have o: "0 \<le> ?a" "?a \<le> ?v" "?v \<le> ?b" "?b < 2 ^ 63" using assms by (simp_all add: word_le_def)
  have s: "uint (rns ! i + rns ! Suc i) = ?a + ?b" using o by (simp add: uint_word_ariths)
  then have m: "uint ((rns ! i + rns ! Suc i) div 2) = (?a + ?b) div 2" by (simp add: uint_div)
  have w: "sint x = uint x" if "uint x < 2 ^ 63" for x :: u64
    using that sint_negative_uint [of x] sint_nonneg_uint [of x] by linarith
  have "uint ((rns ! i + rns ! Suc i) div 2) < 2 ^ 63" using m o by simp
  then have "offset ns rns i = signed_take_bit 63 (?v - (?a + ?b) div 2)"
    using m o w [of "ns ! i"] w [of "(rns ! i + rns ! Suc i) div 2"] by (simp add: offset_def sint_word_ariths)
  also have "\<dots> = ?v - (?a + ?b) div 2" 
  proof -
    have "- (2 ^ 63) \<le> v - (a + b) div 2 \<and> v - (a + b) div 2 < 2 ^ 63" if "0 \<le> a" "a \<le> v" "v \<le> b" "b < 2 ^ 63" for a b v :: int
      using that by auto
    from this [OF o] show ?thesis by (intro signed_take_bit_int_eq_self) simp_all
  qed
  finally show ?thesis using o by linarith
qed

end
