(* ===== verification/Clock_Tool.thy ===== *)
theory Clock_Tool
  imports Tool_Base Clock_Hist
begin

text \<open>
  \<open>tools/clock_info.c\<close>: the program takes a run of samples of a clock, alone or interleaved with \<open>mach_absolute_time\<close>, and
  prints the histogram of their differences.  The clocks, \<open>usleep\<close>, the memory and the loader are parameters; \<open>long double\<close>
  arithmetic is rational arithmetic with a rounding \<open>cs_fl\<close>, and \<open>cs_f3\<close> is the conversion \<open>%.3f\<close>.  A pointer to a block is the block's number beside the contents, so
  that a block freed twice is seen.  \<open>None\<close> is undefined behaviour, the abort of \<open>assert\<close>, or a loop that does not end.
\<close>

section \<open>Tables and state\<close>

datatype clock_type = clock_type_mach | clock_type_timeofday | clock_type_gettime | clock_type_gettime_ns

definition gettime_ids :: "clockid list" where
  "gettime_ids = [CLOCK_REALTIME, CLOCK_MONOTONIC, CLOCK_MONOTONIC_RAW, CLOCK_MONOTONIC_RAW_APPROX, CLOCK_UPTIME_RAW, CLOCK_UPTIME_RAW_APPROX]"

definition mach_names :: "string list" where
  "mach_names = [''mach_absolute_time'', ''mach_approximate_time'', ''mach_continuous_time'', ''mach_continuous_approximate_time'']"

definition gettime_names :: "string list" where
  "gettime_names = [''CLOCK_REALTIME'', ''CLOCK_MONOTONIC'', ''CLOCK_MONOTONIC_RAW'', ''CLOCK_MONOTONIC_RAW_APPROX'', ''CLOCK_UPTIME_RAW'', ''CLOCK_UPTIME_RAW_APPROX'']"

definition clock_types :: "clock_type list" where
  "clock_types = [clock_type_timeofday] @ replicate 4 clock_type_mach @ replicate 6 clock_type_gettime @ replicate 6 clock_type_gettime_ns"

definition clock_func_names :: "string list" where
  "clock_func_names = [''gettimeofday''] @ mach_names @ replicate 6 ''clock_gettime'' @ replicate 6 ''clock_gettime_nsec_np''"

definition clock_ids :: "clockid list" where
  "clock_ids = replicate 5 CLOCK_REALTIME @ gettime_ids @ gettime_ids"

definition clock_names :: "string option list" where
  "clock_names = map Some ([''timeofday''] @ mach_names @ gettime_names @ map (\<lambda>s. s @ ''_ns'') gettime_names) @ [None]"

definition REF_CLOCK_IDX :: nat where "REF_CLOCK_IDX = 1"

text \<open>The values of the four types of clocks, and what \<open>calloc\<close> leaves in their buffers.\<close>

datatype clock_val = Mach u64 | Tod timeval | Ts timespec | Ns u64

definition zero_val :: "clock_type \<Rightarrow> clock_val" where
  "zero_val t = (case t of clock_type_mach \<Rightarrow> Mach 0 | clock_type_timeofday \<Rightarrow> Tod \<lparr>tv_s = 0, tv_us = 0\<rparr>
     | clock_type_gettime \<Rightarrow> Ts \<lparr>tv_sec = 0, tv_nsec = 0\<rparr> | clock_type_gettime_ns \<Rightarrow> Ns 0)"

record clock_info =
  ci_idx :: nat
  ci_type :: clock_type
  ci_numdiffs :: nat
  ci_sleepus :: int
  ci_f :: "nat option"
  ci_clkid :: clockid
  ci_b :: "nat option"
  ci_vals :: "clock_val list"
  ci_nsp :: "nat option"
  ci_nsbuf :: "u64 list"
  ci_hp :: "nat option"
  ci_hbuf :: "histent list"
  ci_hbufe :: nat
  ci_mean_diff :: int

definition zero_info :: clock_info where
  "zero_info = \<lparr>ci_idx = 0, ci_type = clock_type_mach, ci_numdiffs = 0, ci_sleepus = 0, ci_f = None, ci_clkid = CLOCK_REALTIME, ci_b = None, ci_vals = [],
     ci_nsp = None, ci_nsbuf = [], ci_hp = None, ci_hbuf = [], ci_hbufe = 0, ci_mean_diff = 0\<rparr>"

text \<open>The allocated blocks and the scale factors \<open>mach2nanos\<close> and \<open>mach2usecs\<close>, zero until they are set up.\<close>

record ctool = tool +
  heap :: "nat set"
  next_block :: nat
  m2n :: rat
  m2u :: rat

record 'w clock_sys =
  cs_tool :: tool_system
  cs_mach :: "'w \<Rightarrow> u64 \<times> 'w"
  cs_machf :: "nat \<Rightarrow> 'w \<Rightarrow> u64 \<times> 'w"
  cs_tod :: "nat \<Rightarrow> 'w \<Rightarrow> (int \<times> timeval) \<times> 'w"
  cs_gettime :: "nat \<Rightarrow> clockid \<Rightarrow> 'w \<Rightarrow> (int \<times> timespec) \<times> 'w"
  cs_gettime_ns :: "nat \<Rightarrow> clockid \<Rightarrow> 'w \<Rightarrow> u64 \<times> 'w"
  cs_usleep :: "u32 \<Rightarrow> 'w \<Rightarrow> 'w"
  cs_timebase :: "int \<times> u32 \<times> u32"
  cs_fl :: "rat \<Rightarrow> rat"
  cs_mem :: "'w \<Rightarrow> bool"
  cs_f3 :: "rat \<Rightarrow> string"

definition setup_info :: "clock_info \<Rightarrow> nat \<Rightarrow> nat \<Rightarrow> int \<Rightarrow> clock_info option" where
  "setup_info ci idx numdiffs sleepms =
     do { t \<leftarrow> mread clock_types idx; us \<leftarrow> s64 (sleepms * 1000); i \<leftarrow> mread clock_ids idx;
          Some (ci\<lparr>ci_idx := idx, ci_type := t, ci_numdiffs := numdiffs, ci_sleepus := us, ci_clkid := i\<rparr>) }"

section \<open>Times\<close>

definition tv2nsec :: "timeval \<Rightarrow> u64 option" where
  "tv2nsec tv = do { us \<leftarrow> s32 (tv_us tv * 1000); Some (word_of_int (tv_s tv) * BILLION + word_of_int us) }"

text \<open>The conversion of a \<open>long double\<close> to an unsigned type of \<open>b\<close> bits is defined where the value fits.\<close>

definition to_unsigned :: "nat \<Rightarrow> rat \<Rightarrow> int option" where
  "to_unsigned b x = (if - 1 < x \<and> x < 2 ^ b then Some (if x < 0 then 0 else \<lfloor>x\<rfloor>) else None)"

definition mt2nsec :: "'x ctool_scheme clock_sys \<Rightarrow> u64 \<Rightarrow> 'x ctool_scheme \<Rightarrow> u64 option" where
  "mt2nsec c t w = map_option word_of_int (to_unsigned 64 (cs_fl c (cs_fl c (of_int (uint t)) * m2n w)))"

definition ts2nsec :: "timespec \<Rightarrow> u64" where "ts2nsec ts = tv_sec ts * BILLION + tv_nsec ts"

definition mt2usec :: "'x ctool_scheme clock_sys \<Rightarrow> u64 \<Rightarrow> 'x ctool_scheme \<Rightarrow> u32 option" where
  "mt2usec c t w = map_option word_of_int (to_unsigned 32 (cs_fl c (cs_fl c (of_int (uint t)) * m2u w)))"

definition mach_usec :: "'x ctool_scheme clock_sys \<Rightarrow> 'x ctool_scheme \<Rightarrow> (u32 \<times> 'x ctool_scheme) option" where
  "mach_usec c w = (let (t, w) = cs_mach c w in do { us \<leftarrow> mt2usec c t w; Some (us, w) })"

partial_function (option) usleepx_loop :: "'x ctool_scheme clock_sys \<Rightarrow> u32 \<Rightarrow> u32 \<Rightarrow> 'x ctool_scheme \<Rightarrow> 'x ctool_scheme option" where
  "usleepx_loop c target now w =
     (let w = cs_usleep c (target - now) w
      in do { (now, w) \<leftarrow> mach_usec c w;
              if now < target then usleepx_loop c target now w else Some w })"

declare usleepx_loop.simps [simp del]

definition usleepx :: "'x ctool_scheme clock_sys \<Rightarrow> u32 \<Rightarrow> 'x ctool_scheme \<Rightarrow> 'x ctool_scheme option" where
  "usleepx c usecs w = do { (now, w) \<leftarrow> mach_usec c w; usleepx_loop c (now + usecs) now w }"

text \<open>The scale; with a denominator of zero no conversion is defined.\<close>

definition setup_mach :: "'x ctool_scheme clock_sys \<Rightarrow> bool \<Rightarrow> 'x ctool_scheme \<Rightarrow> (int \<times> 'x ctool_scheme) option" where
  "setup_mach c verbose w =
     (let (err, numer, denom) = cs_timebase c
      in if err \<noteq> 0 then Some (err, w)
         else if denom = 0 then None
         else (let s = cs_fl c (of_int (uint numer) / of_int (uint denom));
                   w = w\<lparr>m2n := s, m2u := cs_fl c (s / 1000)\<rparr>
               in Some (0, if verbose
                           then say Stdout (''  Scale for mach_time (nanoseconds per unit) is '' @ dec (uint numer) @ ''/'' @ dec (uint denom) @ '' = '' @ cs_f3 c s @ newline) w
                           else w)))"

section \<open>Functions and buffers\<close>

definition clock_lookup :: "tool_system \<Rightarrow> string \<Rightarrow> handle option \<Rightarrow> nat option \<times> handle option" where
  "clock_lookup y name h =
     (case h of
        None \<Rightarrow> (td_sym y RTLD_NEXT name, Some RTLD_NEXT)
      | Some l \<Rightarrow> (case td_sym y l name of Some adr \<Rightarrow> (Some adr, Some l) | None \<Rightarrow> (td_sym y RTLD_NEXT name, Some RTLD_NEXT)))"

text \<open>The name of a function that is not there, or nothing.\<close>

definition clock_find :: "tool_system \<Rightarrow> clock_info \<Rightarrow> nat option \<Rightarrow> bool \<Rightarrow> 'x ctool_scheme \<Rightarrow> (string option \<times> clock_info \<times> 'x ctool_scheme) option" where
  "clock_find y ci lib verbose w =
     do { name \<leftarrow> mread clock_func_names (ci_idx ci);
          let (f, h) = clock_lookup y name (map_option Library lib);
          Some (case f of
                  None \<Rightarrow> (Some name, ci, w)
                | Some adr \<Rightarrow> (None, ci\<lparr>ci_f := Some adr\<rparr>, if verbose then say Stdout (located (the h) name) w else w)) }"

definition calloc :: "'x ctool_scheme clock_sys \<Rightarrow> 'x ctool_scheme \<Rightarrow> nat option \<times> 'x ctool_scheme" where
  "calloc c w = (if cs_mem c w then (Some (next_block w), w\<lparr>heap := insert (next_block w) (heap w), next_block := Suc (next_block w)\<rparr>)
                 else (None, w\<lparr>t_errno := ENOMEM\<rparr>))"

definition free :: "nat option \<Rightarrow> 'x ctool_scheme \<Rightarrow> 'x ctool_scheme option" where
  "free p w = (case p of None \<Rightarrow> Some w | Some b \<Rightarrow> if b \<in> heap w then Some (w\<lparr>heap := heap w - {b}\<rparr>) else None)"

definition clock_alloc :: "'x ctool_scheme clock_sys \<Rightarrow> clock_info \<Rightarrow> 'x ctool_scheme \<Rightarrow> (int \<times> clock_info \<times> 'x ctool_scheme) option" where
  "clock_alloc c ci w =
     (let n = ci_numdiffs ci;
          (bufp, w) = calloc c w;
          ci = ci\<lparr>ci_b := bufp, ci_vals := replicate (n + 1) (zero_val (ci_type ci))\<rparr>
      in if bufp = None then Some (-1, ci, w)
         else (let (nsp, w) = calloc c w; ci = ci\<lparr>ci_nsp := nsp, ci_nsbuf := replicate (n + 1) 0\<rparr>
               in if nsp = None then do { w' \<leftarrow> free bufp w; Some (-1, ci, w'\<lparr>t_errno := t_errno w\<rparr>) }
                  else (let (hp, w) = calloc c w; ci = ci\<lparr>ci_hp := hp, ci_hbuf := replicate n \<lparr>h_diff = 0, h_count = 0\<rparr>\<rparr>
                        in if hp = None then do { w' \<leftarrow> free nsp w; w' \<leftarrow> free bufp w'; Some (-1, ci, w'\<lparr>t_errno := t_errno w\<rparr>) }
                           else Some (0, ci, w))))"

definition clock_free :: "clock_info \<Rightarrow> 'x ctool_scheme \<Rightarrow> (clock_info \<times> 'x ctool_scheme) option" where
  "clock_free ci w =
     do { w \<leftarrow> free (ci_hp ci) w; w \<leftarrow> free (ci_nsp ci) w; w \<leftarrow> free (ci_b ci) w;
          Some (ci\<lparr>ci_b := None, ci_hp := None, ci_nsp := None\<rparr>, w) }"

section \<open>Sampling\<close>

text \<open>One call of the clock, with the value the code tests for zero.\<close>

definition sample :: "'x ctool_scheme clock_sys \<Rightarrow> clock_info \<Rightarrow> 'x ctool_scheme \<Rightarrow> (int \<times> clock_val \<times> 'x ctool_scheme) option" where
  "sample c ci w =
     do { f \<leftarrow> ci_f ci;
          Some (case ci_type ci of
                  clock_type_mach \<Rightarrow> (let (v, w) = cs_machf c f w in (0, Mach v, w))
                | clock_type_timeofday \<Rightarrow> (let ((ret, v), w) = cs_tod c f w in (ret, Tod v, w))
                | clock_type_gettime \<Rightarrow> (let ((ret, v), w) = cs_gettime c f (ci_clkid ci) w in (ret, Ts v, w))
                | clock_type_gettime_ns \<Rightarrow> (let (v, w) = cs_gettime_ns c f (ci_clkid ci) w in (if v = 0 then -1 else 0, Ns v, w))) }"

text \<open>The call that warms the caches; the functions that store a structure store it in the first place of the buffer.\<close>

definition warm_up :: "'x ctool_scheme clock_sys \<Rightarrow> clock_info \<Rightarrow> 'x ctool_scheme \<Rightarrow> (clock_val list \<times> 'x ctool_scheme) option" where
  "warm_up c ci w =
     do { (_, v, w) \<leftarrow> sample c ci w;
          vals \<leftarrow> (if ci_type ci = clock_type_timeofday \<or> ci_type ci = clock_type_gettime then mwrite (ci_vals ci) 0 v else Some (ci_vals ci));
          Some (vals, w) }"

definition to_ns :: "'x ctool_scheme clock_sys \<Rightarrow> clock_val \<Rightarrow> 'x ctool_scheme \<Rightarrow> u64 option" where
  "to_ns c v w = (case v of Mach t \<Rightarrow> mt2nsec c t w | Tod tv \<Rightarrow> tv2nsec tv | Ts ts \<Rightarrow> Some (ts2nsec ts) | Ns n \<Rightarrow> Some n)"

function collect_loop :: "'x ctool_scheme clock_sys \<Rightarrow> clock_info \<Rightarrow> nat \<Rightarrow> clock_val list \<Rightarrow> 'x ctool_scheme \<Rightarrow> (int \<times> clock_val list \<times> 'x ctool_scheme) option" where
  "collect_loop c ci i vals w =
     (if i \<le> ci_numdiffs ci
      then do { (ret, v, w) \<leftarrow> sample c ci w;
                vals \<leftarrow> mwrite vals i v;
                if ret \<noteq> 0 then Some (ret, vals, w) else collect_loop c ci (Suc i) vals w }
      else Some (0, vals, w))"
  by auto
termination by (relation "measure (\<lambda>(c, ci, i, _). Suc (ci_numdiffs ci) - i)") auto

declare collect_loop.simps [simp del]

text \<open>The conversion of the samples before \<open>stop\<close>.\<close>

function convert_loop :: "(clock_val \<Rightarrow> u64 option) \<Rightarrow> clock_val list \<Rightarrow> nat \<Rightarrow> nat \<Rightarrow> u64 list \<Rightarrow> u64 list option" where
  "convert_loop conv vals stop i ns =
     (if i < stop then do { v \<leftarrow> mread vals i; n \<leftarrow> conv v; ns \<leftarrow> mwrite ns i n; convert_loop conv vals stop (Suc i) ns } else Some ns)"
  by auto
termination by (relation "measure (\<lambda>(conv, vals, stop, i, _). stop - i)") auto

declare convert_loop.simps [simp del]

definition clock_collect :: "'x ctool_scheme clock_sys \<Rightarrow> clock_info \<Rightarrow> 'x ctool_scheme \<Rightarrow> (int \<times> clock_info \<times> 'x ctool_scheme) option" where
  "clock_collect c ci w =
     do { w \<leftarrow> usleepx c (word_of_int (ci_sleepus ci)) w;
          (vals, w) \<leftarrow> warm_up c ci w;
          (ret, vals, w) \<leftarrow> collect_loop c ci 0 vals w;
          if ret \<noteq> 0 then Some (ret, ci\<lparr>ci_vals := vals\<rparr>, w)
          else do { ns \<leftarrow> convert_loop (\<lambda>v. to_ns c v w) vals (ci_numdiffs ci + 1) 0 (ci_nsbuf ci);
                    Some (0, ci\<lparr>ci_vals := vals, ci_nsbuf := ns\<rparr>, w) } }"

text \<open>Samples with a reading of \<open>mach_absolute_time\<close> behind each.\<close>

function compare_loop :: "'x ctool_scheme clock_sys \<Rightarrow> clock_info \<Rightarrow> nat \<Rightarrow> clock_val list \<Rightarrow> clock_val list \<Rightarrow> 'x ctool_scheme
    \<Rightarrow> (int \<times> clock_val list \<times> clock_val list \<times> 'x ctool_scheme) option" where
  "compare_loop c ci i vals rvals w =
     (if i < ci_numdiffs ci
      then do { (ret, v, w) \<leftarrow> sample c ci w;
                vals \<leftarrow> mwrite vals i v;
                if ret \<noteq> 0 then Some (ret, vals, rvals, w)
                else (let (t, w) = cs_mach c w in do { rvals \<leftarrow> mwrite rvals (Suc i) (Mach t); compare_loop c ci (Suc i) vals rvals w }) }
      else Some (0, vals, rvals, w))"
  by auto
termination by (relation "measure (\<lambda>(c, ci, i, _). ci_numdiffs ci - i)") auto

declare compare_loop.simps [simp del]

definition clock_compare :: "'x ctool_scheme clock_sys \<Rightarrow> clock_info \<Rightarrow> clock_info \<Rightarrow> 'x ctool_scheme \<Rightarrow> (int \<times> clock_info \<times> clock_info \<times> 'x ctool_scheme) option" where
  "clock_compare c ci rci w =
     (if ci_idx rci \<noteq> REF_CLOCK_IDX then None
      else do { w \<leftarrow> usleepx c (word_of_int (ci_sleepus ci)) w;
                let (_, w) = cs_mach c w;
                (vals, w) \<leftarrow> warm_up c ci w;
                let (t, w) = cs_mach c w;
                rvals \<leftarrow> mwrite (ci_vals rci) 0 (Mach t);
                (ret, vals, rvals, w) \<leftarrow> compare_loop c ci 0 vals rvals w;
                if ret \<noteq> 0 then Some (ret, ci\<lparr>ci_vals := vals\<rparr>, rci\<lparr>ci_vals := rvals\<rparr>, w)
                else do { ns \<leftarrow> convert_loop (\<lambda>v. to_ns c v w) vals (ci_numdiffs ci) 0 (ci_nsbuf ci);
                          rns \<leftarrow> convert_loop (\<lambda>v. to_ns c v w) rvals (ci_numdiffs rci + 1) 0 (ci_nsbuf rci);
                          Some (0, ci\<lparr>ci_vals := vals, ci_nsbuf := ns\<rparr>, rci\<lparr>ci_vals := rvals, ci_nsbuf := rns\<rparr>, w) } })"

section \<open>Printing\<close>

text \<open>\<open>last\<close> is a signed number, and the difference is cut to an \<open>int\<close>.\<close>

definition cut :: "u64 \<Rightarrow> int" where "cut x = sint (ucast x :: u32)"

function dump_loop :: "nat \<Rightarrow> nat \<Rightarrow> u64 list \<Rightarrow> nat \<Rightarrow> u64 \<Rightarrow> 'x tool_scheme \<Rightarrow> 'x tool_scheme option" where
  "dump_loop quiet n ns index prev w =
     (if index \<le> n
      then do { cur \<leftarrow> mread ns index;
                let line = (if quiet > 2 then pad 7 (dec (int index)) @ '' '' @ dec_unsigned cur @ '' '' @ pad 4 (dec (cut (cur - prev))) @ newline
                            else if sint prev < 0 then pad 7 (dec (int index)) @ '': '' @ dec_unsigned cur @ newline
                            else pad 7 (dec (int index)) @ '': '' @ dec_unsigned cur @ '' ('' @ dec (cut (cur - prev)) @ '')'' @ newline);
                dump_loop quiet n ns (Suc index) cur (say Stdout line w) }
      else Some w)"
  by auto
termination by (relation "measure (\<lambda>(quiet, n, ns, index, _). Suc n - index)") auto

declare dump_loop.simps [simp del]

definition quoted :: "string \<Rightarrow> string" where "quoted s = char_of (39 :: nat) # s @ [char_of (39 :: nat)]"

text \<open>The name of a clock in the table; the null pointer at its end is no text.\<close>

definition clock_name :: "nat \<Rightarrow> string option" where "clock_name i = Option.bind (mread clock_names i) id"

definition clock_dump_ns :: "clock_info \<Rightarrow> nat \<Rightarrow> 'x tool_scheme \<Rightarrow> 'x tool_scheme option" where
  "clock_dump_ns ci quiet w =
     do { name \<leftarrow> clock_name (ci_idx ci); first \<leftarrow> mread (ci_nsbuf ci) 0;
          let w = (if quiet = 0 then say Stdout (''Samples of '' @ quoted name @ '':'' @ newline) w else w);
          dump_loop quiet (ci_numdiffs ci) (ci_nsbuf ci) 0 (if quiet > 2 then first else -1) w }"

function dual_loop :: "nat \<Rightarrow> nat \<Rightarrow> u64 list \<Rightarrow> u64 list \<Rightarrow> int \<Rightarrow> nat \<Rightarrow> u64 \<Rightarrow> 'x tool_scheme \<Rightarrow> (u64 \<times> 'x tool_scheme) option" where
  "dual_loop quiet n ns rns mean_diff index prev w =
     (if index < n
      then do { cur \<leftarrow> mread rns index;
                let w = (if quiet > 2 then w
                         else if sint prev < 0 then say Stdout (pad 7 (dec (int index)) @ '': '' @ dec_unsigned cur @ newline) w
                         else say Stdout (pad 7 (dec (int index)) @ '': '' @ dec_unsigned cur @ '' ('' @ dec (cut (cur - prev)) @ '')'' @ newline) w);
                next \<leftarrow> mread rns (index + 1);
                let mean = (cur + next) div 2;
                tstcur \<leftarrow> mread ns index;
                d \<leftarrow> s64 (sint (tstcur - mean) - mean_diff);
                let w = (if quiet \<le> 2
                         then say Stdout (''         '' @ dec_unsigned tstcur @ '' ('' @ dec (sint mean) @ '' +mean_diff '' @ dec_plus d @ '')'' @ newline) w
                         else say Stdout (pad 7 (dec (int index)) @ '' '' @ dec_unsigned cur @ '' '' @ pad 4 (dec (cut (cur - prev))) @ '' ''
                                @ dec_unsigned tstcur @ '' '' @ dec (sint mean) @ '' '' @ pad 4 (dec_plus d) @ newline) w);
                dual_loop quiet n ns rns mean_diff (Suc index) cur w }
      else Some (prev, w))"
  by auto
termination by (relation "measure (\<lambda>(quiet, n, ns, rns, mean_diff, index, _). n - index)") auto

declare dual_loop.simps [simp del]

text \<open>The readings of a mach clock.\<close>

definition mach_of :: "clock_val \<Rightarrow> u64 option" where "mach_of v = (case v of Mach t \<Rightarrow> Some t | _ \<Rightarrow> None)"

definition readings_of :: "clock_info \<Rightarrow> u64 list option" where "readings_of ci = those (map mach_of (ci_vals ci))"

definition clock_dump_dual_ns :: "'x ctool_scheme clock_sys \<Rightarrow> clock_info \<Rightarrow> clock_info \<Rightarrow> nat \<Rightarrow> 'x ctool_scheme \<Rightarrow> 'x ctool_scheme option" where
  "clock_dump_dual_ns c ci rci quiet w =
     do { let n = ci_numdiffs ci;
          first \<leftarrow> mread (ci_nsbuf rci) 0;
          rb \<leftarrow> readings_of rci;
          a \<leftarrow> mread rb 0; b \<leftarrow> mread rb 1; x \<leftarrow> mread rb (n - 1); d \<leftarrow> mread rb n;
          r \<leftarrow> mt2nsec c (a + b + x + d) w;
          let ref_mean = sint (r div 4);
          p \<leftarrow> mread (ci_nsbuf ci) 0; q \<leftarrow> mread (ci_nsbuf ci) (n - 1);
          let tst_mean = sint ((p + q) div 2);
          mean_diff \<leftarrow> s64 (tst_mean - ref_mean);
          name \<leftarrow> clock_name (ci_idx ci); rname \<leftarrow> clock_name (ci_idx rci);
          let w = (if quiet = 0
                   then say Stdout (''  Ref mean = '' @ dec ref_mean @ '', Test mean = '' @ dec tst_mean @ '', Diff = '' @ dec mean_diff @ newline)
                          (say Stdout (''Samples (ns) of '' @ quoted name @ '', interleaved with '' @ quoted rname @ '':'' @ newline) w)
                   else w);
          (prev, w) \<leftarrow> dual_loop quiet n (ci_nsbuf ci) (ci_nsbuf rci) mean_diff 0 (if quiet > 2 then first else -1) w;
          cur \<leftarrow> mread (ci_nsbuf rci) n;
          Some (say Stdout (if quiet \<le> 2 then pad 7 (dec (int n)) @ '': '' @ dec_unsigned cur @ '' ('' @ dec (cut (cur - prev)) @ '')'' @ newline
                            else pad 7 (dec (int n)) @ '' '' @ dec_unsigned cur @ '' '' @ pad 4 (dec (cut (cur - prev))) @ newline) w) }"

definition hist_line :: "nat \<Rightarrow> histent \<Rightarrow> string" where
  "hist_line n h = pad n (dec (to_int32 (h_diff h))) @ '': '' @ pad 5 (dec (to_int32 (h_count h)))"

fun hist_lines :: "nat \<Rightarrow> histent list \<Rightarrow> 'x tool_scheme \<Rightarrow> 'x tool_scheme" where
  "hist_lines n [] w = w"
| "hist_lines n (h # hs) w = hist_lines n hs (say Stdout (hist_line n h @ newline) w)"

definition dump_hist :: "clock_info \<Rightarrow> bool \<Rightarrow> nat \<Rightarrow> 'x tool_scheme \<Rightarrow> 'x tool_scheme option" where
  "dump_hist ci diffmode quiet w =
     do { name \<leftarrow> clock_name (ci_idx ci); hs \<leftarrow> mslice (ci_hbuf ci) 0 (ci_hbufe ci);
          let type = (if diffmode then ''diff'' else ''delta'');
          let w = (if quiet = 0 then say Stdout (''Histogram of ns '' @ type @ ''s for '' @ quoted name @ '' ('' @ type @ '': count):'' @ newline) w else w);
          Some (hist_lines 5 hs w) }"

fun hist2_lines :: "histent list \<Rightarrow> histent list \<Rightarrow> 'x tool_scheme \<Rightarrow> 'x tool_scheme" where
  "hist2_lines (h # hs) (r # rs) w =
     hist2_lines hs rs (say Stdout (hist_line 7 h @ ''        ''
       @ hist_line 7 r @ newline) w)"
| "hist2_lines (h # hs) [] w = hist2_lines hs [] (say Stdout (hist_line 7 h @ newline) w)"
| "hist2_lines [] (r # rs) w = hist2_lines [] rs (say Stdout (replicate 22 CHR '' '' @ hist_line 7 r @ newline) w)"
| "hist2_lines [] [] w = w"

definition dump_hist2 :: "clock_info \<Rightarrow> clock_info \<Rightarrow> nat \<Rightarrow> 'x tool_scheme \<Rightarrow> 'x tool_scheme option" where
  "dump_hist2 ci rci quiet w =
     do { name \<leftarrow> clock_name (ci_idx ci); rname \<leftarrow> clock_name (ci_idx rci);
          hs \<leftarrow> mslice (ci_hbuf ci) 0 (ci_hbufe ci); rs \<leftarrow> mslice (ci_hbuf rci) 0 (ci_hbufe rci);
          let w = (if quiet = 0
                   then say Stdout (''  Diffs are relative to mean diff '' @ dec (ci_mean_diff ci) @ newline)
                          (say Stdout (''Histograms of ns diffs/deltas for '' @ quoted name @ '' vs '' @ quoted rname @ '' (val: count)'' @ newline) w)
                   else w);
          Some (hist2_lines hs rs w) }"

section \<open>The command line\<close>

text \<open>\<open>exit(20)\<close> is \<open>None\<close> with the message printed.\<close>

definition getnum :: "string \<Rightarrow> string \<Rightarrow> int \<Rightarrow> int \<Rightarrow> 'x tool_scheme \<Rightarrow> int option \<times> 'x tool_scheme" where
  "getnum arg name minval maxval w =
     (let (val, rest) = strtol arg
      in if rest \<noteq> [] then (None, say Stderr (''Bad '' @ name @ '' argument.'' @ newline) w)
         else if val < minval \<or> val > maxval
         then (None, say Stderr (''Value '' @ dec val @ '' for '' @ name @ '' out of range ['' @ dec minval @ '':'' @ dec maxval @ ''].'' @ newline) w)
         else (Some val, w))"

fun say_all :: "stream \<Rightarrow> string list \<Rightarrow> 'x tool_scheme \<Rightarrow> 'x tool_scheme" where
  "say_all d [] w = w"
| "say_all d (s # ss) w = say_all d ss (say d (s @ newline) w)"

definition usage :: "string \<Rightarrow> 'x tool_scheme \<Rightarrow> 'x tool_scheme" where
  "usage name w = say_all Stdout [''Usage is: '' @ name @ '' [<opts>] [<clock> [<num diffs> [<sleep ms>]]]'', ''  Options:'', ''    -c:  Compare clock against mach_absolute_time'',
     ''    -h:  This text'', ''    -l:  List available clocks in this system'', ''    -L:  List defined clocks'', ''    -q:  Quiet (suppress headers)'',
     ''    -v:  Verbose output'', ''    -y:  Load system legacy-support library'', ''    -Y:  Load build-tree legacy-support library''] w"

function list_loop :: "tool_system \<Rightarrow> bool \<Rightarrow> nat option \<Rightarrow> nat \<Rightarrow> 'x tool_scheme \<Rightarrow> 'x tool_scheme option" where
  "list_loop y all lib i w =
     (if i < length clock_func_names
      then do { cname \<leftarrow> mread clock_names i;
                (case cname of
                   None \<Rightarrow> Some w
                 | Some cname \<Rightarrow>
                     list_loop y all lib (Suc i)
                       (if \<not> all \<and> fst (clock_lookup y (clock_func_names ! i) (map_option Library lib)) = None then w else say Stdout (''  '' @ cname @ newline) w)) }
      else None)"
  by auto
termination by (relation "measure (\<lambda>(y, all, lib, i, _). length clock_func_names - i)") auto

declare list_loop.simps [simp del]

definition list_clocks :: "tool_system \<Rightarrow> bool \<Rightarrow> nat option \<Rightarrow> nat \<Rightarrow> 'x tool_scheme \<Rightarrow> 'x tool_scheme option" where
  "list_clocks y all lib quiet w =
     list_loop y all lib 0 (if quiet = 0 then say Stdout ((if all then ''Defined'' else ''Available'') @ '' clock names:'' @ newline) w else w)"

record opts =
  o_compare :: bool
  o_help :: bool
  o_list :: int
  o_quiet :: nat
  o_verbose :: nat
  o_legacy :: int

fun clock_opts :: "string \<Rightarrow> opts \<Rightarrow> opts" where
  "clock_opts [] p = p"
| "clock_opts (ch # s) p =
     clock_opts s (if ch = CHR ''c'' then p\<lparr>o_compare := True\<rparr> else if ch = CHR ''h'' then p\<lparr>o_help := True\<rparr> else if ch = CHR ''l'' then p\<lparr>o_list := 1\<rparr>
       else if ch = CHR ''L'' then p\<lparr>o_list := -1\<rparr> else if ch = CHR ''q'' then p\<lparr>o_quiet := Suc (o_quiet p)\<rparr> else if ch = CHR ''v'' then p\<lparr>o_verbose := Suc (o_verbose p)\<rparr>
       else if ch = CHR ''y'' then p\<lparr>o_legacy := 1\<rparr> else if ch = CHR ''Y'' then p\<lparr>o_legacy := -1\<rparr> else p)"

fun clock_options :: "string list \<Rightarrow> opts \<Rightarrow> opts \<times> string list" where
  "clock_options [] p = (p, [])"
| "clock_options (a # as) p = (case a of ch # s \<Rightarrow> if ch = CHR ''-'' then clock_options as (clock_opts s p) else (p, a # as) | [] \<Rightarrow> (p, a # as))"

text \<open>The search for the clock: the index of its name, or of the null pointer behind the names.\<close>

fun name_index :: "string \<Rightarrow> string option list \<Rightarrow> nat" where
  "name_index s [] = 0"
| "name_index s (n # ns) = (if n = None \<or> n = Some s then 0 else Suc (name_index s ns))"

text \<open>The block of the program that may be left with \<open>break\<close>: the value of \<open>err\<close> and the two structures.\<close>

definition clock_run :: "'x ctool_scheme clock_sys \<Rightarrow> opts \<Rightarrow> nat option \<Rightarrow> clock_info \<Rightarrow> clock_info \<Rightarrow> 'x ctool_scheme
    \<Rightarrow> (int \<times> clock_info \<times> clock_info \<times> 'x ctool_scheme) option" where
  "clock_run c p lib tci rci w =
     (let y = cs_tool c; loud = (o_verbose p > 0 \<and> o_quiet p = 0); perror = (\<lambda>s w. say Stderr (s @ '': '' @ td_strerror y (t_errno w) @ newline) w);
          missing = (\<lambda>s w. say Stderr (''Function '' @ quoted s @ '' is unavailable'' @ newline) w)
      in do { (err, w) \<leftarrow> setup_mach c loud w;
              if err \<noteq> 0 then Some (err, tci, rci, perror ''Unable to get mach time scale'' w) else
              do { (cp, tci, w) \<leftarrow> clock_find y tci lib loud w;
              if cp \<noteq> None then Some (10, tci, rci, missing (the cp) w) else
              do { (cp, rci, w) \<leftarrow> (if o_compare p then clock_find y rci lib loud w else Some (None, rci, w));
              if cp \<noteq> None then Some (10, tci, rci, missing (the cp) w) else
              do { (err, tci, w) \<leftarrow> clock_alloc c tci w;
              if err \<noteq> 0 then Some (err, tci, rci, perror ''Unable to allocate sample buffers'' w) else
              do { (err, rci, w) \<leftarrow> (if o_compare p then clock_alloc c rci w else Some (0, rci, w));
              if err \<noteq> 0 then Some (err, tci, rci, perror ''Unable to allocate reference buffers'' w) else
              if \<not> o_compare p
              then do { (err, tci, w) \<leftarrow> clock_collect c tci w;
                        if err \<noteq> 0 then Some (err, tci, rci, perror ''Clock collection failed'' w) else
                        do { w \<leftarrow> (if o_verbose p \<ge> 2 then clock_dump_ns tci (o_quiet p) w else Some w);
                             (h, e) \<leftarrow> gen_hist (ci_nsbuf tci) (ci_numdiffs tci) (ci_hbuf tci);
                             let tci = tci\<lparr>ci_hbuf := h, ci_hbufe := e\<rparr>;
                             w \<leftarrow> (if o_quiet p < 2 then dump_hist tci False (o_quiet p) w else Some w);
                             Some (0, tci, rci, w) } }
              else do { (err, tci, rci, w) \<leftarrow> clock_compare c tci rci w;
                        if err \<noteq> 0 then Some (err, tci, rci, perror ''Clock compare collection failed'' w) else
                        do { w \<leftarrow> (if o_verbose p \<ge> 2 then clock_dump_dual_ns c tci rci (o_quiet p) w else Some w);
                             (h, e) \<leftarrow> gen_hist (ci_nsbuf rci) (ci_numdiffs rci) (ci_hbuf rci);
                             let rci = rci\<lparr>ci_hbuf := h, ci_hbufe := e\<rparr>;
                             rb \<leftarrow> readings_of rci;
                             (m, h, e) \<leftarrow> gen_hist2 (\<lambda>t. mt2nsec c t w) (ci_nsbuf tci) rb (ci_nsbuf rci) (ci_numdiffs tci) (ci_hbuf tci);
                             let tci = tci\<lparr>ci_hbuf := h, ci_hbufe := e, ci_mean_diff := m\<rparr>;
                             w \<leftarrow> (if o_quiet p < 2 then dump_hist2 tci rci (o_quiet p) w else Some w);
                             Some (0, tci, rci, w) } } } } } } })"

definition clock_main :: "'x ctool_scheme clock_sys \<Rightarrow> string \<Rightarrow> string list \<Rightarrow> 'x ctool_scheme \<Rightarrow> (int \<times> 'x ctool_scheme) option" where
  "clock_main c argv0 args w =
     (let y = cs_tool c; name = td_basename y argv0;
          (p, args) = clock_options args \<lparr>o_compare = False, o_help = False, o_list = 0, o_quiet = 0, o_verbose = 0, o_legacy = 0\<rparr>;
          clock = (case args of [] \<Rightarrow> None | a # _ \<Rightarrow> Some a);
          (nd, w) = (case args of _ # a # _ \<Rightarrow> getnum a ''num_diffs'' 3 1000000 w | _ \<Rightarrow> (Some 1000, w));
          (ms, w) = (if nd = None then (None, w) else case args of _ # _ # a # _ \<Rightarrow> getnum a ''sleep (ms)'' 1 1000 w | _ \<Rightarrow> (Some 5, w))
      in if nd = None \<or> ms = None then Some (20, w)
         else do { let w = (if o_help p then usage name w else w);
                   w \<leftarrow> (if o_list p < 0 then list_clocks y True None (o_quiet p) w else Some w);
                   if (o_help p \<and> o_list p = 0) \<or> o_list p < 0 then Some (0, w)
                   else (let (lib, w) = (if o_legacy p \<noteq> 0 then load_lib y Stderr (o_legacy p) argv0 (o_verbose p > 0 \<and> o_quiet p = 0) w else (None, w))
                         in if o_legacy p \<noteq> 0 \<and> lib = None then Some (10, w)
                            else if o_list p > 0 then do { w \<leftarrow> list_clocks y False lib (o_quiet p) w; Some (0, w) }
                            else (let idx = (case clock of None \<Rightarrow> REF_CLOCK_IDX | Some s \<Rightarrow> if s = ''.'' then REF_CLOCK_IDX else name_index s clock_names)
                                  in do { cp \<leftarrow> mread clock_names idx;
                                          if cp = None
                                          then Some (20, say Stderr (''Unrecognized clock name '' @ quoted (the clock) @ newline) w)
                                          else do { tci \<leftarrow> setup_info zero_info idx (nat (the nd)) (the ms);
                                                    rci \<leftarrow> setup_info zero_info REF_CLOCK_IDX (nat (the nd)) (the ms);
                                                    (err, tci, rci, w) \<leftarrow> clock_run c p lib tci rci w;
                                                    (rci, w) \<leftarrow> clock_free rci w;
                                                    (tci, w) \<leftarrow> clock_free tci w;
                                                    let w = close_lib y Stderr lib w;
                                                    Some (err, if o_quiet p = 0
                                                               then say Stdout (name @ '' '' @ (if err \<noteq> 0 then ''failed'' else ''completed'') @ ''.'' @ newline) w
                                                               else w) } })) })"

section \<open>The numbers of the command line\<close>

text \<open>a number given as the tools print numbers is accepted exactly when it lies between the limits, and then it is the number
  that was given, also where it is beyond \<open>long\<close>; a number outside is refused with a message that names the nearest number that
  fits \<open>long\<close>, and the limits.\<close>

theorem getnum_decimal:
  assumes "- (2 ^ 63) < minval" and "maxval < 2 ^ 63 - 1"
  shows "getnum (dec i) name minval maxval w =
    (if minval \<le> i \<and> i \<le> maxval then (Some i, w)
     else (None, say Stderr (''Value '' @ dec (max (- (2 ^ 63)) (min (2 ^ 63 - 1) i)) @ '' for '' @ name @ '' out of range ['' @ dec minval @ '':'' @ dec maxval
                   @ ''].'' @ newline) w))"
  using assms by (auto simp: getnum_def strtol_dec max_def min_def)

section \<open>The lists of clocks\<close>

text \<open>the table of function names has no null pointer at its end, and its entry is read before the name of the clock is tested:
  both lists of clocks end with a read behind the table.\<close>

lemma list_loop_past_end: "list_loop y all lib i w = None"
proof (induction "length clock_func_names - i" arbitrary: i w)
  case 0
  then show ?case by (subst list_loop.simps) simp
next
  case (Suc n)
  then have i: "i < length clock_names" by (simp add: clock_func_names_def clock_names_def mach_names_def gettime_names_def)
  then have m: "mread clock_names i = Some (clock_names ! i)" by (rule mread_ok)
  have "i < 17" using Suc.hyps(2) by (simp add: clock_func_names_def mach_names_def)
  have nn: "None \<notin> set (butlast clock_names)" "length clock_names = 18" by (simp_all add: clock_names_def mach_names_def gettime_names_def)
  have "i < length (butlast clock_names)" using nn(2) \<open>i < 17\<close> by simp
  then have "butlast clock_names ! i = clock_names ! i" "butlast clock_names ! i \<in> set (butlast clock_names)"
    by (rule nth_butlast, rule nth_mem)
  then have "clock_names ! i \<noteq> None" using nn(1) by metis
  then show ?case using m Suc.hyps by (subst list_loop.simps) auto
qed

theorem list_clocks_past_end: "list_clocks y all lib quiet w = None"
  by (simp add: list_clocks_def list_loop_past_end)

section \<open>Waiting\<close>

text \<open>The part of the state that is the program's own.\<close>

definition own :: "'x ctool_scheme \<Rightarrow> ctool" where "own w = ctool.truncate w"

lemma own_simps: "own w = own v \<longleftrightarrow> printed w = printed v \<and> t_errno w = t_errno v \<and> handles w = handles v \<and> heap w = heap v \<and> next_block w = next_block v
   \<and> m2n w = m2n v \<and> m2u w = m2u v"
  by (cases w; cases v) (auto simp: own_def ctool.defs)

text \<open>
  A timer: \<open>now\<close> is the number of microseconds since the system started, \<open>usleep\<close> returns after some time, perhaps
  before all of it has passed, and at most \<open>late\<close> microseconds after it.
\<close>

definition honest_timer :: "'x ctool_scheme clock_sys \<Rightarrow> rat \<Rightarrow> ('x \<Rightarrow> nat) \<Rightarrow> nat \<Rightarrow> bool" where
  "honest_timer c s now late \<longleftrightarrow>
     (\<forall>w. m2u w = s \<and> now (ctool.more w) < 2 ^ 32
        \<longrightarrow> (\<exists>w'. mach_usec c w = Some (of_nat (now (ctool.more w)), w') \<and> now (ctool.more w') = now (ctool.more w) \<and> own w' = own w))
   \<and> (\<forall>u w. now (ctool.more w) < now (ctool.more (cs_usleep c u w)) \<and> now (ctool.more (cs_usleep c u w)) \<le> now (ctool.more w) + unat u + late
        \<and> own (cs_usleep c u w) = own w)"

lemma honest_reads:
  "honest_timer c s now late \<Longrightarrow> m2u w = s \<Longrightarrow> now (ctool.more w) < 2 ^ 32
    \<Longrightarrow> \<exists>w'. mach_usec c w = Some (of_nat (now (ctool.more w)), w') \<and> now (ctool.more w') = now (ctool.more w) \<and> own w' = own w"
  by (simp add: honest_timer_def)

lemma usleepx_loop_waits:
  assumes "honest_timer c s now late" and "m2u w = s" and "now (ctool.more w) < T" and "T + late < 2 ^ 32"
  shows "\<exists>w'. usleepx_loop c (of_nat T) (of_nat (now (ctool.more w))) w = Some w' \<and> T \<le> now (ctool.more w') \<and> now (ctool.more w') \<le> T + late \<and> own w' = own w"
  using assms(2,3)
proof (induction "T - now (ctool.more w)" arbitrary: w rule: less_induct)
  case less
  let ?n = "now (ctool.more w)" and ?u = "of_nat T - of_nat (now (ctool.more w)) :: u32"
  have small: "unat (of_nat k :: u32) = k" if "k < 2 ^ 32" for k using that by (simp add: unat_of_nat take_bit_nat_eq_self)
  have u: "unat ?u = T - ?n"
    using less.prems assms(4) small [of T] small [of ?n] by (simp add: unat_sub_if')
  let ?v = "cs_usleep c ?u w"
  have "now (ctool.more ?v) \<le> ?n + unat ?u + late" using assms(1) by (simp add: honest_timer_def)
  then have v: "?n < now (ctool.more ?v)" "now (ctool.more ?v) \<le> T + late" "own ?v = own w"
    using assms(1) u less.prems by (simp_all add: honest_timer_def)
  then have "m2u ?v = s" using less.prems(1) by (simp add: own_simps)
  then obtain x where x: "mach_usec c ?v = Some (of_nat (now (ctool.more ?v)), x)" "now (ctool.more x) = now (ctool.more ?v)" "own x = own ?v"
    using honest_reads [OF assms(1) \<open>m2u ?v = s\<close> order_le_less_trans [OF v(2) assms(4)]] by blast
  have c: "(of_nat (now (ctool.more ?v)) :: u32) < of_nat T \<longleftrightarrow> now (ctool.more ?v) < T"
    using small [of T] small [of "now (ctool.more ?v)"] v(2) assms(4) by (simp add: word_less_nat_alt)
  show ?case
  proof (cases "now (ctool.more ?v) < T")
    case True
    have "\<exists>w'. usleepx_loop c (of_nat T) (of_nat (now (ctool.more x))) x = Some w' \<and> T \<le> now (ctool.more w') \<and> now (ctool.more w') \<le> T + late \<and> own w' = own x"
      by (rule less.hyps) (use True x v less.prems in \<open>auto simp: own_simps\<close>)
    then show ?thesis using x v(3) True c by (subst usleepx_loop.simps) auto
  next
    case False
    then show ?thesis using x v c by (subst usleepx_loop.simps) auto
  qed
qed

lemma usleepx_returns:
  assumes "honest_timer c s now late" and "m2u w = s" and "0 < usecs" and "now (ctool.more w) + unat usecs + late < 2 ^ 32"
  shows "\<exists>w'. usleepx c usecs w = Some w' \<and> now (ctool.more w) + unat usecs \<le> now (ctool.more w') \<and> now (ctool.more w') \<le> now (ctool.more w) + unat usecs + late
    \<and> own w' = own w"
proof -
  obtain x where x: "mach_usec c w = Some (of_nat (now (ctool.more w)), x)" "now (ctool.more x) = now (ctool.more w)" "own x = own w"
    using honest_reads [OF assms(1,2)] assms(4) by auto
  have "(of_nat (now (ctool.more w)) :: u32) + usecs = of_nat (now (ctool.more w) + unat usecs)" by simp
  moreover have "0 < unat usecs" using assms(3) by (simp add: word_less_nat_alt)
  then have "\<exists>w'. usleepx_loop c (of_nat (now (ctool.more w) + unat usecs)) (of_nat (now (ctool.more x))) x = Some w'
      \<and> now (ctool.more w) + unat usecs \<le> now (ctool.more w') \<and> now (ctool.more w') \<le> now (ctool.more w) + unat usecs + late \<and> own w' = own x"
    by (intro usleepx_loop_waits [OF assms(1)]) (use assms x in \<open>auto simp: own_simps\<close>)
  ultimately show ?thesis using x by (auto simp: usleepx_def)
qed

text \<open>C30: the wait of the tool.  As long as the microseconds since the start fit 32 bits, \<open>usleepx\<close> returns, however often a signal
  wakes it, not before its time has passed and at most the lateness of the last sleep after it.\<close>

theorem usleepx_waits:
  assumes "honest_timer c s now late" and "m2u w = s" and "0 < usecs" and "now (ctool.more w) + unat usecs + late < 2 ^ 32"
  shows "\<exists>w'. usleepx c usecs w = Some w' \<and> now (ctool.more w) + unat usecs \<le> now (ctool.more w') \<and> now (ctool.more w') \<le> now (ctool.more w) + unat usecs + late
    \<and> own w' = own w"
  using assms by (rule usleepx_returns)

text \<open>Afterwards no reading of the clock can be converted.\<close>

lemma mach_usec_overflow:
  assumes "cs_fl c = id" and "cs_mach c w = (t, v)" and "2 ^ 32 \<le> of_int (uint t) * m2u v"
  shows "mach_usec c w = None"
  using assms by (simp add: mach_usec_def mt2usec_def to_unsigned_def)

section \<open>Memory\<close>

lemma free_simps [simp]: "free None w = Some w" "b \<in> heap w \<Longrightarrow> free (Some b) w = Some (w\<lparr>heap := heap w - {b}\<rparr>)" "b \<notin> heap w \<Longrightarrow> free (Some b) w = None"
  by (simp_all add: free_def)

text \<open>where all three buffers are allocated, \<open>clock_free\<close> gives exactly them back.  Where one is missing, the others have been
  freed already, but the pointers stay in the structure: \<open>clock_free\<close>, which the program calls in any case, frees a block a
  second time.\<close>

theorem clock_alloc_free:
  assumes "\<forall>b \<in> heap w. b < next_block w" and "ci_hp ci = None" and "ci_nsp ci = None"
  shows "\<exists>err ci' w'. clock_alloc c ci w = Some (err, ci', w') \<and> (err = 0 \<or> heap w' = heap w)
    \<and> (case clock_free ci' w' of Some (_, w'') \<Rightarrow> heap w'' = heap w \<and> (err = 0 \<or> ci_b ci' = None) | None \<Rightarrow> err \<noteq> 0 \<and> ci_b ci' \<noteq> None)"
  using assms by (auto simp: clock_alloc_def clock_free_def calloc_def Let_def)

section \<open>Interleaved samples\<close>

lemma convert_loop_result:
  assumes "stop \<le> length vals" and "stop \<le> length ns" and "i \<le> stop" and "\<forall>j. i \<le> j \<and> j < stop \<longrightarrow> conv (vals ! j) = Some (g j)"
  shows "convert_loop conv vals stop i ns = Some (take i ns @ map g [i..<stop] @ drop stop ns)"
  using assms(2-4)
proof (induction "stop - i" arbitrary: i ns)
  case 0
  then show ?case by (subst convert_loop.simps) simp
next
  case (Suc k)
  then have i: "i < stop" by simp
  have "convert_loop conv vals stop (Suc i) (ns[i := g i]) = Some (take (Suc i) (ns[i := g i]) @ map g [Suc i..<stop] @ drop stop (ns[i := g i]))"
    by (rule Suc.hyps(1)) (use Suc.hyps(2) Suc.prems i in auto)
  moreover have "take (Suc i) (ns[i := g i]) = take i ns @ [g i]" using i Suc.prems by (simp add: take_Suc_conv_app_nth)
  moreover have "[i..<stop] = i # [Suc i..<stop]" using i by (simp add: upt_conv_Cons)
  ultimately show ?case using i Suc.prems assms(1) by (subst convert_loop.simps) (simp add: mem_simps)
qed

text \<open>
  A counter that both clocks read: \<open>now\<close> is its value, which no reading precedes or follows out of order, and which stays
  within \<open>H\<close>.  Up to there \<open>conv\<close> is the conversion with the scale \<open>s\<close>, which keeps the order and stays below \<open>2 ^ 63\<close>.
\<close>

definition ticking :: "'x ctool_scheme clock_sys \<Rightarrow> nat \<Rightarrow> rat \<Rightarrow> (u64 \<Rightarrow> u64) \<Rightarrow> ('x \<Rightarrow> u64) \<Rightarrow> u64 \<Rightarrow> bool" where
  "ticking c f s conv now H \<longleftrightarrow>
     (\<forall>w t v. cs_mach c w = (t, v) \<or> cs_machf c f w = (t, v) \<longrightarrow> now (ctool.more w) \<le> t \<and> t \<le> now (ctool.more v) \<and> now (ctool.more v) \<le> H \<and> own v = own w)
   \<and> (\<forall>t w. m2n w = s \<and> t \<le> H \<longrightarrow> mt2nsec c t w = Some (conv t)) \<and> (\<forall>t u. t \<le> u \<and> u \<le> H \<longrightarrow> conv t \<le> conv u) \<and> (\<forall>t \<le> H. uint (conv t) < 2 ^ 63)"

definition between :: "u64 \<Rightarrow> clock_val list \<Rightarrow> clock_val list \<Rightarrow> nat \<Rightarrow> bool" where
  "between H vals rvals j \<longleftrightarrow> (\<exists>a v b. rvals ! j = Mach a \<and> vals ! j = Mach v \<and> rvals ! Suc j = Mach b \<and> a \<le> v \<and> v \<le> b \<and> b \<le> H)"

lemma compare_loop_between:
  assumes "ticking c f s conv now H" and "ci_type ci = clock_type_mach" and "ci_f ci = Some f"
    and "i \<le> ci_numdiffs ci" and "length vals = ci_numdiffs ci + 1" and "length rvals = ci_numdiffs ci + 1" and "rvals ! i = Mach r" and "r \<le> now (ctool.more w)"
  shows "\<exists>vals' rvals' w'. compare_loop c ci i vals rvals w = Some (0, vals', rvals', w') \<and> own w' = own w \<and> length vals' = length vals
    \<and> length rvals' = length rvals \<and> take i vals' = take i vals \<and> take (Suc i) rvals' = take (Suc i) rvals \<and> (\<forall>j. i \<le> j \<and> j < ci_numdiffs ci \<longrightarrow> between H vals' rvals' j)"
  using assms(4-8)
proof (induction "ci_numdiffs ci - i" arbitrary: i vals rvals r w)
  case 0
  then show ?case by (subst compare_loop.simps) auto
next
  case (Suc k)
  have i: "i < ci_numdiffs ci" using Suc.hyps(2) by simp
  obtain v x where v: "cs_machf c f w = (v, x)" by force
  obtain t z where t: "cs_mach c x = (t, z)" by force
  have m: "now (ctool.more w) \<le> v" "v \<le> now (ctool.more x)" "own x = own w" "now (ctool.more x) \<le> t" "t \<le> now (ctool.more z)" "own z = own x"
    "now (ctool.more z) \<le> H"
    using assms(1) v t unfolding ticking_def by blast+
  let ?vs = "vals[i := Mach v]" and ?rs = "rvals[Suc i := Mach t]"
  have "\<exists>vals' rvals' w'. compare_loop c ci (Suc i) ?vs ?rs z = Some (0, vals', rvals', w') \<and> own w' = own z \<and> length vals' = length ?vs
      \<and> length rvals' = length ?rs \<and> take (Suc i) vals' = take (Suc i) ?vs \<and> take (Suc (Suc i)) rvals' = take (Suc (Suc i)) ?rs
      \<and> (\<forall>j. Suc i \<le> j \<and> j < ci_numdiffs ci \<longrightarrow> between H vals' rvals' j)"
    by (rule Suc.hyps(1)) (use Suc.hyps(2) Suc.prems i m(5) in simp_all)
  then obtain vs rs y where r: "compare_loop c ci (Suc i) ?vs ?rs z = Some (0, vs, rs, y)" "own y = own z" "length vs = length vals" "length rs = length rvals"
    "take (Suc i) vs = take (Suc i) ?vs" "take (Suc (Suc i)) rs = take (Suc (Suc i)) ?rs" "\<forall>j. Suc i \<le> j \<and> j < ci_numdiffs ci \<longrightarrow> between H vs rs j"
    by auto
  have "vs ! i = Mach v" using r(5) Suc.prems i by (metis lessI less_add_one less_trans nth_list_update_eq nth_take)
  moreover have "rs ! i = Mach r" using r(6) Suc.prems(4) by (metis less_Suc_eq nth_list_update_neq nth_take n_not_Suc_n)
  moreover have "rs ! Suc i = Mach t" using r(6) Suc.prems(3) i by (metis Suc_less_eq2 add.commute lessI nth_list_update_eq nth_take plus_1_eq_Suc)
  ultimately have "between H vs rs i" using m Suc.prems(5) by (auto simp: between_def)
  then have "\<forall>j. i \<le> j \<and> j < ci_numdiffs ci \<longrightarrow> between H vs rs j" using r(7) by (metis Suc_leI order_le_less)
  moreover have "take i vs = take i vals" using arg_cong [OF r(5), of "take i"] by simp
  moreover have "take (Suc i) rs = take (Suc i) rvals" using arg_cong [OF r(6), of "take (Suc i)"] by simp
  moreover have "compare_loop c ci i vals rvals w = Some (0, vs, rs, y)"
    using i Suc.prems v t r(1) assms(2,3) by (subst compare_loop.simps) (simp add: sample_def mem_simps)
  ultimately show ?case using r m by auto
qed

text \<open>C29: the comparison with \<open>mach_absolute_time\<close>.  Every sample of a clock that reads the same counter lies between the two
  readings of the reference around it, in nanoseconds too, so what the tool reports for it is off their mean by at most half of
  what lies between them; the program's own state is as before.\<close>

theorem clock_compare_brackets:
  assumes "ticking c f s conv now H" and "honest_timer c s' us late" and "m2n w = s" and "m2u w = s'"
    and "ci_type ci = clock_type_mach" and "ci_f ci = Some f" and "ci_idx rci = REF_CLOCK_IDX" and "ci_numdiffs ci = n" and "ci_numdiffs rci = n"
    and "length (ci_vals ci) = n + 1" and "length (ci_vals rci) = n + 1" and "length (ci_nsbuf ci) = n + 1" and "length (ci_nsbuf rci) = n + 1"
    and "ci_sleepus ci = int us'" and "0 < us'" and "us (ctool.more w) + us' + late < 2 ^ 32"
  shows "\<exists>ci' rci' w'. clock_compare c ci rci w = Some (0, ci', rci', w') \<and> own w' = own w
    \<and> (\<forall>i<n. ci_nsbuf rci' ! i \<le> ci_nsbuf ci' ! i \<and> ci_nsbuf ci' ! i \<le> ci_nsbuf rci' ! Suc i
        \<and> 2 * \<bar>offset (ci_nsbuf ci') (ci_nsbuf rci') i\<bar> \<le> uint (ci_nsbuf rci' ! Suc i) - uint (ci_nsbuf rci' ! i) + 1)"
proof -
  have u: "unat (of_nat us' :: u32) = us'" using assms(16) by (simp add: unat_of_nat take_bit_nat_eq_self)
  have z: "(0 :: u32) < of_nat us'" using u assms(15) by (simp add: word_less_nat_alt)
  obtain w1 where w1: "usleepx c (of_nat us') w = Some w1" "own w1 = own w"
    using usleepx_returns [OF assms(2,4) z] u assms(16) by auto
  obtain t1 w2 where a: "cs_mach c w1 = (t1, w2)" by force
  obtain v w3 where b: "cs_machf c f w2 = (v, w3)" by force
  obtain t w4 where d: "cs_mach c w3 = (t, w4)" by force
  have m: "own w4 = own w" "t \<le> now (ctool.more w4)" "now (ctool.more w4) \<le> H" using assms(1) a b d w1(2) unfolding ticking_def by metis+
  obtain vs rs w5 where e: "compare_loop c ci 0 (ci_vals ci) ((ci_vals rci)[0 := Mach t]) w4 = Some (0, vs, rs, w5)" "own w5 = own w4"
    "length vs = n + 1" "length rs = n + 1" "\<forall>j < n. between H vs rs j" "take (Suc 0) rs = take (Suc 0) ((ci_vals rci)[0 := Mach t])"
    using compare_loop_between [OF assms(1,5,6), of 0 "ci_vals ci" "(ci_vals rci)[0 := Mach t]" t w4] assms m(2) by auto
  have "m2n w5 = s" using e(2) m(1) assms(3) by (simp add: own_simps)
  then have cv: "to_ns c (Mach x) w5 = Some (conv x)" if "x \<le> H" for x using assms(1) that by (simp add: ticking_def to_ns_def)
  define g where "g v = (case v of Mach x \<Rightarrow> conv x | _ \<Rightarrow> 0)" for v
  have bt: "\<exists>a v b. rs ! j = Mach a \<and> vs ! j = Mach v \<and> rs ! Suc j = Mach b \<and> a \<le> v \<and> v \<le> b \<and> b \<le> H" if "j < n" for j using e(5) that by (simp add: between_def)
  have c1: "convert_loop (\<lambda>v. to_ns c v w5) vs n 0 (ci_nsbuf ci) = Some (map (\<lambda>j. g (vs ! j)) [0..<n] @ drop n (ci_nsbuf ci))"
    by (subst convert_loop_result [where g = "\<lambda>j. g (vs ! j)"]) (use assms(12) e(3) bt cv in \<open>fastforce simp: g_def dest: order_trans\<close>)+
  have "rs ! 0 = Mach t" using e(6) assms(11) by (metis length_list_update less_add_one nth_list_update_eq nth_take zero_less_Suc zero_less_one add_gr_0)
  then have rm: "\<exists>x. rs ! j = Mach x \<and> x \<le> H" if "j < Suc n" for j using that bt [of "j - 1"] m(2,3) by (cases j) auto
  have c2: "convert_loop (\<lambda>v. to_ns c v w5) rs (n + 1) 0 (ci_nsbuf rci) = Some (map (\<lambda>j. g (rs ! j)) [0..<n + 1])"
    by (subst convert_loop_result [where g = "\<lambda>j. g (rs ! j)"]) (use assms(13) e(4) rm cv in \<open>fastforce simp: g_def\<close>)+
  define ns where "ns = map (\<lambda>j. g (vs ! j)) [0..<n] @ drop n (ci_nsbuf ci)"
  define rns where "rns = map (\<lambda>j. g (rs ! j)) [0..<n + 1]"
  have r: "clock_compare c ci rci w = Some (0, ci\<lparr>ci_vals := vs, ci_nsbuf := ns\<rparr>, rci\<lparr>ci_vals := rs, ci_nsbuf := rns\<rparr>, w5)"
    using assms(5-11,14) w1(1) a b d e(1) c1 c2 by (simp add: clock_compare_def warm_up_def sample_def mem_simps ns_def rns_def)
  have "rns ! i \<le> ns ! i \<and> ns ! i \<le> rns ! Suc i \<and> uint (rns ! Suc i) < 2 ^ 63" if i: "i < n" for i
  proof -
    have "rns ! i = g (rs ! i)" "rns ! Suc i = g (rs ! Suc i)" "ns ! i = g (vs ! i)" using i by (simp_all add: ns_def rns_def nth_append del: upt_Suc)
    then show ?thesis using bt [OF i] assms(1) by (auto simp: g_def ticking_def)
  qed
  then have "\<forall>i<n. rns ! i \<le> ns ! i \<and> ns ! i \<le> rns ! Suc i \<and> 2 * \<bar>offset ns rns i\<bar> \<le> uint (rns ! Suc i) - uint (rns ! i) + 1"
    using offset_bounded by blast
  then show ?thesis using r e(2) m(1) by (intro exI conjI) (assumption | simp)+
qed

section \<open>A whole run\<close>

text \<open>The readings a run of samples takes.\<close>

fun mach_run :: "'x ctool_scheme clock_sys \<Rightarrow> nat \<Rightarrow> nat \<Rightarrow> 'x ctool_scheme \<Rightarrow> u64 list \<times> 'x ctool_scheme" where
  "mach_run c f 0 w = ([], w)"
| "mach_run c f (Suc k) w = (let (v, w) = cs_machf c f w; (vs, w) = mach_run c f k w in (v # vs, w))"

lemma mach_run_ticks:
  assumes "ticking c f s conv now H"
  shows "mach_run c f k w = (vs, v) \<Longrightarrow> length vs = k \<and> own v = own w \<and> sorted_wrt (\<le>) vs \<and> (\<forall>x \<in> set vs. now (ctool.more w) \<le> x \<and> x \<le> H)"
proof (induction k arbitrary: w vs v)
  case 0
  then show ?case by simp
next
  case (Suc k)
  obtain t x where t: "cs_machf c f w = (t, x)" by force
  obtain us where us: "mach_run c f k x = (us, v)" "vs = t # us" using Suc.prems t by (auto split: prod.splits)
  have m: "now (ctool.more w) \<le> t" "t \<le> now (ctool.more x)" "now (ctool.more x) \<le> H" "own x = own w"
    using assms t unfolding ticking_def by blast+
  then show ?case using Suc.IH [OF us(1)] us(2) by (auto dest: order_trans)
qed

lemma collect_loop_run:
  assumes "ci_type ci = clock_type_mach" and "ci_f ci = Some f"
  shows "i + k = ci_numdiffs ci + 1 \<Longrightarrow> length vals = ci_numdiffs ci + 1 \<Longrightarrow> mach_run c f k w = (vs, v)
    \<Longrightarrow> collect_loop c ci i vals w = Some (0, take i vals @ map Mach vs, v)"
proof (induction k arbitrary: i vals w vs)
  case 0
  then show ?case by (subst collect_loop.simps) simp
next
  case (Suc k)
  obtain t x where t: "cs_machf c f w = (t, x)" by force
  obtain us where us: "mach_run c f k x = (us, v)" "vs = t # us" using Suc.prems t by (auto split: prod.splits)
  have "collect_loop c ci (Suc i) (vals[i := Mach t]) x = Some (0, take (Suc i) (vals[i := Mach t]) @ map Mach us, v)"
    by (rule Suc.IH) (use Suc.prems us(1) in simp_all)
  moreover have "take (Suc i) (vals[i := Mach t]) = take i vals @ [Mach t]" using Suc.prems by (simp add: take_Suc_conv_app_nth)
  ultimately show ?case using Suc.prems us(2) t assms by (subst collect_loop.simps) (simp add: sample_def mem_simps)
qed

lemma conv_samples:
  assumes "ticking c f s conv now H" and "mach_run c f k w = (vs, v)"
  shows "samples_ok (map conv vs)" and "length vs = k"
proof -
  note t = mach_run_ticks [OF assms]
  then show "length vs = k" by simp
  show "samples_ok (map conv vs)" using t assms(1) by (auto simp: samples_ok_def ticking_def)
qed

lemma clock_collect_run:
  assumes "ticking c f s conv now H" and "honest_timer c s' us late" and "m2n w = s" and "m2u w = s'"
    and "ci_type ci = clock_type_mach" and "ci_f ci = Some f" and "ci_numdiffs ci = n" and "length (ci_vals ci) = n + 1" and "length (ci_nsbuf ci) = n + 1"
    and "ci_sleepus ci = int us'" and "0 < us'" and "us (ctool.more w) + us' + late < 2 ^ 32"
  shows "\<exists>x vs w1 v. us (ctool.more w) + us' \<le> us (ctool.more w1) \<and> us (ctool.more w1) \<le> us (ctool.more w) + us' + late
    \<and> mach_run c f (n + 2) w1 = (x # vs, v) \<and> length vs = n + 1 \<and> (\<forall>t \<in> set vs. now (ctool.more w1) \<le> t) \<and> own v = own w \<and> samples_ok (map conv vs)
    \<and> clock_collect c ci w = Some (0, ci\<lparr>ci_vals := map Mach vs, ci_nsbuf := map conv vs\<rparr>, v)"
proof -
  have u: "unat (of_nat us' :: u32) = us'" using assms(12) by (simp add: unat_of_nat take_bit_nat_eq_self)
  have z: "(0 :: u32) < of_nat us'" using u assms(11) by (simp add: word_less_nat_alt)
  obtain w1 where w1: "usleepx c (of_nat us') w = Some w1" "own w1 = own w" "us (ctool.more w) + us' \<le> us (ctool.more w1)"
      "us (ctool.more w1) \<le> us (ctool.more w) + us' + late" using usleepx_returns [OF assms(2,4) z] u assms(12) by auto
  obtain x w2 where a: "cs_machf c f w1 = (x, w2)" by force
  then have o: "own w2 = own w" using assms(1) w1(2) unfolding ticking_def by metis
  obtain vs v where r: "mach_run c f (n + 1) w2 = (vs, v)" by force
  note t = mach_run_ticks [OF assms(1) r]
  have l: "collect_loop c ci 0 (ci_vals ci) w2 = Some (0, map Mach vs, v)"
    using collect_loop_run [OF assms(5,6), of 0 "n + 1" "ci_vals ci" c w2 vs v] assms(7,8) r by simp
  have "m2n v = s" using t o assms(3) by (simp add: own_simps)
  then have "convert_loop (\<lambda>x. to_ns c x v) (map Mach vs) (n + 1) 0 (ci_nsbuf ci) = Some (map (\<lambda>j. conv (vs ! j)) [0..<n + 1])"
    using assms(1,9) t by (subst convert_loop_result [where g = "\<lambda>j. conv (vs ! j)"]) (auto simp: ticking_def to_ns_def)
  moreover have "map (\<lambda>j. conv (vs ! j)) [0..<n + 1] = map conv vs" using t by (intro nth_equalityI) (auto simp del: upt_Suc)
  ultimately have "clock_collect c ci w = Some (0, ci\<lparr>ci_vals := map Mach vs, ci_nsbuf := map conv vs\<rparr>, v)"
    using assms(5-7,10) w1(1) a l by (simp add: clock_collect_def warm_up_def sample_def)
  moreover have "mach_run c f (n + 2) w1 = (x # vs, v)" using a r by simp
  moreover have "\<forall>y \<in> set vs. now (ctool.more w1) \<le> y" using mach_run_ticks [OF assms(1) calculation(2)] by simp
  ultimately show ?thesis using t o w1(3,4) conv_samples [OF assms(1) r]
    by (intro exI [of _ x] exI [of _ vs] exI [of _ w1] exI [of _ v]) auto
qed

lemma printed_hist: "printed (hist_lines n hs w) = printed w @ map (\<lambda>h. (Stdout, hist_line n h @ newline)) hs"
  by (induction hs arbitrary: w) simp_all

lemma heap_say [simp]: "heap (say d s w) = heap w" "next_block (say d s w) = next_block w" "m2n (say d s w) = m2n w" "m2u (say d s w) = m2u w"
    "ctool.more (say d s w) = ctool.more w"
  by (simp_all add: say_def)

lemma heap_hist [simp]: "heap (hist_lines n hs w) = heap w" "ctool.more (hist_lines n hs w) = ctool.more w"
  by (induction hs arbitrary: w) simp_all

text \<open>The state after the scale is set up and the buffers are allocated.\<close>

definition allocated :: "nat \<Rightarrow> clock_info \<Rightarrow> clock_info \<Rightarrow> bool" where
  "allocated b ci a \<longleftrightarrow> ci_idx a = ci_idx ci \<and> ci_type a = ci_type ci \<and> ci_f a = ci_f ci \<and> ci_numdiffs a = ci_numdiffs ci \<and> ci_sleepus a = ci_sleepus ci
     \<and> length (ci_vals a) = ci_numdiffs ci + 1 \<and> length (ci_nsbuf a) = ci_numdiffs ci + 1 \<and> length (ci_hbuf a) = ci_numdiffs ci
     \<and> ci_b a = Some b \<and> ci_nsp a = Some (b + 1) \<and> ci_hp a = Some (b + 2)"

lemma clock_alloc_all:
  assumes "cs_mem c = (\<lambda>_. True)"
  shows "\<exists>a w'. clock_alloc c ci w = Some (0, a, w') \<and> allocated (next_block w) ci a \<and> heap w' = insert (next_block w + 2) (insert (next_block w + 1) (insert (next_block w) (heap w)))
    \<and> printed w' = printed w \<and> m2n w' = m2n w \<and> m2u w' = m2u w \<and> ctool.more w' = ctool.more w"
  using assms by (auto simp: clock_alloc_def calloc_def allocated_def Let_def)

lemma clock_free_all:
  assumes "ci_b a = Some b" and "ci_nsp a = Some (b + 1)" and "ci_hp a = Some (b + 2)" and "heap w = insert (b + 2) (insert (b + 1) (insert b H))"
    and "\<forall>x \<in> H. x < b"
  shows "\<exists>z. clock_free a w = Some (z, w\<lparr>heap := H\<rparr>)"
proof -
  have "heap w - {b + 2} - {b + 1} - {b} = H" using assms(4,5) by fastforce
  then show ?thesis using assms(1-4) by (simp add: clock_free_def)
qed

text \<open>The options of a program without arguments, the heading and the lines of its histogram.\<close>

definition no_opts :: opts where
  "no_opts = \<lparr>o_compare = False, o_help = False, o_list = 0, o_quiet = 0, o_verbose = 0, o_legacy = 0\<rparr>"

definition default_info :: clock_info where
  "default_info = zero_info\<lparr>ci_idx := 1, ci_type := clock_type_mach, ci_numdiffs := 1000, ci_sleepus := 5000, ci_clkid := CLOCK_REALTIME\<rparr>"

definition default_lines :: "u64 list \<Rightarrow> (stream \<times> string) list" where
  "default_lines ns = (Stdout, ''Histogram of ns deltas for '' @ quoted ''mach_absolute_time'' @ '' (delta: count):'' @ newline)
     # map (\<lambda>d. (Stdout, hist_line 5 (tally (deltas ns) d) @ newline)) (sorted_list_of_set (set (deltas ns)))"

lemma default_tables:
  "mread clock_types 1 = Some clock_type_mach" "mread clock_ids 1 = Some CLOCK_REALTIME" "mread clock_func_names 1 = Some ''mach_absolute_time''"
  "mread clock_names 1 = Some (Some ''mach_absolute_time'')"
  by (simp_all add: mread_def clock_types_def clock_ids_def clock_func_names_def clock_names_def mach_names_def numeral_eq_Suc)

lemma default_setup: "setup_info zero_info REF_CLOCK_IDX 1000 5 = Some default_info"
  using default_tables by (simp add: setup_info_def REF_CLOCK_IDX_def default_info_def s64_def)

lemma default_run:
  assumes "ticking c f s conv now H" and "honest_timer c (cs_fl c (s / 1000)) us late" and "us (ctool.more w) + 5000 + late < 2 ^ 32"
    and "cs_timebase c = (0, nu, de)" and "de \<noteq> 0" and "s = cs_fl c (of_int (uint nu) / of_int (uint de))"
    and "td_sym (cs_tool c) RTLD_NEXT ''mach_absolute_time'' = Some f" and "cs_mem c = (\<lambda>_. True)" and "\<forall>b \<in> heap w. b < next_block w"
  shows "\<exists>x vs w1 v a z d. us (ctool.more w) + 5000 \<le> us (ctool.more w1) \<and> us (ctool.more w1) \<le> us (ctool.more w) + 5000 + late
    \<and> mach_run c f 1002 w1 = (x # vs, v) \<and> length vs = 1001 \<and> (\<forall>t \<in> set vs. now (ctool.more w1) \<le> t) \<and> ctool.more d = ctool.more v \<and> clock_run c no_opts None default_info default_info w = Some (0, a, default_info, d)
    \<and> clock_free a d = Some (z, d\<lparr>heap := heap w\<rparr>) \<and> printed d = printed w @ default_lines (map conv vs)"
proof -
  let ?w = "w\<lparr>m2n := s, m2u := cs_fl c (s / 1000)\<rparr>"
  let ?ci = "default_info\<lparr>ci_f := Some f\<rparr>"
  obtain a x where al: "clock_alloc c ?ci ?w = Some (0, a, x)" "allocated (next_block w) ?ci a"
    "heap x = insert (next_block w + 2) (insert (next_block w + 1) (insert (next_block w) (heap w)))"
    "printed x = printed w" "m2n x = s" "m2u x = cs_fl c (s / 1000)" "ctool.more x = ctool.more w"
    using clock_alloc_all [OF assms(8), of "?ci" "?w"] by auto
  have a: "ci_idx a = 1" "ci_type a = clock_type_mach" "ci_f a = Some f" "ci_numdiffs a = 1000" "ci_sleepus a = 5000" "length (ci_vals a) = 1000 + 1" "length (ci_nsbuf a) = 1000 + 1"
    "length (ci_hbuf a) = 1000" "ci_b a = Some (next_block w)" "ci_nsp a = Some (next_block w + 1)" "ci_hp a = Some (next_block w + 2)"
    using al(2) by (simp_all add: allocated_def default_info_def)
  obtain x' vs w1 v where co: "mach_run c f 1002 w1 = (x' # vs, v)" "own v = own x" "clock_collect c a x = Some (0, a\<lparr>ci_vals := map Mach vs, ci_nsbuf := map conv vs\<rparr>, v)"
    and cs: "samples_ok (map conv vs)" "length vs = 1001"
    and wt: "us (ctool.more w) + 5000 \<le> us (ctool.more w1)" "us (ctool.more w1) \<le> us (ctool.more w) + 5000 + late" "\<forall>t \<in> set vs. now (ctool.more w1) \<le> t"
    using clock_collect_run [OF assms(1,2) al(5,6) a(2-4,6,7), of 5000] a(5) al(7) assms(3) by auto
  obtain h e where g: "gen_hist (map conv vs) 1000 (ci_hbuf a) = Some (h, e)" "length h = 1000" "e \<le> 1000" "take e h = map (tally (deltas (map conv vs))) (sorted_list_of_set (set (deltas (map conv vs))))"
    using gen_hist_result [OF cs(1), of 1000 "ci_hbuf a"] cs(2) a(8) by auto
  have sm: "setup_mach c False w = Some (0, ?w)" using assms(4-6) by (simp add: setup_mach_def Let_def)
  have cf: "clock_find (cs_tool c) default_info None False ?w = Some (None, ?ci, ?w)"
    using default_tables(3) assms(7) by (simp add: clock_find_def clock_lookup_def default_info_def)
  let ?a = "a\<lparr>ci_vals := map Mach vs, ci_nsbuf := map conv vs, ci_hbuf := h, ci_hbufe := e\<rparr>"
  let ?d = "hist_lines 5 (take e h) (say Stdout (''Histogram of ns deltas for '' @ quoted ''mach_absolute_time'' @ '' (delta: count):'' @ newline) v)"
  have l: "e \<le> length h" using g by simp
  have du: "dump_hist ?a False 0 v = Some ?d"
    using a(1) default_tables(4) l by (simp add: dump_hist_def clock_name_def mem_simps quoted_def)
  have run: "clock_run c no_opts None default_info default_info w = Some (0, ?a, default_info, ?d)"
    using sm cf al(1) co(3) g(1) du a(4) by (simp add: clock_run_def no_opts_def)
  have hv: "heap v = heap x" "printed v = printed w" using co(2) al(4) by (simp_all add: own_simps)
  obtain z where f2: "clock_free ?a ?d = Some (z, ?d\<lparr>heap := heap w\<rparr>)"
    using clock_free_all [of "?a" "next_block w" "?d" "heap w"] a(9-11) al(3) hv(1) assms(9) by auto
  have "printed ?d = printed w @ default_lines (map conv vs)" by (simp add: printed_hist g(4) hv(2) default_lines_def)
  moreover have "ctool.more ?d = ctool.more v" by simp
  ultimately show ?thesis using co(1) cs(2) run f2 wt by blast
qed

text \<open>C27: the program without arguments.  Where \<open>mach_absolute_time\<close> is found and there is memory, it first waits at least the five
  milliseconds of the default and at most the lateness of a sleep more; it then calls the clock 1002 times in a row, drops the first
  reading, and prints, in order, every difference between successive readings of the other 1001, in nanoseconds, with the number of
  times it occurs, between a heading and the word that it has completed; it exits with 0, and every block has been given back.
  No reading precedes the end of the wait, and after the last one nothing more is asked of the system.\<close>

theorem clock_main_histogram:
  assumes "ticking c f s conv now H" and "honest_timer c (cs_fl c (s / 1000)) us late" and "us (ctool.more w) + 5000 + late < 2 ^ 32"
    and "cs_timebase c = (0, nu, de)" and "de \<noteq> 0" and "s = cs_fl c (of_int (uint nu) / of_int (uint de))"
    and "td_sym (cs_tool c) RTLD_NEXT ''mach_absolute_time'' = Some f" and "cs_mem c = (\<lambda>_. True)" and "\<forall>b \<in> heap w. b < next_block w"
  shows "\<exists>x vs w1 v w'. us (ctool.more w) + 5000 \<le> us (ctool.more w1) \<and> us (ctool.more w1) \<le> us (ctool.more w) + 5000 + late
    \<and> mach_run c f 1002 w1 = (x # vs, v) \<and> length vs = 1001 \<and> (\<forall>t \<in> set vs. now (ctool.more w1) \<le> t) \<and> ctool.more w' = ctool.more v
    \<and> clock_main c argv0 [] w = Some (0, w') \<and> heap w' = heap w
    \<and> printed w' = printed w @ default_lines (map conv vs) @ [(Stdout, td_basename (cs_tool c) argv0 @ '' completed.'' @ newline)]"
proof -
  obtain x vs w1 v a z d where r: "mach_run c f 1002 w1 = (x # vs, v)" "length vs = 1001" "clock_run c no_opts None default_info default_info w = Some (0, a, default_info, d)"
    "clock_free a d = Some (z, d\<lparr>heap := heap w\<rparr>)" "printed d = printed w @ default_lines (map conv vs)" "ctool.more d = ctool.more v"
    and wt: "us (ctool.more w) + 5000 \<le> us (ctool.more w1)" "us (ctool.more w1) \<le> us (ctool.more w) + 5000 + late" "\<forall>t \<in> set vs. now (ctool.more w1) \<le> t"
    using default_run [OF assms] by blast
  have f: "clock_free default_info x = Some (default_info, x)" for x :: "'a ctool_scheme" by (simp add: clock_free_def default_info_def zero_info_def)
  let ?e = "say Stdout (td_basename (cs_tool c) argv0 @ '' completed.'' @ newline) (d\<lparr>heap := heap w\<rparr>)"
  have "clock_main c argv0 [] w = Some (0, ?e)"
    using default_tables(4) default_setup r(3,4) f by (simp add: clock_main_def REF_CLOCK_IDX_def close_lib_def no_opts_def)
  moreover have "heap ?e = heap w" "printed ?e = printed w @ default_lines (map conv vs) @ [(Stdout, td_basename (cs_tool c) argv0 @ '' completed.'' @ newline)]"
    "ctool.more ?e = ctool.more v"
    using r(5,6) by simp_all
  ultimately show ?thesis using r(1,2) wt by blast
qed

section \<open>A system\<close>

text \<open>
  A counter of microseconds up to \<open>2 ^ 40\<close>, on which a sleep may end after half of its time, a loader that finds every
  function, and memory that \<open>mem\<close> may refuse.
\<close>

definition demo_tool :: tool_system where
  "demo_tool = \<lparr>td_sym = (\<lambda>h s. Some 7), td_open = (\<lambda>s. Some 1), td_close = (\<lambda>n. True), td_dlerror = [], td_dirname = id, td_basename = id, td_realpath = Some, td_offender = id,
     td_strerror = (\<lambda>e. []), td_number = (\<lambda>e. 1), td_osrelease = Some (''8.11.0'', 7), td_native = Some 1, td_translated = None\<rparr>"

definition micros :: "nat \<Rightarrow> u64" where "micros n = of_nat (min n (2 ^ 40))"

definition demo_clock :: "(nat ctool_scheme \<Rightarrow> bool) \<Rightarrow> nat ctool_scheme clock_sys" where
  "demo_clock mem = \<lparr>cs_tool = demo_tool, cs_mach = (\<lambda>w. (micros (ctool.more w), w)), cs_machf = (\<lambda>f w. (micros (ctool.more w), ctool.more_update Suc w)),
     cs_tod = (\<lambda>f w. ((0, \<lparr>tv_s = 0, tv_us = 0\<rparr>), w)), cs_gettime = (\<lambda>f k w. ((0, \<lparr>tv_sec = 0, tv_nsec = 0\<rparr>), w)), cs_gettime_ns = (\<lambda>f k w. (1, w)),
     cs_usleep = (\<lambda>u w. ctool.more_update (\<lambda>n. n + unat u div 2 + 1) w), cs_timebase = (0, 1000, 1), cs_fl = id, cs_mem = mem, cs_f3 = (\<lambda>x. [])\<rparr>"

definition tool_start :: "nat \<Rightarrow> nat ctool_scheme" where
  "tool_start n = \<lparr>printed = [], t_errno = Errno 0, handles = {}, heap = {}, next_block = 0, m2n = 1000, m2u = 1, \<dots> = n\<rparr>"

lemma micros_unat: "unat (micros n) = min n (2 ^ 40)"
proof -
  have "min n (2 ^ 40) < 2 ^ 64" by (simp add: min_def)
  then show ?thesis by (simp add: micros_def unat_of_nat take_bit_nat_eq_self)
qed

lemma micros_uint: "uint (micros n) = int (min n (2 ^ 40))"
  using micros_unat [of n] by (metis uint_nat)

lemma to_unsigned_int: "0 \<le> i \<Longrightarrow> i < 2 ^ b \<Longrightarrow> to_unsigned b (of_int i) = Some i"
proof -
  assume i: "0 \<le> i" "i < 2 ^ b"
  then have "(of_int i :: rat) < of_int (2 ^ b)" by (simp only: of_int_less_iff)
  then show ?thesis using i by (simp add: to_unsigned_def)
qed

lemma mt_exact:
  assumes "cs_fl c = id" and "0 \<le> k"
  shows "m2n w = of_int k \<Longrightarrow> uint t * k < 2 ^ 64 \<Longrightarrow> mt2nsec c t w = Some (word_of_int (uint t * k))"
    and "m2u w = of_int k \<Longrightarrow> uint t * k < 2 ^ 32 \<Longrightarrow> mt2usec c t w = Some (word_of_int (uint t * k))"
proof -
  have e: "of_int (uint t) * of_int k = (of_int (uint t * k) :: rat)" by (simp only: of_int_mult)
  have k: "0 \<le> uint t * k" using assms(2) by simp
  show "mt2nsec c t w = Some (word_of_int (uint t * k))" if "m2n w = of_int k" "uint t * k < 2 ^ 64"
    using to_unsigned_int [OF k that(2)] unfolding mt2nsec_def that(1) assms(1) id_apply e by simp
  show "mt2usec c t w = Some (word_of_int (uint t * k))" if "m2u w = of_int k" "uint t * k < 2 ^ 32"
    using to_unsigned_int [OF k that(2)] unfolding mt2usec_def that(1) assms(1) id_apply e by simp
qed

lemma demo_simps: "cs_fl (demo_clock mem) = id" "cs_mach (demo_clock mem) w = (micros (ctool.more w), w)"
  "cs_machf (demo_clock mem) f w = (micros (ctool.more w), ctool.more_update Suc w)"
  by (simp_all add: demo_clock_def)

lemma demo_honest: "honest_timer (demo_clock mem) 1 id 1"
proof -
  have "mach_usec (demo_clock mem) w = Some (of_nat (ctool.more w), w)" if "m2u w = 1" "ctool.more w < 2 ^ 32" for w
  proof -
    have u: "uint (micros (ctool.more w)) = int (ctool.more w)" using that(2) by (simp add: micros_uint)
    have "mt2usec (demo_clock mem) (micros (ctool.more w)) w = Some (word_of_int (uint (micros (ctool.more w)) * 1))"
      by (rule mt_exact(2)) (use that u in \<open>simp_all add: demo_simps\<close>)
    then show ?thesis unfolding u by (simp add: mach_usec_def demo_simps)
  qed
  then show ?thesis by (simp add: honest_timer_def own_simps) (simp add: demo_clock_def)
qed

definition micro_ns :: "u64 \<Rightarrow> u64" where "micro_ns t = word_of_int (uint t * 1000)"

lemma micro_ns_uint:
  assumes "t \<le> 2 ^ 40"
  shows "uint (micro_ns t) = uint t * 1000" and "uint t * 1000 < 2 ^ 64"
proof -
  have "uint t \<le> 2 ^ 40" using assms by (simp add: word_le_def)
  then show "uint t * 1000 < 2 ^ 64" by simp
  then show "uint (micro_ns t) = uint t * 1000" unfolding micro_ns_def uint_of_int64 by (intro mod_pos_pos_trivial) simp_all
qed

lemma demo_ticking: "ticking (demo_clock mem) f 1000 micro_ns micros (2 ^ 40)"
proof -
  have "mt2nsec (demo_clock mem) t w = Some (micro_ns t)" if "m2n w = 1000" "t \<le> 2 ^ 40" for t w
    unfolding micro_ns_def by (rule mt_exact(1)) (use that micro_ns_uint(2) [OF that(2)] in \<open>simp_all add: demo_simps\<close>)
  moreover have "micro_ns t \<le> micro_ns u" if "t \<le> u" "u \<le> 2 ^ 40" for t u
    using that micro_ns_uint(1) [of t] micro_ns_uint(1) [of u] by (simp add: word_le_def)
  moreover have "uint (micro_ns t) < 2 ^ 63" if "t \<le> 2 ^ 40" for t
    using that micro_ns_uint(1) [OF that] by (simp add: word_le_def)
  moreover have "micros n \<le> micros (Suc n)" "micros n \<le> 2 ^ 40" for n by (simp_all add: word_le_nat_alt micros_unat)
  ultimately show ?thesis by (auto simp: ticking_def own_simps demo_simps)
qed

lemma usleepx_waits_witness:
  "\<exists>w'. usleepx (demo_clock (\<lambda>_. True)) 5000 (tool_start 3) = Some w' \<and> 5003 \<le> ctool.more w' \<and> ctool.more w' \<le> 5004"
  using usleepx_waits [OF demo_honest, of "tool_start 3" 5000 "\<lambda>_. True"] by (auto simp: tool_start_def)

lemma getnum_decimal_witness:
  "getnum (dec 1000) ''num_diffs'' 3 1000000 (tool_start 0) = (Some 1000, tool_start 0) \<and> fst (getnum (dec 2) ''num_diffs'' 3 1000000 (tool_start 0)) = None
    \<and> fst (getnum (dec (2 ^ 64 + 5)) ''num_diffs'' 3 1000000 (tool_start 0)) = None"
  using getnum_decimal [of 3 1000000 1000 "''num_diffs''" "tool_start 0"] getnum_decimal [of 3 1000000 2 "''num_diffs''" "tool_start 0"]
    getnum_decimal [of 3 1000000 "2 ^ 64 + 5" "''num_diffs''" "tool_start 0"] by simp

text \<open>Memory for one block only.\<close>

lemma clock_alloc_free_witness:
  "\<exists>ci' w'. clock_alloc (demo_clock (\<lambda>w. heap w = {})) default_info (tool_start 0) = Some (-1, ci', w') \<and> clock_free ci' w' = None"
proof -
  have "\<forall>b \<in> heap (tool_start 0). b < next_block (tool_start 0)" "ci_hp default_info = None" "ci_nsp default_info = None"
    by (simp_all add: tool_start_def default_info_def zero_info_def)
  note f = clock_alloc_free [OF this, of "demo_clock (\<lambda>w. heap w = {})"]
  have "\<exists>ci' w'. clock_alloc (demo_clock (\<lambda>w. heap w = {})) default_info (tool_start 0) = Some (-1, ci', w') \<and> ci_b ci' \<noteq> None"
    by (simp add: clock_alloc_def calloc_def demo_clock_def tool_start_def Let_def)
  then show ?thesis using f by (auto split: option.splits) (metis option.exhaust surj_pair)
qed

text \<open>Two samples interleaved with three readings.\<close>

definition demo_info :: "nat \<Rightarrow> clock_info" where
  "demo_info n = default_info\<lparr>ci_f := Some 7, ci_numdiffs := n, ci_vals := replicate (n + 1) (Mach 0), ci_nsbuf := replicate (n + 1) 0\<rparr>"

lemma clock_compare_brackets_witness:
  "\<exists>ci' rci' w'. clock_compare (demo_clock (\<lambda>_. True)) (demo_info 2) (demo_info 2) (tool_start 0) = Some (0, ci', rci', w')
    \<and> (\<forall>i<2. ci_nsbuf rci' ! i \<le> ci_nsbuf ci' ! i \<and> ci_nsbuf ci' ! i \<le> ci_nsbuf rci' ! Suc i)"
proof -
  have "m2n (tool_start 0) = 1000" "m2u (tool_start 0) = 1" "ci_type (demo_info 2) = clock_type_mach" "ci_f (demo_info 2) = Some 7"
    "ci_idx (demo_info 2) = REF_CLOCK_IDX" "ci_numdiffs (demo_info 2) = 2" "ci_numdiffs (demo_info 2) = 2" "length (ci_vals (demo_info 2)) = 2 + 1"
    "length (ci_vals (demo_info 2)) = 2 + 1" "length (ci_nsbuf (demo_info 2)) = 2 + 1" "length (ci_nsbuf (demo_info 2)) = 2 + 1"
    "ci_sleepus (demo_info 2) = int 5000" "(0 :: nat) < 5000" "id (ctool.more (tool_start 0)) + 5000 + 1 < 2 ^ 32"
    by (simp_all add: tool_start_def demo_info_def default_info_def REF_CLOCK_IDX_def)
  from clock_compare_brackets [OF demo_ticking [of "\<lambda>_. True"] demo_honest this] show ?thesis by blast
qed

lemma demo_run_later: "ctool.more w \<le> ctool.more (snd (mach_run (demo_clock mem) f k w))"
proof (induction k arbitrary: w)
  case (Suc k)
  from Suc.IH [of "ctool.more_update Suc w"] show ?case by (simp add: demo_simps case_prod_beta)
qed simp

lemma clock_main_histogram_witness:
  "\<exists>vs w'. length vs = 1001 \<and> 5000 \<le> ctool.more w' \<and> clock_main (demo_clock (\<lambda>_. True)) ''clock_info'' [] (tool_start 0) = Some (0, w')
    \<and> printed w' = default_lines (map micro_ns vs) @ [(Stdout, ''clock_info completed.'' @ newline)]"
proof -
  let ?c = "demo_clock (\<lambda>_. True)"
  have "ticking ?c 7 1000 micro_ns micros (2 ^ 40)" by (rule demo_ticking)
  moreover have "honest_timer ?c (cs_fl ?c (1000 / 1000)) id 1" using demo_honest [of "\<lambda>_. True"] by (simp add: demo_clock_def)
  moreover have "id (ctool.more (tool_start 0)) + 5000 + 1 < 2 ^ 32" "cs_timebase ?c = (0, 1000, 1)" "(1 :: u32) \<noteq> 0"
    "1000 = cs_fl ?c (of_int (uint (1000 :: u32)) / of_int (uint (1 :: u32)))" "td_sym (cs_tool ?c) RTLD_NEXT ''mach_absolute_time'' = Some 7"
    "cs_mem ?c = (\<lambda>_. True)" "\<forall>b \<in> heap (tool_start 0). b < next_block (tool_start 0)"
    by (simp_all add: tool_start_def demo_clock_def demo_tool_def)
  ultimately have "\<exists>x vs w1 v w'. id (ctool.more (tool_start 0)) + 5000 \<le> id (ctool.more w1) \<and> id (ctool.more w1) \<le> id (ctool.more (tool_start 0)) + 5000 + 1
      \<and> mach_run ?c 7 1002 w1 = (x # vs, v) \<and> length vs = 1001 \<and> (\<forall>t \<in> set vs. micros (ctool.more w1) \<le> t) \<and> ctool.more w' = ctool.more v \<and> clock_main ?c ''clock_info'' [] (tool_start 0) = Some (0, w')
      \<and> heap w' = heap (tool_start 0) \<and> printed w' = printed (tool_start 0) @ default_lines (map micro_ns vs) @ [(Stdout, td_basename (cs_tool ?c) ''clock_info'' @ '' completed.'' @ newline)]"
    by (rule clock_main_histogram)
  then obtain x vs w1 v w' where r: "5000 \<le> ctool.more w1" "mach_run ?c 7 1002 w1 = (x # vs, v)" "length vs = 1001" "ctool.more w' = ctool.more v"
    "clock_main ?c ''clock_info'' [] (tool_start 0) = Some (0, w')"
    "printed w' = default_lines (map micro_ns vs) @ [(Stdout, ''clock_info completed.'' @ newline)]"
    by (auto simp: tool_start_def demo_clock_def demo_tool_def)
  have "5000 \<le> ctool.more v" using demo_run_later [of w1 "\<lambda>_. True" 7 1002] r(1,2) by simp
  then show ?thesis using r(3-6) by (intro exI [of _ vs] exI [of _ w']) simp
qed

end
