(* ===== verification/Tool_Reports.thy ===== *)
theory Tool_Reports
  imports Tool_Base Packet Stat_Conv
begin

text \<open>
  Three reports of \<open>tools/\<close>: \<open>boottime.c\<close> asks for the boot time in three ways, \<open>fileinfo.c\<close> prints the type and the times of
  files, and \<open>mach_time.c\<close> computes the scale of mach time.  The functions they examine are found at run time, so that
  what they do is a parameter; a structure they fill is a list of bytes.
\<close>

section \<open>boottime.c\<close>

text \<open>
  \<open>bs_get\<close> is \<open>sysctlbyname\<close> (no numbers) or \<open>sysctl\<close> (the numbers of the variable), called at an address with the size of the
  structure: the result, the bytes stored at its start, and the length stored.  \<open>bs_mib\<close> is \<open>sysctlnametomib\<close>.
\<close>

record 'w bt_sys =
  bs_le :: bool
  bs_arch :: string
  bs_get :: "nat \<Rightarrow> int list option \<Rightarrow> nat \<Rightarrow> 'w \<Rightarrow> (int \<times> byte list \<times> nat) \<times> 'w"
  bs_mib :: "nat \<Rightarrow> nat \<Rightarrow> 'w \<Rightarrow> (int \<times> int list \<times> nat) \<times> 'w"

text \<open>\<open>struct timeval\<close>: the seconds in 8 bytes, the microseconds in 4, and 4 bytes of padding.\<close>

definition BT_SIZE :: nat where "BT_SIZE = 16"
definition BT_USEC :: nat where "BT_USEC = 8"

function fill_loop :: "bool \<Rightarrow> byte list \<Rightarrow> nat \<Rightarrow> byte list option" where
  "fill_loop le m ip = (if ip < length m then do { m \<leftarrow> mblit m ip (store le 4 0xDEADBEEF); fill_loop le m (ip + 4) } else Some m)"
  by auto
termination by (relation "measure (\<lambda>(le, m, ip). length m - ip)") (auto dest: mblit_length)

declare fill_loop.simps [simp del]

definition init_bt :: "bool \<Rightarrow> byte list \<Rightarrow> (byte list \<times> nat) option" where
  "init_bt le m = do { m \<leftarrow> fill_loop le m 0; Some (m, BT_SIZE) }"

definition print_err :: "tool_system \<Rightarrow> string \<Rightarrow> int \<Rightarrow> 'x tool_scheme \<Rightarrow> 'x tool_scheme" where
  "print_err y name ret w = say Stdout (''***  kern.boottime '' @ name @ '' returned '' @ dec ret @ '', errno = '' @ dec (td_number y (t_errno w)) @ '' ('' @ td_strerror y (t_errno w) @ '')'' @ newline) w"

definition check_bt :: "bool \<Rightarrow> string \<Rightarrow> nat \<Rightarrow> byte list \<Rightarrow> 'x tool_scheme \<Rightarrow> (int \<times> 'x tool_scheme) option" where
  "check_bt le name retlen bt w =
     (if to_int32 (int retlen) \<noteq> int BT_SIZE
      then Some (1, say Stdout (''***  kern.boottime '' @ name @ '' returned length '' @ dec (to_int32 (int retlen)) @ '', which should be '' @ dec (int BT_SIZE) @ newline) w)
      else do { us \<leftarrow> ld le 4 bt BT_USEC;
                if us \<ge> 1000000 then Some (1, say Stdout (''***  kern.boottime '' @ name @ '' tv_usec = 0x'' @ hex 8 us @ newline) w)
                else Some (0, w) })"

definition print_bt :: "bool \<Rightarrow> string \<Rightarrow> byte list \<Rightarrow> 'x tool_scheme \<Rightarrow> 'x tool_scheme option" where
  "print_bt le name bt w =
     do { s \<leftarrow> ld le 8 bt 0; us \<leftarrow> ld le 4 bt BT_USEC;
          Some (say Stdout (''  kern.bootime '' @ name @ '' result = { sec = '' @ dec (signed_of 8 s) @ '', usec = '' @ dec (signed_of 4 us) @ '' }'' @ newline) w) }"

fun mib_text :: "int list \<Rightarrow> string" where
  "mib_text [] = []"
| "mib_text [v] = dec v"
| "mib_text (v # vs) = dec v @ '', '' @ mib_text vs"

definition show_mib :: "string \<Rightarrow> int list \<Rightarrow> nat \<Rightarrow> 'x tool_scheme \<Rightarrow> 'x tool_scheme option" where
  "show_mib name mib miblen w =
     do { vs \<leftarrow> mslice mib 0 miblen; Some (say Stdout (''  kern.boottime'' @ name @ '' mib = ['' @ mib_text vs @ '']'' @ newline) w) }"

text \<open>One question: the structure is filled with garbage, the function called, and the answer tested and printed.\<close>

definition ask :: "tool_system \<Rightarrow> 'x tool_scheme bt_sys \<Rightarrow> nat \<Rightarrow> int list option \<Rightarrow> string \<Rightarrow> bool \<Rightarrow> byte list \<Rightarrow> nat \<Rightarrow> 'x tool_scheme \<Rightarrow> (byte list \<times> 'x tool_scheme) option" where
  "ask y b adr mib name verbose bt len w =
     (let ((ret, stored, len'), w) = bs_get b adr mib len w
      in do { bt \<leftarrow> mblit bt 0 stored;
              (ret, w) \<leftarrow> (if ret \<noteq> 0 then Some (ret, print_err y name ret w) else check_bt (bs_le b) name len' bt w);
              w \<leftarrow> (if ret = 0 \<or> verbose then print_bt (bs_le b) name bt w else Some w);
              Some (bt, w) })"

definition first_line :: "tool_system \<Rightarrow> string \<Rightarrow> string" where
  "first_line y arch =
     (let (err, osver) = get_osver y
      in ''OS is Darwin '' @ (if err \<noteq> 0 then ''???'' else osver) @ '', CPU is '' @ arch @ '' ('' @ rosetta_name (tool_check_rosetta y) @ '')'' @ newline)"

text \<open>\<open>bt\<close> and \<open>mib\<close> are the contents of the two variables when the program starts.\<close>

definition boottime_main :: "tool_system \<Rightarrow> 'x tool_scheme bt_sys \<Rightarrow> byte list \<Rightarrow> int list \<Rightarrow> string \<Rightarrow> string list \<Rightarrow> 'x tool_scheme \<Rightarrow> (int \<times> 'x tool_scheme) option" where
  "boottime_main y b bt mib argv0 args w =
     (let ((v, legacy), _) = options args (0, 0);
          verbose = (v > 0);
          w = say Stdout (first_line y (bs_arch b)) w;
          (lib, w) = (if legacy \<noteq> 0 then load_lib y Stdout legacy argv0 verbose w else (None, w))
      in if legacy \<noteq> 0 \<and> lib = None then Some (10, w)
         else do { (bt, len) \<leftarrow> init_bt (bs_le b) bt;
                   let (p, w) = func_lookup y False ''sysctlbyname'' lib verbose w;
                   (bt, w) \<leftarrow> (case p of None \<Rightarrow> Some (bt, w) | Some adr \<Rightarrow> ask y b adr None ''by name'' verbose bt len w);
                   let (p, w) = func_lookup y False ''sysctlnametomib'' lib verbose w;
                   (mib, miblen, w) \<leftarrow> (case p of
                       None \<Rightarrow> Some (mib, 0, w)
                     | Some adr \<Rightarrow>
                         (let ((ret, stored, n), w) = bs_mib b adr (length mib) w
                          in do { mib \<leftarrow> mblit mib 0 stored;
                                  let (n, w) = (if ret \<noteq> 0 then (0, print_err y ''to mib'' ret w) else (n, w));
                                  w \<leftarrow> (if ret = 0 \<or> verbose then show_mib [] mib n w else Some w);
                                  Some (mib, n, w) }));
                   let (p, w) = func_lookup y False ''sysctl'' lib verbose w;
                   (bt, w) \<leftarrow> (if miblen \<noteq> 0
                       then do { (bt, len) \<leftarrow> init_bt (bs_le b) bt;
                                 (case p of None \<Rightarrow> Some (bt, w)
                                  | Some adr \<Rightarrow> do { vs \<leftarrow> mslice mib 0 miblen; ask y b adr (Some vs) ''by mib'' verbose bt len w }) }
                       else Some (bt, w));
                   (bt, len) \<leftarrow> init_bt (bs_le b) bt;
                   mib \<leftarrow> mblit mib 0 [1, 21];
                   w \<leftarrow> show_mib '' by consts'' mib 2 w;
                   (bt, w) \<leftarrow> (case p of None \<Rightarrow> Some (bt, w) | Some adr \<Rightarrow> ask y b adr (Some [1, 21]) ''by consts'' verbose bt len w);
                   Some (0, close_lib y Stdout lib w) })"

section \<open>fileinfo.c\<close>

record file_stat =
  fi_mode :: u16
  fi_atime :: "int \<times> int"
  fi_mtime :: "int \<times> int"
  fi_ctime :: "int \<times> int"
  fi_birth :: "(int \<times> int) option"

definition type_text :: "u16 \<Rightarrow> string" where
  "type_text mode =
     (let t = mode AND S_IFMT
      in if t = 0x1000 then ''fifo'' else if t = 0x2000 then ''character special'' else if t = S_IFDIR then ''directory'' else if t = 0x6000 then ''block special''
         else if t = S_IFREG then ''regular'' else if t = S_IFLNK then ''symbolic link'' else if t = 0xC000 then ''socket'' else if t = 0xE000 then ''whiteout'' else ''(unknown)'')"

definition report_type :: "u16 \<Rightarrow> 'x tool_scheme \<Rightarrow> 'x tool_scheme" where
  "report_type mode w = say Stdout (''  type is '' @ type_text mode @ newline) w"

definition report_time :: "string \<Rightarrow> int \<times> int \<Rightarrow> 'x tool_scheme \<Rightarrow> 'x tool_scheme" where
  "report_time name ts w =
     (let (s, n) = ts
      in if uint (word_of_int n :: u64) < 1000000000
         then say Stdout (''  '' @ name @ '' = '' @ dec s @ ''.'' @ pad_zero 9 (dec n) @ newline) w
         else say Stdout (''  '' @ name @ '' tv_sec = '' @ dec s @ '', bad tv_nsec = '' @ dec n @ '' (0x'' @ hex 8 (unat (word_of_int n :: u64)) @ '')'' @ newline) w)"

definition report_stat :: "tool_system \<Rightarrow> (nat \<Rightarrow> string \<Rightarrow> 'x tool_scheme \<Rightarrow> (int \<times> file_stat) \<times> 'x tool_scheme) \<Rightarrow> nat \<Rightarrow> bool \<Rightarrow> string \<Rightarrow> 'x tool_scheme \<Rightarrow> 'x tool_scheme" where
  "report_stat y os_lstat adr verbose name w =
     (let w = say Stdout (''lstat() for '' @ [char_of (39 :: nat)] @ name @ [char_of (39 :: nat)] @ '':'' @ newline) w;
          w = (if verbose
               then (case td_realpath y name of
                       None \<Rightarrow> say Stdout (''  *** realpath() failed at '' @ td_offender y name @ '': '' @ td_strerror y (t_errno w) @ '' ('' @ dec (td_number y (t_errno w)) @ '')'' @ newline) w
                     | Some p \<Rightarrow> say Stdout (''  full path is '' @ p @ newline) w)
               else w);
          ((err, st), w) = os_lstat adr name w
      in if err \<noteq> 0 then say Stdout (''  *** failed: '' @ td_strerror y (t_errno w) @ '' ('' @ dec (td_number y (t_errno w)) @ '')'' @ newline) w
         else (let w = report_time ''ctime    '' (fi_ctime st) (report_time ''mtime    '' (fi_mtime st) (report_time ''atime    '' (fi_atime st) (report_type (fi_mode st) w)))
               in case fi_birth st of None \<Rightarrow> w | Some t \<Rightarrow> report_time ''birthtime'' t w))"

text \<open>\<open>sfx\<close> is the suffix of the variant of \<open>lstat\<close> the program is compiled for.\<close>

definition fileinfo_main :: "tool_system \<Rightarrow> (nat \<Rightarrow> string \<Rightarrow> 'x tool_scheme \<Rightarrow> (int \<times> file_stat) \<times> 'x tool_scheme) \<Rightarrow> string \<Rightarrow> string \<Rightarrow> string \<Rightarrow> string list \<Rightarrow> 'x tool_scheme \<Rightarrow> int \<times> 'x tool_scheme" where
  "fileinfo_main y os_lstat arch sfx argv0 args w =
     (let ((v, legacy), files) = options args (0, 0);
          verbose = (v > 0);
          w = say Stdout (first_line y arch) w;
          (lib, w) = (if legacy \<noteq> 0 then load_lib y Stdout legacy argv0 verbose w else (None, w))
      in if legacy \<noteq> 0 \<and> lib = None then (10, w)
         else (let (p, w) = func_lookup y True (''lstat'' @ sfx) lib verbose w
               in case p of
                    None \<Rightarrow> (1, w)
                  | Some adr \<Rightarrow> (0, close_lib y Stdout lib (fold (report_stat y os_lstat adr verbose) files w))))"

section \<open>mach_time.c\<close>

text \<open>The scale from two arguments or from the system: the exit code, or the numerator and the denominator.\<close>

definition mt_scale :: "tool_system \<Rightarrow> string \<Rightarrow> int \<times> u32 \<times> u32 \<Rightarrow> string list \<Rightarrow> 'x tool_scheme \<Rightarrow> (int + u32 \<times> u32) \<times> 'x tool_scheme" where
  "mt_scale y arch tb args w =
     (case args of
        a # c # _ \<Rightarrow>
          (let (n, rest) = strtoul a
           in if rest \<noteq> [] then (Inl 1, say Stdout (''Bad numerator'' @ newline) w)
              else (let (d, rest) = strtoul c
                    in if rest \<noteq> [] then (Inl 1, say Stdout (''Bad denominator'' @ newline) w) else (Inr (ucast n, ucast d), w)))
      | _ \<Rightarrow>
          (let w = say Stdout (first_line y arch) w; (err, n, d) = tb
           in if err \<noteq> 0 then (Inl 0, say Stdout (''Unable to obtain timebase rate, err = '' @ dec err @ newline) w) else (Inr (n, d), w)))"

text \<open>The multiplier the program prints; a denominator of zero divides by zero.\<close>

definition mt_multiplier :: "u32 \<Rightarrow> u32 \<Rightarrow> u64 option" where
  "mt_multiplier n d =
     (if d = 0 then None
      else Some (if n AND NUMERATOR_MASK = 0
                 then (push_bit HIGH_SHIFT (ucast n) + ucast (drop_bit 1 d)) div ucast d
                 else push_bit EXTRA_SHIFT ((push_bit 32 (ucast n) + ucast (drop_bit 1 d)) div ucast d)))"

definition mt_approx :: "u32 \<Rightarrow> u32 \<Rightarrow> string option" where
  "mt_approx n d = (if d = 0 then None else Some (if n mod d \<noteq> 0 then ''~'' else []))"

section \<open>The multiplier\<close>

text \<open>It is the one the library computes, where it is defined.\<close>

lemma mt_multiplier_library: "d \<noteq> 0 \<Longrightarrow> mt_multiplier n d = Some (mult_of n d)"
  by (simp add: mt_multiplier_def mult_of_def drop_bit_eq_div)

text \<open>With a denominator of zero on the command line the program divides by zero.\<close>

lemma mach_time_divides_by_zero:
  "\<exists>n d. mt_scale y arch tb [''125'', ''0''] w = (Inr (n, d), w) \<and> mt_multiplier n d = None"
  by (simp add: mt_scale_def strtoul_def scan_def sign_of_def base_of_def isspace_def digit_value_def Let_def mt_multiplier_def)

section \<open>The garbage in the structure\<close>

definition garbage :: "bool \<Rightarrow> byte list" where "garbage le = store le 4 0xDEADBEEF"

lemma length_garbage [simp]: "length (garbage le) = 4"
  by (simp add: garbage_def)

lemma fill_loop_result:
  "ip + 4 * k = length m \<Longrightarrow> fill_loop le m ip = Some (take ip m @ concat (replicate k (garbage le)))"
proof (induction k arbitrary: ip m)
  case 0
  then show ?case by (subst fill_loop.simps) simp
next
  case (Suc k)
  let ?m = "take ip m @ garbage le @ drop (ip + 4) m"
  have "fill_loop le ?m (ip + 4) = Some (take (ip + 4) ?m @ concat (replicate k (garbage le)))" by (rule Suc.IH) (use Suc.prems in simp)
  then show ?case using Suc.prems by (subst fill_loop.simps) (simp add: mblit_ok flip: garbage_def)
qed

lemma init_bt_result: "length bt = 16 \<Longrightarrow> init_bt le bt = Some (garbage le @ garbage le @ garbage le @ garbage le, 16)"
  using fill_loop_result [of 0 4 bt le] by (simp add: init_bt_def BT_SIZE_def numeral_eq_Suc)

lemma to_le_four: "to_le 4 v = [of_nat (v mod 256), of_nat (v div 256 mod 256), of_nat (v div 256 div 256 mod 256), of_nat (v div 256 div 256 div 256 mod 256)]"
proof -
  have "(4 :: nat) = Suc (Suc (Suc (Suc 0)))" by simp
  then show ?thesis by (simp only: to_le.simps)
qed

lemma garbage_bytes: "garbage True = [0xEF, 0xBE, 0xAD, 0xDE]" "garbage False = [0xDE, 0xAD, 0xBE, 0xEF]"
  by (simp_all add: garbage_def store_def to_le_four)

lemma load_top: "load True [a, b, c, 0xDE] \<ge> 1000000"
  by (simp add: load_def)

text \<open>the garbage does what it is for, on a little-endian machine: if the call stores fewer than the 12 bytes of seconds and
  microseconds but claims to have stored the whole structure, the answer is reported as wrong, whatever it stored.\<close>

theorem short_answer_detected:
  assumes "length bt = 16" and "length stored < 12"
  shows "\<exists>filled bt' w'. init_bt True bt = Some (filled, 16) \<and> mblit filled 0 stored = Some bt' \<and> check_bt True name 16 bt' w = Some (1, w')"
proof -
  define g where "g = garbage True @ garbage True @ garbage True @ garbage True"
  have g: "length g = 16" "g ! 11 = 0xDE" by (simp_all add: g_def nth_append garbage_bytes(1))
  define m where "m = stored @ drop (length stored) g"
  have m: "length m = 16" "m ! 11 = 0xDE" using assms(2) g by (simp_all add: m_def nth_append)
  have b: "mblit g 0 stored = Some m" using assms(2) g by (simp add: mblit_def m_def)
  have "take 4 (drop 8 m) = [m ! 8, m ! 9, m ! 10, m ! 11]"
    using m(1) by (intro nth_equalityI) (auto simp: less_Suc_eq numeral_eq_Suc)
  then have "ld True 4 m 8 = Some (load True [m ! 8, m ! 9, m ! 10, 0xDE])" using m by (simp add: ld_def mslice_def)
  then have "\<exists>w'. check_bt True name 16 m w = Some (1, w')"
    using load_top [of "m ! 8" "m ! 9" "m ! 10"] by (auto simp: check_bt_def BT_SIZE_def BT_USEC_def to_int32_ok)
  then show ?thesis using init_bt_result [OF assms(1), of True] b by (auto simp: g_def)
qed

lemma short_answer_detected_witness:
  "\<exists>filled bt' w'. init_bt True (replicate 16 0) = Some (filled, 16) \<and> mblit filled 0 (replicate 8 1) = Some bt'
    \<and> check_bt True ''by name'' 16 bt' \<lparr>printed = [], t_errno = Errno 0, handles = {}\<rparr> = Some (1, w' :: tool)"
  by (rule short_answer_detected) simp_all

lemma two_zeros: "replicate 2 (0 :: byte) = [0, 0]"
  by (simp add: numeral_2_eq_2)

text \<open>On a big-endian machine two zero bytes in the place of the microseconds are enough for the rest of the garbage to pass.\<close>

lemma short_answer_passes:
  "mblit (garbage False @ garbage False @ garbage False @ garbage False) 0 (replicate 10 0) = Some bt'
    \<Longrightarrow> check_bt False name 16 bt' w = Some (0, w)"
proof -
  assume "mblit (garbage False @ garbage False @ garbage False @ garbage False) 0 (replicate 10 0) = Some bt'"
  then have "bt' = replicate 10 0 @ [0xBE, 0xEF, 0xDE, 0xAD, 0xBE, 0xEF]" by (simp add: mblit_def garbage_bytes)
  moreover have "ld False 4 (replicate 10 0 @ [0xBE, 0xEF, 0xDE, 0xAD, 0xBE, 0xEF]) 8 = Some 48879"
    using two_zeros by (simp add: ld_def mslice_def load_def)
  ultimately show ?thesis by (simp add: check_bt_def BT_SIZE_def BT_USEC_def to_int32_ok)
qed

section \<open>A whole report\<close>

text \<open>The bytes of a boot time, and a system whose three functions answer with them.\<close>

definition bt_bytes :: "bool \<Rightarrow> nat \<Rightarrow> nat \<Rightarrow> byte list \<Rightarrow> byte list" where
  "bt_bytes le s us post = store le 8 s @ store le 4 us @ post"

lemma bt_bytes_fields:
  assumes "s < 2 ^ 63" and "us < 1000000"
  shows "ld le 8 (bt_bytes le s us post) 0 = Some s" "ld le 4 (bt_bytes le s us post) 8 = Some us" "signed_of 8 s = int s" "signed_of 4 us = int us"
proof -
  show "ld le 8 (bt_bytes le s us post) 0 = Some s" using ld_app [of "store le 8 s" 8 s le "[]"] assms by (simp add: bt_bytes_def)
  show "ld le 4 (bt_bytes le s us post) 8 = Some us" using ld_app [of "store le 4 us" 4 us le "store le 8 s"] assms by (simp add: bt_bytes_def)
qed (use assms in \<open>simp_all add: signed_of_def\<close>)

definition good_sysctl :: "'x tool_scheme bt_sys \<Rightarrow> nat \<Rightarrow> nat \<Rightarrow> byte list \<Rightarrow> bool" where
  "good_sysctl b s us post \<longleftrightarrow> (\<forall>adr mib w. bs_get b adr mib 16 w = ((0, bt_bytes (bs_le b) s us post, 16), w)) \<and> (\<forall>adr n w. bs_mib b adr n w = ((0, [1, 21], 2), w))"

lemma two_numbers: "dec 1 = ''1''" "dec 21 = ''21''"
  by code_simp+

definition answer_line :: "string \<Rightarrow> nat \<Rightarrow> nat \<Rightarrow> stream \<times> string" where
  "answer_line name s us = (Stdout, ''  kern.bootime '' @ name @ '' result = { sec = '' @ dec (int s) @ '', usec = '' @ dec (int us) @ '' }'' @ newline)"

lemma ask_good:
  assumes "good_sysctl b s us post" and "length post = 4" and "s < 2 ^ 63" and "us < 1000000" and "length bt = 16"
  shows "ask y b adr mib name verbose bt 16 w = Some (bt_bytes (bs_le b) s us post, w\<lparr>printed := printed w @ [answer_line name s us]\<rparr>)"
proof -
  have l: "length (bt_bytes (bs_le b) s us post) = 16" using assms(2) by (simp add: bt_bytes_def)
  then have "mblit bt 0 (bt_bytes (bs_le b) s us post) = Some (bt_bytes (bs_le b) s us post)" using assms(5) by (simp add: mblit_def)
  then show ?thesis using assms(1,4) bt_bytes_fields [OF assms(3,4)]
    by (simp add: ask_def good_sysctl_def check_bt_def print_bt_def BT_SIZE_def BT_USEC_def to_int32_ok answer_line_def say_def)
qed

text \<open>the report of the boot time.  Over a system whose calls work, without options, the program prints the release, then the same
  seconds and microseconds for the question by name, by the numbers the system has told, and by the fixed numbers, with
  the numbers in between, and exits with 0.\<close>

theorem boottime_main_reports:
  assumes "good_sysctl b s us post" and "length post = 4" and "s < 2 ^ 63" and "us < 1000000" and "length bt = 16" and "length mib = 8"
    and "td_sym y RTLD_NEXT ''sysctlbyname'' = Some p" and "td_sym y RTLD_NEXT ''sysctlnametomib'' = Some q" and "td_sym y RTLD_NEXT ''sysctl'' = Some r"
  shows "boottime_main y b bt mib argv0 [] w = Some (0, w\<lparr>printed := printed w @ [(Stdout, first_line y (bs_arch b)), answer_line ''by name'' s us,
     (Stdout, ''  kern.boottime mib = [1, 21]'' @ newline), answer_line ''by mib'' s us, (Stdout, ''  kern.boottime by consts mib = [1, 21]'' @ newline), answer_line ''by consts'' s us]\<rparr>)"
proof -
  have lk: "func_lookup y False name None False x = (td_sym y RTLD_NEXT name, x)" for name and x :: "'a tool_scheme"
    by (simp add: func_lookup_def)
  have i: "init_bt (bs_le b) x = Some (garbage (bs_le b) @ garbage (bs_le b) @ garbage (bs_le b) @ garbage (bs_le b), 16)" if "length x = 16" for x
    using init_bt_result [OF that] .
  have l: "length (bt_bytes (bs_le b) s us post) = 16" "length (garbage (bs_le b) @ garbage (bs_le b) @ garbage (bs_le b) @ garbage (bs_le b)) = 16"
    using assms(2) by (simp_all add: bt_bytes_def)
  note a = ask_good [OF assms(1-4) l(2)]
  have m: "mblit mib 0 [1, 21] = Some ([1, 21] @ drop 2 mib)" using assms(6) by (simp add: mblit_def numeral_2_eq_2)
  have m2: "mblit ([1, 21] @ drop 2 mib) 0 [1, 21] = Some ([1, 21] @ drop 2 mib)" by (simp add: mblit_def)
  have sl: "mslice (1 # 21 # drop 2 mib) 0 2 = Some [1, 21]" by (simp add: mslice_def numeral_2_eq_2)
  have sm: "show_mib name (1 # 21 # drop 2 mib) 2 x = Some (x\<lparr>printed := printed x @ [(Stdout, ''  kern.boottime'' @ name @ '' mib = [1, 21]'' @ newline)]\<rparr>)"
    for name and x :: "'a tool_scheme"
    by (simp add: show_mib_def sl two_numbers say_def)
  show ?thesis
    using assms(5-9) m m2 by (simp add: boottime_main_def lk i l a assms(1)[unfolded good_sysctl_def] sl sm say_def close_lib_def)
qed

text \<open>A system that started at 1234567890.000042.\<close>

definition report_tool :: tool_system where
  "report_tool = \<lparr>td_sym = (\<lambda>h s. Some 7), td_open = (\<lambda>s. None), td_close = (\<lambda>n. True), td_dlerror = [], td_dirname = id, td_basename = id, td_realpath = Some,
     td_offender = id, td_strerror = (\<lambda>e. []), td_number = (\<lambda>e. 1), td_osrelease = Some (''8.11.0'', 7), td_native = Some 1, td_translated = None\<rparr>"

definition report_sys :: "tool bt_sys" where
  "report_sys = \<lparr>bs_le = True, bs_arch = ''x86_64'', bs_get = (\<lambda>adr mib n w. ((0, bt_bytes True 1234567890 42 (replicate 4 0), 16), w)), bs_mib = (\<lambda>adr n w. ((0, [1, 21], 2), w))\<rparr>"

lemma boottime_main_reports_witness:
  "\<exists>w'. boottime_main report_tool report_sys (replicate 16 0) (replicate 8 0) ''boottime'' [] \<lparr>printed = [], t_errno = Errno 0, handles = {}\<rparr> = Some (0, w')
    \<and> printed w' ! 1 = answer_line ''by name'' 1234567890 42 \<and> length (printed w') = 6"
proof -
  have "good_sysctl report_sys 1234567890 42 (replicate 4 0)" by (simp add: good_sysctl_def report_sys_def)
  moreover have "length (replicate 4 (0 :: byte)) = 4" "(1234567890 :: nat) < 2 ^ 63" "(42 :: nat) < 1000000" "length (replicate 16 (0 :: byte)) = 16"
    "length (replicate 8 (0 :: int)) = 8" "td_sym report_tool RTLD_NEXT ''sysctlbyname'' = Some 7" "td_sym report_tool RTLD_NEXT ''sysctlnametomib'' = Some 7"
    "td_sym report_tool RTLD_NEXT ''sysctl'' = Some 7" by (simp_all add: report_tool_def)
  ultimately show ?thesis
    using boottime_main_reports [of report_sys 1234567890 42 "replicate 4 0" "replicate 16 0" "replicate 8 0" report_tool 7 7 7 "''boottime''" "\<lparr>printed = [], t_errno = Errno 0, handles = {}\<rparr>"]
    by auto
qed

section \<open>Times of files\<close>

lemma radix_length: "n < b ^ k \<Longrightarrow> 0 < k \<Longrightarrow> length (radix b n) \<le> k"
proof (induction k arbitrary: n)
  case 0
  then show ?case by simp
next
  case (Suc k)
  show ?case
  proof (cases "n < b \<or> b < 2")
    case True
    then show ?thesis by (subst radix.simps) simp
  next
    case False
    have "n div b < b ^ k" using Suc.prems(1) by (simp add: less_mult_imp_div_less mult.commute)
    moreover have "0 < k" using False Suc.prems(1) by (cases k) auto
    ultimately show ?thesis using Suc.IH [of "n div b"] False by (subst radix.simps) simp
  qed
qed

lemma number_zeros: "number b 0 (replicate k CHR ''0'' @ s) = number b 0 s"
  by (induction k) (simp_all add: digit_value_def)

text \<open>\<open>fileinfo\<close> prints a time with nanoseconds below a billion as seconds, a point, and exactly nine digits, which read as the
  nanoseconds; a time outside is marked as bad.\<close>

theorem report_time_exact:
  fixes k :: u64
  shows "\<exists>line. report_time name (s, sint k) w = say Stdout line w
    \<and> (if 0 \<le> sint k \<and> sint k < 1000000000
       then \<exists>ds. line = ''  '' @ name @ '' = '' @ dec s @ ''.'' @ ds @ newline \<and> length ds = 9 \<and> number 10 0 ds = nat (sint k)
       else \<exists>r. line = ''  '' @ name @ '' tv_sec = '' @ dec s @ '', bad tv_nsec = '' @ dec (sint k) @ r)"
proof (cases "0 \<le> sint k \<and> sint k < 1000000000")
  case True
  then have u: "uint k < 1000000000" using sint_nonneg_uint [of k] by simp
  have l: "length (dec (sint k)) \<le> 9" using True radix_length [of "nat (sint k)" 10 9] by (simp add: dec_def nat_less_iff)
  have "number 10 0 (pad_zero 9 (dec (sint k))) = nat (sint k)" using True number_radix [of 10 "nat (sint k)"] by (simp add: pad_zero_def number_zeros dec_def)
  moreover have "length (pad_zero 9 (dec (sint k))) = 9" using l by (simp add: pad_zero_def)
  ultimately show ?thesis using True u by (simp add: report_time_def) blast
next
  case False
  then have "\<not> uint k < 1000000000" using sint_nonneg_uint [of k] sint_negative_uint [of k] by auto
  then show ?thesis using False by (auto simp: report_time_def Let_def)
qed

end
