(* ===== verification/Realpath_Test.thy ===== *)
theory Realpath_Test
  imports Tool_Base
begin

text \<open>
  \<open>tools/realpath_test.c\<close>: every variant of \<open>realpath\<close> that the system or a library has is called with and without a buffer.  As
  some calls may crash, each is first made in a child process, and only if that ends well in the program itself.  The
  variants, \<open>fork\<close> and \<open>wait\<close> are parameters; \<open>None\<close> is a crash of the program, or a block freed that is not allocated.
\<close>

section \<open>Data\<close>

text \<open>What a variant returns: nothing, the supplied buffer, a block of \<open>malloc\<close>, or another address.\<close>

datatype rp_result = Rp_null | Rp_supplied string | Rp_block nat string | Rp_internal nat string

record rp_entry =
  rp_local :: bool
  rp_sym :: string
  rp_fn :: "nat option"

definition rp_funcs :: "rp_entry list" where
  "rp_funcs = map (\<lambda>(l, s). \<lparr>rp_local = l, rp_sym = s, rp_fn = None\<rparr>)
     [(False, ''realpath''), (False, ''realpath$UNIX2003''), (False, ''realpath$DARWIN_EXTSN''), (True, ''realpath''), (True, ''realpath$UNIX2003''), (True, ''realpath$DARWIN_EXTSN'')]"

definition sigs :: "(int \<times> string) list" where "sigs = [(10, ''Bus error''), (11, ''Segmentation violation'')]"

record rtool = tool +
  blocks :: "nat set"

text \<open>
  \<open>rs_call\<close> is the call of a variant in the program, \<open>None\<close> if it crashes; \<open>rs_fork\<close> the number of the child and \<open>rs_wait\<close> what
  \<open>wait\<close> says of a child that has made the call; \<open>rs_buf\<close> the address of the buffer and \<open>rs_adr\<close> that of a result.
\<close>

record 'w rp_sys =
  rs_tool :: tool_system
  rs_call :: "nat \<Rightarrow> string \<Rightarrow> bool \<Rightarrow> 'w \<Rightarrow> (rp_result \<times> 'w) option"
  rs_fork :: "'w \<Rightarrow> int"
  rs_wait :: "nat \<Rightarrow> string \<Rightarrow> bool \<Rightarrow> 'w \<Rightarrow> int \<times> int"
  rs_buf :: nat
  rs_adr :: "rp_result \<Rightarrow> nat"

section \<open>Operations\<close>

definition rp_load :: "tool_system \<Rightarrow> string \<Rightarrow> bool \<Rightarrow> 'x tool_scheme \<Rightarrow> nat option \<times> 'x tool_scheme" where
  "rp_load y path verbose w =
     (case td_open y path of
        None \<Rightarrow> (None, w)
      | Some h \<Rightarrow> (Some h, (let w = w\<lparr>handles := insert h (handles w)\<rparr>
                             in if verbose then say Stdout (''  Loaded '' @ path @ '' at handle 0x'' @ radix 16 h @ newline) w else w)))"

definition unload_lib :: "tool_system \<Rightarrow> nat option \<Rightarrow> 'x tool_scheme \<Rightarrow> 'x tool_scheme" where
  "unload_lib y lib w =
     (case lib of
        None \<Rightarrow> w
      | Some h \<Rightarrow> if td_close y h then w\<lparr>handles := handles w - {h}\<rparr> else say Stderr (''Can'' @ [char_of (39 :: nat)] @ ''t close library: '' @ td_dlerror y @ newline) w)"

definition kind_text :: "bool \<Rightarrow> string" where "kind_text local = (if local then ''lib'' else ''OS '')"

definition find_sym :: "tool_system \<Rightarrow> nat option \<Rightarrow> bool \<Rightarrow> rp_entry \<Rightarrow> 'x tool_scheme \<Rightarrow> rp_entry \<times> 'x tool_scheme" where
  "find_sym y lib verbose ent w =
     (case (if rp_local ent then map_option Library lib else Some RTLD_NEXT) of
        None \<Rightarrow> (ent, w)
      | Some h \<Rightarrow>
          (let f = td_sym y h (rp_sym ent)
           in (ent\<lparr>rp_fn := f\<rparr>,
               if verbose
               then (case f of
                       Some a \<Rightarrow> say Stdout (''    Found:     '' @ kind_text (rp_local ent) @ '' '' @ rp_sym ent @ '' at 0x'' @ radix 16 a @ newline) w
                     | None \<Rightarrow> say Stdout (''    Not found: '' @ kind_text (rp_local ent) @ '' '' @ rp_sym ent @ newline) w)
               else w)))"

fun find_syms :: "tool_system \<Rightarrow> nat option \<Rightarrow> bool \<Rightarrow> rp_entry list \<Rightarrow> 'x tool_scheme \<Rightarrow> rp_entry list \<times> 'x tool_scheme" where
  "find_syms y lib verbose [] w = ([], w)"
| "find_syms y lib verbose (e # es) w = (let (e, w) = find_sym y lib verbose e w; (es, w) = find_syms y lib verbose es w in (e # es, w))"

definition get_signame :: "int \<Rightarrow> string option" where "get_signame sig = map_of sigs sig"

definition quote_mark :: string where "quote_mark = [char_of (39 :: nat)]"

text \<open>The report of a result; without a buffer a block is given back, and any other address is reported.\<close>

definition report :: "'x rtool_scheme rp_sys \<Rightarrow> bool \<Rightarrow> rp_result \<Rightarrow> 'x rtool_scheme \<Rightarrow> 'x rtool_scheme option" where
  "report y no_buf result w =
     (let err = '' ('' @ td_strerror (rs_tool y) (t_errno w) @ '')'' @ newline; num = dec (td_number (rs_tool y) (t_errno w));
          text = (case result of Rp_null \<Rightarrow> [] | Rp_supplied s \<Rightarrow> s | Rp_block b s \<Rightarrow> s | Rp_internal a s \<Rightarrow> s);
          supplied = (case result of Rp_supplied s \<Rightarrow> True | _ \<Rightarrow> False)
      in if result = Rp_null then Some (say Stdout (''    failed, errno = '' @ num @ err) w)
         else (let w = (if t_errno w \<noteq> Errno 0 then say Stdout (''    ***** '' @ quote_mark @ ''success'' @ quote_mark @ '' with errno = '' @ num @ err) w else w);
                   w = (if \<not> no_buf \<and> \<not> supplied
                        then say Stdout (''    ***** returned buffer adr 0x'' @ radix 16 (rs_adr y result) @ '' != supplied adr 0x'' @ radix 16 (rs_buf y) @ newline) w else w);
                   w = say Stdout (''    '' @ quote_mark @ text @ quote_mark @ newline) w
               in if no_buf
                  then (case result of
                          Rp_block b s \<Rightarrow> if b \<in> blocks w then Some (w\<lparr>blocks := blocks w - {b}\<rparr>) else None
                        | _ \<Rightarrow> Some (say Stdout (''    ***** returned buffer adr 0x'' @ radix 16 (rs_adr y result) @ '' is not from malloc()'' @ newline) w))
                  else Some w))"

definition try_case :: "'x rtool_scheme rp_sys \<Rightarrow> string \<Rightarrow> bool \<Rightarrow> rp_entry \<Rightarrow> 'x rtool_scheme \<Rightarrow> 'x rtool_scheme option" where
  "try_case y path no_buf ent w =
     (case rp_fn ent of
        None \<Rightarrow> Some w
      | Some f \<Rightarrow>
          (let w = say Stdout (''  '' @ kind_text (rp_local ent) @ '' '' @ rp_sym ent @ '' (buf'' @ (if no_buf then '' not'' else []) @ '' supplied) for '' @ quote_mark @ path @ quote_mark @ '':'' @ newline) w;
               child = rs_fork y w
           in if child < 0 then Some (say Stderr (''fork() failed: '' @ td_strerror (rs_tool y) (t_errno w) @ newline) w)
              else (let (done, status) = rs_wait y f path no_buf w
                    in if done \<noteq> child then Some (say Stderr (''***** Unexpected wait() pid, '' @ dec done @ '' != '' @ dec child @ newline) w)
                       else if status \<noteq> 0
                       then Some (say Stdout (''    ***** crashed with exit status '' @ dec status @ '' ('' @ (case get_signame status of None \<Rightarrow> ''(unknown)'' | Some s \<Rightarrow> s) @ '')'' @ newline) w)
                       else do { (result, w) \<leftarrow> rs_call y f path no_buf (w\<lparr>t_errno := Errno 0\<rparr>); report y no_buf result w })))"

fun each :: "('e \<Rightarrow> 'w \<Rightarrow> 'w option) \<Rightarrow> 'e list \<Rightarrow> 'w \<Rightarrow> 'w option" where
  "each f [] w = Some w"
| "each f (e # es) w = do { w \<leftarrow> f e w; each f es w }"

definition try_all :: "'x rtool_scheme rp_sys \<Rightarrow> rp_entry list \<Rightarrow> string \<Rightarrow> 'x rtool_scheme \<Rightarrow> 'x rtool_scheme option" where
  "try_all y ents path w = do { w \<leftarrow> each (try_case y path False) ents w; each (try_case y path True) ents w }"

text \<open>The options: the code to exit with, or \<open>verbose\<close>, the library and the paths.\<close>

fun rp_options :: "string \<Rightarrow> string list \<Rightarrow> bool \<Rightarrow> string option \<Rightarrow> 'x tool_scheme \<Rightarrow> (int + bool \<times> string option \<times> string list) \<times> 'x tool_scheme" where
  "rp_options name [] v l w = (Inr (v, l, []), w)"
| "rp_options name (a # as) v l w =
     (if a = ''-h'' then (Inl 0, say Stdout (''Usage is: '' @ name @ '' [-v] [-l <library path>] <test path>...'' @ newline) w)
      else if a = ''-v'' then rp_options name as True l w
      else if a = ''-l'' then (case as of [] \<Rightarrow> (Inl 10, say Stderr (''-l needs library path arg'' @ newline) w) | p # as' \<Rightarrow> rp_options name as' v (Some p) w)
      else (Inr (v, l, a # as), w))"

definition rp_main :: "'x rtool_scheme rp_sys \<Rightarrow> string \<Rightarrow> string list \<Rightarrow> 'x rtool_scheme \<Rightarrow> (int \<times> 'x rtool_scheme) option" where
  "rp_main y argv0 args w =
     (case rp_options (td_basename (rs_tool y) argv0) args False None w of
        (Inl c, w) \<Rightarrow> Some (c, w)
      | (Inr (verbose, path, tests), w) \<Rightarrow>
          (let (lib, w) = (case path of None \<Rightarrow> (None, w) | Some p \<Rightarrow> rp_load (rs_tool y) p verbose w)
           in if path \<noteq> None \<and> lib = None
              then Some (20, say Stderr (''Can'' @ quote_mark @ ''t open library '' @ the path @ '': '' @ td_dlerror (rs_tool y) @ newline) w)
              else (let (ents, w) = find_syms (rs_tool y) lib verbose rp_funcs w
                    in do { w \<leftarrow> (if tests = []
                                   then try_all y ents ''.'' (say Stdout ('' Defaulting test case to '' @ quote_mark @ ''.'' @ quote_mark @ newline) w)
                                   else each (try_all y ents) tests w);
                            Some (0, unload_lib (rs_tool y) lib w) })))"

section \<open>No crash\<close>

text \<open>
  The child is a rehearsal: where it ends well, the same call ends well in the program, whatever was printed in between.  A call
  frees nothing and takes back nothing that was printed; a block that it returns, with a buffer or without, is new, and it
  allocates no other.
\<close>

definition rehearsed :: "'x rtool_scheme rp_sys \<Rightarrow> bool" where
  "rehearsed y \<longleftrightarrow> (\<forall>f path no_buf w v. snd (rs_wait y f path no_buf w) = 0 \<and> blocks v = blocks w \<and> rtool.more v = rtool.more w
     \<longrightarrow> (\<exists>r x. rs_call y f path no_buf v = Some (r, x) \<and> set (printed v) \<subseteq> set (printed x)
        \<and> (case r of Rp_block b s \<Rightarrow> b \<notin> blocks v \<and> blocks x = insert b (blocks v) | _ \<Rightarrow> blocks x = blocks v)))"

text \<open>A variant that uses the buffer it is given.\<close>

definition keeps_buffer :: "'x rtool_scheme rp_sys \<Rightarrow> bool" where
  "keeps_buffer y \<longleftrightarrow> (\<forall>f path v r x b s. rs_call y f path False v = Some (r, x) \<longrightarrow> r \<noteq> Rp_block b s)"

text \<open>The line that says that a call with a buffer has returned another address.\<close>

definition foreign_line :: "'x rtool_scheme rp_sys \<Rightarrow> rp_result \<Rightarrow> string" where
  "foreign_line y result = ''    ***** returned buffer adr 0x'' @ radix 16 (rs_adr y result) @ '' != supplied adr 0x'' @ radix 16 (rs_buf y) @ newline"

text \<open>Between two states no block was lost, and one that was added is in the output; none was, where the buffer is kept.\<close>

definition accounted :: "'x rtool_scheme rp_sys \<Rightarrow> 'x rtool_scheme \<Rightarrow> 'x rtool_scheme \<Rightarrow> bool" where
  "accounted y w v \<longleftrightarrow> blocks w \<subseteq> blocks v \<and> (\<forall>b \<in> blocks v - blocks w. \<exists>s. (Stdout, foreign_line y (Rp_block b s)) \<in> set (printed v))
     \<and> (keeps_buffer y \<longrightarrow> blocks v = blocks w)"

lemma accountedD:
  assumes "accounted y w v"
  shows "blocks w \<subseteq> blocks v" and "b \<in> blocks v \<Longrightarrow> b \<notin> blocks w \<Longrightarrow> \<exists>s. (Stdout, foreign_line y (Rp_block b s)) \<in> set (printed v)"
    and "keeps_buffer y \<Longrightarrow> blocks v = blocks w"
  using assms unfolding accounted_def by auto

definition later :: "'x rtool_scheme rp_sys \<Rightarrow> 'x rtool_scheme \<Rightarrow> 'x rtool_scheme \<Rightarrow> bool" where
  "later y w v \<longleftrightarrow> accounted y w v \<and> set (printed w) \<subseteq> set (printed v)"

lemma later_refl: "later y w w"
  by (simp add: later_def accounted_def)

lemma later_same: "blocks v = blocks w \<Longrightarrow> set (printed w) \<subseteq> set (printed v) \<Longrightarrow> later y w v"
  by (simp add: later_def accounted_def)

lemma later_trans:
  assumes "later y u w" and "later y w v"
  shows "later y u v"
proof -
  note l = assms [unfolded later_def]
  have "\<exists>s. (Stdout, foreign_line y (Rp_block b s)) \<in> set (printed v)" if "b \<in> blocks v" "b \<notin> blocks u" for b
  proof (cases "b \<in> blocks w")
    case True
    then show ?thesis using accountedD(2) [OF conjunct1 [OF l(1)] _ that(2)] l(2) by blast
  next
    case False
    then show ?thesis using accountedD(2) [OF conjunct1 [OF l(2)] that(1)] by blast
  qed
  then show ?thesis using l unfolding later_def accounted_def by auto
qed

lemma blocks_say [simp]: "blocks (say d s w) = blocks w" "rtool.more (say d s w) = rtool.more w"
  by (simp_all add: say_def)

lemma say_later: "later y w (say d s w)"
  by (rule later_same) (auto simp: say_def)

lemma report_accounts:
  assumes "case r of Rp_block b s \<Rightarrow> b \<notin> blocks w \<and> blocks x = insert b (blocks w) | _ \<Rightarrow> blocks x = blocks w"
    and "set (printed w) \<subseteq> set (printed x)" and "\<And>b s. keeps_buffer y \<Longrightarrow> \<not> no_buf \<Longrightarrow> r \<noteq> Rp_block b s"
  shows "\<exists>v. report y no_buf r x = Some v \<and> later y w v"
proof (cases "(\<exists>b s. r = Rp_block b s) \<and> \<not> no_buf")
  case True
  then obtain b s where r: "r = Rp_block b s" "\<not> no_buf" by blast
  then have "\<exists>v. report y no_buf r x = Some v \<and> blocks v = blocks x \<and> set (printed x) \<subseteq> set (printed v)
      \<and> (Stdout, foreign_line y (Rp_block b s)) \<in> set (printed v)"
    by (auto simp: report_def Let_def say_def foreign_line_def)
  then obtain v where v: "report y no_buf r x = Some v" "blocks v = insert b (blocks w)" "set (printed x) \<subseteq> set (printed v)"
      "(Stdout, foreign_line y (Rp_block b s)) \<in> set (printed v)" using assms(1) r(1) by auto
  moreover have "\<not> keeps_buffer y" using assms(3) r by blast
  ultimately have "later y w v" using assms(2) unfolding later_def accounted_def by auto
  then show ?thesis using v(1) by blast
next
  case False
  then have "\<exists>v. report y no_buf r x = Some v \<and> blocks v = blocks w \<and> set (printed x) \<subseteq> set (printed v)"
    using assms(1) by (cases r) (auto simp: report_def Let_def say_def)
  then show ?thesis using later_same assms(2) by blast
qed

text \<open>A call after its announcement.\<close>

definition announced :: "string \<Rightarrow> bool \<Rightarrow> rp_entry \<Rightarrow> 'x rtool_scheme \<Rightarrow> 'x rtool_scheme" where
  "announced path no_buf ent w =
     say Stdout (''  '' @ kind_text (rp_local ent) @ '' '' @ rp_sym ent @ '' (buf'' @ (if no_buf then '' not'' else []) @ '' supplied) for '' @ quote_mark @ path @ quote_mark @ '':'' @ newline) w"

lemma try_case_safe:
  assumes "rehearsed y"
  shows "\<exists>v. try_case y path no_buf ent w = Some v \<and> later y w v"
proof (cases "rp_fn ent")
  case None
  then show ?thesis by (simp add: try_case_def later_refl)
next
  case (Some f)
  define x where "x = announced path no_buf ent w"
  have lx: "later y w x" unfolding x_def announced_def by (rule say_later)
  obtain d st where wt: "rs_wait y f path no_buf x = (d, st)" by force
  note unf = try_case_def Some option.case Let_def announced_def [symmetric] x_def [symmetric] wt prod.case
  show ?thesis
  proof (cases "st = 0 \<and> 0 \<le> rs_fork y x \<and> d = rs_fork y x")
    case False
    then show ?thesis unfolding unf using later_trans [OF lx say_later] by auto
  next
    case True
    let ?v = "x\<lparr>t_errno := Errno 0\<rparr>"
    obtain r u where c: "rs_call y f path no_buf ?v = Some (r, u)" "set (printed ?v) \<subseteq> set (printed u)"
      "case r of Rp_block b s \<Rightarrow> b \<notin> blocks ?v \<and> blocks u = insert b (blocks ?v) | _ \<Rightarrow> blocks u = blocks ?v"
      using assms [unfolded rehearsed_def, rule_format, of f path no_buf x "?v"] wt True by auto
    have k: "r \<noteq> Rp_block b s" if "keeps_buffer y" "\<not> no_buf" for b s
      using c(1) that(2) that(1) [unfolded keeps_buffer_def, rule_format, of f path "?v" r u b s] by simp
    obtain v where v: "report y no_buf r u = Some v" "later y ?v v" using report_accounts [OF c(3,2) k] by blast
    have "later y x ?v" by (rule later_same) simp_all
    then have "later y w v" using lx v(2) by (blast intro: later_trans)
    then show ?thesis unfolding unf using True c(1) v(1) by auto
  qed
qed

lemma each_safe:
  assumes "\<And>e w. \<exists>v. f e w = Some v \<and> later y w v"
  shows "\<exists>v. each f es w = Some v \<and> later y w v"
proof (induction es arbitrary: w)
  case Nil
  then show ?case by (simp add: later_refl)
next
  case (Cons e es)
  obtain x where x: "f e w = Some x" "later y w x" using assms by blast
  obtain v where "each f es x = Some v" "later y x v" using Cons [of x] by blast
  then show ?case using x later_trans [OF x(2)] by auto
qed

lemma try_all_safe:
  assumes "rehearsed y"
  shows "\<exists>v. try_all y ents path w = Some v \<and> later y w v"
proof -
  obtain x where x: "each (try_case y path False) ents w = Some x" "later y w x"
    using each_safe [of "try_case y path False" y ents w] try_case_safe [OF assms] by blast
  obtain v where "each (try_case y path True) ents x = Some v" "later y x v"
    using each_safe [of "try_case y path True" y ents x] try_case_safe [OF assms] by blast
  then show ?thesis using x later_trans [OF x(2)] by (auto simp: try_all_def)
qed

lemma blocks_handles [simp]: "blocks (w\<lparr>handles := h\<rparr>) = blocks w"
  by simp

lemma find_syms_later: "later y w (snd (find_syms (rs_tool y) lib verbose es w))"
proof (induction es arbitrary: w)
  case (Cons e es)
  have "later y w (snd (find_sym (rs_tool y) lib verbose e w))"
    by (auto simp: find_sym_def Let_def say_later later_refl split: option.split)
  from later_trans [OF this Cons] show ?case by (simp add: case_prod_beta)
qed (simp add: later_refl)

lemma rp_options_later: "later y w (snd (rp_options name args v l w))"
  by (induction name args v l w rule: rp_options.induct) (auto simp: say_later later_refl split: list.split)

lemma rp_options_code: "case fst (rp_options name args v l w) of Inl c \<Rightarrow> c = 0 \<or> c = 10 | Inr t \<Rightarrow> True"
  by (induction name args v l w rule: rp_options.induct) (simp_all split: list.split)

lemma handles_later: "later y w (w\<lparr>handles := h\<rparr>)"
  by (rule later_same) simp_all

lemma rp_load_later: "later y w (snd (rp_load (rs_tool y) p verbose w))"
  by (auto simp: rp_load_def Let_def later_refl handles_later intro: later_trans [OF handles_later say_later] split: option.split)

lemma unload_later: "later y w (unload_lib (rs_tool y) lib w)"
  by (auto simp: unload_lib_def later_refl handles_later say_later split: option.split)

text \<open>C31: the test of \<open>realpath\<close> survives the functions it tests.  Assume that a child process that makes a call dies where the
  program would, and that a call that ends well frees nothing and allocates at most the new block that it returns.  Then the
  program ends with one of its exit codes whatever its arguments.  It never frees a block that is not its own; every block that is
  still allocated at the end is one that a variant returned although it was given a buffer, and its address has been reported; and
  where no variant does that, every block has been given back.\<close>

theorem rp_main_safe:
  assumes "rehearsed y"
  shows "\<exists>c v. rp_main y argv0 args w = Some (c, v) \<and> c \<in> {0, 10, 20} \<and> blocks w \<subseteq> blocks v
    \<and> (\<forall>b \<in> blocks v - blocks w. \<exists>s. (Stdout, foreign_line y (Rp_block b s)) \<in> set (printed v))
    \<and> (keeps_buffer y \<longrightarrow> blocks v = blocks w)"
proof -
  obtain r x where o: "rp_options (td_basename (rs_tool y) argv0) args False None w = (r, x)" by force
  have lx: "later y w x" using rp_options_later [of y w "td_basename (rs_tool y) argv0" args False None] o by simp
  have "\<exists>c v. rp_main y argv0 args w = Some (c, v) \<and> c \<in> {0, 10, 20} \<and> later y w v"
  proof (cases r)
    case (Inl c)
    then show ?thesis using o lx rp_options_code [of "td_basename (rs_tool y) argv0" args False None w] by (auto simp: rp_main_def)
  next
    case (Inr t)
    obtain verbose path tests where t: "t = (verbose, path, tests)" by (cases t)
    obtain lib z where l: "(case path of None \<Rightarrow> (None, x) | Some p \<Rightarrow> rp_load (rs_tool y) p verbose x) = (lib, z)" by force
    have "later y x z" using l later_refl rp_load_later [of y x _ verbose] by (auto split: option.splits) (metis snd_conv)
    then have lz: "later y w z" by (rule later_trans [OF lx])
    obtain ents u where f: "find_syms (rs_tool y) lib verbose rp_funcs z = (ents, u)" by force
    have lu: "later y w u" using later_trans [OF lz find_syms_later [of y z lib verbose rp_funcs]] f by simp
    have "\<exists>v. (if tests = [] then try_all y ents ''.'' (say Stdout ('' Defaulting test case to '' @ quote_mark @ ''.'' @ quote_mark @ newline) u) else each (try_all y ents) tests u) = Some v
        \<and> later y u v"
    proof (cases "tests = []")
      case True
      obtain v where "try_all y ents ''.'' (say Stdout ('' Defaulting test case to '' @ quote_mark @ ''.'' @ quote_mark @ newline) u) = Some v"
        "later y (say Stdout ('' Defaulting test case to '' @ quote_mark @ ''.'' @ quote_mark @ newline) u) v" using try_all_safe [OF assms] by blast
      then show ?thesis using True later_trans [OF say_later] by auto
    next
      case False
      then show ?thesis using each_safe [of "try_all y ents" y tests u] try_all_safe [OF assms] by simp
    qed
    then obtain v where v: "(if tests = [] then try_all y ents ''.'' (say Stdout ('' Defaulting test case to '' @ quote_mark @ ''.'' @ quote_mark @ newline) u) else each (try_all y ents) tests u) = Some v"
      "later y u v"
      by blast
    show ?thesis
    proof (cases "path \<noteq> None \<and> lib = None")
      case True
      then show ?thesis using later_trans [OF lz say_later] unfolding rp_main_def o Inr t prod.case sum.case l Let_def by auto
    next
      case False
      then have "rp_main y argv0 args w = Some (0, unload_lib (rs_tool y) lib v)"
        unfolding rp_main_def o Inr t prod.case sum.case l f Let_def v(1) by auto
      then show ?thesis using later_trans [OF later_trans [OF lu v(2)] unload_later] by simp
    qed
  qed
  then show ?thesis unfolding later_def accounted_def by blast
qed

text \<open>Variants that crash on the empty path and otherwise answer with a block, over a child that does the same.\<close>

definition demo_rp :: "nat rtool_scheme rp_sys" where
  "demo_rp = \<lparr>rs_tool = \<lparr>td_sym = (\<lambda>h s. Some 7), td_open = (\<lambda>s. Some 1), td_close = (\<lambda>n. True), td_dlerror = [], td_dirname = id, td_basename = id, td_realpath = Some,
       td_offender = id, td_strerror = (\<lambda>e. []), td_number = (\<lambda>e. 1), td_osrelease = None, td_native = None, td_translated = None\<rparr>,
     rs_call = (\<lambda>f path no_buf w. if path = [] then None else if no_buf then Some (Rp_block (Suc (Max (insert 0 (blocks w)))) path, w\<lparr>blocks := insert (Suc (Max (insert 0 (blocks w)))) (blocks w)\<rparr>)
       else Some (Rp_supplied path, w)),
     rs_fork = (\<lambda>w. 2), rs_wait = (\<lambda>f path no_buf w. (2, if path = [] \<or> infinite (blocks w) then 11 else 0)), rs_buf = 4096, rs_adr = (\<lambda>r. 0)\<rparr>"

lemma demo_rehearsed: "rehearsed demo_rp"
proof -
  have "Suc (Max (insert 0 B)) \<notin> B" if "finite B" for B :: "nat set"
    using that by (metis Max_ge Suc_n_not_le_n finite_insert insertI2)
  then show ?thesis by (auto simp: rehearsed_def demo_rp_def split: if_splits)
qed

text \<open>Variants that ignore the buffer.\<close>

definition demo_leaky :: "nat rtool_scheme rp_sys" where
  "demo_leaky = demo_rp\<lparr>rs_call := (\<lambda>f path no_buf w. if path = [] then None else
     Some (Rp_block (Suc (Max (insert 0 (blocks w)))) path, w\<lparr>blocks := insert (Suc (Max (insert 0 (blocks w)))) (blocks w)\<rparr>))\<rparr>"

lemma demo_leaky_rehearsed: "rehearsed demo_leaky"
proof -
  have "Suc (Max (insert 0 B)) \<notin> B" if "finite B" for B :: "nat set"
    using that by (metis Max_ge Suc_n_not_le_n finite_insert insertI2)
  then show ?thesis by (auto simp: rehearsed_def demo_leaky_def demo_rp_def split: if_splits)
qed

lemma rp_main_safe_witness:
  "(\<exists>c v. rp_main demo_rp ''realpath_test'' [''/usr/..'', []] \<lparr>printed = [], t_errno = Errno 0, handles = {}, blocks = {}, \<dots> = 0\<rparr> = Some (c, v) \<and> blocks v = {})
    \<and> (\<exists>c v. rp_main demo_leaky ''realpath_test'' [''/usr/..'', []] \<lparr>printed = [], t_errno = Errno 0, handles = {}, blocks = {}, \<dots> = 0\<rparr> = Some (c, v)
         \<and> (\<forall>b \<in> blocks v. \<exists>s. (Stdout, foreign_line demo_leaky (Rp_block b s)) \<in> set (printed v)))"
proof -
  have "keeps_buffer demo_rp" by (auto simp: keeps_buffer_def demo_rp_def split: if_splits)
  then show ?thesis
    using rp_main_safe [OF demo_rehearsed, of "''realpath_test''" "[''/usr/..'', []]" "\<lparr>printed = [], t_errno = Errno 0, handles = {}, blocks = {}, \<dots> = 0\<rparr>"]
      rp_main_safe [OF demo_leaky_rehearsed, of "''realpath_test''" "[''/usr/..'', []]" "\<lparr>printed = [], t_errno = Errno 0, handles = {}, blocks = {}, \<dots> = 0\<rparr>"]
    by fastforce
qed

end
