(* ===== verification/Set_Time.thy ===== *)
theory Set_Time
  imports Tool_Base
begin

text \<open>
  \<open>manual_tests/libtest_settime.c\<close>: the program that tests \<open>clock_settime\<close> by moving the time of the system forward by 100 ms and
  back.  The clocks, the system calls and the threads are parameters; \<open>None\<close> is a signed overflow, a block freed that is not
  allocated, or the wait for a time of day that never comes.
\<close>

section \<open>Data\<close>

record st_info =
  init_raw :: u64
  init_mono :: u64
  init_boot :: u64
  init_mach :: u64
  init_real :: u64
  first_set :: u64
  first_real :: u64
  middle_raw :: u64
  middle_mono :: u64
  middle_boot :: u64
  middle_mach :: u64
  middle_real :: u64
  second_set :: u64
  second_real :: u64
  final_mono :: u64
  final_boot :: u64
  final_mach :: u64
  final_raw :: u64

definition no_info :: st_info where
  "no_info = \<lparr>init_raw = 0, init_mono = 0, init_boot = 0, init_mach = 0, init_real = 0, first_set = 0, first_real = 0, middle_raw = 0, middle_mono = 0,
     middle_boot = 0, middle_mach = 0, middle_real = 0, second_set = 0, second_real = 0, final_mono = 0, final_boot = 0, final_mach = 0, final_raw = 0\<rparr>"

text \<open>The threads that spin, and the array of their names while it is allocated; a name is positive.\<close>

record stool = tool +
  spinning :: "nat set"
  next_thread :: nat
  thread_array :: "nat list option"

text \<open>
  The functions of the system: \<open>clock_gettime_nsec_np\<close>, \<open>clock_settime\<close> for \<open>CLOCK_REALTIME\<close>, \<open>sysctl\<close> for the boot time, the
  system clock of Mach (seconds and nanoseconds), \<open>usleep\<close>, \<open>gettimeofday\<close> and \<open>settimeofday\<close>; the number of CPUs and whether
  \<open>calloc\<close> has memory for a number of names; the priority; whether a thread can be created.  \<open>st_f6\<close> is \<open>%+.06f\<close> for a number of
  nanoseconds as seconds.
\<close>

record 'w st_sys =
  st_tool :: tool_system
  st_getns :: "clockid \<Rightarrow> 'w \<Rightarrow> u64 \<times> 'w"
  st_settime :: "timespec \<Rightarrow> 'w \<Rightarrow> int \<times> 'w"
  st_boot :: "'w \<Rightarrow> (int \<times> timeval) \<times> 'w"
  st_mach :: "'w \<Rightarrow> (u32 \<times> int) \<times> 'w"
  st_usleep :: "u32 \<Rightarrow> 'w \<Rightarrow> 'w"
  st_gettod :: "'w \<Rightarrow> (int \<times> timeval) \<times> 'w"
  st_settod :: "timeval \<Rightarrow> 'w \<Rightarrow> int \<times> 'w"
  st_ncpus :: "int option"
  st_mem :: "int \<Rightarrow> bool"
  st_getprio :: "'w \<Rightarrow> int \<times> 'w"
  st_setprio :: "int \<Rightarrow> 'w \<Rightarrow> int \<times> 'w"
  st_spawn :: "'w \<Rightarrow> bool"
  st_f6 :: "int \<Rightarrow> string"

section \<open>The clocks\<close>

definition ns2timespec :: "u64 \<Rightarrow> timespec" where
  "ns2timespec nsec = \<lparr>tv_sec = nsec div BILLION, tv_nsec = nsec mod BILLION\<rparr>"

text \<open>The result, zero or an error number, and the time.\<close>

definition clock_getns :: "'x stool_scheme st_sys \<Rightarrow> clockid \<Rightarrow> 'x stool_scheme \<Rightarrow> errno \<times> u64 \<times> 'x stool_scheme" where
  "clock_getns s clk w = (let (n, w) = st_getns s clk w in (if n \<noteq> 0 then Errno 0 else t_errno w, n, w))"

definition clock_gettodns :: "'x stool_scheme st_sys \<Rightarrow> 'x stool_scheme \<Rightarrow> u64 \<times> 'x stool_scheme" where
  "clock_gettodns s w = st_getns s CLOCK_REALTIME w"

definition clock_setns :: "'x stool_scheme st_sys \<Rightarrow> u64 \<Rightarrow> 'x stool_scheme \<Rightarrow> int \<times> 'x stool_scheme" where
  "clock_setns s nsec w = (let (r, w) = st_settime s (ns2timespec nsec) w in (if r < 0 then -1 else 0, w))"

definition get_boottime_ns :: "'x stool_scheme st_sys \<Rightarrow> 'x stool_scheme \<Rightarrow> (int \<times> u64 \<times> 'x stool_scheme) option" where
  "get_boottime_ns s w =
     (let ((ret, bt), w) = st_boot s w
      in do { us \<leftarrow> s32 (tv_us bt * 1000); Some (ret, word_of_int (tv_s bt) * BILLION + word_of_int us, w) })"

definition get_mach_clock_ns :: "'x stool_scheme st_sys \<Rightarrow> 'x stool_scheme \<Rightarrow> u64 \<times> 'x stool_scheme" where
  "get_mach_clock_ns s w = (let ((sec, nsec), w) = st_mach s w in (ucast sec * BILLION + word_of_int nsec, w))"

section \<open>The test\<close>

definition SLEEP_MS :: nat where "SLEEP_MS = 500"
definition BUMP_NS :: u64 where "BUMP_NS = 100 * 1000000"

text \<open>The calls that warm up the clocks.\<close>

definition warm_clocks :: "'x stool_scheme st_sys \<Rightarrow> 'x stool_scheme \<Rightarrow> 'x stool_scheme option" where
  "warm_clocks s w =
     (let (_, _, w) = clock_getns s CLOCK_MONOTONIC_RAW w; (_, _, w) = clock_getns s CLOCK_MONOTONIC w
      in do { (_, _, w) \<leftarrow> get_boottime_ns s w;
              let (_, w) = get_mach_clock_ns s w; (_, _, w) = clock_getns s CLOCK_REALTIME w in Some w })"

text \<open>The wait for a time of day near 50 ms before the second, or before the half second.\<close>

definition align_target :: "nat \<Rightarrow> u64" where
  "align_target extra = ((BILLION + word_of_int (int extra - 1) * 500000000) + word_of_int (- 50000000)) mod BILLION"

definition align_limit :: "u64 \<Rightarrow> u64" where
  "align_limit target = (target + 10000000) mod BILLION"

partial_function (option) align_loop :: "'x stool_scheme st_sys \<Rightarrow> u64 \<Rightarrow> u64 \<Rightarrow> 'x stool_scheme \<Rightarrow> 'x stool_scheme option" where
  "align_loop s target limit w =
     (let (tod, w) = clock_gettodns s w; todmod = tod mod BILLION
      in if 0 \<le> sint (todmod - target) \<and> sint (todmod - limit) < 0 then Some w
         else align_loop s target limit (st_usleep s (ucast ((target + BILLION - todmod) mod BILLION div 1000)) w))"

declare align_loop.simps [simp del]

definition align_time :: "'x stool_scheme st_sys \<Rightarrow> nat \<Rightarrow> 'x stool_scheme \<Rightarrow> 'x stool_scheme option" where
  "align_time s extra w = (if extra \<noteq> 0 then align_loop s (align_target extra) (align_limit (align_target extra)) w else Some w)"

text \<open>The captures before the time is changed; the error number is zero if all went well.\<close>

definition capture_init :: "'x stool_scheme st_sys \<Rightarrow> nat \<Rightarrow> st_info \<Rightarrow> 'x stool_scheme \<Rightarrow> (errno \<times> st_info \<times> 'x stool_scheme) option" where
  "capture_init s extra tp w =
     (let (e, n, w) = clock_getns s CLOCK_MONOTONIC_RAW w; tp = tp\<lparr>init_raw := n\<rparr>
      in if e \<noteq> Errno 0 then Some (t_errno w, tp, w)
         else (let (e, n, w) = clock_getns s CLOCK_MONOTONIC w; tp = tp\<lparr>init_mono := n\<rparr>
               in if e \<noteq> Errno 0 then Some (t_errno w, tp, w)
                  else do { (ret, tp, w) \<leftarrow>
                              (if extra \<noteq> 0
                               then do { (ret, n, w) \<leftarrow> get_boottime_ns s w;
                                         let tp = tp\<lparr>init_boot := n\<rparr>;
                                         if ret \<noteq> 0 then Some (ret, tp, w)
                                         else (let (n, w) = get_mach_clock_ns s w in Some (0, tp\<lparr>init_mach := n\<rparr>, w)) }
                               else Some (0, tp, w));
                            if ret \<noteq> 0 then Some (t_errno w, tp, w)
                            else (let (e, n, w) = clock_getns s CLOCK_REALTIME w; tp = tp\<lparr>init_real := n\<rparr>
                                  in Some (if e \<noteq> Errno 0 then t_errno w else Errno 0, tp, w)) }))"

text \<open>
  The block that may be left with \<open>break\<close>: \<open>Inl\<close> is a \<open>return\<close> from its middle with the error number, \<open>Inr\<close> tells whether \<open>err\<close>
  is set behind it.
\<close>

definition capture_middle :: "'x stool_scheme st_sys \<Rightarrow> nat \<Rightarrow> st_info \<Rightarrow> 'x stool_scheme \<Rightarrow> ((errno + bool) \<times> st_info \<times> 'x stool_scheme) option" where
  "capture_middle s extra tp w =
     (let (e, n, w) = clock_getns s CLOCK_REALTIME w; tp = tp\<lparr>first_real := n\<rparr>
      in if e \<noteq> Errno 0 then Some (Inr True, tp, w)
         else (let (e, n, w) = clock_getns s CLOCK_MONOTONIC_RAW w; tp = tp\<lparr>middle_raw := n\<rparr>
               in if e \<noteq> Errno 0 then Some (Inr True, tp, w)
                  else (let (e, n, w) = clock_getns s CLOCK_MONOTONIC w; tp = tp\<lparr>middle_mono := n\<rparr>
                        in if e \<noteq> Errno 0 then Some (Inr True, tp, w)
                           else do { (ret, tp, w) \<leftarrow>
                                       (if extra \<noteq> 0
                                        then do { (ret, n, w) \<leftarrow> get_boottime_ns s w;
                                                  let tp = tp\<lparr>middle_boot := n\<rparr>;
                                                  if ret \<noteq> 0 then Some (ret, tp, w)
                                                  else (let (n, w) = get_mach_clock_ns s w in Some (0, tp\<lparr>middle_mach := n\<rparr>, w)) }
                                        else Some (0, tp, w));
                                     if ret \<noteq> 0 then Some (Inl (t_errno w), tp, w)
                                     else (let (e, n, w) = clock_getns s CLOCK_REALTIME w; tp = tp\<lparr>middle_real := n\<rparr>
                                           in if e \<noteq> Errno 0 then Some (Inr True, tp, w)
                                              else (let tp = tp\<lparr>second_set := middle_real tp - BUMP_NS\<rparr>; (r, w) = clock_setns s (second_set tp) w
                                                    in Some (Inr (r \<noteq> 0), tp, w))) })))"

definition capture_final :: "'x stool_scheme st_sys \<Rightarrow> nat \<Rightarrow> st_info \<Rightarrow> 'x stool_scheme \<Rightarrow> (errno \<times> st_info \<times> 'x stool_scheme) option" where
  "capture_final s extra tp w =
     (let (e, n, w) = clock_getns s CLOCK_REALTIME w; tp = tp\<lparr>second_real := n\<rparr>
      in if e \<noteq> Errno 0 then Some (t_errno w, tp, w)
         else (let (e, n, w) = clock_getns s CLOCK_MONOTONIC w; tp = tp\<lparr>final_mono := n\<rparr>
               in if e \<noteq> Errno 0 then Some (t_errno w, tp, w)
                  else do { (ret, tp, w) \<leftarrow>
                              (if extra \<noteq> 0
                               then do { (ret, n, w) \<leftarrow> get_boottime_ns s w;
                                         let tp = tp\<lparr>final_boot := n\<rparr>;
                                         if ret \<noteq> 0 then Some (ret, tp, w)
                                         else (let (n, w) = get_mach_clock_ns s w in Some (0, tp\<lparr>final_mach := n\<rparr>, w)) }
                               else Some (0, tp, w));
                            if ret \<noteq> 0 then Some (t_errno w, tp, w)
                            else (let (e, n, w) = clock_getns s CLOCK_MONOTONIC_RAW w; tp = tp\<lparr>final_raw := n\<rparr>
                                  in Some (if e \<noteq> Errno 0 then t_errno w else Errno 0, tp, w)) }))"

text \<open>The original time plus what has passed since; C divides towards zero.\<close>

definition quotient :: "int \<Rightarrow> int \<Rightarrow> int" where "quotient a b = (if a < 0 then - (- a div b) else a div b)"
definition remainder :: "int \<Rightarrow> int \<Rightarrow> int" where "remainder a b = a - quotient a b * b"

definition advance_tv :: "timeval \<Rightarrow> int \<Rightarrow> timeval option" where
  "advance_tv tv delta =
     do { sec \<leftarrow> s64 (tv_s tv + quotient delta 1000000000);
          let us = to_int32 (tv_us tv + quotient (remainder delta 1000000000) 1000);
          if us \<ge> 1000000 then do { sec \<leftarrow> s64 (sec + 1); Some \<lparr>tv_s = sec, tv_us = to_int32 (us - 1000000)\<rparr> }
          else Some \<lparr>tv_s = sec, tv_us = us\<rparr> }"

definition bump_test :: "'x stool_scheme st_sys \<Rightarrow> nat \<Rightarrow> int \<Rightarrow> timeval \<Rightarrow> st_info \<Rightarrow> 'x stool_scheme \<Rightarrow> (errno \<times> st_info \<times> 'x stool_scheme) option" where
  "bump_test s extra tverr orig_tv tp w =
     (let tp = tp\<lparr>first_set := init_real tp + BUMP_NS\<rparr>; (r, w) = clock_setns s (first_set tp) w
      in if r \<noteq> 0 then Some (t_errno w, tp, w)
         else do { (res, tp, w) \<leftarrow> capture_middle s extra tp w;
                   (case res of
                      Inl e \<Rightarrow> Some (e, tp, w)
                    | Inr True \<Rightarrow> (let e = t_errno w; w = (if tverr = 0 then snd (st_settod s orig_tv w) else w) in Some (e, tp, w))
                    | Inr False \<Rightarrow>
                        do { (e, tp, w) \<leftarrow> capture_final s extra tp w;
                             if e \<noteq> Errno 0 then Some (e, tp, w)
                             else if tverr = 0
                             then do { tv \<leftarrow> advance_tv orig_tv (sint (final_raw tp - init_raw tp)); Some (Errno 0, tp, snd (st_settod s tv w)) }
                             else Some (Errno 0, tp, w) }) })"

definition do_test :: "'x stool_scheme st_sys \<Rightarrow> st_info \<Rightarrow> nat \<Rightarrow> 'x stool_scheme \<Rightarrow> (errno \<times> st_info \<times> 'x stool_scheme) option" where
  "do_test s tp extra w =
     do { w \<leftarrow> warm_clocks s w;
          let w = st_usleep s (of_nat (SLEEP_MS * 1000)) w;
          w \<leftarrow> align_time s extra w;
          let ((tverr, orig_tv), w) = st_gettod s w;
          (e, tp, w) \<leftarrow> capture_init s extra tp w;
          if e \<noteq> Errno 0 then Some (e, tp, w) else bump_test s extra tverr orig_tv tp w }"

section \<open>The program\<close>

definition print_time :: "string \<Rightarrow> u64 \<Rightarrow> 'x tool_scheme \<Rightarrow> 'x tool_scheme" where
  "print_time name t w = say Stdout (''  '' @ name @ '' = '' @ dec_unsigned (t div BILLION) @ ''.'' @ pad_zero 9 (dec_unsigned (t mod BILLION)) @ '' s'' @ newline) w"

fun print_fields :: "(string \<times> u64) list \<Rightarrow> 'x tool_scheme \<Rightarrow> 'x tool_scheme" where
  "print_fields [] w = w"
| "print_fields ((name, t) # fs) w = print_fields fs (print_time name t w)"

definition print_times :: "st_info \<Rightarrow> nat \<Rightarrow> 'x tool_scheme \<Rightarrow> 'x tool_scheme" where
  "print_times tp extra w =
     (let x = (\<lambda>fs. if extra \<noteq> 0 then fs else [])
      in print_fields
          ([(''init_raw'', init_raw tp), (''init_mono'', init_mono tp)] @ x [(''init_boot'', init_boot tp), (''init_mach'', init_mach tp)]
           @ [(''init_real'', init_real tp), (''first_set'', first_set tp), (''first_real'', first_real tp), (''middle_raw'', middle_raw tp), (''middle_mono'', middle_mono tp)]
           @ x [(''middle_boot'', middle_boot tp), (''middle_mach'', middle_mach tp)]
           @ [(''middle_real'', middle_real tp), (''second_set'', second_set tp), (''second_real'', second_real tp), (''final_mono'', final_mono tp)]
           @ x [(''final_boot'', final_boot tp), (''final_mach'', final_mach tp)] @ [(''final_raw'', final_raw tp)]) w)"

text \<open>\<open>pthread_cancel\<close> of a name that no thread has does nothing.\<close>

fun unhog_cpus :: "nat list \<Rightarrow> nat \<Rightarrow> 'x stool_scheme \<Rightarrow> 'x stool_scheme option" where
  "unhog_cpus threads 0 w = Some w"
| "unhog_cpus threads (Suc n) w = do { t \<leftarrow> mread threads n; unhog_cpus threads n (w\<lparr>spinning := spinning w - {t}\<rparr>) }"

text \<open>\<open>pthread_create\<close> returns an error number and leaves \<open>errno\<close> alone; the code reads \<open>errno\<close>.\<close>

function hog_cpus :: "'x stool_scheme st_sys \<Rightarrow> nat list \<Rightarrow> nat \<Rightarrow> nat \<Rightarrow> 'x stool_scheme \<Rightarrow> (errno \<times> nat list \<times> 'x stool_scheme) option" where
  "hog_cpus s threads i n w =
     (if i < n
      then if st_spawn s w
           then do { threads \<leftarrow> mwrite threads i (next_thread w);
                     hog_cpus s threads (Suc i) n (w\<lparr>spinning := insert (next_thread w) (spinning w), next_thread := Suc (next_thread w)\<rparr>) }
           else (let e = t_errno w in do { w \<leftarrow> unhog_cpus threads i w; Some (e, threads, w) })
      else Some (Errno 0, threads, w))"
  by auto
termination by (relation "measure (\<lambda>(s, threads, i, n, w). n - i)") auto

declare hog_cpus.simps [simp del]

fun settime_chars :: "string \<Rightarrow> nat \<times> nat \<Rightarrow> nat \<times> nat" where
  "settime_chars [] p = p"
| "settime_chars (ch # cs) (verbose, extra) =
     settime_chars cs (if ch = CHR ''v'' then (Suc verbose, extra) else if ch = CHR ''x'' then (verbose, Suc extra) else (verbose, extra))"

fun settime_options :: "string list \<Rightarrow> nat \<times> nat \<Rightarrow> nat \<times> nat" where
  "settime_options [] p = p"
| "settime_options (a # as) p = settime_options as (case a of ch # cs \<Rightarrow> if ch = CHR ''-'' then settime_chars cs p else p | [] \<Rightarrow> p)"

text \<open>The checks of the results, each with the message it prints; \<open>err\<close> becomes true where one is made.\<close>

definition later :: "string \<Rightarrow> string \<Rightarrow> u64 \<Rightarrow> u64 \<Rightarrow> bool \<times> 'x tool_scheme \<Rightarrow> bool \<times> 'x tool_scheme" where
  "later a b x y p = (if x < y then (True, say Stdout (a @ '' '' @ dec (sint x) @ '' < '' @ b @ '' '' @ dec (sint y) @ '', diff = '' @ dec (sint (x - y)) @ newline) (snd p)) else p)"

definition raw_later :: "string \<Rightarrow> string \<Rightarrow> u64 \<Rightarrow> u64 \<Rightarrow> bool \<times> 'x tool_scheme \<Rightarrow> bool \<times> 'x tool_scheme" where
  "raw_later a b x y p =
     (if sint (x - y) < 0 then (True, say Stdout (a @ '' '' @ dec (sint x) @ '' < '' @ b @ '' '' @ dec (sint y) @ '', diff = '' @ dec (sint (x - y)) @ newline) (snd p)) else p)"

definition bracketed :: "string \<Rightarrow> int \<Rightarrow> int \<Rightarrow> bool \<times> 'x tool_scheme \<Rightarrow> (bool \<times> 'x tool_scheme) option" where
  "bracketed name diff dur p =
     do { a \<leftarrow> s64 \<bar>diff\<bar>; b \<leftarrow> s64 (dur + 1000);
          Some (if a > b then (True, say Stdout (name @ '' set/read delta was '' @ dec diff @ '' ns, bracketed by '' @ dec dur @ '' ns'' @ newline) (snd p)) else p) }"

definition check_order :: "st_info \<Rightarrow> nat \<Rightarrow> 'x tool_scheme \<Rightarrow> bool \<times> 'x tool_scheme" where
  "check_order tp verbose w =
     (let p = raw_later ''Middle raw'' ''init raw'' (middle_raw tp) (init_raw tp) (False, w);
          p = raw_later ''Final raw'' ''middle raw'' (final_raw tp) (middle_raw tp) p;
          p = later ''Middle mono'' ''init mono'' (middle_mono tp) (init_mono tp) p;
          p = later ''Final mono'' ''middle mono'' (final_mono tp) (middle_mono tp) p
      in if verbose \<ge> 2
         then later ''Final mach'' ''middle mach'' (final_mach tp) (middle_mach tp) (later ''Middle mach'' ''init mach'' (middle_mach tp) (init_mach tp) p)
         else p)"

definition check_times :: "st_info \<Rightarrow> nat \<Rightarrow> 'x tool_scheme \<Rightarrow> (bool \<times> 'x tool_scheme) option" where
  "check_times tp verbose w =
     (let dur1 = sint (middle_raw tp - init_raw tp); dur2 = sint (final_raw tp - middle_raw tp);
          diff1 = sint (first_real tp - first_set tp); diff2 = sint (second_real tp - second_set tp)
      in do { p \<leftarrow> bracketed ''First'' diff1 dur1 (check_order tp verbose w); bracketed ''Second'' diff2 dur2 p })"

text \<open>What is printed at the end.\<close>

definition report_times :: "'x tool_scheme st_sys \<Rightarrow> string \<Rightarrow> st_info \<Rightarrow> nat \<Rightarrow> nat \<Rightarrow> bool \<Rightarrow> 'x tool_scheme \<Rightarrow> 'x tool_scheme" where
  "report_times s progname tp verbose extra err w =
     (let w = (if verbose > 0 then say Stdout (''Total ns = '' @ dec (sint (final_raw tp - init_raw tp)) @ newline) (print_times tp extra w) else w);
          diff1 = sint (middle_boot tp - init_boot tp); diff2 = sint (final_boot tp - middle_boot tp);
          w = (if extra \<noteq> 0 \<and> \<not> err
               then if diff1 \<noteq> 0 \<or> diff2 \<noteq> 0
                    then say Stdout (''Boot time changed by '' @ st_f6 s diff1 @ '' s, then '' @ st_f6 s diff2 @ '' s'' @ newline) w
                    else say Stdout (''Boot time not changed by clock_settime()'' @ newline) w
               else w)
      in say Stdout (progname @ '' '' @ (if err then ''failed'' else ''passed'') @ ''.'' @ newline) w)"

text \<open>What is printed only with \<open>-v\<close>.\<close>

definition chat :: "nat \<Rightarrow> string \<Rightarrow> 'x tool_scheme \<Rightarrow> 'x tool_scheme" where
  "chat verbose t w = (if verbose > 0 then say Stdout (t @ newline) w else w)"

definition st_free :: "'x stool_scheme \<Rightarrow> 'x stool_scheme option" where
  "st_free w = (if thread_array w = None then None else Some (w\<lparr>thread_array := None\<rparr>))"

text \<open>The test and what follows it, with the threads running.\<close>

definition settime_run :: "'x stool_scheme st_sys \<Rightarrow> string \<Rightarrow> nat \<Rightarrow> nat \<Rightarrow> int \<Rightarrow> nat list \<Rightarrow> nat \<Rightarrow> 'x stool_scheme \<Rightarrow> (int \<times> 'x stool_scheme) option" where
  "settime_run s progname verbose extra orig_prio threads n w =
     do { (e, tp, w) \<leftarrow> do_test s no_info extra w;
          w \<leftarrow> unhog_cpus threads n w;
          let w = snd (st_setprio s orig_prio w);
          w \<leftarrow> st_free w;
          if e \<noteq> Errno 0
          then Some (1, print_times tp extra (say Stdout (''Dumping partial results:'' @ newline)
                          (say Stdout (''Error encountered: '' @ td_strerror (st_tool s) e @ newline) w)))
          else do { (err, w) \<leftarrow> check_times tp verbose w;
                    Some (if err then 1 else 0, report_times s progname tp verbose extra err w) } }"

definition settime_main :: "'x stool_scheme st_sys \<Rightarrow> string \<Rightarrow> string list \<Rightarrow> 'x stool_scheme \<Rightarrow> (int \<times> 'x stool_scheme) option" where
  "settime_main s argv0 args w =
     (let y = st_tool s; progname = td_basename y argv0; (verbose, extra) = settime_options args (0, 0);
          perror = (\<lambda>t w. say Stderr (t @ '': '' @ td_strerror y (t_errno w) @ newline) w);
          w = chat verbose (progname @ '' starting, extra = '' @ dec (int extra) @ ''.'') w
      in case st_ncpus s of
           None \<Rightarrow> Some (1, perror ''sysctl for ncpus failed'' w)
         | Some ncpus \<Rightarrow>
             (let w = chat verbose (''Number of CPUs = '' @ dec ncpus) w; n = nat ncpus
              in if \<not> st_mem s ncpus then Some (1, perror ''unable to allocate thread array'' (w\<lparr>t_errno := ENOMEM\<rparr>))
                 else (let w = w\<lparr>thread_array := Some (replicate n 0), t_errno := Errno 0\<rparr>; (orig_prio, w) = st_getprio s w
                       in if orig_prio = -1 \<and> t_errno w \<noteq> Errno 0 then do { w \<leftarrow> st_free (perror ''can't get current priority'' w); Some (1, w) }
                          else (let w = chat verbose (''Initial priority = '' @ dec orig_prio) w; (r, w) = st_setprio s (-20) w;
                                    w = (if r < 0 then say Stderr (''Continuing anyway (will probably fail)'' @ newline) (perror ''Unable to set priority'' w)
                                         else say Stdout (''Priority set to -20'' @ newline) w)
                                in do { threads \<leftarrow> thread_array w;
                                        (e, threads, w) \<leftarrow> hog_cpus s threads 0 n w;
                                        let w = w\<lparr>thread_array := Some threads\<rparr>;
                                        if e \<noteq> Errno 0
                                        then do { w \<leftarrow> st_free (say Stderr (''Unable to hog CPU with threads: '' @ td_strerror y e @ newline) w); Some (1, w) }
                                        else settime_run s progname verbose extra orig_prio threads n w }))))"

section \<open>A working clock\<close>

text \<open>
  What is true of the system: \<open>re_raw\<close> is the time since it started, \<open>re_off\<close> what is added to give the time of day, \<open>re_mono\<close> the
  monotonic clock, in nanoseconds, and \<open>re_prio\<close> the priority of the program.
\<close>

record 'x reality =
  re_raw :: "'x \<Rightarrow> int"
  re_off :: "'x \<Rightarrow> int"
  re_mono :: "'x \<Rightarrow> int"
  re_prio :: "'x \<Rightarrow> int"

definition raw :: "'x reality \<Rightarrow> 'x stool_scheme \<Rightarrow> int" where "raw k w = re_raw k (stool.more w)"
definition off :: "'x reality \<Rightarrow> 'x stool_scheme \<Rightarrow> int" where "off k w = re_off k (stool.more w)"
definition mono_at :: "'x reality \<Rightarrow> 'x stool_scheme \<Rightarrow> int" where "mono_at k w = re_mono k (stool.more w)"
definition prio :: "'x reality \<Rightarrow> 'x stool_scheme \<Rightarrow> int" where "prio k w = re_prio k (stool.more w)"

text \<open>The time of day.\<close>

definition tod_at :: "'x reality \<Rightarrow> 'x stool_scheme \<Rightarrow> int" where "tod_at k w = raw k w + off k w"

text \<open>A call that takes at most \<open>c\<close> nanoseconds, whatever it does to the time of day, and one that leaves it alone.\<close>

definition takes :: "'x reality \<Rightarrow> int \<Rightarrow> 'x stool_scheme \<Rightarrow> 'x stool_scheme \<Rightarrow> bool" where
  "takes k c w w' \<longleftrightarrow> raw k w \<le> raw k w' \<and> raw k w' \<le> raw k w + c \<and> mono_at k w \<le> mono_at k w' \<and> stool.truncate w' = stool.truncate w"

definition calm :: "'x reality \<Rightarrow> int \<Rightarrow> 'x stool_scheme \<Rightarrow> 'x stool_scheme \<Rightarrow> bool" where
  "calm k c w w' \<longleftrightarrow> takes k c w w' \<and> off k w' = off k w \<and> prio k w' = prio k w"

text \<open>There is room for \<open>m\<close> nanoseconds before the times leave their range.\<close>

definition room :: "'x reality \<Rightarrow> int \<Rightarrow> 'x stool_scheme \<Rightarrow> bool" where
  "room k m w \<longleftrightarrow> 0 \<le> m \<and> 0 < raw k w \<and> raw k w + m < 2 ^ 61 \<and> 0 < raw k w + off k w \<and> raw k w + off k w + m < 2 ^ 62"

definition tv_ns :: "timeval \<Rightarrow> int" where "tv_ns tv = tv_s tv * 1000000000 + tv_us tv * 1000"
definition tv_ok :: "timeval \<Rightarrow> bool" where "tv_ok tv \<longleftrightarrow> 0 \<le> tv_s tv \<and> tv_s tv < 2 ^ 62 \<and> 0 \<le> tv_us tv \<and> tv_us tv < 1000000"

text \<open>The readings lie between the times before and after the call; a time that is set is the time at some moment of the call.\<close>

definition reads_right :: "'x stool_scheme st_sys \<Rightarrow> 'x reality \<Rightarrow> int \<Rightarrow> 'x stool_scheme \<Rightarrow> bool" where
  "reads_right s k c w \<longleftrightarrow>
     (case st_getns s CLOCK_MONOTONIC_RAW w of (v, w') \<Rightarrow> calm k c w w' \<and> raw k w \<le> uint v \<and> uint v \<le> raw k w')
   \<and> (case st_getns s CLOCK_MONOTONIC w of (v, w') \<Rightarrow> calm k c w w' \<and> 0 < uint v \<and> mono_at k w \<le> uint v \<and> uint v \<le> mono_at k w')
   \<and> (case st_getns s CLOCK_REALTIME w of (v, w') \<Rightarrow> calm k c w w' \<and> raw k w + off k w \<le> uint v \<and> uint v \<le> raw k w' + off k w)
   \<and> (case st_boot s w of ((r, bt), w') \<Rightarrow> calm k c w w' \<and> r = 0 \<and> tv_ok bt)
   \<and> (case st_mach s w of ((a, b), w') \<Rightarrow> calm k c w w' \<and> 0 \<le> b \<and> b < 1000000000 \<and> raw k w \<le> uint a * 1000000000 + b \<and> uint a * 1000000000 + b \<le> raw k w')
   \<and> (case st_gettod s w of ((r, tv), w') \<Rightarrow> calm k c w w' \<and> r = 0 \<and> tv_ok tv \<and> raw k w + off k w - 999 \<le> tv_ns tv \<and> tv_ns tv \<le> raw k w' + off k w)"

definition sets_right :: "'x stool_scheme st_sys \<Rightarrow> 'x reality \<Rightarrow> int \<Rightarrow> 'x stool_scheme \<Rightarrow> bool" where
  "sets_right s k c w \<longleftrightarrow>
     (\<forall>tv. tv_ok tv \<longrightarrow> (case st_settod s tv w of (r, w') \<Rightarrow> takes k c w w' \<and> prio k w' = prio k w \<and> r = 0 \<and> raw k w \<le> tv_ns tv - off k w' \<and> tv_ns tv - off k w' \<le> raw k w'))"

definition settime_right :: "'x stool_scheme st_sys \<Rightarrow> 'x reality \<Rightarrow> int \<Rightarrow> 'x stool_scheme \<Rightarrow> bool" where
  "settime_right s k c w \<longleftrightarrow>
     (\<forall>n. uint n < 2 ^ 62 \<longrightarrow> (case st_settime s (ns2timespec n) w of (r, w') \<Rightarrow> takes k c w w' \<and> prio k w' = prio k w \<and> r = 0
        \<and> raw k w \<le> uint n - uint n mod 1000 - off k w' \<and> uint n - uint n mod 1000 - off k w' \<le> raw k w'))"

definition sleeps :: "'x stool_scheme st_sys \<Rightarrow> 'x reality \<Rightarrow> int \<Rightarrow> 'x stool_scheme \<Rightarrow> bool" where
  "sleeps s k late w \<longleftrightarrow> (\<forall>u. calm k (1000 * uint u + late) w (st_usleep s u w) \<and> raw k w < raw k (st_usleep s u w) \<and> raw k w + 1000 * uint u \<le> raw k (st_usleep s u w))"

definition working :: "'x stool_scheme st_sys \<Rightarrow> 'x reality \<Rightarrow> int \<Rightarrow> int \<Rightarrow> bool" where
  "working s k c late \<longleftrightarrow> 0 \<le> c \<and> 0 \<le> late \<and> (\<forall>w. room k 0 w \<longrightarrow> reads_right s k c w \<and> sets_right s k c w \<and> sleeps s k late w)"

definition sets_time :: "'x stool_scheme st_sys \<Rightarrow> 'x reality \<Rightarrow> int \<Rightarrow> bool" where
  "sets_time s k c \<longleftrightarrow> (\<forall>w. room k 0 w \<longrightarrow> settime_right s k c w)"

lemma room_0: "room k m w \<Longrightarrow> room k 0 w"
  by (simp add: room_def)

lemma room_le: "room k m w \<Longrightarrow> 0 \<le> n \<Longrightarrow> n \<le> m \<Longrightarrow> room k n w"
  by (simp add: room_def)

lemma sets_time_D: "sets_time s k c \<Longrightarrow> room k m w \<Longrightarrow> settime_right s k c w"
  by (simp add: sets_time_def room_0)

lemma calm_room: "calm k c w w' \<Longrightarrow> room k m w \<Longrightarrow> c \<le> m \<Longrightarrow> room k (m - c) w'"
  by (simp add: calm_def takes_def room_def)

lemma calm_trans: "calm k a u v \<Longrightarrow> calm k b v w \<Longrightarrow> calm k (a + b) u w"
  by (simp add: calm_def takes_def)

lemma takes_trans: "takes k a u v \<Longrightarrow> takes k b v w \<Longrightarrow> takes k (a + b) u w"
  by (simp add: takes_def)

lemma calm_D: "calm k c w w' \<Longrightarrow> raw k w \<le> raw k w' \<and> raw k w' \<le> raw k w + c \<and> mono_at k w \<le> mono_at k w' \<and> off k w' = off k w \<and> prio k w' = prio k w \<and> takes k c w w'"
  by (simp add: calm_def takes_def)

text \<open>The calls of the test over a working clock.\<close>

lemma read_raw:
  assumes "working s k c late" and "room k m w" and "c \<le> m"
  obtains v w' where "clock_getns s CLOCK_MONOTONIC_RAW w = (Errno 0, v, w')" "calm k c w w'" "room k (m - c) w'" "raw k w \<le> uint v" "uint v \<le> raw k w'"
proof -
  obtain v w' where v: "st_getns s CLOCK_MONOTONIC_RAW w = (v, w')" by force
  have r: "calm k c w w'" "raw k w \<le> uint v" "uint v \<le> raw k w'" using assms(1) room_0 [OF assms(2)] v by (auto simp: working_def reads_right_def)
  have "v \<noteq> 0" using r(2) assms(2) by (auto simp: room_def)
  then show ?thesis using that [of v w'] v r calm_room [OF r(1) assms(2,3)] by (simp add: clock_getns_def)
qed

lemma read_mono:
  assumes "working s k c late" and "room k m w" and "c \<le> m"
  obtains v w' where "clock_getns s CLOCK_MONOTONIC w = (Errno 0, v, w')" "calm k c w w'" "room k (m - c) w'" "mono_at k w \<le> uint v" "uint v \<le> mono_at k w'"
proof -
  obtain v w' where v: "st_getns s CLOCK_MONOTONIC w = (v, w')" by force
  have r: "calm k c w w'" "0 < uint v" "mono_at k w \<le> uint v" "uint v \<le> mono_at k w'" using assms(1) room_0 [OF assms(2)] v by (auto simp: working_def reads_right_def)
  then have "v \<noteq> 0" by auto
  then show ?thesis using that [of v w'] v r calm_room [OF r(1) assms(2,3)] by (simp add: clock_getns_def)
qed

lemma read_real:
  assumes "working s k c late" and "room k m w" and "c \<le> m"
  obtains v w' where "clock_getns s CLOCK_REALTIME w = (Errno 0, v, w')" "clock_gettodns s w = (v, w')" "calm k c w w'" "room k (m - c) w'"
    "raw k w + off k w \<le> uint v" "uint v \<le> raw k w' + off k w"
proof -
  obtain v w' where v: "st_getns s CLOCK_REALTIME w = (v, w')" by force
  have r: "calm k c w w'" "raw k w + off k w \<le> uint v" "uint v \<le> raw k w' + off k w" using assms(1) room_0 [OF assms(2)] v by (auto simp: working_def reads_right_def)
  have "v \<noteq> 0" using r(2) assms(2) by (auto simp: room_def)
  then show ?thesis using that [of v w'] v r calm_room [OF r(1) assms(2,3)] by (simp add: clock_getns_def clock_gettodns_def)
qed

lemma read_boot:
  assumes "working s k c late" and "room k m w" and "c \<le> m"
  obtains v w' where "get_boottime_ns s w = Some (0, v, w')" "calm k c w w'" "room k (m - c) w'"
proof -
  obtain r bt w' where v: "st_boot s w = ((r, bt), w')" by (metis surj_pair)
  have r: "calm k c w w'" "r = 0" "tv_ok bt" using assms(1) room_0 [OF assms(2)] v by (auto simp: working_def reads_right_def)
  then show ?thesis using that [of _ w'] v calm_room [OF r(1) assms(2,3)] by (simp add: get_boottime_ns_def tv_ok_def mem_simps)
qed

lemma read_mach:
  assumes "working s k c late" and "room k m w" and "c \<le> m"
  obtains v w' where "get_mach_clock_ns s w = (v, w')" "calm k c w w'" "room k (m - c) w'" "raw k w \<le> uint v" "uint v \<le> raw k w'"
proof -
  obtain a b w' where v: "st_mach s w = ((a, b), w')" by (metis surj_pair)
  have r: "calm k c w w'" "0 \<le> b" "b < 1000000000" "raw k w \<le> uint a * 1000000000 + b" "uint a * 1000000000 + b \<le> raw k w'"
    using assms(1) room_0 [OF assms(2)] v by (auto simp: working_def reads_right_def)
  let ?v = "ucast a * BILLION + word_of_int b :: u64"
  have "?v = word_of_int (uint a * 1000000000 + b)" by simp
  moreover have "uint a * 1000000000 + b < 2 ^ 62" "0 \<le> uint a * 1000000000 + b"
    using r(2,5) calm_room [OF r(1) assms(2,3)] by (simp_all add: room_def)
  ultimately have "uint ?v = uint a * 1000000000 + b" by (simp only: uint_word_of_int) (simp add: mod_pos_pos_trivial)
  then show ?thesis using that [of ?v w'] v r calm_room [OF r(1) assms(2,3)] by (simp add: get_mach_clock_ns_def)
qed

lemma calm_le: "calm k a w w' \<Longrightarrow> a \<le> b \<Longrightarrow> calm k b w w'"
  by (simp add: calm_def takes_def)

text \<open>The two readings with \<open>-x\<close>: \<open>h\<close> is the reading of the system clock.\<close>

lemma read_extra:
  assumes "working s k c late" and "room k m w" and "2 * c \<le> m"
  obtains b v h w' where "get_boottime_ns s w = Some (0, b, v)" "get_mach_clock_ns s v = (h, w')" "calm k (2 * c) w w'" "room k (m - 2 * c) w'"
    "raw k w \<le> uint h" "uint h \<le> raw k w'"
proof -
  have c: "0 \<le> c" using assms(1) by (simp add: working_def)
  obtain b v where b: "get_boottime_ns s w = Some (0, b, v)" "calm k c w v" "room k (m - c) v" by (rule read_boot [OF assms(1,2)]) (use assms(3) c in \<open>auto\<close>)
  obtain h w' where h: "get_mach_clock_ns s v = (h, w')" "calm k c v w'" "room k (m - c - c) w'" "raw k v \<le> uint h" "uint h \<le> raw k w'"
    by (rule read_mach [OF assms(1) b(3)]) (use assms(3) c in \<open>auto\<close>)
  show ?thesis using that [OF b(1) h(1)] calm_trans [OF b(2) h(2)] h(3-5) calm_D [OF b(2)] by simp
qed

lemma read_if_extra:
  assumes "working s k c late" and "room k m w" and "2 * c \<le> m"
  obtains b h w' where
    "if extra \<noteq> 0 then \<exists>v. get_boottime_ns s w = Some (0, b, v) \<and> get_mach_clock_ns s v = (h, w') else b = b0 \<and> h = h0 \<and> w' = w"
    "calm k (2 * c) w w'" "room k (m - 2 * c) w'" "if extra \<noteq> (0 :: nat) then raw k w \<le> uint h \<and> uint h \<le> raw k w' else h = h0"
proof (cases "extra = 0")
  case True
  have "0 \<le> c" using assms(1) by (simp add: working_def)
  then have "calm k (2 * c) w w" by (simp add: calm_def takes_def)
  then show ?thesis by (rule that [rotated]) (use True calm_room [OF \<open>calm k (2 * c) w w\<close> assms(2,3)] in auto)
next
  case False
  obtain b v h w' where b: "get_boottime_ns s w = Some (0, b, v)" "get_mach_clock_ns s v = (h, w')" "calm k (2 * c) w w'" "room k (m - 2 * c) w'"
    "raw k w \<le> uint h" "uint h \<le> raw k w'"
    by (rule read_extra [OF assms])
  show ?thesis by (rule that [OF _ b(3,4)]) (use False b in auto)
qed

lemma capture_init_reads:
  assumes "working s k c late" and "room k m w" and "5 * c \<le> m"
  obtains r a b h t w' where
    "capture_init s extra tp w = Some (Errno 0, tp\<lparr>init_raw := r, init_mono := a, init_boot := b, init_mach := h, init_real := t\<rparr>, w')"
    "calm k (5 * c) w w'" "room k (m - 5 * c) w'" "raw k w \<le> uint r" "uint r \<le> raw k w + c" "uint r \<le> raw k w'" "uint a \<le> mono_at k w'"
    "if extra \<noteq> 0 then uint h \<le> raw k w' else h = init_mach tp"
    "raw k w + off k w \<le> uint t" "uint t \<le> raw k w' + off k w"
proof -
  have c: "0 \<le> c" using assms(1) by (simp add: working_def)
  obtain r w1 where r: "clock_getns s CLOCK_MONOTONIC_RAW w = (Errno 0, r, w1)" "calm k c w w1" "room k (m - c) w1" "raw k w \<le> uint r" "uint r \<le> raw k w1"
    by (rule read_raw [OF assms(1,2)]) (use assms(3) c in auto)
  obtain a w2 where a: "clock_getns s CLOCK_MONOTONIC w1 = (Errno 0, a, w2)" "calm k c w1 w2" "room k (m - c - c) w2" "uint a \<le> mono_at k w2"
    by (rule read_mono [OF assms(1) r(3)]) (use assms(3) c in auto)
  obtain b h w3 where x: "if extra \<noteq> 0 then \<exists>v. get_boottime_ns s w2 = Some (0, b, v) \<and> get_mach_clock_ns s v = (h, w3) else b = init_boot tp \<and> h = init_mach tp \<and> w3 = w2"
    "calm k (2 * c) w2 w3" "room k (m - c - c - 2 * c) w3" "if extra \<noteq> 0 then raw k w2 \<le> uint h \<and> uint h \<le> raw k w3 else h = init_mach tp"
    by (rule read_if_extra [OF assms(1) a(3)]) (use assms(3) c in auto)
  obtain t w4 where t: "clock_getns s CLOCK_REALTIME w3 = (Errno 0, t, w4)" "calm k c w3 w4" "room k (m - c - c - 2 * c - c) w4" "raw k w3 + off k w3 \<le> uint t" "uint t \<le> raw k w4 + off k w3"
    by (rule read_real [OF assms(1) x(3)]) (use assms(3) c in auto)
  note d = calm_D [OF r(2)] calm_D [OF a(2)] calm_D [OF x(2)] calm_D [OF t(2)]
  have x4: "calm k (5 * c) w w4" using calm_trans [OF calm_trans [OF calm_trans [OF r(2) a(2)] x(2)] t(2)] by simp
  have "capture_init s extra tp w = Some (Errno 0, tp\<lparr>init_raw := r, init_mono := a, init_boot := b, init_mach := h, init_real := t\<rparr>, w4)"
    using r(1) a(1) t(1) x(1) by (cases "extra = 0") (auto simp: capture_init_def)
  then show ?thesis by (rule that [OF _ x4]) (use r a t d x(4) in \<open>auto split: if_splits\<close>)
qed

text \<open>A working \<open>clock_settime\<close> sets the time that is asked for, to the microsecond, at some moment of the call.\<close>

lemma set_real:
  assumes "working s k c late" and "settime_right s k c w" and "room k m w" and "c \<le> m" and "1000 \<le> uint n" and "uint n + m < 2 ^ 62"
  obtains t w' where "clock_setns s n w = (0, w')" "takes k c w w'" "prio k w' = prio k w" "room k (m - c) w'" "raw k w \<le> t" "t \<le> raw k w'"
    "t + off k w' \<le> uint n" "uint n < t + off k w' + 1000"
proof -
  obtain r w' where v: "st_settime s (ns2timespec n) w = (r, w')" by force
  have "uint n < 2 ^ 62" using assms(3,6) by (simp add: room_def)
  then have r: "takes k c w w'" "prio k w' = prio k w" "r = 0" "raw k w \<le> uint n - uint n mod 1000 - off k w'" "uint n - uint n mod 1000 - off k w' \<le> raw k w'"
    using assms(2) v by (auto simp: settime_right_def)
  have n: "0 \<le> uint n mod 1000" "uint n mod 1000 < 1000" "uint n mod 1000 \<le> uint n" by (auto simp: zmod_le_nonneg_dividend)
  then have "room k (m - c) w'" using r assms(3-6) by (auto simp: room_def takes_def)
  then show ?thesis using n r v by (intro that [of w' "uint n - uint n mod 1000 - off k w'"]) (auto simp: clock_setns_def)
qed

lemma uint_minus_bump: "uint BUMP_NS \<le> uint n \<Longrightarrow> uint (n - BUMP_NS) = uint n - 100000000"
  by (subst uint_minus_simple_alt [THEN iffD1]) (auto simp: word_le_def BUMP_NS_def)

lemma capture_middle_start:
  assumes "working s k c late" and "room k m w" and "6 * c \<le> m"
  obtains f r a b h t w' where
    "capture_middle s extra tp w = (let (e, v) = clock_setns s (t - BUMP_NS) w' in
       Some (Inr (e \<noteq> 0), tp\<lparr>first_real := f, middle_raw := r, middle_mono := a, middle_boot := b, middle_mach := h, middle_real := t, second_set := t - BUMP_NS\<rparr>, v))"
    "calm k (6 * c) w w'" "room k (m - 6 * c) w'"
    "raw k w + off k w \<le> uint f" "uint f \<le> uint r + off k w" "uint r \<le> raw k w'" "uint f \<le> tod_at k w'" "raw k w \<le> uint r"
    "mono_at k w \<le> uint a" "uint a \<le> mono_at k w'" "if extra \<noteq> 0 then raw k w \<le> uint h \<and> uint h \<le> raw k w' else h = middle_mach tp"
    "raw k w + off k w \<le> uint t" "uint t \<le> raw k w' + off k w"
proof -
  have c: "0 \<le> c" using assms(1) by (simp add: working_def)
  obtain f w1 where f: "clock_getns s CLOCK_REALTIME w = (Errno 0, f, w1)" "calm k c w w1" "room k (m - c) w1" "raw k w + off k w \<le> uint f" "uint f \<le> raw k w1 + off k w"
    by (rule read_real [OF assms(1,2)]) (use assms(3) c in auto)
  obtain r w2 where r: "clock_getns s CLOCK_MONOTONIC_RAW w1 = (Errno 0, r, w2)" "calm k c w1 w2" "room k (m - c - c) w2" "raw k w1 \<le> uint r" "uint r \<le> raw k w2"
    by (rule read_raw [OF assms(1) f(3)]) (use assms(3) c in auto)
  obtain a w3 where a: "clock_getns s CLOCK_MONOTONIC w2 = (Errno 0, a, w3)" "calm k c w2 w3" "room k (m - c - c - c) w3" "mono_at k w2 \<le> uint a" "uint a \<le> mono_at k w3"
    by (rule read_mono [OF assms(1) r(3)]) (use assms(3) c in auto)
  obtain b h w4 where x: "if extra \<noteq> 0 then \<exists>v. get_boottime_ns s w3 = Some (0, b, v) \<and> get_mach_clock_ns s v = (h, w4) else b = middle_boot tp \<and> h = middle_mach tp \<and> w4 = w3"
    "calm k (2 * c) w3 w4" "room k (m - c - c - c - 2 * c) w4" "if extra \<noteq> 0 then raw k w3 \<le> uint h \<and> uint h \<le> raw k w4 else h = middle_mach tp"
    by (rule read_if_extra [OF assms(1) a(3)]) (use assms(3) c in auto)
  obtain t w5 where t: "clock_getns s CLOCK_REALTIME w4 = (Errno 0, t, w5)" "calm k c w4 w5" "room k (m - c - c - c - 2 * c - c) w5" "raw k w4 + off k w4 \<le> uint t"
      "uint t \<le> raw k w5 + off k w4"
    by (rule read_real [OF assms(1) x(3)]) (use assms(3) c in auto)
  note d = calm_D [OF f(2)] calm_D [OF r(2)] calm_D [OF a(2)] calm_D [OF x(2)] calm_D [OF t(2)]
  have z: "calm k (6 * c) w w5" using calm_trans [OF calm_trans [OF calm_trans [OF calm_trans [OF f(2) r(2)] a(2)] x(2)] t(2)] by simp
  have "capture_middle s extra tp w = (let (e, v) = clock_setns s (t - BUMP_NS) w5 in
       Some (Inr (e \<noteq> 0), tp\<lparr>first_real := f, middle_raw := r, middle_mono := a, middle_boot := b, middle_mach := h, middle_real := t, second_set := t - BUMP_NS\<rparr>, v))"
    using f(1) r(1) a(1) t(1) x(1) by (cases "extra = 0") (auto simp: capture_middle_def)
  then show ?thesis by (rule that [OF _ z]) (use f r a t d x(4) in \<open>auto simp: tod_at_def split: if_splits\<close>)
qed

lemma capture_middle_reads:
  assumes "working s k c late" and "sets_time s k c" and "room k m w" and "7 * c \<le> m" and "100001000 \<le> raw k w + off k w"
  obtains f r a b h t u w' where
    "capture_middle s extra tp w = Some (Inr False, tp\<lparr>first_real := f, middle_raw := r, middle_mono := a, middle_boot := b, middle_mach := h, middle_real := t,
       second_set := t - BUMP_NS\<rparr>, w')"
    "takes k (7 * c) w w'" "prio k w' = prio k w" "room k (m - 7 * c) w'"
    "raw k w + off k w \<le> uint f" "uint f \<le> uint r + off k w" "uint r \<le> u"
    "mono_at k w \<le> uint a" "uint a \<le> mono_at k w'" "if extra \<noteq> 0 then raw k w \<le> uint h \<and> uint h \<le> raw k w' else h = middle_mach tp"
    "u \<le> raw k w'" "u + off k w' \<le> uint (t - BUMP_NS)" "uint (t - BUMP_NS) < u + off k w' + 1000" "raw k w \<le> uint r"
proof -
  have c: "0 \<le> c" using assms(1) by (simp add: working_def)
  obtain f r a b h t w1 where f: "capture_middle s extra tp w = (let (e, v) = clock_setns s (t - BUMP_NS) w1 in
       Some (Inr (e \<noteq> 0), tp\<lparr>first_real := f, middle_raw := r, middle_mono := a, middle_boot := b, middle_mach := h, middle_real := t, second_set := t - BUMP_NS\<rparr>, v))"
    "calm k (6 * c) w w1" "room k (m - 6 * c) w1"
    "raw k w + off k w \<le> uint f" "uint f \<le> uint r + off k w" "uint r \<le> raw k w1" "uint f \<le> tod_at k w1" "raw k w \<le> uint r"
    "mono_at k w \<le> uint a" "uint a \<le> mono_at k w1" "if extra \<noteq> 0 then raw k w \<le> uint h \<and> uint h \<le> raw k w1 else h = middle_mach tp"
    "raw k w + off k w \<le> uint t" "uint t \<le> raw k w1 + off k w"
    by (rule capture_middle_start [OF assms(1,3), where extra = extra and tp = tp]) (use assms(4) c in linarith, blast)
  note d = calm_D [OF f(2)]
  have n: "uint (t - BUMP_NS) = uint t - 100000000" using f(12) assms(5) by (intro uint_minus_bump) (simp add: BUMP_NS_def)
  obtain u w2 where u: "clock_setns s (t - BUMP_NS) w1 = (0, w2)" "takes k c w1 w2" "prio k w2 = prio k w1" "room k (m - 6 * c - c) w2" "raw k w1 \<le> u" "u \<le> raw k w2"
    "u + off k w2 \<le> uint (t - BUMP_NS)" "uint (t - BUMP_NS) < u + off k w2 + 1000"
    by (rule set_real [OF assms(1) sets_time_D [OF assms(2) f(3)] f(3), where n = "t - BUMP_NS"]) (use assms(3-5) c d f(12,13) n f(3) in \<open>auto simp: room_def\<close>)
  have k: "raw k w1 \<le> raw k w2" "mono_at k w1 \<le> mono_at k w2" using u(2) by (simp_all add: takes_def)
  have cm: "capture_middle s extra tp w = Some (Inr False, tp\<lparr>first_real := f, middle_raw := r, middle_mono := a, middle_boot := b, middle_mach := h, middle_real := t,
       second_set := t - BUMP_NS\<rparr>, w2)" using f(1) u(1) by simp
  have z: "takes k (7 * c) w w2" "prio k w2 = prio k w" "uint r \<le> u" "uint a \<le> mono_at k w2" "room k (m - 7 * c) w2" using d u(2-5) f(6,10) k by (auto simp: takes_def)
  have h: "if extra \<noteq> 0 then raw k w \<le> uint h \<and> uint h \<le> raw k w2 else h = middle_mach tp" using f(11) k by (cases "extra = 0") auto
  show ?thesis by (rule that [OF cm z(1,2,5) f(4,5) z(3) f(9) z(4) h u(6-8) f(8)])
qed

lemma capture_final_reads:
  assumes "working s k c late" and "room k m w" and "5 * c \<le> m"
  obtains t a b h r w' where
    "capture_final s extra tp w = Some (Errno 0, tp\<lparr>second_real := t, final_mono := a, final_boot := b, final_mach := h, final_raw := r\<rparr>, w')"
    "calm k (5 * c) w w'" "room k (m - 5 * c) w'" "raw k w + off k w \<le> uint t" "uint t \<le> uint r + off k w" "mono_at k w \<le> uint a" "uint r \<le> raw k w'" "raw k w' \<le> uint r + c"
    "if extra \<noteq> 0 then raw k w \<le> uint h else h = final_mach tp"
proof -
  have c: "0 \<le> c" using assms(1) by (simp add: working_def)
  obtain t w1 where t: "clock_getns s CLOCK_REALTIME w = (Errno 0, t, w1)" "calm k c w w1" "room k (m - c) w1" "raw k w + off k w \<le> uint t" "uint t \<le> raw k w1 + off k w"
    by (rule read_real [OF assms(1,2)]) (use assms(3) c in auto)
  obtain a w2 where a: "clock_getns s CLOCK_MONOTONIC w1 = (Errno 0, a, w2)" "calm k c w1 w2" "room k (m - c - c) w2" "mono_at k w1 \<le> uint a"
    by (rule read_mono [OF assms(1) t(3)]) (use assms(3) c in auto)
  obtain b h w3 where x: "if extra \<noteq> 0 then \<exists>v. get_boottime_ns s w2 = Some (0, b, v) \<and> get_mach_clock_ns s v = (h, w3) else b = final_boot tp \<and> h = final_mach tp \<and> w3 = w2"
    "calm k (2 * c) w2 w3" "room k (m - c - c - 2 * c) w3" "if extra \<noteq> 0 then raw k w2 \<le> uint h \<and> uint h \<le> raw k w3 else h = final_mach tp"
    by (rule read_if_extra [OF assms(1) a(3)]) (use assms(3) c in auto)
  obtain r w4 where r: "clock_getns s CLOCK_MONOTONIC_RAW w3 = (Errno 0, r, w4)" "calm k c w3 w4" "room k (m - c - c - 2 * c - c) w4" "raw k w3 \<le> uint r" "uint r \<le> raw k w4"
    by (rule read_raw [OF assms(1) x(3)]) (use assms(3) c in auto)
  note d = calm_D [OF t(2)] calm_D [OF a(2)] calm_D [OF x(2)] calm_D [OF r(2)]
  have x4: "calm k (5 * c) w w4" using calm_trans [OF calm_trans [OF calm_trans [OF t(2) a(2)] x(2)] r(2)] by simp
  have "capture_final s extra tp w = Some (Errno 0, tp\<lparr>second_real := t, final_mono := a, final_boot := b, final_mach := h, final_raw := r\<rparr>, w4)"
    using r(1) a(1) t(1) x(1) by (cases "extra = 0") (auto simp: capture_final_def)
  then show ?thesis by (rule that [OF _ x4]) (use r a t d x(4) in \<open>auto split: if_splits\<close>)
qed

section \<open>The wait for a time of day\<close>

lemma sint_of_int: "- 9223372036854775808 \<le> x \<Longrightarrow> x < 9223372036854775808 \<Longrightarrow> sint (word_of_int x :: u64) = x"
  by (simp add: int_word_sint)

lemma sint_is_uint: "uint (x :: u64) < 9223372036854775808 \<Longrightarrow> sint x = uint x"
proof -
  assume a: "uint x < 9223372036854775808"
  have "- 9223372036854775808 \<le> uint x" using uint_ge_0 [of x] by linarith
  then show ?thesis using sint_of_int [OF _ a] by simp
qed

lemma uint_of_int: "0 \<le> x \<Longrightarrow> x < 18446744073709551616 \<Longrightarrow> uint (word_of_int x :: u64) = x"
  by (simp add: uint_word_of_int)

lemma word_bounds: "uint (a :: u64) < 2 ^ 62 \<Longrightarrow> 0 \<le> uint a \<and> uint a < 4611686018427387904"
  by simp

lemma sint_minus:
  assumes "uint (a :: u64) < 2 ^ 62" and "uint (b :: u64) < 2 ^ 62"
  shows "sint (a - b) = uint a - uint b"
proof -
  have "- 9223372036854775808 \<le> uint a - uint b" "uint a - uint b < 9223372036854775808" using word_bounds [OF assms(1)] word_bounds [OF assms(2)] by linarith+
  then have "sint (word_of_int (uint a - uint b) :: u64) = uint a - uint b" by (rule sint_of_int)
  then show ?thesis by simp
qed

lemma align_target_value:
  assumes "0 < extra" and "extra < 2 ^ 31"
  shows "uint (align_target extra) = 450000000 \<or> uint (align_target extra) = 950000000"
proof -
  let ?x = "950000000 + (int extra - 1) * 500000000"
  have "BILLION + word_of_int (int extra - 1) * 500000000 + word_of_int (- 50000000) = (word_of_int ?x :: u64)" by simp
  moreover have "uint (word_of_int ?x :: u64) = ?x" using assms by (subst uint_word_of_int) (simp add: mod_pos_pos_trivial)
  ultimately have "uint (align_target extra) = ?x mod 1000000000" by (simp only: align_target_def uint_mod) simp
  moreover have "?x mod 1000000000 = 950000000 \<or> ?x mod 1000000000 = 450000000"
  proof -
    obtain q where "int extra - 1 = 2 * q \<or> int extra - 1 = 2 * q + 1" by (metis evenE oddE)
    then have "?x = 950000000 + q * 1000000000 \<or> ?x = 450000000 + (q + 1) * 1000000000" by auto
    moreover have "(950000000 + q * 1000000000) mod 1000000000 = 950000000" "(450000000 + (q + 1) * 1000000000) mod 1000000000 = (450000000 :: int)"
      by (simp_all only: mod_mult_self1) simp_all
    ultimately show ?thesis by metis
  qed
  ultimately show ?thesis by auto
qed

lemma window:
  assumes "uint target + 10000000 < 1000000000" and "limit = target + 10000000"
  shows "0 \<le> sint (tod mod BILLION - target) \<and> sint (tod mod BILLION - limit) < 0
    \<longleftrightarrow> uint target \<le> uint tod mod 1000000000 \<and> uint tod mod 1000000000 < uint target + 10000000"
proof -
  have m: "uint (tod mod BILLION) = uint tod mod 1000000000" by (simp add: uint_mod)
  have l: "uint limit = uint target + 10000000" using assms by (simp add: uint_word_ariths mod_pos_pos_trivial)
  have "uint tod mod 1000000000 < 1000000000" by simp
  then show ?thesis using assms(1) m l by (subst (1 2) sint_minus) auto
qed

lemma delay_value:
  assumes "uint target < 1000000000" and "A mod 1000000000 = uint target" and "uint tod < A" and "A - uint tod < 1000000000"
  shows "uint (ucast ((target + BILLION - tod mod BILLION) mod BILLION div 1000) :: u32) = (A - uint tod) div 1000"
proof -
  have m: "uint (tod mod BILLION) = uint tod mod 1000000000" by (simp add: uint_mod)
  have u: "0 \<le> uint tod mod 1000000000" "uint tod mod 1000000000 < 1000000000" by simp_all
  have "target + BILLION - tod mod BILLION = word_of_int (uint target + 1000000000 - uint tod mod 1000000000)" by (simp flip: m)
  then have "uint (target + BILLION - tod mod BILLION) = uint target + 1000000000 - uint tod mod 1000000000"
    by (simp only:) (rule uint_of_int; use u assms(1) uint_ge_0 [of target] in linarith)
  then have "uint ((target + BILLION - tod mod BILLION) mod BILLION) = (uint target + 1000000000 - uint tod mod 1000000000) mod 1000000000"
    by (simp add: uint_mod)
  also have "\<dots> = (A mod 1000000000 - uint tod mod 1000000000 + 1000000000) mod 1000000000" using assms(2) by (simp only: algebra_simps)
  also have "\<dots> = A - uint tod" by (subst mod_add_self2, subst mod_diff_eq) (use assms(3,4) in \<open>simp add: mod_pos_pos_trivial\<close>)
  finally have "uint ((target + BILLION - tod mod BILLION) mod BILLION div 1000) = (A - uint tod) div 1000" by (simp add: uint_div)
  moreover have "0 \<le> (A - uint tod) div 1000" "(A - uint tod) div 1000 < 1000000" using assms(3,4) by auto
  ultimately show ?thesis by (simp add: unsigned_ucast_eq take_bit_int_eq_self)
qed

text \<open>The wait: from any moment it ends inside the window behind the next target, or behind the one just passed.\<close>

lemma calm_exact: "calm k c w w' \<Longrightarrow> tod_at k w' - tod_at k w \<le> d \<Longrightarrow> calm k d w w'"
  by (simp add: calm_def takes_def tod_at_def)

lemma calm_tod: "calm k c w w' \<Longrightarrow> tod_at k w \<le> tod_at k w' \<and> tod_at k w' \<le> tod_at k w + c"
  by (simp add: calm_def takes_def tod_at_def)

lemma align_loop_ends:
  assumes "working s k c late" and "2 * c + late < 10000000" and "A mod 1000000000 = uint target" and "limit = target + 10000000" and "uint target + 10000000 < 1000000000"
    and "tod_at k w \<le> A + c + late" and "A - tod_at k w < 1000000000" and "room k (A + 2 * c + late - tod_at k w) w"
  shows "\<exists>w'. align_loop s target limit w = Some w' \<and> calm k (A + 2 * c + late - tod_at k w) w w'"
  using assms(6-8)
proof (induction "nat (A + c + late + 1 - tod_at k w)" arbitrary: w rule: less_induct)
  case less
  let ?m = "A + 2 * c + late - tod_at k w"
  have cl: "0 \<le> c" "0 \<le> late" using assms(1) by (simp_all add: working_def)
  obtain v w1 where v: "clock_gettodns s w = (v, w1)" "calm k c w w1" "room k (?m - c) w1" "raw k w + off k w \<le> uint v" "uint v \<le> raw k w1 + off k w"
    by (rule read_real [OF assms(1) less.prems(3)]) (use less.prems(1) in auto)
  have r: "tod_at k w \<le> uint v" "uint v \<le> tod_at k w1" using v(4,5) calm_D [OF v(2)] by (simp_all add: tod_at_def)
  let ?in = "uint target \<le> uint v mod 1000000000 \<and> uint v mod 1000000000 < uint target + 10000000"
  show ?case
  proof (cases ?in)
    case True
    have "calm k ?m w w1" using calm_exact [OF v(2)] calm_tod [OF v(2)] less.prems(1) by simp
    then show ?thesis using True v(1) window [OF assms(5,4), of v] by (subst align_loop.simps) (auto simp: Let_def)
  next
    case False
    have below: "uint v < A"
    proof (rule ccontr)
      assume "\<not> uint v < A"
      then have a: "0 \<le> uint v - A" "uint v - A < 10000000" using r calm_tod [OF v(2)] less.prems(1) assms(2) by linarith+
      have "uint v mod 1000000000 = (A mod 1000000000 + (uint v - A)) mod 1000000000" by (simp add: mod_simps)
      also have "\<dots> = uint target + (uint v - A)" using a assms(3,5) by (simp add: mod_pos_pos_trivial)
      finally show False using False a by simp
    qed
    define u :: u32 where "u = ucast ((target + BILLION - v mod BILLION) mod BILLION div 1000)"
    have u: "uint u = (A - uint v) div 1000" unfolding u_def by (rule delay_value [OF _ assms(3) below]) (use assms(5) r less.prems(2) in auto)
    have u1: "1000 * uint u \<le> A - uint v" unfolding u by simp
    let ?w = "st_usleep s u w1"
    have sl: "calm k (1000 * uint u + late) w1 ?w" "raw k w1 < raw k ?w" using assms(1) room_0 [OF v(3)] by (auto simp: working_def sleeps_def)
    have t: "tod_at k w1 < tod_at k ?w" "tod_at k ?w \<le> A + c + late" using sl calm_tod [OF sl(1)] calm_tod [OF v(2)] u1 r calm_D [OF sl(1)] by (auto simp: tod_at_def)
    have "\<exists>w'. align_loop s target limit ?w = Some w' \<and> calm k (A + 2 * c + late - tod_at k ?w) ?w w'"
    proof (rule less.hyps)
      show "nat (A + c + late + 1 - tod_at k ?w) < nat (A + c + late + 1 - tod_at k w)" using t calm_tod [OF v(2)] by simp
      show "tod_at k ?w \<le> A + c + late" "A - tod_at k ?w < 1000000000" using t calm_tod [OF v(2)] less.prems(2) by auto
      show "room k (A + 2 * c + late - tod_at k ?w) ?w"
        using less.prems(3) t calm_D [OF v(2)] calm_D [OF sl(1)] cl by (simp add: room_def tod_at_def)
    qed
    then obtain w' where w': "align_loop s target limit ?w = Some w'" "calm k (A + 2 * c + late - tod_at k ?w) ?w w'" by blast
    have "calm k ?m w w'" using calm_exact [OF calm_trans [OF calm_trans [OF v(2) sl(1)] w'(2)], of ?m] calm_tod [OF w'(2)] by simp
    moreover have "align_loop s target limit w = Some w'"
    proof -
      have "\<not> (0 \<le> sint (v mod BILLION - target) \<and> sint (v mod BILLION - limit) < 0)" using False window [OF assms(5,4), of v] by blast
      then show ?thesis using w'(1) v(1) by (subst align_loop.simps) (simp only: Let_def u_def split_conv if_False)
    qed
    ultimately show ?thesis by blast
  qed
qed

lemma align_ends:
  assumes "working s k c late" and "2 * c + late < 10000000" and "extra < 2 ^ 31" and "room k m w" and "1000000000 + 2 * c + late \<le> m"
  shows "\<exists>w'. align_time s extra w = Some w' \<and> calm k (1000000000 + 2 * c + late) w w'"
proof (cases "extra = 0")
  case True
  have "calm k (1000000000 + 2 * c + late) w w" using assms(1) by (simp add: working_def calm_def takes_def)
  then show ?thesis using True by (simp add: align_time_def)
next
  case False
  let ?t = "align_target extra"
  define A where "A = tod_at k w + (uint ?t - tod_at k w) mod 1000000000"
  have d: "0 \<le> (uint ?t - tod_at k w) mod 1000000000" "(uint ?t - tod_at k w) mod 1000000000 < 1000000000" by simp_all
  have t: "uint ?t + 10000000 < 1000000000" using align_target_value [OF _ assms(3)] False by auto
  have "A mod 1000000000 = uint ?t" using t by (simp add: A_def mod_simps)
  moreover have "align_limit ?t = ?t + 10000000"
  proof -
    have "uint (?t + 10000000) = uint ?t + 10000000" using t by (simp add: uint_word_ariths mod_pos_pos_trivial)
    then show ?thesis using t by (simp add: align_limit_def word_uint_eq_iff uint_mod mod_pos_pos_trivial)
  qed
  moreover have "0 \<le> c" "0 \<le> late" using assms(1) by (simp_all add: working_def)
  ultimately have "\<exists>w'. align_loop s ?t (align_limit ?t) w = Some w' \<and> calm k (A + 2 * c + late - tod_at k w) w w'"
    by (intro align_loop_ends [OF assms(1,2) _ _ t]) (use d assms(4,5) in \<open>auto simp: A_def room_def\<close>)
  then obtain w' where w': "align_loop s ?t (align_limit ?t) w = Some w'" "calm k (A + 2 * c + late - tod_at k w) w w'" by blast
  have "calm k (1000000000 + 2 * c + late) w w'" by (rule calm_le [OF w'(2)]) (use d in \<open>simp add: A_def\<close>)
  then show ?thesis using w'(1) False by (simp add: align_time_def)
qed

section \<open>The test over a working clock\<close>

lemma warm_clocks_calm:
  assumes "working s k c late" and "room k m w" and "5 * c \<le> m"
  obtains w' where "warm_clocks s w = Some w'" "calm k (5 * c) w w'" "room k (m - 5 * c) w'"
proof -
  have c: "0 \<le> c" using assms(1) by (simp add: working_def)
  obtain r w1 where r: "clock_getns s CLOCK_MONOTONIC_RAW w = (Errno 0, r, w1)" "calm k c w w1" "room k (m - c) w1"
    by (rule read_raw [OF assms(1,2)]) (use assms(3) c in auto)
  obtain a w2 where a: "clock_getns s CLOCK_MONOTONIC w1 = (Errno 0, a, w2)" "calm k c w1 w2" "room k (m - c - c) w2"
    by (rule read_mono [OF assms(1) r(3)]) (use assms(3) c in auto)
  obtain b v h w3 where x: "get_boottime_ns s w2 = Some (0, b, v)" "get_mach_clock_ns s v = (h, w3)" "calm k (2 * c) w2 w3" "room k (m - c - c - 2 * c) w3"
    by (rule read_extra [OF assms(1) a(3)]) (use assms(3) c in auto)
  obtain t w4 where t: "clock_getns s CLOCK_REALTIME w3 = (Errno 0, t, w4)" "calm k c w3 w4" "room k (m - c - c - 2 * c - c) w4"
    by (rule read_real [OF assms(1) x(4)]) (use assms(3) c in auto)
  have x4: "calm k (5 * c) w w4" using calm_trans [OF calm_trans [OF calm_trans [OF r(2) a(2)] x(3)] t(2)] by simp
  show ?thesis by (rule that [OF _ x4]) (use r a x t in \<open>auto simp: warm_clocks_def\<close>)
qed

lemma micro_floor: "x div 1000000000 * 1000000000 + x mod 1000000000 div 1000 * 1000 = x - x mod (1000 :: int)"
proof -
  have "x mod 1000000000 mod 1000 = x mod 1000" by (rule mod_mod_cancel) simp
  then show ?thesis using div_mult_mod_eq [of x 1000000000] div_mult_mod_eq [of "x mod 1000000000" 1000] by linarith
qed

lemma advance_tv_adds:
  assumes "tv_ok tv" and "tv_ns tv < 2 ^ 62" and "0 \<le> d" and "d < 2 ^ 62"
  obtains tv' where "advance_tv tv d = Some tv'" "tv_ok tv'" "tv_ns tv' = tv_ns tv + d - d mod 1000"
proof -
  define q r where "q = d div 1000000000" and "r = d mod 1000000000 div 1000"
  have r: "0 \<le> r" "r < 1000000" using assms(3) by (auto simp: r_def)
  have e: "q * 1000000000 + r * 1000 = d - d mod 1000" unfolding q_def r_def by (rule micro_floor)
  have q: "0 \<le> q" "q \<le> 4611686018" using assms(3,4) by (auto simp: q_def)
  have s: "0 \<le> tv_s tv" "tv_s tv \<le> 4611686018" "0 \<le> tv_us tv" "tv_us tv < 1000000" using assms(1,2) by (auto simp: tv_ok_def tv_ns_def)
  have i: "quotient d 1000000000 = q" "quotient (remainder d 1000000000) 1000 = r" using assms(3) by (auto simp: quotient_def remainder_def q_def r_def minus_div_mult_eq_mod)
  have u: "to_int32 (tv_us tv + r) = tv_us tv + r" "to_int32 (tv_us tv + r - 1000000) = tv_us tv + r - 1000000" using s r by (auto intro!: to_int32_ok)
  show ?thesis
  proof (cases "tv_us tv + r \<ge> 1000000")
    case True
    show ?thesis by (rule that [of "\<lparr>tv_s = tv_s tv + q + 1, tv_us = tv_us tv + r - 1000000\<rparr>"])
      (use True i u q s r e in \<open>auto simp: advance_tv_def mem_simps tv_ok_def tv_ns_def Let_def\<close>)
  next
    case False
    show ?thesis by (rule that [of "\<lparr>tv_s = tv_s tv + q, tv_us = tv_us tv + r\<rparr>"])
      (use False i u q s r e in \<open>auto simp: advance_tv_def mem_simps tv_ok_def tv_ns_def Let_def\<close>)
  qed
qed

text \<open>What the checks ask of the readings.\<close>

definition good_times :: "st_info \<Rightarrow> bool" where
  "good_times tp \<longleftrightarrow>
     uint (init_raw tp) \<le> uint (middle_raw tp) \<and> uint (middle_raw tp) \<le> uint (final_raw tp) \<and> uint (final_raw tp) < 2 ^ 62
   \<and> init_mono tp \<le> middle_mono tp \<and> middle_mono tp \<le> final_mono tp \<and> init_mach tp \<le> middle_mach tp \<and> middle_mach tp \<le> final_mach tp
   \<and> uint (first_set tp) < 2 ^ 62 \<and> uint (first_real tp) < 2 ^ 62 \<and> uint (second_set tp) < 2 ^ 62 \<and> uint (second_real tp) < 2 ^ 62
   \<and> uint (first_set tp) < uint (first_real tp) + 1000 \<and> uint (first_real tp) - uint (first_set tp) \<le> uint (middle_raw tp) - uint (init_raw tp)
   \<and> uint (second_set tp) < uint (second_real tp) + 1000 \<and> uint (second_real tp) - uint (second_set tp) \<le> uint (final_raw tp) - uint (middle_raw tp)"

lemma later_ok: "y \<le> x \<Longrightarrow> later a b x y p = p" "0 \<le> sint (x - y) \<Longrightarrow> raw_later a b x y p = p"
  by (auto simp: later_def raw_later_def)

lemma bracketed_ok:
  assumes "- 1000 < x" and "x \<le> y" and "0 \<le> y" and "y < 2 ^ 62"
  shows "bracketed n x y p = Some p"
proof -
  have "\<bar>x\<bar> \<le> y + 1000" "0 \<le> \<bar>x\<bar>" using assms by auto
  then have "s64 \<bar>x\<bar> = Some \<bar>x\<bar>" "s64 (y + 1000) = Some (y + 1000)" "\<not> \<bar>x\<bar> > y + 1000" using assms(4) by (auto intro!: s64_ok)
  then show ?thesis by (simp add: bracketed_def)
qed

lemma bracketed_diff:
  assumes "uint (y :: u64) < uint (x :: u64) + 1000" and "uint x - uint y \<le> uint (u :: u64) - uint (v :: u64)" and "uint v \<le> uint u" and "uint u < 2 ^ 62"
  shows "bracketed n (uint x - uint y) (uint u - uint v) p = Some p"
  by (rule bracketed_ok) (use assms uint_ge_0 [of v] in linarith)+

lemma check_good_times:
  assumes "good_times tp"
  shows "check_times tp verbose w = Some (False, w :: 'a tool_scheme)"
proof -
  have b: "uint (init_raw tp) < 2 ^ 62" "uint (middle_raw tp) < 2 ^ 62" using assms by (auto simp: good_times_def)
  have d: "sint (middle_raw tp - init_raw tp) = uint (middle_raw tp) - uint (init_raw tp)" "sint (final_raw tp - middle_raw tp) = uint (final_raw tp) - uint (middle_raw tp)"
    "sint (first_real tp - first_set tp) = uint (first_real tp) - uint (first_set tp)" "sint (second_real tp - second_set tp) = uint (second_real tp) - uint (second_set tp)"
    using assms b by (auto intro!: sint_minus simp: good_times_def)
  have "bracketed n (uint (first_real tp) - uint (first_set tp)) (uint (middle_raw tp) - uint (init_raw tp)) p = Some p"
    "bracketed n (uint (second_real tp) - uint (second_set tp)) (uint (final_raw tp) - uint (middle_raw tp)) p = Some p" for n and p :: "bool \<times> 'a tool_scheme"
    using assms b by (auto intro!: bracketed_diff simp: good_times_def)
  then show ?thesis using assms unfolding good_times_def by (simp add: check_times_def check_order_def later_ok d Let_def)
qed

lemma sets_right_D:
  assumes "working s k c late" and "room k 0 w" and "tv_ok tv" and "st_settod s tv w = (r, w')"
  shows "takes k c w w' \<and> prio k w' = prio k w \<and> raw k w \<le> tv_ns tv - off k w' \<and> tv_ns tv - off k w' \<le> raw k w'"
proof -
  have "sets_right s k c w" using assms(1,2) by (simp add: working_def)
  then show ?thesis using assms(3,4) unfolding sets_right_def by fastforce
qed

text \<open>What has been captured before the time is changed: \<open>tv\<close> is the time of day to go back to.\<close>

definition captured :: "'x reality \<Rightarrow> int \<Rightarrow> nat \<Rightarrow> timeval \<Rightarrow> st_info \<Rightarrow> 'x stool_scheme \<Rightarrow> bool" where
  "captured k c extra tv tp w \<longleftrightarrow>
     tv_ok tv \<and> tv_ns tv - off k w \<le> uint (init_raw tp) \<and> uint (init_raw tp) \<le> tv_ns tv - off k w + 2 * c + 999
   \<and> uint (init_raw tp) \<le> raw k w \<and> raw k w \<le> uint (init_raw tp) + 5 * c \<and> uint (init_mono tp) \<le> mono_at k w
   \<and> uint (init_real tp) \<le> tod_at k w \<and> tod_at k w \<le> uint (init_real tp) + 5 * c
   \<and> (if extra \<noteq> 0 then uint (init_mach tp) \<le> raw k w else init_mach tp = 0) \<and> middle_mach tp = 0 \<and> final_mach tp = 0"

lemma do_test_start:
  assumes "working s k c late" and "2 * c + late < 10000000" and "extra < 2 ^ 31" and "room k 3000000000 w" and "1000000000 \<le> tod_at k w"
  obtains tv tp w' where "do_test s no_info extra w = bump_test s extra 0 tv tp w'" "captured k c extra tv tp w'" "calm k 1570000000 w w'" "room k 1200000000 w'"
    "1000000000 \<le> uint (init_real tp)"
proof -
  have cl: "0 \<le> c" "0 \<le> late" using assms(1) by (simp_all add: working_def)
  obtain w1 where w1: "warm_clocks s w = Some w1" "calm k (5 * c) w w1" "room k (3000000000 - 5 * c) w1"
    by (rule warm_clocks_calm [OF assms(1,4)]) (use cl assms(2) in auto)
  let ?w2 = "st_usleep s (of_nat (SLEEP_MS * 1000)) w1"
  have "sleeps s k late w1" using assms(1) room_0 [OF w1(3)] by (simp add: working_def)
  then have "calm k (1000 * uint (500000 :: u32) + late) w1 (st_usleep s 500000 w1)" unfolding sleeps_def by blast
  then have w2: "calm k (500000000 + late) w1 ?w2" by (simp add: SLEEP_MS_def)
  have r2: "room k (3000000000 - 5 * c - (500000000 + late)) ?w2" by (rule calm_room [OF w2 w1(3)]) (use cl assms(2) in auto)
  obtain w3 where w3: "align_time s extra ?w2 = Some w3" "calm k (1000000000 + 2 * c + late) ?w2 w3"
    using align_ends [OF assms(1-3) r2] cl assms(2) by auto
  let ?m = "3000000000 - 5 * c - (500000000 + late) - (1000000000 + 2 * c + late)"
  have r3: "room k ?m w3" by (rule calm_room [OF w3(2) r2]) (use cl assms(2) in auto)
  obtain e tv w4 where tv: "st_gettod s w3 = ((e, tv), w4)" by (metis surj_pair)
  have w4: "calm k c w3 w4" "e = 0" "tv_ok tv" "raw k w3 + off k w3 - 999 \<le> tv_ns tv" "tv_ns tv \<le> raw k w4 + off k w3"
    using assms(1) room_0 [OF r3] tv by (auto simp: working_def reads_right_def)
  have r4: "room k (?m - c) w4" by (rule calm_room [OF w4(1) r3]) (use cl assms(2) in auto)
  obtain r a b h t w5 where i: "capture_init s extra no_info w4 = Some (Errno 0, no_info\<lparr>init_raw := r, init_mono := a, init_boot := b, init_mach := h, init_real := t\<rparr>, w5)"
    "calm k (5 * c) w4 w5" "room k (?m - c - 5 * c) w5" "raw k w4 \<le> uint r" "uint r \<le> raw k w4 + c" "uint r \<le> raw k w5" "uint a \<le> mono_at k w5"
    "if extra \<noteq> 0 then uint h \<le> raw k w5 else h = init_mach no_info" "raw k w4 + off k w4 \<le> uint t" "uint t \<le> raw k w5 + off k w4"
    by (rule capture_init_reads [OF assms(1) r4]) (use cl assms(2) in auto)
  note d = calm_D [OF w1(2)] calm_D [OF w2] calm_D [OF w3(2)] calm_D [OF w4(1)] calm_D [OF i(2)]
  let ?tp = "no_info\<lparr>init_raw := r, init_mono := a, init_boot := b, init_mach := h, init_real := t\<rparr>"
  show ?thesis
  proof (rule that)
    show "do_test s no_info extra w = bump_test s extra 0 tv ?tp w5" using w1(1) w3(1) tv w4(2) i(1) by (simp add: do_test_def Let_def)
    show "captured k c extra tv ?tp w5" using w4(3-5) i(4-10) d by (auto simp: captured_def tod_at_def no_info_def split: if_splits)
    show "calm k 1570000000 w w5"
      by (rule calm_le [OF calm_trans [OF calm_trans [OF calm_trans [OF calm_trans [OF w1(2) w2] w3(2)] w4(1)] i(2)]]) (use cl assms(2) in auto)
    show "room k 1200000000 w5" using i(3) cl assms(2) by (auto simp: room_def)
    show "1000000000 \<le> uint (init_real ?tp)" using i(9) d assms(5) by (simp add: tod_at_def)
  qed
qed

text \<open>The end of the test: the time of day goes back to what it was, plus what has passed.\<close>

lemma time_restored:
  assumes "working s k c late" and "room k m w" and "c \<le> m" and "tv_ok tv" and "tv_ns tv < 2 ^ 62" and "uint (r :: u64) \<le> uint (r' :: u64)" and "uint r' < 2 ^ 62"
    and "uint r' \<le> raw k w" and "raw k w \<le> uint r' + c" and "tv_ns tv - d \<le> uint r" and "uint r \<le> tv_ns tv - d + 2 * c + 999"
  obtains tv' w' where "advance_tv tv (sint (r' - r)) = Some tv'" "snd (st_settod s tv' w) = w'" "takes k c w w'" "prio k w' = prio k w"
    "d - (4 * c + 1998) \<le> off k w'" "off k w' \<le> d"
proof -
  have x: "sint (r' - r) = uint r' - uint r" using assms(6,7) by (intro sint_minus) auto
  obtain tv' where n: "advance_tv tv (sint (r' - r)) = Some tv'" "tv_ok tv'" "tv_ns tv' = tv_ns tv + sint (r' - r) - sint (r' - r) mod 1000"
  proof (rule advance_tv_adds [OF assms(4,5), of "sint (r' - r)"])
    show "0 \<le> sint (r' - r)" "sint (r' - r) < 2 ^ 62" using x assms(6,7) uint_ge_0 [of r] by linarith+
  qed (rule that)
  obtain e w' where w': "st_settod s tv' w = (e, w')" by force
  have y: "takes k c w w'" "prio k w' = prio k w" "raw k w \<le> tv_ns tv' - off k w'" "tv_ns tv' - off k w' \<le> raw k w'"
    using sets_right_D [OF assms(1) room_0 [OF assms(2)] n(2) w'] by auto
  have z: "tv_ns tv + (uint r' - uint r) - 999 \<le> tv_ns tv'" "tv_ns tv' \<le> tv_ns tv + (uint r' - uint r)" using n(3) x pos_mod_bound [of 1000 "sint (r' - r)"] by auto
  show ?thesis by (rule that [OF n(1) _ y(1,2)]) (use w' y z assms(8-11) in \<open>auto simp: takes_def\<close>)
qed

lemma bump_test_result:
  assumes "working s k c late" and "sets_time s k c" and "c < 5000000" and "captured k c extra tv tp w" and "room k 1200000000 w" and "1000000000 \<le> uint (init_real tp)"
  obtains tp' w' where "bump_test s extra 0 tv tp w = Some (Errno 0, tp', w')" "takes k (14 * c) w w'" "prio k w' = prio k w"
    "off k w - (4 * c + 1998) \<le> off k w'" "off k w' \<le> off k w" "good_times tp'"
proof -
  let ?n = "init_real tp + BUMP_NS"
  have cl: "0 \<le> c" using assms(1) by (simp add: working_def)
  note cd = assms(4) [unfolded captured_def]
  have lt: "uint (init_real tp) + 1200000000 < 2 ^ 62" using cd assms(5) by (auto simp: room_def tod_at_def)
  then have n: "uint ?n = uint (init_real tp) + 100000000" by (auto simp: BUMP_NS_def uint_word_ariths mod_pos_pos_trivial)
  have m: "room k 1000000000 w" using assms(5) by (simp add: room_def)
  obtain u w1 where u: "clock_setns s ?n w = (0, w1)" "takes k c w w1" "prio k w1 = prio k w" "room k (1000000000 - c) w1" "raw k w \<le> u" "u \<le> raw k w1"
    "u + off k w1 \<le> uint ?n" "uint ?n < u + off k w1 + 1000"
    by (rule set_real [OF assms(1) sets_time_D [OF assms(2) m] m, where n = ?n]) (use lt n assms(3) in auto)
  have w1: "100001000 \<le> raw k w1 + off k w1" using u(6,8) n assms(6) by simp
  let ?tp = "tp\<lparr>first_set := ?n\<rparr>"
  obtain f r a b h t u' w2 where j: "capture_middle s extra ?tp w1 = Some (Inr False, ?tp\<lparr>first_real := f, middle_raw := r, middle_mono := a, middle_boot := b,
      middle_mach := h, middle_real := t, second_set := t - BUMP_NS\<rparr>, w2)"
    "takes k (7 * c) w1 w2" "prio k w2 = prio k w1" "room k (1000000000 - c - 7 * c) w2"
    "raw k w1 + off k w1 \<le> uint f" "uint f \<le> uint r + off k w1" "uint r \<le> u'"
    "mono_at k w1 \<le> uint a" "uint a \<le> mono_at k w2" "if extra \<noteq> 0 then raw k w1 \<le> uint h \<and> uint h \<le> raw k w2 else h = middle_mach ?tp"
    "u' \<le> raw k w2" "u' + off k w2 \<le> uint (t - BUMP_NS)" "uint (t - BUMP_NS) < u' + off k w2 + 1000" "raw k w1 \<le> uint r"
    by (rule capture_middle_reads [OF assms(1,2) u(4) _ w1, where extra = extra and tp = ?tp]) (use cl assms(3) in linarith, blast)
  let ?tq = "?tp\<lparr>first_real := f, middle_raw := r, middle_mono := a, middle_boot := b, middle_mach := h, middle_real := t, second_set := t - BUMP_NS\<rparr>"
  obtain t' a' b' h' r' w3 where l: "capture_final s extra ?tq w2 = Some (Errno 0, ?tq\<lparr>second_real := t', final_mono := a', final_boot := b', final_mach := h',
      final_raw := r'\<rparr>, w3)"
    "calm k (5 * c) w2 w3" "room k (1000000000 - c - 7 * c - 5 * c) w3" "raw k w2 + off k w2 \<le> uint t'" "uint t' \<le> uint r' + off k w2" "mono_at k w2 \<le> uint a'"
    "uint r' \<le> raw k w3" "raw k w3 \<le> uint r' + c" "if extra \<noteq> 0 then raw k w2 \<le> uint h' else h' = final_mach ?tq"
    by (rule capture_final_reads [OF assms(1) j(4), where extra = extra and tp = ?tq]) (use cl assms(3) in linarith, blast)
  let ?tr = "?tq\<lparr>second_real := t', final_mono := a', final_boot := b', final_mach := h', final_raw := r'\<rparr>"
  note d = u(2) j(2) calm_D [OF l(2)]
  have lo: "raw k w \<le> raw k w1" "raw k w1 \<le> raw k w2" "raw k w2 \<le> raw k w3" "mono_at k w \<le> mono_at k w1" "mono_at k w1 \<le> mono_at k w2" "off k w3 = off k w2"
    using d by (auto simp: takes_def)
  have hi: "raw k w3 < 2 ^ 62" "raw k w3 + off k w3 < 2 ^ 62" using l(3) by (auto simp: room_def)
  have rr: "uint (init_raw tp) \<le> uint r" "uint r \<le> uint r'" "uint r' < 2 ^ 62" using cd j(7,11,14) l(4,5,7) lo hi(1) by auto
  have tvs: "tv_ok tv" "tv_ns tv < 2 ^ 62" using cd assms(5) cl by (auto simp: room_def)
  obtain tv' w4 where y: "advance_tv tv (sint (r' - init_raw tp)) = Some tv'" "snd (st_settod s tv' w3) = w4" "takes k c w3 w4" "prio k w4 = prio k w3"
      "off k w - (4 * c + 1998) \<le> off k w4" "off k w4 \<le> off k w"
    by (rule time_restored [OF assms(1) l(3) _ tvs, where r = "init_raw tp" and r' = r' and d = "off k w"]) (use cd cl assms(3) rr l(7,8) in auto)
  have "takes k (14 * c) w w4" using u(2) j(2) y(3) calm_D [OF l(2)] by (auto simp: takes_def)
  moreover have "bump_test s extra 0 tv tp w = Some (Errno 0, ?tr, w4)" using u(1) j(1) l(1) y(1,2) by (simp add: bump_test_def Let_def)
  moreover have "prio k w4 = prio k w" using u(3) j(3) y(4) d by auto
  moreover have "good_times ?tr"
  proof -
    have "init_mach ?tr \<le> middle_mach ?tr \<and> middle_mach ?tr \<le> final_mach ?tr"
      using cd j(10) l(9) lo by (cases "extra = 0") (auto simp: word_le_def)
    moreover have "init_mono ?tr \<le> middle_mono ?tr \<and> middle_mono ?tr \<le> final_mono ?tr" using cd j(8,9) l(6) lo by (simp add: word_le_def)
    moreover have "uint f < 2 ^ 62" "uint (t - BUMP_NS) < 2 ^ 62" "uint t' < 2 ^ 62" "uint ?n < 2 ^ 62"
      using n lt j(2,4,6,7,11,13) l(5,7) hi lo u(4) cl assms(3) by (auto simp: room_def takes_def)
    moreover have "uint ?n < uint f + 1000" "uint f - uint ?n \<le> uint r - uint (init_raw tp)" using u(5-8) cd j(5,6) by auto
    moreover have "uint (t - BUMP_NS) < uint t' + 1000" "uint t' - uint (t - BUMP_NS) \<le> uint r' - uint r" using j(7,11-13) l(4,5) by auto
    ultimately show ?thesis using rr by (simp add: good_times_def)
  qed
  ultimately show ?thesis using y(5,6) by (intro that)
qed

section \<open>The program over a working clock\<close>

lemma unhog_cpus_all: "n \<le> length threads \<Longrightarrow> unhog_cpus threads n w = Some (w\<lparr>spinning := spinning w - set (take n threads)\<rparr>)"
  by (induction n arbitrary: w) (auto simp: mem_simps take_Suc_conv_app_nth intro!: arg_cong [where f = "\<lambda>a. spinning_update (\<lambda>_. a) _"])

lemma hog_cpus_all:
  assumes "\<forall>w. st_spawn s w" and "i \<le> n" and "length threads = n"
  shows "hog_cpus s threads i n w = Some (Errno 0, take i threads @ [next_thread w..<next_thread w + (n - i)],
     w\<lparr>spinning := spinning w \<union> {next_thread w..<next_thread w + (n - i)}, next_thread := next_thread w + (n - i)\<rparr>)"
  using assms(2,3)
proof (induction "n - i" arbitrary: i threads w)
  case 0
  then show ?case by (subst hog_cpus.simps) simp
next
  case (Suc d)
  let ?t = "next_thread w"
  let ?w = "w\<lparr>spinning := insert ?t (spinning w), next_thread := Suc ?t\<rparr>"
  have "hog_cpus s (threads[i := ?t]) (Suc i) n ?w = Some (Errno 0, take (Suc i) (threads[i := ?t]) @ [Suc ?t..<Suc ?t + (n - Suc i)],
     ?w\<lparr>spinning := insert ?t (spinning w) \<union> {Suc ?t..<Suc ?t + (n - Suc i)}, next_thread := Suc ?t + (n - Suc i)\<rparr>)"
    using Suc.hyps(1) [of "Suc i" "threads[i := ?t]" ?w] Suc.hyps(2) Suc.prems by simp
  moreover have "take (Suc i) (threads[i := ?t]) @ [Suc ?t..<Suc ?t + (n - Suc i)] = take i threads @ [?t..<?t + (n - i)]"
  proof -
    have e: "n - i = Suc d" "n - Suc i = d" using Suc.hyps(2) by auto
    have "[?t..<?t + (n - i)] = ?t # [Suc ?t..<Suc ?t + (n - Suc i)]" unfolding e by (simp add: upt_conv_Cons del: upt_Suc)
    then show ?thesis using Suc.hyps(2) Suc.prems by (simp add: take_Suc_conv_app_nth del: upt_Suc)
  qed
  moreover have "insert ?t (spinning w) \<union> {Suc ?t..<Suc ?t + (n - Suc i)} = spinning w \<union> {?t..<?t + (n - i)}" "Suc ?t + (n - Suc i) = ?t + (n - i)"
    using Suc.hyps(2) by auto
  ultimately show ?case using Suc.hyps(2) Suc.prems assms(1) by (subst hog_cpus.simps) (simp add: mem_simps)
qed

text \<open>A thread that cannot be created goes unnoticed where \<open>errno\<close> is zero: the threads before it are stopped, and the test goes on
  as if it had the processors to itself.\<close>

lemma hog_cpus_unnoticed:
  assumes "\<not> st_spawn s w" and "t_errno w = Errno 0" and "i < n" and "i \<le> length threads"
  shows "hog_cpus s threads i n w = Some (Errno 0, threads, w\<lparr>spinning := spinning w - set (take i threads)\<rparr>)"
  using assms by (subst hog_cpus.simps) (simp add: unhog_cpus_all Let_def)

definition says :: "'x tool_scheme \<Rightarrow> 'x tool_scheme \<Rightarrow> bool" where
  "says w w' \<longleftrightarrow> (\<exists>xs. w' = w\<lparr>printed := printed w @ xs\<rparr>)"

lemma says_refl: "says w w"
  by (auto simp: says_def intro: exI [of _ "[]"])

lemma says_say: "says w v \<Longrightarrow> says w (say d t v)"
  by (auto simp: says_def say_def)

lemma says_fields: "says w v \<Longrightarrow> says w (print_fields fs v)"
  by (induction fs v rule: print_fields.induct) (auto simp: print_time_def says_say)

lemma says_times: "says w v \<Longrightarrow> says w (print_times tp extra v)"
  unfolding print_times_def Let_def by (rule says_fields)

lemma report_times_says:
  obtains v where "says w v" "report_times s name tp verbose extra err w = say Stdout (name @ '' '' @ (if err then ''failed'' else ''passed'') @ ''.'' @ newline) v"
  by (rule that [rotated], simp only: report_times_def Let_def) (auto intro!: says_say says_times says_refl)

text \<open>The calls that read and set the priority.\<close>

definition prio_right :: "'x stool_scheme st_sys \<Rightarrow> 'x reality \<Rightarrow> int \<Rightarrow> bool" where
  "prio_right s k c \<longleftrightarrow> (\<forall>w. room k 0 w \<longrightarrow>
     (case st_getprio s w of (r, w') \<Rightarrow> calm k c w w' \<and> r = prio k w)
   \<and> (\<forall>p r w'. st_setprio s p w = (r, w') \<longrightarrow> takes k c w w' \<and> off k w' = off k w \<and> r = 0 \<and> prio k w' = p))"

lemma get_prio:
  assumes "prio_right s k c" and "room k m w" and "c \<le> m"
  obtains w' where "st_getprio s w = (prio k w, w')" "calm k c w w'" "room k (m - c) w'"
proof -
  obtain r w' where w': "st_getprio s w = (r, w')" by force
  then have "calm k c w w' \<and> r = prio k w" using assms(1) room_0 [OF assms(2)] unfolding prio_right_def by fastforce
  then show ?thesis using that [of w'] w' calm_room [of k c w w' m] assms(2,3) by simp
qed

lemma set_prio:
  assumes "prio_right s k c" and "room k m w" and "c \<le> m"
  obtains w' where "st_setprio s p w = (0, w')" "takes k c w w'" "off k w' = off k w" "prio k w' = p" "room k (m - c) w'"
proof -
  obtain r w' where w': "st_setprio s p w = (r, w')" by force
  then have "takes k c w w' \<and> off k w' = off k w \<and> r = 0 \<and> prio k w' = p"
    using assms(1) room_0 [OF assms(2)] unfolding prio_right_def by fastforce
  then show ?thesis using that [of w'] w' assms(2,3) by (auto simp: room_def takes_def)
qed

text \<open>What is printed and what happens to threads does not change the world.\<close>

lemma chat_simps [simp]:
  "stool.more (chat v t w) = stool.more w" "spinning (chat v t w) = spinning w" "next_thread (chat v t w) = next_thread w" "t_errno (chat v t w) = t_errno w"
  "thread_array (chat v t w) = thread_array w" "stool.more (say d t w) = stool.more w" "spinning (say d t w) = spinning w" "next_thread (say d t w) = next_thread w"
  "thread_array (say d t w) = thread_array w"
  by (simp_all add: chat_def say_def)

lemma same_world:
  assumes "stool.more w' = stool.more w"
  shows "raw k w' = raw k w" "off k w' = off k w" "mono_at k w' = mono_at k w" "prio k w' = prio k w" "tod_at k w' = tod_at k w" "room k m w' = room k m w"
  using assms by (simp_all add: raw_def off_def mono_at_def prio_def tod_at_def room_def)

lemma truncate_fields:
  assumes "stool.truncate w' = stool.truncate w"
  shows "spinning w' = spinning w" "next_thread w' = next_thread w" "thread_array w' = thread_array w" "t_errno w' = t_errno w" "printed w' = printed w"
  using assms by (cases w; cases w'; simp add: stool.truncate_def)+

lemma tool_update_world [simp]:
  "stool.more (w\<lparr>thread_array := a\<rparr>) = stool.more w" "stool.more (w\<lparr>t_errno := e\<rparr>) = stool.more w" "stool.more (w\<lparr>spinning := t\<rparr>) = stool.more w"
  "stool.more (w\<lparr>next_thread := m\<rparr>) = stool.more w"
  by simp_all

lemma says_fields_same: "says w v \<Longrightarrow> stool.more v = stool.more w \<and> spinning v = spinning w \<and> thread_array v = thread_array w"
  by (auto simp: says_def)

lemma says_trans: "says u v \<Longrightarrow> says v w \<Longrightarrow> says u w"
  by (auto simp: says_def)

lemma says_same: "says w v \<Longrightarrow> stool.more v = stool.more w \<and> spinning v = spinning w \<and> thread_array v = thread_array w"
  by (auto simp: says_def)

section \<open>A clock that cannot be set\<close>

definition idle :: "'x stool_scheme st_sys \<Rightarrow> 'x reality \<Rightarrow> int \<Rightarrow> bool" where
  "idle s k c \<longleftrightarrow> (\<forall>w. room k 0 w \<longrightarrow> (\<forall>ts r w'. st_settime s ts w = (r, w') \<longrightarrow> calm k c w w' \<and> r = 0))"

lemma set_idle:
  assumes "idle s k c" and "room k m w" and "c \<le> m"
  obtains w' where "clock_setns s n w = (0, w')" "calm k c w w'" "room k (m - c) w'"
proof -
  obtain r w' where w': "st_settime s (ns2timespec n) w = (r, w')" by force
  then have "calm k c w w' \<and> r = 0" using assms(1) room_0 [OF assms(2)] unfolding idle_def by blast
  then show ?thesis using that [of w'] w' calm_room [of k c w w' m] assms(2,3) by (simp add: clock_setns_def)
qed

text \<open>The first reading after the change is nearly 100 ms before the time that was set, much more than what passed between the captures.\<close>

definition far_times :: "st_info \<Rightarrow> bool" where
  "far_times tp \<longleftrightarrow>
     uint (init_raw tp) \<le> uint (middle_raw tp) \<and> uint (middle_raw tp) \<le> uint (final_raw tp) \<and> uint (final_raw tp) < 2 ^ 62
   \<and> uint (first_set tp) < 2 ^ 62 \<and> uint (first_real tp) < 2 ^ 62 \<and> uint (second_set tp) < 2 ^ 62 \<and> uint (second_real tp) < 2 ^ 62
   \<and> uint (middle_raw tp) - uint (init_raw tp) + 1000 < uint (first_set tp) - uint (first_real tp)"

lemma bracketed_says:
  assumes "\<bar>x\<bar> < 2 ^ 62" and "0 \<le> y" and "y < 2 ^ 62"
  shows "\<exists>q. bracketed n x y p = Some q \<and> fst q = (fst p \<or> \<bar>x\<bar> > y + 1000) \<and> says (snd p) (snd q)"
proof -
  have "s64 \<bar>x\<bar> = Some \<bar>x\<bar>" "s64 (y + 1000) = Some (y + 1000)" using assms by (auto intro!: s64_ok)
  then show ?thesis by (auto simp: bracketed_def intro: says_say says_refl)
qed

lemma later_says: "says w (snd p) \<Longrightarrow> says w (snd (later a b x y p))" "says w (snd p) \<Longrightarrow> says w (snd (raw_later a b x y p))"
  by (auto simp: later_def raw_later_def says_say)

lemma word_diff_abs: "uint (x :: u64) < 2 ^ 62 \<Longrightarrow> uint (y :: u64) < 2 ^ 62 \<Longrightarrow> \<bar>uint x - uint y\<bar> < 2 ^ 62"
  using uint_ge_0 [of x] uint_ge_0 [of y] by linarith

lemma check_far_times:
  assumes "far_times tp"
  shows "\<exists>v. check_times tp verbose w = Some (True, v) \<and> says w v"
proof -
  have b: "uint (init_raw tp) < 2 ^ 62" "uint (middle_raw tp) < 2 ^ 62" using assms by (auto simp: far_times_def)
  have d: "sint (middle_raw tp - init_raw tp) = uint (middle_raw tp) - uint (init_raw tp)" "sint (final_raw tp - middle_raw tp) = uint (final_raw tp) - uint (middle_raw tp)"
    "sint (first_real tp - first_set tp) = uint (first_real tp) - uint (first_set tp)" "sint (second_real tp - second_set tp) = uint (second_real tp) - uint (second_set tp)"
    using assms b by (auto intro!: sint_minus simp: far_times_def)
  define p where "p = check_order tp verbose w"
  have p: "says w (snd p)" by (auto simp: p_def check_order_def Let_def intro!: later_says says_refl)
  have y: "0 \<le> uint (middle_raw tp) - uint (init_raw tp)" "uint (middle_raw tp) - uint (init_raw tp) < 2 ^ 62"
    "0 \<le> uint (final_raw tp) - uint (middle_raw tp)" "uint (final_raw tp) - uint (middle_raw tp) < 2 ^ 62"
    using assms b word_diff_abs [of "middle_raw tp" "init_raw tp"] word_diff_abs [of "final_raw tp" "middle_raw tp"] by (auto simp: far_times_def)
  have x: "\<bar>uint (first_real tp) - uint (first_set tp)\<bar> < 2 ^ 62" "\<bar>uint (second_real tp) - uint (second_set tp)\<bar> < 2 ^ 62"
    using assms word_diff_abs [of "first_real tp" "first_set tp"] word_diff_abs [of "second_real tp" "second_set tp"] unfolding far_times_def by blast+
  obtain q where q: "bracketed ''First'' (sint (first_real tp - first_set tp)) (sint (middle_raw tp - init_raw tp)) p = Some q" "fst q" "says (snd p) (snd q)"
    using bracketed_says [OF x(1) y(1,2), of "''First''" p] assms d by (auto simp: far_times_def)
  obtain r where r: "bracketed ''Second'' (sint (second_real tp - second_set tp)) (sint (final_raw tp - middle_raw tp)) q = Some r" "fst r" "says (snd q) (snd r)"
    using bracketed_says [OF x(2) y(3,4), of "''Second''" q] q(2) d by auto
  have "check_times tp verbose w = Some (True, snd r)" using q(1) r(1,2) by (simp add: check_times_def p_def prod_eq_iff)
  then show ?thesis using says_trans [OF says_trans [OF p q(3)] r(3)] by blast
qed

lemma bump_test_idle:
  assumes "working s k c late" and "idle s k c" and "c \<le> 4000000" and "captured k c extra tv tp w" and "room k 1200000000 w" and "1000000000 \<le> uint (init_real tp)"
  obtains tp' w' where "bump_test s extra 0 tv tp w = Some (Errno 0, tp', w')" "takes k (14 * c) w w'" "prio k w' = prio k w"
    "off k w - (4 * c + 1998) \<le> off k w'" "off k w' \<le> off k w" "far_times tp'"
proof -
  let ?n = "init_real tp + BUMP_NS"
  have cl: "0 \<le> c" using assms(1) by (simp add: working_def)
  note cd = assms(4) [unfolded captured_def]
  have lt: "uint (init_real tp) + 1200000000 < 2 ^ 62" using cd assms(5) by (auto simp: room_def tod_at_def)
  then have n: "uint ?n = uint (init_real tp) + 100000000" by (auto simp: BUMP_NS_def uint_word_ariths mod_pos_pos_trivial)
  obtain w1 where u: "clock_setns s ?n w = (0, w1)" "calm k c w w1" "room k (1200000000 - c) w1" by (rule set_idle [OF assms(2,5)]) (use assms(3) in auto)
  let ?tp = "tp\<lparr>first_set := ?n\<rparr>"
  obtain f r a b h t w2 where j: "capture_middle s extra ?tp w1 = (let (e, v) = clock_setns s (t - BUMP_NS) w2 in
       Some (Inr (e \<noteq> 0), ?tp\<lparr>first_real := f, middle_raw := r, middle_mono := a, middle_boot := b, middle_mach := h, middle_real := t, second_set := t - BUMP_NS\<rparr>, v))"
    "calm k (6 * c) w1 w2" "room k (1200000000 - c - 6 * c) w2"
    "raw k w1 + off k w1 \<le> uint f" "uint f \<le> uint r + off k w1" "uint r \<le> raw k w2" "uint f \<le> tod_at k w2" "raw k w1 \<le> uint r"
    "mono_at k w1 \<le> uint a" "uint a \<le> mono_at k w2" "if extra \<noteq> 0 then raw k w1 \<le> uint h \<and> uint h \<le> raw k w2 else h = middle_mach ?tp"
    "raw k w1 + off k w1 \<le> uint t" "uint t \<le> raw k w2 + off k w1"
    by (rule capture_middle_start [OF assms(1) u(3), where extra = extra and tp = ?tp]) (use assms(3) cl in linarith, blast)
  obtain w3 where v: "clock_setns s (t - BUMP_NS) w2 = (0, w3)" "calm k c w2 w3" "room k (1200000000 - c - 6 * c - c) w3" by (rule set_idle [OF assms(2) j(3)]) (use assms(3) cl in auto)
  let ?tq = "?tp\<lparr>first_real := f, middle_raw := r, middle_mono := a, middle_boot := b, middle_mach := h, middle_real := t, second_set := t - BUMP_NS\<rparr>"
  obtain t' a' b' h' r' w4 where l: "capture_final s extra ?tq w3 = Some (Errno 0, ?tq\<lparr>second_real := t', final_mono := a', final_boot := b', final_mach := h',
      final_raw := r'\<rparr>, w4)"
    "calm k (5 * c) w3 w4" "room k (1200000000 - c - 6 * c - c - 5 * c) w4" "raw k w3 + off k w3 \<le> uint t'" "uint t' \<le> uint r' + off k w3" "mono_at k w3 \<le> uint a'"
    "uint r' \<le> raw k w4" "raw k w4 \<le> uint r' + c" "if extra \<noteq> 0 then raw k w3 \<le> uint h' else h' = final_mach ?tq"
    by (rule capture_final_reads [OF assms(1) v(3), where extra = extra and tp = ?tq]) (use cl assms(3) in linarith, blast)
  let ?tr = "?tq\<lparr>second_real := t', final_mono := a', final_boot := b', final_mach := h', final_raw := r'\<rparr>"
  note d = calm_D [OF u(2)] calm_D [OF j(2)] calm_D [OF v(2)] calm_D [OF l(2)]
  have hi: "raw k w4 < 2 ^ 62" "raw k w4 + off k w < 2 ^ 62" using l(3) d by (auto simp: room_def)
  have rr: "uint (init_raw tp) \<le> uint r" "uint r \<le> uint r'" "uint r' < 2 ^ 62" using cd d j(6,8) l(4,5,7) hi(1) by auto
  have tvs: "tv_ok tv" "tv_ns tv < 2 ^ 62" using cd assms(5) cl by (auto simp: room_def)
  obtain tv' w5 where y: "advance_tv tv (sint (r' - init_raw tp)) = Some tv'" "snd (st_settod s tv' w4) = w5" "takes k c w4 w5" "prio k w5 = prio k w4"
      "off k w - (4 * c + 1998) \<le> off k w5" "off k w5 \<le> off k w"
    by (rule time_restored [OF assms(1) l(3) _ tvs, where r = "init_raw tp" and r' = r' and d = "off k w"]) (use cd cl assms(3) rr l(7,8) in auto)
  have b: "bump_test s extra 0 tv tp w = Some (Errno 0, ?tr, w5)" using u(1) j(1) v(1) l(1) y(1,2) by (simp add: bump_test_def Let_def)
  have tk: "takes k (14 * c) w w5" "prio k w5 = prio k w" using d y(3,4) by (auto simp: takes_def)
  have m: "uint (t - BUMP_NS) = uint t - 100000000" using j(12) d cd assms(6) by (intro uint_minus_bump) (auto simp: BUMP_NS_def tod_at_def)
  have "uint r - uint (init_raw tp) + 1000 < uint ?n - uint f" using j(6,7) d cd n assms(3) by (auto simp: tod_at_def)
  moreover have "uint f < 2 ^ 62" "uint t' < 2 ^ 62" "uint (t - BUMP_NS) < 2 ^ 62" "uint ?n < 2 ^ 62" using n lt m j(7,13) l(5,7) d hi by (auto simp: tod_at_def)
  ultimately have "far_times ?tr" using rr by (simp add: far_times_def)
  then show ?thesis by (rule that [OF b tk y(5,6)])
qed

section \<open>The program\<close>

text \<open>How the test goes: it ends without an error, leaves the process and the time of day as they were, and the checks find \<open>err\<close>.\<close>

definition outcome :: "'x stool_scheme st_sys \<Rightarrow> 'x reality \<Rightarrow> int \<Rightarrow> nat \<Rightarrow> bool \<Rightarrow> 'x stool_scheme \<Rightarrow> bool" where
  "outcome s k c extra err w \<longleftrightarrow> (\<exists>tp w'. do_test s no_info extra w = Some (Errno 0, tp, w') \<and> stool.truncate w' = stool.truncate w \<and> prio k w' = prio k w
     \<and> room k 1000000000 w' \<and> off k w - (4 * c + 1998) \<le> off k w' \<and> off k w' \<le> off k w
     \<and> (\<forall>verbose. \<forall>v :: 'x stool_scheme. \<exists>v'. check_times tp verbose v = Some (err, v') \<and> says v v'))"

lemma do_test_outcome:
  assumes "working s k c late" and "2 * c + late < 10000000" and "extra < 2 ^ 31" and "room k 3000000000 w" and "1000000000 \<le> tod_at k w"
  shows "sets_time s k c \<Longrightarrow> outcome s k c extra False w" and "idle s k c \<Longrightarrow> c \<le> 4000000 \<Longrightarrow> outcome s k c extra True w"
proof -
  have cl: "0 \<le> c" "c < 5000000" using assms(1,2) by (auto simp: working_def)
  obtain tv tp v where v: "do_test s no_info extra w = bump_test s extra 0 tv tp v" "captured k c extra tv tp v" "calm k 1570000000 w v" "room k 1200000000 v"
    "1000000000 \<le> uint (init_real tp)"
    by (rule do_test_start [OF assms])
  have r: "room k 1000000000 w'" if "takes k (14 * c) v w'" "off k v - (4 * c + 1998) \<le> off k w'" "off k w' \<le> off k v" for w'
    using that v(4) cl calm_D [OF v(3)] assms(5) by (auto simp: room_def takes_def tod_at_def)
  show "outcome s k c extra False w" if "sets_time s k c"
  proof (rule bump_test_result [OF assms(1) that cl(2) v(2,4,5)])
    fix tp' w'
    assume b: "bump_test s extra 0 tv tp v = Some (Errno 0, tp', w')" "takes k (14 * c) v w'" "prio k w' = prio k v" "off k v - (4 * c + 1998) \<le> off k w'"
      "off k w' \<le> off k v" "good_times tp'"
    show "outcome s k c extra False w"
      unfolding outcome_def using b v(1) calm_D [OF v(3)] r [OF b(2,4,5)] check_good_times [OF b(6)] says_refl by (auto simp: takes_def)
  qed
  show "outcome s k c extra True w" if "idle s k c" "c \<le> 4000000"
  proof (rule bump_test_idle [OF assms(1) that v(2,4,5)])
    fix tp' w'
    assume b: "bump_test s extra 0 tv tp v = Some (Errno 0, tp', w')" "takes k (14 * c) v w'" "prio k w' = prio k v" "off k v - (4 * c + 1998) \<le> off k w'"
      "off k w' \<le> off k v" "far_times tp'"
    show "outcome s k c extra True w"
      unfolding outcome_def using b v(1) calm_D [OF v(3)] r [OF b(2,4,5)] check_far_times [OF b(6)] by (auto simp: takes_def)
  qed
qed

lemma settime_run_outcome:
  assumes "prio_right s k c" and "0 \<le> c" and "c \<le> 1000000000" and "outcome s k c extra err w" and "length threads = n" and "thread_array w \<noteq> None"
  obtains v where "settime_run s name verbose extra p threads n w = Some (if err then 1 else 0, v)"
    "last (printed v) = (Stdout, name @ '' '' @ (if err then ''failed'' else ''passed'') @ ''.'' @ newline)" "spinning v = spinning w - set threads" "thread_array v = None"
    "prio k v = p" "off k w - (4 * c + 1998) \<le> off k v" "off k v \<le> off k w"
proof -
  obtain tp f where f: "do_test s no_info extra w = Some (Errno 0, tp, f)" "stool.truncate f = stool.truncate w" "room k 1000000000 f"
    "off k w - (4 * c + 1998) \<le> off k f" "off k f \<le> off k w" "\<And>v :: 'a stool_scheme. \<exists>v'. check_times tp verbose v = Some (err, v') \<and> says v v'"
    using assms(4) unfolding outcome_def by blast
  note ft = truncate_fields [OF f(2)]
  let ?f = "f\<lparr>spinning := spinning f - set threads\<rparr>"
  have un: "unhog_cpus threads n f = Some ?f" using unhog_cpus_all [of n threads f] assms(5) by simp
  have fr: "room k 1000000000 ?f" using f(3) same_world(6) [of ?f f] by simp
  obtain g where g: "st_setprio s p ?f = (0, g)" "takes k c ?f g" "off k g = off k ?f" "prio k g = p"
    by (rule set_prio [OF assms(1) fr assms(3)])
  have gt: "spinning g = spinning w - set threads" "thread_array g = thread_array w" using truncate_fields [of g ?f] g(2) ft by (simp_all add: takes_def)
  let ?g = "g\<lparr>thread_array := None\<rparr>"
  obtain h where h: "check_times tp verbose ?g = Some (err, h)" "says ?g h" using f(6) by blast
  obtain v where v: "says h v" "report_times s name tp verbose extra err h = say Stdout (name @ '' '' @ (if err then ''failed'' else ''passed'') @ ''.'' @ newline) v"
    using report_times_says [of h s name tp verbose extra err] by auto
  let ?v = "say Stdout (name @ '' '' @ (if err then ''failed'' else ''passed'') @ ''.'' @ newline) v"
  have m: "stool.more ?v = stool.more g" "spinning ?v = spinning g" "thread_array ?v = None" using says_same [OF says_trans [OF h(2) v(1)]] by simp_all
  have "settime_run s name verbose extra p threads n w = Some (if err then 1 else 0, ?v)"
    using f(1) un g(1) gt(2) assms(6) h(1) v(2) by (simp add: settime_run_def st_free_def Let_def)
  then show ?thesis
    by (rule that) (use m gt f(4,5) g(3,4) same_world(2,4) [OF m(1)] same_world(2) [of ?f f] in auto)
qed

lemma settime_main_outcome:
  assumes "prio_right s k c" and "0 \<le> c" and "c < 5000000"
    and "st_ncpus s = Some (int n)" and "st_mem s (int n)" and "\<forall>w. st_spawn s w" and "\<forall>t \<in> spinning w. t < next_thread w"
    and "settime_options args (0, 0) = (verbose, extra)" and "room k 4000000000 w" and "1000000000 \<le> tod_at k w"
    and "\<And>v. room k 3000000000 v \<Longrightarrow> 1000000000 \<le> tod_at k v \<Longrightarrow> outcome s k c extra err v"
  shows "\<exists>w'. settime_main s argv0 args w = Some (if err then 1 else 0, w')
    \<and> last (printed w') = (Stdout, td_basename (st_tool s) argv0 @ '' '' @ (if err then ''failed'' else ''passed'') @ ''.'' @ newline)
    \<and> spinning w' = spinning w \<and> thread_array w' = None \<and> prio k w' = prio k w \<and> off k w - (4 * c + 1998) \<le> off k w' \<and> off k w' \<le> off k w"
proof -
  let ?name = "td_basename (st_tool s) argv0"
  let ?a1 = "chat verbose (''Number of CPUs = '' @ dec (int n)) (chat verbose (?name @ '' starting, extra = '' @ dec (int extra) @ ''.'') w)"
  let ?a = "?a1\<lparr>thread_array := Some (replicate n 0), t_errno := Errno 0\<rparr>"
  have a: "stool.more ?a = stool.more w" "room k 4000000000 ?a" using assms(9) same_world(6) [of ?a w] by simp_all
  obtain b where b: "st_getprio s ?a = (prio k ?a, b)" "calm k c ?a b" "room k (4000000000 - c) b" by (rule get_prio [OF assms(1) a(2)]) (use assms(3) in auto)
  let ?b = "chat verbose (''Initial priority = '' @ dec (prio k ?a)) b"
  have b': "room k (4000000000 - c) ?b" using b(3) same_world(6) [of ?b b] by simp
  obtain d where d: "st_setprio s (-20) ?b = (0, d)" "takes k c ?b d" "off k d = off k ?b" "prio k d = -20" "room k (4000000000 - c - c) d"
    by (rule set_prio [OF assms(1) b']) (use assms(3) in auto)
  let ?d = "say Stdout (''Priority set to -20'' @ newline) d"
  let ?t = "[next_thread w..<next_thread w + n]"
  let ?e = "?d\<lparr>spinning := spinning w \<union> {next_thread w..<next_thread w + n}, next_thread := next_thread w + n, thread_array := Some ?t\<rparr>"
  have bt: "spinning b = spinning w" "next_thread b = next_thread w" "thread_array b = Some (replicate n 0)" "t_errno b = Errno 0"
    using truncate_fields [of b ?a] b(2) by (simp_all add: calm_def takes_def)
  have dt: "spinning ?d = spinning w" "next_thread ?d = next_thread w" "thread_array ?d = Some (replicate n 0)"
    using truncate_fields [of d ?b] d(2) bt by (simp_all add: takes_def)
  have hog: "hog_cpus s (replicate n 0) 0 n ?d = Some (Errno 0, ?t, ?d\<lparr>spinning := spinning w \<union> {next_thread w..<next_thread w + n}, next_thread := next_thread w + n\<rparr>)"
    using hog_cpus_all [OF assms(6), where i = 0 and n = n and threads = "replicate n 0" and w = ?d] dt by simp
  have ed: "stool.more ?e = stool.more d" by simp
  have oe: "off k ?e = off k w" "raw k w \<le> raw k ?e"
    using same_world(1,2) [OF ed] same_world(1,2) [of ?b b] same_world(1,2) [OF a(1)] d(2,3) calm_D [OF b(2)] by (auto simp: takes_def)
  have "room k (4000000000 - c - c) ?e" using same_world(6) [OF ed] d(5) by simp
  then have er: "room k 3000000000 ?e" by (rule room_le) (use assms(2,3) in auto)
  have et: "1000000000 \<le> tod_at k ?e" using oe assms(10) by (simp add: tod_at_def)
  obtain v where v: "settime_run s ?name verbose extra (prio k ?a) ?t n ?e = Some (if err then 1 else 0, v)"
    "last (printed v) = (Stdout, ?name @ '' '' @ (if err then ''failed'' else ''passed'') @ ''.'' @ newline)" "spinning v = spinning ?e - set ?t" "thread_array v = None"
    "prio k v = prio k ?a" "off k ?e - (4 * c + 1998) \<le> off k v" "off k v \<le> off k ?e"
    by (rule settime_run_outcome [OF assms(1,2) _ assms(11) [OF er et], where threads = ?t and n = n and name = ?name and verbose = verbose and p = "prio k ?a"])
      (use assms(3) in auto)
  have "settime_main s argv0 args w = Some (if err then 1 else 0, v)"
    using assms(4,5,8) b(1) bt(4) d(1) dt(3) hog v(1) by (simp add: settime_main_def Let_def)
  moreover have "spinning v = spinning w" using v(3) assms(7) by auto
  ultimately show ?thesis using v(2,4-7) oe(1) same_world(4) [OF a(1)] by auto
qed

text \<open>The library's \<open>clock_settime\<close> over the \<open>settimeofday\<close> of the system.\<close>

definition library_settime :: "kernel \<Rightarrow> (timeval \<Rightarrow> 'w \<Rightarrow> int \<times> 'w) \<Rightarrow> timespec \<Rightarrow> 'w \<Rightarrow> int \<times> 'w" where
  "library_settime kn settod ts w =
     (case clock_settime kn CLOCK_REALTIME (sint (tv_sec ts), sint (tv_nsec ts)) of (r, _, None) \<Rightarrow> (r, w) | (_, _, Some tv) \<Rightarrow> settod tv w)"

lemma library_sets_time:
  assumes "working s k c late" and "st_settime s = library_settime kn (st_settod s)"
  shows "sets_time s k c"
  unfolding sets_time_def settime_right_def
proof (intro allI impI)
  fix w and n :: u64
  assume r: "room k 0 w" and n: "uint n < 2 ^ 62"
  define tv where "tv = \<lparr>tv_s = uint n div 1000000000, tv_us = uint n mod 1000000000 div 1000\<rparr>"
  have "to_int32 (uint n mod 1000000000 div 1000) = uint n mod 1000000000 div 1000" by (rule to_int32_ok) auto
  moreover have "uint n div 1000000000 < 9223372036854775808" "uint n mod 1000000000 < 9223372036854775808" using n by auto
  then have "sint (n div BILLION) = uint n div 1000000000" "sint (n mod BILLION) = uint n mod 1000000000"
    using sint_is_uint [of "n div BILLION"] sint_is_uint [of "n mod BILLION"] by (simp_all add: uint_div uint_mod)
  moreover have "\<not> uint n mod 1000000000 < 0" by (simp add: not_less)
  ultimately have st: "st_settime s (ns2timespec n) w = st_settod s tv w"
    by (simp add: assms(2) library_settime_def clock_settime_def ns2timespec_def tv_def)
  have ns: "tv_ns tv = uint n - uint n mod 1000" using micro_floor [of "uint n"] by (simp only: tv_ns_def tv_def timeval.simps)
  have "0 \<le> uint n div 1000000000" by (rule pos_imp_zdiv_nonneg_iff [THEN iffD2]) simp_all
  then have ok: "tv_ok tv" using n by (auto simp: tv_ok_def tv_def)
  obtain e w' where w': "st_settod s tv w = (e, w')" by force
  have "sets_right s k c w" using assms(1) r by (simp add: working_def)
  then show "case st_settime s (ns2timespec n) w of (r, w') \<Rightarrow> takes k c w w' \<and> prio k w' = prio k w \<and> r = 0
     \<and> raw k w \<le> uint n - uint n mod 1000 - off k w' \<and> uint n - uint n mod 1000 - off k w' \<le> raw k w'"
    using ok w' ns st unfolding sets_right_def by fastforce
qed

text \<open>C32: the library's \<open>clock_settime\<close> passes its test.  Over a system whose clocks run, whose \<open>settimeofday\<close> sets the time that is
  asked for, and where a call takes less than 5 ms: the wait for the time of day ends, every check holds and the program says so and
  exits with 0; no thread is left running, the priority is what it was, the array is given back, and the time of day has lost no
  more than what four calls and the rounding to microseconds take.\<close>

theorem settime_main_passes:
  assumes "working s k c late" and "st_settime s = library_settime kn (st_settod s)" and "prio_right s k c" and "2 * c + late < 10000000"
    and "st_ncpus s = Some (int n)" and "st_mem s (int n)" and "\<forall>w. st_spawn s w" and "\<forall>t \<in> spinning w. t < next_thread w"
    and "settime_options args (0, 0) = (verbose, extra)" and "extra < 2 ^ 31" and "room k 4000000000 w" and "1000000000 \<le> tod_at k w"
  shows "\<exists>w'. settime_main s argv0 args w = Some (0, w') \<and> last (printed w') = (Stdout, td_basename (st_tool s) argv0 @ '' passed.'' @ newline)
    \<and> spinning w' = spinning w \<and> thread_array w' = None \<and> prio k w' = prio k w \<and> off k w - (4 * c + 1998) \<le> off k w' \<and> off k w' \<le> off k w"
  using settime_main_outcome [OF assms(3) _ _ assms(5-9,11,12), of False argv0] do_test_outcome(1) [OF assms(1,4,10) _ _ library_sets_time [OF assms(1,2)]] assms(1,4)
  by (auto simp: working_def)

text \<open>C35: over a system where \<open>clock_settime\<close> claims to have set the time but does nothing, and a call takes at most 4 ms, the program
  finds out: it reports a failure and exits with 1.  The threads, the memory and the priority of the process are as they were; the
  time of day is not set forward, but the correction at the end may set it back, by no more than the length of four calls and two
  microseconds, which is 16.002 ms at the most.\<close>

theorem settime_main_detects:
  assumes "working s k c late" and "idle s k c" and "c \<le> 4000000" and "prio_right s k c" and "2 * c + late < 10000000"
    and "st_ncpus s = Some (int n)" and "st_mem s (int n)" and "\<forall>w. st_spawn s w" and "\<forall>t \<in> spinning w. t < next_thread w"
    and "settime_options args (0, 0) = (verbose, extra)" and "extra < 2 ^ 31" and "room k 4000000000 w" and "1000000000 \<le> tod_at k w"
  shows "\<exists>w'. settime_main s argv0 args w = Some (1, w') \<and> last (printed w') = (Stdout, td_basename (st_tool s) argv0 @ '' failed.'' @ newline)
    \<and> spinning w' = spinning w \<and> thread_array w' = None \<and> prio k w' = prio k w \<and> off k w - (4 * c + 1998) \<le> off k w' \<and> off k w' \<le> off k w"
  using settime_main_outcome [OF assms(4) _ _ assms(6-10,12,13), of True argv0] do_test_outcome(2) [OF assms(1,5,11) _ _ assms(2,3)] assms(1,5)
  by (auto simp: working_def)

text \<open>
  An error while the time is changed should put it back; a failing \<open>sysctl\<close> does not: the function returns at once, and the time of
  day stays nearly 100 ms ahead.
\<close>

lemma middle_error_leaves_ahead:
  assumes "working s k c late" and "sets_time s k c" and "c < 5000000" and "captured k c extra tv tp w" and "room k 1200000000 w" and "1000000000 \<le> uint (init_real tp)"
    and "\<And>v. \<exists>tq v'. capture_middle s extra (tp\<lparr>first_set := init_real tp + BUMP_NS\<rparr>) v = Some (Inl e, tq, v') \<and> off k v' = off k v"
  shows "\<exists>tp' w'. bump_test s extra 0 tv tp w = Some (e, tp', w') \<and> off k w + 100000000 - (6 * c + 1000) \<le> off k w'"
proof -
  let ?n = "init_real tp + BUMP_NS"
  note cd = assms(4) [unfolded captured_def]
  have lt: "uint (init_real tp) + 1200000000 < 2 ^ 62" using cd assms(5) by (auto simp: room_def tod_at_def)
  then have n: "uint ?n = uint (init_real tp) + 100000000" by (auto simp: BUMP_NS_def uint_word_ariths mod_pos_pos_trivial)
  have m: "room k 1000000000 w" using assms(5) by (simp add: room_def)
  obtain u v where u: "clock_setns s ?n w = (0, v)" "takes k c w v" "u \<le> raw k v" "uint ?n < u + off k v + 1000"
    by (rule set_real [OF assms(1) sets_time_D [OF assms(2) m] m, where n = ?n]) (use lt n assms(3) in auto)
  obtain tq v' where c: "capture_middle s extra (tp\<lparr>first_set := ?n\<rparr>) v = Some (Inl e, tq, v')" "off k v' = off k v" using assms(7) by blast
  have "bump_test s extra 0 tv tp w = Some (e, tq, v')" using u(1) c(1) by (simp add: bump_test_def Let_def)
  moreover have "off k w + 100000000 - (6 * c + 1000) \<le> off k v'" using u cd n c(2) by (auto simp: takes_def tod_at_def)
  ultimately show ?thesis by blast
qed

section \<open>Examples\<close>

text \<open>A system whose clocks are exact: every call takes a microsecond, a sleep one nanosecond more than was asked for.\<close>

definition into :: "('x \<Rightarrow> 'x) \<Rightarrow> 'x stool_scheme \<Rightarrow> 'x stool_scheme" where
  "into f w = stool.extend (stool.truncate w) (f (stool.more w))"

lemma into_simps [simp]: "stool.more (into f w) = f (stool.more w)" "stool.truncate (into f w) = stool.truncate w"
  by (simp_all add: into_def stool.defs)

definition tick :: "int \<times> int \<times> int \<Rightarrow> int \<times> int \<times> int" where "tick = (\<lambda>(r, d, p). (r + 1000, d, p))"

definition demo_settod :: "timeval \<Rightarrow> (int \<times> int \<times> int) stool_scheme \<Rightarrow> int \<times> (int \<times> int \<times> int) stool_scheme" where
  "demo_settod tv w = (0, into (\<lambda>(r, d, p). (r + 1000, tv_ns tv - r, p)) w)"

definition demo_exact :: "(timespec \<Rightarrow> (int \<times> int \<times> int) stool_scheme \<Rightarrow> int \<times> (int \<times> int \<times> int) stool_scheme) \<Rightarrow> (int \<times> int \<times> int) stool_scheme st_sys" where
  "demo_exact settime =
     \<lparr>st_tool = \<lparr>td_sym = \<lambda>h s. None, td_open = \<lambda>s. None, td_close = \<lambda>h. True, td_dlerror = [], td_dirname = id, td_basename = id, td_realpath = Some, td_offender = id,
        td_strerror = \<lambda>e. [], td_number = \<lambda>e. 0, td_osrelease = None, td_native = None, td_translated = None\<rparr>,
      st_getns = \<lambda>clk w. (case stool.more w of (r, d, p) \<Rightarrow> (word_of_int (if clk = CLOCK_REALTIME then r + d else r), into tick w)),
      st_settime = settime,
      st_boot = \<lambda>w. ((0, \<lparr>tv_s = 0, tv_us = 0\<rparr>), into tick w),
      st_mach = \<lambda>w. (case stool.more w of (r, d, p) \<Rightarrow> ((word_of_int (r div 1000000000), r mod 1000000000), into tick w)),
      st_usleep = \<lambda>u. into (\<lambda>(r, d, p). (r + 1000 * uint u + 1, d, p)),
      st_gettod = \<lambda>w. (case stool.more w of (r, d, p) \<Rightarrow> ((0, \<lparr>tv_s = (r + d) div 1000000000, tv_us = (r + d) mod 1000000000 div 1000\<rparr>), into tick w)),
      st_settod = demo_settod, st_ncpus = Some 2, st_mem = \<lambda>n. True,
      st_getprio = \<lambda>w. (case stool.more w of (r, d, p) \<Rightarrow> (p, into tick w)),
      st_setprio = \<lambda>q. \<lambda>w. (0, into (\<lambda>(r, d, p). (r + 1000, d, q)) w),
      st_spawn = \<lambda>w. True, st_f6 = \<lambda>n. []\<rparr>"

definition exact :: "(int \<times> int \<times> int) reality" where
  "exact = \<lparr>re_raw = \<lambda>(r, d, p). r, re_off = \<lambda>(r, d, p). d, re_mono = \<lambda>(r, d, p). r, re_prio = \<lambda>(r, d, p). p\<rparr>"

lemma exact_simps:
  "stool.more w = (r, d, p) \<Longrightarrow> raw exact w = r \<and> off exact w = d \<and> mono_at exact w = r \<and> prio exact w = p"
  by (simp add: raw_def off_def mono_at_def prio_def exact_def)

lemma tick_calm: "calm exact 1000 w (into tick w)"
  by (cases "stool.more w") (simp add: calm_def takes_def raw_def off_def mono_at_def prio_def exact_def tick_def)

lemma demo_reads:
  assumes "room exact 0 w"
  shows "reads_right (demo_exact f) exact 1000 w"
proof -
  obtain r d p where w: "stool.more w = (r, d, p)" by (cases "stool.more w")
  note e = exact_simps [OF w]
  have b: "0 < r" "r < 2305843009213693952" "0 < r + d" "r + d < 4611686018427387904" using assms e by (simp_all add: room_def)
  have t: "raw exact (into tick w) = r + 1000" "mono_at exact (into tick w) = r + 1000" using w by (simp_all add: raw_def mono_at_def exact_def tick_def)
  have u: "uint (word_of_int r :: u64) = r" "uint (word_of_int (r + d) :: u64) = r + d" by (rule uint_of_int; use b in simp)+
  have v: "uint (word_of_int r + word_of_int d :: u64) = r + d" using u(2) by simp
  have "0 \<le> r div 1000000000" "r div 1000000000 < 4294967296" using b by auto
  then have m: "uint (word_of_int (r div 1000000000) :: u32) = r div 1000000000" by (simp add: uint_word_of_int)
  have tv: "tv_ok \<lparr>tv_s = (r + d) div 1000000000, tv_us = (r + d) mod 1000000000 div 1000\<rparr>" using b by (auto simp: tv_ok_def pos_imp_zdiv_nonneg_iff)
  have "0 \<le> (r + d) mod 1000" "(r + d) mod 1000 < 1000" by simp_all
  then have "r + d - 999 \<le> tv_ns \<lparr>tv_s = (r + d) div 1000000000, tv_us = (r + d) mod 1000000000 div 1000\<rparr>"
    "tv_ns \<lparr>tv_s = (r + d) div 1000000000, tv_us = (r + d) mod 1000000000 div 1000\<rparr> \<le> r + d"
    unfolding tv_ns_def timeval.simps micro_floor by linarith+
  moreover have "tv_ok \<lparr>tv_s = 0, tv_us = 0\<rparr>" by (simp add: tv_ok_def)
  ultimately show ?thesis using b tv unfolding reads_right_def demo_exact_def by (simp add: w t u v m e tick_calm)
qed

lemma demo_working: "working (demo_exact f) exact 1000 1"
proof -
  have "sets_right (demo_exact f) exact 1000 w" "sleeps (demo_exact f) exact 1 w" for w
    by (cases "stool.more w"; simp add: sets_right_def sleeps_def demo_exact_def demo_settod_def calm_def takes_def raw_def off_def mono_at_def prio_def exact_def)+
  then show ?thesis using demo_reads by (simp add: working_def)
qed

lemma demo_prio: "prio_right (demo_exact f) exact 1000"
  by (auto simp: prio_right_def demo_exact_def tick_calm calm_def takes_def raw_def off_def mono_at_def prio_def exact_def tick_def split: prod.splits)

definition demo_start :: "(int \<times> int \<times> int) stool_scheme" where
  "demo_start = \<lparr>printed = [], t_errno = Errno 0, handles = {}, spinning = {}, next_thread = 1, thread_array = None, \<dots> = (5000000000, 1700000000000000000, 3)\<rparr>"

lemma demo_start_room: "room exact 4000000000 demo_start" "1000000000 \<le> tod_at exact demo_start"
  by (simp_all add: room_def tod_at_def raw_def off_def exact_def demo_start_def)

lemma settime_main_passes_witness:
  "\<exists>w'. settime_main (demo_exact (library_settime demo_kernel demo_settod)) ''settime'' [''-vx''] demo_start = Some (0, w')
    \<and> last (printed w') = (Stdout, ''settime passed.'' @ newline) \<and> spinning w' = {}"
proof -
  let ?s = "demo_exact (library_settime demo_kernel demo_settod)"
  have "st_settime ?s = library_settime demo_kernel (st_settod ?s)" "2 * 1000 + 1 < (10000000 :: int)" "st_ncpus ?s = Some (int 2)" "st_mem ?s (int 2)" "\<forall>w. st_spawn ?s w"
    "\<forall>t \<in> spinning demo_start. t < next_thread demo_start" "settime_options [''-vx''] (0, 0) = (1, 1)" "(1 :: nat) < 2 ^ 31" "td_basename (st_tool ?s) ''settime'' = ''settime''"
    "spinning demo_start = {}"
    by (simp_all add: demo_exact_def demo_start_def)
  then show ?thesis
    using settime_main_passes [OF demo_working _ demo_prio, of "library_settime demo_kernel demo_settod" demo_kernel 2 demo_start "[''-vx'']" 1 1 "''settime''"] demo_start_room
    by auto
qed

lemma settime_main_detects_witness:
  "\<exists>w'. settime_main (demo_exact (\<lambda>ts w. (0, into tick w))) ''settime'' [] demo_start = Some (1, w')
    \<and> last (printed w') = (Stdout, ''settime failed.'' @ newline) \<and> spinning w' = {}"
proof -
  let ?s = "demo_exact (\<lambda>ts w. (0, into tick w))"
  have "idle ?s exact 1000" using tick_calm by (simp add: idle_def demo_exact_def)
  moreover have "2 * 1000 + 1 < (10000000 :: int)" "st_ncpus ?s = Some (int 2)" "st_mem ?s (int 2)" "\<forall>w. st_spawn ?s w"
    "\<forall>t \<in> spinning demo_start. t < next_thread demo_start" "settime_options [] (0, 0) = (0, 0)" "(0 :: nat) < 2 ^ 31" "td_basename (st_tool ?s) ''settime'' = ''settime''"
    "spinning demo_start = {}" "(1000 :: int) \<le> 4000000"
    by (simp_all add: demo_exact_def demo_start_def)
  ultimately show ?thesis
    using settime_main_detects [OF demo_working _ _ demo_prio, of "\<lambda>ts w. (0, into tick w)" 2 demo_start "[]" 0 0 "''settime''"] demo_start_room
    by auto
qed

end
