(* ===== verification/Sdk_Version.thy ===== *)
theory Sdk_Version
  imports Tool_Base
begin

text \<open>
  What is compiled at all: \<open>include/_macports_extras/sdkversion.h\<close>, which finds the version of the SDK, \<open>include/MacportsLegacySupport.h\<close>,
  which derives the feature flags from it and from the version of the target system, and \<open>manual_tests/checksdkversion.c\<close>, which
  tests the former, with the wrappers \<open>AvailabilityMacros.h\<close>, \<open>Availability.h\<close>, \<open>AvailabilityInternal.h\<close> and \<open>available.h\<close>.
  The state of the preprocessor is a map from macros to what they are defined as; a definition is expanded where it is used.  The headers of the SDK are parameters; \<open>None\<close> is an \<open>#error\<close> or a signed overflow.
\<close>

section \<open>Macros\<close>

datatype macro =
  APPLE | LP64 | I386 | PPC | PPC64 | GNUC | GNUC_MINOR | ENVIRONMENT_MIN_REQUIRED | MPLS_TARGET_OSVER | MPLS_SDK_MAJOR
| LEGACY_MIN_EARLY_SDK_ALLOWED | MPLS_MIN_SDK_ALLOWED | VERSION_MAX_ALLOWED | VERSION_MIN_REQUIRED | NEED_MIN_REQUIRED_FIXUP
| POSIX_C_SOURCE | XOPEN_SOURCE | DARWIN_C_SOURCE | SDK11_BLOCKS_VERSION_MACROS | DARWIN_C_UNDEF | SDKVERSION_H
| TARGET_OS_OSX | TARGET_OS_OSX_UNDEF | TARGETCONDITIONALS | HAS_INCLUDE | HAS_BUILTIN | AVAILABILITY_H | AVAILABILITY_INTERNAL_H
| DUMMY_HAS_INCLUDE_AVAIL | DUMMY_HAS_BUILTIN_AVAIL | DUMMY_HAS_INCLUDE_AVAIL_INT | DUMMY_HAS_BUILTIN_AVAIL_INT
| INTERNAL_MIN_REQUIRED | INTERNAL_MAX_ALLOWED | MAC_OS_VERSION nat nat

datatype token = Num int | Use macro | Empty

type_synonym macros = "macro \<Rightarrow> token option"

definition defined :: "macros \<Rightarrow> macro \<Rightarrow> bool" where "defined m x \<longleftrightarrow> m x \<noteq> None"

text \<open>The value in a condition: a macro that is not defined is zero.  No chain of macros here is longer than four.\<close>

fun expand :: "nat \<Rightarrow> macros \<Rightarrow> token \<Rightarrow> int" where
  "expand n m (Num k) = k"
| "expand n m Empty = 0"
| "expand 0 m (Use x) = 0"
| "expand (Suc n) m (Use x) = (case m x of None \<Rightarrow> 0 | Some t \<Rightarrow> expand n m t)"

definition macro_value :: "macros \<Rightarrow> macro \<Rightarrow> int" where "macro_value m x = expand 8 m (Use x)"

lemma macro_value_steps:
  "macro_value m x = (case m x of None \<Rightarrow> 0 | Some t \<Rightarrow> expand 7 m t)" "expand 7 m (Use x) = (case m x of None \<Rightarrow> 0 | Some t \<Rightarrow> expand 6 m t)"
  "expand 6 m (Use x) = (case m x of None \<Rightarrow> 0 | Some t \<Rightarrow> expand 5 m t)" "expand 5 m (Use x) = (case m x of None \<Rightarrow> 0 | Some t \<Rightarrow> expand 4 m t)"
  "expand 4 m (Use x) = (case m x of None \<Rightarrow> 0 | Some t \<Rightarrow> expand 3 m t)"
  using expand.simps(4) [of 7 m x] expand.simps(4) [of 6 m x] expand.simps(4) [of 5 m x] expand.simps(4) [of 4 m x] expand.simps(4) [of 3 m x]
  by (simp_all add: macro_value_def)

section \<open>AvailabilityMacros.h\<close>

text \<open>The wrapper of this name: \<open>include_next\<close> is the header of the SDK.\<close>

definition AvailabilityMacros :: "(macros \<Rightarrow> macros option) \<Rightarrow> macros \<Rightarrow> macros option" where
  "AvailabilityMacros include_next m =
     do { m \<leftarrow> include_next (if \<not> defined m TARGET_OS_OSX then m(TARGET_OS_OSX \<mapsto> Num 1, TARGET_OS_OSX_UNDEF \<mapsto> Empty) else m);
          m \<leftarrow> Some (if defined m TARGET_OS_OSX_UNDEF \<and> \<not> defined m TARGETCONDITIONALS then m(TARGET_OS_OSX := None) else m);
          Some (m(TARGET_OS_OSX_UNDEF := None)) }"

text \<open>What the wrapper defines for the header of the SDK is gone behind it.\<close>

lemma AvailabilityMacros_restores:
  assumes "AvailabilityMacros include_next m = Some m'" and "m TARGET_OS_OSX_UNDEF = None"
    and "\<forall>n n'. include_next n = Some n' \<longrightarrow> (\<forall>x \<in> {TARGET_OS_OSX, TARGET_OS_OSX_UNDEF, TARGETCONDITIONALS}. n' x = n x)"
  shows "m' TARGET_OS_OSX_UNDEF = None" and "m TARGETCONDITIONALS = None \<Longrightarrow> m' TARGET_OS_OSX = m TARGET_OS_OSX"
proof -
  define q where "q = (if \<not> defined m TARGET_OS_OSX then m(TARGET_OS_OSX \<mapsto> Num 1, TARGET_OS_OSX_UNDEF \<mapsto> Empty) else m)"
  obtain n where n: "include_next q = Some n" "m' = (if defined n TARGET_OS_OSX_UNDEF \<and> \<not> defined n TARGETCONDITIONALS then n(TARGET_OS_OSX := None) else n)(TARGET_OS_OSX_UNDEF := None)"
    using assms(1) by (auto simp: AvailabilityMacros_def q_def [symmetric] bind_eq_Some_conv)
  have "n TARGET_OS_OSX = q TARGET_OS_OSX" "n TARGET_OS_OSX_UNDEF = q TARGET_OS_OSX_UNDEF" "n TARGETCONDITIONALS = q TARGETCONDITIONALS"
    using assms(3) n(1) by auto
  then show "m' TARGET_OS_OSX = m TARGET_OS_OSX" if "m TARGETCONDITIONALS = None"
    using n(2) that assms(2) by (auto simp: q_def defined_def)
  show "m' TARGET_OS_OSX_UNDEF = None" using n(2) by simp
qed

section \<open>sdkversion.h\<close>

definition min_sdk_allowed :: "macros \<Rightarrow> macros" where
  "min_sdk_allowed m =
     (if \<not> defined m LEGACY_MIN_EARLY_SDK_ALLOWED then m(MPLS_MIN_SDK_ALLOWED \<mapsto> Num 999999)
      else if macro_value m LEGACY_MIN_EARLY_SDK_ALLOWED < 1000 then m(MPLS_MIN_SDK_ALLOWED \<mapsto> Num 1000)
      else m(MPLS_MIN_SDK_ALLOWED \<mapsto> Use LEGACY_MIN_EARLY_SDK_ALLOWED))"

text \<open>An SDK from 11.0 on defines no version macros where this holds.\<close>

definition blocks_version_macros :: "macros \<Rightarrow> bool" where
  "blocks_version_macros m \<longleftrightarrow> \<not> ((\<not> defined m POSIX_C_SOURCE \<and> \<not> defined m XOPEN_SOURCE) \<or> defined m DARWIN_C_SOURCE)"

definition fake_min_required :: "macros \<Rightarrow> macros" where
  "fake_min_required m =
     (if defined m ENVIRONMENT_MIN_REQUIRED \<and> macro_value m MPLS_MIN_SDK_ALLOWED < macro_value m ENVIRONMENT_MIN_REQUIRED
      then m(VERSION_MIN_REQUIRED \<mapsto> Use MPLS_MIN_SDK_ALLOWED, NEED_MIN_REQUIRED_FIXUP \<mapsto> Num 1) else m)"

definition force_darwin_source :: "macros \<Rightarrow> macros" where
  "force_darwin_source m =
     (if blocks_version_macros m
      then (let m = m(SDK11_BLOCKS_VERSION_MACROS \<mapsto> Empty)
            in if \<not> defined m DARWIN_C_SOURCE then m(DARWIN_C_SOURCE \<mapsto> Num 1, DARWIN_C_UNDEF \<mapsto> Empty) else m)
      else m)"

definition get_max_allowed :: "(macros \<Rightarrow> macros option) \<Rightarrow> macros \<Rightarrow> macros option" where
  "get_max_allowed include_next m =
     (if defined m VERSION_MAX_ALLOWED then Some m
      else do { m \<leftarrow> AvailabilityMacros include_next (force_darwin_source (fake_min_required m));
                Some (if defined m DARWIN_C_UNDEF then m(DARWIN_C_SOURCE := None, DARWIN_C_UNDEF := None) else m) })"

definition sdk_chain :: "int \<Rightarrow> int option" where
  "sdk_chain v =
     (if v < 1040 then None else if v < 1050 then Some 1040 else if v < 1060 then Some 1050 else if v < 1070 then Some 1060
      else if v < 1080 then Some 1070 else if v < 1090 then Some 1080 else if v < 101000 then Some 1090 else if v < 101100 then Some 101000
      else if v < 101200 then Some 101100 else if v < 101300 then Some 101200 else if v < 101400 then Some 101300 else if v < 101500 then Some 101400
      else if v < 110000 then Some 101500 else if v < 120000 then Some 110000 else if v < 130000 then Some 120000 else if v < 140000 then Some 130000
      else if v < 150000 then Some 140000 else if v < 160000 then Some 150000 else None)"

definition sdk_15_fix :: "macros \<Rightarrow> macros" where
  "sdk_15_fix m =
     (if macro_value m MPLS_SDK_MAJOR = 140000 \<and> defined m (MAC_OS_VERSION 15 0) then m(MPLS_SDK_MAJOR \<mapsto> Num 150000) else m)"

definition restore_min_required :: "macros \<Rightarrow> macros" where
  "restore_min_required m =
     (if defined m NEED_MIN_REQUIRED_FIXUP
      then (let m = m(VERSION_MIN_REQUIRED \<mapsto> (if defined m ENVIRONMENT_MIN_REQUIRED then Use ENVIRONMENT_MIN_REQUIRED else Num 1040));
                m = (if macro_value m VERSION_MAX_ALLOWED < macro_value m VERSION_MIN_REQUIRED
                     then m(VERSION_MAX_ALLOWED \<mapsto> Use VERSION_MIN_REQUIRED) else m)
            in m(NEED_MIN_REQUIRED_FIXUP := None))
      else m)"

definition version_macros :: "(nat \<times> nat) list" where
  "version_macros = [(11,0), (11,1), (11,3), (11,4), (11,5), (11,6), (12,0), (12,1), (12,2), (12,3), (12,4), (12,5), (12,6), (12,7), (13,0), (13,1), (13,1),
     (13,2), (13,3), (13,4), (13,5), (13,6), (14,0), (14,1), (14,2), (14,3), (14,4), (14,5), (15,0), (15,1), (15,2), (15,3), (15,4), (15,5)]"

definition undefine_version_macros :: "macros \<Rightarrow> macros" where
  "undefine_version_macros m =
     (if defined m SDK11_BLOCKS_VERSION_MACROS
      then (let m = (if macro_value m MPLS_SDK_MAJOR \<ge> 110000 then fold (\<lambda>(a, b) m. m(MAC_OS_VERSION a b := None)) version_macros m else m)
            in m(SDK11_BLOCKS_VERSION_MACROS := None))
      else m)"

definition sdkversion :: "(macros \<Rightarrow> macros option) \<Rightarrow> macros \<Rightarrow> macros option" where
  "sdkversion include_next m =
     (if defined m SDKVERSION_H then Some m
      else (let m = m(SDKVERSION_H \<mapsto> Empty)
            in if macro_value m APPLE \<noteq> 0
               then do { m \<leftarrow> get_max_allowed include_next (min_sdk_allowed m);
                         v \<leftarrow> sdk_chain (macro_value m VERSION_MAX_ALLOWED);
                         Some (undefine_version_macros (restore_min_required (sdk_15_fix (m(MPLS_SDK_MAJOR \<mapsto> Num v))))) }
               else Some (if defined m MPLS_SDK_MAJOR then m else m(MPLS_SDK_MAJOR \<mapsto> Num 999999))))"

section \<open>Availability.h, AvailabilityInternal.h and available.h\<close>

text \<open>\<open>tiger\<close> is the substitute for the 10.4 SDK, \<open>include_next\<close> the header of the SDK.\<close>

definition Availability :: "(macros \<Rightarrow> macros option) \<Rightarrow> (macros \<Rightarrow> macros option) \<Rightarrow> (macros \<Rightarrow> macros option) \<Rightarrow> macros \<Rightarrow> macros option" where
  "Availability tiger include_next sdk m =
     (if defined m AVAILABILITY_H then Some m
      else do { m \<leftarrow> sdkversion sdk (m(AVAILABILITY_H \<mapsto> Empty));
                m \<leftarrow> Some (if defined m MPLS_SDK_MAJOR \<and> macro_value m MPLS_SDK_MAJOR \<ge> 101400 \<and> \<not> defined m HAS_INCLUDE
                        then m(HAS_INCLUDE \<mapsto> Num 0, DUMMY_HAS_INCLUDE_AVAIL \<mapsto> Empty) else m);
                m \<leftarrow> Some (if defined m MPLS_SDK_MAJOR \<and> macro_value m MPLS_SDK_MAJOR \<ge> 140000 \<and> \<not> defined m HAS_BUILTIN
                        then m(HAS_BUILTIN \<mapsto> Num 0, DUMMY_HAS_BUILTIN_AVAIL \<mapsto> Empty) else m);
                m \<leftarrow> (if defined m MPLS_SDK_MAJOR \<and> macro_value m MPLS_SDK_MAJOR < 1050 then tiger m else include_next m);
                m \<leftarrow> Some (if defined m DUMMY_HAS_INCLUDE_AVAIL then m(HAS_INCLUDE := None, DUMMY_HAS_INCLUDE_AVAIL := None) else m);
                Some (if defined m DUMMY_HAS_BUILTIN_AVAIL then m(HAS_INCLUDE := None, DUMMY_HAS_BUILTIN_AVAIL := None) else m) })"

definition AvailabilityInternal :: "(macros \<Rightarrow> macros option) \<Rightarrow> (macros \<Rightarrow> macros option) \<Rightarrow> (macros \<Rightarrow> macros option) \<Rightarrow> macros \<Rightarrow> macros option" where
  "AvailabilityInternal tiger include_next sdk m =
     (if defined m AVAILABILITY_INTERNAL_H then Some m
      else do { m \<leftarrow> sdkversion sdk (m(AVAILABILITY_INTERNAL_H \<mapsto> Empty));
                m \<leftarrow> Some (if defined m MPLS_SDK_MAJOR \<and> macro_value m MPLS_SDK_MAJOR \<ge> 101400 \<and> \<not> defined m HAS_INCLUDE
                        then m(HAS_INCLUDE \<mapsto> Num 0, DUMMY_HAS_INCLUDE_AVAIL_INT \<mapsto> Empty) else m);
                m \<leftarrow> Some (if defined m MPLS_SDK_MAJOR \<and> macro_value m MPLS_SDK_MAJOR \<ge> 140000 \<and> \<not> defined m HAS_BUILTIN
                        then m(HAS_BUILTIN \<mapsto> Num 0, DUMMY_HAS_BUILTIN_AVAIL_INT \<mapsto> Empty) else m);
                m \<leftarrow> (if defined m MPLS_SDK_MAJOR \<and> macro_value m MPLS_SDK_MAJOR < 1050 then tiger m else include_next m);
                m \<leftarrow> Some (if defined m DUMMY_HAS_INCLUDE_AVAIL_INT then m(HAS_INCLUDE := None, DUMMY_HAS_INCLUDE_AVAIL_INT := None) else m);
                Some (if defined m DUMMY_HAS_BUILTIN_AVAIL_INT then m(HAS_INCLUDE := None, DUMMY_HAS_BUILTIN_AVAIL_INT := None) else m) })"

text \<open>\<open>INTERNAL_MIN_REQUIRED\<close> is the macro \<open>__MAC_OS_X_VERSION_MIN_REQUIRED\<close> with the leading underscores.\<close>

definition available :: "(macros \<Rightarrow> macros option) \<Rightarrow> (macros \<Rightarrow> macros option) \<Rightarrow> macros \<Rightarrow> macros option" where
  "available include_next sdk m =
     do { m \<leftarrow> sdkversion sdk m;
          m \<leftarrow> Some (if defined m INTERNAL_MIN_REQUIRED then m(INTERNAL_MIN_REQUIRED \<mapsto> Use VERSION_MIN_REQUIRED) else m);
          m \<leftarrow> Some (if defined m INTERNAL_MAX_ALLOWED then m(INTERNAL_MAX_ALLOWED \<mapsto> Use VERSION_MAX_ALLOWED) else m);
          include_next m }"

text \<open>Where the compiler has \<open>__has_builtin\<close>, both names are afterwards what they were.\<close>

lemma Availability_restores:
  assumes "m AVAILABILITY_H = None" and "sdkversion sdk (m(AVAILABILITY_H \<mapsto> Empty)) = Some n" and "n MPLS_SDK_MAJOR = Some (Num k)" and "1050 \<le> k"
    and "defined n HAS_BUILTIN" and "n DUMMY_HAS_INCLUDE_AVAIL = None" and "n DUMMY_HAS_BUILTIN_AVAIL = None"
  shows "\<exists>m'. Availability tiger Some sdk m = Some m' \<and> m' HAS_INCLUDE = n HAS_INCLUDE \<and> m' HAS_BUILTIN = n HAS_BUILTIN"
  using assms by (simp add: Availability_def defined_def macro_value_steps)

text \<open>
  The last directives are meant to remove the substitute of \<open>__has_builtin\<close>, and removes \<open>__has_include\<close>: with a
  compiler that has \<open>__has_include\<close> but not \<open>__has_builtin\<close>, over an SDK from 14.0 on, the former is lost and the latter stays zero.
\<close>

lemma Availability_loses_has_include:
  assumes "m AVAILABILITY_H = None" and "sdkversion sdk (m(AVAILABILITY_H \<mapsto> Empty)) = Some n" and "n MPLS_SDK_MAJOR = Some (Num k)" and "140000 \<le> k"
    and "defined n HAS_INCLUDE" and "n HAS_BUILTIN = None" and "n DUMMY_HAS_INCLUDE_AVAIL = None"
  shows "\<exists>m'. Availability tiger Some sdk m = Some m' \<and> m' HAS_INCLUDE = None \<and> m' HAS_BUILTIN = Some (Num 0)"
  using assms by (simp add: Availability_def defined_def macro_value_steps)

section \<open>MacportsLegacySupport.h\<close>

text \<open>The architecture and the target.\<close>

definition target_osver :: "macros \<Rightarrow> macros" where
  "target_osver m =
     (if defined m MPLS_TARGET_OSVER then m
      else m(MPLS_TARGET_OSVER \<mapsto>
        (if macro_value m APPLE \<noteq> 0 then (if defined m ENVIRONMENT_MIN_REQUIRED then Use ENVIRONMENT_MIN_REQUIRED else Num 1040) else Num 999999)))"

definition MPLS_64BIT :: "macros \<Rightarrow> bool" where "MPLS_64BIT m \<longleftrightarrow> defined m LP64 \<and> macro_value m LP64 \<noteq> 0"
definition MPLS_APPLE_I386 :: "macros \<Rightarrow> bool" where "MPLS_APPLE_I386 m \<longleftrightarrow> defined m I386 \<and> macro_value m APPLE \<noteq> 0"
definition MPLS_APPLE_PPC :: "macros \<Rightarrow> bool" where "MPLS_APPLE_PPC m \<longleftrightarrow> defined m PPC \<and> macro_value m APPLE \<noteq> 0"
definition MPLS_APPLE_PPC64 :: "macros \<Rightarrow> bool" where "MPLS_APPLE_PPC64 m \<longleftrightarrow> defined m PPC64 \<and> macro_value m APPLE \<noteq> 0"

text \<open>The features with a flag for the SDK and one for the library, each a comparison with a version; the library supplies the number of
  pages on every 32-bit target besides.\<close>

datatype feature =
  FSGETPATH | SETATTRLISTAT | UTIMENSAT | APPROX_TIME | CONTINUOUS_TIME | GETTIME | TIMESPEC_GET | ATCALLS | STPNCPY | STRNLEN | STRNDUP | DPRINTF
| GETLINE | MEMMEM | WCSDUP | WCSNLEN | WCPCPY | WCSCASECMP | ARC4RANDOM | GETENTROPY | POSIX_MEMALIGN | FXETATTRLIST | LCHMOD | LUTIMES
| SYSCONF_NPROCESSORS | SYSCONF_PHYS_PAGES | SINCOS | FFSL | FFSLL | FLS | FLSL | FLSLL | OPEN_MEMSTREAM | FMEMOPEN | PTHREAD_SETNAME_NP | STAT64 | COPYFILE_TIGER
| COPYFILE_10_6 | OS_UNFAIR_LOCK | CLONEFILE

fun sdk_before :: "feature \<Rightarrow> int" where
  "sdk_before FSGETPATH = 101300" | "sdk_before SETATTRLISTAT = 101300" | "sdk_before UTIMENSAT = 101300" | "sdk_before APPROX_TIME = 101000"
| "sdk_before CONTINUOUS_TIME = 101200" | "sdk_before GETTIME = 101200" | "sdk_before TIMESPEC_GET = 101500" | "sdk_before ATCALLS = 101000"
| "sdk_before STPNCPY = 1070" | "sdk_before STRNLEN = 1070" | "sdk_before STRNDUP = 1070" | "sdk_before DPRINTF = 1070" | "sdk_before GETLINE = 1070"
| "sdk_before MEMMEM = 1070" | "sdk_before WCSDUP = 1070" | "sdk_before WCSNLEN = 1070" | "sdk_before WCPCPY = 1070" | "sdk_before WCSCASECMP = 1070"
| "sdk_before ARC4RANDOM = 1070" | "sdk_before GETENTROPY = 101200" | "sdk_before POSIX_MEMALIGN = 1060" | "sdk_before FXETATTRLIST = 1060"
| "sdk_before LCHMOD = 1050" | "sdk_before LUTIMES = 1050" | "sdk_before SYSCONF_NPROCESSORS = 1050" | "sdk_before SYSCONF_PHYS_PAGES = 101100" | "sdk_before SINCOS = 1090" | "sdk_before FFSL = 1050"
| "sdk_before FFSLL = 1090" | "sdk_before FLS = 1050" | "sdk_before FLSL = 1050" | "sdk_before FLSLL = 1090" | "sdk_before OPEN_MEMSTREAM = 101300"
| "sdk_before FMEMOPEN = 101300" | "sdk_before PTHREAD_SETNAME_NP = 1060" | "sdk_before STAT64 = 1050" | "sdk_before COPYFILE_TIGER = 1050"
| "sdk_before COPYFILE_10_6 = 1060" | "sdk_before OS_UNFAIR_LOCK = 101200" | "sdk_before CLONEFILE = 101200"

fun lib_before :: "feature \<Rightarrow> int" where
  "lib_before FSGETPATH = 101300" | "lib_before SETATTRLISTAT = 101300" | "lib_before UTIMENSAT = 101300" | "lib_before APPROX_TIME = 101000"
| "lib_before CONTINUOUS_TIME = 101200" | "lib_before GETTIME = 101200" | "lib_before TIMESPEC_GET = 101500" | "lib_before ATCALLS = 101000"
| "lib_before STPNCPY = 1070" | "lib_before STRNLEN = 1070" | "lib_before STRNDUP = 1070" | "lib_before DPRINTF = 1070" | "lib_before GETLINE = 1070"
| "lib_before MEMMEM = 1070" | "lib_before WCSDUP = 1070" | "lib_before WCSNLEN = 1070" | "lib_before WCPCPY = 1070" | "lib_before WCSCASECMP = 1070"
| "lib_before ARC4RANDOM = 1070" | "lib_before GETENTROPY = 101200" | "lib_before POSIX_MEMALIGN = 1060" | "lib_before FXETATTRLIST = 1060"
| "lib_before LCHMOD = 1050" | "lib_before LUTIMES = 1050" | "lib_before SYSCONF_NPROCESSORS = 1050" | "lib_before SYSCONF_PHYS_PAGES = 101100" | "lib_before SINCOS = 1090" | "lib_before FFSL = 1050"
| "lib_before FFSLL = 1090" | "lib_before FLS = 1050" | "lib_before FLSL = 1050" | "lib_before FLSLL = 1090" | "lib_before OPEN_MEMSTREAM = 101300"
| "lib_before FMEMOPEN = 101300" | "lib_before PTHREAD_SETNAME_NP = 1060" | "lib_before STAT64 = 1050" | "lib_before COPYFILE_TIGER = 1050"
| "lib_before COPYFILE_10_6 = 1060" | "lib_before OS_UNFAIR_LOCK = 101200" | "lib_before CLONEFILE = 101200"

definition SDK_SUPPORT :: "feature \<Rightarrow> macros \<Rightarrow> bool" where "SDK_SUPPORT f m \<longleftrightarrow> macro_value m MPLS_SDK_MAJOR < sdk_before f"
definition LIB_SUPPORT :: "feature \<Rightarrow> macros \<Rightarrow> bool" where "LIB_SUPPORT f m \<longleftrightarrow>
  macro_value m MPLS_TARGET_OSVER < lib_before f \<or> f = SYSCONF_PHYS_PAGES \<and> \<not> MPLS_64BIT m"

text \<open>The features that are in the headers only.\<close>

datatype header_feature =
  NEW_SCANDIR | NETIF_SOCKET_FIX | CMSG_DATA_FIX | LLROUND | TIME_THREAD_SAFE_FUNCTIONS | SYS_AIO_TIGER_FIX | UUID | CoreFoundation

fun header_before :: "header_feature \<Rightarrow> int" where
  "header_before NEW_SCANDIR = 1080" | "header_before NETIF_SOCKET_FIX = 1090" | "header_before CMSG_DATA_FIX = 1060" | "header_before LLROUND = 1070"
| "header_before TIME_THREAD_SAFE_FUNCTIONS = 1050" | "header_before SYS_AIO_TIGER_FIX = 1050" | "header_before UUID = 1060"
| "header_before CoreFoundation = 1060"

definition SDK_HEADER :: "header_feature \<Rightarrow> macros \<Rightarrow> bool" where "SDK_HEADER f m \<longleftrightarrow> macro_value m MPLS_SDK_MAJOR < header_before f"
definition SDK_CMSG_NXTHDR_FIX :: "macros \<Rightarrow> bool" where "SDK_CMSG_NXTHDR_FIX m \<longleftrightarrow> macro_value m MPLS_SDK_MAJOR < 1050 \<and> MPLS_64BIT m"

text \<open>The flags with other conditions.\<close>

abbreviation osver :: "macros \<Rightarrow> int" where "osver m \<equiv> macro_value m MPLS_TARGET_OSVER"

definition LIB_FIX_64BIT_BOOTTIME :: "macros \<Rightarrow> bool" where "LIB_FIX_64BIT_BOOTTIME m \<longleftrightarrow> osver m < 1060 \<and> MPLS_64BIT m"
definition LIB_FIX_TIGER_PPC64 :: "macros \<Rightarrow> bool" where "LIB_FIX_TIGER_PPC64 m \<longleftrightarrow> osver m < 1050 \<and> MPLS_APPLE_PPC64 m"
definition LIB_CMSG_ROSETTA_FIX :: "macros \<Rightarrow> bool" where "LIB_CMSG_ROSETTA_FIX m \<longleftrightarrow> MPLS_APPLE_PPC m"
definition LIB_CMSG_FORMAT_FIX :: "macros \<Rightarrow> bool" where "LIB_CMSG_FORMAT_FIX m \<longleftrightarrow> osver m < 1060 \<and> MPLS_64BIT m"
definition LIB_REALPATH_ALLOC :: "macros \<Rightarrow> bool" where "LIB_REALPATH_ALLOC m \<longleftrightarrow> osver m < 1060"
definition LIB_REALPATH_NONEX_FIX :: "macros \<Rightarrow> bool" where "LIB_REALPATH_NONEX_FIX m \<longleftrightarrow> osver m \<ge> 1060 \<and> osver m < 1070 \<and> \<not> MPLS_64BIT m"
definition LIB_FIX_SETATTRLIST :: "macros \<Rightarrow> bool" where "LIB_FIX_SETATTRLIST m \<longleftrightarrow> osver m < 1080 \<and> osver m \<ge> 1050"
definition LIB_SYSCONF_WRAP :: "macros \<Rightarrow> bool" where "LIB_SYSCONF_WRAP m \<longleftrightarrow> LIB_SUPPORT SYSCONF_NPROCESSORS m \<or> LIB_SUPPORT SYSCONF_PHYS_PAGES m"
definition CXX11_CMATH :: "macros \<Rightarrow> bool" where
  "CXX11_CMATH m \<longleftrightarrow> osver m < 1070 \<and> defined m GNUC \<and> macro_value m GNUC \<le> 8
     \<and> (macro_value m GNUC > 4 \<or> macro_value m GNUC = 4 \<and> macro_value m GNUC_MINOR \<ge> 6)"
definition LIB_FIX_TIGER_ROSETTA :: "macros \<Rightarrow> bool" where "LIB_FIX_TIGER_ROSETTA m \<longleftrightarrow> osver m < 1050 \<and> MPLS_APPLE_PPC m"
definition SDK_ALLOW_PTHREAD_CHDIR :: "macros \<Rightarrow> bool" where "SDK_ALLOW_PTHREAD_CHDIR m \<longleftrightarrow> macro_value m MPLS_SDK_MAJOR \<ge> 1050"
definition LIB_PTHREAD_CHDIR :: "macros \<Rightarrow> bool" where "LIB_PTHREAD_CHDIR m \<longleftrightarrow> osver m < 101200 \<and> osver m \<ge> 1050"
definition LIB_DUMMY_PTHREAD_CHDIR :: "macros \<Rightarrow> bool" where "LIB_DUMMY_PTHREAD_CHDIR m \<longleftrightarrow> osver m < 1050"
definition LIB_NEED_BEST_FCHDIR :: "macros \<Rightarrow> bool" where "LIB_NEED_BEST_FCHDIR m \<longleftrightarrow> LIB_SUPPORT ATCALLS m \<or> LIB_SUPPORT SETATTRLISTAT m"
definition LIB_REALPATH_WRAP :: "macros \<Rightarrow> bool" where "LIB_REALPATH_WRAP m \<longleftrightarrow> LIB_REALPATH_ALLOC m \<or> LIB_REALPATH_NONEX_FIX m"
definition LIB_ATEXIT_WRAP :: "macros \<Rightarrow> bool" where "LIB_ATEXIT_WRAP m \<longleftrightarrow> osver m < 1070"
definition LIB_SYMBOL_bzero :: "macros \<Rightarrow> bool" where "LIB_SYMBOL_bzero m \<longleftrightarrow> osver m < 1060"
definition LIB_SYMBOL_dirfd :: "macros \<Rightarrow> bool" where "LIB_SYMBOL_dirfd m \<longleftrightarrow> osver m < 1080"
definition LIB_STACKSIZE_NP_FIX :: "macros \<Rightarrow> bool" where "LIB_STACKSIZE_NP_FIX m \<longleftrightarrow> osver m < 1060 \<or> osver m \<ge> 1090 \<and> osver m < 101100"

section \<open>checksdkversion.c\<close>

definition strtol10 :: "string \<Rightarrow> int \<times> string" where
  "strtol10 s =
     (let (neg, r) = sign_of (dropWhile isspace s); ds = takeWhile (\<lambda>ch. digit_value ch < 10) r; n = int (number 10 0 ds)
      in if ds = [] then (0, s) else (if neg then max (- (2 ^ 63)) (- n) else min (2 ^ 63 - 1) n, drop (length ds) r))"

text \<open>\<open>target\<close> is \<open>TARGET_OS\<close>; the product is computed in \<open>long\<close> and converted to \<open>int\<close>.\<close>

definition get_sdknum :: "int \<Rightarrow> string option \<Rightarrow> int option" where
  "get_sdknum target sdkver =
     (case sdkver of
        None \<Rightarrow> Some target
      | Some s \<Rightarrow>
          if s = [] then Some target
          else (let (major, r) = strtol10 s;
                    (minor, r) = (case r of ch # t \<Rightarrow> if ch = CHR ''.'' then strtol10 t else (0, r) | [] \<Rightarrow> (0, r))
                in if major < 10 \<or> major > 10 \<and> minor \<noteq> 0 then Some (-1)
                   else if r \<noteq> [] \<and> (major \<noteq> 10 \<or> minor \<noteq> 4 \<or> hd r \<noteq> CHR ''u'') then Some (-1)
                   else if major = 10 \<and> minor \<le> 9
                   then do { a \<leftarrow> s64 (major * 100); b \<leftarrow> s64 (minor * 10); n \<leftarrow> s64 (a + b); Some (to_int32 n) }
                   else do { a \<leftarrow> s64 (major * 10000); b \<leftarrow> s64 (minor * 100); n \<leftarrow> s64 (a + b); Some (to_int32 n) }))"

definition checksdk_main :: "macros \<Rightarrow> string option \<Rightarrow> 'x tool_scheme \<Rightarrow> (int \<times> 'x tool_scheme) option" where
  "checksdk_main m sdkver w =
     do { sdknum \<leftarrow> get_sdknum (if defined m ENVIRONMENT_MIN_REQUIRED then macro_value m ENVIRONMENT_MIN_REQUIRED else 1040) sdkver;
          if sdknum < 0
          then Some (20, say Stderr (''Bad SDK version: '' @ (case sdkver of None \<Rightarrow> ''???'' | Some s \<Rightarrow> s) @ newline) w)
          else (let sdkmajor = sdknum div 10 * 10;
                    w = say Stdout (''Testing SDK version '' @ (case sdkver of None \<Rightarrow> ''<default>'' | Some s \<Rightarrow> s) @ '','' @ (case sdkver of None \<Rightarrow> '' assumed'' | _ \<Rightarrow> [])
                          @ '' numeric = '' @ dec sdknum @ '', major = '' @ dec sdkmajor @ newline) w
                in Some (if \<not> defined m MPLS_SDK_MAJOR then (1, say Stdout (''  __MPLS_SDK_MAJOR is undefined'' @ newline) w)
                         else if macro_value m MPLS_SDK_MAJOR \<noteq> sdkmajor
                         then (2, say Stdout (''  __MPLS_SDK_MAJOR is '' @ dec (macro_value m MPLS_SDK_MAJOR) @ '', should be '' @ dec sdkmajor @ newline) w)
                         else (0, say Stdout (''  __MPLS_SDK_MAJOR is correctly '' @ dec sdkmajor @ newline) w))) }"

section \<open>The version of the SDK\<close>

text \<open>The version without the number of the update, for the versions there are.\<close>

definition major_of :: "int \<Rightarrow> int" where
  "major_of v = (if v < 101000 then v div 10 * 10 else if v < 110000 then v div 100 * 100 else v div 10000 * 10000)"

definition known :: "int \<Rightarrow> bool" where
  "known v \<longleftrightarrow> 1040 \<le> v \<and> v < 1100 \<or> 101000 \<le> v \<and> v < 101600 \<or> 110000 \<le> v \<and> v < 160000"

lemma sdk_chain_major: "known v \<Longrightarrow> sdk_chain v = Some (major_of v)"
  unfolding known_def sdk_chain_def major_of_def by (elim disjE conjE; simp split: if_splits; intro conjI impI; linarith)

text \<open>
  What the headers of an SDK of version \<open>v\<close> do, as \<open>sdkversion.h\<close> describes it: \<open>MIN_REQUIRED\<close>, if not given, is the target of the
  compiler or an old version, \<open>MAX_ALLOWED\<close> is \<open>v\<close>, by number or by a version macro, unless \<open>MIN_REQUIRED\<close> is later; \<open>ms\<close> are the
  version macros of the SDK, from 11.0 on.
\<close>

definition with_versions :: "(nat \<times> nat) set \<Rightarrow> macros \<Rightarrow> macros" where
  "with_versions ms m = (\<lambda>x. case x of MAC_OS_VERSION a b \<Rightarrow> if (a, b) \<in> ms then Some (Num (int a * 10000 + int b * 100)) else m x | _ \<Rightarrow> m x)"

definition min_given :: "macros \<Rightarrow> token \<Rightarrow> bool" where
  "min_given m d \<longleftrightarrow> (case m VERSION_MIN_REQUIRED of Some t \<Rightarrow> d = t | None \<Rightarrow>
     if defined m ENVIRONMENT_MIN_REQUIRED then d = Use ENVIRONMENT_MIN_REQUIRED else \<exists>k \<le> 1040. d = Num k)"

definition max_given :: "int \<Rightarrow> (nat \<times> nat) set \<Rightarrow> int \<Rightarrow> token \<Rightarrow> bool" where
  "max_given v ms low t \<longleftrightarrow> (if v < low then t = Use VERSION_MIN_REQUIRED
     else t = Num v \<or> (\<exists>a b. (a, b) \<in> ms \<and> t = Use (MAC_OS_VERSION a b) \<and> v = int a * 10000 + int b * 100))"

definition sdk_headers :: "int \<Rightarrow> (nat \<times> nat) set \<Rightarrow> (macros \<Rightarrow> macros option) \<Rightarrow> bool" where
  "sdk_headers v ms av \<longleftrightarrow> (\<forall>m. \<not> defined m VERSION_MAX_ALLOWED \<and> \<not> blocks_version_macros m \<longrightarrow>
     (\<exists>d t. min_given m d \<and> max_given v ms (macro_value (m(VERSION_MIN_REQUIRED \<mapsto> d)) VERSION_MIN_REQUIRED) t
        \<and> av m = Some (with_versions ms (m(VERSION_MIN_REQUIRED \<mapsto> d, VERSION_MAX_ALLOWED \<mapsto> t)))))"

text \<open>The macros before the header: those of the compiler are numbers, those of the header and of the SDK are not defined.\<close>

definition fresh_macros :: "macros \<Rightarrow> bool" where
  "fresh_macros m \<longleftrightarrow> m SDKVERSION_H = None \<and> m VERSION_MAX_ALLOWED = None \<and> m VERSION_MIN_REQUIRED = None \<and> m NEED_MIN_REQUIRED_FIXUP = None
     \<and> m SDK11_BLOCKS_VERSION_MACROS = None \<and> m DARWIN_C_UNDEF = None \<and> (\<forall>a b. m (MAC_OS_VERSION a b) = None)
     \<and> (\<exists>k. k \<noteq> 0 \<and> m APPLE = Some (Num k)) \<and> (defined m ENVIRONMENT_MIN_REQUIRED \<longrightarrow> (\<exists>k. m ENVIRONMENT_MIN_REQUIRED = Some (Num k)))
     \<and> (defined m LEGACY_MIN_EARLY_SDK_ALLOWED \<longrightarrow> (\<exists>k. m LEGACY_MIN_EARLY_SDK_ALLOWED = Some (Num k)))"

definition target_of :: "macros \<Rightarrow> int option" where
  "target_of m = (case m ENVIRONMENT_MIN_REQUIRED of Some (Num e) \<Rightarrow> Some e | _ \<Rightarrow> None)"

text \<open>The earliest SDK that is accepted for the target.\<close>

definition earliest :: "macros \<Rightarrow> int" where
  "earliest m = (case m LEGACY_MIN_EARLY_SDK_ALLOWED of Some (Num k) \<Rightarrow> max k 1000 | _ \<Rightarrow> 999999)"

definition hacked :: "macros \<Rightarrow> bool" where
  "hacked m \<longleftrightarrow> (case target_of m of None \<Rightarrow> False | Some e \<Rightarrow> earliest m < e)"

definition prepared :: "macros \<Rightarrow> macros" where
  "prepared m = force_darwin_source (fake_min_required (min_sdk_allowed (m(SDKVERSION_H \<mapsto> Empty))))"

lemma min_sdk_allowed_value:
  assumes "fresh_macros m"
  shows "macro_value (min_sdk_allowed (m(SDKVERSION_H \<mapsto> Empty))) MPLS_MIN_SDK_ALLOWED = earliest m"
    and "x \<noteq> SDKVERSION_H \<Longrightarrow> x \<noteq> MPLS_MIN_SDK_ALLOWED \<Longrightarrow> min_sdk_allowed (m(SDKVERSION_H \<mapsto> Empty)) x = m x"
    and "\<exists>t. min_sdk_allowed (m(SDKVERSION_H \<mapsto> Empty)) MPLS_MIN_SDK_ALLOWED = Some t \<and> (t = Num (earliest m) \<or> t = Use LEGACY_MIN_EARLY_SDK_ALLOWED \<and> m LEGACY_MIN_EARLY_SDK_ALLOWED = Some (Num (earliest m)))"
  using assms by (auto simp: fresh_macros_def min_sdk_allowed_def defined_def macro_value_steps earliest_def split: option.splits)

lemma prepared_macros:
  assumes "fresh_macros m"
  shows "prepared m VERSION_MAX_ALLOWED = None" "\<not> blocks_version_macros (prepared m)"
    "prepared m VERSION_MIN_REQUIRED = (if hacked m then Some (Use MPLS_MIN_SDK_ALLOWED) else None)"
    "prepared m NEED_MIN_REQUIRED_FIXUP = (if hacked m then Some (Num 1) else None)"
    "prepared m SDK11_BLOCKS_VERSION_MACROS = (if blocks_version_macros m then Some Empty else None)"
    "prepared m DARWIN_C_UNDEF = (if blocks_version_macros m then Some Empty else None)"
    "prepared m DARWIN_C_SOURCE = (if blocks_version_macros m then Some (Num 1) else m DARWIN_C_SOURCE)"
    "prepared m ENVIRONMENT_MIN_REQUIRED = m ENVIRONMENT_MIN_REQUIRED" "prepared m LEGACY_MIN_EARLY_SDK_ALLOWED = m LEGACY_MIN_EARLY_SDK_ALLOWED"
    "prepared m (MAC_OS_VERSION a b) = None" "prepared m APPLE = m APPLE" "prepared m MPLS_TARGET_OSVER = m MPLS_TARGET_OSVER"
    "\<exists>t. prepared m MPLS_MIN_SDK_ALLOWED = Some t \<and> (t = Num (earliest m) \<or> t = Use LEGACY_MIN_EARLY_SDK_ALLOWED \<and> m LEGACY_MIN_EARLY_SDK_ALLOWED = Some (Num (earliest m)))"
proof -
  define m1 where "m1 = min_sdk_allowed (m(SDKVERSION_H \<mapsto> Empty))"
  note a = min_sdk_allowed_value [OF assms, folded m1_def]
  have e: "defined m1 ENVIRONMENT_MIN_REQUIRED \<and> macro_value m1 MPLS_MIN_SDK_ALLOWED < macro_value m1 ENVIRONMENT_MIN_REQUIRED \<longleftrightarrow> hacked m"
    using assms a(1,2) by (auto simp: fresh_macros_def hacked_def target_of_def defined_def macro_value_steps split: option.splits token.splits)
  define m2 where "m2 = (if hacked m then m1(VERSION_MIN_REQUIRED \<mapsto> Use MPLS_MIN_SDK_ALLOWED, NEED_MIN_REQUIRED_FIXUP \<mapsto> Num 1) else m1)"
  have m2: "fake_min_required m1 = m2" using e by (simp add: fake_min_required_def m2_def)
  have b: "blocks_version_macros m2 = blocks_version_macros m" using a(2) by (simp add: blocks_version_macros_def m2_def defined_def)
  have p: "prepared m = (if blocks_version_macros m then m2(SDK11_BLOCKS_VERSION_MACROS \<mapsto> Empty, DARWIN_C_SOURCE \<mapsto> Num 1, DARWIN_C_UNDEF \<mapsto> Empty) else m2)"
    unfolding prepared_def m1_def [symmetric] m2 using b
    by (auto simp: force_darwin_source_def Let_def) (auto simp: blocks_version_macros_def defined_def)
  have c: "blocks_version_macros m \<Longrightarrow> m DARWIN_C_SOURCE = None" by (simp add: blocks_version_macros_def defined_def)
  show "\<not> blocks_version_macros (prepared m)" using b unfolding p by (auto simp: blocks_version_macros_def defined_def)
  show "prepared m VERSION_MAX_ALLOWED = None" "prepared m VERSION_MIN_REQUIRED = (if hacked m then Some (Use MPLS_MIN_SDK_ALLOWED) else None)"
    "prepared m NEED_MIN_REQUIRED_FIXUP = (if hacked m then Some (Num 1) else None)"
    "prepared m SDK11_BLOCKS_VERSION_MACROS = (if blocks_version_macros m then Some Empty else None)"
    "prepared m DARWIN_C_UNDEF = (if blocks_version_macros m then Some Empty else None)"
    "prepared m DARWIN_C_SOURCE = (if blocks_version_macros m then Some (Num 1) else m DARWIN_C_SOURCE)"
    "prepared m ENVIRONMENT_MIN_REQUIRED = m ENVIRONMENT_MIN_REQUIRED" "prepared m LEGACY_MIN_EARLY_SDK_ALLOWED = m LEGACY_MIN_EARLY_SDK_ALLOWED"
    "prepared m (MAC_OS_VERSION a b) = None" "prepared m APPLE = m APPLE" "prepared m MPLS_TARGET_OSVER = m MPLS_TARGET_OSVER"
    "\<exists>t. prepared m MPLS_MIN_SDK_ALLOWED = Some t \<and> (t = Num (earliest m) \<or> t = Use LEGACY_MIN_EARLY_SDK_ALLOWED \<and> m LEGACY_MIN_EARLY_SDK_ALLOWED = Some (Num (earliest m)))"
    using assms a(2,3) unfolding p m2_def fresh_macros_def by auto
qed

lemma with_versions_simps [simp]:
  "with_versions ms m (MAC_OS_VERSION a b) = (if (a, b) \<in> ms then Some (Num (int a * 10000 + int b * 100)) else m (MAC_OS_VERSION a b))"
  "(\<And>a b. x \<noteq> MAC_OS_VERSION a b) \<Longrightarrow> with_versions ms m x = m x"
  by (auto simp: with_versions_def split: macro.splits)

text \<open>The macros behind the inclusion: \<open>low\<close> is what \<open>AvailabilityMacros.h\<close> took as the target.\<close>

definition included :: "int \<Rightarrow> (nat \<times> nat) set \<Rightarrow> macros \<Rightarrow> int \<Rightarrow> macros \<Rightarrow> bool" where
  "included v ms m low m' \<longleftrightarrow>
     (if hacked m then low = earliest m else case target_of m of Some e \<Rightarrow> low = e | None \<Rightarrow> low \<le> 1040)
   \<and> (\<not> hacked m \<longrightarrow> m' VERSION_MIN_REQUIRED = Some (if target_of m = None then Num low else Use ENVIRONMENT_MIN_REQUIRED))
   \<and> (\<exists>t. m' VERSION_MAX_ALLOWED = Some t \<and> max_given v ms low t)
   \<and> (\<forall>a b. m' (MAC_OS_VERSION a b) = (if (a, b) \<in> ms then Some (Num (int a * 10000 + int b * 100)) else None))
   \<and> m' DARWIN_C_SOURCE = m DARWIN_C_SOURCE \<and> m' DARWIN_C_UNDEF = None \<and> m' ENVIRONMENT_MIN_REQUIRED = m ENVIRONMENT_MIN_REQUIRED
   \<and> m' NEED_MIN_REQUIRED_FIXUP = (if hacked m then Some (Num 1) else None)
   \<and> m' SDK11_BLOCKS_VERSION_MACROS = (if blocks_version_macros m then Some Empty else None)
   \<and> m' APPLE = m APPLE \<and> m' MPLS_TARGET_OSVER = m MPLS_TARGET_OSVER"

lemma get_max_allowed_included:
  assumes "fresh_macros m" and "sdk_headers v ms av"
  shows "\<exists>low m'. get_max_allowed av (min_sdk_allowed (m(SDKVERSION_H \<mapsto> Empty))) = Some m' \<and> included v ms m low m'"
proof -
  define q where "q = (if \<not> defined (prepared m) TARGET_OS_OSX then (prepared m)(TARGET_OS_OSX \<mapsto> Num 1, TARGET_OS_OSX_UNDEF \<mapsto> Empty) else prepared m)"
  have qs: "q x = prepared m x" if "x \<noteq> TARGET_OS_OSX" "x \<noteq> TARGET_OS_OSX_UNDEF" for x using that by (simp add: q_def)
  have qb: "\<not> blocks_version_macros q" using prepared_macros(2) [OF assms(1)] by (simp add: blocks_version_macros_def defined_def qs)
  have p: "q VERSION_MAX_ALLOWED = None" "\<not> blocks_version_macros (q)"
    "q VERSION_MIN_REQUIRED = (if hacked m then Some (Use MPLS_MIN_SDK_ALLOWED) else None)"
    "q NEED_MIN_REQUIRED_FIXUP = (if hacked m then Some (Num 1) else None)"
    "q SDK11_BLOCKS_VERSION_MACROS = (if blocks_version_macros m then Some Empty else None)"
    "q DARWIN_C_UNDEF = (if blocks_version_macros m then Some Empty else None)"
    "q DARWIN_C_SOURCE = (if blocks_version_macros m then Some (Num 1) else m DARWIN_C_SOURCE)"
    "q ENVIRONMENT_MIN_REQUIRED = m ENVIRONMENT_MIN_REQUIRED" "q LEGACY_MIN_EARLY_SDK_ALLOWED = m LEGACY_MIN_EARLY_SDK_ALLOWED"
    "q (MAC_OS_VERSION a b) = None" "q APPLE = m APPLE" "q MPLS_TARGET_OSVER = m MPLS_TARGET_OSVER"
    "\<exists>t. q MPLS_MIN_SDK_ALLOWED = Some t \<and> (t = Num (earliest m) \<or> t = Use LEGACY_MIN_EARLY_SDK_ALLOWED \<and> m LEGACY_MIN_EARLY_SDK_ALLOWED = Some (Num (earliest m)))"
    for a b using qb prepared_macros [OF assms(1)] by (simp_all add: qs)
  obtain d t where d: "min_given q d" "max_given v ms (macro_value (q(VERSION_MIN_REQUIRED \<mapsto> d)) VERSION_MIN_REQUIRED) t"
    "av q = Some (with_versions ms (q(VERSION_MIN_REQUIRED \<mapsto> d, VERSION_MAX_ALLOWED \<mapsto> t)))"
    using assms(2) p(1) qb unfolding sdk_headers_def defined_def by blast
  define low where "low = macro_value (q(VERSION_MIN_REQUIRED \<mapsto> d)) VERSION_MIN_REQUIRED"
  define n where "n = (let n = with_versions ms (q(VERSION_MIN_REQUIRED \<mapsto> d, VERSION_MAX_ALLOWED \<mapsto> t))
     in (if defined n TARGET_OS_OSX_UNDEF \<and> \<not> defined n TARGETCONDITIONALS then n(TARGET_OS_OSX := None) else n)(TARGET_OS_OSX_UNDEF := None))"
  have ns: "n x = with_versions ms (q(VERSION_MIN_REQUIRED \<mapsto> d, VERSION_MAX_ALLOWED \<mapsto> t)) x" if "x \<noteq> TARGET_OS_OSX" "x \<noteq> TARGET_OS_OSX_UNDEF" for x
    using that by (simp add: n_def Let_def)
  define m' where "m' = (if blocks_version_macros m then n(DARWIN_C_SOURCE := None, DARWIN_C_UNDEF := None) else n)"
  have un: "min_sdk_allowed (m(SDKVERSION_H \<mapsto> Empty)) VERSION_MAX_ALLOWED = None" using min_sdk_allowed_value(2) [OF assms(1)] assms(1) by (simp add: fresh_macros_def)
  have "AvailabilityMacros av (prepared m) = Some n" using d(3) by (simp add: AvailabilityMacros_def q_def [symmetric] n_def Let_def)
  then have g: "get_max_allowed av (min_sdk_allowed (m(SDKVERSION_H \<mapsto> Empty))) = Some m'"
    using un p(6) ns [of DARWIN_C_UNDEF] by (auto simp: get_max_allowed_def defined_def prepared_def m'_def)
  have dd: "if hacked m then d = Use MPLS_MIN_SDK_ALLOWED else case target_of m of Some e \<Rightarrow> d = Use ENVIRONMENT_MIN_REQUIRED | None \<Rightarrow> \<exists>k \<le> 1040. d = Num k"
    using d(1) p(3,8) assms(1) by (auto simp: min_given_def target_of_def fresh_macros_def defined_def split: if_splits option.splits)
  have lo: "if hacked m then low = earliest m else case target_of m of Some e \<Rightarrow> low = e | None \<Rightarrow> low \<le> 1040 \<and> d = Num low"
    using dd p(8,9,13) by (auto simp: low_def macro_value_steps target_of_def split: if_splits option.splits token.splits)
  have x: "m' VERSION_MAX_ALLOWED = Some t" "m' VERSION_MIN_REQUIRED = Some d" "m' DARWIN_C_UNDEF = None" "m' DARWIN_C_SOURCE = m DARWIN_C_SOURCE"
    "\<And>a b. m' (MAC_OS_VERSION a b) = (if (a, b) \<in> ms then Some (Num (int a * 10000 + int b * 100)) else None)"
    "m' ENVIRONMENT_MIN_REQUIRED = m ENVIRONMENT_MIN_REQUIRED" "m' NEED_MIN_REQUIRED_FIXUP = (if hacked m then Some (Num 1) else None)"
    "m' SDK11_BLOCKS_VERSION_MACROS = (if blocks_version_macros m then Some Empty else None)"
    "m' APPLE = m APPLE" "m' MPLS_TARGET_OSVER = m MPLS_TARGET_OSVER"
    using p by (auto simp: m'_def ns blocks_version_macros_def defined_def)
  have "if hacked m then low = earliest m else case target_of m of Some e \<Rightarrow> low = e | None \<Rightarrow> low \<le> 1040"
    using lo by (auto split: option.splits)
  moreover have "\<not> hacked m \<longrightarrow> d = (if target_of m = None then Num low else Use ENVIRONMENT_MIN_REQUIRED)"
    using lo dd by (auto split: option.splits)
  moreover have "max_given v ms low t" using d(2) by (simp add: low_def)
  ultimately have "included v ms m low m'" unfolding included_def using x by (intro conjI) (simp_all del: split_paired_Ex)
  then show ?thesis using g by blast
qed

lemma fold_undefine:
  "fold (\<lambda>(a, b) m. m(MAC_OS_VERSION a b := None)) xs m (MAC_OS_VERSION a b) = (if (a, b) \<in> set xs then None else m (MAC_OS_VERSION a b))"
  by (induction xs arbitrary: m) (auto simp: fun_upd_apply split: prod.split)

lemma fold_undefine_other:
  assumes "\<And>a b. x \<noteq> MAC_OS_VERSION a b"
  shows "fold (\<lambda>(a, b) m. m(MAC_OS_VERSION a b := None)) xs m x = m x"
  using assms by (induction xs arbitrary: m) (auto simp: fun_upd_apply split: prod.split)

lemma sdk_15_fix_same: "x \<noteq> MPLS_SDK_MAJOR \<Longrightarrow> sdk_15_fix m x = m x"
  by (simp add: sdk_15_fix_def)

lemma sdk_15_fix_value:
  assumes "m MPLS_SDK_MAJOR = Some (Num k)"
  shows "sdk_15_fix m MPLS_SDK_MAJOR = Some (Num (if k = 140000 \<and> defined m (MAC_OS_VERSION 15 0) then 150000 else k))"
  using assms by (auto simp: sdk_15_fix_def macro_value_steps)

text \<open>The value of the two macros of the SDK depends only on what they are chained to.\<close>

lemma max_value:
  assumes "m VERSION_MAX_ALLOWED = Some t" and "max_given v ms low t" and "low \<le> v" and "\<forall>a b. (a, b) \<in> ms \<longrightarrow> m (MAC_OS_VERSION a b) = Some (Num (int a * 10000 + int b * 100))"
  shows "macro_value m VERSION_MAX_ALLOWED = v"
  using assms by (auto simp: max_given_def macro_value_steps)

lemma restore_min_required_restores:
  assumes "included v ms m low m'" and "fresh_macros m" and "low \<le> v"
  shows "case target_of m of Some e \<Rightarrow> macro_value (restore_min_required m') VERSION_MIN_REQUIRED = e \<and> macro_value (restore_min_required m') VERSION_MAX_ALLOWED = max v e
      | None \<Rightarrow> macro_value (restore_min_required m') VERSION_MIN_REQUIRED \<le> 1040 \<and> macro_value (restore_min_required m') VERSION_MAX_ALLOWED = v"
    and "restore_min_required m' NEED_MIN_REQUIRED_FIXUP = None"
    and "x \<noteq> VERSION_MIN_REQUIRED \<Longrightarrow> x \<noteq> VERSION_MAX_ALLOWED \<Longrightarrow> x \<noteq> NEED_MIN_REQUIRED_FIXUP \<Longrightarrow> restore_min_required m' x = m' x"
    and "\<exists>k \<le> 1040. restore_min_required m' VERSION_MIN_REQUIRED = Some (if target_of m = None then Num k else Use ENVIRONMENT_MIN_REQUIRED)"
proof -
  note i = assms(1) [unfolded included_def]
  obtain t where t: "m' VERSION_MAX_ALLOWED = Some t" "max_given v ms low t" using i by blast
  show "restore_min_required m' NEED_MIN_REQUIRED_FIXUP = None" using i by (auto simp: restore_min_required_def defined_def Let_def)
  have h: "hacked m \<Longrightarrow> target_of m \<noteq> None" "hacked m \<Longrightarrow> m ENVIRONMENT_MIN_REQUIRED \<noteq> None"
    by (auto simp: hacked_def target_of_def split: option.splits)
  show "\<exists>k \<le> 1040. restore_min_required m' VERSION_MIN_REQUIRED = Some (if target_of m = None then Num k else Use ENVIRONMENT_MIN_REQUIRED)"
  proof (cases "hacked m")
    case True
    then show ?thesis using i h by (auto simp: restore_min_required_def defined_def Let_def)
  next
    case False
    then have "restore_min_required m' = m'" using i by (simp add: restore_min_required_def defined_def)
    then show ?thesis using i False by (cases "target_of m") auto
  qed
  show "restore_min_required m' x = m' x" if "x \<noteq> VERSION_MIN_REQUIRED" "x \<noteq> VERSION_MAX_ALLOWED" "x \<noteq> NEED_MIN_REQUIRED_FIXUP"
    using that by (simp add: restore_min_required_def Let_def)
  show "case target_of m of Some e \<Rightarrow> macro_value (restore_min_required m') VERSION_MIN_REQUIRED = e \<and> macro_value (restore_min_required m') VERSION_MAX_ALLOWED = max v e
      | None \<Rightarrow> macro_value (restore_min_required m') VERSION_MIN_REQUIRED \<le> 1040 \<and> macro_value (restore_min_required m') VERSION_MAX_ALLOWED = v"
  proof (cases "hacked m")
    case False
    then have "restore_min_required m' = m'" using i by (simp add: restore_min_required_def defined_def)
    moreover have "macro_value m' VERSION_MAX_ALLOWED = v" by (rule max_value [of m' t v ms low, OF t assms(3)]) (use i in simp)
    moreover have "case target_of m of Some e \<Rightarrow> macro_value m' VERSION_MIN_REQUIRED = e \<and> e \<le> v | None \<Rightarrow> macro_value m' VERSION_MIN_REQUIRED \<le> 1040"
      using i False assms(3) by (auto simp: macro_value_steps target_of_def split: option.splits token.splits)
    ultimately show ?thesis by (auto split: option.splits)
  next
    case True
    then obtain e where e: "target_of m = Some e" "m ENVIRONMENT_MIN_REQUIRED = Some (Num e)" by (auto simp: hacked_def target_of_def split: option.splits token.splits)
    define n where "n = m'(VERSION_MIN_REQUIRED \<mapsto> Use ENVIRONMENT_MIN_REQUIRED)"
    have n: "macro_value n VERSION_MIN_REQUIRED = e" using e i by (simp add: n_def macro_value_steps)
    have v: "macro_value n VERSION_MAX_ALLOWED = v" using i t assms(3) by (intro max_value [of n t v ms low]) (auto simp: n_def)
    have r: "restore_min_required m' = (if v < e then n(VERSION_MAX_ALLOWED \<mapsto> Use VERSION_MIN_REQUIRED) else n)(NEED_MIN_REQUIRED_FIXUP := None)"
      using True i e n v by (simp add: restore_min_required_def defined_def n_def [symmetric] Let_def)
    have "macro_value (restore_min_required m') VERSION_MIN_REQUIRED = e" using e i unfolding r by (simp add: n_def macro_value_steps)
    moreover have "macro_value (restore_min_required m') VERSION_MAX_ALLOWED = max v e"
    proof (cases "v < e")
      case True
      then show ?thesis using e i unfolding r by (simp add: n_def macro_value_steps)
    next
      case False
      then have "macro_value (restore_min_required m') VERSION_MAX_ALLOWED = v"
        using i t assms(3) unfolding r by (intro max_value [of _ t v ms low]) (auto simp: n_def)
      then show ?thesis using False by simp
    qed
    ultimately show ?thesis using e by simp
  qed
qed

lemma sdkversion_macros:
  assumes "fresh_macros m" and "sdk_headers v ms av" and "known v"
    and "if hacked m then earliest m \<le> v else case target_of m of Some e \<Rightarrow> e \<le> v | None \<Rightarrow> True"
  shows "\<exists>m'. sdkversion av m = Some m' \<and> macro_value m' MPLS_SDK_MAJOR = (if major_of v = 140000 \<and> (15, 0) \<in> ms then 150000 else major_of v)
    \<and> (case target_of m of Some e \<Rightarrow> macro_value m' VERSION_MIN_REQUIRED = e | None \<Rightarrow> macro_value m' VERSION_MIN_REQUIRED \<le> 1040)
    \<and> m' DARWIN_C_SOURCE = m DARWIN_C_SOURCE \<and> m' DARWIN_C_UNDEF = None \<and> m' NEED_MIN_REQUIRED_FIXUP = None \<and> m' SDK11_BLOCKS_VERSION_MACROS = None
    \<and> (\<not> blocks_version_macros m \<longrightarrow> macro_value m' VERSION_MAX_ALLOWED = (case target_of m of Some e \<Rightarrow> max v e | None \<Rightarrow> v))
    \<and> (blocks_version_macros m \<and> 110000 \<le> v \<and> ms \<subseteq> set version_macros \<longrightarrow> (\<forall>a b. m' (MAC_OS_VERSION a b) = None))
    \<and> m' APPLE = m APPLE \<and> m' MPLS_TARGET_OSVER = m MPLS_TARGET_OSVER \<and> m' ENVIRONMENT_MIN_REQUIRED = m ENVIRONMENT_MIN_REQUIRED
    \<and> m' MPLS_SDK_MAJOR = Some (Num (if major_of v = 140000 \<and> (15, 0) \<in> ms then 150000 else major_of v))"
proof -
  obtain low n where n: "get_max_allowed av (min_sdk_allowed (m(SDKVERSION_H \<mapsto> Empty))) = Some n" "included v ms m low n"
    using get_max_allowed_included [OF assms(1,2)] by blast
  note i = n(2) [unfolded included_def]
  have lo: "low \<le> v" using i assms(3,4) by (auto simp: known_def split: if_splits option.splits)
  let ?n = "sdk_15_fix (n(MPLS_SDK_MAJOR \<mapsto> Num (major_of v)))"
  let ?k = "if major_of v = 140000 \<and> (15, 0) \<in> ms then 150000 else major_of v"
  have k: "?n MPLS_SDK_MAJOR = Some (Num ?k)" using sdk_15_fix_value [of "n(MPLS_SDK_MAJOR \<mapsto> Num (major_of v))" "major_of v"] i by (simp add: defined_def)
  have same: "?n x = n x" if "x \<noteq> MPLS_SDK_MAJOR" for x using that sdk_15_fix_same [of x] by simp
  have "included v ms m low ?n"
    using i same unfolding included_def by simp
  note r = restore_min_required_restores [OF this assms(1) lo]
  let ?r = "restore_min_required ?n"
  have rk: "macro_value ?r MPLS_SDK_MAJOR = ?k" "?r SDK11_BLOCKS_VERSION_MACROS = (if blocks_version_macros m then Some Empty else None)"
    using k r(3) same i by (simp_all add: macro_value_steps)
  have mx: "macro_value n VERSION_MAX_ALLOWED = v" using i lo by (auto intro: max_value)
  have sv: "sdkversion av m = Some (undefine_version_macros ?r)"
    using n(1) mx sdk_chain_major [OF assms(3)] assms(1) by (auto simp: sdkversion_def fresh_macros_def defined_def macro_value_steps Let_def)
  define u where "u = undefine_version_macros ?r"
  have u: "u x = ?r x" if "\<And>a b. x \<noteq> MAC_OS_VERSION a b" "x \<noteq> SDK11_BLOCKS_VERSION_MACROS" for x
    using that by (simp add: u_def undefine_version_macros_def fold_undefine_other Let_def)
  have ub: "u SDK11_BLOCKS_VERSION_MACROS = None" using rk(2) by (auto simp: u_def undefine_version_macros_def defined_def Let_def)
  have vm: "macro_value u VERSION_MAX_ALLOWED = (case target_of m of Some e \<Rightarrow> max v e | None \<Rightarrow> v)" if "\<not> blocks_version_macros m"
  proof -
    have "u = ?r" using rk(2) that by (simp add: u_def undefine_version_macros_def defined_def)
    then show ?thesis using r(1) by (auto split: option.splits)
  qed
  have un: "u (MAC_OS_VERSION a b) = None" if h: "blocks_version_macros m" "110000 \<le> v" "ms \<subseteq> set version_macros" for a b
  proof -
    have "?k \<ge> 110000" using h(2) assms(3) by (auto simp: major_of_def known_def)
    then have "u (MAC_OS_VERSION a b) = (if (a, b) \<in> set version_macros then None else ?r (MAC_OS_VERSION a b))"
      using rk h(1) by (simp add: u_def undefine_version_macros_def defined_def Let_def fold_undefine)
    moreover have "?r (MAC_OS_VERSION a b) = n (MAC_OS_VERSION a b)" using r(3) same by simp
    ultimately show ?thesis using i h(3) by auto
  qed
  have mn: "case target_of m of Some e \<Rightarrow> macro_value u VERSION_MIN_REQUIRED = e | None \<Rightarrow> macro_value u VERSION_MIN_REQUIRED \<le> 1040"
  proof -
    obtain k where "k \<le> 1040" "u VERSION_MIN_REQUIRED = Some (if target_of m = None then Num k else Use ENVIRONMENT_MIN_REQUIRED)"
      using r(4) u by auto
    moreover have "u ENVIRONMENT_MIN_REQUIRED = m ENVIRONMENT_MIN_REQUIRED" using u r(3) same i by simp
    ultimately show ?thesis by (auto simp: macro_value_steps target_of_def split: option.splits token.splits)
  qed
  have "macro_value u MPLS_SDK_MAJOR = ?k" using rk(1) k r(3) u by (simp add: macro_value_steps)
  moreover have "u DARWIN_C_SOURCE = m DARWIN_C_SOURCE" "u DARWIN_C_UNDEF = None" "u NEED_MIN_REQUIRED_FIXUP = None"
    "u APPLE = m APPLE" "u MPLS_TARGET_OSVER = m MPLS_TARGET_OSVER" "u ENVIRONMENT_MIN_REQUIRED = m ENVIRONMENT_MIN_REQUIRED" "u MPLS_SDK_MAJOR = Some (Num ?k)"
    using u r(2,3) same i k by (simp_all add: defined_def)
  ultimately show ?thesis using sv mn vm un ub unfolding u_def [symmetric] by blast
qed

text \<open>C33: the version of the SDK.  Over the headers of an SDK that is not older than the target, or not older than what
  \<open>_MACPORTS_LEGACY_MIN_EARLY_SDK_ALLOWED\<close> allows, \<open>sdkversion.h\<close> finds the SDK's version, also where it has to hide the target from
  \<open>AvailabilityMacros.h\<close>, and leaves the macros as an ordinary inclusion would: the target and the later of both versions, no auxiliary
  macro, \<open>_DARWIN_C_SOURCE\<close> as it was, and no version macro where an SDK from 11.0 on would have defined none.\<close>

theorem sdkversion_detects:
  assumes "fresh_macros m" and "sdk_headers v ms av" and "known v"
    and "if hacked m then earliest m \<le> v else case target_of m of Some e \<Rightarrow> e \<le> v | None \<Rightarrow> True"
  shows "\<exists>m'. sdkversion av m = Some m' \<and> macro_value m' MPLS_SDK_MAJOR = (if major_of v = 140000 \<and> (15, 0) \<in> ms then 150000 else major_of v)
    \<and> (case target_of m of Some e \<Rightarrow> macro_value m' VERSION_MIN_REQUIRED = e | None \<Rightarrow> macro_value m' VERSION_MIN_REQUIRED \<le> 1040)
    \<and> m' DARWIN_C_SOURCE = m DARWIN_C_SOURCE \<and> m' DARWIN_C_UNDEF = None \<and> m' NEED_MIN_REQUIRED_FIXUP = None \<and> m' SDK11_BLOCKS_VERSION_MACROS = None
    \<and> (\<not> blocks_version_macros m \<longrightarrow> macro_value m' VERSION_MAX_ALLOWED = (case target_of m of Some e \<Rightarrow> max v e | None \<Rightarrow> v))
    \<and> (blocks_version_macros m \<and> 110000 \<le> v \<and> ms \<subseteq> set version_macros \<longrightarrow> (\<forall>a b. m' (MAC_OS_VERSION a b) = None))"
  using sdkversion_macros [OF assms] by blast

text \<open>An SDK: its \<open>AvailabilityMacros.h\<close> with the version as a number.\<close>

definition min_token :: "macros \<Rightarrow> token" where
  "min_token m = (case m VERSION_MIN_REQUIRED of Some t \<Rightarrow> t | None \<Rightarrow> if defined m ENVIRONMENT_MIN_REQUIRED then Use ENVIRONMENT_MIN_REQUIRED else Num 1010)"

definition max_token :: "int \<Rightarrow> macros \<Rightarrow> token" where
  "max_token v m = (if v < macro_value (m(VERSION_MIN_REQUIRED \<mapsto> min_token m)) VERSION_MIN_REQUIRED then Use VERSION_MIN_REQUIRED else Num v)"

definition headers_of :: "int \<Rightarrow> (nat \<times> nat) set \<Rightarrow> macros \<Rightarrow> macros option" where
  "headers_of v ms m = Some (with_versions ms (m(VERSION_MIN_REQUIRED \<mapsto> min_token m, VERSION_MAX_ALLOWED \<mapsto> max_token v m)))"

lemma headers_of_ok: "sdk_headers v ms (headers_of v ms)"
proof -
  have "min_given m (min_token m)" for m by (auto simp: min_given_def min_token_def split: option.splits)
  moreover have "max_given v ms (macro_value (m(VERSION_MIN_REQUIRED \<mapsto> min_token m)) VERSION_MIN_REQUIRED) (max_token v m)" for m
    by (simp add: max_given_def max_token_def)
  ultimately show ?thesis unfolding sdk_headers_def headers_of_def by blast
qed

text \<open>A compiler for 12.0, which allows SDKs from 10.4 on.\<close>

definition for_12_0 :: macros where
  "for_12_0 = [APPLE \<mapsto> Num 1, LP64 \<mapsto> Num 1, POSIX_C_SOURCE \<mapsto> Num 200809, ENVIRONMENT_MIN_REQUIRED \<mapsto> Num 120000, LEGACY_MIN_EARLY_SDK_ALLOWED \<mapsto> Num 1040]"

lemma for_12_0_ok: "fresh_macros for_12_0" "hacked for_12_0" "earliest for_12_0 = 1040" "target_of for_12_0 = Some 120000" "blocks_version_macros for_12_0"
  by (auto simp: for_12_0_def fresh_macros_def hacked_def earliest_def target_of_def defined_def blocks_version_macros_def)

theorem sdkversion_detects_witness:
  "\<exists>m'. sdkversion (headers_of 110300 {(11, 0), (11, 1), (11, 3)}) for_12_0 = Some m' \<and> macro_value m' MPLS_SDK_MAJOR = 110000
     \<and> macro_value m' VERSION_MIN_REQUIRED = 120000 \<and> m' DARWIN_C_SOURCE = None \<and> m' (MAC_OS_VERSION 11 0) = None"
  using sdkversion_detects [OF for_12_0_ok(1) headers_of_ok, of 110300 "{(11, 0), (11, 1), (11, 3)}"]
  by (auto simp: for_12_0_ok known_def major_of_def version_macros_def for_12_0_def [THEN fun_cong])

section \<open>The feature flags\<close>

lemma thresholds: "sdk_before f \<in> {1050, 1060, 1070, 1090, 101000, 101100, 101200, 101300, 101500}"
  by (cases f) auto

lemma same_threshold: "lib_before f = sdk_before f"
  by (cases f) auto

lemma major_of_threshold: "known v \<Longrightarrow> major_of v < sdk_before f \<longleftrightarrow> v < sdk_before f"
proof (cases "v < 110000")
  case True
  assume "known v"
  then show ?thesis using thresholds [of f] True by (auto simp: known_def major_of_def)
next
  case False
  then have "11 \<le> v div 10000" using zdiv_mono1 [of 110000 v 10000] by simp
  then have "110000 \<le> v div 10000 * 10000" by simp
  then show ?thesis using thresholds [of f] False by (auto simp: major_of_def)
qed

text \<open>C38: a matched SDK.  Where the target and the SDK are of the same version of the system, whatever their updates, and the target is not
  overridden, the flag for the SDK and the flag for the library of every feature that has both agree: what the headers of the SDK lack is
  what the library supplies.  The one exception is the number of pages of \<open>sysconf\<close> on a 32-bit target from 10.11 on, which
  the headers have and the library supplies all the same.\<close>

theorem matched_sdk_agrees:
  assumes "fresh_macros m" and "sdk_headers v ms av" and "known v" and "target_of m = Some e" and "known e" and "major_of e = major_of v"
    and "if hacked m then earliest m \<le> v else e \<le> v" and "m MPLS_TARGET_OSVER = None"
  shows "\<exists>m'. sdkversion av m = Some m' \<and>
    (\<forall>f. if f = SYSCONF_PHYS_PAGES \<and> 101100 \<le> e \<and> \<not> MPLS_64BIT (target_osver m')
         then \<not> SDK_SUPPORT f (target_osver m') \<and> LIB_SUPPORT f (target_osver m')
         else SDK_SUPPORT f (target_osver m') \<longleftrightarrow> LIB_SUPPORT f (target_osver m'))"
proof -
  have lo: "if hacked m then earliest m \<le> v else case target_of m of Some e \<Rightarrow> e \<le> v | None \<Rightarrow> True" using assms(4,7) by simp
  obtain m' where m': "sdkversion av m = Some m'" "macro_value m' MPLS_SDK_MAJOR = (if major_of v = 140000 \<and> (15, 0) \<in> ms then 150000 else major_of v)"
    "m' APPLE = m APPLE" "m' MPLS_TARGET_OSVER = None" "m' ENVIRONMENT_MIN_REQUIRED = m ENVIRONMENT_MIN_REQUIRED" "\<exists>k. m' MPLS_SDK_MAJOR = Some (Num k)"
    using sdkversion_macros [OF assms(1-3) lo] assms(8) by auto
  have en: "m ENVIRONMENT_MIN_REQUIRED = Some (Num e)" using assms(4) by (auto simp: target_of_def split: option.splits token.splits)
  have os: "macro_value (target_osver m') MPLS_TARGET_OSVER = e"
    using m'(3-5) en assms(1) by (auto simp: target_osver_def defined_def fresh_macros_def macro_value_steps)
  have sdk: "macro_value (target_osver m') MPLS_SDK_MAJOR = macro_value m' MPLS_SDK_MAJOR"
    using m'(6) by (auto simp: target_osver_def macro_value_steps)
  have "if f = SYSCONF_PHYS_PAGES \<and> 101100 \<le> e \<and> \<not> MPLS_64BIT (target_osver m')
         then \<not> SDK_SUPPORT f (target_osver m') \<and> LIB_SUPPORT f (target_osver m')
         else SDK_SUPPORT f (target_osver m') \<longleftrightarrow> LIB_SUPPORT f (target_osver m')" for f
  proof -
    have "macro_value m' MPLS_SDK_MAJOR < sdk_before f \<longleftrightarrow> major_of v < sdk_before f" using m'(2) thresholds [of f] by auto
    also have "\<dots> \<longleftrightarrow> e < sdk_before f" using major_of_threshold [OF assms(5)] assms(6) by simp
    finally show ?thesis using os sdk by (auto simp: SDK_SUPPORT_def LIB_SUPPORT_def same_threshold)
  qed
  then show ?thesis using m'(1) by blast
qed

text \<open>The compiler is for 11.3, the SDK is that of 11.1, and the target is taken as it is.\<close>

definition for_11_3 :: macros where
  "for_11_3 = [APPLE \<mapsto> Num 1, LP64 \<mapsto> Num 1, ENVIRONMENT_MIN_REQUIRED \<mapsto> Num 110300, LEGACY_MIN_EARLY_SDK_ALLOWED \<mapsto> Num 110000]"

lemma for_11_3_ok: "fresh_macros for_11_3" "hacked for_11_3" "earliest for_11_3 = 110000" "target_of for_11_3 = Some 110300" "for_11_3 MPLS_TARGET_OSVER = None"
  by (auto simp: for_11_3_def fresh_macros_def hacked_def earliest_def target_of_def defined_def)

theorem matched_sdk_agrees_witness:
  "\<exists>m'. sdkversion (headers_of 110100 {(11, 0), (11, 1)}) for_11_3 = Some m'
    \<and> (\<forall>f. f \<noteq> SYSCONF_PHYS_PAGES \<longrightarrow> (SDK_SUPPORT f (target_osver m') \<longleftrightarrow> LIB_SUPPORT f (target_osver m')))"
proof -
  have "\<exists>m'. sdkversion (headers_of 110100 {(11, 0), (11, 1)}) for_11_3 = Some m' \<and>
    (\<forall>f. if f = SYSCONF_PHYS_PAGES \<and> 101100 \<le> (110300 :: int) \<and> \<not> MPLS_64BIT (target_osver m')
         then \<not> SDK_SUPPORT f (target_osver m') \<and> LIB_SUPPORT f (target_osver m')
         else SDK_SUPPORT f (target_osver m') \<longleftrightarrow> LIB_SUPPORT f (target_osver m'))"
    by (rule matched_sdk_agrees [OF for_11_3_ok(1) headers_of_ok]) (simp_all add: for_11_3_ok known_def major_of_def)
  then show ?thesis by metis
qed

text \<open>Elsewhere than on a Mac no feature is supplied, with the exception of the number of pages for a 32-bit target.\<close>

lemma not_apple:
  assumes "m APPLE = None" "m SDKVERSION_H = None" "m MPLS_SDK_MAJOR = None" "m MPLS_TARGET_OSVER = None"
  shows "\<exists>m'. sdkversion av m = Some m' \<and> \<not> SDK_SUPPORT f (target_osver m')
    \<and> (LIB_SUPPORT f (target_osver m') \<longleftrightarrow> f = SYSCONF_PHYS_PAGES \<and> \<not> MPLS_64BIT (target_osver m'))"
proof -
  let ?m = "m(SDKVERSION_H \<mapsto> Empty, MPLS_SDK_MAJOR \<mapsto> Num 999999)"
  have "macro_value ?m APPLE = 0" using assms(1) by (simp add: macro_value_steps)
  then have t: "target_osver ?m = ?m(MPLS_TARGET_OSVER \<mapsto> Num 999999)" using assms(4) by (simp add: target_osver_def defined_def)
  have "sdkversion av m = Some ?m" using assms by (simp add: sdkversion_def defined_def macro_value_steps Let_def)
  moreover have "\<not> SDK_SUPPORT f (target_osver ?m)" "LIB_SUPPORT f (target_osver ?m) \<longleftrightarrow> f = SYSCONF_PHYS_PAGES \<and> \<not> MPLS_64BIT (target_osver ?m)"
    using thresholds [of f] unfolding t by (auto simp: SDK_SUPPORT_def LIB_SUPPORT_def same_threshold macro_value_steps)
  ultimately show ?thesis by blast
qed

section \<open>The test of sdkversion.h\<close>

text \<open>The names of the SDKs, with what \<open>__MPLS_SDK_MAJOR\<close> is for them.\<close>

definition sdk_names :: "(string \<times> int) list" where
  "sdk_names = [(''10.4'', 1040), (''10.4u'', 1040), (''10.5'', 1050), (''10.6'', 1060), (''10.7'', 1070), (''10.8'', 1080), (''10.9'', 1090), (''10.10'', 101000),
     (''10.11'', 101100), (''10.12'', 101200), (''10.13'', 101300), (''10.14'', 101400), (''10.15'', 101500), (''11'', 110000), (''11.0'', 110000),
     (''12'', 120000), (''13'', 130000), (''14'', 140000), (''15'', 150000)]"

lemma get_sdknum_names: "list_all (\<lambda>(s, k). get_sdknum e (Some s) = Some k) sdk_names"
  by code_simp

lemma sdk_names_range: "list_all (\<lambda>(s, k). 0 \<le> k \<and> k div 10 * 10 = k) sdk_names"
  by code_simp

text \<open>the test of \<open>sdkversion.h\<close>.  Told the name of an SDK, it returns 0 over the headers of that SDK and 2 over those of any other;
  the 15.0 SDK whose headers still give 14 passes as 15.\<close>

theorem checksdk_main_checks:
  assumes "fresh_macros m" and "sdk_headers v ms av" and "known v" and "(name, k) \<in> set sdk_names"
    and "if hacked m then earliest m \<le> v else case target_of m of Some e \<Rightarrow> e \<le> v | None \<Rightarrow> True"
  shows "\<exists>m' w'. sdkversion av m = Some m'
    \<and> checksdk_main m' (Some name) w = Some (if k = (if major_of v = 140000 \<and> (15, 0) \<in> ms then 150000 else major_of v) then 0 else 2, w')"
proof -
  obtain m' where m': "sdkversion av m = Some m'" "macro_value m' MPLS_SDK_MAJOR = (if major_of v = 140000 \<and> (15, 0) \<in> ms then 150000 else major_of v)" "defined m' MPLS_SDK_MAJOR"
    using sdkversion_macros [OF assms(1-3,5)] by (auto simp: defined_def)
  have "get_sdknum e (Some name) = Some k" "0 \<le> k" "k div 10 * 10 = k" for e
    using get_sdknum_names [of e] sdk_names_range assms(4) by (auto simp: list_all_iff)
  then show ?thesis using m' by (simp add: checksdk_main_def Let_def)
qed

theorem checksdk_main_checks_witness:
  "\<exists>m' w'. sdkversion (headers_of 110300 {(11, 0), (11, 1), (11, 3)}) for_12_0 = Some m' \<and> checksdk_main m' (Some ''11.0'') w = Some (0, w')"
  using checksdk_main_checks [OF for_12_0_ok(1) headers_of_ok, where v = 110300 and name = "''11.0''" and k = 110000 and ms = "{(11, 0), (11, 1), (11, 3)}" and w = w]
  by (simp add: for_12_0_ok known_def major_of_def sdk_names_def)

text \<open>Without a name, the target must be of the first update of its version: for 11.3 the SDK of 11.3 is reported as wrong.\<close>

lemma checksdk_main_default_11_3:
  "macro_value m MPLS_SDK_MAJOR = 110000 \<Longrightarrow> defined m MPLS_SDK_MAJOR \<Longrightarrow> m ENVIRONMENT_MIN_REQUIRED = Some (Num 110300)
   \<Longrightarrow> \<exists>w'. checksdk_main m None w = Some (2, w')"
  by (simp add: checksdk_main_def get_sdknum_def defined_def macro_value_steps Let_def)

end
